(* ===== verification/Prelude.thy ===== *)
theory Prelude
  imports Main "HOL-Library.Word"
begin

text \<open>
  Shared foundations of the development of the Seventh Edition kernel
  (\<^verbatim>\<open>src/Unix_Research_v7_x86/usr/sys\<close>): C integer conversions, the kernel's sleep
  channels, the outcome type of a kernel routine with the conditions on outcomes
  that specifications are stated in, and the list lemmas the components share.
\<close>

section \<open>Fact collections\<close>

named_theorems kdefs \<open>unfolding equations of the kernel monad's combinators\<close>
named_theorems kframe \<open>what an operation leaves unchanged\<close>
named_theorems krun \<open>execution of one step of a sequence\<close>

section \<open>C integer conversions\<close>

text \<open>
  The i386 port has 32-bit \<open>int\<close> and \<open>long\<close>, 16-bit \<open>short\<close> and 8-bit \<open>char\<close>. A value is
  kept as an \<open>int\<close>; a store into a narrower field goes through one of the
  conversions below, so that the truncation is part of the model.
\<close>

definition ushort :: "int \<Rightarrow> int" where
  "ushort x = x mod 65536"

definition short :: "int \<Rightarrow> int" where
  "short x = (x + 32768) mod 65536 - 32768"

definition cint :: "int \<Rightarrow> int" where
  "cint x = (x + 2147483648) mod 4294967296 - 2147483648"

definition cuint :: "int \<Rightarrow> int" where
  "cuint x = x mod 4294967296"

definition cchar :: "int \<Rightarrow> int" where
  "cchar x = (x + 128) mod 256 - 128"

lemma cchar_id [simp]: "- 128 \<le> x \<Longrightarrow> x < 128 \<Longrightarrow> cchar x = x"
  by (simp add: cchar_def)

lemma ushort_id [simp]: "0 \<le> x \<Longrightarrow> x < 65536 \<Longrightarrow> ushort x = x"
  by (simp add: ushort_def)

lemma short_id [simp]: "- 32768 \<le> x \<Longrightarrow> x < 32768 \<Longrightarrow> short x = x"
  by (simp add: short_def)

lemma cint_id [simp]: "- 2147483648 \<le> x \<Longrightarrow> x < 2147483648 \<Longrightarrow> cint x = x"
  by (simp add: cint_def)

lemma cuint_id [simp]: "0 \<le> x \<Longrightarrow> x < 4294967296 \<Longrightarrow> cuint x = x"
  by (simp add: cuint_def)

lemma ushort_range: "0 \<le> ushort x \<and> ushort x < 65536"
  by (simp add: ushort_def)

lemma short_range: "- 32768 \<le> short x \<and> short x < 32768"
proof -
  have "0 \<le> (x + 32768) mod 65536" "(x + 32768) mod 65536 < 65536" by simp_all
  then show ?thesis by (simp add: short_def)
qed

lemma cint_range: "- 2147483648 \<le> cint x \<and> cint x < 2147483648"
proof -
  have "0 \<le> (x + 2147483648) mod 4294967296" "(x + 2147483648) mod 4294967296 < 4294967296"
    by simp_all
  then show ?thesis by (simp add: cint_def)
qed

section \<open>Outcomes of a kernel routine\<close>

text \<open>
  Buffer headers: the pool \<^verbatim>\<open>buf[]\<close>, the heads of the available list and of the device
  lists (\<^verbatim>\<open>d_tab\<close> of each \<^verbatim>\<open>bdevsw\<close> entry), and the headers used for swapping and raw I/O.
\<close>

datatype bptr = NULLB | Bfreelist | Dtab nat | Buf nat | Swbuf1 | Swbuf2 | Rmdbuf

text \<open>
  The objects a process can sleep on (\<^verbatim>\<open>p_wchan\<close> holds the address of one of them; the
  pipe code also sleeps on the inode address plus 1 and plus 2).
\<close>

datatype chan =
    Ch_buf bptr
  | Ch_inode nat
  | Ch_inode1 nat
  | Ch_inode2 nat
  | Ch_flock bptr
  | Ch_ilock bptr
  | Ch_proc nat
  | Ch_text nat
  | Ch_runin
  | Ch_runout
  | Ch_lbolt
  | Ch_u
  | Ch_ipc
  | Ch_rawq nat
  | Ch_outq nat
  | Ch_swtch

text \<open>
  A kernel routine runs until it returns (\<open>Ok\<close>), until it gives up the processor in
  \<^verbatim>\<open>sleep(chan, pri)\<close> (\<open>Slept\<close>, with the state at that point), or until it calls
  \<^verbatim>\<open>panic\<close> (\<open>Panicked\<close>, with the state at that point). \<open>Spun\<close> is the outcome of a loop
  whose fuel ran out; the components prove that it does not occur.
\<close>

datatype ('a, 's) kres =
    Ok 'a 's
  | Slept chan int 's
  | Panicked string 's
  | Spun

type_synonym ('a, 's) kmon = "'s \<Rightarrow> ('a, 's) kres"

definition kret :: "'a \<Rightarrow> ('a, 's) kmon" where
  [kdefs]: "kret x = (\<lambda>s. Ok x s)"

definition kbind :: "('a, 's) kmon \<Rightarrow> ('a \<Rightarrow> ('b, 's) kmon) \<Rightarrow> ('b, 's) kmon" where
  [kdefs]: "kbind m f = (\<lambda>s. case m s of
      Ok x t \<Rightarrow> f x t
    | Slept c p t \<Rightarrow> Slept c p t
    | Panicked msg t \<Rightarrow> Panicked msg t
    | Spun \<Rightarrow> Spun)"

definition kthen :: "('a, 's) kmon \<Rightarrow> ('b, 's) kmon \<Rightarrow> ('b, 's) kmon" where
  [kdefs]: "kthen m n = kbind m (\<lambda>_. n)"

definition kget :: "('s \<Rightarrow> 'a) \<Rightarrow> ('a, 's) kmon" where
  [kdefs]: "kget f = (\<lambda>s. Ok (f s) s)"

definition kmod :: "('s \<Rightarrow> 's) \<Rightarrow> (unit, 's) kmon" where
  [kdefs]: "kmod f = (\<lambda>s. Ok () (f s))"

definition kwhen :: "bool \<Rightarrow> (unit, 's) kmon \<Rightarrow> (unit, 's) kmon" where
  [kdefs]: "kwhen b m = (if b then m else kret ())"

definition ksleep :: "chan \<Rightarrow> int \<Rightarrow> ('a, 's) kmon" where
  [kdefs]: "ksleep c p = (\<lambda>s. Slept c p s)"

definition kpanic :: "string \<Rightarrow> ('a, 's) kmon" where
  [kdefs]: "kpanic msg = (\<lambda>s. Panicked msg s)"

definition kspin :: "('a, 's) kmon" where
  [kdefs]: "kspin = (\<lambda>s. Spun)"

fun kfor :: "'b list \<Rightarrow> ('b \<Rightarrow> (unit, 's) kmon) \<Rightarrow> (unit, 's) kmon" where
  "kfor [] f = kret ()"
| "kfor (x # xs) f = kthen (f x) (kfor xs f)"

lemma kbind_Ok: "m s = Ok x t \<Longrightarrow> kbind m f s = f x t"
  by (simp add: kbind_def)

lemma kthen_Ok: "m s = Ok x t \<Longrightarrow> kthen m n s = n t"
  by (simp add: kthen_def kbind_def)

lemma kret_run: "kret x s = Ok x s"
  by (simp add: kret_def)

lemma kmod_run: "kmod f s = Ok () (f s)"
  by (simp add: kmod_def)

lemma krun_base [krun]:
  "kbind (kret x) f s = f x s" "kbind (kget g) f s = f (g s) s" "kthen (kmod h) n s = n (h s)" "kbind (kmod h) f' s = f' () (h s)"
  "kthen (kret y) n s = n s" "kthen (kwhen b m) n s = (if b then kthen m n s else n s)"
  by (simp_all add: kdefs)

lemma krun_assoc [krun]:
  "kbind (kbind m f) g s = kbind m (\<lambda>x. kbind (f x) g) s" "kthen (kthen m n) l s = kthen m (kthen n l) s"
  "kthen (kbind m f) l s = kbind m (\<lambda>x. kthen (f x) l) s" "kbind (kthen m n) g s = kthen m (kbind n g) s"
  by (cases "m s"; simp add: kthen_def kbind_def)+

section \<open>Outcome conditions\<close>

text \<open>
  \<open>kpost r Q S P\<close>: the outcome \<open>r\<close> satisfies \<open>Q\<close> if the routine returned, \<open>S\<close> if it went to
  sleep, \<open>P\<close> if it panicked, and it did not run out of fuel.
\<close>

fun kpost :: "('a, 's) kres \<Rightarrow> ('a \<Rightarrow> 's \<Rightarrow> bool) \<Rightarrow> (chan \<Rightarrow> int \<Rightarrow> 's \<Rightarrow> bool) \<Rightarrow> (string \<Rightarrow> 's \<Rightarrow> bool) \<Rightarrow> bool" where
  "kpost (Ok x s) Q S P = Q x s"
| "kpost (Slept c p s) Q S P = S c p s"
| "kpost (Panicked m s) Q S P = P m s"
| "kpost Spun Q S P = False"

lemma kpost_ret [simp]: "kpost (kret x s) Q S P = Q x s"
  by (simp add: kret_def)

lemma kpost_bind [simp]: "kpost (kbind m f s) Q S P = kpost (m s) (\<lambda>x t. kpost (f x t) Q S P) S P"
  by (cases "m s") (simp_all add: kbind_def)

lemma kpost_then [simp]: "kpost (kthen m n s) Q S P = kpost (m s) (\<lambda>x t. kpost (n t) Q S P) S P"
  by (simp add: kthen_def)

lemma kpost_get [simp]: "kpost (kget f s) Q S P = Q (f s) s"
  by (simp add: kget_def)

lemma kpost_mod [simp]: "kpost (kmod f s) Q S P = Q () (f s)"
  by (simp add: kmod_def)

lemma kpost_sleep [simp]: "kpost (ksleep c p s) Q S P = S c p s"
  by (simp add: ksleep_def)

lemma kpost_panic [simp]: "kpost (kpanic m s) Q S P = P m s"
  by (simp add: kpanic_def)

lemma kpost_when [simp]: "kpost (kwhen b m s) Q S P = (if b then kpost (m s) Q S P else Q () s)"
  by (simp add: kwhen_def)

lemma kpost_if: "kpost ((if b then m else n) s) Q S P = (if b then kpost (m s) Q S P else kpost (n s) Q S P)"
  by simp

lemma kpost_weaken:
  assumes "kpost r Q S P" "\<And>x s. Q x s \<Longrightarrow> Q' x s" "\<And>c p s. S c p s \<Longrightarrow> S' c p s" "\<And>m s. P m s \<Longrightarrow> P' m s"
  shows "kpost r Q' S' P'"
  using assms by (cases r) auto

lemma kpost_bindI:
  assumes "kpost (m s) Q' S' P'" "\<And>x t. Q' x t \<Longrightarrow> kpost (f x t) Q S P" "\<And>c p t. S' c p t \<Longrightarrow> S c p t" "\<And>e t. P' e t \<Longrightarrow> P e t"
  shows "kpost (kbind m f s) Q S P"
  using assms by (cases "m s") (auto simp: kbind_def)

lemma kpost_thenI:
  assumes "kpost (m s) Q' S' P'" "\<And>x t. Q' x t \<Longrightarrow> kpost (n t) Q S P" "\<And>c p t. S' c p t \<Longrightarrow> S c p t" "\<And>e t. P' e t \<Longrightarrow> P e t"
  shows "kpost (kthen m n s) Q S P"
  unfolding kthen_def using assms by (rule kpost_bindI)

lemma kpost_conj:
  "kpost r Q S P \<Longrightarrow> kpost r Q' S' P' \<Longrightarrow>
     kpost r (\<lambda>x s. Q x s \<and> Q' x s) (\<lambda>c p s. S c p s \<and> S' c p s) (\<lambda>m s. P m s \<and> P' m s)"
  by (cases r) auto

lemma kpost_Ok: "kpost r Q S P \<Longrightarrow> r = Ok x s \<Longrightarrow> Q x s"
  by simp

text \<open>\<open>kinv I r\<close>: whatever the outcome, the state satisfies \<open>I\<close> (and there is one).\<close>

abbreviation kinv :: "('s \<Rightarrow> bool) \<Rightarrow> ('a, 's) kres \<Rightarrow> bool" where
  "kinv I r \<equiv> kpost r (\<lambda>_. I) (\<lambda>_ _. I) (\<lambda>_. I)"

lemma kfor_kinv:
  "I s \<Longrightarrow> (\<And>x s. x \<in> set xs \<Longrightarrow> I s \<Longrightarrow> kinv I (f x s)) \<Longrightarrow> kinv I (kfor xs f s)"
proof (induction xs arbitrary: s)
  case (Cons x xs)
  then show ?case by (auto intro: kpost_weaken)
qed simp

section \<open>Lists\<close>

lemma find_upt_Some:
  "find P [0 ..< n] = Some i \<longleftrightarrow> i < n \<and> P i \<and> (\<forall>j<i. \<not> P j)"
  by (auto simp: find_Some_iff)

lemma find_upt_None: "find P [0 ..< n] = None \<longleftrightarrow> (\<forall>j<n. \<not> P j)"
  by (auto simp: find_None_iff)

lemma takeWhile_stop: "\<not> P z \<Longrightarrow> takeWhile P (xs @ z # ys) = takeWhile P xs"
  by (induction xs) auto

lemma dropWhile_stop: "\<not> P z \<Longrightarrow> dropWhile P (xs @ z # ys) = dropWhile P xs @ z # ys"
  by (induction xs) auto

end
