(* ===== verification/Rmap.thy ===== *)
theory Rmap
  imports Prelude
begin

text \<open>
  The resource maps of \<^verbatim>\<open>sys/malloc.c\<close> (\<^verbatim>\<open>coremap\<close> and \<^verbatim>\<open>swapmap\<close>): an array of
  \<open>(m_size, m_addr)\<close> pairs with increasing addresses, ended by an entry of size 0,
  from which \<^verbatim>\<open>malloc\<close> takes the first fit and into which \<^verbatim>\<open>mfree\<close> sorts and merges.
  The array is a list; \<open>None\<close> is an access past its last slot, which the C code does not
  check. The lemmas show that the map refines a set of free units.
\<close>

section \<open>The map and its two operations\<close>

record mapent =
  m_size :: int
  m_addr :: int

type_synonym rmap = "mapent list"

definition CMAPSIZ :: nat where "CMAPSIZ = 50"
definition SMAPSIZ :: nat where "SMAPSIZ = 50"

text \<open>
  The compaction loop of both routines: slots from \<open>bp\<close> on are overwritten with their
  successors up to and including the terminator. The argument is the array after \<open>bp\<close>,
  the result the array from \<open>bp\<close> on; the old terminator slot keeps its contents.
\<close>

fun compact :: "rmap \<Rightarrow> rmap option" where
  "compact [] = None"
| "compact (e # es) =
     (if m_size e = 0 then Some (e # e # es)
      else map_option ((#) e) (compact es))"

fun malloc :: "rmap \<Rightarrow> int \<Rightarrow> (int \<times> rmap) option" where
  "malloc [] sz = None"
| "malloc (b # bs) sz =
     (if m_size b = 0 then Some (0, b # bs)
      else if m_size b \<ge> sz then
        (let a = m_addr b;
             b' = b\<lparr>m_addr := ushort (m_addr b + sz), m_size := short (m_size b - sz)\<rparr>
         in if m_size b' = 0 then map_option (\<lambda>r. (a, r)) (compact bs)
            else Some (a, b' # bs))
      else map_option (\<lambda>(a, r). (a, b # r)) (malloc bs sz))"

text \<open>
  The insertion loop of \<^verbatim>\<open>mfree\<close>: every slot takes the entry carried so far and the old
  entry is carried on, until the entry carried has size 0, which is not stored.
\<close>

fun insert_shift :: "int \<Rightarrow> int \<Rightarrow> rmap \<Rightarrow> rmap option" where
  "insert_shift sz a [] = None"
| "insert_shift sz a (b # bs) =
     (let b' = b\<lparr>m_addr := ushort a, m_size := short sz\<rparr>
      in if m_size b = 0 then Some (b' # bs)
         else map_option ((#) b') (insert_shift (m_size b) (m_addr b) bs))"

definition mfree_scan :: "int \<Rightarrow> mapent \<Rightarrow> bool" where
  "mfree_scan a b \<longleftrightarrow> m_addr b \<le> a \<and> m_size b \<noteq> 0"

definition mfree_at :: "rmap \<Rightarrow> rmap \<Rightarrow> int \<Rightarrow> int \<Rightarrow> rmap option" where
  "mfree_at pre suf sz a =
     (case suf of
        [] \<Rightarrow> None
      | bp # rest \<Rightarrow>
          (if pre \<noteq> [] \<and> m_addr (last pre) + m_size (last pre) = a then
             (let l = (last pre)\<lparr>m_size := short (m_size (last pre) + sz)\<rparr>
              in if a + sz = m_addr bp then
                   (let l' = l\<lparr>m_size := short (m_size l + m_size bp)\<rparr>
                    in if m_size bp \<noteq> 0
                       then map_option (\<lambda>r. butlast pre @ l' # r) (compact rest)
                       else Some (butlast pre @ l' # suf))
                 else Some (butlast pre @ l # suf))
           else if a + sz = m_addr bp \<and> m_size bp \<noteq> 0 then
             Some (pre @ bp\<lparr>m_addr := ushort (m_addr bp - sz),
                            m_size := short (m_size bp + sz)\<rparr> # rest)
           else if sz \<noteq> 0 then
             map_option (\<lambda>r. pre @ r) (insert_shift sz a suf)
           else Some (pre @ suf)))"

definition mfree_map :: "rmap \<Rightarrow> int \<Rightarrow> int \<Rightarrow> rmap option" where
  "mfree_map mp sz a =
     mfree_at (takeWhile (mfree_scan a) mp) (dropWhile (mfree_scan a) mp) sz a"

section \<open>Well-formed maps and the set of free units\<close>

definition active :: "rmap \<Rightarrow> rmap" where
  "active mp = takeWhile (\<lambda>b. m_size b \<noteq> 0) mp"

definition spare :: "rmap \<Rightarrow> rmap" where
  "spare mp = dropWhile (\<lambda>b. m_size b \<noteq> 0) mp"

definition span :: "mapent \<Rightarrow> int set" where
  "span b = {m_addr b ..< m_addr b + m_size b}"

definition units :: "rmap \<Rightarrow> int set" where
  "units mp = (\<Union>b\<in>set (active mp). span b)"

text \<open>
  \<open>ordered lo hi es\<close>: the entries lie between \<open>lo\<close> and \<open>hi\<close>, in increasing order, and
  neither overlap nor touch (adjacent entries would have been merged).
\<close>

fun ordered :: "int \<Rightarrow> int \<Rightarrow> rmap \<Rightarrow> bool" where
  "ordered lo hi [] = True"
| "ordered lo hi (b # bs) \<longleftrightarrow>
     lo \<le> m_addr b \<and> 0 < m_size b \<and> m_addr b + m_size b \<le> hi \<and>
     ordered (m_addr b + m_size b + 1) hi bs"

definition map_ok :: "int \<Rightarrow> int \<Rightarrow> rmap \<Rightarrow> bool" where
  "map_ok lo hi mp \<longleftrightarrow>
     0 < lo \<and> hi \<le> 32768 \<and> ordered lo hi (active mp) \<and>
     spare mp \<noteq> [] \<and> (\<forall>b\<in>set (spare mp). m_size b = 0)"

lemma active_spare: "active mp @ spare mp = mp"
  by (simp add: active_def spare_def)

section \<open>Lemmas on ordered entry lists\<close>

lemma ordered_nonzero: "ordered lo hi es \<Longrightarrow> b \<in> set es \<Longrightarrow> 0 < m_size b"
  by (induction es arbitrary: lo) auto

lemma ordered_sizes: "ordered lo hi es \<Longrightarrow> b \<in> set es \<Longrightarrow> m_size b \<noteq> 0"
  by (auto dest: ordered_nonzero)

lemma ordered_mono: "ordered lo hi es \<Longrightarrow> lo' \<le> lo \<Longrightarrow> hi \<le> hi' \<Longrightarrow> ordered lo' hi' es"
  by (induction es arbitrary: lo lo') auto

lemma ordered_bounds: "ordered lo hi es \<Longrightarrow> b \<in> set es \<Longrightarrow> lo \<le> m_addr b \<and> m_addr b + m_size b \<le> hi"
proof (induction es arbitrary: lo)
  case (Cons c es)
  then show ?case by fastforce
qed simp

lemma ordered_append:
  "ordered lo hi (xs @ b # ys) \<longleftrightarrow>
     ordered lo (m_addr b - 1) xs \<and> lo \<le> m_addr b \<and> 0 < m_size b \<and>
     m_addr b + m_size b \<le> hi \<and> ordered (m_addr b + m_size b + 1) hi ys"
proof (induction xs arbitrary: lo)
  case (Cons x xs)
  show ?case
    by (simp only: append_Cons ordered.simps Cons.IH) linarith
qed simp

lemma span_ordered: "ordered lo hi es \<Longrightarrow> (\<Union>b\<in>set es. span b) \<subseteq> {lo ..< hi}"
  by (fastforce simp: span_def dest: ordered_bounds)

lemma ordered_disjoint_span:
  assumes "ordered lo hi (xs @ b # ys)"
  shows "span b \<inter> (\<Union>c\<in>set xs \<union> set ys. span c) = {}"
proof -
  from assms have "ordered lo (m_addr b - 1) xs" "ordered (m_addr b + m_size b + 1) hi ys"
    by (simp_all add: ordered_append)
  from this [THEN span_ordered] show ?thesis
    by (auto simp: span_def)
qed

section \<open>The shape of a well-formed map\<close>

lemma active_append:
  assumes "\<And>b. b \<in> set act \<Longrightarrow> m_size b \<noteq> 0" and "\<And>b. b \<in> set sp \<Longrightarrow> m_size b = 0"
  shows "active (act @ sp) = act" and "spare (act @ sp) = sp"
proof -
  have sp: "takeWhile (\<lambda>b. m_size b \<noteq> 0) sp = []" "dropWhile (\<lambda>b. m_size b \<noteq> 0) sp = sp"
    using assms(2) by (cases sp; simp)+
  show "active (act @ sp) = act" "spare (act @ sp) = sp"
    using assms(1) by (simp_all add: active_def spare_def sp)
qed

lemma map_ok_append:
  "map_ok lo hi (act @ sp) \<longleftrightarrow>
     0 < lo \<and> hi \<le> 32768 \<and> ordered lo hi act \<and> sp \<noteq> []"
  if "\<And>b. b \<in> set act \<Longrightarrow> m_size b \<noteq> 0" and "\<And>b. b \<in> set sp \<Longrightarrow> m_size b = 0"
  using active_append [of act sp, OF that] that by (auto simp: map_ok_def)

lemma map_ok_append_intro:
  assumes "0 < lo" "hi \<le> 32768" "ordered lo hi act" "sp \<noteq> []" "\<forall>b\<in>set sp. m_size b = 0"
  shows "map_ok lo hi (act @ sp)" and "units (act @ sp) = (\<Union>b\<in>set act. span b)"
    and "active (act @ sp) = act" and "spare (act @ sp) = sp"
proof -
  have nz: "b \<in> set act \<Longrightarrow> m_size b \<noteq> 0" for b
    using assms(3) by (auto dest: ordered_nonzero)
  show "map_ok lo hi (act @ sp)"
    using assms nz by (subst map_ok_append) auto
  show "spare (act @ sp) = sp"
    using assms nz by (intro active_append) auto
  show "active (act @ sp) = act"
    using assms nz by (intro active_append) auto
  then show "units (act @ sp) = (\<Union>b\<in>set act. span b)"
    by (simp add: units_def)
qed

lemma map_ok_cases:
  assumes "map_ok lo hi mp"
  obtains act z sp where "mp = act @ z # sp" "active mp = act" "ordered lo hi act"
    "m_size z = 0" "\<forall>b\<in>set sp. m_size b = 0" "0 < lo" "hi \<le> 32768"
    "units mp = (\<Union>b\<in>set act. span b)" "spare mp = z # sp"
proof -
  from assms obtain z sp where z: "spare mp = z # sp"
    by (cases "spare mp") (auto simp: map_ok_def)
  show thesis
    by (rule that [of "active mp" z sp])
       (use assms z active_spare [of mp] in \<open>auto simp: map_ok_def units_def\<close>)
qed

lemma compact_append:
  "(\<And>b. b \<in> set ys \<Longrightarrow> m_size b \<noteq> 0) \<Longrightarrow> m_size z = 0 \<Longrightarrow>
     compact (ys @ z # sp) = Some (ys @ z # z # sp)"
  by (induction ys) auto

lemma mapent_set [simp]:
  "(b::mapent)\<lparr>m_addr := a, m_size := n\<rparr> = \<lparr>m_size = n, m_addr = a\<rparr>"
  "\<lparr>m_size = m_size b, m_addr = m_addr b\<rparr> = b"
  by (cases b, simp)+

lemma insert_shift_append:
  assumes "\<And>b. b \<in> set ys \<Longrightarrow> 0 \<le> m_addr b \<and> m_addr b < 65536 \<and> 0 < m_size b \<and> m_size b < 32768"
    and "m_size z = 0" "0 \<le> a" "a < 65536" "0 < sz" "sz < 32768"
  shows "insert_shift sz a (ys @ z # sp) = Some (\<lparr>m_size = sz, m_addr = a\<rparr> # ys @ sp)"
  using assms
proof (induction ys arbitrary: sz a)
  case (Cons y ys)
  from Cons.prems(1) [of y] have y: "0 \<le> m_addr y" "m_addr y < 65536" "0 < m_size y" "m_size y < 32768"
    by auto
  have "insert_shift (m_size y) (m_addr y) (ys @ z # sp) =
      Some (\<lparr>m_size = m_size y, m_addr = m_addr y\<rparr> # ys @ sp)"
    using Cons.prems y by (intro Cons.IH) auto
  then show ?case using Cons.prems(3-) y by simp
qed simp
section \<open>First fit\<close>

lemma malloc_skip:
  "(\<forall>b\<in>set xs. m_size b \<noteq> 0 \<and> m_size b < sz) \<Longrightarrow>
     malloc (xs @ bs) sz = map_option (\<lambda>(a, r). (a, xs @ r)) (malloc bs sz)"
  by (induction xs) (auto simp: option.map_comp o_def split_def option.map_ident)

lemma malloc_hit:
  assumes "ordered lo hi (b # ys)" "0 \<le> lo" "hi \<le> 32768" "0 < sz" "sz \<le> m_size b" "m_size z = 0"
  shows "malloc (b # ys @ z # sp) sz = Some (m_addr b,
      if m_size b = sz then ys @ z # z # sp
      else \<lparr>m_size = m_size b - sz, m_addr = m_addr b + sz\<rparr> # ys @ z # sp)"
proof -
  have "b' \<in> set ys \<Longrightarrow> m_size b' \<noteq> 0" for b'
    using assms(1) by (auto dest: ordered_nonzero)
  from compact_append [of ys z sp, OF this assms(6)] assms show ?thesis
    by (simp add: Let_def)
qed

text \<open>
  Adjacent entries are merged, so a free run of units lies within one entry: the map
  has room for a request exactly if some entry is large enough.
\<close>

lemma run_in_span:
  assumes "ordered lo hi es" "0 < sz" "{a ..< a + sz} \<subseteq> (\<Union>b\<in>set es. span b)"
  shows "\<exists>b\<in>set es. {a ..< a + sz} \<subseteq> span b"
  using assms
proof (induction es arbitrary: lo)
  case (Cons b es)
  have "(\<Union>c\<in>set es. span c) \<subseteq> {m_addr b + m_size b + 1 ..< hi}"
    using Cons.prems(1) by (intro span_ordered) simp
  then have es: "m_addr b + m_size b < x" if "x \<in> span c" "c \<in> set es" for x c
    using that by fastforce
  show ?case
  proof (cases "a < m_addr b + m_size b")
    case True
    have "a \<in> {a ..< a + sz}" using Cons.prems(2) by simp
    then have "a \<in> (\<Union>c\<in>set (b # es). span c)" using Cons.prems(3) by blast
    with True es [of a] have a: "m_addr b \<le> a" by (force simp: span_def [of b])
    have "a + sz \<le> m_addr b + m_size b"
    proof (rule ccontr)
      assume "\<not> a + sz \<le> m_addr b + m_size b"
      then have "m_addr b + m_size b \<in> {a ..< a + sz}" using True by simp
      then have "m_addr b + m_size b \<in> (\<Union>c\<in>set (b # es). span c)" using Cons.prems(3) by blast
      with es [of "m_addr b + m_size b"] show False by (force simp: span_def [of b])
    qed
    with a have "{a ..< a + sz} \<subseteq> span b" by (auto simp: span_def)
    then show ?thesis by simp
  next
    case False
    then have "{a ..< a + sz} \<subseteq> (\<Union>c\<in>set es. span c)"
      using Cons.prems(3) by (auto simp: span_def)
    with Cons.IH [of "m_addr b + m_size b + 1"] Cons.prems(1,2) show ?thesis by auto
  qed
qed simp

lemma diff_of_disjoint: "B \<inter> U = {} \<Longrightarrow> S \<subseteq> B \<Longrightarrow> (B \<union> U) - S = (B - S) \<union> U"
  by blast

lemma malloc_first_fit:
  assumes ok: "map_ok lo hi mp" and sz: "0 < sz"
    and act: "active mp = xs @ b # ys" and small: "\<And>c. c \<in> set xs \<Longrightarrow> m_size c < sz"
    and fit: "sz \<le> m_size b"
  obtains mp' where "malloc mp sz = Some (m_addr b, mp')" "map_ok lo hi mp'"
    "units mp' = units mp - {m_addr b ..< m_addr b + sz}"
    "length mp' = length mp" "length (spare mp) \<le> length (spare mp')"
proof -
  from ok obtain z sp where mp: "mp = (xs @ b # ys) @ z # sp" and ord: "ordered lo hi (xs @ b # ys)"
    and z: "m_size z = 0" and sp: "\<forall>b\<in>set sp. m_size b = 0" and lohi: "0 < lo" "hi \<le> 32768"
    and un: "units mp = (\<Union>b\<in>set (xs @ b # ys). span b)" and spmp: "spare mp = z # sp"
    by (rule map_ok_cases) (use act in auto)
  let ?b = "\<lparr>m_size = m_size b - sz, m_addr = m_addr b + sz\<rparr>"
  define act' where "act' = (if m_size b = sz then xs @ ys else xs @ ?b # ys)"
  define sp' where "sp' = (if m_size b = sz then z # z # sp else z # sp)"
  have ordb: "ordered (m_addr b) hi (b # ys)" "ordered lo (m_addr b - 1) xs" "lo \<le> m_addr b"
    using ord by (simp_all add: ordered_append)
  have "malloc mp sz = Some (m_addr b, act' @ sp')"
  proof -
    have "malloc ((xs @ b # ys) @ z # sp) sz =
        map_option (\<lambda>(a, r). (a, xs @ r)) (malloc (b # ys @ z # sp) sz)"
      using malloc_skip [of xs sz "b # ys @ z # sp"] small ordered_nonzero [OF ordb(2)] by force
    with malloc_hit [OF ordb(1) _ lohi(2) sz fit z, of sp] ordb(3) lohi(1) mp show ?thesis
      by (simp add: act'_def sp'_def)
  qed
  moreover have ord': "ordered lo hi act'"
  proof (cases "m_size b = sz")
    case True
    have "ordered lo hi (xs @ ys)"
    proof (cases ys)
      case Nil
      with ordb ord show ?thesis by (auto intro: ordered_mono)
    next
      case (Cons y ys')
      with ordb ord show ?thesis by (auto simp: ordered_append intro: ordered_mono)
    qed
    with True show ?thesis by (simp add: act'_def)
  next
    case False
    with ordb fit sz show ?thesis
      by (auto simp: act'_def ordered_append intro: ordered_mono)
  qed
  moreover have "(\<Union>c\<in>set act'. span c) = units mp - {m_addr b ..< m_addr b + sz}"
  proof -
    let ?u = "\<Union>c\<in>set xs \<union> set ys. span c"
    have disj: "span b \<inter> ?u = {}"
      by (rule ordered_disjoint_span [OF ord])
    have sub: "{m_addr b ..< m_addr b + sz} \<subseteq> span b" using fit by (auto simp: span_def)
    have "span ?b = span b - {m_addr b ..< m_addr b + sz}"
      using fit sz by (auto simp: span_def)
    moreover have "m_size b = sz \<Longrightarrow> span b = {m_addr b ..< m_addr b + sz}"
      by (simp add: span_def)
    moreover have "units mp = span b \<union> ?u" by (simp add: un Un_ac)
    moreover have "(\<Union>c\<in>set act'. span c) = (if m_size b = sz then ?u else span ?b \<union> ?u)"
      by (simp add: act'_def Un_ac)
    ultimately show ?thesis
      using diff_of_disjoint [OF disj sub] by (cases "m_size b = sz") (simp_all only: if_cancel Diff_cancel Un_empty_left if_False)
  qed
  moreover have "sp' \<noteq> []" "\<forall>b\<in>set sp'. m_size b = 0" using z sp by (auto simp: sp'_def)
  note map_ok_append_intro [OF lohi ord' this]
  moreover have "length (act' @ sp') = length mp"
    by (simp add: act'_def sp'_def mp)
  ultimately show thesis
    by (intro that [of "act' @ sp'"]) (simp_all add: spmp sp'_def)
qed

lemma malloc_no_fit:
  assumes "map_ok lo hi mp" and "\<And>b. b \<in> set (active mp) \<Longrightarrow> m_size b < sz"
  shows "malloc mp sz = Some (0, mp)"
proof -
  from assms(1) obtain act z sp where "mp = act @ z # sp" "active mp = act" "ordered lo hi act" "m_size z = 0"
    by (rule map_ok_cases)
  with assms(2) ordered_nonzero [of lo hi act] malloc_skip [of act sz "z # sp"] show ?thesis
    by force
qed
section \<open>Freeing\<close>

text \<open>
  \<^verbatim>\<open>mfree\<close> stops its scan at the first entry above \<open>a\<close>; what it frees does not
  overlap the map, so it fits between the two parts.
\<close>

lemma mfree_split:
  assumes ord: "ordered lo hi act" and z: "m_size z = 0"
    and disj: "{a ..< a + sz} \<inter> (\<Union>b\<in>set act. span b) = {}" and sz: "0 < sz"
  obtains xs ys where "act = xs @ ys"
    "takeWhile (mfree_scan a) (act @ z # sp) = xs"
    "dropWhile (mfree_scan a) (act @ z # sp) = ys @ z # sp"
    "\<And>b. b \<in> set xs \<Longrightarrow> m_addr b + m_size b \<le> a"
    "\<And>b. b \<in> set ys \<Longrightarrow> a + sz \<le> m_addr b"
proof
  let ?xs = "takeWhile (mfree_scan a) act" and ?ys = "dropWhile (mfree_scan a) act"
  show "act = ?xs @ ?ys" by simp
  show "takeWhile (mfree_scan a) (act @ z # sp) = ?xs"
    "dropWhile (mfree_scan a) (act @ z # sp) = ?ys @ z # sp"
    using z by (simp_all add: takeWhile_stop dropWhile_stop mfree_scan_def)
  show "m_addr b + m_size b \<le> a" if "b \<in> set ?xs" for b
  proof -
    from that have "b \<in> set act" "m_addr b \<le> a"
      by (auto dest: set_takeWhileD simp: mfree_scan_def)
    moreover have "a \<in> {a ..< a + sz}" using sz by simp
    ultimately have "a \<notin> span b" using disj by blast
    with \<open>m_addr b \<le> a\<close> show ?thesis by (simp add: span_def)
  qed
  show "a + sz \<le> m_addr b" if "b \<in> set ?ys" for b
  proof -
    from that have b: "b \<in> set act" by (rule set_dropWhileD)
    have "a < m_addr b"
    proof (cases ?ys)
      case (Cons y ys)
      then have "\<not> mfree_scan a y" using hd_dropWhile [of "mfree_scan a" act] by simp
      moreover have "ordered lo hi (?xs @ y # ys)" using ord Cons by (metis takeWhile_dropWhile_id)
      then have "0 < m_size y" "ordered (m_addr y + m_size y + 1) hi ys" by (simp_all add: ordered_append)
      moreover from this ordered_bounds [of _ hi ys b] have "b \<in> set ys \<Longrightarrow> m_addr y < m_addr b" by force
      ultimately show ?thesis using that Cons by (auto simp: mfree_scan_def)
    next
      case Nil
      with that show ?thesis by (simp only: list.set empty_iff)
    qed
    moreover have "m_addr b \<in> span b" using ordered_nonzero [OF ord b] by (simp add: span_def)
    then have "m_addr b \<notin> {a ..< a + sz}" using disj b by blast
    ultimately show ?thesis by simp
  qed
qed

text \<open>
  The entries \<^verbatim>\<open>mfree\<close> leaves: the freed run merged with a neighbour it touches on the
  left (\<open>l\<close>) and on the right (\<open>r\<close>), or inserted between them.
\<close>

definition merged :: "rmap \<Rightarrow> rmap \<Rightarrow> int \<Rightarrow> int \<Rightarrow> rmap" where
  "merged xs ys sz a =
     (let l = (xs \<noteq> [] \<and> m_addr (last xs) + m_size (last xs) = a);
          r = (ys \<noteq> [] \<and> a + sz = m_addr (hd ys));
          lo = (if l then m_addr (last xs) else a);
          hi = (if r then m_addr (hd ys) + m_size (hd ys) else a + sz)
      in (if l then butlast xs else xs) @ \<lparr>m_size = hi - lo, m_addr = lo\<rparr> #
         (if r then tl ys else ys))"

lemma merged_ordered:
  assumes ord: "ordered lo hi (xs @ ys)" and a: "lo \<le> a" "a + sz \<le> hi" "0 < sz"
    and xs: "\<And>b. b \<in> set xs \<Longrightarrow> m_addr b + m_size b \<le> a"
    and ys: "\<And>b. b \<in> set ys \<Longrightarrow> a + sz \<le> m_addr b"
  shows "ordered lo hi (merged xs ys sz a)"
    and "(\<Union>b\<in>set (merged xs ys sz a). span b) = (\<Union>b\<in>set (xs @ ys). span b) \<union> {a ..< a + sz}"
proof -
  obtain xs' l where L: "xs = [] \<or> xs = xs' @ [l]" by (cases xs rule: rev_cases) auto
  obtain ys' r where R: "ys = [] \<or> ys = r # ys'" by (cases ys) auto
  from L R xs ys ord have l: "xs = xs' @ [l] \<Longrightarrow> m_addr l + m_size l \<le> a \<and> 0 < m_size l"
    and r: "ys = r # ys' \<Longrightarrow> a + sz \<le> m_addr r \<and> 0 < m_size r"
    by (auto dest: ordered_nonzero)
  show "ordered lo hi (merged xs ys sz a)"
    using L R ord a l r
    by (elim disjE) (auto simp: merged_def Let_def ordered_append intro: ordered_mono)
  show "(\<Union>b\<in>set (merged xs ys sz a). span b) = (\<Union>b\<in>set (xs @ ys). span b) \<union> {a ..< a + sz}"
    using L R l r a(3)
    by (elim disjE) (auto simp: merged_def Let_def span_def split: if_splits)
qed
lemma mfree_at_merged:
  assumes ord: "ordered lo hi (xs @ ys)" and lohi: "0 < lo" "hi \<le> 32768"
    and a: "lo \<le> a" "a + sz \<le> hi" "0 < sz" and z: "m_size z = 0"
    and xs: "\<And>b. b \<in> set xs \<Longrightarrow> m_addr b + m_size b \<le> a"
    and ys: "\<And>b. b \<in> set ys \<Longrightarrow> a + sz \<le> m_addr b"
  shows "\<exists>sp'\<in>{sp, z # sp, z # z # sp}. mfree_at xs (ys @ z # sp) sz a = Some (merged xs ys sz a @ sp')"
proof -
  obtain xs' l where L: "xs = [] \<or> xs = xs' @ [l]" by (cases xs rule: rev_cases) auto
  obtain ys' r where R: "ys = [] \<or> ys = r # ys'" by (cases ys) auto
  have l: "xs = xs' @ [l] \<Longrightarrow> m_addr l + m_size l \<le> a \<and> 0 < m_size l \<and> lo \<le> m_addr l"
    using xs ordered_nonzero [OF ord] ordered_bounds [OF ord] by auto
  have r: "ys = r # ys' \<Longrightarrow> a + sz \<le> m_addr r \<and> 0 < m_size r \<and> m_addr r + m_size r \<le> hi"
    using ys ordered_nonzero [OF ord] ordered_bounds [OF ord] by auto
  have cp: "ys = r # ys' \<Longrightarrow> compact (ys' @ z # sp) = Some (ys' @ z # z # sp)"
    using ordered_sizes [OF ord] z by (intro compact_append) auto
  have ins: "insert_shift sz a (ys @ z # sp) = Some (\<lparr>m_size = sz, m_addr = a\<rparr> # ys @ sp)"
    using a lohi z ordered_nonzero [OF ord] ordered_bounds [OF ord]
    by (intro insert_shift_append) force+
  show ?thesis
    using L R l r cp ins a lohi z
    by (elim disjE) (auto simp: mfree_at_def merged_def Let_def)
qed

lemma mfree_frees:
  assumes ok: "map_ok lo hi mp" and a: "lo \<le> a" "a + sz \<le> hi" "0 < sz"
    and disj: "{a ..< a + sz} \<inter> units mp = {}" and room: "2 \<le> length (spare mp)"
  obtains mp' where "mfree_map mp sz a = Some mp'" "map_ok lo hi mp'"
    "units mp' = units mp \<union> {a ..< a + sz}"
proof -
  from ok obtain act z sp where mp: "mp = act @ z # sp" and ord: "ordered lo hi act" and z: "m_size z = 0"
    and sp: "\<forall>b\<in>set sp. m_size b = 0" and lohi: "0 < lo" "hi \<le> 32768"
    and un: "units mp = (\<Union>b\<in>set act. span b)" and spmp: "spare mp = z # sp"
    by (rule map_ok_cases)
  from disj un obtain xs ys where act: "act = xs @ ys"
    and sc: "takeWhile (mfree_scan a) mp = xs" "dropWhile (mfree_scan a) mp = ys @ z # sp"
    and xs: "\<And>b. b \<in> set xs \<Longrightarrow> m_addr b + m_size b \<le> a"
    and ys: "\<And>b. b \<in> set ys \<Longrightarrow> a + sz \<le> m_addr b"
    using mfree_split [OF ord z _ a(3), of a sp] mp by metis
  from mfree_at_merged [OF ord [unfolded act] lohi a z xs ys, of sp]
  obtain sp' where sp': "sp' \<in> {sp, z # sp, z # z # sp}"
    and r: "mfree_map mp sz a = Some (merged xs ys sz a @ sp')"
    by (auto simp: mfree_map_def sc)
  have "sp \<noteq> []" using room spmp by auto
  with sp' sp z have "sp' \<noteq> []" "\<forall>b\<in>set sp'. m_size b = 0" by auto
  note ok' = map_ok_append_intro [OF lohi merged_ordered(1) [OF ord [unfolded act] a xs ys] this]
  show thesis
    by (rule that [OF r ok'(1)]) (simp_all add: ok'(2) merged_ordered(2) [OF ord [unfolded act] a xs ys] un act)
qed

text \<open>A well-formed map is determined by its free units.\<close>

lemma first_run_unique:
  fixes E F :: "int set"
  assumes U: "{a ..< b} \<union> E = {c ..< d} \<union> F" and ab: "a < b" and cd: "c < d"
    and E: "\<And>x. x \<in> E \<Longrightarrow> b < x" and F: "\<And>x. x \<in> F \<Longrightarrow> d < x"
  shows "a = c \<and> b = d \<and> E = F"
proof -
  have mem: "x \<in> {a ..< b} \<or> x \<in> E \<longleftrightarrow> x \<in> {c ..< d} \<or> x \<in> F" for x
    using U by blast
  have ac: "a = c"
    using mem [of a] mem [of c] ab cd E [of c] F [of a] by force
  moreover have bd: "b = d"
    using mem [of b] mem [of d] ab cd ac E [of b] E [of d] F [of b] F [of d] by force
  moreover have "x \<in> E \<longleftrightarrow> x \<in> F" for x
    using mem [of x] ac bd E [of x] F [of x] by force
  ultimately show ?thesis by blast
qed

lemma ordered_unique:
  assumes "ordered lo hi es" "ordered lo hi' fs" "(\<Union>b\<in>set es. span b) = (\<Union>b\<in>set fs. span b)"
  shows "es = fs"
  using assms
proof (induction es arbitrary: lo fs)
  case Nil
  then show ?case by (cases fs) (auto simp: span_def)
next
  case (Cons e es)
  show ?case
  proof (cases fs)
    case Nil
    with Cons.prems show ?thesis by (auto simp: span_def)
  next
    case (Cons f fs')
    let ?E = "\<Union>b\<in>set es. span b" and ?F = "\<Union>b\<in>set fs'. span b"
    have E: "?E \<subseteq> {m_addr e + m_size e + 1 ..< hi}" and F: "?F \<subseteq> {m_addr f + m_size f + 1 ..< hi'}"
      using Cons.prems Cons by (auto intro!: span_ordered simp del: UN_simps)
    have "{m_addr e ..< m_addr e + m_size e} \<union> ?E = {m_addr f ..< m_addr f + m_size f} \<union> ?F"
      using Cons.prems(3) Cons by (simp add: span_def)
    moreover have "m_addr e < m_addr e + m_size e" "m_addr f < m_addr f + m_size f"
      using Cons.prems Cons by simp_all
    ultimately have eq: "m_addr e = m_addr f \<and> m_addr e + m_size e = m_addr f + m_size f \<and> ?E = ?F"
      by (rule first_run_unique) (use E F in fastforce)+
    then have ef: "e = f" by (cases e, cases f) simp
    have "?E = ?F" using eq by blast
    with Cons.IH [of "m_addr e + m_size e + 1" fs'] Cons.prems ef Cons show ?thesis by simp
  qed
qed
section \<open>The allocator interface\<close>

text \<open>
  What the clients of the maps (\<^verbatim>\<open>swapin\<close>, \<^verbatim>\<open>newproc\<close>, \<^verbatim>\<open>expand\<close>, \<^verbatim>\<open>xswap\<close>, \<^verbatim>\<open>exece\<close>) rely on: a request
  takes free units and nothing else, 0 means that no run is long enough, and a release
  returns exactly what it is given.
\<close>

locale unit_allocator =
  fixes get :: "'m \<Rightarrow> int \<Rightarrow> (int \<times> 'm) option"
    and put :: "'m \<Rightarrow> int \<Rightarrow> int \<Rightarrow> 'm option"
    and inv :: "'m \<Rightarrow> bool"
    and slack :: "'m \<Rightarrow> nat"
    and avail :: "'m \<Rightarrow> int set"
    and lo :: int and hi :: int
  assumes get_total: "inv m \<Longrightarrow> 0 < n \<Longrightarrow> \<exists>a m'. get m n = Some (a, m')"
    and get_none: "inv m \<Longrightarrow> 0 < n \<Longrightarrow> get m n = Some (0, m') \<Longrightarrow>
      m' = m \<and> (\<nexists>a. {a ..< a + n} \<subseteq> avail m)"
    and get_some: "inv m \<Longrightarrow> 0 < n \<Longrightarrow> get m n = Some (a, m') \<Longrightarrow> a \<noteq> 0 \<Longrightarrow>
      inv m' \<and> {a ..< a + n} \<subseteq> avail m \<and> avail m' = avail m - {a ..< a + n} \<and> slack m \<le> slack m'"
    and put_some: "inv m \<Longrightarrow> lo \<le> a \<Longrightarrow> a + n \<le> hi \<Longrightarrow> 0 < n \<Longrightarrow> {a ..< a + n} \<inter> avail m = {} \<Longrightarrow>
      2 \<le> slack m \<Longrightarrow> \<exists>m'. put m n a = Some m' \<and> inv m' \<and> avail m' = avail m \<union> {a ..< a + n}"
    and avail_range: "inv m \<Longrightarrow> avail m \<subseteq> {lo ..< hi}"
begin

lemma gets_disjoint:
  assumes "inv m" "0 < n" "0 < n'" "get m n = Some (a, m')" "a \<noteq> 0" "get m' n' = Some (b, m'')" "b \<noteq> 0"
  shows "{a ..< a + n} \<inter> {b ..< b + n'} = {}"
  using get_some [OF assms(1,2,4,5)] get_some [OF _ assms(3,6,7)] by blast

lemma get_put:
  assumes "inv m" "0 < n" "get m n = Some (a, m')" "a \<noteq> 0" "2 \<le> slack m"
  shows "\<exists>m''. put m' n a = Some m'' \<and> inv m'' \<and> avail m'' = avail m"
proof -
  from get_some [OF assms(1-4)] have m': "inv m'" "{a ..< a + n} \<subseteq> avail m"
    "avail m' = avail m - {a ..< a + n}" "slack m \<le> slack m'" by auto
  have "a \<in> {a ..< a + n}" "a + n - 1 \<in> {a ..< a + n}" using assms(2) by auto
  then have "a \<in> {lo ..< hi}" "a + n - 1 \<in> {lo ..< hi}"
    using m'(2) avail_range [OF assms(1)] by blast+
  then have "lo \<le> a" "a + n \<le> hi" by auto
  from put_some [OF m'(1) this assms(2)] m' assms(5) show ?thesis by (auto simp: Un_absorb1)
qed

end

lemma malloc_cases:
  assumes ok: "map_ok lo hi mp" and sz: "0 < sz"
  obtains (none) "find (\<lambda>b. sz \<le> m_size b) (active mp) = None" "malloc mp sz = Some (0, mp)"
      "\<nexists>a. {a ..< a + sz} \<subseteq> units mp"
  | (some) b mp' where "find (\<lambda>b. sz \<le> m_size b) (active mp) = Some b"
      "malloc mp sz = Some (m_addr b, mp')" "m_addr b \<noteq> 0" "map_ok lo hi mp'"
      "{m_addr b ..< m_addr b + sz} \<subseteq> units mp"
      "units mp' = units mp - {m_addr b ..< m_addr b + sz}"
      "length (spare mp) \<le> length (spare mp')" "length mp' = length mp"
proof (cases "find (\<lambda>b. sz \<le> m_size b) (active mp)")
  case None
  then have small: "b \<in> set (active mp) \<Longrightarrow> m_size b < sz" for b by (auto simp: find_None_iff)
  have "\<nexists>a. {a ..< a + sz} \<subseteq> units mp"
  proof
    assume "\<exists>a. {a ..< a + sz} \<subseteq> units mp"
    then obtain a where a: "{a ..< a + sz} \<subseteq> units mp" by blast
    with run_in_span [of lo hi "active mp" sz a] ok sz obtain b where
      b: "b \<in> set (active mp)" "{a ..< a + sz} \<subseteq> span b" by (auto simp: map_ok_def units_def)
    have "a \<in> {a ..< a + sz}" "a + sz - 1 \<in> {a ..< a + sz}" using sz by auto
    with b(2) have "a \<in> span b" "a + sz - 1 \<in> span b" by blast+
    with small [OF b(1)] show False by (simp add: span_def)
  qed
  with none None malloc_no_fit [OF ok small] show thesis by blast
next
  case (Some b)
  then obtain i where i: "i < length (active mp)" "sz \<le> m_size b" "b = active mp ! i"
    "\<forall>j<i. m_size (active mp ! j) < sz" by (auto simp: find_Some_iff not_le)
  let ?xs = "take i (active mp)" and ?ys = "drop (Suc i) (active mp)"
  have act: "active mp = ?xs @ b # ?ys" using i by (simp add: id_take_nth_drop)
  have small: "c \<in> set ?xs \<Longrightarrow> m_size c < sz" for c using i by (auto simp: in_set_conv_nth)
  obtain mp' where m: "malloc mp sz = Some (m_addr b, mp')" "map_ok lo hi mp'"
    "units mp' = units mp - {m_addr b ..< m_addr b + sz}"
    "length mp' = length mp" "length (spare mp) \<le> length (spare mp')"
    using malloc_first_fit [OF ok sz act small i(2)] by blast
  have b: "b \<in> set (active mp)" using i by simp
  then have "lo \<le> m_addr b" "span b \<subseteq> units mp"
    using ok ordered_bounds by (auto simp: map_ok_def units_def)
  moreover have "0 < lo" using ok by (simp add: map_ok_def)
  moreover have "{m_addr b ..< m_addr b + sz} \<subseteq> span b" using i(2) by (auto simp: span_def)
  ultimately show thesis using some [OF Some m(1) _ m(2) _ m(3,5,4)] by force
qed

interpretation rm: unit_allocator malloc mfree_map "map_ok lo hi" "\<lambda>m. length (spare m)" units lo hi
  for lo hi :: int
proof
  fix m m' :: rmap and a n :: int
  assume ok: "map_ok lo hi m"
  show "units m \<subseteq> {lo ..< hi}"
    using ok span_ordered by (auto simp: map_ok_def units_def)
  { assume n: "0 < n"
    from ok n show "\<exists>a m'. malloc m n = Some (a, m')" by (cases rule: malloc_cases) auto
    from ok n show "m' = m \<and> (\<nexists>a. {a ..< a + n} \<subseteq> units m)" if "malloc m n = Some (0, m')"
      by (cases rule: malloc_cases) (use that in auto)
    from ok n show "map_ok lo hi m' \<and> {a ..< a + n} \<subseteq> units m \<and> units m' = units m - {a ..< a + n} \<and>
        length (spare m) \<le> length (spare m')" if "malloc m n = Some (a, m')" "a \<noteq> 0"
      by (cases rule: malloc_cases) (use that in auto) }
  assume "lo \<le> a" "a + n \<le> hi" "0 < n" "{a ..< a + n} \<inter> units m = {}" "2 \<le> length (spare m)"
  from mfree_frees [OF ok this]
  show "\<exists>m'. mfree_map m n a = Some m' \<and> map_ok lo hi m' \<and> units m' = units m \<union> {a ..< a + n}"
    by metis
qed
section \<open>Properties\<close>

definition example_map :: rmap where
  "example_map = [\<lparr>m_size = 5, m_addr = 10\<rparr>, \<lparr>m_size = 20, m_addr = 40\<rparr>,
     \<lparr>m_size = 0, m_addr = 0\<rparr>, \<lparr>m_size = 0, m_addr = 0\<rparr>, \<lparr>m_size = 0, m_addr = 0\<rparr>]"

lemma example_map_ok: "map_ok 1 100 example_map"
  by (simp add: map_ok_def active_def spare_def example_map_def)

text \<open>
  C7: on a well-formed map \<^verbatim>\<open>malloc\<close> returns the address of the first entry that is large
  enough, takes exactly the requested units from the free set and keeps the map well
  formed; it returns 0, with the map unchanged, exactly when no free run of that many
  units exists.
\<close>

theorem malloc_refines:
  assumes "map_ok lo hi mp" and "0 < sz"
  shows "case find (\<lambda>b. sz \<le> m_size b) (active mp) of
      None \<Rightarrow> malloc mp sz = Some (0, mp) \<and> (\<nexists>a. {a ..< a + sz} \<subseteq> units mp)
    | Some b \<Rightarrow> \<exists>mp'. malloc mp sz = Some (m_addr b, mp') \<and> m_addr b \<noteq> 0 \<and> map_ok lo hi mp' \<and>
        length mp' = length mp \<and> {m_addr b ..< m_addr b + sz} \<subseteq> units mp \<and>
        units mp' = units mp - {m_addr b ..< m_addr b + sz}"
  using assms by (cases rule: malloc_cases) auto

theorem malloc_refines_witness:
  "\<exists>mp'. malloc example_map 8 = Some (40, mp') \<and> map_ok 1 100 mp' \<and>
     units mp' = units example_map - {40 ..< 48}"
  using malloc_refines [OF example_map_ok, of 8]
  by (simp add: active_def example_map_def)

text \<open>
  C28: freeing a run that lies within the managed range and does not overlap the free units
  adds exactly that run to the free set and keeps the map sorted, merged and
  terminated, provided two unused slots are left at the end of the array.
\<close>

theorem mfree_refines:
  assumes "map_ok lo hi mp" "lo \<le> a" "a + sz \<le> hi" "0 < sz"
    "{a ..< a + sz} \<inter> units mp = {}" "2 \<le> length (spare mp)"
  shows "\<exists>mp'. mfree_map mp sz a = Some mp' \<and> map_ok lo hi mp' \<and> units mp' = units mp \<union> {a ..< a + sz}"
  by (rule rm.put_some [OF assms])

theorem mfree_refines_witness:
  "\<exists>mp'. mfree_map example_map 25 15 = Some mp' \<and> map_ok 1 100 mp' \<and>
     units mp' = units example_map \<union> {15 ..< 40}"
proof -
  have "{15 ..< 15 + 25} \<inter> units example_map = {}" "2 \<le> length (spare example_map)"
    by (auto simp: units_def active_def spare_def span_def example_map_def)
  from mfree_refines [OF example_map_ok _ _ _ this] show ?thesis by simp
qed

text \<open>
  A request followed by the release of the run it returned restores the map's entries
  exactly (not only its free set): \<^verbatim>\<open>mfree\<close> merges back what \<^verbatim>\<open>malloc\<close> split off.
\<close>

theorem malloc_mfree_restores:
  assumes "map_ok lo hi mp" "0 < sz" "malloc mp sz = Some (a, mp')" "a \<noteq> 0" "2 \<le> length (spare mp)"
  shows "\<exists>mp''. mfree_map mp' sz a = Some mp'' \<and> active mp'' = active mp"
proof -
  from rm.get_put [OF assms] obtain mp'' where r: "mfree_map mp' sz a = Some mp''"
    and ok: "map_ok lo hi mp''" and u: "units mp'' = units mp" by blast
  have "active mp'' = active mp"
    using ordered_unique [of lo hi "active mp''" hi "active mp"] ok assms(1) u
    by (simp add: map_ok_def units_def)
  with r show ?thesis by blast
qed

theorem malloc_mfree_restores_witness:
  "\<exists>mp' mp''. malloc example_map 8 = Some (40, mp') \<and> mfree_map mp' 8 40 = Some mp'' \<and>
     active mp'' = active example_map"
proof -
  obtain mp' where m: "malloc example_map 8 = Some (40, mp')"
    by (simp add: example_map_def)
  have "2 \<le> length (spare example_map)" by (simp add: spare_def example_map_def)
  from malloc_mfree_restores [OF example_map_ok _ m _ this] m show ?thesis by auto
qed

end
