(* ===== verification/Clist.thy ===== *)
theory Clist
  imports Prelude
begin

text \<open>
  The character lists of \<^verbatim>\<open>sys/prim.c\<close>: queues of characters kept in 32-byte blocks
  (a 4-byte link and \<^verbatim>\<open>CBSIZE\<close> characters) that are shared through one free list.
  Pointers are byte addresses, 0 is \<^verbatim>\<open>NULL\<close>, and the pointer tricks of the code
  (rounding a character pointer down to its block, noticing the end of a block by its
  alignment) are arithmetic on them. The lemmas show that the routines implement a first-in
  first-out queue and neither lose nor share blocks. The priority calls
  (\<^verbatim>\<open>spl6\<close>, \<^verbatim>\<open>splx\<close>) only mask interrupts and are left out.
\<close>

unbundle bit_operations_syntax

section \<open>State\<close>

definition CBSIZE :: int where "CBSIZE = 28"
definition CROUND :: int where "CROUND = 31"
definition NCLIST :: int where "NCLIST = 100"

text \<open>
  The memory of the blocks: the link of the block at an address and the character at
  an address; then the head of the free list and the error counter.
\<close>

record clmem =
  c_next :: "int \<Rightarrow> int"
  c_info :: "int \<Rightarrow> int"
  cfreelist :: int
  cbad :: int

record clist =
  c_cc :: int
  c_cf :: int
  c_cl :: int

text \<open>The block at or before an address, its first character, and the offset in the block.\<close>

definition blk :: "int \<Rightarrow> int" where "blk p = p - p mod (CROUND + 1)"
definition info :: "int \<Rightarrow> int" where "info b = b + 4"
definition off :: "int \<Rightarrow> int" where "off p = p mod (CROUND + 1)"

text \<open>\<^verbatim>\<open>bp->c_next = cfreelist; cfreelist = bp\<close>, and taking the first free block.\<close>

definition cfree_put :: "int \<Rightarrow> clmem \<Rightarrow> clmem" where
  "cfree_put bp m = m\<lparr>c_next := (c_next m)(bp := cfreelist m), cfreelist := bp\<rparr>"

definition cfree_get :: "clmem \<Rightarrow> int \<times> clmem" where
  "cfree_get m = (let bp = cfreelist m
     in (bp, m\<lparr>cfreelist := c_next m bp, c_next := (c_next m)(bp := 0)\<rparr>))"

section \<open>Operations\<close>

definition getc :: "clist \<Rightarrow> clmem \<Rightarrow> int \<times> clist \<times> clmem" where
  "getc p m =
     (if c_cc p \<le> 0 then (-1, p\<lparr>c_cc := 0, c_cf := 0, c_cl := 0\<rparr>, m)
      else
        (let c = c_info m (c_cf p);
             p = p\<lparr>c_cf := c_cf p + 1, c_cc := c_cc p - 1\<rparr>
         in if c_cc p \<le> 0 then
              (c, p\<lparr>c_cf := 0, c_cl := 0\<rparr>, cfree_put (blk (c_cf p - 1)) m)
            else if off (c_cf p) = 0 then
              (let bp = c_cf p - (CROUND + 1)
               in (c, p\<lparr>c_cf := info (c_next m bp)\<rparr>, cfree_put bp m))
            else (c, p, m)))"

fun q_to_b_loop :: "nat \<Rightarrow> clist \<Rightarrow> clmem \<Rightarrow> int list \<times> clist \<times> clmem" where
  "q_to_b_loop 0 q m = ([], q, m)"
| "q_to_b_loop (Suc cc) q m =
     (let c = c_info m (c_cf q);
          q = q\<lparr>c_cf := c_cf q + 1, c_cc := c_cc q - 1\<rparr>
      in if c_cc q \<le> 0 then
           ([c], q\<lparr>c_cf := 0, c_cl := 0\<rparr>, cfree_put (blk (c_cf q - 1)) m)
         else
           (let (q, m) =
              (if off (c_cf q) = 0 then
                 (let bp = c_cf q - (CROUND + 1)
                  in (q\<lparr>c_cf := info (c_next m bp)\<rparr>, cfree_put bp m))
               else (q, m));
              (cs, q, m) = q_to_b_loop cc q m
            in (c # cs, q, m)))"

definition q_to_b :: "clist \<Rightarrow> int \<Rightarrow> clmem \<Rightarrow> int list \<times> clist \<times> clmem" where
  "q_to_b q cc m =
     (if cc \<le> 0 then ([], q, m)
      else if c_cc q \<le> 0 then ([], q\<lparr>c_cc := 0, c_cf := 0, c_cl := 0\<rparr>, m)
      else q_to_b_loop (nat cc) q m)"

text \<open>The characters are plain \<^verbatim>\<open>char\<close>, so the flag test sees them sign-extended.\<close>

definition schar_ext :: "int \<Rightarrow> int" where
  "schar_ext c = (if c \<ge> 128 then c - 256 else c)"

fun flag_scan :: "clmem \<Rightarrow> int \<Rightarrow> int \<Rightarrow> nat \<Rightarrow> nat" where
  "flag_scan m flag p 0 = 0"
| "flag_scan m flag p (Suc n) =
     (if schar_ext (c_info m p) AND flag \<noteq> 0 then 0 else Suc (flag_scan m flag (p + 1) n))"

definition ndqb :: "clist \<Rightarrow> int \<Rightarrow> clmem \<Rightarrow> int" where
  "ndqb q flag m =
     (if c_cc q \<le> 0 then - c_cc q
      else
        (let cc = blk (c_cf q + CBSIZE) - c_cf q;
             cc = (if c_cc q < cc then c_cc q else cc)
         in if flag \<noteq> 0 then int (flag_scan m flag (c_cf q) (nat cc)) else cc))"

definition ndflush :: "clist \<Rightarrow> int \<Rightarrow> clmem \<Rightarrow> clist \<times> clmem" where
  "ndflush q cc m =
     (if c_cc q < 0 then
        (if c_cf q \<noteq> 0 then (q\<lparr>c_cc := c_cc q + cc, c_cf := c_cf q + cc\<rparr>, m)
         else (q\<lparr>c_cc := 0\<rparr>, m))
      else if c_cc q = 0 then (q, m)
      else if cc > CBSIZE \<or> cc \<le> 0 then (q, m\<lparr>cbad := cbad m + 1\<rparr>)
      else
        (let q = q\<lparr>c_cc := c_cc q - cc, c_cf := c_cf q + cc\<rparr>
         in if off (c_cf q) = 0 then
              (let bp = c_cf q - (CROUND + 1);
                   q = (if c_next m bp \<noteq> 0 then q\<lparr>c_cf := info (c_next m bp)\<rparr>
                        else q\<lparr>c_cf := 0, c_cl := 0\<rparr>)
               in (q, cfree_put bp m))
            else if c_cc q = 0 then
              (let q = q\<lparr>c_cf := blk (c_cf q)\<rparr>;
                   bp = c_cf q
               in (q\<lparr>c_cf := 0, c_cl := 0\<rparr>, cfree_put bp m))
            else (q, m)))"

definition putc_at :: "int \<Rightarrow> int \<Rightarrow> clist \<Rightarrow> clmem \<Rightarrow> int \<times> clist \<times> clmem" where
  "putc_at c cp p m =
     (0, p\<lparr>c_cc := c_cc p + 1, c_cl := cp + 1\<rparr>, m\<lparr>c_info := (c_info m)(cp := c mod 256)\<rparr>)"

definition putc :: "int \<Rightarrow> clist \<Rightarrow> clmem \<Rightarrow> int \<times> clist \<times> clmem" where
  "putc c p m =
     (if c_cl p = 0 \<or> c_cc p < 0 then
        (if cfreelist m = 0 then (-1, p, m)
         else (let (bp, m) = cfree_get m
               in putc_at c (info bp) (p\<lparr>c_cf := info bp\<rparr>) m))
      else if off (c_cl p) = 0 then
        (let m = m\<lparr>c_next := (c_next m)(c_cl p - (CROUND + 1) := cfreelist m)\<rparr>
         in if cfreelist m = 0 then (-1, p, m)
            else (let (bp, m) = cfree_get m in putc_at c (info bp) p m))
      else putc_at c (c_cl p) p m)"

text \<open>
  \<^verbatim>\<open>b_to_q\<close>: the loop has the local pointer \<open>cq\<close> and the characters still to copy; it
  returns the characters left, the final \<open>cq\<close> and the memory.
\<close>

fun b_to_q_loop :: "int list \<Rightarrow> int \<Rightarrow> clmem \<Rightarrow> int list \<times> int \<times> clmem" where
  "b_to_q_loop [] cq m = ([], cq, m)"
| "b_to_q_loop (c # cs) cq m =
     (if off cq = 0 then
        (let m = m\<lparr>c_next := (c_next m)(cq - (CROUND + 1) := cfreelist m)\<rparr>
         in if cfreelist m = 0 then (c # cs, cq, m)
            else (let (bp, m) = cfree_get m
                  in b_to_q_loop cs (info bp + 1) (m\<lparr>c_info := (c_info m)(info bp := c)\<rparr>)))
      else b_to_q_loop cs (cq + 1) (m\<lparr>c_info := (c_info m)(cq := c)\<rparr>))"

definition b_to_q_out :: "clist \<Rightarrow> nat \<Rightarrow> int list \<times> int \<times> clmem \<Rightarrow> nat \<times> clist \<times> clmem" where
  "b_to_q_out q acc r = (case r of (rest, cq, m) \<Rightarrow>
     (length rest, q\<lparr>c_cl := cq, c_cc := c_cc q + (int acc - int (length rest))\<rparr>, m))"

definition b_to_q :: "int list \<Rightarrow> clist \<Rightarrow> clmem \<Rightarrow> nat \<times> clist \<times> clmem" where
  "b_to_q cs q m =
     (if cs = [] then (0, q, m)
      else if c_cl q = 0 \<or> c_cc q < 0 then
        (if cfreelist m = 0 then b_to_q_out q (length cs) (cs, c_cl q, m)
         else (let (bp, m) = cfree_get m
               in b_to_q_out (q\<lparr>c_cf := info bp\<rparr>) (length cs) (b_to_q_loop cs (info bp) m)))
      else b_to_q_out q (length cs) (b_to_q_loop cs (c_cl q) m))"

text \<open>
  \<^verbatim>\<open>cinit\<close>: the blocks are carved from the array \<^verbatim>\<open>cfree\<close> after rounding its address up;
  the second part counts the entries of \<^verbatim>\<open>cdevsw\<close> (given by their \<^verbatim>\<open>d_open\<close> fields).
\<close>

fun cinit_loop :: "nat \<Rightarrow> int \<Rightarrow> int \<Rightarrow> clmem \<Rightarrow> clmem" where
  "cinit_loop 0 cp lim m = m"
| "cinit_loop (Suc n) cp lim m =
     (if cp \<le> lim then cinit_loop n (cp + (CROUND + 1)) lim (cfree_put cp m) else m)"

definition cinit :: "int \<Rightarrow> int list \<Rightarrow> clmem \<Rightarrow> clmem \<times> nat" where
  "cinit cfree cdevsw m =
     (cinit_loop (nat NCLIST) (blk (cfree + CROUND)) (cfree + (CROUND + 1) * (NCLIST - 1)) m,
      length (takeWhile (\<lambda>d_open. d_open \<noteq> 0) cdevsw))"

definition getw :: "clist \<Rightarrow> clmem \<Rightarrow> int \<times> clist \<times> clmem" where
  "getw p m =
     (if c_cc p \<le> 1 then (-1, p, m)
      else (let (s, p, m) = getc p m; (t, p, m) = getc p m
            in (s OR push_bit 8 t, p, m)))"

definition putw :: "int \<Rightarrow> clist \<Rightarrow> clmem \<Rightarrow> int \<times> clist \<times> clmem" where
  "putw c p m =
     (if cfreelist m = 0 then (-1, p, m)
      else (let (_, p, m) = putc c p m; (_, p, m) = putc (drop_bit 8 c) p m in (0, p, m)))"

section \<open>Abstraction: chains of blocks and their characters\<close>

fun cchain :: "(int \<Rightarrow> int) \<Rightarrow> int \<Rightarrow> int list \<Rightarrow> bool" where
  "cchain nx p [] \<longleftrightarrow> p = 0"
| "cchain nx p (b # bs) \<longleftrightarrow> p = b \<and> 0 < b \<and> b mod 32 = 0 \<and> cchain nx (nx b) bs"

text \<open>The addresses of the queued characters, from \<open>c_cf\<close> in the first block to \<open>c_cl\<close> in the last.\<close>

fun qaddrs :: "int \<Rightarrow> int \<Rightarrow> int list \<Rightarrow> int list" where
  "qaddrs cf cl [] = []"
| "qaddrs cf cl [b] = [cf .. cl - 1]"
| "qaddrs cf cl (b # b' # bs) = [cf .. b + 31] @ qaddrs (b' + 4) cl (b' # bs)"

definition qrep :: "clmem \<Rightarrow> clist \<Rightarrow> int list \<Rightarrow> int list \<Rightarrow> bool" where
  "qrep m q bs cs \<longleftrightarrow>
     c_cc q = int (length cs) \<and>
     (if bs = [] then c_cf q = 0 \<and> c_cl q = 0 \<and> cs = []
      else hd bs + 4 \<le> c_cf q \<and> c_cf q \<le> hd bs + 31 \<and>
           last bs + 4 < c_cl q \<and> c_cl q \<le> last bs + 32 \<and>
           (tl bs = [] \<longrightarrow> c_cf q < c_cl q) \<and>
           cchain (c_next m) (hd bs) bs \<and> cs = map (c_info m) (qaddrs (c_cf q) (c_cl q) bs))"

text \<open>
  \<open>clist_rep m q fs bs cs\<close>: the free list holds the blocks \<open>fs\<close>, the queue \<open>q\<close> the blocks
  \<open>bs\<close> with the characters \<open>cs\<close>, and no block is used twice. \<open>same_outside\<close> says that an
  operation left every other block alone.
\<close>

definition clist_rep :: "clmem \<Rightarrow> clist \<Rightarrow> int list \<Rightarrow> int list \<Rightarrow> int list \<Rightarrow> bool" where
  "clist_rep m q fs bs cs \<longleftrightarrow>
     cchain (c_next m) (cfreelist m) fs \<and> distinct (fs @ bs) \<and> qrep m q bs cs"

definition same_outside :: "int set \<Rightarrow> clmem \<Rightarrow> clmem \<Rightarrow> bool" where
  "same_outside A m m' \<longleftrightarrow>
     (\<forall>b. b \<notin> A \<longrightarrow> c_next m' b = c_next m b) \<and>
     (\<forall>x. blk x \<notin> A \<longrightarrow> c_info m' x = c_info m x)"

lemmas addr_defs = blk_def info_def off_def CROUND_def CBSIZE_def

lemma cchain_upd [simp]: "b \<notin> set bs \<Longrightarrow> cchain (nx(b := v)) p bs = cchain nx p bs"
  by (induction bs arbitrary: p) auto

lemma cchain_aligned: "cchain nx p bs \<Longrightarrow> b \<in> set bs \<Longrightarrow> 0 < b \<and> b mod 32 = 0"
  by (induction bs arbitrary: p) auto

lemma cchain_snoc:
  "cchain nx p bs \<Longrightarrow> bs \<noteq> [] \<Longrightarrow> distinct (bs @ [f]) \<Longrightarrow> 0 < f \<Longrightarrow> f mod 32 = 0 \<Longrightarrow>
     cchain (nx(last bs := f, f := 0)) p (bs @ [f])"
proof (induction bs arbitrary: p)
  case (Cons b bs)
  then show ?case by (cases bs) (auto simp: fun_upd_twist)
qed simp

lemma blk_in: "b mod 32 = 0 \<Longrightarrow> b \<le> x \<Longrightarrow> x \<le> b + 31 \<Longrightarrow> blk x = b"
proof -
  assume b: "b mod 32 = 0" "b \<le> x" "x \<le> b + 31"
  have "(b + (x - b)) mod 32 = (x - b) mod 32" using b(1) by (metis add_0 mod_add_left_eq)
  also have "\<dots> = x - b" using b(2,3) by simp
  finally show "blk x = b" by (simp add: blk_def CROUND_def)
qed

lemma off_end: "b mod 32 = 0 \<Longrightarrow> b < x \<Longrightarrow> x \<le> b + 32 \<Longrightarrow> off x = 0 \<longleftrightarrow> x = b + 32"
proof -
  assume b: "b mod 32 = 0" "b < x" "x \<le> b + 32"
  have "(b + (x - b)) mod 32 = (x - b) mod 32" using b(1) by (metis add_0 mod_add_left_eq)
  moreover have "(x - b) mod 32 = 0 \<longleftrightarrow> x - b = 32"
    using b(2,3) by (cases "x = b + 32") (auto simp: mod_pos_pos_trivial)
  ultimately show ?thesis by (simp add: off_def CROUND_def) arith
qed

lemma qaddrs_blk:
  assumes "cchain nx (hd bs) bs" "bs \<noteq> []" "distinct bs" "hd bs + 4 \<le> cf" "cl \<le> last bs + 32"
    "x \<in> set (qaddrs cf cl bs)"
  shows "blk x \<in> set bs \<and> (blk x = last bs \<longrightarrow> x < cl)"
  using assms
proof (induction cf cl bs rule: qaddrs.induct)
  case (2 cf cl b)
  then have "blk x = b" by (intro blk_in) auto
  with 2 show ?case by auto
next
  case (3 cf cl b b' bs)
  show ?case
  proof (cases "x \<in> set [cf .. b + 31]")
    case True
    with 3 have "blk x = b" by (intro blk_in) auto
    with 3 show ?thesis by auto
  next
    case False
    with 3 show ?thesis by auto
  qed
qed simp

lemma qaddrs_nonempty:
  "bs \<noteq> [] \<Longrightarrow> last bs + 4 < cl \<Longrightarrow> (tl bs = [] \<longrightarrow> cf < cl) \<Longrightarrow> qaddrs cf cl bs \<noteq> []"
  by (induction cf cl bs rule: qaddrs.induct) (auto split: if_splits)

lemma qaddrs_extend:
  "bs \<noteq> [] \<Longrightarrow> (tl bs = [] \<longrightarrow> cf \<le> cl) \<Longrightarrow> last bs + 4 \<le> cl \<Longrightarrow>
     qaddrs cf (cl + 1) bs = qaddrs cf cl bs @ [cl]"
  by (induction cf cl bs rule: qaddrs.induct) (auto simp: upto_rec2 split: if_splits)

lemma qaddrs_snoc:
  "bs \<noteq> [] \<Longrightarrow> qaddrs cf cl (bs @ [f]) = qaddrs cf (last bs + 32) bs @ [f + 4 .. cl - 1]"
  by (induction cf "last bs + 32" bs rule: qaddrs.induct) (auto simp: add.commute)

section \<open>First in, first out\<close>

lemma getc_empty: "clist_rep m q fs bs [] \<Longrightarrow> getc q m = (-1, q, m) \<and> bs = []"
  using qaddrs_nonempty [of bs "c_cl q" "c_cf q"]
  by (cases q) (auto simp: clist_rep_def qrep_def getc_def split: if_splits)

lemma getc_cons:
  assumes "clist_rep m q fs bs (c # cs)"
  obtains q' m' fs' bs' where "getc q m = (c, q', m')" "clist_rep m' q' fs' bs' cs"
    "set fs' \<union> set bs' = set fs \<union> set bs" "same_outside (set fs \<union> set bs) m m'"
proof -
  from assms have fl: "cchain (c_next m) (cfreelist m) fs" and dist: "distinct (fs @ bs)"
    and cc: "c_cc q = int (length cs) + 1" and ne: "bs \<noteq> []"
    and cf: "hd bs + 4 \<le> c_cf q" "c_cf q \<le> hd bs + 31"
    and cl: "last bs + 4 < c_cl q" "c_cl q \<le> last bs + 32" and one: "tl bs = [] \<longrightarrow> c_cf q < c_cl q"
    and ch: "cchain (c_next m) (hd bs) bs" and map: "c # cs = map (c_info m) (qaddrs (c_cf q) (c_cl q) bs)"
    by (auto simp: clist_rep_def qrep_def split: if_splits)
  obtain b bs' where bs: "bs = b # bs'" using ne by (cases bs) auto
  have al: "b mod 32 = 0" "0 < b" using ch bs by auto
  have bl: "blk (c_cf q) = b" using blk_in [OF al(1)] cf bs by simp
  let ?q = "q\<lparr>c_cf := c_cf q + 1, c_cc := c_cc q - 1\<rparr>"
  have so: "same_outside (set fs \<union> set bs) m (cfree_put b m)"
    using bs by (simp add: same_outside_def cfree_put_def)
  show thesis
  proof (cases bs')
    case Nil
    with map bs one have c: "c = c_info m (c_cf q)" and cs: "cs = map (c_info m) [c_cf q + 1 .. c_cl q - 1]"
      by (auto simp: upto_rec1)
    show thesis
    proof (cases "cs = []")
      case True
      then have "getc q m = (c, ?q\<lparr>c_cf := 0, c_cl := 0\<rparr>, cfree_put b m)"
        using cc c bl by (simp add: getc_def Let_def)
      moreover have "clist_rep (cfree_put b m) (?q\<lparr>c_cf := 0, c_cl := 0\<rparr>) (b # fs) [] cs"
        using True fl dist al bs Nil cc by (auto simp: clist_rep_def qrep_def cfree_put_def)
      ultimately show thesis using that so bs Nil by auto
    next
      case False
      with cs have lt: "c_cf q + 1 < c_cl q" by auto
      with cl bs Nil cf have "off (c_cf q + 1) \<noteq> 0" using off_end [OF al(1), of "c_cf q + 1"] by auto
      then have "getc q m = (c, ?q, m)" using cc c False by (simp add: getc_def Let_def)
      moreover have "clist_rep m ?q fs bs cs"
        using fl dist ch cf cl cc cs lt bs Nil by (auto simp: clist_rep_def qrep_def)
      ultimately show thesis using that by (simp add: same_outside_def)
    qed
  next
    case (Cons b' bs'')
    have tail: "qaddrs (b' + 4) (c_cl q) bs' \<noteq> []"
      using qaddrs_nonempty [of bs' "c_cl q" "b' + 4"] cl bs Cons by (auto split: if_splits)
    have c: "c = c_info m (c_cf q)"
      and cs: "cs = map (c_info m) ([c_cf q + 1 .. b + 31] @ qaddrs (b' + 4) (c_cl q) bs')"
      using map bs Cons cf by (auto simp: upto_rec1)
    have pos: "0 < c_cc q - 1" using cc cs tail by (cases "qaddrs (b' + 4) (c_cl q) bs'") auto
    show thesis
    proof (cases "c_cf q = b + 31")
      case True
      then have end0: "off (c_cf q + 1) = 0" using off_end [OF al(1), of "c_cf q + 1"] by simp
      have nx: "c_next m b = b'" using ch bs Cons by auto
      have "getc q m = (c, ?q\<lparr>c_cf := b' + 4\<rparr>, cfree_put b m)"
        using pos c end0 True nx by (simp add: getc_def Let_def info_def CROUND_def)
      moreover have "clist_rep (cfree_put b m) (?q\<lparr>c_cf := b' + 4\<rparr>) (b # fs) bs' cs"
        using fl dist al bs Cons cc cs ch cl True by (auto simp: clist_rep_def qrep_def cfree_put_def)
      ultimately show thesis using that so bs by auto
    next
      case False
      then have "off (c_cf q + 1) \<noteq> 0" using off_end [OF al(1), of "c_cf q + 1"] cf bs by auto
      then have "getc q m = (c, ?q, m)" using pos c by (simp add: getc_def Let_def)
      moreover have "clist_rep m ?q fs bs cs"
        using fl dist ch cf cl cc cs bs Cons False by (auto simp: clist_rep_def qrep_def)
      ultimately show thesis using that by (simp add: same_outside_def)
    qed
  qed
qed

text \<open>\<^verbatim>\<open>putc\<close> has to take a block from the free list.\<close>

definition needs_block :: "clist \<Rightarrow> bool" where
  "needs_block q \<longleftrightarrow> c_cl q = 0 \<or> off (c_cl q) = 0"

lemma upto_info [simp]: "[f + 4 .. 4 + f] = [f + (4::int)]"
  by (simp add: add.commute)

lemma cfree_get_cons:
  "cchain (c_next m) (cfreelist m) (f # fs) \<Longrightarrow>
     cfree_get m = (f, m\<lparr>cfreelist := c_next m f, c_next := (c_next m)(f := 0)\<rparr>) \<and>
     0 < f \<and> f mod 32 = 0 \<and> cchain (c_next m) (c_next m f) fs"
  by (auto simp: cfree_get_def Let_def)

lemma putc_no_block:
  assumes rep: "clist_rep m q fs bs cs" and nb: "\<not> needs_block q"
  obtains q' m' where "putc c q m = (0, q', m')" "clist_rep m' q' fs bs (cs @ [c mod 256])"
    "same_outside (set bs) m m'"
proof -
  from rep nb have ne: "bs \<noteq> []" by (auto simp: clist_rep_def qrep_def needs_block_def)
  with rep have fl: "cchain (c_next m) (cfreelist m) fs" and dist: "distinct (fs @ bs)"
    and cc: "c_cc q = int (length cs)"
    and cf: "hd bs + 4 \<le> c_cf q" "c_cf q \<le> hd bs + 31"
    and cl: "last bs + 4 < c_cl q" "c_cl q \<le> last bs + 32" and one: "tl bs = [] \<longrightarrow> c_cf q < c_cl q"
    and ch: "cchain (c_next m) (hd bs) bs" and cs: "cs = map (c_info m) (qaddrs (c_cf q) (c_cl q) bs)"
    by (auto simp: clist_rep_def qrep_def split: if_splits)
  have al: "last bs mod 32 = 0" using cchain_aligned [OF ch, of "last bs"] ne by simp
  have lt: "c_cl q < last bs + 32"
    using nb off_end [OF al, of "c_cl q"] cl by (auto simp: needs_block_def)
  let ?m = "m\<lparr>c_info := (c_info m)(c_cl q := c mod 256)\<rparr>"
  let ?q = "q\<lparr>c_cc := c_cc q + 1, c_cl := c_cl q + 1\<rparr>"
  have "putc c q m = (0, ?q, ?m)" using nb cc by (simp add: putc_def putc_at_def needs_block_def)
  moreover have "clist_rep ?m ?q fs bs (cs @ [c mod 256])"
  proof -
    have "map (c_info ?m) (qaddrs (c_cf q) (c_cl q) bs) = cs"
      unfolding cs using qaddrs_blk [OF ch ne _ cf(1) cl(2)] dist blk_in [OF al, of "c_cl q"] cl lt by auto
    moreover have "qaddrs (c_cf q) (c_cl q + 1) bs = qaddrs (c_cf q) (c_cl q) bs @ [c_cl q]"
      using qaddrs_extend [OF ne] one cl by auto
    ultimately show ?thesis
      using fl dist ch cf cl lt one ne cc by (auto simp: clist_rep_def qrep_def)
  qed
  moreover have "same_outside (set bs) m ?m"
    using blk_in [OF al, of "c_cl q"] cl lt ne by (auto simp: same_outside_def)
  ultimately show thesis by (rule that)
qed

lemma putc_first_block:
  assumes rep: "clist_rep m q (f # fs) [] cs"
  obtains q' m' where "putc c q m = (0, q', m')" "clist_rep m' q' fs [f] (cs @ [c mod 256])"
    "same_outside {f} m m'"
proof -
  from rep have q: "c_cl q = 0" "c_cc q = 0" "cs = []"
    and fl: "cchain (c_next m) (cfreelist m) (f # fs)" and dist: "distinct (f # fs)"
    by (auto simp: clist_rep_def qrep_def)
  note g = cfree_get_cons [OF fl]
  have nz: "cfreelist m \<noteq> 0" using fl by auto
  let ?m = "m\<lparr>cfreelist := c_next m f, c_next := (c_next m)(f := 0),
      c_info := (c_info m)(f + 4 := c mod 256)\<rparr>"
  let ?q = "q\<lparr>c_cf := f + 4, c_cc := 1, c_cl := f + 5\<rparr>"
  have "putc c q m = (0, ?q, ?m)"
    using q nz g by (simp add: putc_def putc_at_def info_def)
  moreover have "clist_rep ?m ?q fs [f] (cs @ [c mod 256])"
    using g dist q by (auto simp: clist_rep_def qrep_def)
  moreover have "same_outside {f} m ?m"
    using blk_in [of f "f + 4"] g by (auto simp: same_outside_def)
  ultimately show thesis by (rule that)
qed

lemma putc_next_block:
  assumes rep: "clist_rep m q (f # fs) bs cs" and ne: "bs \<noteq> []" and nb: "needs_block q"
  obtains q' m' where "putc c q m = (0, q', m')" "clist_rep m' q' fs (bs @ [f]) (cs @ [c mod 256])"
    "same_outside (set (f # bs)) m m'"
proof -
  from rep ne have fl: "cchain (c_next m) (cfreelist m) (f # fs)" and dist: "distinct ((f # fs) @ bs)"
    and cc: "c_cc q = int (length cs)"
    and cf: "hd bs + 4 \<le> c_cf q" "c_cf q \<le> hd bs + 31"
    and cl: "last bs + 4 < c_cl q" "c_cl q \<le> last bs + 32" and one: "tl bs = [] \<longrightarrow> c_cf q < c_cl q"
    and ch: "cchain (c_next m) (hd bs) bs" and cs: "cs = map (c_info m) (qaddrs (c_cf q) (c_cl q) bs)"
    by (auto simp: clist_rep_def qrep_def split: if_splits)
  note g = cfree_get_cons [OF fl]
  have al: "last bs mod 32 = 0" "0 < last bs" using cchain_aligned [OF ch, of "last bs"] ne by auto
  have clq: "c_cl q = last bs + 32" "off (c_cl q) = 0" "c_cl q \<noteq> 0"
    using nb off_end [OF al(1), of "c_cl q"] cl al by (auto simp: needs_block_def)
  have lf: "last bs \<noteq> f" using dist ne by auto
  let ?m = "m\<lparr>cfreelist := c_next m f, c_next := (c_next m)(last bs := f, f := 0),
      c_info := (c_info m)(f + 4 := c mod 256)\<rparr>"
  let ?q = "q\<lparr>c_cc := c_cc q + 1, c_cl := f + 5\<rparr>"
  have "putc c q m = (0, ?q, ?m)"
    using clq cc fl lf al by (auto simp: putc_def putc_at_def cfree_get_def Let_def info_def CROUND_def)
  moreover have "clist_rep ?m ?q fs (bs @ [f]) (cs @ [c mod 256])"
  proof -
    have f4: "blk (f + 4) = f" using blk_in [of f "f + 4"] g by auto
    have "map (c_info ?m) (qaddrs (c_cf q) (last bs + 32) bs) = cs"
      unfolding cs clq(1) using qaddrs_blk [OF ch ne _ cf(1), of "last bs + 32"] dist f4 by fastforce
    moreover have "qaddrs (c_cf q) (f + 5) (bs @ [f]) = qaddrs (c_cf q) (last bs + 32) bs @ [f + 4]"
      using qaddrs_snoc [OF ne, of "c_cf q" "f + 5" f] by simp
    moreover have "cchain (c_next ?m) (hd bs) (bs @ [f])"
      using cchain_snoc [OF ch ne, of f] dist g by simp
    moreover have "last bs \<notin> set fs" using dist ne by auto
    ultimately show ?thesis
      using g dist cf cc ne by (auto simp: clist_rep_def qrep_def neq_Nil_conv)
  qed
  moreover have "same_outside (set (f # bs)) m ?m"
    using blk_in [of f "f + 4"] g ne by (auto simp: same_outside_def)
  ultimately show thesis by (rule that)
qed

lemma putc_refused:
  assumes rep: "clist_rep m q [] bs cs" and nb: "needs_block q"
  obtains m' where "putc c q m = (-1, q, m')" "clist_rep m' q [] bs cs" "same_outside (set bs) m m'"
proof (cases "bs = []")
  case True
  with rep have "putc c q m = (-1, q, m)"
    by (auto simp: clist_rep_def qrep_def putc_def)
  with rep that show thesis by (simp add: same_outside_def)
next
  case False
  from rep False have fl: "cfreelist m = 0" and cc: "0 \<le> c_cc q"
    and cl: "last bs + 4 < c_cl q" "c_cl q \<le> last bs + 32" and ch: "cchain (c_next m) (hd bs) bs"
    by (auto simp: clist_rep_def qrep_def split: if_splits)
  have al: "last bs mod 32 = 0" "0 < last bs" using cchain_aligned [OF ch, of "last bs"] False by auto
  have clq: "c_cl q = last bs + 32" "off (c_cl q) = 0" "c_cl q \<noteq> 0"
    using nb off_end [OF al(1), of "c_cl q"] cl al by (auto simp: needs_block_def)
  have "c_next m (last bs) = 0"
    using ch False
  proof (induction bs)
    case (Cons b bs)
    then show ?case by (cases bs) auto
  qed simp
  then have "m\<lparr>c_next := (c_next m)(last bs := 0)\<rparr> = m" by (cases m) (auto simp: fun_upd_idem_iff)
  with clq cc fl have "putc c q m = (-1, q, m)" by (simp add: putc_def Let_def CROUND_def)
  with rep that show thesis by (simp add: same_outside_def)
qed

lemma same_outside_mono: "same_outside A m m' \<Longrightarrow> A \<subseteq> B \<Longrightarrow> same_outside B m m'"
  by (auto simp: same_outside_def)

lemma putc_cases:
  assumes rep: "clist_rep m q fs bs cs"
  obtains (refused) m' where "fs = []" "needs_block q" "putc c q m = (-1, q, m')"
      "clist_rep m' q fs bs cs" "same_outside (set fs \<union> set bs) m m'"
  | (stored) q' m' fs' bs' where "\<not> (fs = [] \<and> needs_block q)" "putc c q m = (0, q', m')"
      "clist_rep m' q' fs' bs' (cs @ [c mod 256])" "set fs' \<union> set bs' = set fs \<union> set bs"
      "same_outside (set fs \<union> set bs) m m'"
proof (cases "needs_block q")
  case False
  with putc_no_block [OF rep False, of c] stored same_outside_mono show thesis by (metis Un_upper2)
next
  case True
  show thesis
  proof (cases fs)
    case Nil
    with putc_refused [of m q bs cs c] rep True refused show thesis
      by (metis Un_empty_left list.set(1))
  next
    case (Cons f fs')
    show thesis
    proof (cases "bs = []")
      case True
      from putc_first_block [of m q f fs' cs c] rep True Cons obtain q' m' where
        p: "putc c q m = (0, q', m')" "clist_rep m' q' fs' [f] (cs @ [c mod 256])" "same_outside {f} m m'"
        by metis
      show thesis
        by (rule stored [OF _ p(1,2)]) (use Cons True same_outside_mono [OF p(3)] in auto)
    next
      case False
      from putc_next_block [of m q f fs' bs cs c] rep False \<open>needs_block q\<close> Cons obtain q' m' where
        p: "putc c q m = (0, q', m')" "clist_rep m' q' fs' (bs @ [f]) (cs @ [c mod 256])"
        "same_outside (set (f # bs)) m m'"
        by metis
      show thesis
        by (rule stored [OF _ p(1,2)]) (use Cons same_outside_mono [OF p(3)] in auto)
    qed
  qed
qed

section \<open>Block-wise copies against character-wise ones\<close>

text \<open>\<^verbatim>\<open>q_to_b\<close> is \<^verbatim>\<open>getc\<close> repeated until the count or the queue is exhausted.\<close>

fun getc_n :: "nat \<Rightarrow> clist \<Rightarrow> clmem \<Rightarrow> int list \<times> clist \<times> clmem" where
  "getc_n 0 q m = ([], q, m)"
| "getc_n (Suc n) q m =
     (if c_cc q \<le> 0 then ([], q, m)
      else (let (c, q, m) = getc q m; (cs, q, m) = getc_n n q m in (c # cs, q, m)))"

lemma q_to_b_getc: "0 < c_cc q \<Longrightarrow> q_to_b_loop n q m = getc_n n q m"
proof (induction n arbitrary: q m)
  case (Suc n)
  show ?case
  proof (cases "c_cc q = 1")
    case True
    then have "getc_n n (q\<lparr>c_cc := 0, c_cf := 0, c_cl := 0\<rparr>) x =
        ([], q\<lparr>c_cc := 0, c_cf := 0, c_cl := 0\<rparr>, x)" for x
      by (cases n) auto
    with True show ?thesis by (simp add: getc_def Let_def)
  next
    case False
    with Suc.prems have "1 < c_cc q" by simp
    with Suc show ?thesis by (auto simp: getc_def Let_def split: prod.splits)
  qed
qed simp

text \<open>\<^verbatim>\<open>b_to_q\<close> is \<^verbatim>\<open>putc\<close> repeated until it is refused.\<close>

fun putc_all :: "int list \<Rightarrow> clist \<Rightarrow> clmem \<Rightarrow> nat \<times> clist \<times> clmem" where
  "putc_all [] q m = (0, q, m)"
| "putc_all (c # cs) q m =
     (let (r, q, m) = putc c q m in if r < 0 then (Suc (length cs), q, m) else putc_all cs q m)"

lemma b_to_q_step:
  assumes "putc c q m = (0, q', m')" "0 \<le> c" "c < 256" "c_cl q \<noteq> 0" "0 \<le> c_cc q"
  shows "b_to_q_loop (c # cs) (c_cl q) m = b_to_q_loop cs (c_cl q') m' \<and>
    q' = q\<lparr>c_cc := c_cc q + 1, c_cl := c_cl q'\<rparr>"
  using assms
  by (auto simp: putc_def putc_at_def Let_def cfree_get_def split: if_splits)

lemma b_to_q_stop:
  assumes "putc c q m = (-1, q', m')" "c_cl q \<noteq> 0" "0 \<le> c_cc q"
  shows "b_to_q_loop (c # cs) (c_cl q) m = (c # cs, c_cl q, m')"
  using assms by (auto simp: putc_def putc_at_def Let_def cfree_get_def split: if_splits)

lemma rep_tail_pos: "clist_rep m q fs bs (cs @ [c]) \<Longrightarrow> c_cl q \<noteq> 0 \<and> 0 \<le> c_cc q"
  using cchain_aligned [of "c_next m" "hd bs" bs "last bs"]
  by (auto simp: clist_rep_def qrep_def split: if_splits)

lemma b_to_q_putc_loop:
  assumes "\<forall>c\<in>set cs. 0 \<le> c \<and> c < 256" "c_cl q \<noteq> 0" "0 \<le> c_cc q" "clist_rep m q fs bs ds"
  shows "b_to_q_out q (length cs) (b_to_q_loop cs (c_cl q) m) = putc_all cs q m"
  using assms
proof (induction cs arbitrary: q m fs bs ds)
  case Nil
  then show ?case by (simp add: b_to_q_out_def)
next
  case (Cons c cs)
  from Cons.prems(4) show ?case
  proof (cases rule: putc_cases [where c = c])
    case (refused m')
    with b_to_q_stop [OF refused(3) Cons.prems(2,3), of cs] show ?thesis
      by (simp add: b_to_q_out_def del: b_to_q_loop.simps)
  next
    case (stored q' m' fs' bs')
    from rep_tail_pos [OF stored(3)] have pos: "c_cl q' \<noteq> 0" "0 \<le> c_cc q'" by simp_all
    have loop: "b_to_q_loop (c # cs) (c_cl q) m = b_to_q_loop cs (c_cl q') m'"
      and q': "q' = q\<lparr>c_cc := c_cc q + 1, c_cl := c_cl q'\<rparr>"
      using b_to_q_step [OF stored(2), of cs] Cons.prems by auto
    obtain rest cq m'' where r: "b_to_q_loop cs (c_cl q') m' = (rest, cq, m'')" by (metis prod_cases3)
    have "b_to_q_out q (length (c # cs)) (rest, cq, m'') = b_to_q_out q' (length cs) (rest, cq, m'')"
      by (subst q') (simp add: b_to_q_out_def)
    also have "\<dots> = putc_all cs q' m'"
      using Cons.IH [OF _ pos stored(3)] Cons.prems(1) r by simp
    finally show ?thesis using loop r stored(2) by simp
  qed
qed

lemma b_to_q_putc_all:
  assumes bytes: "\<forall>c\<in>set cs. 0 \<le> c \<and> c < 256" and rep: "clist_rep m q fs bs ds"
  shows "b_to_q cs q m = putc_all cs q m"
proof (cases cs)
  case Nil
  then show ?thesis by (simp add: b_to_q_def)
next
  case (Cons c cs')
  have cc: "0 \<le> c_cc q" using rep by (simp add: clist_rep_def qrep_def)
  show ?thesis
  proof (cases "c_cl q = 0")
    case False
    with b_to_q_putc_loop [OF bytes False cc rep] Cons cc show ?thesis by (simp add: b_to_q_def del: b_to_q_loop.simps)
  next
    case True
    from rep True have bs: "bs = []" and c0: "c_cc q = 0" and fl: "cchain (c_next m) (cfreelist m) fs"
      using cchain_aligned [of "c_next m" "hd bs" bs "last bs"]
      by (auto simp: clist_rep_def qrep_def split: if_splits)
    show ?thesis
    proof (cases fs)
      case Nil
      with fl True Cons c0 show ?thesis
        by (cases q) (simp add: b_to_q_def putc_def b_to_q_out_def)
    next
      case (Cons f fs')
      from fl Cons have f: "cfreelist m = f" "0 < f" "f mod 32 = 0" by auto
      from rep bs Cons have rep': "clist_rep m q (f # fs') [] ds" by simp
      from putc_first_block [OF rep', of c] obtain q' m' where p: "putc c q m = (0, q', m')"
        and r': "clist_rep m' q' fs' [f] (ds @ [c mod 256])" .
      have byte: "c mod 256 = c" using bytes \<open>cs = c # cs'\<close> by simp
      have q': "q' = q\<lparr>c_cf := info f, c_cc := 1, c_cl := info f + 1\<rparr>"
        and m': "m' = m\<lparr>cfreelist := c_next m f, c_next := (c_next m)(f := 0), c_info := (c_info m)(info f := c)\<rparr>"
        using p True c0 f byte by (auto simp: putc_def putc_at_def cfree_get_def Let_def)
      have "off (info f) \<noteq> 0" using off_end [OF f(3), of "f + 4"] by (simp add: info_def)
      then have "b_to_q cs q m = b_to_q_out q' (length cs') (b_to_q_loop cs' (c_cl q') m')"
        using True f c0 \<open>cs = c # cs'\<close> q' m'
        by (auto simp: b_to_q_def cfree_get_def Let_def b_to_q_out_def split: prod.splits)
      also have "\<dots> = putc_all cs' q' m'"
        using b_to_q_putc_loop [OF _ _ _ r', of cs'] rep_tail_pos [OF r'] bytes \<open>cs = c # cs'\<close> by simp
      finally show ?thesis using p \<open>cs = c # cs'\<close> by simp
    qed
  qed
qed

section \<open>The queue interface\<close>

text \<open>
  What the terminal and communication drivers rely on. \<open>holds m q cs\<close>: the queue \<open>q\<close> holds
  the characters \<open>cs\<close> in the memory \<open>m\<close>.
\<close>

locale char_queue =
  fixes deq :: "'q \<Rightarrow> 'm \<Rightarrow> int \<times> 'q \<times> 'm"
    and enq :: "int \<Rightarrow> 'q \<Rightarrow> 'm \<Rightarrow> int \<times> 'q \<times> 'm"
    and holds :: "'m \<Rightarrow> 'q \<Rightarrow> int list \<Rightarrow> bool"
    and other :: "'m \<Rightarrow> 'm \<Rightarrow> bool"
  assumes deq_nil: "holds m q [] \<Longrightarrow> deq q m = (-1, q, m)"
    and deq_cons: "holds m q (c # cs) \<Longrightarrow> \<exists>q' m'. deq q m = (c, q', m') \<and> holds m' q' cs \<and> other m m'"
    and enq_cases: "holds m q cs \<Longrightarrow>
      (\<exists>m'. enq c q m = (-1, q, m') \<and> holds m' q cs \<and> other m m') \<or>
      (\<exists>q' m'. enq c q m = (0, q', m') \<and> holds m' q' (cs @ [c mod 256]) \<and> other m m')"
    and other_refl: "other m m"
    and other_trans: "other m m' \<Longrightarrow> other m' m'' \<Longrightarrow> other m m''"
begin

fun deqs :: "nat \<Rightarrow> 'q \<Rightarrow> 'm \<Rightarrow> int list \<times> 'q \<times> 'm" where
  "deqs 0 q m = ([], q, m)"
| "deqs (Suc n) q m = (let (c, q, m) = deq q m; (cs, q, m) = deqs n q m in (c # cs, q, m))"

fun enqs :: "int list \<Rightarrow> 'q \<Rightarrow> 'm \<Rightarrow> nat \<times> 'q \<times> 'm" where
  "enqs [] q m = (0, q, m)"
| "enqs (c # cs) q m =
     (let (r, q, m) = enq c q m in if r < 0 then (Suc (length cs), q, m) else enqs cs q m)"

lemma deqs_holds:
  "holds m q cs \<Longrightarrow> n \<le> length cs \<Longrightarrow>
     \<exists>q' m'. deqs n q m = (take n cs, q', m') \<and> holds m' q' (drop n cs) \<and> other m m'"
proof (induction n arbitrary: q m cs)
  case (Suc n)
  then obtain c ds where cs: "cs = c # ds" by (cases cs) auto
  from deq_cons [of m q c ds] Suc.prems cs obtain q1 m1 where
    1: "deq q m = (c, q1, m1)" "holds m1 q1 ds" "other m m1" by auto
  from Suc.IH [OF 1(2)] Suc.prems cs obtain q2 m2 where
    2: "deqs n q1 m1 = (take n ds, q2, m2)" "holds m2 q2 (drop n ds)" "other m1 m2" by auto
  from 1 2 cs other_trans show ?case by auto
qed (auto intro: other_refl)

lemma enqs_holds:
  "holds m q ds \<Longrightarrow> \<exists>k q' m'. enqs cs q m = (k, q', m') \<and> k \<le> length cs \<and>
     holds m' q' (ds @ map (\<lambda>c. c mod 256) (take (length cs - k) cs)) \<and> other m m'"
proof (induction cs arbitrary: q m ds)
  case (Cons c cs)
  from enq_cases [OF Cons.prems, of c] show ?case
  proof (elim disjE exE conjE)
    fix m' assume "enq c q m = (-1, q, m')" "holds m' q ds" "other m m'"
    then show ?thesis by auto
  next
    fix q1 m1 assume 1: "enq c q m = (0, q1, m1)" "holds m1 q1 (ds @ [c mod 256])" "other m m1"
    from Cons.IH [OF 1(2)] obtain k q2 m2 where 2: "enqs cs q1 m1 = (k, q2, m2)" "k \<le> length cs"
      "holds m2 q2 ((ds @ [c mod 256]) @ map (\<lambda>c. c mod 256) (take (length cs - k) cs))" "other m1 m2"
      by blast
    with 1 other_trans [OF 1(3) 2(4)] show ?thesis by (auto simp: Suc_diff_le)
  qed
qed (auto intro: other_refl)

end

definition queue_holds :: "int set \<Rightarrow> clmem \<Rightarrow> clist \<Rightarrow> int list \<Rightarrow> bool" where
  "queue_holds A m q cs \<longleftrightarrow> (\<exists>fs bs. clist_rep m q fs bs cs \<and> set fs \<union> set bs = A)"

interpretation cq: char_queue getc putc "queue_holds A" "same_outside A" for A
proof
  fix m m' m'' :: clmem and q :: clist and c :: int and cs :: "int list"
  show "same_outside A m m" by (simp add: same_outside_def)
  show "same_outside A m m' \<Longrightarrow> same_outside A m' m'' \<Longrightarrow> same_outside A m m''"
    by (simp add: same_outside_def)
  show "queue_holds A m q [] \<Longrightarrow> getc q m = (-1, q, m)"
    by (auto simp: queue_holds_def dest: getc_empty)
  show "\<exists>q' m'. getc q m = (c, q', m') \<and> queue_holds A m' q' cs \<and> same_outside A m m'"
    if "queue_holds A m q (c # cs)"
    using that getc_cons unfolding queue_holds_def by metis
  show "(\<exists>m'. putc c q m = (-1, q, m') \<and> queue_holds A m' q cs \<and> same_outside A m m') \<or>
      (\<exists>q' m'. putc c q m = (0, q', m') \<and> queue_holds A m' q' (cs @ [c mod 256]) \<and> same_outside A m m')"
    if "queue_holds A m q cs"
  proof -
    from that obtain fs bs where rep: "clist_rep m q fs bs cs" and A: "set fs \<union> set bs = A"
      by (auto simp: queue_holds_def)
    from rep show ?thesis
    proof (cases rule: putc_cases [where c = c])
      case refused
      then show ?thesis unfolding queue_holds_def using A by metis
    next
      case stored
      then show ?thesis unfolding queue_holds_def using A by metis
    qed
  qed
qed


lemma queue_holdsI: "clist_rep m q fs bs cs \<Longrightarrow> set fs \<union> set bs = A \<Longrightarrow> queue_holds A m q cs"
  by (auto simp: queue_holds_def)

lemma queue_holds_cc: "queue_holds A m q cs \<Longrightarrow> c_cc q = int (length cs)"
  by (auto simp: queue_holds_def clist_rep_def qrep_def)

lemma putc_all_enqs: "putc_all cs q m = cq.enqs cs q m"
  by (induction cs arbitrary: q m) (auto split: prod.splits)

lemma getc_n_deqs: "queue_holds A m q cs \<Longrightarrow> getc_n n q m = cq.deqs (min n (length cs)) q m"
proof (induction n arbitrary: q m cs)
  case (Suc n)
  show ?case
  proof (cases cs)
    case Nil
    with Suc.prems queue_holds_cc show ?thesis by fastforce
  next
    case (Cons c ds)
    from cq.deq_cons [of A m q c ds] Suc.prems Cons obtain q1 m1 where
      1: "getc q m = (c, q1, m1)" "queue_holds A m1 q1 ds" by auto
    have "c_cc q > 0" using queue_holds_cc [OF Suc.prems] Cons by simp
    with 1 Suc.IH [OF 1(2)] Cons show ?thesis by simp
  qed
qed simp

section \<open>Access to the characters of the first block\<close>

text \<open>The number of queued characters that lie in the first block of the queue.\<close>

definition in_first_block :: "clist \<Rightarrow> int list \<Rightarrow> nat" where
  "in_first_block q cs = min (length cs) (nat (32 - off (c_cf q)))"

lemma off_in: "b mod 32 = 0 \<Longrightarrow> b \<le> x \<Longrightarrow> x \<le> b + 31 \<Longrightarrow> off x = x - b"
  using blk_in [of b x] by (simp add: blk_def off_def)

lemma flag_scan_takeWhile:
  "flag_scan m flag p n = length (takeWhile (\<lambda>c. schar_ext c AND flag = 0) (map (c_info m) [p .. p + int n - 1]))"
proof (induction n arbitrary: p)
  case (Suc n)
  have "[p .. p + int (Suc n) - 1] = p # [p + 1 .. p + 1 + int n - 1]" by (simp add: upto_rec1)
  with Suc show ?case by (simp del: upto.simps)
qed simp

lemma take_upto: "k \<le> length [i .. j] \<Longrightarrow> take k [i .. j] = [i .. i + int k - 1]" for i j :: int
  by (rule nth_equalityI) auto

lemma drop_upto: "k \<le> length [i .. j] \<Longrightarrow> drop k [i .. j] = [i + int k .. j]" for i j :: int
  by (rule nth_equalityI) auto

lemma qaddrs_take:
  "bs \<noteq> [] \<Longrightarrow> k \<le> length (qaddrs cf cl bs) \<Longrightarrow> cf + int k \<le> hd bs + 32 \<Longrightarrow>
     take k (qaddrs cf cl bs) = [cf .. cf + int k - 1]"
  by (cases "(cf, cl, bs)" rule: qaddrs.cases) (auto simp: take_upto)

lemma qaddrs_drop:
  "bs \<noteq> [] \<Longrightarrow> k \<le> length (qaddrs cf cl bs) \<Longrightarrow> cf + int k \<le> hd bs + 31 \<Longrightarrow>
     drop k (qaddrs cf cl bs) = qaddrs (cf + int k) cl bs"
  by (cases "(cf, cl, bs)" rule: qaddrs.cases) (auto simp: drop_upto)

lemma qaddrs_drop_block:
  "cf \<le> b + 31 \<Longrightarrow> k = nat (b + 32 - cf) \<Longrightarrow>
     drop k (qaddrs cf cl (b # b' # bs)) = qaddrs (b' + 4) cl (b' # bs)"
  by simp

lemma rep_first_block:
  assumes "clist_rep m q fs bs cs" "cs \<noteq> []"
  obtains b bt where "bs = b # bt" "0 < b" "b mod 32 = 0" "b + 4 \<le> c_cf q" "c_cf q \<le> b + 31"
    "off (c_cf q) = c_cf q - b" "c_cc q = int (length cs)"
    "cs = map (c_info m) (qaddrs (c_cf q) (c_cl q) bs)"
proof -
  from assms have ne: "bs \<noteq> []" by (auto simp: clist_rep_def qrep_def)
  then obtain b bt where bs: "bs = b # bt" by (cases bs) auto
  from assms bs show thesis
    by (intro that [of b bt]) (auto simp: clist_rep_def qrep_def off_in)
qed

lemma takeWhile_True [simp]: "takeWhile (\<lambda>x. True) xs = xs"
  by (induction xs) auto

lemma ndqb_counts:
  assumes rep: "clist_rep m q fs bs cs"
  shows "ndqb q flag m = int (length (takeWhile (\<lambda>c. flag = 0 \<or> schar_ext c AND flag = 0)
           (take (in_first_block q cs) cs)))"
proof (cases "cs = []")
  case True
  with rep show ?thesis by (simp add: ndqb_def clist_rep_def qrep_def)
next
  case False
  from rep_first_block [OF rep False] obtain b bt where bs: "bs = b # bt"
    and b: "0 < b" "b mod 32 = 0" "b + 4 \<le> c_cf q" "c_cf q \<le> b + 31" "off (c_cf q) = c_cf q - b"
    and cc: "c_cc q = int (length cs)" and cs: "cs = map (c_info m) (qaddrs (c_cf q) (c_cl q) bs)" .
  let ?k = "in_first_block q cs"
  have "blk (c_cf q + 28) = b + 32" using blk_in [of "b + 32" "c_cf q + 28"] b by auto
  then have k: "(if c_cc q < blk (c_cf q + CBSIZE) - c_cf q then c_cc q
                 else blk (c_cf q + CBSIZE) - c_cf q) = int ?k"
    using b cc by (auto simp: in_first_block_def CBSIZE_def min_def)
  have "take ?k cs = map (c_info m) (take ?k (qaddrs (c_cf q) (c_cl q) bs))"
    by (subst (2) cs) (rule take_map)
  also have "take ?k (qaddrs (c_cf q) (c_cl q) bs) = [c_cf q .. c_cf q + int ?k - 1]"
    by (rule qaddrs_take) (use bs b cs in \<open>auto simp: in_first_block_def min_def\<close>)
  finally have tk: "take ?k cs = map (c_info m) [c_cf q .. c_cf q + int ?k - 1]" .
  have "0 < c_cc q" using cc False by simp
  moreover have "length (take ?k cs) = ?k" by (simp add: in_first_block_def)
  ultimately show ?thesis
    unfolding ndqb_def Let_def k using tk by (simp add: flag_scan_takeWhile del: length_take)
qed

text \<open>
  \<open>keeps_blocks\<close> is the common conclusion of the operations that remove characters: the
  queue now holds \<open>ds\<close> and the blocks are those of before.
\<close>

definition keeps_blocks :: "int set \<Rightarrow> clmem \<Rightarrow> int list \<Rightarrow> clist \<times> clmem \<Rightarrow> bool" where
  "keeps_blocks A m ds r \<longleftrightarrow> queue_holds A (snd r) (fst r) ds \<and> same_outside A m (snd r)"

lemma keeps_blocksI:
  "clist_rep m' q' fs' bs' ds \<Longrightarrow> set fs' \<union> set bs' = A \<Longrightarrow> same_outside A m m' \<Longrightarrow> keeps_blocks A m ds (q', m')"
  by (auto simp: keeps_blocks_def queue_holds_def)

lemma same_outside_refl [simp]: "same_outside A m m"
  by (simp add: same_outside_def)

lemma same_outside_free: "b \<in> A \<Longrightarrow> same_outside A m (cfree_put b m)"
  by (simp add: same_outside_def cfree_put_def)

lemma ndflush_block_end:
  assumes rep: "clist_rep m q fs (b # bt) cs" and k: "0 < k" "k \<le> length cs" "c_cf q + int k = b + 32"
  shows "keeps_blocks (set fs \<union> set (b # bt)) m (drop k cs) (ndflush q (int k) m)"
proof -
  have ne: "cs \<noteq> []" using k by auto
  from rep ne have b: "0 < b" "b mod 32 = 0" "b + 4 \<le> c_cf q" "c_cf q \<le> b + 31"
    and cc: "c_cc q = int (length cs)"
    and cs: "cs = map (c_info m) (qaddrs (c_cf q) (c_cl q) (b # bt))"
    by (auto simp: clist_rep_def qrep_def)
  have ch: "cchain (c_next m) (cfreelist m) fs" "distinct (fs @ b # bt)" "cchain (c_next m) (c_next m b) bt"
    "last (b # bt) + 4 < c_cl q" "c_cl q \<le> last (b # bt) + 32" "bt = [] \<longrightarrow> c_cf q < c_cl q"
    using rep by (auto simp: clist_rep_def qrep_def)
  have dcs: "drop k cs = map (c_info m) (drop k (qaddrs (c_cf q) (c_cl q) (b # bt)))"
    by (subst cs) (rule drop_map)
  have pos: "0 < c_cc q" using cc ne by simp
  let ?q = "q\<lparr>c_cc := c_cc q - int k, c_cf := c_cf q + int k\<rparr>"
  have "off (c_cf q + int k) = 0" using off_end [OF b(2), of "b + 32"] k by simp
  then have nf: "ndflush q (int k) m =
      (if c_next m b \<noteq> 0 then ?q\<lparr>c_cf := info (c_next m b)\<rparr> else ?q\<lparr>c_cf := 0, c_cl := 0\<rparr>, cfree_put b m)"
    using pos k b by (simp add: ndflush_def Let_def CBSIZE_def CROUND_def)
  show ?thesis
  proof (cases bt)
    case Nil
    then have "length cs = nat (c_cl q - c_cf q)" using cs by simp
    then have d: "drop k cs = []" "c_cc q = int k" using ch k Nil cc by auto
    have "clist_rep (cfree_put b m) (?q\<lparr>c_cf := 0, c_cl := 0\<rparr>) (b # fs) [] (drop k cs)"
      unfolding d(1) using d(2) ch b Nil by (auto simp: clist_rep_def qrep_def cfree_put_def)
    from keeps_blocksI [OF this, of "set fs \<union> set (b # bt)" m] show ?thesis
      using nf ch Nil by (simp add: same_outside_free)
  next
    case (Cons b' bt')
    have d: "drop k cs = map (c_info m) (qaddrs (b' + 4) (c_cl q) (b' # bt'))"
      using dcs qaddrs_drop_block [of "c_cf q" b k "c_cl q" b' bt'] k b Cons by simp
    have nx: "c_next m b = b'" "0 < b'" using ch Cons by auto
    have "c_cc q - int k = int (length (drop k cs))" using cc k by simp
    then have "clist_rep (cfree_put b m) (?q\<lparr>c_cf := info b'\<rparr>) (b # fs) bt (drop k cs)"
      unfolding d using ch b Cons nx by (auto simp: clist_rep_def qrep_def cfree_put_def info_def)
    from keeps_blocksI [OF this, of "set fs \<union> set (b # bt)" m] show ?thesis
      using nf nx by (simp add: same_outside_free)
  qed
qed

lemma ndflush_inside:
  assumes rep: "clist_rep m q fs (b # bt) cs" and k: "0 < k" "k \<le> length cs" "c_cf q + int k \<le> b + 31"
  shows "keeps_blocks (set fs \<union> set (b # bt)) m (drop k cs) (ndflush q (int k) m)"
proof -
  have ne: "cs \<noteq> []" using k by auto
  from rep ne have b: "0 < b" "b mod 32 = 0" "b + 4 \<le> c_cf q" "c_cf q \<le> b + 31"
    and cc: "c_cc q = int (length cs)"
    and cs: "cs = map (c_info m) (qaddrs (c_cf q) (c_cl q) (b # bt))"
    by (auto simp: clist_rep_def qrep_def)
  have ch: "cchain (c_next m) (cfreelist m) fs" "distinct (fs @ b # bt)" "cchain (c_next m) b (b # bt)"
    "last (b # bt) + 4 < c_cl q" "c_cl q \<le> last (b # bt) + 32" "bt = [] \<longrightarrow> c_cf q < c_cl q"
    using rep by (auto simp: clist_rep_def qrep_def)
  have pos: "0 < c_cc q" using cc ne by simp
  let ?q = "q\<lparr>c_cc := c_cc q - int k, c_cf := c_cf q + int k\<rparr>"
  have "off (c_cf q + int k) \<noteq> 0" using off_end [OF b(2), of "c_cf q + int k"] b k by auto
  then have nf: "ndflush q (int k) m =
      (if c_cc q = int k then (?q\<lparr>c_cf := 0, c_cl := 0\<rparr>, cfree_put b m) else (?q, m))"
    using pos k blk_in [OF b(2), of "c_cf q + int k"] b
    by (simp add: ndflush_def Let_def CBSIZE_def)
  have "drop k cs = map (c_info m) (drop k (qaddrs (c_cf q) (c_cl q) (b # bt)))"
    by (subst cs) (rule drop_map)
  then have d: "drop k cs = map (c_info m) (qaddrs (c_cf q + int k) (c_cl q) (b # bt))"
    using qaddrs_drop [of "b # bt" k "c_cf q" "c_cl q"] k cs by simp
  show ?thesis
  proof (cases "k = length cs")
    case True
    then have "qaddrs (c_cf q + int k) (c_cl q) (b # bt) = []" using d by simp
    then have bt: "bt = []" using qaddrs_nonempty [of "b # bt" "c_cl q" "c_cf q + int k"] ch by auto
    have "clist_rep (cfree_put b m) (?q\<lparr>c_cf := 0, c_cl := 0\<rparr>) (b # fs) [] (drop k cs)"
      using ch b True cc by (auto simp: clist_rep_def qrep_def cfree_put_def)
    from keeps_blocksI [OF this, of "set fs \<union> set (b # bt)" m] show ?thesis
      using nf bt True cc by (simp add: same_outside_free)
  next
    case False
    then have "drop k cs \<noteq> []" and len: "c_cc q - int k = int (length (drop k cs))" using k cc by simp_all
    then have "bt = [] \<longrightarrow> c_cf q + int k < c_cl q" using d by auto
    then have "clist_rep m ?q fs (b # bt) (drop k cs)"
      using ch b k len d by (simp add: clist_rep_def qrep_def)
    from keeps_blocksI [OF this, of "set fs \<union> set (b # bt)" m] show ?thesis
      using nf False cc by simp
  qed
qed

lemma ndflush_drops:
  assumes rep: "clist_rep m q fs bs cs" and k: "0 < k" "k \<le> in_first_block q cs"
  shows "keeps_blocks (set fs \<union> set bs) m (drop k cs) (ndflush q (int k) m)"
proof -
  have ne: "cs \<noteq> []" using k by (auto simp: in_first_block_def)
  from rep_first_block [OF rep ne] obtain b bt where bs: "bs = b # bt"
    and b: "b + 4 \<le> c_cf q" "c_cf q \<le> b + 31" "off (c_cf q) = c_cf q - b" .
  have kb: "c_cf q + int k \<le> b + 32" "k \<le> length cs"
    using k b by (auto simp: in_first_block_def)
  with ndflush_block_end [of m q fs b bt cs k] ndflush_inside [of m q fs b bt cs k] rep k bs show ?thesis
    by (cases "c_cf q + int k = b + 32") auto
qed

section \<open>Words and initialisation\<close>

lemma needs_block_after_store:
  assumes "putc c q m = (0, q', m')" "clist_rep m' q' fs' bs' (cs @ [d])" "clist_rep m q fs bs cs" "fs \<noteq> []"
  shows "\<not> (fs' = [] \<and> needs_block q')"
proof (cases "needs_block q")
  case False
  have rep: "cchain (c_next m) (cfreelist m) fs" "cchain (c_next m') (cfreelist m') fs'"
    using assms by (auto simp: clist_rep_def)
  have "cfreelist m' = cfreelist m"
    using assms(1) False assms(3)
    by (auto simp: putc_def putc_at_def needs_block_def Let_def clist_rep_def qrep_def split: if_splits)
  with rep assms(4) show ?thesis by (cases fs; cases fs') auto
next
  case True
  from rep_tail_pos [OF assms(2)] have pos: "c_cl q' \<noteq> 0" "0 \<le> c_cc q'" by auto
  have cc: "0 \<le> c_cc q" using assms(3) by (auto simp: clist_rep_def qrep_def)
  have f: "cfreelist m mod 32 = 0" "cfreelist m \<noteq> 0"
    using assms(3,4) by (cases fs; auto simp: clist_rep_def)+
  have "c_cl q' = cfreelist m + 5"
    using assms(1) True cc f
    by (auto simp: putc_def putc_at_def needs_block_def cfree_get_def info_def Let_def split: if_splits)
  then have "off (c_cl q') \<noteq> 0" using off_in [of "cfreelist m" "c_cl q'"] f by simp
  with pos show ?thesis by (simp add: needs_block_def)
qed

lemma putw_stores:
  assumes rep: "clist_rep m q fs bs cs" and fs: "fs \<noteq> []"
  obtains q' m' where "putw c q m = (0, q', m')"
    "queue_holds (set fs \<union> set bs) m' q' (cs @ [c mod 256, drop_bit 8 c mod 256])"
proof -
  let ?A = "set fs \<union> set bs"
  have fl: "cfreelist m \<noteq> 0" using rep fs by (cases fs) (auto simp: clist_rep_def)
  from rep show thesis
  proof (cases rule: putc_cases [where c = c])
    case refused
    with fs show thesis by simp
  next
    case (stored q1 m1 fs1 bs1)
    note 1 = stored
    from 1(3) show thesis
    proof (cases rule: putc_cases [where c = "drop_bit 8 c"])
      case refused
      with needs_block_after_store [OF 1(2,3) rep fs] show thesis by simp
    next
      case (stored q2 m2 fs2 bs2)
      then have "putw c q m = (0, q2, m2)" using 1 fl by (simp add: putw_def)
      moreover have "queue_holds ?A m2 q2 (cs @ [c mod 256, drop_bit 8 c mod 256])"
        using stored 1 queue_holdsI by simp
      ultimately show thesis by (rule that)
    qed
  qed
qed

lemma byte_or_shift: "0 \<le> a \<Longrightarrow> a < 256 \<Longrightarrow> a OR push_bit 8 b = a + 256 * b" for a b :: int
proof -
  assume "0 \<le> a" "a < 256"
  then have "take_bit 8 a = a" by (simp add: take_bit_int_eq_self)
  moreover have "take_bit 8 a AND push_bit 8 b = 0" by (rule bit_eqI) (auto simp: bit_simps)
  ultimately have "a AND push_bit 8 b = 0" by simp
  then show ?thesis by (simp add: disjunctive_add_eq_or [symmetric] push_bit_eq_mult)
qed

lemma getw_takes:
  assumes "queue_holds A m q (a # b # cs)" "0 \<le> a" "a < 256"
  obtains q' m' where "getw q m = (a + 256 * b, q', m')" "queue_holds A m' q' cs" "same_outside A m m'"
proof -
  from cq.deq_cons [OF assms(1)] obtain q1 m1 where
    1: "getc q m = (a, q1, m1)" "queue_holds A m1 q1 (b # cs)" "same_outside A m m1" by auto
  from cq.deq_cons [OF 1(2)] obtain q2 m2 where
    2: "getc q1 m1 = (b, q2, m2)" "queue_holds A m2 q2 cs" "same_outside A m1 m2" by auto
  have "c_cc q > 1" using queue_holds_cc [OF assms(1)] by simp
  with 1 2 byte_or_shift [OF assms(2,3), of b] have "getw q m = (a + 256 * b, q2, m2)"
    by (simp add: getw_def)
  with 2(2) cq.other_trans [OF 1(3) 2(3)] that show thesis by blast
qed

lemma bytes_of_short: "c mod 256 + 256 * (drop_bit 8 c mod 256) = c mod 65536" for c :: int
  using zmod_zmult2_eq [of 256 c 256] by (simp add: drop_bit_eq_div)

lemma aligned_from: "cp mod 32 = 0 \<Longrightarrow> cp \<le> b \<and> b mod 32 = 0 \<longleftrightarrow> b = cp \<or> cp + 32 \<le> b \<and> b mod 32 = 0"
  for b cp :: int
  by presburger

lemma cinit_loop_frees:
  "cchain (c_next m) (cfreelist m) fs \<Longrightarrow> \<forall>b\<in>set fs. b < cp \<Longrightarrow> distinct fs \<Longrightarrow> 0 < cp \<Longrightarrow> cp mod 32 = 0 \<Longrightarrow>
     lim < cp + 32 * int n \<Longrightarrow>
     \<exists>fs'. cchain (c_next (cinit_loop n cp lim m)) (cfreelist (cinit_loop n cp lim m)) fs' \<and>
       distinct fs' \<and> set fs' = set fs \<union> {b. (cp \<le> b \<and> b mod 32 = 0) \<and> b \<le> lim}"
proof (induction n arbitrary: cp m fs)
  case 0
  then have none: "{b. (cp \<le> b \<and> b mod 32 = 0) \<and> b \<le> lim} = {}" by auto
  show ?case unfolding none using 0 by (intro exI [of _ fs]) simp
next
  case (Suc n)
  show ?case
  proof (cases "cp \<le> lim")
    case True
    let ?m = "cfree_put cp m"
    have ch: "cchain (c_next ?m) (cfreelist ?m) (cp # fs)" "distinct (cp # fs)"
      using Suc.prems by (auto simp: cfree_put_def)
    have "(cp + 32) mod 32 = 0" "\<forall>b\<in>set (cp # fs). b < cp + 32" "0 < cp + 32" "lim < cp + 32 + 32 * int n"
      using Suc.prems by auto
    with Suc.IH [OF ch(1) _ ch(2), of "cp + 32"] obtain fs' where
      fs': "cchain (c_next (cinit_loop n (cp + 32) lim ?m)) (cfreelist (cinit_loop n (cp + 32) lim ?m)) fs'"
        "distinct fs'" "set fs' = set (cp # fs) \<union> {b. (cp + 32 \<le> b \<and> b mod 32 = 0) \<and> b \<le> lim}"
      by blast
    have "set fs' = set fs \<union> {b. (cp \<le> b \<and> b mod 32 = 0) \<and> b \<le> lim}"
      unfolding fs'(3) aligned_from [OF Suc.prems(5)] using True by fastforce
    with fs' True show ?thesis by (intro exI [of _ fs']) (simp add: CROUND_def)
  next
    case False
    then have none: "{b. (cp \<le> b \<and> b mod 32 = 0) \<and> b \<le> lim} = {}" by auto
    show ?thesis unfolding none using False Suc.prems by (intro exI [of _ fs]) simp
  qed
qed

section \<open>Properties\<close>

text \<open>A memory with two free blocks and an empty queue, for the witnesses.\<close>

definition clmem_ex :: clmem where
  "clmem_ex = \<lparr>c_next = (\<lambda>b. if b = 32 then 64 else 0), c_info = (\<lambda>x. 0), cfreelist = 32, cbad = 0\<rparr>"

definition clist_nil :: clist where
  "clist_nil = \<lparr>c_cc = 0, c_cf = 0, c_cl = 0\<rparr>"

lemma clmem_ex_rep: "clist_rep clmem_ex clist_nil [32, 64] [] []"
  by (simp add: clist_rep_def qrep_def clmem_ex_def clist_nil_def)

lemma clist_full_rep: "clist_rep (clmem_ex\<lparr>cfreelist := 0\<rparr>) clist_nil [] [] []"
  by (simp add: clist_rep_def qrep_def clmem_ex_def clist_nil_def)

definition clmem_one :: clmem where
  "clmem_one = \<lparr>c_next = (\<lambda>b. 0), c_info = (\<lambda>x. 0)(36 := 65), cfreelist = 64, cbad = 0\<rparr>"

definition clist_one :: clist where
  "clist_one = \<lparr>c_cc = 1, c_cf = 36, c_cl = 37\<rparr>"

lemma clist_one_rep: "clist_rep clmem_one clist_one [64] [32] [65]"
  by (simp add: clist_rep_def qrep_def clmem_one_def clist_one_def)

text \<open>
  C14: \<^verbatim>\<open>putc\<close> appends the low byte of its argument to the queue; it refuses, with the queue
  unchanged, exactly when a new block is needed and the free list is empty. Blocks are
  neither lost nor shared, and blocks of other queues are not touched.
\<close>

theorem putc_appends:
  assumes "clist_rep m q fs bs cs"
  shows "case putc c q m of (r, q', m') \<Rightarrow>
      same_outside (set fs \<union> set bs) m m' \<and>
      (if fs = [] \<and> needs_block q then r = -1 \<and> q' = q \<and> clist_rep m' q fs bs cs
       else r = 0 \<and> (\<exists>fs' bs'. clist_rep m' q' fs' bs' (cs @ [c mod 256]) \<and>
                               set fs' \<union> set bs' = set fs \<union> set bs))"
  using assms by (cases rule: putc_cases [where c = c]) auto

theorem putc_appends_witness:
  "(case putc 321 clist_nil clmem_ex of (r, q', m') \<Rightarrow> r = 0 \<and>
      (\<exists>fs' bs'. clist_rep m' q' fs' bs' [65] \<and> set fs' \<union> set bs' = {32, 64})) \<and>
   (case putc 321 clist_nil (clmem_ex\<lparr>cfreelist := 0\<rparr>) of (r, q', m') \<Rightarrow> r = -1)"
proof
  show "case putc 321 clist_nil clmem_ex of (r, q', m') \<Rightarrow> r = 0 \<and>
      (\<exists>fs' bs'. clist_rep m' q' fs' bs' [65] \<and> set fs' \<union> set bs' = {32, 64})"
    using putc_appends [OF clmem_ex_rep, of 321] by (simp split: prod.splits)
  show "case putc 321 clist_nil (clmem_ex\<lparr>cfreelist := 0\<rparr>) of (r, q', m') \<Rightarrow> r = -1"
    using putc_appends [OF clist_full_rep, of 321]
    by (simp add: needs_block_def clist_nil_def split: prod.splits)
qed

text \<open>
  \<^verbatim>\<open>q_to_b\<close> copies the oldest characters, at most \<open>n\<close> of them, in order, leaves the
  others queued, and returns the consumed blocks to the free list; it is what repeated
  calls of \<^verbatim>\<open>getc\<close> do.
\<close>

theorem q_to_b_takes:
  assumes "queue_holds A m q cs"
  shows "case q_to_b q n m of (ds, r) \<Rightarrow> ds = take (nat n) cs \<and> keeps_blocks A m (drop (nat n) cs) r \<and>
     (ds, r) = getc_n (nat n) q m"
proof (cases "0 < n \<and> cs \<noteq> []")
  case True
  have pos: "0 < c_cc q" using queue_holds_cc [OF assms] True by simp
  have take_min: "take (min (nat n) (length cs)) cs = take (nat n) cs"
    and drop_min: "drop (min (nat n) (length cs)) cs = drop (nat n) cs"
    by (simp_all add: min_def)
  from cq.deqs_holds [OF assms, of "min (nat n) (length cs)"] obtain q' m' where
    "cq.deqs (min (nat n) (length cs)) q m = (take (nat n) cs, q', m')"
    "queue_holds A m' q' (drop (nat n) cs)" "same_outside A m m'"
    by (metis min.cobounded2 take_min drop_min)
  with pos True getc_n_deqs [OF assms, of "nat n"] q_to_b_getc [OF pos, of "nat n" m] show ?thesis
    by (simp add: q_to_b_def keeps_blocks_def)
next
  case False
  then have "q_to_b q n m = ([], q, m)" "getc_n (nat n) q m = ([], q, m)" "nat n = 0 \<or> cs = []"
    using cq.deq_nil [of A m q] queue_holds_cc [OF assms] assms
    by (cases "nat n"; auto simp: q_to_b_def getc_def)+
  with assms show ?thesis by (auto simp: keeps_blocks_def)
qed

theorem q_to_b_takes_witness:
  "fst (q_to_b clist_one 5 clmem_one) = [65]"
  using q_to_b_takes [OF queue_holdsI [OF clist_one_rep refl], of 5] by (simp split: prod.splits)

text \<open>
  \<^verbatim>\<open>b_to_q\<close> does exactly what \<^verbatim>\<open>putc\<close> on each character in turn does, up to the first
  refusal, and returns the number of characters it did not transfer.
\<close>

theorem b_to_q_appends:
  assumes "queue_holds A m q ds" "\<forall>c\<in>set cs. 0 \<le> c \<and> c < 256"
  shows "b_to_q cs q m = putc_all cs q m \<and>
     (case b_to_q cs q m of (k, r) \<Rightarrow> k \<le> length cs \<and> keeps_blocks A m (ds @ take (length cs - k) cs) r)"
proof -
  have eq: "b_to_q cs q m = putc_all cs q m"
    using assms b_to_q_putc_all by (auto simp: queue_holds_def)
  from cq.enqs_holds [OF assms(1), of cs] obtain k q' m' where
    r: "putc_all cs q m = (k, q', m')" "k \<le> length cs"
    "queue_holds A m' q' (ds @ map (\<lambda>c. c mod 256) (take (length cs - k) cs))" "same_outside A m m'"
    unfolding putc_all_enqs by blast
  have "map (\<lambda>c. c mod 256) (take (length cs - k) cs) = take (length cs - k) cs"
    using assms(2) by (intro map_idI) (auto dest: in_set_takeD)
  with r eq show ?thesis by (simp add: keeps_blocks_def)
qed

theorem b_to_q_appends_witness:
  "b_to_q [72, 105] clist_nil clmem_ex = putc_all [72, 105] clist_nil clmem_ex \<and>
   fst (b_to_q [72, 105] clist_nil clmem_ex) \<le> 2"
  using b_to_q_appends [OF queue_holdsI [OF clmem_ex_rep refl], of "[72, 105]"] by (auto split: prod.splits)

text \<open>
  \<^verbatim>\<open>ndqb\<close> counts the leading characters of the first block up to the first one that
  meets the flag mask, and \<^verbatim>\<open>ndflush\<close> of any positive part of that count removes exactly
  those characters, freeing the block when it becomes empty.
\<close>

theorem ndqb_ndflush:
  assumes "clist_rep m q fs bs cs" "0 < k" "int k \<le> ndqb q flag m"
  shows "k \<le> length cs \<and> (\<forall>c\<in>set (take k cs). flag = 0 \<or> schar_ext c AND flag = 0) \<and>
     keeps_blocks (set fs \<union> set bs) m (drop k cs) (ndflush q (int k) m)"
proof -
  let ?P = "\<lambda>c. flag = 0 \<or> schar_ext c AND flag = 0" and ?f = "take (in_first_block q cs) cs"
  have k: "k \<le> length (takeWhile ?P ?f)" using assms(3) ndqb_counts [OF assms(1)] by simp
  also have "\<dots> \<le> length ?f" by (rule length_takeWhile_le)
  finally have kf: "k \<le> in_first_block q cs" "k \<le> length cs" by simp_all
  have "take k cs = take k ?f" using kf by simp
  also have "\<dots> = take k (takeWhile ?P ?f)"
    using k by (metis append_eq_conv_conj take_append takeWhile_dropWhile_id diff_is_0_eq' take0 append_Nil2)
  finally have "set (take k cs) \<subseteq> set (takeWhile ?P ?f)" by (metis set_take_subset)
  then have "\<forall>c\<in>set (take k cs). ?P c" using set_takeWhileD by fast
  with kf ndflush_drops [OF assms(1,2) kf(1)] show ?thesis by blast
qed

theorem ndqb_ndflush_witness:
  "ndqb clist_one 0 clmem_one = 1 \<and> keeps_blocks {32, 64} clmem_one [] (ndflush clist_one 1 clmem_one)"
proof
  show n: "ndqb clist_one 0 clmem_one = 1" by (simp add: ndqb_def addr_defs clist_one_def)
  show "keeps_blocks {32, 64} clmem_one [] (ndflush clist_one 1 clmem_one)"
    using ndqb_ndflush [OF clist_one_rep, of 1 0] n by (simp add: insert_commute)
qed

text \<open>
  \<^verbatim>\<open>putw\<close> with a non-empty free list always stores both bytes (its unchecked second
  \<^verbatim>\<open>putc\<close> cannot be refused), and on a queue that was empty the following \<^verbatim>\<open>getw\<close> gives
  back the low 16 bits and leaves the queue empty.
\<close>

theorem putw_getw:
  assumes "clist_rep m q fs bs []" "fs \<noteq> []"
  shows "case putw c q m of (r, q', m') \<Rightarrow> r = 0 \<and> c_cc q' = 2 \<and>
     (case getw q' m' of (v, q'', m'') \<Rightarrow>
        v = c mod 65536 \<and> queue_holds (set fs \<union> set bs) m'' q'' [])"
proof -
  from putw_stores [OF assms, of c] obtain q' m' where p: "putw c q m = (0, q', m')"
    "queue_holds (set fs \<union> set bs) m' q' [c mod 256, drop_bit 8 c mod 256]" by auto
  from getw_takes [OF p(2)] obtain q'' m'' where
    "getw q' m' = (c mod 256 + 256 * (drop_bit 8 c mod 256), q'', m'')"
    "queue_holds (set fs \<union> set bs) m'' q'' []"
    by (metis pos_mod_sign pos_mod_bound zero_less_numeral)
  with p queue_holds_cc [OF p(2)] bytes_of_short [of c] show ?thesis by simp
qed

theorem putw_getw_witness:
  "case putw 70000 clist_nil clmem_ex of (r, q', m') \<Rightarrow> r = 0 \<and> fst (getw q' m') = 4464"
  using putw_getw [OF clmem_ex_rep, of 70000] by (auto split: prod.splits)

end
