(* ===== verification/Kstate.thy ===== *)
theory Kstate
  imports Prelude
begin

text \<open>
  The data shared by the whole kernel: the user structure of the running process
  (\<^verbatim>\<open>h/user.h\<close>), the process table (\<^verbatim>\<open>h/proc.h\<close>), memory, time and the scheduler's
  variables. The other components extend the record \<open>kst\<close> with their own tables.

  Calls of \<^verbatim>\<open>wakeup\<close>, \<^verbatim>\<open>psignal\<close>, \<^verbatim>\<open>signal\<close> and \<^verbatim>\<open>printf\<close> made by the file system and the
  device code only act on the process table and the console, which that code
  does not read; they are recorded in order in \<open>klog\<close>, and \<open>Proc\<close> gives their effect.
\<close>

section \<open>Constants\<close>

definition NPROC :: nat where "NPROC = 150"
definition NOFILE :: nat where "NOFILE = 20"
definition NSIG :: nat where "NSIG = 17"
definition HZ :: int where "HZ = 60"
definition BSIZE :: int where "BSIZE = 512"
definition DIRSIZ :: nat where "DIRSIZ = 14"
definition NODEV :: int where "NODEV = -1"
definition PSWP :: int where "PSWP = 0"
definition PINOD :: int where "PINOD = 10"
definition PRIBIO :: int where "PRIBIO = 20"
definition PZERO :: int where "PZERO = 25"
definition NZERO :: int where "NZERO = 20"
definition PPIPE :: int where "PPIPE = 26"
definition PWAIT :: int where "PWAIT = 30"
definition PSLEP :: int where "PSLEP = 40"
definition PUSER :: int where "PUSER = 50"

definition major :: "int \<Rightarrow> int" where
  "major x = cuint x div 256"

definition minor :: "int \<Rightarrow> int" where
  "minor x = x mod 256"

definition EPERM :: int where "EPERM = 1"
definition ENOENT :: int where "ENOENT = 2"
definition ESRCH :: int where "ESRCH = 3"
definition EINTR :: int where "EINTR = 4"
definition EIO :: int where "EIO = 5"
definition ENXIO :: int where "ENXIO = 6"
definition E2BIG :: int where "E2BIG = 7"
definition ENOEXEC :: int where "ENOEXEC = 8"
definition EBADF :: int where "EBADF = 9"
definition ECHILD :: int where "ECHILD = 10"
definition EAGAIN :: int where "EAGAIN = 11"
definition ENOMEM :: int where "ENOMEM = 12"
definition EACCES :: int where "EACCES = 13"
definition EFAULT :: int where "EFAULT = 14"
definition ENOTBLK :: int where "ENOTBLK = 15"
definition EBUSY :: int where "EBUSY = 16"
definition EEXIST :: int where "EEXIST = 17"
definition EXDEV :: int where "EXDEV = 18"
definition ENODEV :: int where "ENODEV = 19"
definition ENOTDIR :: int where "ENOTDIR = 20"
definition EISDIR :: int where "EISDIR = 21"
definition EINVAL :: int where "EINVAL = 22"
definition ENFILE :: int where "ENFILE = 23"
definition EMFILE :: int where "EMFILE = 24"
definition ENOTTY :: int where "ENOTTY = 25"
definition ETXTBSY :: int where "ETXTBSY = 26"
definition EFBIG :: int where "EFBIG = 27"
definition ENOSPC :: int where "ENOSPC = 28"
definition ESPIPE :: int where "ESPIPE = 29"
definition EROFS :: int where "EROFS = 30"
definition EMLINK :: int where "EMLINK = 31"
definition EPIPE :: int where "EPIPE = 32"

lemmas errno_defs = EPERM_def ENOENT_def ESRCH_def EINTR_def EIO_def ENXIO_def E2BIG_def ENOEXEC_def
  EBADF_def ECHILD_def EAGAIN_def ENOMEM_def EACCES_def EFAULT_def ENOTBLK_def EBUSY_def EEXIST_def
  EXDEV_def ENODEV_def ENOTDIR_def EISDIR_def EINVAL_def ENFILE_def EMFILE_def ENOTTY_def ETXTBSY_def
  EFBIG_def ENOSPC_def ESPIPE_def EROFS_def EMLINK_def EPIPE_def

section \<open>The user structure\<close>

text \<open>
  \<open>u_cdir\<close>, \<open>u_rdir\<close>, \<open>u_pdir\<close>, \<open>u_ofile\<close> and \<open>u_procp\<close> are indices into the inode, file and
  process tables; \<open>None\<close> is \<^verbatim>\<open>NULL\<close>. The return values \<^verbatim>\<open>r_off\<close> and \<^verbatim>\<open>r_time\<close> share \<open>r_val1\<close>.
\<close>

record user =
  u_segflg :: int
  u_error :: int
  u_uid :: int
  u_gid :: int
  u_ruid :: int
  u_rgid :: int
  u_procp :: nat
  u_arg :: "int list"
  r_val1 :: int
  r_val2 :: int
  u_base :: int
  u_count :: int
  u_offset :: int
  u_cdir :: nat
  u_rdir :: "nat option"
  u_dbuf :: "int list"
  u_dirp :: int
  d_ino :: int
  d_name :: "int list"
  u_pdir :: "nat option"
  u_utab :: "nat \<Rightarrow> int"
  u_ofile :: "nat \<Rightarrow> nat option"
  u_pofile :: "nat \<Rightarrow> int"
  u_tsize :: int
  u_dsize :: int
  u_ssize :: int
  u_signal :: "nat \<Rightarrow> int"
  u_utime :: int
  u_stime :: int
  u_cutime :: int
  u_cstime :: int
  pr_base :: int
  pr_size :: int
  pr_off :: int
  pr_scale :: int
  u_sep :: int
  u_ttyp :: "int option"
  u_ttyd :: int
  u_comm :: "int list"
  u_start :: int
  u_acflag :: int
  u_cmask :: int

section \<open>The process table\<close>

datatype pstat = SNULL | SSLEEP | SWAIT | SRUN | SIDL | SZOMB | SSTOP
datatype pflag = SLOAD | SSYS | SLOCK | SSWAP | STRC | SWTED | SULOCK

text \<open>
  \<open>p_sig\<close> is the set of pending signal numbers (bit \<open>n - 1\<close> of the mask is signal \<open>n\<close>).
  The fields \<open>xp_xstat\<close>, \<open>xp_utime\<close> and \<open>xp_stime\<close> of \<^verbatim>\<open>struct xproc\<close> are kept beside the
  fields they overlay.
\<close>

record proc =
  p_stat :: pstat
  p_flag :: "pflag set"
  p_pri :: int
  p_time :: int
  p_cpu :: int
  p_nice :: int
  p_sig :: "nat set"
  p_uid :: int
  p_pgrp :: int
  p_pid :: int
  p_ppid :: int
  p_addr :: int
  p_size :: int
  p_wchan :: "chan option"
  p_textp :: "nat option"
  p_link :: "nat option"
  p_clktim :: int
  xp_xstat :: int
  xp_utime :: int
  xp_stime :: int

section \<open>The kernel state\<close>

datatype kevent = Ev_wakeup chan | Ev_psignal nat nat | Ev_signal int nat | Ev_printf string

record kst =
  u :: user
  proc :: "nat \<Rightarrow> proc"
  klog :: "kevent list"
  time :: int
  lbolt :: int
  runq :: "nat option"
  slpque :: "nat \<Rightarrow> nat option"
  curpri :: int
  runrun :: int
  runin :: int
  runout :: int
  mpid :: int
  umem :: "int \<Rightarrow> int option"
  core :: "int \<Rightarrow> int"

definition kwakeup :: "chan \<Rightarrow> (unit, 'a kst_scheme) kmon" where
  "kwakeup c = kmod (\<lambda>s. s\<lparr>klog := klog s @ [Ev_wakeup c]\<rparr>)"

definition kprintf :: "string \<Rightarrow> (unit, 'a kst_scheme) kmon" where
  "kprintf m = kmod (\<lambda>s. s\<lparr>klog := klog s @ [Ev_printf m]\<rparr>)"

definition kpsignal :: "nat \<Rightarrow> nat \<Rightarrow> (unit, 'a kst_scheme) kmon" where
  "kpsignal p n = kmod (\<lambda>s. s\<lparr>klog := klog s @ [Ev_psignal p n]\<rparr>)"

text \<open>\<^verbatim>\<open>u.u_error = e\<close> and other updates of the user structure.\<close>

definition umod :: "(user \<Rightarrow> user) \<Rightarrow> (unit, 'a kst_scheme) kmon" where
  "umod f = kmod (\<lambda>s. s\<lparr>u := f (u s)\<rparr>)"

definition seterr :: "int \<Rightarrow> (unit, 'a kst_scheme) kmon" where
  "seterr e = umod (\<lambda>v. v\<lparr>u_error := e\<rparr>)"

definition uget :: "(user \<Rightarrow> 'b) \<Rightarrow> ('b, 'a kst_scheme) kmon" where
  "uget f = kget (\<lambda>s. f (u s))"

lemma kpost_wakeup [simp]: "kpost (kwakeup c s) Q S P = Q () (s\<lparr>klog := klog s @ [Ev_wakeup c]\<rparr>)"
  by (simp add: kwakeup_def)

lemma kpost_printf [simp]: "kpost (kprintf m s) Q S P = Q () (s\<lparr>klog := klog s @ [Ev_printf m]\<rparr>)"
  by (simp add: kprintf_def)

lemma kpost_psignal [simp]: "kpost (kpsignal p n s) Q S P = Q () (s\<lparr>klog := klog s @ [Ev_psignal p n]\<rparr>)"
  by (simp add: kpsignal_def)

lemma kpost_umod [simp]: "kpost (umod f s) Q S P = Q () (s\<lparr>u := f (u s)\<rparr>)"
  by (simp add: umod_def)

lemma kpost_seterr [simp]: "kpost (seterr e s) Q S P = Q () (s\<lparr>u := (u s)\<lparr>u_error := e\<rparr>\<rparr>)"
  by (simp add: seterr_def)

lemma kpost_uget [simp]: "kpost (uget f s) Q S P = Q (f (u s)) s"
  by (simp add: uget_def)

lemma krun_kst [krun]:
  "kthen (kwakeup c) n s = n (s\<lparr>klog := klog s @ [Ev_wakeup c]\<rparr>)" "kthen (kprintf m) n s = n (s\<lparr>klog := klog s @ [Ev_printf m]\<rparr>)"
  "kthen (kpsignal p i) n s = n (s\<lparr>klog := klog s @ [Ev_psignal p i]\<rparr>)" "kthen (umod f) n s = n (s\<lparr>u := f (u s)\<rparr>)"
  "kthen (seterr e) n s = n (s\<lparr>u := (u s)\<lparr>u_error := e\<rparr>\<rparr>)" "kbind (uget g) f' s = f' (g (u s)) s"
  by (simp_all add: kwakeup_def kprintf_def kpsignal_def umod_def seterr_def uget_def krun)

lemma run_kst [krun]:
  "kwakeup c s = Ok () (s\<lparr>klog := klog s @ [Ev_wakeup c]\<rparr>)" "kprintf m s = Ok () (s\<lparr>klog := klog s @ [Ev_printf m]\<rparr>)"
  "kpsignal p i s = Ok () (s\<lparr>klog := klog s @ [Ev_psignal p i]\<rparr>)" "umod f s = Ok () (s\<lparr>u := f (u s)\<rparr>)"
  "seterr e s = Ok () (s\<lparr>u := (u s)\<lparr>u_error := e\<rparr>\<rparr>)" "uget g s = Ok (g (u s)) s"
  by (simp_all add: kwakeup_def kprintf_def kpsignal_def umod_def seterr_def uget_def kmod_def kget_def)

text \<open>The zeroed user and process structures (the kernel's data segment at boot).\<close>

definition user0 :: user where
  "user0 = \<lparr>u_segflg = 0, u_error = 0, u_uid = 0, u_gid = 0, u_ruid = 0, u_rgid = 0, u_procp = 0, u_arg = [0, 0, 0, 0, 0],
     r_val1 = 0, r_val2 = 0, u_base = 0, u_count = 0, u_offset = 0, u_cdir = 0, u_rdir = None, u_dbuf = replicate 14 0,
     u_dirp = 0, d_ino = 0, d_name = replicate 14 0, u_pdir = None, u_utab = (\<lambda>_. 0), u_ofile = (\<lambda>_. None), u_pofile = (\<lambda>_. 0),
     u_tsize = 0, u_dsize = 0, u_ssize = 0, u_signal = (\<lambda>_. 0), u_utime = 0, u_stime = 0, u_cutime = 0, u_cstime = 0,
     pr_base = 0, pr_size = 0, pr_off = 0, pr_scale = 0, u_sep = 0,
     u_ttyp = None, u_ttyd = 0, u_comm = replicate 14 0, u_start = 0, u_acflag = 0, u_cmask = 0\<rparr>"

definition proc0 :: proc where
  "proc0 = \<lparr>p_stat = SNULL, p_flag = {}, p_pri = 0, p_time = 0, p_cpu = 0, p_nice = 0, p_sig = {}, p_uid = 0, p_pgrp = 0,
     p_pid = 0, p_ppid = 0, p_addr = 0, p_size = 0, p_wchan = None, p_textp = None, p_link = None, p_clktim = 0,
     xp_xstat = 0, xp_utime = 0, xp_stime = 0\<rparr>"

end
