(* ===== verification/Prf.thy ===== *)
theory Prf
  imports Kstate
begin

text \<open>
  Console diagnostics (\<^verbatim>\<open>sys/prf.c\<close>): \<open>printn\<close>, the format interpreter \<open>printf\<close>, \<open>prdev\<close> and
  \<open>deverror\<close>. The characters handed to \<^verbatim>\<open>putchar\<close> are the result; a call of the kernel logs them as
  one event. The theorem shows that a printed number reads back in its base.
\<close>

section \<open>Numbers\<close>

definition hexdigits :: string where
  "hexdigits = ''0123456789ABCDEF''"

text \<open>
  The argument is unsigned, so the test \<^verbatim>\<open>n<0\<close> never succeeds. The guard on the base only
  makes the definition total; the callers pass 8, 10 and 16.
\<close>

function printn :: "nat \<Rightarrow> nat \<Rightarrow> string" where
  "printn n b = (if b < 2 then [] else (if n div b \<noteq> 0 then printn (n div b) b else []) @ [hexdigits ! (n mod b)])"
  by auto
termination
  by (relation "measure fst") (auto intro!: div_less_dividend simp: div_greater_zero_iff)

declare printn.simps [simp del]

section \<open>The format interpreter\<close>

text \<open>
  An argument word is a number or the address of a string. \<open>None\<close>: the interpreter has read past
  the end of the format or of the arguments, or has taken a number for an address.
\<close>

datatype parg = Pint int | Pstr string

fun printf_conv :: "char \<Rightarrow> parg list \<Rightarrow> string option" where
  "printf_conv c (Pint x # args) =
     (if c = CHR ''d'' then
        (let d = cint x in Some (if d < 0 then CHR ''-'' # printn (nat (cuint (cint (- d)))) 10 else printn (nat d) 10))
      else if c = CHR ''u'' \<or> c = CHR ''o'' \<or> c = CHR ''x'' then
        Some (printn (nat (cuint x)) (if c = CHR ''o'' then 8 else if c = CHR ''x'' then 16 else 10))
      else if c = CHR ''s'' then None
      else if c = CHR ''D'' then Some (printn (nat (cuint x)) 10)
      else Some [])"
| "printf_conv c (Pstr m # args) = (if c = CHR ''s'' then Some m else if c \<in> set ''duoxD'' then None else Some [])"
| "printf_conv c [] = (if c \<in> set ''duoxDs'' then None else Some [])"

fun printf :: "string \<Rightarrow> parg list \<Rightarrow> string option" where
  "printf [] args = Some []"
| "printf (c # fmt) args =
     (if c \<noteq> CHR ''%'' then map_option (Cons c) (printf fmt args)
      else case fmt of
        [] \<Rightarrow> None
      | d # rest \<Rightarrow>
          (case printf_conv d args of
             None \<Rightarrow> None
           | Some out \<Rightarrow> map_option (append out) (printf rest (tl args))))"

definition kprint :: "string \<Rightarrow> parg list \<Rightarrow> (unit, 'a kst_scheme) kmon" where
  "kprint fmt args = (case printf fmt args of Some m \<Rightarrow> kprintf m | None \<Rightarrow> kret ())"

definition prdev :: "string \<Rightarrow> int \<Rightarrow> (unit, 'a kst_scheme) kmon" where
  "prdev str dev = kprint (''%s on dev %u/%u'' @ [CHR 0x0A]) [Pstr str, Pint (major dev), Pint (minor dev)]"

definition deverror :: "int \<Rightarrow> int \<Rightarrow> int \<Rightarrow> int \<Rightarrow> (unit, 'a kst_scheme) kmon" where
  "deverror dev blkno o1 o2 =
     kthen (prdev ''err'' dev) (kprint (''bn=%D er=%o,%o'' @ [CHR 0x0A]) [Pint blkno, Pint o1, Pint o2])"

section \<open>Reading a number back\<close>

definition digit_val :: "char \<Rightarrow> nat" where
  "digit_val c = length (takeWhile (\<lambda>d. d \<noteq> c) hexdigits)"

definition num_val :: "nat \<Rightarrow> string \<Rightarrow> nat" where
  "num_val b cs = foldl (\<lambda>n c. n * b + digit_val c) 0 cs"

lemma distinct_hexdigits: "distinct hexdigits" "length hexdigits = 16"
  by (simp_all add: hexdigits_def)

lemma digit_val_nth: "i < 16 \<Longrightarrow> digit_val (hexdigits ! i) = i"
proof -
  have "length (takeWhile (\<lambda>d. d \<noteq> xs ! i) xs) = i" if "distinct xs" "i < length xs" for xs :: string and i
    using that by (induction xs arbitrary: i) (auto simp: nth_Cons split: nat.splits)
  then show "i < 16 \<Longrightarrow> digit_val (hexdigits ! i) = i" using distinct_hexdigits by (simp add: digit_val_def)
qed

lemma num_val_snoc: "num_val b (cs @ [c]) = num_val b cs * b + digit_val c"
  by (simp add: num_val_def)

lemma num_val_printn: "2 \<le> b \<Longrightarrow> b \<le> 16 \<Longrightarrow> num_val b (printn n b) = n"
proof (induction n b rule: printn.induct)
  case (1 n b)
  have m: "digit_val (hexdigits ! (n mod b)) = n mod b" using 1 mod_less_divisor [of b n] by (intro digit_val_nth) linarith
  show ?case
  proof (cases "n div b = 0")
    case True
    then show ?thesis using 1 m by (subst printn.simps) (simp add: num_val_def mod_if div_eq_0_iff)
  next
    case False
    then have "num_val b (printn (n div b) b) = n div b" using 1 by auto
    then show ?thesis using 1 m False by (subst printn.simps) (simp add: num_val_snoc)
  qed
qed

definition sval :: "string \<Rightarrow> int" where
  "sval v = (if v \<noteq> [] \<and> hd v = CHR ''-'' then - int (num_val 10 (tl v)) else int (num_val 10 v))"

lemma printn_digits: "2 \<le> b \<Longrightarrow> b \<le> 16 \<Longrightarrow> set (printn n b) \<subseteq> set hexdigits"
proof (induction n b rule: printn.induct)
  case (1 n b)
  have "n mod b < length hexdigits" using 1 distinct_hexdigits mod_less_divisor [of b n] by linarith
  then have "hexdigits ! (n mod b) \<in> set hexdigits" by simp
  then show ?case using 1 by (subst printn.simps) auto
qed

lemma sval_minus: "sval (CHR ''-'' # printn n 10) = - int n"
  by (simp add: sval_def num_val_printn)

lemma sval_plain: "sval (printn n 10) = int n"
proof -
  have "CHR ''-'' \<notin> set (printn n 10)" using printn_digits [of 10 n] by (auto simp: hexdigits_def)
  then have "\<not> (printn n 10 \<noteq> [] \<and> hd (printn n 10) = CHR ''-'')" by (metis hd_in_set)
  then have "sval (printn n 10) = int (num_val 10 (printn n 10))" unfolding sval_def by (rule if_not_P)
  then show ?thesis by (simp add: num_val_printn)
qed

text \<open>
  What \<^verbatim>\<open>printf\<close> prints for a number reads back as that number: \<open>%u\<close>, \<open>%D\<close>, \<open>%o\<close> and \<open>%x\<close> print the
  unsigned value of any 32-bit word in base 10, 10, 8 and 16, and \<open>%d\<close> the sign and the magnitude of the
  signed value, the most negative one included.
\<close>

theorem printf_number:
  "map_option (num_val 10) (printf ''%u'' [Pint x]) = Some (nat (cuint x)) \<and>
   map_option (num_val 10) (printf ''%D'' [Pint x]) = Some (nat (cuint x)) \<and>
   map_option (num_val 8) (printf ''%o'' [Pint x]) = Some (nat (cuint x)) \<and>
   map_option (num_val 16) (printf ''%x'' [Pint x]) = Some (nat (cuint x)) \<and>
   map_option sval (printf ''%d'' [Pint x]) = Some (cint x)"
proof -
  have "nat (cuint (cint (- cint x))) = nat (- cint x)" if "cint x < 0"
  proof (cases "cint x = - 2147483648")
    case False
    then have "cint (- cint x) = - cint x" using that cint_range [of x] by (intro cint_id) auto
    then show ?thesis using that cint_range [of x] by simp
  qed (simp add: cint_def cuint_def)
  then have "map_option sval (printf ''%d'' [Pint x]) = Some (cint x)"
    by (simp add: Let_def sval_minus sval_plain)
  then show ?thesis by (simp add: num_val_printn)
qed

text \<open>
  A diagnostic about a device names the major and the minor number of the device: the line that
  \<^verbatim>\<open>prdev\<close> sends to the console is the message, ``on dev'', and two decimal numbers that read back as
  \<^verbatim>\<open>major(dev)\<close> and \<^verbatim>\<open>minor(dev)\<close>; no other part of the kernel state changes.
\<close>

theorem prdev_line:
  "\<exists>a b. prdev m dev s = Ok () (s\<lparr>klog := klog s @ [Ev_printf (m @ '' on dev '' @ a @ ''/'' @ b @ [CHR 0x0A])]\<rparr>) \<and>
     int (num_val 10 a) = major dev \<and> int (num_val 10 b) = minor dev"
proof -
  have "0 \<le> major dev" "major dev < 4294967296" "0 \<le> minor dev" "minor dev < 4294967296"
    by (auto simp: major_def minor_def cuint_def intro: less_le_trans)
  then have "prdev m dev s = Ok () (s\<lparr>klog := klog s @ [Ev_printf (m @ '' on dev '' @ printn (nat (major dev)) 10 @ ''/'' @
      printn (nat (minor dev)) 10 @ [CHR 0x0A])]\<rparr>)" "0 \<le> major dev" "0 \<le> minor dev"
    by (simp_all add: prdev_def kprint_def kprintf_def kmod_def)
  then show ?thesis by (intro exI [of _ "printn _ 10"]) (auto simp: num_val_printn)
qed

end
