(* ===== verification/Dll.thy ===== *)
theory Dll
  imports Prelude
begin

text \<open>
  Circular doubly linked lists with a header node, as the buffer code of \<^verbatim>\<open>dev/bio.c\<close> keeps
  them: successor and predecessor maps, the header \<open>h\<close> and the list of the other nodes
  in order. The lemmas give the effect of the pointer assignments for unlinking a
  node and for linking it in after or before the header.
\<close>

fun dseg :: "('p \<Rightarrow> 'p) \<Rightarrow> ('p \<Rightarrow> 'p) \<Rightarrow> 'p \<Rightarrow> 'p list \<Rightarrow> 'p \<Rightarrow> bool" where
  "dseg nx pv a [] z \<longleftrightarrow> nx a = z \<and> pv z = a"
| "dseg nx pv a (x # xs) z \<longleftrightarrow> nx a = x \<and> pv x = a \<and> dseg nx pv x xs z"

definition dll :: "('p \<Rightarrow> 'p) \<Rightarrow> ('p \<Rightarrow> 'p) \<Rightarrow> 'p \<Rightarrow> 'p list \<Rightarrow> bool" where
  "dll nx pv h xs \<longleftrightarrow> distinct (h # xs) \<and> dseg nx pv h xs h"

lemma dseg_append [simp]:
  "dseg nx pv a (xs @ y # ys) z \<longleftrightarrow> dseg nx pv a xs y \<and> dseg nx pv y ys z"
  by (induction xs arbitrary: a) auto

lemma dseg_frame:
  "(\<forall>p\<in>set (a # xs). nx' p = nx p) \<Longrightarrow> (\<forall>p\<in>set (xs @ [z]). pv' p = pv p) \<Longrightarrow>
     dseg nx' pv' a xs z = dseg nx pv a xs z"
  by (induction xs arbitrary: a) auto

lemma dseg_upd_nx [simp]: "p \<notin> set (a # xs) \<Longrightarrow> dseg (nx(p := v)) pv a xs z = dseg nx pv a xs z"
  by (rule dseg_frame) auto

lemma dseg_upd_pv [simp]: "p \<notin> set (z # xs) \<Longrightarrow> dseg nx (pv(p := v)) a xs z = dseg nx pv a xs z"
  by (rule dseg_frame) auto

lemma dseg_relink:
  "dseg nx pv a xs b \<Longrightarrow> distinct (a # xs) \<Longrightarrow> z \<notin> set xs \<Longrightarrow>
     dseg (nx(last (a # xs) := z)) (pv(z := last (a # xs))) a xs z"
proof (induction xs arbitrary: a)
  case (Cons x xs)
  then show ?case by (cases xs) (auto simp: fun_upd_apply)
qed simp

lemma dseg_ends: "dseg nx pv a xs z \<Longrightarrow> pv z = last (a # xs) \<and> nx a = hd (xs @ [z])"
  by (induction xs arbitrary: a) auto

lemma dll_frame:
  "(\<forall>p\<in>set (h # xs). nx' p = nx p \<and> pv' p = pv p) \<Longrightarrow> dll nx' pv' h xs = dll nx pv h xs"
  unfolding dll_def by (intro conj_cong refl dseg_frame) auto

lemma dll_ends: "dll nx pv h xs \<Longrightarrow> nx h = hd (xs @ [h]) \<and> pv h = last (h # xs)"
  using dseg_ends [of nx pv h xs h] by (simp add: dll_def)

lemma dll_head_mem: "dll nx pv h xs \<Longrightarrow> nx h \<in> set (h # xs) \<and> pv h \<in> set (h # xs)"
  using dll_ends [of nx pv h xs] hd_in_set [of "xs @ [h]"] last_in_set [of "h # xs"] by auto

lemma dll_unlink:
  assumes "dll nx pv h (xs @ b # ys)"
  shows "dll (nx(pv b := nx b)) (pv(nx b := pv b)) h (xs @ ys)"
proof -
  from assms have d: "distinct (h # xs @ b # ys)" and 1: "dseg nx pv h xs b" and 2: "dseg nx pv b ys h"
    by (auto simp: dll_def)
  from dseg_ends [OF 1] dseg_ends [OF 2] have e: "pv b = last (h # xs)" "nx b = hd (ys @ [h])" by auto
  have l: "last (h # xs) \<in> set (h # xs)" by (rule last_in_set) simp
  moreover have "set (h # xs) \<inter> set (b # ys) = {}" using d by auto
  ultimately have ly: "last (h # xs) \<notin> set (b # ys)" by blast
  show ?thesis
  proof (cases ys)
    case Nil
    then show ?thesis using dseg_relink [OF 1, of h] d e by (simp add: dll_def)
  next
    case (Cons y zs)
    have y: "dseg (nx(pv b := y)) (pv(y := pv b)) h xs y"
      using dseg_relink [OF 1, of y] d Cons e by simp
    have "dseg nx pv y zs h" using 2 Cons by simp
    then have "dseg (nx(pv b := y)) (pv(y := pv b)) y zs h" using ly d e Cons
      by (subst dseg_frame [where nx = nx and pv = pv]) auto
    with y d e Cons show ?thesis by (simp add: dll_def)
  qed
qed

lemma dll_push_front:
  assumes "dll nx pv h xs" "b \<notin> set (h # xs)"
  shows "dll (nx(b := nx h, h := b)) (pv(b := h, nx h := b)) h (b # xs)"
proof (cases xs)
  case Nil
  with assms show ?thesis by (auto simp: dll_def)
next
  case (Cons y ys)
  with assms show ?thesis by (auto simp: dll_def)
qed

lemma dll_push_back:
  assumes "dll nx pv h xs" "b \<notin> set (h # xs)"
  shows "dll (nx(pv h := b, b := h)) (pv(b := pv h, h := b)) h (xs @ [b])"
proof -
  from assms have d: "distinct (h # xs)" and s: "dseg nx pv h xs h" by (auto simp: dll_def)
  have e: "pv h = last (h # xs)" using dll_ends [OF assms(1)] by simp
  have l: "last (h # xs) \<in> set (h # xs)" by (rule last_in_set) simp
  have "dseg (nx(pv h := b)) (pv(b := pv h)) h xs b"
    unfolding e by (rule dseg_relink [OF s d]) (use assms in auto)
  then have "dseg (nx(pv h := b, b := h)) (pv(b := pv h, h := b)) h xs b"
    using assms d by auto
  moreover have "pv h \<noteq> b" using e l assms by auto
  ultimately show ?thesis using d assms by (auto simp: dll_def)
qed

section \<open>Families of lists\<close>

text \<open>Lists with the headers \<open>H\<close> that share the successor and predecessor maps.\<close>

definition dlls :: "('p \<Rightarrow> 'p) \<Rightarrow> ('p \<Rightarrow> 'p) \<Rightarrow> 'p set \<Rightarrow> ('p \<Rightarrow> 'p list) \<Rightarrow> bool" where
  "dlls nx pv H dl \<longleftrightarrow> (\<forall>h\<in>H. dll nx pv h (dl h) \<and> set (dl h) \<inter> H = {}) \<and>
     (\<forall>h\<in>H. \<forall>g\<in>H. h \<noteq> g \<longrightarrow> set (dl h) \<inter> set (dl g) = {})"

lemma dll_neighbours:
  assumes "dll nx pv h (xs @ b # ys)"
  shows "pv b \<in> set (h # xs)" "nx b \<in> set (h # ys)" "pv b \<noteq> b" "nx b \<noteq> b"
proof -
  from assms have s: "dseg nx pv h xs b" "dseg nx pv b ys h" and d: "distinct (h # xs @ b # ys)"
    by (auto simp: dll_def)
  show p: "pv b \<in> set (h # xs)" using dseg_ends [OF s(1)] last_in_set [of "h # xs"] by auto
  show n: "nx b \<in> set (h # ys)" using dseg_ends [OF s(2)] hd_in_set [of "ys @ [h]"] by auto
  show "pv b \<noteq> b" "nx b \<noteq> b" using p n d by auto
qed

lemma dlls_other:
  assumes "dlls nx pv H dl" "h \<in> H" "g \<in> H" "g \<noteq> h" "A \<subseteq> set (h # dl h)"
    "\<forall>p. p \<notin> A \<longrightarrow> nx' p = nx p \<and> pv' p = pv p"
  shows "dll nx' pv' g (dl g)"
proof -
  have "set (g # dl g) \<inter> set (h # dl h) = {}" using assms(1-4) by (auto simp: dlls_def)
  then have "\<forall>p\<in>set (g # dl g). nx' p = nx p \<and> pv' p = pv p" using assms(5,6) by blast
  with assms(1,3) show ?thesis using dll_frame [of g "dl g" nx' nx pv' pv] by (simp add: dlls_def)
qed

lemma dlls_unlink:
  assumes D: "dlls nx pv H dl" and h: "h \<in> H" "dl h = xs @ b # ys"
  shows "dlls (nx(pv b := nx b)) (pv(nx b := pv b)) H (dl(h := xs @ ys))"
proof -
  have d: "dll nx pv h (xs @ b # ys)" using D h by (auto simp: dlls_def)
  note nb = dll_neighbours [OF d]
  have "dll (nx(pv b := nx b)) (pv(nx b := pv b)) g (dl g)" if "g \<in> H" "g \<noteq> h" for g
    by (rule dlls_other [OF D h(1) that, of "{pv b, nx b}"]) (use nb h in auto)
  then have "\<forall>g\<in>H. dll (nx(pv b := nx b)) (pv(nx b := pv b)) g ((dl(h := xs @ ys)) g)"
    using dll_unlink [OF d] by simp
  moreover have "set ((dl(h := xs @ ys)) g) \<subseteq> set (dl g)" for g using h by auto
  ultimately show ?thesis using D unfolding dlls_def by (meson disjoint_iff subset_iff)
qed

lemma dlls_push:
  assumes D: "dlls nx pv H dl" and h: "h \<in> H" and b: "b \<notin> H" "\<forall>g\<in>H. b \<notin> set (dl g)"
  shows "dlls (nx(b := nx h, h := b)) (pv(b := h, nx h := b)) H (dl(h := b # dl h))"
proof -
  have d: "dll nx pv h (dl h)" and bn: "b \<notin> set (h # dl h)" using D h b by (auto simp: dlls_def)
  have n: "nx h \<in> set (h # dl h)" using dll_ends [OF d] hd_in_set [of "dl h @ [h]"] by auto
  have "dll (nx(b := nx h, h := b)) (pv(b := h, nx h := b)) g (dl g)" if g: "g \<in> H" "g \<noteq> h" for g
  proof -
    have "set (g # dl g) \<inter> set (b # h # dl h) = {}" using D h b g by (auto simp: dlls_def)
    then have "\<forall>p\<in>set (g # dl g). p \<noteq> b \<and> p \<noteq> h \<and> p \<noteq> nx h" using n by auto
    then show ?thesis using D g dll_frame [of g "dl g" "nx(b := nx h, h := b)" nx "pv(b := h, nx h := b)" pv]
      by (simp add: dlls_def)
  qed
  then show ?thesis using dll_push_front [OF d bn] D h b unfolding dlls_def by auto
qed

lemma dlls_member_unique:
  "dlls nx pv H dl \<Longrightarrow> h \<in> H \<Longrightarrow> g \<in> H \<Longrightarrow> b \<in> set (dl h) \<Longrightarrow> b \<in> set (dl g) \<Longrightarrow> h = g"
  unfolding dlls_def by blast

section \<open>Scanning\<close>

text \<open>
  The loop \<^verbatim>\<open>for (bp = h->nx; bp != h; bp = bp->nx) if (P(bp)) ...\<close> with fuel: the outer
  \<open>None\<close> means that the fuel ran out.
\<close>

fun dscan :: "nat \<Rightarrow> ('p \<Rightarrow> 'p) \<Rightarrow> 'p \<Rightarrow> ('p \<Rightarrow> bool) \<Rightarrow> 'p \<Rightarrow> 'p option option" where
  "dscan 0 nx h P p = None"
| "dscan (Suc n) nx h P p =
     (if p = h then Some None else if P p then Some (Some p) else dscan n nx h P (nx p))"

lemma dscan_find:
  "dseg nx pv a xs h \<Longrightarrow> h \<notin> set xs \<Longrightarrow> length xs < n \<Longrightarrow> dscan n nx h P (nx a) = Some (find P xs)"
proof (induction xs arbitrary: a n)
  case (Cons x xs)
  then obtain n' where "n = Suc n'" by (cases n) auto
  with Cons show ?case by auto
qed (auto simp: gr0_conv_Suc)

lemma dll_scan: "dll nx pv h xs \<Longrightarrow> length xs < n \<Longrightarrow> dscan n nx h P (nx h) = Some (find P xs)"
  by (auto simp: dll_def intro: dscan_find)

text \<open>Counting the nodes from \<open>p\<close> up to the header.\<close>

fun dcount :: "nat \<Rightarrow> ('p \<Rightarrow> 'p) \<Rightarrow> 'p \<Rightarrow> 'p \<Rightarrow> nat option" where
  "dcount 0 nx h p = None"
| "dcount (Suc n) nx h p = (if p = h then Some 0 else map_option Suc (dcount n nx h (nx p)))"

lemma dcount_length:
  "dseg nx pv a xs h \<Longrightarrow> h \<notin> set xs \<Longrightarrow> length xs < n \<Longrightarrow> dcount n nx h (nx a) = Some (length xs)"
proof (induction xs arbitrary: a n)
  case (Cons x xs)
  then obtain n' where "n = Suc n'" by (cases n) auto
  with Cons show ?case by auto
qed (auto simp: gr0_conv_Suc)

lemma dll_count:
  "dll nx pv h (xs @ b # ys) \<Longrightarrow> length ys < n \<Longrightarrow> dcount n nx h (nx b) = Some (length ys)"
  by (rule dcount_length [where pv = pv]) (auto simp: dll_def)

end
