(* ===== verification/Bio.thy ===== *)
theory Bio
  imports Kstate Dll
begin

text \<open>
  The buffer cache (\<^verbatim>\<open>dev/bio.c\<close>, \<^verbatim>\<open>binit\<close> of \<^verbatim>\<open>sys/main.c\<close>) over the memory-disk driver
  (\<^verbatim>\<open>dev/md.c\<close>). Buffer headers live in a store indexed by \<open>bptr\<close>; the available list and the
  device lists are the circular lists of the code, linked by \<open>av_forw\<close>/\<open>av_back\<close> and
  \<open>b_forw\<close>/\<open>b_back\<close>. Flag words are sets of flags. The driver keeps one memory per device
  number. Fuel bounds the walks over the lists by the number of buffers; the lemmas
  show that it is never used up.
\<close>

section \<open>State\<close>

definition NBUF :: nat where "NBUF = 251"

datatype bflag = B_READ | B_DONE | B_ERROR | B_BUSY | B_PHYS | B_WANTED | B_AGE | B_ASYNC
  | B_DELWRI | B_TAPE | B_PBUSY | B_PACK

text \<open>What \<^verbatim>\<open>b_un.b_addr\<close> points to: the memory of buffer \<open>i\<close>, or physical memory.\<close>

datatype baddr = Abuf nat | Aphys int

record buf =
  b_flags :: "bflag set"
  b_forw :: bptr
  b_back :: bptr
  av_forw :: bptr
  av_back :: bptr
  b_dev :: int
  b_bcount :: int
  b_addr :: baddr
  b_blkno :: int
  b_error :: int
  b_resid :: int

record bst = kst +
  bufs :: "bptr \<Rightarrow> buf"
  buffers :: "nat \<Rightarrow> int list"
  d_tab :: "bptr list"
  nblkdev :: int
  mdmem :: "int \<Rightarrow> int \<Rightarrow> int"
  mdsz :: "int \<Rightarrow> int"
  nread :: int
  nreada :: int
  ncache :: int
  nwrite :: int
  bufcount :: "nat \<Rightarrow> int"
  swapdev :: int
  swplo :: int
  pdir :: "int \<Rightarrow> (int \<Rightarrow> int) option"

definition bmod :: "bptr \<Rightarrow> (buf \<Rightarrow> buf) \<Rightarrow> 'a bst_scheme \<Rightarrow> 'a bst_scheme" where
  "bmod p f s = s\<lparr>bufs := (bufs s)(p := f (bufs s p))\<rparr>"

definition bflag_set :: "bptr \<Rightarrow> bflag set \<Rightarrow> 'a bst_scheme \<Rightarrow> 'a bst_scheme" where
  "bflag_set p fs = bmod p (\<lambda>b. b\<lparr>b_flags := b_flags b \<union> fs\<rparr>)"

definition bflag_clr :: "bptr \<Rightarrow> bflag set \<Rightarrow> 'a bst_scheme \<Rightarrow> 'a bst_scheme" where
  "bflag_clr p fs = bmod p (\<lambda>b. b\<lparr>b_flags := b_flags b - fs\<rparr>)"

definition log_wakeup :: "chan \<Rightarrow> 'a bst_scheme \<Rightarrow> 'a bst_scheme" where
  "log_wakeup c s = s\<lparr>klog := klog s @ [Ev_wakeup c]\<rparr>"

text \<open>The entry of \<^verbatim>\<open>bdevsw\<close> of a device; out of the table the code has already panicked.\<close>

definition dtab :: "int \<Rightarrow> 'a bst_scheme \<Rightarrow> bptr" where
  "dtab dev s = (if nat (major dev) < length (d_tab s) then d_tab s ! nat (major dev) else NULLB)"

section \<open>Lists of buffers\<close>

definition notavail :: "bptr \<Rightarrow> 'a bst_scheme \<Rightarrow> 'a bst_scheme" where
  "notavail bp s =
     (let s = bmod (av_back (bufs s bp)) (\<lambda>b. b\<lparr>av_forw := av_forw (bufs s bp)\<rparr>) s;
          s = bmod (av_forw (bufs s bp)) (\<lambda>b. b\<lparr>av_back := av_back (bufs s bp)\<rparr>) s
      in bflag_set bp {B_BUSY} s)"

definition brelse :: "bptr \<Rightarrow> 'a bst_scheme \<Rightarrow> 'a bst_scheme" where
  "brelse bp s =
     (let s = (if B_WANTED \<in> b_flags (bufs s bp) then log_wakeup (Ch_buf bp) s else s);
          s = (if B_WANTED \<in> b_flags (bufs s Bfreelist)
               then log_wakeup (Ch_buf Bfreelist) (bflag_clr Bfreelist {B_WANTED} s) else s);
          s = (if B_ERROR \<in> b_flags (bufs s bp) then bmod bp (\<lambda>b. b\<lparr>b_dev := NODEV\<rparr>) s else s);
          s = (if B_AGE \<in> b_flags (bufs s bp) then
                 (let backp = av_forw (bufs s Bfreelist);
                      s = bmod backp (\<lambda>b. b\<lparr>av_back := bp\<rparr>) s;
                      s = bmod bp (\<lambda>b. b\<lparr>av_forw := backp\<rparr>) s;
                      s = bmod Bfreelist (\<lambda>b. b\<lparr>av_forw := bp\<rparr>) s
                  in bmod bp (\<lambda>b. b\<lparr>av_back := Bfreelist\<rparr>) s)
               else
                 (let backp = av_back (bufs s Bfreelist);
                      s = bmod backp (\<lambda>b. b\<lparr>av_forw := bp\<rparr>) s;
                      s = bmod bp (\<lambda>b. b\<lparr>av_back := backp\<rparr>) s;
                      s = bmod Bfreelist (\<lambda>b. b\<lparr>av_back := bp\<rparr>) s
                  in bmod bp (\<lambda>b. b\<lparr>av_forw := Bfreelist\<rparr>) s))
      in bflag_clr bp {B_WANTED, B_BUSY, B_ASYNC, B_AGE} s)"

text \<open>
  The six assignments of \<^verbatim>\<open>getblk\<close> and \<^verbatim>\<open>geteblk\<close> that move a buffer from its list to the
  front of the list headed by \<open>dp\<close>.
\<close>

definition relink :: "bptr \<Rightarrow> bptr \<Rightarrow> 'a bst_scheme \<Rightarrow> 'a bst_scheme" where
  "relink bp dp s =
     (let s = bmod (b_back (bufs s bp)) (\<lambda>b. b\<lparr>b_forw := b_forw (bufs s bp)\<rparr>) s;
          s = bmod (b_forw (bufs s bp)) (\<lambda>b. b\<lparr>b_back := b_back (bufs s bp)\<rparr>) s;
          s = bmod bp (\<lambda>b. b\<lparr>b_forw := b_forw (bufs s dp)\<rparr>) s;
          s = bmod bp (\<lambda>b. b\<lparr>b_back := dp\<rparr>) s;
          s = bmod (b_forw (bufs s dp)) (\<lambda>b. b\<lparr>b_back := bp\<rparr>) s
      in bmod dp (\<lambda>b. b\<lparr>b_forw := bp\<rparr>) s)"

section \<open>The driver\<close>

definition load :: "baddr \<Rightarrow> nat \<Rightarrow> 'a bst_scheme \<Rightarrow> int list" where
  "load a n s = (case a of
     Abuf i \<Rightarrow> take n (buffers s i)
   | Aphys p \<Rightarrow> map (\<lambda>k. core s (p + int k)) [0 ..< n])"

definition store :: "baddr \<Rightarrow> int list \<Rightarrow> 'a bst_scheme \<Rightarrow> 'a bst_scheme" where
  "store a bs s = (case a of
     Abuf i \<Rightarrow> s\<lparr>buffers := (buffers s)(i := bs @ drop (length bs) (buffers s i))\<rparr>
   | Aphys p \<Rightarrow> s\<lparr>core := (\<lambda>x. if p \<le> x \<and> x < p + int (length bs) then bs ! nat (x - p) else core s x)\<rparr>)"

definition iodone :: "bptr \<Rightarrow> 'a bst_scheme \<Rightarrow> 'a bst_scheme" where
  "iodone bp s =
     (let s = bflag_set bp {B_DONE} s
      in if B_ASYNC \<in> b_flags (bufs s bp) then brelse bp s
         else log_wakeup (Ch_buf bp) (bflag_clr bp {B_WANTED} s))"

text \<open>
  The bounds check adds a signed block number and an unsigned size, so it is computed in
  32-bit unsigned arithmetic; the offset into \<^verbatim>\<open>mdmem\<close> wraps likewise.
\<close>

definition md_range :: "'a bst_scheme \<Rightarrow> int \<Rightarrow> int \<Rightarrow> int \<Rightarrow> int list" where
  "md_range s dev x n = map (\<lambda>k. mdmem s dev (x + int k)) [0 ..< nat n]"

definition md_write :: "int \<Rightarrow> int \<Rightarrow> int list \<Rightarrow> 'a bst_scheme \<Rightarrow> 'a bst_scheme" where
  "md_write dev x bs s = s\<lparr>mdmem := (mdmem s)(dev :=
     (\<lambda>y. if x \<le> y \<and> y < x + int (length bs) then bs ! nat (y - x) else mdmem s dev y))\<rparr>"

definition mdstrategy :: "bptr \<Rightarrow> 'a bst_scheme \<Rightarrow> 'a bst_scheme" where
  "mdstrategy bp s =
     (let b = bufs s bp; sz = cuint (b_bcount b + 511) div 512
      in if cuint (b_blkno b + sz) > cuint (mdsz s (b_dev b)) then iodone bp (bflag_set bp {B_ERROR} s)
         else
           (let s = bmod bp (\<lambda>b. b\<lparr>av_forw := NULLB\<rparr>) s;
                x = cint (b_blkno b * 512);
                s = (if B_READ \<in> b_flags b
                     then store (b_addr b) (md_range s (b_dev b) x (b_bcount b)) s
                     else md_write (b_dev b) x (load (b_addr b) (nat (b_bcount b)) s) s);
                s = bmod bp (\<lambda>b. b\<lparr>b_resid := 0\<rparr>) s
            in iodone bp s))"

section \<open>Waiting and errors\<close>

definition geterror :: "bptr \<Rightarrow> 'a bst_scheme \<Rightarrow> 'a bst_scheme" where
  "geterror bp s =
     (if B_ERROR \<in> b_flags (bufs s bp) then
        s\<lparr>u := (u s)\<lparr>u_error := (if b_error (bufs s bp) = 0 then EIO else b_error (bufs s bp))\<rparr>\<rparr>
      else s)"

definition iowait :: "bptr \<Rightarrow> (unit, 'a bst_scheme) kmon" where
  "iowait bp s =
     (if B_DONE \<notin> b_flags (bufs s bp) then ksleep (Ch_buf bp) PRIBIO s
      else Ok () (geterror bp s))"

section \<open>Writing and releasing\<close>

definition bwrite :: "bptr \<Rightarrow> (unit, 'a bst_scheme) kmon" where
  "bwrite bp s =
     (let flag = b_flags (bufs s bp);
          s = bflag_clr bp {B_READ, B_DONE, B_ERROR, B_DELWRI, B_AGE} s;
          s = bmod bp (\<lambda>b. b\<lparr>b_bcount := BSIZE\<rparr>) s;
          s = s\<lparr>nwrite := nwrite s + 1\<rparr>;
          s = mdstrategy bp s
      in if B_ASYNC \<notin> flag then kthen (iowait bp) (kmod (brelse bp)) s
         else if B_DELWRI \<in> flag then Ok () (bflag_set bp {B_AGE} s)
         else Ok () (geterror bp s))"

definition bawrite :: "bptr \<Rightarrow> (unit, 'a bst_scheme) kmon" where
  "bawrite bp s = bwrite bp (bflag_set bp {B_ASYNC} s)"

definition bdwrite :: "bptr \<Rightarrow> (unit, 'a bst_scheme) kmon" where
  "bdwrite bp s =
     (let dp = dtab (b_dev (bufs s bp)) s
      in if B_TAPE \<in> b_flags (bufs s dp) then bawrite bp s
         else Ok () (brelse bp (bflag_set bp {B_DELWRI, B_DONE} s)))"

section \<open>Getting a buffer\<close>

definition same_block :: "int \<Rightarrow> int \<Rightarrow> buf \<Rightarrow> bool" where
  "same_block dev blkno b \<longleftrightarrow> b_blkno b = blkno \<and> b_dev b = dev"

definition incore :: "int \<Rightarrow> int \<Rightarrow> (bool, 'a bst_scheme) kmon" where
  "incore dev blkno s =
     (let dp = dtab dev s
      in case dscan (NBUF + 1) (\<lambda>p. b_forw (bufs s p)) dp (\<lambda>p. same_block dev blkno (bufs s p)) (b_forw (bufs s dp)) of
           None \<Rightarrow> Spun
         | Some r \<Rightarrow> Ok (r \<noteq> None) s)"

definition count_hit :: "bptr \<Rightarrow> 'a bst_scheme \<Rightarrow> 'a bst_scheme option" where
  "count_hit bp s =
     (case dcount (NBUF + 1) (\<lambda>p. av_forw (bufs s p)) Bfreelist (av_forw (bufs s bp)) of
        None \<Rightarrow> None
      | Some i \<Rightarrow> Some (if i < NBUF then s\<lparr>bufcount := (bufcount s)(i := bufcount s i + 1)\<rparr> else s))"

fun getblk_loop :: "nat \<Rightarrow> int \<Rightarrow> int \<Rightarrow> (bptr, 'a bst_scheme) kmon" where
  "getblk_loop 0 dev blkno s = Spun"
| "getblk_loop (Suc n) dev blkno s =
     (let dp = dtab dev s
      in if dp = NULLB then kpanic ''devtab'' s
         else case dscan (NBUF + 1) (\<lambda>p. b_forw (bufs s p)) dp (\<lambda>p. same_block dev blkno (bufs s p)) (b_forw (bufs s dp)) of
           None \<Rightarrow> Spun
         | Some (Some bp) \<Rightarrow>
             (if B_BUSY \<in> b_flags (bufs s bp) then ksleep (Ch_buf bp) (PRIBIO + 1) (bflag_set bp {B_WANTED} s)
              else case count_hit bp s of None \<Rightarrow> Spun | Some s \<Rightarrow> Ok bp (notavail bp s))
         | Some None \<Rightarrow>
             (if av_forw (bufs s Bfreelist) = Bfreelist
              then ksleep (Ch_buf Bfreelist) (PRIBIO + 1) (bflag_set Bfreelist {B_WANTED} s)
              else
                (let bp = av_forw (bufs s Bfreelist); s = notavail bp s
                 in if B_DELWRI \<in> b_flags (bufs s bp)
                    then kthen (bwrite bp) (getblk_loop n dev blkno) (bflag_set bp {B_ASYNC} s)
                    else
                      (let s = bmod bp (\<lambda>b. b\<lparr>b_flags := {B_BUSY}\<rparr>) s;
                           s = relink bp dp s
                       in Ok bp (bmod bp (\<lambda>b. b\<lparr>b_dev := dev, b_blkno := blkno\<rparr>) s)))))"

definition getblk :: "int \<Rightarrow> int \<Rightarrow> (bptr, 'a bst_scheme) kmon" where
  "getblk dev blkno s =
     (if major dev \<ge> nblkdev s then kpanic ''blkdev'' s else getblk_loop (NBUF + 1) dev blkno s)"

fun geteblk_loop :: "nat \<Rightarrow> (bptr, 'a bst_scheme) kmon" where
  "geteblk_loop 0 s = Spun"
| "geteblk_loop (Suc n) s =
     (if av_forw (bufs s Bfreelist) = Bfreelist
      then ksleep (Ch_buf Bfreelist) (PRIBIO + 1) (bflag_set Bfreelist {B_WANTED} s)
      else
        (let bp = av_forw (bufs s Bfreelist); s = notavail bp s
         in if B_DELWRI \<in> b_flags (bufs s bp)
            then kthen (bwrite bp) (geteblk_loop n) (bflag_set bp {B_ASYNC} s)
            else
              (let s = bmod bp (\<lambda>b. b\<lparr>b_flags := {B_BUSY}\<rparr>) s;
                   s = relink bp Bfreelist s
               in Ok bp (bmod bp (\<lambda>b. b\<lparr>b_dev := NODEV\<rparr>) s))))"

definition geteblk :: "(bptr, 'a bst_scheme) kmon" where
  "geteblk = geteblk_loop (NBUF + 1)"

section \<open>Reading\<close>

definition start_read :: "bflag set \<Rightarrow> bptr \<Rightarrow> 'a bst_scheme \<Rightarrow> 'a bst_scheme" where
  "start_read fs bp s =
     mdstrategy bp (bmod bp (\<lambda>b. b\<lparr>b_bcount := BSIZE\<rparr>) (bflag_set bp fs s))"

definition bread :: "int \<Rightarrow> int \<Rightarrow> (bptr, 'a bst_scheme) kmon" where
  "bread dev blkno =
     kbind (getblk dev blkno) (\<lambda>bp s.
       if B_DONE \<in> b_flags (bufs s bp) then Ok bp (s\<lparr>ncache := ncache s + 1\<rparr>)
       else
         (let s = start_read {B_READ} bp s; s = s\<lparr>nread := nread s + 1\<rparr>
          in kthen (iowait bp) (kret bp) s))"

definition breada :: "int \<Rightarrow> int \<Rightarrow> int \<Rightarrow> (bptr, 'a bst_scheme) kmon" where
  "breada dev blkno rablkno =
     kbind (incore dev blkno) (\<lambda>hit.
     kbind (if hit then kret None
            else kbind (getblk dev blkno) (\<lambda>bp s.
              Ok (Some bp)
                (if B_DONE \<in> b_flags (bufs s bp) then s
                 else (let s = start_read {B_READ} bp s in s\<lparr>nread := nread s + 1\<rparr>)))) (\<lambda>obp.
     kthen (if rablkno = 0 then kret ()
            else kbind (incore dev rablkno) (\<lambda>rahit.
              if rahit then kret ()
              else kbind (getblk dev rablkno) (\<lambda>rabp s.
                Ok () (if B_DONE \<in> b_flags (bufs s rabp) then brelse rabp s
                       else (let s = start_read {B_READ, B_ASYNC} rabp s in s\<lparr>nreada := nreada s + 1\<rparr>)))))
     (case obp of
        None \<Rightarrow> bread dev blkno
      | Some bp \<Rightarrow> kthen (iowait bp) (kret bp))))"

definition clrbuf :: "bptr \<Rightarrow> 'a bst_scheme \<Rightarrow> 'a bst_scheme" where
  "clrbuf bp s = bmod bp (\<lambda>b. b\<lparr>b_resid := 0\<rparr>) (store (b_addr (bufs s bp)) (replicate (nat BSIZE) 0) s)"

section \<open>Flushing, swapping and raw transfers\<close>

fun bflush_loop :: "nat \<Rightarrow> int \<Rightarrow> (unit, 'a bst_scheme) kmon" where
  "bflush_loop 0 dev s = Spun"
| "bflush_loop (Suc n) dev s =
     (case dscan (NBUF + 1) (\<lambda>p. av_forw (bufs s p)) Bfreelist
             (\<lambda>p. B_DELWRI \<in> b_flags (bufs s p) \<and> (dev = NODEV \<or> dev = b_dev (bufs s p)))
             (av_forw (bufs s Bfreelist)) of
        None \<Rightarrow> Spun
      | Some None \<Rightarrow> Ok () s
      | Some (Some bp) \<Rightarrow>
          kthen (bwrite bp) (bflush_loop n dev) (notavail bp (bflag_set bp {B_ASYNC} s)))"

definition bflush :: "int \<Rightarrow> (unit, 'a bst_scheme) kmon" where
  "bflush = bflush_loop (NBUF + 1)"

definition ctob :: "int \<Rightarrow> int" where "ctob x = cint (x * 4096)"
definition ctod :: "int \<Rightarrow> int" where "ctod x = cint (x * 8)"

fun swap_loop :: "nat \<Rightarrow> bptr \<Rightarrow> int \<Rightarrow> int \<Rightarrow> int \<Rightarrow> bflag set \<Rightarrow> (unit, 'a bst_scheme) kmon" where
  "swap_loop n bp blkno coreaddr cnt rdflg s =
     (if cnt = 0 then Ok () s
      else case n of 0 \<Rightarrow> Spun
      | Suc n \<Rightarrow>
         (let tcount = (if cnt \<ge> 31 then 31 else cnt);
              s = bmod bp (\<lambda>b. b\<lparr>b_flags := {B_BUSY, B_PHYS} \<union> rdflg, b_dev := swapdev s,
                    b_bcount := cuint (ctob tcount), b_blkno := cint (swplo s + blkno),
                    b_addr := Aphys (ctob coreaddr)\<rparr>) s;
              s = mdstrategy bp s
          in if B_DONE \<notin> b_flags (bufs s bp) then ksleep (Ch_buf bp) PSWP s
             else swap_loop n bp (blkno + ctod tcount) (coreaddr + tcount) (cnt - tcount) rdflg s))"

declare swap_loop.simps [simp del]

definition swap :: "int \<Rightarrow> int \<Rightarrow> int \<Rightarrow> bflag set \<Rightarrow> (unit, 'a bst_scheme) kmon" where
  "swap blkno coreaddr cnt rdflg s =
     (let bp = (if B_BUSY \<in> b_flags (bufs s Swbuf1) \<and> B_WANTED \<notin> b_flags (bufs s Swbuf2) then Swbuf2 else Swbuf1)
      in if B_BUSY \<in> b_flags (bufs s bp) then ksleep (Ch_buf bp) (PSWP + 1) (bflag_set bp {B_WANTED} s)
         else kthen (swap_loop (Suc (nat cnt)) bp blkno coreaddr cnt rdflg) (\<lambda>s.
           let err = B_ERROR \<in> b_flags (bufs s bp);
               s = (if B_WANTED \<in> b_flags (bufs s bp) then log_wakeup (Ch_buf bp) s else s);
               s = bflag_clr bp {B_BUSY, B_WANTED} s
           in if err then kpanic ''IO err in swap'' s else Ok () s) s)"

definition physaddr :: "int \<Rightarrow> 'a bst_scheme \<Rightarrow> int" where
  "physaddr addr s =
     (case pdir s (addr div 4194304) of
        None \<Rightarrow> 0
      | Some pt \<Rightarrow> cuint (pt (addr div 4096 mod 1024) div 4096 * 4096 + addr mod 4096))"

definition pmod :: "nat \<Rightarrow> (proc \<Rightarrow> proc) \<Rightarrow> 'a kst_scheme \<Rightarrow> 'a kst_scheme" where
  "pmod p f s = s\<lparr>proc := (proc s)(p := f (proc s p))\<rparr>"

definition physio_ok :: "user \<Rightarrow> bool" where
  "physio_ok v \<longleftrightarrow>
     (let base = cuint (u_base v); nb = base div 4096; eb = cuint (base + u_count v - 1) div 4096
      in \<not> base \<ge> cuint (base + u_count v) \<and>
         \<not> (nb < u_tsize v \<or> eb \<ge> 1024) \<and>
         \<not> (eb > cuint (u_tsize v + u_dsize v) \<and> nb < cuint (1024 - u_ssize v)))"

definition physio :: "bptr \<Rightarrow> int \<Rightarrow> bflag set \<Rightarrow> (unit, 'a bst_scheme) kmon" where
  "physio bp dev rw s =
     (if \<not> physio_ok (u s) then seterr EFAULT s
      else if B_BUSY \<in> b_flags (bufs s bp) then ksleep (Ch_buf bp) (PRIBIO + 1) (bflag_set bp {B_WANTED} s)
      else
        (let s = bmod bp (\<lambda>b. b\<lparr>b_flags := {B_BUSY, B_PHYS} \<union> rw, b_dev := dev,
               b_addr := Aphys (physaddr (cuint (u_base (u s))) s),
               b_blkno := u_offset (u s) div 512, b_bcount := u_count (u s), b_error := 0\<rparr>) s;
             s = pmod (u_procp (u s)) (\<lambda>p. p\<lparr>p_flag := p_flag p \<union> {SLOCK}\<rparr>) s;
             s = mdstrategy bp s
         in if B_DONE \<notin> b_flags (bufs s bp) then ksleep (Ch_buf bp) PRIBIO s
            else
              (let s = pmod (u_procp (u s)) (\<lambda>p. p\<lparr>p_flag := p_flag p - {SLOCK}\<rparr>) s;
                   s = (if B_WANTED \<in> b_flags (bufs s bp) then log_wakeup (Ch_buf bp) s else s);
                   s = bflag_clr bp {B_BUSY, B_WANTED} s;
                   s = s\<lparr>u := (u s)\<lparr>u_count := b_resid (bufs s bp)\<rparr>\<rparr>
               in Ok () (geterror bp s))))"

definition mdread :: "int \<Rightarrow> (unit, 'a bst_scheme) kmon" where
  "mdread dev = physio Rmdbuf dev {B_READ}"

definition mdwrite :: "int \<Rightarrow> (unit, 'a bst_scheme) kmon" where
  "mdwrite dev = physio Rmdbuf dev {}"

section \<open>Initialisation\<close>

definition binit_buf :: "nat \<Rightarrow> 'a bst_scheme \<Rightarrow> 'a bst_scheme" where
  "binit_buf i s =
     (let bp = Buf i;
          s = bmod bp (\<lambda>b. b\<lparr>b_dev := NODEV, b_addr := Abuf i, b_back := Bfreelist,
                b_forw := b_forw (bufs s Bfreelist)\<rparr>) s;
          s = bmod (b_forw (bufs s Bfreelist)) (\<lambda>b. b\<lparr>b_back := bp\<rparr>) s;
          s = bmod Bfreelist (\<lambda>b. b\<lparr>b_forw := bp\<rparr>) s
      in brelse bp (bmod bp (\<lambda>b. b\<lparr>b_flags := {B_BUSY}\<rparr>) s))"

definition binit_dev :: "bptr \<Rightarrow> 'a bst_scheme \<Rightarrow> 'a bst_scheme" where
  "binit_dev dp s =
     (let s = (if dp \<noteq> NULLB then bmod dp (\<lambda>b. b\<lparr>b_forw := dp, b_back := dp\<rparr>) s else s)
      in s\<lparr>nblkdev := nblkdev s + 1\<rparr>)"

definition binit :: "'a bst_scheme \<Rightarrow> 'a bst_scheme" where
  "binit s =
     (let s = bmod Bfreelist (\<lambda>b. b\<lparr>b_forw := Bfreelist, b_back := Bfreelist,
                 av_forw := Bfreelist, av_back := Bfreelist\<rparr>) s
      in fold binit_dev (d_tab s) (fold binit_buf [0 ..< NBUF] s))"

end
