(* ===== verification/Bio_Inv.thy ===== *)
theory Bio_Inv
  imports Bio
begin

text \<open>
  The invariant of the buffer cache and what each routine does to it. A state is described by
  the available list \<open>al\<close> and the device lists \<open>dl\<close>; the logical content of a block is the
  data of the buffer that caches it, or else the data on the device. The routines keep
  the invariant and the logical content, so a client sees one copy of every block.
\<close>

section \<open>Invariant\<close>

definition avf :: "'a bst_scheme \<Rightarrow> bptr \<Rightarrow> bptr" where "avf s p = av_forw (bufs s p)"
definition avb :: "'a bst_scheme \<Rightarrow> bptr \<Rightarrow> bptr" where "avb s p = av_back (bufs s p)"
definition fw :: "'a bst_scheme \<Rightarrow> bptr \<Rightarrow> bptr" where "fw s p = b_forw (bufs s p)"
definition bk :: "'a bst_scheme \<Rightarrow> bptr \<Rightarrow> bptr" where "bk s p = b_back (bufs s p)"

abbreviation flags :: "'a bst_scheme \<Rightarrow> nat \<Rightarrow> bflag set" where "flags s i \<equiv> b_flags (bufs s (Buf i))"
abbreviation busy :: "'a bst_scheme \<Rightarrow> nat \<Rightarrow> bool" where "busy s i \<equiv> B_BUSY \<in> flags s i"
abbreviation bdev :: "'a bst_scheme \<Rightarrow> nat \<Rightarrow> int" where "bdev s i \<equiv> b_dev (bufs s (Buf i))"
abbreviation bno :: "'a bst_scheme \<Rightarrow> nat \<Rightarrow> int" where "bno s i \<equiv> b_blkno (bufs s (Buf i))"

text \<open>The data of a block on the device.\<close>

definition on_disk :: "'a bst_scheme \<Rightarrow> int \<Rightarrow> int \<Rightarrow> int list" where
  "on_disk s dev blkno = md_range s dev (blkno * 512) 512"

definition in_range :: "'a bst_scheme \<Rightarrow> int \<Rightarrow> int \<Rightarrow> bool" where
  "in_range s dev blkno \<longleftrightarrow> 0 \<le> blkno \<and> blkno < mdsz s dev"

definition dev_ok :: "'a bst_scheme \<Rightarrow> int \<Rightarrow> bool" where
  "dev_ok s dev \<longleftrightarrow> dev \<noteq> NODEV \<and> major dev < nblkdev s \<and> dtab dev s \<noteq> NULLB"

definition heads :: "'a bst_scheme \<Rightarrow> bptr set" where
  "heads s = insert Bfreelist (set (d_tab s) - {NULLB})"

definition tabs_ok :: "'a bst_scheme \<Rightarrow> bool" where
  "tabs_ok s \<longleftrightarrow> nblkdev s = int (length (d_tab s)) \<and>
     (\<forall>p\<in>set (d_tab s). p = NULLB \<or> (\<exists>k. p = Dtab k)) \<and> (\<forall>h\<in>heads s. B_TAPE \<notin> b_flags (bufs s h)) \<and>
     (\<forall>dev. 0 \<le> mdsz s dev \<and> mdsz s dev < 4194304)"

definition lists_ok :: "'a bst_scheme \<Rightarrow> bptr list \<Rightarrow> (bptr \<Rightarrow> bptr list) \<Rightarrow> bool" where
  "lists_ok s al dl \<longleftrightarrow>
     dll (avf s) (avb s) Bfreelist al \<and> (\<forall>p. p \<in> set al \<longleftrightarrow> (\<exists>i. p = Buf i \<and> i < NBUF \<and> \<not> busy s i)) \<and>
     dlls (fw s) (bk s) (heads s) dl \<and> (\<forall>h\<in>heads s. set (dl h) \<subseteq> Buf ` {..<NBUF}) \<and>
     (\<forall>i<NBUF. \<exists>h\<in>heads s. Buf i \<in> set (dl h))"

definition keys_ok :: "'a bst_scheme \<Rightarrow> (bptr \<Rightarrow> bptr list) \<Rightarrow> bool" where
  "keys_ok s dl \<longleftrightarrow>
     (\<forall>i<NBUF. bdev s i \<noteq> NODEV \<longrightarrow> dev_ok s (bdev s i) \<and> Buf i \<in> set (dl (dtab (bdev s i) s))) \<and>
     (\<forall>i<NBUF. \<forall>j<NBUF. bdev s i \<noteq> NODEV \<longrightarrow> bdev s i = bdev s j \<longrightarrow> bno s i = bno s j \<longrightarrow> i = j)"

definition buf_ok :: "'a bst_scheme \<Rightarrow> nat \<Rightarrow> bool" where
  "buf_ok s i \<longleftrightarrow>
     b_addr (bufs s (Buf i)) = Abuf i \<and> length (buffers s i) = 512 \<and>
     (B_DELWRI \<in> flags s i \<longrightarrow> B_DONE \<in> flags s i \<and> bdev s i \<noteq> NODEV \<and> in_range s (bdev s i) (bno s i)) \<and>
     (B_ERROR \<in> flags s i \<longrightarrow> bdev s i \<noteq> NODEV \<longrightarrow> \<not> in_range s (bdev s i) (bno s i)) \<and>
     (\<not> busy s i \<longrightarrow> B_ASYNC \<notin> flags s i \<and> B_WANTED \<notin> flags s i) \<and>
     (\<not> busy s i \<longrightarrow> B_DONE \<in> flags s i \<longrightarrow> B_DELWRI \<notin> flags s i \<longrightarrow> bdev s i \<noteq> NODEV \<longrightarrow>
        in_range s (bdev s i) (bno s i) \<longrightarrow> buffers s i = on_disk s (bdev s i) (bno s i))"

definition bio_rep :: "'a bst_scheme \<Rightarrow> bptr list \<Rightarrow> (bptr \<Rightarrow> bptr list) \<Rightarrow> bool" where
  "bio_rep s al dl \<longleftrightarrow> tabs_ok s \<and> lists_ok s al dl \<and> keys_ok s dl \<and> (\<forall>i<NBUF. buf_ok s i)"

definition bio_inv :: "'a bst_scheme \<Rightarrow> bool" where
  "bio_inv s \<longleftrightarrow> (\<exists>al dl. bio_rep s al dl)"

text \<open>The logical content of a block.\<close>

definition caches :: "'a bst_scheme \<Rightarrow> int \<Rightarrow> int \<Rightarrow> nat \<Rightarrow> bool" where
  "caches s dev blkno i \<longleftrightarrow> same_block dev blkno (bufs s (Buf i)) \<and> B_DONE \<in> flags s i"

definition lcont :: "'a bst_scheme \<Rightarrow> int \<Rightarrow> int \<Rightarrow> int list" where
  "lcont s dev blkno =
     (case find (caches s dev blkno) [0 ..< NBUF] of Some i \<Rightarrow> buffers s i | None \<Rightarrow> on_disk s dev blkno)"

section \<open>Selectors of single updates\<close>

lemma bmod_simps [simp]:
  "bufs (bmod p f s) = (bufs s)(p := f (bufs s p))" "buffers (bmod p f s) = buffers s"
  "mdmem (bmod p f s) = mdmem s" "mdsz (bmod p f s) = mdsz s" "d_tab (bmod p f s) = d_tab s"
  "nblkdev (bmod p f s) = nblkdev s" "u (bmod p f s) = u s" "klog (bmod p f s) = klog s"
  by (simp_all add: bmod_def)

lemma link_simps [simp]:
  "avf (bmod p f s) = (avf s)(p := av_forw (f (bufs s p)))"
  "avb (bmod p f s) = (avb s)(p := av_back (f (bufs s p)))"
  "fw (bmod p f s) = (fw s)(p := b_forw (f (bufs s p)))"
  "bk (bmod p f s) = (bk s)(p := b_back (f (bufs s p)))"
  by (auto simp: avf_def avb_def fw_def bk_def)

lemma link_id [simp]:
  "(avf s)(p := av_forw (bufs s p)) = avf s" "(avb s)(p := av_back (bufs s p)) = avb s"
  "(fw s)(p := b_forw (bufs s p)) = fw s" "(bk s)(p := b_back (bufs s p)) = bk s"
  by (auto simp: avf_def avb_def fw_def bk_def)

lemma bflag_simps [simp]:
  "avf (bflag_set p fs s) = avf s" "avb (bflag_set p fs s) = avb s" "fw (bflag_set p fs s) = fw s"
  "bk (bflag_set p fs s) = bk s" "avf (bflag_clr p fs s) = avf s" "avb (bflag_clr p fs s) = avb s"
  "fw (bflag_clr p fs s) = fw s" "bk (bflag_clr p fs s) = bk s"
  "bufs (bflag_set p fs s) = (bufs s)(p := (bufs s p)\<lparr>b_flags := b_flags (bufs s p) \<union> fs\<rparr>)"
  "bufs (bflag_clr p fs s) = (bufs s)(p := (bufs s p)\<lparr>b_flags := b_flags (bufs s p) - fs\<rparr>)"
  by (simp_all add: bflag_set_def bflag_clr_def)

lemma bflag_rest [simp]:
  "buffers (bflag_set p fs s) = buffers s" "mdmem (bflag_set p fs s) = mdmem s" "mdsz (bflag_set p fs s) = mdsz s"
  "d_tab (bflag_set p fs s) = d_tab s" "nblkdev (bflag_set p fs s) = nblkdev s" "u (bflag_set p fs s) = u s"
  "buffers (bflag_clr p fs s) = buffers s" "mdmem (bflag_clr p fs s) = mdmem s" "mdsz (bflag_clr p fs s) = mdsz s"
  "d_tab (bflag_clr p fs s) = d_tab s" "nblkdev (bflag_clr p fs s) = nblkdev s" "u (bflag_clr p fs s) = u s"
  by (simp_all add: bflag_set_def bflag_clr_def)

lemma log_simps [simp]:
  "bufs (log_wakeup c s) = bufs s" "buffers (log_wakeup c s) = buffers s" "mdmem (log_wakeup c s) = mdmem s"
  "mdsz (log_wakeup c s) = mdsz s" "d_tab (log_wakeup c s) = d_tab s" "nblkdev (log_wakeup c s) = nblkdev s"
  "u (log_wakeup c s) = u s" "klog (log_wakeup c s) = klog s @ [Ev_wakeup c]"
  by (simp_all add: log_wakeup_def)

lemma dtab_cong: "d_tab t = d_tab s \<Longrightarrow> dtab dev t = dtab dev s"
  by (simp add: dtab_def)

lemma dtab_mod [simp]: "dtab dev (bmod p f s) = dtab dev s" "dtab dev (log_wakeup c s) = dtab dev s"
  by (simp_all add: dtab_def)

lemma on_disk_mod [simp]: "on_disk (bmod p f s) = on_disk s" "on_disk (log_wakeup c s) = on_disk s"
  by (auto simp: on_disk_def md_range_def intro!: ext)

lemma md_range_mod [simp]: "md_range (bmod p f s) = md_range s"
  by (auto simp: md_range_def intro!: ext)

lemma length_md_range [simp]: "length (md_range s d x n) = nat n"
  by (simp add: md_range_def)

lemma in_range_mod [simp]: "in_range (bmod p f s) = in_range s" "in_range (log_wakeup c s) = in_range s"
  by (auto simp: in_range_def intro!: ext)

lemma bflag_disk [simp]:
  "on_disk (bflag_set p fs s) = on_disk s" "on_disk (bflag_clr p fs s) = on_disk s"
  "in_range (bflag_set p fs s) = in_range s" "in_range (bflag_clr p fs s) = in_range s"
  "dtab d (bflag_set p fs s) = dtab d s" "dtab d (bflag_clr p fs s) = dtab d s"
  by (simp_all add: bflag_set_def bflag_clr_def)

lemma nwrite_simps [simp]:
  "avf (s\<lparr>nwrite := n\<rparr>) = avf s" "avb (s\<lparr>nwrite := n\<rparr>) = avb s" "fw (s\<lparr>nwrite := n\<rparr>) = fw s" "bk (s\<lparr>nwrite := n\<rparr>) = bk s"
  "on_disk (s\<lparr>nwrite := n\<rparr>) = on_disk s" "in_range (s\<lparr>nwrite := n\<rparr>) = in_range s" "dtab d (s\<lparr>nwrite := n\<rparr>) = dtab d s"
  by (auto simp: avf_def avb_def fw_def bk_def on_disk_def md_range_def in_range_def dtab_def fun_eq_iff)

lemma nread_simps [simp]:
  "avf (s\<lparr>nread := n\<rparr>) = avf s" "avb (s\<lparr>nread := n\<rparr>) = avb s" "fw (s\<lparr>nread := n\<rparr>) = fw s" "bk (s\<lparr>nread := n\<rparr>) = bk s"
  "on_disk (s\<lparr>nread := n\<rparr>) = on_disk s" "in_range (s\<lparr>nread := n\<rparr>) = in_range s" "dtab d (s\<lparr>nread := n\<rparr>) = dtab d s"
  by (auto simp: avf_def avb_def fw_def bk_def on_disk_def md_range_def in_range_def dtab_def fun_eq_iff)

lemma nreada_simps [simp]:
  "avf (s\<lparr>nreada := n\<rparr>) = avf s" "avb (s\<lparr>nreada := n\<rparr>) = avb s" "fw (s\<lparr>nreada := n\<rparr>) = fw s" "bk (s\<lparr>nreada := n\<rparr>) = bk s"
  "on_disk (s\<lparr>nreada := n\<rparr>) = on_disk s" "in_range (s\<lparr>nreada := n\<rparr>) = in_range s" "dtab d (s\<lparr>nreada := n\<rparr>) = dtab d s"
  by (auto simp: avf_def avb_def fw_def bk_def on_disk_def md_range_def in_range_def dtab_def fun_eq_iff)

lemma ncache_simps [simp]:
  "avf (s\<lparr>ncache := n\<rparr>) = avf s" "avb (s\<lparr>ncache := n\<rparr>) = avb s" "fw (s\<lparr>ncache := n\<rparr>) = fw s" "bk (s\<lparr>ncache := n\<rparr>) = bk s"
  "on_disk (s\<lparr>ncache := n\<rparr>) = on_disk s" "in_range (s\<lparr>ncache := n\<rparr>) = in_range s" "dtab d (s\<lparr>ncache := n\<rparr>) = dtab d s"
  by (auto simp: avf_def avb_def fw_def bk_def on_disk_def md_range_def in_range_def dtab_def fun_eq_iff)

lemma bufcount_simps [simp]:
  "avf (s\<lparr>bufcount := n\<rparr>) = avf s" "avb (s\<lparr>bufcount := n\<rparr>) = avb s" "fw (s\<lparr>bufcount := n\<rparr>) = fw s" "bk (s\<lparr>bufcount := n\<rparr>) = bk s"
  "on_disk (s\<lparr>bufcount := n\<rparr>) = on_disk s" "in_range (s\<lparr>bufcount := n\<rparr>) = in_range s" "dtab d (s\<lparr>bufcount := n\<rparr>) = dtab d s"
  by (auto simp: avf_def avb_def fw_def bk_def on_disk_def md_range_def in_range_def dtab_def fun_eq_iff)

lemma on_disk_buffers [simp]: "on_disk (s\<lparr>buffers := v\<rparr>) = on_disk s"
  by (auto simp: on_disk_def md_range_def fun_eq_iff)

lemma length_on_disk [simp]: "length (on_disk s dev b) = 512"
  by (simp add: on_disk_def md_range_def)

section \<open>Updating one buffer\<close>

text \<open>The part of a header that the invariant reads besides the links.\<close>

definition pl :: "buf \<Rightarrow> bflag set \<times> int \<times> int \<times> baddr" where
  "pl b = (b_flags b, b_dev b, b_blkno b, b_addr b)"

lemma pl_eq: "pl b = pl c \<longleftrightarrow> b_flags b = b_flags c \<and> b_dev b = b_dev c \<and> b_blkno b = b_blkno c \<and> b_addr b = b_addr c"
  by (simp add: pl_def)

lemma pl_eq_fields: "pl b = pl c \<Longrightarrow> b_flags b = b_flags c" "pl b = pl c \<Longrightarrow> b_dev b = b_dev c"
  "pl b = pl c \<Longrightarrow> b_blkno b = b_blkno c" "pl b = pl c \<Longrightarrow> b_addr b = b_addr c"
  by (simp_all add: pl_def)

lemma pl_links [simp]:
  "pl (b\<lparr>av_forw := p\<rparr>) = pl b" "pl (b\<lparr>av_back := p\<rparr>) = pl b" "pl (b\<lparr>b_forw := p\<rparr>) = pl b"
  "pl (b\<lparr>b_back := p\<rparr>) = pl b" "pl (b\<lparr>b_bcount := n\<rparr>) = pl b" "pl (b\<lparr>b_resid := n\<rparr>) = pl b"
  by (simp_all add: pl_def)

text \<open>
  \<open>upd_buf i s t\<close>: between \<open>s\<close> and \<open>t\<close> only buffer \<open>i\<close> and the block it holds in \<open>t\<close> may have
  changed (links aside).
\<close>

definition same_devs :: "'a bst_scheme \<Rightarrow> 'a bst_scheme \<Rightarrow> bool" where
  "same_devs s t \<longleftrightarrow> d_tab t = d_tab s \<and> nblkdev t = nblkdev s \<and> mdsz t = mdsz s"

definition upd_buf :: "nat \<Rightarrow> 'a bst_scheme \<Rightarrow> 'a bst_scheme \<Rightarrow> bool" where
  "upd_buf i s t \<longleftrightarrow> same_devs s t \<and>
     (\<forall>j. j \<noteq> i \<longrightarrow> pl (bufs t (Buf j)) = pl (bufs s (Buf j)) \<and> buffers t j = buffers s j) \<and>
     (\<forall>k. B_TAPE \<in> b_flags (bufs t (Dtab k)) \<longleftrightarrow> B_TAPE \<in> b_flags (bufs s (Dtab k))) \<and>
     (B_TAPE \<in> b_flags (bufs t Bfreelist) \<longleftrightarrow> B_TAPE \<in> b_flags (bufs s Bfreelist)) \<and>
     (\<forall>d b. \<not> same_block d b (bufs t (Buf i)) \<longrightarrow> on_disk t d b = on_disk s d b)"

lemma heads_eq: "same_devs s t \<Longrightarrow> heads t = heads s"
  by (simp add: same_devs_def heads_def)

lemma same_devs_simps:
  "same_devs s t \<Longrightarrow> dtab d t = dtab d s" "same_devs s t \<Longrightarrow> dev_ok t d = dev_ok s d"
  "same_devs s t \<Longrightarrow> in_range t d b = in_range s d b"
  by (auto simp: same_devs_def dtab_def dev_ok_def in_range_def)

lemma same_devs_refl [simp]: "same_devs s s" by (simp add: same_devs_def)
lemma same_devs_trans: "same_devs s t \<Longrightarrow> same_devs t v \<Longrightarrow> same_devs s v" by (simp add: same_devs_def)

lemma tabs_ok_upd: "upd_buf i s t \<Longrightarrow> tabs_ok s \<Longrightarrow> tabs_ok t"
  by (auto simp: tabs_ok_def upd_buf_def same_devs_def heads_def)

definition key_ok :: "'a bst_scheme \<Rightarrow> (bptr \<Rightarrow> bptr list) \<Rightarrow> nat \<Rightarrow> int \<Rightarrow> int \<Rightarrow> bool" where
  "key_ok s dl i d b \<longleftrightarrow> d \<noteq> NODEV \<longrightarrow> dev_ok s d \<and> Buf i \<in> set (dl (dtab d s)) \<and>
     (\<forall>j<NBUF. j \<noteq> i \<longrightarrow> \<not> same_block d b (bufs s (Buf j)))"

lemma key_ok_NODEV [simp]: "key_ok s dl i NODEV b"
  by (simp add: key_ok_def)

lemma key_ok_self: "keys_ok s dl \<Longrightarrow> i < NBUF \<Longrightarrow> key_ok s dl i (bdev s i) (bno s i)"
  unfolding key_ok_def keys_ok_def same_block_def by metis

lemma dtab_in_heads: "dev_ok s d \<Longrightarrow> dtab d s \<in> heads s"
  by (auto simp: dev_ok_def heads_def dtab_def split: if_splits)

lemma keys_ok_upd:
  assumes "keys_ok s dl" "tabs_ok s" "upd_buf i s t" "key_ok s dl' i (bdev t i) (bno t i)"
    "\<forall>h\<in>heads s. \<forall>j. j \<noteq> i \<longrightarrow> Buf j \<in> set (dl h) \<longrightarrow> Buf j \<in> set (dl' h)"
  shows "keys_ok t dl'"
proof -
  have sd: "same_devs s t" and oth: "\<And>j. j \<noteq> i \<Longrightarrow> bdev t j = bdev s j \<and> bno t j = bno s j"
    using assms(3) by (auto simp: upd_buf_def pl_eq)
  have 1: "dev_ok t (bdev t j) \<and> Buf j \<in> set (dl' (dtab (bdev t j) t))"
    if "j < NBUF" "bdev t j \<noteq> NODEV" for j
  proof (cases "j = i")
    case True
    with assms(4) that sd show ?thesis by (simp add: key_ok_def same_devs_simps)
  next
    case False
    with that assms(1) oth have "dev_ok s (bdev t j)" "Buf j \<in> set (dl (dtab (bdev t j) s))"
      by (auto simp: keys_ok_def)
    with False assms(5) sd dtab_in_heads [of s "bdev t j"] show ?thesis by (auto simp: same_devs_simps)
  qed
  have 2: "j = k" if "j < NBUF" "k < NBUF" "bdev t j \<noteq> NODEV" "bdev t j = bdev t k" "bno t j = bno t k" for j k
  proof (rule ccontr)
    assume ne: "j \<noteq> k"
    consider "j = i" | "k = i" | "j \<noteq> i" "k \<noteq> i" by blast
    then show False
    proof cases
      case 1
      with ne assms(4) that oth [of k] show False by (auto simp: key_ok_def same_block_def)
    next
      case 2
      with ne assms(4) that oth [of j] show False by (auto simp: key_ok_def same_block_def)
    next
      case 3
      with ne assms(1) that oth [of j] oth [of k] show False by (auto simp: keys_ok_def)
    qed
  qed
  from 1 2 show ?thesis by (auto simp: keys_ok_def)
qed

lemma buf_ok_other:
  assumes "buf_ok s j" "j \<noteq> i" "upd_buf i s t" "bdev s j \<noteq> NODEV \<longrightarrow> \<not> same_block (bdev s j) (bno s j) (bufs t (Buf i))"
  shows "buf_ok t j"
proof -
  have "pl (bufs t (Buf j)) = pl (bufs s (Buf j))" "buffers t j = buffers s j" "same_devs s t"
    using assms(2,3) by (auto simp: upd_buf_def)
  moreover have "on_disk t (bdev s j) (bno s j) = on_disk s (bdev s j) (bno s j)"
    if "in_range s (bdev s j) (bno s j)" "bdev s j \<noteq> NODEV"
    using assms(3,4) that by (simp add: upd_buf_def)
  ultimately show ?thesis using assms(1) unfolding buf_ok_def pl_eq by (simp add: same_devs_simps)
qed

lemma bio_rep_upd:
  assumes "bio_rep s al dl" "upd_buf i s t" "lists_ok t al' dl'" "key_ok s dl' i (bdev t i) (bno t i)"
    "\<forall>h\<in>heads s. \<forall>j. j \<noteq> i \<longrightarrow> Buf j \<in> set (dl h) \<longrightarrow> Buf j \<in> set (dl' h)" "buf_ok t i"
  shows "bio_rep t al' dl'"
proof -
  have "buf_ok t j" if "j < NBUF" for j
  proof (cases "j = i")
    case False
    have "bdev s j \<noteq> NODEV \<longrightarrow> \<not> same_block (bdev s j) (bno s j) (bufs t (Buf i))"
      using assms(4) False that by (auto simp: key_ok_def same_block_def)
    with buf_ok_other [OF _ False assms(2)] assms(1) that show ?thesis by (simp add: bio_rep_def)
  qed (use assms in simp)
  moreover have "keys_ok t dl'" "tabs_ok t"
    using keys_ok_upd [OF _ _ assms(2,4,5)] tabs_ok_upd [OF assms(2)] assms(1) by (auto simp: bio_rep_def)
  ultimately show ?thesis using assms(3) by (simp add: bio_rep_def)
qed

section \<open>Logical content\<close>

lemma caches_unique:
  "keys_ok s dl \<Longrightarrow> d \<noteq> NODEV \<Longrightarrow> i < NBUF \<Longrightarrow> j < NBUF \<Longrightarrow> caches s d b i \<Longrightarrow>
     same_block d b (bufs s (Buf j)) \<Longrightarrow> i = j"
  by (auto simp: keys_ok_def caches_def same_block_def)

lemma lcont_cached:
  assumes "keys_ok s dl" "d \<noteq> NODEV" "i < NBUF" "caches s d b i"
  shows "lcont s d b = buffers s i"
proof (cases "find (caches s d b) [0 ..< NBUF]")
  case None
  with assms show ?thesis by (auto simp: find_None_iff)
next
  case (Some j)
  then have "j < NBUF" "caches s d b j" by (auto simp: find_Some_iff)
  with caches_unique [OF assms(1,2,3), of j b] assms(4) have "j = i" by (auto simp: caches_def)
  with Some show ?thesis by (simp add: lcont_def)
qed

lemma lcont_uncached: "(\<forall>i<NBUF. \<not> caches s d b i) \<Longrightarrow> lcont s d b = on_disk s d b"
  by (auto simp: lcont_def find_Some_iff split: option.split)

lemma find_cong_set: "(\<And>x. x \<in> set xs \<Longrightarrow> P x = Q x) \<Longrightarrow> find P xs = find Q xs"
  by (induction xs) auto

lemma lcont_upd:
  assumes "upd_buf i s t" "in_range s d b" "\<not> same_block d b (bufs s (Buf i))" "\<not> same_block d b (bufs t (Buf i))"
  shows "lcont t d b = lcont s d b"
proof -
  have c: "caches t d b j = caches s d b j" for j
    using assms by (cases "j = i") (auto simp: caches_def same_block_def upd_buf_def pl_eq)
  have "find (caches t d b) [0 ..< NBUF] = find (caches s d b) [0 ..< NBUF]"
    by (rule find_cong_set) (simp add: c)
  moreover have "buffers t j = buffers s j" if "find (caches s d b) [0 ..< NBUF] = Some j" for j
    using that assms(1,3) by (auto simp: find_Some_iff upd_buf_def caches_def)
  moreover have "on_disk t d b = on_disk s d b" using assms(1,2,4) by (simp add: upd_buf_def)
  ultimately show ?thesis by (auto simp: lcont_def split: option.split)
qed

section \<open>The available list\<close>

text \<open>Operations that leave the data alone: they change links, flags and the log only.\<close>

definition same_data :: "'a bst_scheme \<Rightarrow> 'a bst_scheme \<Rightarrow> bool" where
  "same_data s t \<longleftrightarrow> same_devs s t \<and> buffers t = buffers s \<and> mdmem t = mdmem s \<and> u t = u s"

lemma same_data_mod [simp]: "same_data s (bmod p f t) = same_data s t" "same_data s (log_wakeup c t) = same_data s t"
  by (simp_all add: same_data_def same_devs_def)

lemma same_data_refl [simp]: "same_data s s" by (simp add: same_data_def)

lemma same_data_disk: "same_data s t \<Longrightarrow> on_disk t d b = on_disk s d b"
  by (simp add: same_data_def on_disk_def md_range_def)

lemma lists_busy_upd:
  assumes "lists_ok s al dl" "avf t = avf s" "avb t = avb s" "fw t = fw s" "bk t = bk s" "heads t = heads s"
    "\<forall>i<NBUF. busy t i = busy s i"
  shows "lists_ok t al dl"
  using assms unfolding lists_ok_def by auto

lemma avb_ne:
  assumes "dll (avf s) (avb s) h al" "p \<in> set al"
  shows "avb s p \<noteq> p" "avf s p \<noteq> p"
proof -
  from assms(2) obtain xs ys where al: "al = xs @ p # ys" by (meson split_list)
  with assms have "dseg (avf s) (avb s) h xs p" "dseg (avf s) (avb s) p ys h" "distinct (h # xs @ p # ys)"
    by (auto simp: dll_def)
  with dseg_ends [of "avf s" "avb s" h xs p] dseg_ends [of "avf s" "avb s" p ys h] last_in_set [of "h # xs"]
    hd_in_set [of "ys @ [h]"]
  show "avb s p \<noteq> p" "avf s p \<noteq> p" by (fastforce split: if_splits)+
qed

lemma notavail_summary:
  assumes "avb s bp \<noteq> bp"
  shows "avf (notavail bp s) = (avf s)(avb s bp := avf s bp)"
    "avb (notavail bp s) = (avb s)(avf s bp := avb s bp)"
    "fw (notavail bp s) = fw s" "bk (notavail bp s) = bk s" "same_data s (notavail bp s)"
    "pl (bufs (notavail bp s) p) =
       (if p = bp then pl ((bufs s bp)\<lparr>b_flags := b_flags (bufs s bp) \<union> {B_BUSY}\<rparr>) else pl (bufs s p))"
  using assms
  by (auto simp: notavail_def bflag_set_def Let_def fun_eq_iff avf_def avb_def fw_def bk_def pl_def)

text \<open>The stages of \<^verbatim>\<open>brelse\<close>: wakeups, the error case, linking in, clearing the flags.\<close>

definition rel_wake :: "bptr \<Rightarrow> 'a bst_scheme \<Rightarrow> 'a bst_scheme" where
  "rel_wake bp s =
     (let s = (if B_WANTED \<in> b_flags (bufs s bp) then log_wakeup (Ch_buf bp) s else s)
      in if B_WANTED \<in> b_flags (bufs s Bfreelist)
         then log_wakeup (Ch_buf Bfreelist) (bflag_clr Bfreelist {B_WANTED} s) else s)"

definition rel_err :: "bptr \<Rightarrow> 'a bst_scheme \<Rightarrow> 'a bst_scheme" where
  "rel_err bp s = (if B_ERROR \<in> b_flags (bufs s bp) then bmod bp (\<lambda>b. b\<lparr>b_dev := NODEV\<rparr>) s else s)"

definition rel_front :: "bptr \<Rightarrow> 'a bst_scheme \<Rightarrow> 'a bst_scheme" where
  "rel_front bp s =
     (let backp = av_forw (bufs s Bfreelist);
          s = bmod backp (\<lambda>b. b\<lparr>av_back := bp\<rparr>) s;
          s = bmod bp (\<lambda>b. b\<lparr>av_forw := backp\<rparr>) s;
          s = bmod Bfreelist (\<lambda>b. b\<lparr>av_forw := bp\<rparr>) s
      in bmod bp (\<lambda>b. b\<lparr>av_back := Bfreelist\<rparr>) s)"

definition rel_back :: "bptr \<Rightarrow> 'a bst_scheme \<Rightarrow> 'a bst_scheme" where
  "rel_back bp s =
     (let backp = av_back (bufs s Bfreelist);
          s = bmod backp (\<lambda>b. b\<lparr>av_forw := bp\<rparr>) s;
          s = bmod bp (\<lambda>b. b\<lparr>av_back := backp\<rparr>) s;
          s = bmod Bfreelist (\<lambda>b. b\<lparr>av_back := bp\<rparr>) s
      in bmod bp (\<lambda>b. b\<lparr>av_forw := Bfreelist\<rparr>) s)"

lemma brelse_stages:
  "brelse bp s =
     (let t = rel_err bp (rel_wake bp s)
      in bflag_clr bp {B_WANTED, B_BUSY, B_ASYNC, B_AGE}
           (if B_AGE \<in> b_flags (bufs t bp) then rel_front bp t else rel_back bp t))"
  by (simp add: brelse_def rel_err_def rel_wake_def rel_front_def rel_back_def Let_def)

lemma rel_wake_summary:
  "avf (rel_wake bp s) = avf s" "avb (rel_wake bp s) = avb s" "fw (rel_wake bp s) = fw s" "bk (rel_wake bp s) = bk s"
  "same_data v (rel_wake bp s) = same_data v s"
  "p \<noteq> Bfreelist \<Longrightarrow> bufs (rel_wake bp s) p = bufs s p"
  "B_TAPE \<in> b_flags (bufs (rel_wake bp s) p) \<longleftrightarrow> B_TAPE \<in> b_flags (bufs s p)"
  by (auto simp: rel_wake_def bflag_clr_def Let_def fun_eq_iff avf_def avb_def fw_def bk_def)

lemma rel_err_summary:
  "avf (rel_err bp s) = avf s" "avb (rel_err bp s) = avb s" "fw (rel_err bp s) = fw s" "bk (rel_err bp s) = bk s"
  "same_data v (rel_err bp s) = same_data v s"
  "bufs (rel_err bp s) p =
     (if p = bp \<and> B_ERROR \<in> b_flags (bufs s bp) then (bufs s bp)\<lparr>b_dev := NODEV\<rparr> else bufs s p)"
  by (auto simp: rel_err_def fun_eq_iff avf_def avb_def fw_def bk_def)

lemma rel_front_summary:
  assumes "avf s Bfreelist \<noteq> bp" "bp \<noteq> Bfreelist"
  shows "avf (rel_front bp s) = (avf s)(bp := avf s Bfreelist, Bfreelist := bp)"
    "avb (rel_front bp s) = (avb s)(bp := Bfreelist, avf s Bfreelist := bp)"
    "fw (rel_front bp s) = fw s" "bk (rel_front bp s) = bk s" "same_data v (rel_front bp s) = same_data v s"
    "pl (bufs (rel_front bp s) p) = pl (bufs s p)"
  using assms by (auto simp: rel_front_def Let_def fun_eq_iff avf_def avb_def fw_def bk_def pl_def)

lemma rel_back_summary:
  assumes "avb s Bfreelist \<noteq> bp" "bp \<noteq> Bfreelist"
  shows "avf (rel_back bp s) = (avf s)(avb s Bfreelist := bp, bp := Bfreelist)"
    "avb (rel_back bp s) = (avb s)(bp := avb s Bfreelist, Bfreelist := bp)"
    "fw (rel_back bp s) = fw s" "bk (rel_back bp s) = bk s" "same_data v (rel_back bp s) = same_data v s"
    "pl (bufs (rel_back bp s) p) = pl (bufs s p)"
  using assms by (auto simp: rel_back_def Let_def fun_eq_iff avf_def avb_def fw_def bk_def pl_def)

text \<open>The header of buffer \<open>bp\<close> after its release, links aside.\<close>

definition released :: "buf \<Rightarrow> buf" where
  "released b = b\<lparr>b_flags := b_flags b - {B_WANTED, B_BUSY, B_ASYNC, B_AGE},
     b_dev := (if B_ERROR \<in> b_flags b then NODEV else b_dev b)\<rparr>"

lemma pl_clr: "pl b = pl c \<Longrightarrow> pl (b\<lparr>b_flags := b_flags b - F\<rparr>) = pl (c\<lparr>b_flags := b_flags c - F\<rparr>)"
  by (simp add: pl_def)

lemma brelse_header:
  assumes "avf s Bfreelist \<noteq> Buf i" "avb s Bfreelist \<noteq> Buf i"
  shows "fw (brelse (Buf i) s) = fw s" "bk (brelse (Buf i) s) = bk s" "same_data s (brelse (Buf i) s)"
    "p \<noteq> Bfreelist \<Longrightarrow> pl (bufs (brelse (Buf i) s) p) = (if p = Buf i then pl (released (bufs s p)) else pl (bufs s p))"
    "B_TAPE \<in> b_flags (bufs (brelse (Buf i) s) p) \<longleftrightarrow> B_TAPE \<in> b_flags (bufs s p)"
proof -
  let ?w = "rel_wake (Buf i) s" let ?t = "rel_err (Buf i) ?w"
  define r where "r = (if B_AGE \<in> b_flags (bufs ?t (Buf i)) then rel_front (Buf i) ?t else rel_back (Buf i) ?t)"
  have ends: "avf ?t Bfreelist \<noteq> Buf i" "avb ?t Bfreelist \<noteq> Buf i"
    using assms by (simp_all add: rel_err_summary rel_wake_summary)
  have r: "fw r = fw s" "bk r = bk s" "same_data s r" "pl (bufs r q) = pl (bufs ?t q)" for q
    using rel_front_summary [OF ends(1)] rel_back_summary [OF ends(2)]
    by (simp_all add: r_def rel_err_summary rel_wake_summary)
  have b: "brelse (Buf i) s = bflag_clr (Buf i) {B_WANTED, B_BUSY, B_ASYNC, B_AGE} r"
    by (simp add: brelse_stages Let_def r_def)
  show "fw (brelse (Buf i) s) = fw s" "bk (brelse (Buf i) s) = bk s" "same_data s (brelse (Buf i) s)"
    using r by (simp_all add: b same_data_def same_devs_def)
  have fl: "b_flags (bufs r q) = b_flags (bufs ?t q)" for q using r(4) by (rule pl_eq_fields)
  show "pl (bufs (brelse (Buf i) s) p) = (if p = Buf i then pl (released (bufs s p)) else pl (bufs s p))"
    if "p \<noteq> Bfreelist"
  proof (cases "p = Buf i")
    case True
    have "pl (released (bufs s p)) =
        pl ((bufs ?t p)\<lparr>b_flags := b_flags (bufs ?t p) - {B_WANTED, B_BUSY, B_ASYNC, B_AGE}\<rparr>)"
      using True by (simp add: released_def rel_err_summary rel_wake_summary pl_def)
    with pl_clr [OF r(4)] True show ?thesis by (simp add: b)
  next
    case False
    with that r(4) [of p] show ?thesis by (simp add: b rel_err_summary rel_wake_summary)
  qed
  show "B_TAPE \<in> b_flags (bufs (brelse (Buf i) s) p) \<longleftrightarrow> B_TAPE \<in> b_flags (bufs s p)"
    using fl [of p] by (cases "p = Buf i") (simp_all add: b rel_err_summary rel_wake_summary)
qed

lemma brelse_links:
  assumes "avf s Bfreelist \<noteq> Buf i" "avb s Bfreelist \<noteq> Buf i"
  shows "avf (brelse (Buf i) s) =
      (if B_AGE \<in> flags s i then (avf s)(Buf i := avf s Bfreelist, Bfreelist := Buf i)
       else (avf s)(avb s Bfreelist := Buf i, Buf i := Bfreelist))"
    "avb (brelse (Buf i) s) =
      (if B_AGE \<in> flags s i then (avb s)(Buf i := Bfreelist, avf s Bfreelist := Buf i)
       else (avb s)(Buf i := avb s Bfreelist, Bfreelist := Buf i))"
proof -
  let ?t = "rel_err (Buf i) (rel_wake (Buf i) s)"
  have ends: "avf ?t Bfreelist \<noteq> Buf i" "avb ?t Bfreelist \<noteq> Buf i"
    using assms by (simp_all add: rel_err_summary rel_wake_summary)
  have age: "B_AGE \<in> b_flags (bufs ?t (Buf i)) \<longleftrightarrow> B_AGE \<in> flags s i"
    by (simp add: rel_err_summary rel_wake_summary)
  show "avf (brelse (Buf i) s) =
      (if B_AGE \<in> flags s i then (avf s)(Buf i := avf s Bfreelist, Bfreelist := Buf i)
       else (avf s)(avb s Bfreelist := Buf i, Buf i := Bfreelist))"
    "avb (brelse (Buf i) s) =
      (if B_AGE \<in> flags s i then (avb s)(Buf i := Bfreelist, avf s Bfreelist := Buf i)
       else (avb s)(Buf i := avb s Bfreelist, Bfreelist := Buf i))"
    using rel_front_summary(1,2) [OF ends(1)] rel_back_summary(1,2) [OF ends(2)] age
    by (simp_all add: brelse_stages Let_def rel_err_summary rel_wake_summary)
qed

lemma lcont_same:
  "same_data s t \<Longrightarrow> (\<And>i. i < NBUF \<Longrightarrow> caches t d b i = caches s d b i) \<Longrightarrow> lcont t d b = lcont s d b"
  unfolding lcont_def
  by (subst find_cong_set [of "[0 ..< NBUF]" _ "caches s d b"])
    (auto simp: same_data_disk same_data_def split: option.split)

lemma caches_pl: "pl (bufs t (Buf i)) = pl (bufs s (Buf i)) \<Longrightarrow> caches t d b i = caches s d b i"
  by (simp add: caches_def same_block_def pl_def)

lemma avail_mem: "lists_ok s al dl \<Longrightarrow> p \<in> set al \<longleftrightarrow> (\<exists>i. p = Buf i \<and> i < NBUF \<and> \<not> busy s i)"
  by (auto simp: lists_ok_def)

lemma avail_ends:
  assumes "lists_ok s al dl" "busy s i"
  shows "avf s Bfreelist \<noteq> Buf i" "avb s Bfreelist \<noteq> Buf i"
proof -
  have d: "dll (avf s) (avb s) Bfreelist al" using assms by (simp add: lists_ok_def)
  have i: "Buf i \<notin> set al" using assms avail_mem [OF assms(1), of "Buf i"] by auto
  show "avf s Bfreelist \<noteq> Buf i" using dll_ends [OF d] i by (cases al) auto
  have "avb s Bfreelist \<in> set (Bfreelist # al)"
    using dll_ends [OF d] last_in_set [of "Bfreelist # al"] by simp
  with i show "avb s Bfreelist \<noteq> Buf i" by auto
qed

text \<open>What one buffer operation keeps for everybody else.\<close>

definition keeps_content :: "'a bst_scheme \<Rightarrow> 'a bst_scheme \<Rightarrow> bool" where
  "keeps_content s t \<longleftrightarrow> same_devs s t \<and> (\<forall>d b. d \<noteq> NODEV \<longrightarrow> in_range s d b \<longrightarrow> lcont t d b = lcont s d b)"

lemma keeps_content_refl [simp]: "keeps_content s s"
  by (simp add: keeps_content_def)

lemma keeps_content_trans: "keeps_content s t \<Longrightarrow> keeps_content t v \<Longrightarrow> keeps_content s v"
  by (auto simp: keeps_content_def same_devs_simps dest: same_devs_trans)

lemma upd_buf_links:
  assumes "same_data s t" "\<And>p. p \<noteq> Bfreelist \<Longrightarrow> p \<noteq> Buf i \<Longrightarrow> pl (bufs t p) = pl (bufs s p)"
    "B_TAPE \<in> b_flags (bufs t Bfreelist) \<longleftrightarrow> B_TAPE \<in> b_flags (bufs s Bfreelist)"
  shows "upd_buf i s t"
  using assms assms(2) [THEN pl_eq_fields(1)] same_data_disk [OF assms(1)]
  by (auto simp: upd_buf_def same_data_def)

lemma notavail_ok:
  assumes rep: "bio_rep s (xs @ Buf i # ys) dl"
  shows "bio_rep (notavail (Buf i) s) (xs @ ys) dl" "keeps_content s (notavail (Buf i) s)"
    "upd_buf i s (notavail (Buf i) s)"
proof -
  let ?t = "notavail (Buf i) s"
  have li: "lists_ok s (xs @ Buf i # ys) dl" and bo: "\<forall>i<NBUF. buf_ok s i" and ko: "keys_ok s dl"
    using rep by (auto simp: bio_rep_def)
  have d: "dll (avf s) (avb s) Bfreelist (xs @ Buf i # ys)" using li by (simp add: lists_ok_def)
  have i: "i < NBUF" "\<not> busy s i" using avail_mem [OF li, of "Buf i"] by auto
  note sm = notavail_summary [OF avb_ne(1) [OF d]]
  have pli: "flags ?t i = flags s i \<union> {B_BUSY}" "bdev ?t i = bdev s i" "bno ?t i = bno s i"
    "b_addr (bufs ?t (Buf i)) = b_addr (bufs s (Buf i))"
    using sm(6) [of "Buf i" "Buf i"] by (auto simp: pl_def)
  have oth: "pl (bufs ?t p) = pl (bufs s p)" if "p \<noteq> Buf i" for p using sm(6) [of "Buf i" p] that by simp
  have sd: "same_data s ?t" using sm(5) [of "Buf i"] by simp
  show ub: "upd_buf i s ?t"
    using oth pl_eq_fields(1) [OF oth, of Bfreelist] by (intro upd_buf_links sd) auto
  have hd: "heads ?t = heads s" using sd by (simp add: same_data_def heads_eq)
  have lt: "lists_ok ?t (xs @ ys) dl"
  proof -
    have "dll (avf ?t) (avb ?t) Bfreelist (xs @ ys)" using dll_unlink [OF d] sm(1,2) by simp
    moreover have "p \<in> set (xs @ ys) \<longleftrightarrow> (\<exists>j. p = Buf j \<and> j < NBUF \<and> \<not> busy ?t j)" for p
    proof -
      have "busy ?t j \<longleftrightarrow> j = i \<or> busy s j" for j
        using pl_eq_fields(1) [OF oth, of "Buf j"] pli by (cases "j = i") auto
      moreover have "p \<in> set (xs @ ys) \<longleftrightarrow> p \<in> set (xs @ Buf i # ys) \<and> p \<noteq> Buf i" using d by (auto simp: dll_def)
      ultimately show ?thesis using avail_mem [OF li, of p] by auto
    qed
    ultimately show ?thesis using li sm(3,4) [of "Buf i"] hd by (simp add: lists_ok_def)
  qed
  have "key_ok s dl i (bdev ?t i) (bno ?t i)"
    using key_ok_self [OF ko i(1)] by (simp add: pli)
  moreover have "buf_ok ?t i"
    using bo i sd pli unfolding buf_ok_def by (auto simp: same_data_def same_devs_simps)
  ultimately show "bio_rep ?t (xs @ ys) dl" by (intro bio_rep_upd [OF rep ub lt]) auto
  have "caches ?t d b j = caches s d b j" for d b j
    using pli oth [of "Buf j"] by (cases "j = i") (auto simp: caches_def same_block_def pl_def)
  with lcont_same [OF sd] sd show "keeps_content s ?t" by (simp add: keeps_content_def same_data_def)
qed

text \<open>A buffer may be released when its data is on the device or marked to be written.\<close>

definition clean :: "'a bst_scheme \<Rightarrow> nat \<Rightarrow> bool" where
  "clean s i \<longleftrightarrow> B_DELWRI \<in> flags s i \<or> B_DONE \<notin> flags s i \<or> bdev s i = NODEV \<or>
     \<not> in_range s (bdev s i) (bno s i) \<or> buffers s i = on_disk s (bdev s i) (bno s i)"

lemma buf_ok_released:
  assumes "buf_ok s i" "clean s i" "same_data s t" "pl (bufs t (Buf i)) = pl (released (bufs s (Buf i)))"
  shows "buf_ok t i"
proof -
  have t: "flags t i = flags s i - {B_WANTED, B_BUSY, B_ASYNC, B_AGE}" "bno t i = bno s i"
    "bdev t i = (if B_ERROR \<in> flags s i then NODEV else bdev s i)"
    "b_addr (bufs t (Buf i)) = b_addr (bufs s (Buf i))"
    using assms(4) by (simp_all add: pl_def released_def)
  have sd: "same_devs s t" "buffers t = buffers s" using assms(3) by (auto simp: same_data_def)
  have od: "on_disk t d b = on_disk s d b" for d b using same_data_disk [OF assms(3)] .
  show ?thesis using assms(1,2) sd(1) unfolding buf_ok_def clean_def t sd(2) od
    by (auto simp: same_devs_simps)
qed

lemma brelse_lists:
  assumes li: "lists_ok s al dl" and i: "i < NBUF" "busy s i" and tb: "tabs_ok s"
  shows "lists_ok (brelse (Buf i) s) (if B_AGE \<in> flags s i then Buf i # al else al @ [Buf i]) dl"
proof -
  let ?t = "brelse (Buf i) s" let ?al = "if B_AGE \<in> flags s i then Buf i # al else al @ [Buf i]"
  note ends = avail_ends [OF li i(2)]
  note hd = brelse_header [OF ends]
  have d: "dll (avf s) (avb s) Bfreelist al" using li by (simp add: lists_ok_def)
  have out: "Buf i \<notin> set (Bfreelist # al)" using i avail_mem [OF li, of "Buf i"] by auto
  have "dll (avf ?t) (avb ?t) Bfreelist ?al"
    unfolding brelse_links [OF ends] using dll_push_front [OF d out] dll_push_back [OF d out] by simp
  moreover have "p \<in> set ?al \<longleftrightarrow> (\<exists>j. p = Buf j \<and> j < NBUF \<and> \<not> busy ?t j)" for p
  proof -
    have "busy ?t j \<longleftrightarrow> j \<noteq> i \<and> busy s j" for j
      using hd(4) [of "Buf j"]
      by (cases "j = i") (auto simp: pl_def released_def)
    moreover have "p \<in> set ?al \<longleftrightarrow> p = Buf i \<or> p \<in> set al" by auto
    ultimately show ?thesis using avail_mem [OF li, of p] i by auto
  qed
  moreover have "heads ?t = heads s" using hd(3) by (simp add: same_data_def heads_eq)
  ultimately show ?thesis using li hd(1,2) by (simp add: lists_ok_def)
qed

lemma brelse_ok:
  assumes rep: "bio_rep s al dl" and i: "i < NBUF" "busy s i" and cl: "clean s i"
  shows "bio_rep (brelse (Buf i) s) (if B_AGE \<in> flags s i then Buf i # al else al @ [Buf i]) dl"
    "keeps_content s (brelse (Buf i) s)" "upd_buf i s (brelse (Buf i) s)" "same_data s (brelse (Buf i) s)"
    "pl (bufs (brelse (Buf i) s) (Buf i)) = pl (released (bufs s (Buf i)))"
proof -
  let ?t = "brelse (Buf i) s"
  have li: "lists_ok s al dl" and tb: "tabs_ok s" and ko: "keys_ok s dl" and bo: "buf_ok s i"
    using rep i by (auto simp: bio_rep_def)
  note hd = brelse_header [OF avail_ends [OF li i(2)]]
  show sd: "same_data s ?t" by (rule hd(3))
  show ub: "upd_buf i s ?t" using hd(4,5) by (intro upd_buf_links sd) auto
  show pli: "pl (bufs ?t (Buf i)) = pl (released (bufs s (Buf i)))" using hd(4) by simp
  then have key: "bdev ?t i = (if B_ERROR \<in> flags s i then NODEV else bdev s i)" "bno ?t i = bno s i"
    "flags ?t i = flags s i - {B_WANTED, B_BUSY, B_ASYNC, B_AGE}"
    by (simp_all add: pl_def released_def)
  have "key_ok s dl i (bdev ?t i) (bno ?t i)"
    using key_ok_self [OF ko i(1)] by (simp add: key)
  then show "bio_rep ?t (if B_AGE \<in> flags s i then Buf i # al else al @ [Buf i]) dl"
    using buf_ok_released [OF bo cl sd pli] brelse_lists [OF li i tb] by (intro bio_rep_upd [OF rep ub]) auto
  have err: "B_ERROR \<in> flags s i \<Longrightarrow> bdev s i \<noteq> NODEV \<Longrightarrow> \<not> in_range s (bdev s i) (bno s i)"
    using bo by (simp add: buf_ok_def)
  have "lcont ?t d b = lcont s d b" if "d \<noteq> NODEV" "in_range s d b" for d b
  proof (rule lcont_same [OF sd])
    fix j assume "j < NBUF"
    show "caches ?t d b j = caches s d b j"
    proof (cases "j = i")
      case True
      with that key err show ?thesis by (auto simp: caches_def same_block_def)
    next
      case False
      with hd(4) [of "Buf j"] show ?thesis by (intro caches_pl) simp
    qed
  qed
  then show "keeps_content s ?t" using sd by (simp add: keeps_content_def same_data_def)
qed

section \<open>Device lists\<close>

lemma relink_summary:
  assumes "bk s bp \<noteq> bp" "fw s bp \<noteq> bp" "dp \<noteq> bp"
  shows "same_data s (relink bp dp s)" "pl (bufs (relink bp dp s) p) = pl (bufs s p)"
    "avf (relink bp dp s) = avf s" "avb (relink bp dp s) = avb s"
    "fw (relink bp dp s) = (let nx = (fw s)(bk s bp := fw s bp) in nx(bp := nx dp, dp := bp))"
    "bk (relink bp dp s) = (let nx = (fw s)(bk s bp := fw s bp); pv = (bk s)(fw s bp := bk s bp)
       in pv(bp := dp, nx dp := bp))"
  using assms
  by (simp_all add: relink_def Let_def fun_eq_iff avf_def avb_def fw_def bk_def pl_def same_data_def same_devs_def)

definition moved :: "bptr \<Rightarrow> bptr \<Rightarrow> (bptr \<Rightarrow> bptr list) \<Rightarrow> bptr \<Rightarrow> bptr list" where
  "moved bp dp dl h = (if h = dp then bp # remove1 bp (dl h) else remove1 bp (dl h))"

lemma relink_lists:
  assumes li: "lists_ok s al dl" and i: "i < NBUF" and dp: "dp \<in> heads s" and tb: "tabs_ok s"
  shows "lists_ok (relink (Buf i) dp s) al (moved (Buf i) dp dl)" "same_data s (relink (Buf i) dp s)"
    "pl (bufs (relink (Buf i) dp s) p) = pl (bufs s p)"
proof -
  let ?t = "relink (Buf i) dp s"
  have D: "dlls (fw s) (bk s) (heads s) dl" using li by (simp add: lists_ok_def)
  obtain h where h: "h \<in> heads s" "Buf i \<in> set (dl h)" using li i by (auto simp: lists_ok_def)
  obtain xs ys where sp: "dl h = xs @ Buf i # ys" using h(2) by (meson split_list)
  have d: "dll (fw s) (bk s) h (xs @ Buf i # ys)" using D h sp by (auto simp: dlls_def)
  have hb: "g \<noteq> Buf j" if "g \<in> heads s" for g j using that tb by (auto simp: heads_def tabs_ok_def)
  note sm = relink_summary [OF dll_neighbours(3,4) [OF d] hb [OF dp]]
  show sd: "same_data s ?t" and pl: "pl (bufs ?t p) = pl (bufs s p)" for p using sm(1,2) by auto
  have dl1: "(dl(h := xs @ ys)) g = remove1 (Buf i) (dl g)" if "g \<in> heads s" for g
  proof (cases "g = h")
    case True
    have "Buf i \<notin> set xs" using d by (simp add: dll_def)
    with True sp show ?thesis by (simp add: remove1_append)
  next
    case False
    with dlls_member_unique [OF D h(1) that h(2)] have "Buf i \<notin> set (dl g)" by blast
    with False show ?thesis by (simp add: remove1_idem)
  qed
  have nin: "\<forall>g\<in>heads s. Buf i \<notin> set ((dl(h := xs @ ys)) g)"
    using dl1 D by (simp add: dlls_def dll_def)
  from dlls_push [OF dlls_unlink [OF D h(1) sp] dp _ nin] hb
  have D': "dlls (fw ?t) (bk ?t) (heads s) ((dl(h := xs @ ys))(dp := Buf i # (dl(h := xs @ ys)) dp))"
    unfolding sm(5,6) Let_def by blast
  have mv: "((dl(h := xs @ ys))(dp := Buf i # (dl(h := xs @ ys)) dp)) g = moved (Buf i) dp dl g"
    if "g \<in> heads s" for g
    using dl1 [OF that] dl1 [OF dp] by (cases "g = dp") (auto simp: moved_def split: if_splits)
  have "dlls (fw ?t) (bk ?t) (heads s) (moved (Buf i) dp dl)"
    using D' mv unfolding dlls_def by (metis (no_types, lifting))
  moreover have "set (moved (Buf i) dp dl g) \<subseteq> Buf ` {..<NBUF}" if "g \<in> heads s" for g
  proof -
    have "set (dl g) \<subseteq> Buf ` {..<NBUF}" using li that by (simp add: lists_ok_def)
    with set_remove1_subset [of "Buf i" "dl g"] i show ?thesis by (auto simp: moved_def)
  qed
  moreover have "\<exists>g\<in>heads s. Buf j \<in> set (moved (Buf i) dp dl g)" if "j < NBUF" for j
  proof (cases "j = i")
    case False
    from li that obtain g where "g \<in> heads s" "Buf j \<in> set (dl g)" by (auto simp: lists_ok_def)
    with False show ?thesis by (intro bexI [of _ g]) (auto simp: moved_def)
  qed (use dp in \<open>auto simp: moved_def\<close>)
  moreover have "heads ?t = heads s" using sd by (simp add: same_data_def heads_eq)
  moreover have "busy ?t j = busy s j" for j using pl_eq_fields(1) [OF pl] by simp
  ultimately show "lists_ok ?t al (moved (Buf i) dp dl)"
    using li sm(3,4) by (simp add: lists_ok_def)
qed

lemma moved_mem: "j \<noteq> i \<Longrightarrow> Buf j \<in> set (dl h) \<Longrightarrow> Buf j \<in> set (moved (Buf i) dp dl h)"
  by (auto simp: moved_def)

section \<open>Changing a busy buffer\<close>

text \<open>
  \<open>busy_step i s t\<close>: a step that changes only the busy buffer \<open>i\<close> (its header, its data,
  its block on the device) and leaves it busy and on the same lists.
\<close>

definition busy_step :: "nat \<Rightarrow> 'a bst_scheme \<Rightarrow> 'a bst_scheme \<Rightarrow> bool" where
  "busy_step i s t \<longleftrightarrow> upd_buf i s t \<and> busy s i \<and> busy t i \<and> fw t = fw s \<and> bk t = bk s \<and>
     (\<forall>p. p \<noteq> Buf i \<longrightarrow> avf t p = avf s p \<and> avb t p = avb s p)"

lemma busy_step_lists:
  assumes "lists_ok s al dl" "busy_step i s t"
  shows "lists_ok t al dl"
proof -
  have bt: "upd_buf i s t" "busy s i" "busy t i" "\<forall>p. p \<noteq> Buf i \<longrightarrow> avf t p = avf s p \<and> avb t p = avb s p"
    using assms(2) by (auto simp: busy_step_def)
  have "Buf i \<notin> set (Bfreelist # al)" using avail_mem [OF assms(1), of "Buf i"] bt by auto
  then have "dll (avf t) (avb t) Bfreelist al = dll (avf s) (avb s) Bfreelist al"
    using bt(4) by (intro dll_frame) metis
  moreover have "busy t j = busy s j" for j
    using bt(1-3) by (cases "j = i") (auto simp: upd_buf_def pl_eq)
  moreover have "heads t = heads s" using bt(1) by (auto simp: upd_buf_def heads_eq)
  ultimately show ?thesis using assms by (simp add: lists_ok_def busy_step_def)
qed

lemma busy_step_ok:
  assumes rep: "bio_rep s al dl" and st: "busy_step i s t" and i: "i < NBUF"
    and key: "bdev t i = bdev s i" "bno t i = bno s i" and bo: "buf_ok t i"
  shows "bio_rep t al dl"
proof (rule bio_rep_upd [OF rep, of i])
  have ko: "keys_ok s dl" and li: "lists_ok s al dl" using rep by (auto simp: bio_rep_def)
  show "upd_buf i s t" using st by (simp add: busy_step_def)
  show "lists_ok t al dl" by (rule busy_step_lists [OF li st])
  show "key_ok s dl i (bdev t i) (bno t i)" using key_ok_self [OF ko i] by (simp add: key)
qed (use bo in auto)

lemma busy_step_bmod:
  assumes "busy s i" "B_BUSY \<in> b_flags (f (bufs s (Buf i)))" "\<And>b. b_forw (f b) = b_forw b" "\<And>b. b_back (f b) = b_back b"
  shows "busy_step i s (bmod (Buf i) f s)"
  using assms by (simp add: busy_step_def upd_buf_def same_devs_def avf_def avb_def)

lemma busy_step_log:
  "busy s i \<Longrightarrow> busy_step i s (log_wakeup c s)"
  by (simp add: busy_step_def upd_buf_def same_devs_def avf_def avb_def fw_def bk_def fun_eq_iff)

lemma upd_buf_trans:
  assumes "upd_buf i s t" "upd_buf i t v" "bdev v i = bdev t i" "bno v i = bno t i"
  shows "upd_buf i s v"
  using assms by (auto simp: upd_buf_def same_devs_simps same_block_def dest: same_devs_trans)

lemma busy_step_trans:
  assumes "busy_step i s t" "busy_step i t v" "bdev v i = bdev t i" "bno v i = bno t i"
  shows "busy_step i s v"
  using assms upd_buf_trans [of i s t v] by (auto simp: busy_step_def)

section \<open>The driver\<close>

lemma md_write_same: "length bs = 512 \<Longrightarrow> on_disk (md_write dev (b * 512) bs s) dev b = bs"
  by (auto simp: on_disk_def md_range_def md_write_def intro!: nth_equalityI)

lemma md_write_dev: "d \<noteq> dev \<Longrightarrow> on_disk (md_write dev x bs s) d c = on_disk s d c"
  by (auto simp: on_disk_def md_range_def md_write_def)

lemma md_write_other:
  assumes "length bs = 512" "c \<noteq> b"
  shows "on_disk (md_write dev (b * 512) bs s) dev c = on_disk s dev c"
  using assms by (auto simp: on_disk_def md_range_def md_write_def)

lemma md_write_simps [simp]:
  "bufs (md_write dev x bs s) = bufs s" "buffers (md_write dev x bs s) = buffers s"
  "mdsz (md_write dev x bs s) = mdsz s" "d_tab (md_write dev x bs s) = d_tab s"
  "nblkdev (md_write dev x bs s) = nblkdev s" "u (md_write dev x bs s) = u s" "klog (md_write dev x bs s) = klog s"
  by (simp_all add: md_write_def)

text \<open>The transfer of one cached block: what the driver does before \<^verbatim>\<open>iodone\<close>.\<close>

definition md_io :: "nat \<Rightarrow> 'a bst_scheme \<Rightarrow> 'a bst_scheme" where
  "md_io i s = bmod (Buf i) (\<lambda>b. b\<lparr>b_resid := 0\<rparr>)
     (if B_READ \<in> flags s i
      then (bmod (Buf i) (\<lambda>b. b\<lparr>av_forw := NULLB\<rparr>) s)\<lparr>buffers := (buffers s)(i := on_disk s (bdev s i) (bno s i))\<rparr>
      else md_write (bdev s i) (bno s i * 512) (buffers s i) (bmod (Buf i) (\<lambda>b. b\<lparr>av_forw := NULLB\<rparr>) s))"

lemma mdstrategy_in_range:
  assumes tb: "tabs_ok s" and a: "b_addr (bufs s (Buf i)) = Abuf i" "length (buffers s i) = 512"
    and n: "b_bcount (bufs s (Buf i)) = 512" and r: "in_range s (bdev s i) (bno s i)"
  shows "mdstrategy (Buf i) s = iodone (Buf i) (md_io i s)"
proof -
  have m: "0 \<le> mdsz s (bdev s i)" "mdsz s (bdev s i) < 4194304" using tb by (auto simp: tabs_ok_def)
  have b: "0 \<le> bno s i" "bno s i < mdsz s (bdev s i)" using r by (auto simp: in_range_def)
  have "cint (bno s i * 512) = bno s i * 512" "cuint (bno s i + 1) = bno s i + 1"
    "cuint (mdsz s (bdev s i)) = mdsz s (bdev s i)"
    using m b by (auto intro!: cint_id cuint_id)
  then show ?thesis
    using a n b by (simp add: mdstrategy_def md_io_def Let_def store_def load_def on_disk_def)
qed

lemma md_io_simps:
  "bufs (md_io i s) = (bufs s)(Buf i := (bufs s (Buf i))\<lparr>av_forw := NULLB, b_resid := 0\<rparr>)"
  "buffers (md_io i s) = (if B_READ \<in> flags s i then (buffers s)(i := on_disk s (bdev s i) (bno s i)) else buffers s)"
  "same_devs s (md_io i s)" "u (md_io i s) = u s"
  by (auto simp: md_io_def same_devs_def)

lemma md_io_disk:
  assumes "length (buffers s i) = 512"
  shows "on_disk (md_io i s) d b =
    (if B_READ \<notin> flags s i \<and> same_block d b (bufs s (Buf i)) then buffers s i else on_disk s d b)"
proof (cases "B_READ \<in> flags s i")
  case True
  then show ?thesis by (simp add: md_io_def)
next
  case False
  then show ?thesis
    by (cases "d = bdev s i"; cases "b = bno s i")
      (simp_all add: md_io_def same_block_def md_write_same [OF assms] md_write_other [OF assms] md_write_dev)
qed

lemma md_io_step:
  assumes "busy s i" "length (buffers s i) = 512"
  shows "busy_step i s (md_io i s)"
  using assms md_io_disk [OF assms(2)]
  by (auto simp: busy_step_def upd_buf_def md_io_simps avf_def avb_def fw_def bk_def fun_eq_iff same_block_def)

section \<open>Writing\<close>

lemma busy_step_stat: "busy s i \<Longrightarrow> busy_step i s (s\<lparr>nwrite := n\<rparr>)"
  by (simp add: busy_step_def upd_buf_def same_devs_def)

text \<open>The state in which \<^verbatim>\<open>bwrite\<close> calls the driver, and the state after the transfer.\<close>

definition wr_start :: "nat \<Rightarrow> 'a bst_scheme \<Rightarrow> 'a bst_scheme" where
  "wr_start i s =
     (let s = bmod (Buf i) (\<lambda>b. b\<lparr>b_bcount := BSIZE\<rparr>) (bflag_clr (Buf i) {B_READ, B_DONE, B_ERROR, B_DELWRI, B_AGE} s)
      in s\<lparr>nwrite := nwrite s + 1\<rparr>)"

definition wr_done :: "nat \<Rightarrow> 'a bst_scheme \<Rightarrow> 'a bst_scheme" where
  "wr_done i s = bflag_set (Buf i) {B_DONE} (md_io i (wr_start i s))"

lemma wr_done_pl:
  "flags (wr_done i s) i = flags s i - {B_READ, B_ERROR, B_DELWRI, B_AGE} \<union> {B_DONE}"
  "bdev (wr_done i s) i = bdev s i" "bno (wr_done i s) i = bno s i" "buffers (wr_done i s) = buffers s"
  "b_addr (bufs (wr_done i s) (Buf i)) = b_addr (bufs s (Buf i))" "u (wr_done i s) = u s"
  by (auto simp: wr_done_def wr_start_def md_io_simps Let_def)

lemma wr_start_step: "busy s i \<Longrightarrow> busy_step i s (wr_start i s)"
  by (simp add: wr_start_def Let_def busy_step_def upd_buf_def same_devs_def avf_def avb_def fun_eq_iff)

lemma wr_start_pl:
  "flags (wr_start i s) i = flags s i - {B_READ, B_DONE, B_ERROR, B_DELWRI, B_AGE}"
  "bdev (wr_start i s) i = bdev s i" "bno (wr_start i s) i = bno s i" "buffers (wr_start i s) = buffers s"
  "b_addr (bufs (wr_start i s) (Buf i)) = b_addr (bufs s (Buf i))" "b_bcount (bufs (wr_start i s) (Buf i)) = 512"
  "u (wr_start i s) = u s" "tabs_ok s \<Longrightarrow> tabs_ok (wr_start i s)"
  using tabs_ok_upd [of i s "wr_start i s"]
  by (auto simp: wr_start_def Let_def BSIZE_def upd_buf_def same_devs_def)

lemma wr_done_step:
  assumes "busy s i" "length (buffers s i) = 512"
  shows "busy_step i s (wr_done i s)" "on_disk (wr_done i s) (bdev s i) (bno s i) = buffers s i"
proof -
  let ?a = "wr_start i s" let ?b = "md_io i ?a"
  have a: "busy_step i s ?a" by (rule wr_start_step [OF assms(1)])
  then have b: "busy_step i ?a ?b" using assms by (intro md_io_step) (simp_all add: wr_start_pl)
  have "busy ?b i" using b by (simp add: busy_step_def)
  then have c: "busy_step i ?b (wr_done i s)"
    unfolding wr_done_def bflag_set_def by (intro busy_step_bmod) auto
  have "busy_step i s ?b" by (rule busy_step_trans [OF a b]) (simp_all add: md_io_simps)
  from busy_step_trans [OF this c] show "busy_step i s (wr_done i s)" by (simp add: wr_done_def)
  have "on_disk (wr_done i s) = on_disk ?b" by (simp add: wr_done_def bflag_set_def)
  then show "on_disk (wr_done i s) (bdev s i) (bno s i) = buffers s i"
    using md_io_disk [of ?a i "bdev s i" "bno s i"] assms(2) by (simp add: wr_start_pl same_block_def)
qed

lemma wr_done_ok:
  assumes rep: "bio_rep s al dl" and i: "i < NBUF" "busy s i"
  shows "bio_rep (wr_done i s) al dl" "clean (wr_done i s) i" "upd_buf i s (wr_done i s)"
proof -
  have bo: "buf_ok s i" using rep i by (simp add: bio_rep_def)
  then have len: "length (buffers s i) = 512" by (simp add: buf_ok_def)
  note st = wr_done_step [OF i(2) len]
  show "upd_buf i s (wr_done i s)" using st(1) by (simp add: busy_step_def)
  show "clean (wr_done i s) i" using st(2) by (simp add: clean_def wr_done_pl)
  have "buf_ok (wr_done i s) i" using bo i st(2) by (auto simp: buf_ok_def wr_done_pl)
  then show "bio_rep (wr_done i s) al dl"
    by (intro busy_step_ok [OF rep st(1) i(1)]) (simp_all add: wr_done_pl)
qed

end
