(* ===== verification/Bio_Ops.thy ===== *)
theory Bio_Ops
  imports Bio_Inv
begin

text \<open>
  The operations of the buffer cache as a client sees them: \<^verbatim>\<open>getblk\<close>, \<^verbatim>\<open>bread\<close>, \<^verbatim>\<open>breada\<close>,
  the three ways of writing, \<^verbatim>\<open>brelse\<close> and \<^verbatim>\<open>bflush\<close>, each against the invariant and the logical
  content of the blocks of \<open>Bio_Inv\<close>.
\<close>

declare dscan.simps [simp del] dcount.simps [simp del]

section \<open>Writing a buffer out\<close>

text \<open>The content after buffer \<open>i\<close> of \<open>s\<close> has been written: its block holds its data.\<close>

definition written :: "nat \<Rightarrow> 'a bst_scheme \<Rightarrow> 'a bst_scheme \<Rightarrow> bool" where
  "written i s t \<longleftrightarrow> same_devs s t \<and>
     (\<forall>d b. d \<noteq> NODEV \<longrightarrow> in_range s d b \<longrightarrow>
        lcont t d b = (if same_block d b (bufs s (Buf i)) then buffers s i else lcont s d b))"

lemma written_of_upd:
  assumes rep: "bio_rep t al dl" and ub: "upd_buf i s t" and i: "i < NBUF"
    and key: "bdev t i = bdev s i" "bno t i = bno s i" and bf: "buffers t i = buffers s i" and dn: "B_DONE \<in> flags t i"
  shows "written i s t"
proof -
  have ko: "keys_ok t dl" using rep by (simp add: bio_rep_def)
  have "lcont t d b = (if same_block d b (bufs s (Buf i)) then buffers s i else lcont s d b)"
    if "d \<noteq> NODEV" "in_range s d b" for d b
  proof (cases "same_block d b (bufs s (Buf i))")
    case True
    with key dn have "caches t d b i" by (simp add: caches_def same_block_def)
    with lcont_cached [OF ko that(1) i] True bf show ?thesis by simp
  next
    case False
    with key have "\<not> same_block d b (bufs t (Buf i))" by (simp add: same_block_def)
    with lcont_upd [OF ub that(2) False] False show ?thesis by simp
  qed
  with ub show ?thesis by (simp add: written_def upd_buf_def)
qed

lemma flag_idle_ok:
  assumes rep: "bio_rep s al dl" and i: "i < NBUF" "\<not> busy s i"
  shows "bio_rep (bflag_set (Buf i) {B_AGE} s) al dl" "upd_buf i s (bflag_set (Buf i) {B_AGE} s)"
proof -
  let ?t = "bflag_set (Buf i) {B_AGE} s"
  have li: "lists_ok s al dl" and ko: "keys_ok s dl" and bo: "buf_ok s i" using rep i by (auto simp: bio_rep_def)
  show ub: "upd_buf i s ?t" by (simp add: upd_buf_def same_devs_def)
  have "busy ?t j = busy s j" for j by (cases "j = i") auto
  moreover have "heads ?t = heads s" by (simp add: heads_def)
  ultimately have lt: "lists_ok ?t al dl" using li by (simp add: lists_ok_def)
  have key: "bdev ?t i = bdev s i" "bno ?t i = bno s i" by simp_all
  have bt: "buf_ok ?t i" using bo i by (simp add: buf_ok_def)
  have kt: "key_ok s dl i (bdev ?t i) (bno ?t i)" unfolding key by (rule key_ok_self [OF ko i(1)])
  show "bio_rep ?t al dl" by (rule bio_rep_upd [OF rep ub lt kt _ bt]) blast
qed

definition wr_out :: "nat \<Rightarrow> 'a bst_scheme \<Rightarrow> 'a bst_scheme" where
  "wr_out i s =
     (if B_ASYNC \<notin> flags s i then
        brelse (Buf i) (log_wakeup (Ch_buf (Buf i)) (bflag_clr (Buf i) {B_WANTED} (wr_done i s)))
      else if B_DELWRI \<in> flags s i then bflag_set (Buf i) {B_AGE} (brelse (Buf i) (wr_done i s))
      else brelse (Buf i) (wr_done i s))"

lemma geterror_id: "B_ERROR \<notin> b_flags (bufs s bp) \<Longrightarrow> geterror bp s = s"
  by (simp add: geterror_def)

lemma bwrite_eq:
  assumes rep: "bio_rep s al dl" and i: "i < NBUF" "busy s i"
    and r: "in_range s (bdev s i) (bno s i)"
  shows "bwrite (Buf i) s = Ok () (wr_out i s)"
proof -
  have bo: "buf_ok s i" and tb: "tabs_ok s" using rep i by (auto simp: bio_rep_def)
  have "in_range (wr_start i s) = in_range s" by (simp add: wr_start_def Let_def)
  then have md: "mdstrategy (Buf i) (wr_start i s) = iodone (Buf i) (md_io i (wr_start i s))"
    using bo tb r by (intro mdstrategy_in_range) (simp_all add: wr_start_pl buf_ok_def)
  have io: "iodone (Buf i) (md_io i (wr_start i s)) =
      (if B_ASYNC \<in> flags s i then brelse (Buf i) (wr_done i s)
       else log_wakeup (Ch_buf (Buf i)) (bflag_clr (Buf i) {B_WANTED} (wr_done i s)))"
    using wr_done_pl(1) [of i s] by (auto simp: iodone_def Let_def wr_done_def)
  have w: "bwrite (Buf i) s =
      (let v = iodone (Buf i) (md_io i (wr_start i s))
       in if B_ASYNC \<notin> flags s i then kthen (iowait (Buf i)) (kmod (brelse (Buf i))) v
          else if B_DELWRI \<in> flags s i then Ok () (bflag_set (Buf i) {B_AGE} v)
          else Ok () (geterror (Buf i) v))"
    unfolding bwrite_def using md by (simp add: Let_def wr_start_def)
  have dn: "B_DONE \<in> flags (wr_done i s) i" "B_ERROR \<notin> flags (wr_done i s) i" by (simp_all add: wr_done_pl)
  show ?thesis
  proof (cases "B_ASYNC \<in> flags s i")
    case False
    with w io dn show ?thesis
      by (simp add: wr_out_def Let_def kthen_def kbind_def kmod_def iowait_def geterror_id)
  next
    case True
    note wd = wr_done_ok [OF rep i]
    have "busy (wr_done i s) i" using i by (simp add: wr_done_pl)
    from brelse_ok(5) [OF wd(1) i(1) this wd(2)] have "B_ERROR \<notin> flags (brelse (Buf i) (wr_done i s)) i"
      using dn by (auto simp: pl_def released_def)
    with True w io show ?thesis by (simp add: wr_out_def Let_def geterror_id)
  qed
qed

lemma wr_out_ok:
  assumes rep: "bio_rep s al dl" and i: "i < NBUF" "busy s i"
  shows "bio_rep (wr_out i s) (al @ [Buf i]) dl" "written i s (wr_out i s)" "upd_buf i s (wr_out i s)"
    "\<not> busy (wr_out i s) i" "B_DELWRI \<notin> flags (wr_out i s) i" "u (wr_out i s) = u s"
    "buffers (wr_out i s) = buffers s" "bdev (wr_out i s) i = bdev s i" "bno (wr_out i s) i = bno s i"
proof -
  note wd = wr_done_ok [OF rep i]
  let ?d = "wr_done i s" let ?l = "log_wakeup (Ch_buf (Buf i)) (bflag_clr (Buf i) {B_WANTED} ?d)"
  let ?v = "if B_ASYNC \<notin> flags s i then ?l else ?d"
  have bd: "busy ?d i" using i by (simp add: wr_done_pl)
  have st: "busy_step i ?d ?l"
    using bd by (simp add: busy_step_def upd_buf_def same_devs_def avf_def avb_def fw_def bk_def fun_eq_iff)
  have "buf_ok ?d i" using wd(1) i by (simp add: bio_rep_def)
  then have "buf_ok ?l i" using bd by (simp add: buf_ok_def)
  then have "bio_rep ?l al dl" by (intro busy_step_ok [OF wd(1) st i(1)]) simp_all
  then have rv: "bio_rep ?v al dl" and bv: "busy ?v i" and cv: "clean ?v i"
    using wd bd by (auto simp: clean_def)
  have uv: "upd_buf i s ?v"
    using upd_buf_trans [OF wd(3), of ?l] st wd(3) by (simp add: busy_step_def)
  note br = brelse_ok [OF rv i(1) bv cv]
  let ?r = "brelse (Buf i) ?v"
  have fl: "flags ?r i = flags ?v i - {B_WANTED, B_BUSY, B_ASYNC, B_AGE}" "bdev ?r i = bdev ?v i" "bno ?r i = bno ?v i"
    using br(5) by (simp_all add: pl_def released_def wr_done_pl)
  have vk: "bdev ?v i = bdev s i" "bno ?v i = bno s i" "B_AGE \<notin> flags ?v i" "B_DONE \<in> flags ?v i"
    "B_DELWRI \<notin> flags ?v i" "buffers ?v = buffers s" "u ?v = u s"
    by (simp_all add: wr_done_pl)
  have rr: "bio_rep ?r (al @ [Buf i]) dl" using br(1) vk(3) by simp
  have rk: "bdev ?r i = bdev s i" "bno ?r i = bno s i" "\<not> busy ?r i" "B_DONE \<in> flags ?r i" "B_DELWRI \<notin> flags ?r i"
    "buffers ?r = buffers s" "u ?r = u s"
    using br(4) fl vk by (simp_all add: same_data_def)
  have ur: "upd_buf i s ?r" using upd_buf_trans [OF uv br(3)] fl by simp
  define r c where "r = ?r" and "c \<longleftrightarrow> B_ASYNC \<in> flags s i \<and> B_DELWRI \<in> flags s i"
  have o: "wr_out i s = (if c then bflag_set (Buf i) {B_AGE} r else r)"
    by (simp add: wr_out_def r_def c_def)
  have rr: "bio_rep r (al @ [Buf i]) dl" and ur: "upd_buf i s r" using rr ur by (simp_all add: r_def)
  have rk: "bdev r i = bdev s i" "bno r i = bno s i" "\<not> busy r i" "B_DONE \<in> flags r i" "B_DELWRI \<notin> flags r i"
    "buffers r = buffers s" "u r = u s" unfolding r_def using rk by blast+
  note fi = flag_idle_ok [OF rr i(1) rk(3)]
  have ua: "upd_buf i s (bflag_set (Buf i) {B_AGE} r)" using upd_buf_trans [OF ur fi(2)] by simp
  show rep': "bio_rep (wr_out i s) (al @ [Buf i]) dl" and u': "upd_buf i s (wr_out i s)"
    using rr ur fi(1) ua by (cases c; simp add: o)+
  show nb: "\<not> busy (wr_out i s) i" "B_DELWRI \<notin> flags (wr_out i s) i" "u (wr_out i s) = u s"
    "buffers (wr_out i s) = buffers s" "bdev (wr_out i s) i = bdev s i" "bno (wr_out i s) i = bno s i"
    using rk by (cases c; simp add: o)+
  have "B_DONE \<in> flags (wr_out i s) i" using rk(4) by (cases c; simp add: o)
  then show "written i s (wr_out i s)" by (intro written_of_upd [OF rep' u' i(1)]) (simp_all only: nb)
qed

section \<open>What the buffer code leaves alone\<close>

text \<open>The user structure, the process table, memory, and the tables of the components above.\<close>

definition bframe :: "'a bst_scheme \<Rightarrow> 'a bst_scheme \<Rightarrow> bool" where
  "bframe s t \<longleftrightarrow> bst.more t = bst.more s \<and> u t = u s \<and> proc t = proc s \<and> time t = time s \<and>
     umem t = umem s \<and> core t = core s"

lemma bframe_refl [simp]: "bframe s s" by (simp add: bframe_def)
lemma bframe_trans: "bframe s t \<Longrightarrow> bframe t v \<Longrightarrow> bframe s v" by (simp add: bframe_def)

lemma bframe_prim [kframe]:
  "bframe s (bmod p f t) = bframe s t" "bframe s (bflag_set p fs t) = bframe s t"
  "bframe s (bflag_clr p fs t) = bframe s t" "bframe s (log_wakeup c t) = bframe s t"
  "bframe s (md_write d x bs t) = bframe s t" "bframe s (t\<lparr>buffers := v\<rparr>) = bframe s t"
  "bframe s (t\<lparr>nwrite := n\<rparr>) = bframe s t" "bframe s (t\<lparr>nread := n\<rparr>) = bframe s t"
  "bframe s (t\<lparr>nreada := n\<rparr>) = bframe s t" "bframe s (t\<lparr>ncache := n\<rparr>) = bframe s t"
  "bframe s (t\<lparr>bufcount := c'\<rparr>) = bframe s t"
  by (simp_all add: bframe_def bmod_def bflag_set_def bflag_clr_def log_wakeup_def md_write_def)

lemma bframe_ops [kframe]:
  "bframe s (notavail bp t) = bframe s t" "bframe s (brelse bp t) = bframe s t"
  "bframe s (relink bp dp t) = bframe s t" "bframe s (md_io i t) = bframe s t"
  by (simp_all add: notavail_def brelse_def relink_def md_io_def Let_def kframe)

lemma bframe_wr_out [kframe]: "bframe s (wr_out i t) = bframe s t"
  by (simp add: wr_out_def wr_done_def wr_start_def Let_def kframe)

text \<open>Buffers that are busy keep their header and data when somebody else works on the cache.\<close>

definition keeps_busy :: "'a bst_scheme \<Rightarrow> 'a bst_scheme \<Rightarrow> bool" where
  "keeps_busy s t \<longleftrightarrow> (\<forall>j<NBUF. busy s j \<longrightarrow> pl (bufs t (Buf j)) = pl (bufs s (Buf j)) \<and> buffers t j = buffers s j \<and>
     (bdev s j \<noteq> NODEV \<longrightarrow> on_disk t (bdev s j) (bno s j) = on_disk s (bdev s j) (bno s j)))"

lemma keeps_busy_upd:
  assumes "upd_buf i s t" "\<not> busy s i" "i < NBUF" "keys_ok t dl"
  shows "keeps_busy s t"
proof -
  have "\<not> same_block (bdev s j) (bno s j) (bufs t (Buf i))" if "j < NBUF" "busy s j" "bdev s j \<noteq> NODEV" for j
  proof -
    have ne: "j \<noteq> i" using that assms(2) by auto
    then have "bdev t j = bdev s j" "bno t j = bno s j" using assms(1) by (auto simp: upd_buf_def pl_eq)
    with assms(3,4) that ne show ?thesis unfolding keys_ok_def same_block_def by metis
  qed
  moreover have "j \<noteq> i" if "busy s j" for j using that assms(2) by auto
  ultimately show ?thesis using assms(1) by (simp add: keeps_busy_def upd_buf_def)
qed

lemma upd_busy: "upd_buf i s t \<Longrightarrow> busy t i \<Longrightarrow> busy t j \<longleftrightarrow> j = i \<or> busy s j"
  by (cases "j = i") (auto simp: upd_buf_def pl_eq)

lemma keeps_busy_refl [simp]: "keeps_busy s s" by (simp add: keeps_busy_def)

lemma keeps_busy_trans: "keeps_busy s t \<Longrightarrow> keeps_busy t v \<Longrightarrow> keeps_busy s v"
  unfolding keeps_busy_def pl_eq by (metis (no_types, lifting))

section \<open>Getting a buffer\<close>

definition ndel :: "'a bst_scheme \<Rightarrow> nat" where
  "ndel s = card {i. i < NBUF \<and> B_DELWRI \<in> flags s i}"

lemma ndel_bound: "ndel s \<le> NBUF"
  unfolding ndel_def by (rule order_trans [OF card_mono [of "{..<NBUF}"]]) auto

lemma ndel_less:
  assumes "i < NBUF" "B_DELWRI \<in> flags s i" "B_DELWRI \<notin> flags t i" "\<And>j. j \<noteq> i \<Longrightarrow> flags t j = flags s j"
  shows "ndel t < ndel s"
  unfolding ndel_def using assms by (intro psubset_card_mono) (auto, metis)

text \<open>
  One turn of the loop that writes out a delayed-write buffer: it is taken off the
  available list and written, and the content does not change.
\<close>

definition evict :: "nat \<Rightarrow> 'a bst_scheme \<Rightarrow> 'a bst_scheme" where
  "evict i s = wr_out i (bflag_set (Buf i) {B_ASYNC} (notavail (Buf i) s))"

lemma flag_busy_ok:
  assumes rep: "bio_rep s al dl" and i: "i < NBUF" "busy s i" and F: "F \<subseteq> {B_ASYNC, B_WANTED, B_READ, B_AGE}"
  shows "bio_rep (bflag_set (Buf i) F s) al dl" "busy_step i s (bflag_set (Buf i) F s)"
proof -
  let ?t = "bflag_set (Buf i) F s"
  show st: "busy_step i s ?t" unfolding bflag_set_def by (rule busy_step_bmod) (use i in auto)
  have "buf_ok s i" using rep i by (simp add: bio_rep_def)
  then have "buf_ok ?t i" using i F unfolding buf_ok_def by auto
  then show "bio_rep ?t al dl" by (intro busy_step_ok [OF rep st i(1)]) auto
qed

lemma evict_ok:
  assumes rep: "bio_rep s (xs @ Buf i # ys) dl" and dw: "B_DELWRI \<in> flags s i"
  shows "bwrite (Buf i) (bflag_set (Buf i) {B_ASYNC} (notavail (Buf i) s)) = Ok () (evict i s)"
    "bio_rep (evict i s) (xs @ ys @ [Buf i]) dl" "keeps_content s (evict i s)" "keeps_busy s (evict i s)"
    "ndel (evict i s) < ndel s" "bframe s (evict i s)" "B_DELWRI \<notin> flags (evict i s) i"
proof -
  let ?n = "notavail (Buf i) s" let ?a = "bflag_set (Buf i) {B_ASYNC} ?n"
  have li: "lists_ok s (xs @ Buf i # ys) dl" using rep by (simp add: bio_rep_def)
  have i: "i < NBUF" "\<not> busy s i" using avail_mem [OF li, of "Buf i"] by auto
  note na = notavail_ok [OF rep]
  have d: "dll (avf s) (avb s) Bfreelist (xs @ Buf i # ys)" using li by (simp add: lists_ok_def)
  note sm = notavail_summary [OF avb_ne(1) [OF d], of "Buf i", simplified]
  have pli: "flags ?n i = flags s i \<union> {B_BUSY}" "bdev ?n i = bdev s i" "bno ?n i = bno s i"
    using sm(6) [of "Buf i"] by (simp_all add: pl_def)
  have bn: "busy ?n i" by (simp add: pli)
  have ra: "bio_rep ?a (xs @ ys) dl" and sa: "busy_step i ?n ?a" using flag_busy_ok [OF na(1) i(1) bn, of "{B_ASYNC}"] by auto
  have ba: "busy ?a i" using bn by simp
  have bo: "buf_ok s i" using rep i by (simp add: bio_rep_def)
  then have dev: "bdev s i \<noteq> NODEV" "in_range s (bdev s i) (bno s i)" "B_DONE \<in> flags s i" using dw by (auto simp: buf_ok_def)
  have sd: "same_devs s ?n" using sm(5) by (simp add: same_data_def)
  have r: "in_range ?a (bdev ?a i) (bno ?a i)" using dev sd by (simp add: pli same_devs_simps)
  show "bwrite (Buf i) ?a = Ok () (evict i s)" unfolding evict_def by (rule bwrite_eq [OF ra i(1) ba r])
  note w = wr_out_ok [OF ra i(1) ba]
  show "bio_rep (evict i s) (xs @ ys @ [Buf i]) dl" using w(1) by (simp add: evict_def)
  have un: "upd_buf i s ?a"
    using upd_buf_trans [OF na(3), of ?a] sa by (simp add: busy_step_def)
  have ue: "upd_buf i s (evict i s)"
    unfolding evict_def by (rule upd_buf_trans [OF un w(3) w(8,9)])
  have "keys_ok (evict i s) dl" using w(1) by (simp add: evict_def bio_rep_def)
  then show "keeps_busy s (evict i s)" by (rule keeps_busy_upd [OF ue i(2,1)])
  show dn: "B_DELWRI \<notin> flags (evict i s) i" using w(5) by (simp add: evict_def)
  show "ndel (evict i s) < ndel s"
    by (rule ndel_less [OF i(1) dw dn]) (use ue in \<open>auto simp: upd_buf_def pl_eq\<close>)
  show "bframe s (evict i s)" by (simp add: evict_def kframe)
  have ba': "buffers ?a i = buffers s i" using sm(5) by (simp add: same_data_def)
  have ko: "keys_ok s dl" using rep by (simp add: bio_rep_def)
  have lc: "lcont s (bdev s i) (bno s i) = buffers s i"
    using lcont_cached [OF ko dev(1) i(1)] dev(3) by (simp add: caches_def same_block_def)
  have "lcont (evict i s) d b = lcont s d b" if "d \<noteq> NODEV" "in_range s d b" for d b
  proof (cases "same_block d b (bufs s (Buf i))")
    case True
    have "lcont (evict i s) d b = buffers ?a i"
      using w(2) that True sd unfolding written_def evict_def
      by (simp add: same_block_def pli same_devs_simps)
    with True lc ba' show ?thesis by (auto simp: same_block_def)
  next
    case False
    have "bdev (evict i s) i = bdev s i" "bno (evict i s) i = bno s i" using w(8,9) pli by (simp_all add: evict_def)
    with lcont_upd [OF ue that(2) False] False show ?thesis by (simp add: same_block_def)
  qed
  with ue show "keeps_content s (evict i s)" by (simp add: keeps_content_def upd_buf_def)
qed

lemma bufcount_caches [simp]: "caches (s\<lparr>bufcount := c\<rparr>) = caches s"
  by (simp add: caches_def fun_eq_iff)

lemma bufcount_rep [simp]:
  "bio_rep (s\<lparr>bufcount := c\<rparr>) al dl = bio_rep s al dl" "lcont (s\<lparr>bufcount := c\<rparr>) d b = lcont s d b"
  "same_devs s (t\<lparr>bufcount := c\<rparr>) = same_devs s t"
  by (simp_all add: bio_rep_def tabs_ok_def heads_def lists_ok_def keys_ok_def dev_ok_def buf_ok_def
      lcont_def same_devs_def split: option.split)

lemma list_length: "lists_ok s al dl \<Longrightarrow> h \<in> heads s \<Longrightarrow> length (dl h) \<le> NBUF"
proof -
  assume li: "lists_ok s al dl" and h: "h \<in> heads s"
  then have "distinct (dl h)" "set (dl h) \<subseteq> Buf ` {..<NBUF}" by (auto simp: lists_ok_def dlls_def dll_def)
  then have "length (dl h) \<le> card (Buf ` {..<NBUF})" by (metis distinct_card card_mono finite_imageI finite_lessThan)
  also have "\<dots> \<le> NBUF" using card_image_le [of "{..<NBUF}" Buf] by simp
  finally show ?thesis .
qed

lemma avail_length: "lists_ok s al dl \<Longrightarrow> length al \<le> NBUF"
proof -
  assume li: "lists_ok s al dl"
  then have "distinct al" "set al \<subseteq> Buf ` {..<NBUF}"
    by (auto simp: lists_ok_def dll_def)
  then have "length al \<le> card (Buf ` {..<NBUF})" by (metis distinct_card card_mono finite_imageI finite_lessThan)
  also have "\<dots> \<le> NBUF" using card_image_le [of "{..<NBUF}" Buf] by simp
  finally show ?thesis .
qed

lemma dev_scan:
  assumes "lists_ok s al dl" "h \<in> heads s"
  shows "dscan (NBUF + 1) (\<lambda>p. b_forw (bufs s p)) h P (b_forw (bufs s h)) = Some (find P (dl h))"
proof -
  have "dll (fw s) (bk s) h (dl h)" using assms by (simp add: lists_ok_def dlls_def)
  from dll_scan [OF this, of "NBUF + 1" P] list_length [OF assms] show ?thesis by (simp add: fw_def [abs_def])
qed

lemma avail_scan:
  assumes "lists_ok s al dl"
  shows "dscan (NBUF + 1) (\<lambda>p. av_forw (bufs s p)) Bfreelist P (av_forw (bufs s Bfreelist)) = Some (find P al)"
proof -
  have "dll (avf s) (avb s) Bfreelist al" using assms by (simp add: lists_ok_def)
  from dll_scan [OF this, of "NBUF + 1" P] avail_length [OF assms] show ?thesis by (simp add: avf_def [abs_def])
qed

lemma count_hit_ok:
  assumes "bio_rep s (xs @ Buf i # ys) dl"
  shows "\<exists>c. count_hit (Buf i) s = Some (s\<lparr>bufcount := c\<rparr>)"
proof -
  have li: "lists_ok s (xs @ Buf i # ys) dl" using assms by (simp add: bio_rep_def)
  have d: "dll (avf s) (avb s) Bfreelist (xs @ Buf i # ys)" using li by (simp add: lists_ok_def)
  have "length ys < NBUF" using avail_length [OF li] by simp
  with dll_count [OF d, of "NBUF + 1"]
  have "dcount (NBUF + 1) (\<lambda>p. av_forw (bufs s p)) Bfreelist (av_forw (bufs s (Buf i))) = Some (length ys)"
    by (simp add: avf_def [abs_def])
  with \<open>length ys < NBUF\<close> have "count_hit (Buf i) s = Some (s\<lparr>bufcount := (bufcount s)(length ys := bufcount s (length ys) + 1)\<rparr>)"
    by (simp add: count_hit_def)
  then show ?thesis by blast
qed

lemma find_block:
  assumes rep: "bio_rep s al dl" and dev: "dev_ok s dev"
  shows "case find (\<lambda>p. same_block dev b (bufs s p)) (dl (dtab dev s)) of
      Some bp \<Rightarrow> \<exists>i<NBUF. bp = Buf i \<and> same_block dev b (bufs s (Buf i))
    | None \<Rightarrow> \<forall>i<NBUF. \<not> same_block dev b (bufs s (Buf i))"
proof (cases "find (\<lambda>p. same_block dev b (bufs s p)) (dl (dtab dev s))")
  case None
  have "keys_ok s dl" using rep by (simp add: bio_rep_def)
  then have "Buf i \<in> set (dl (dtab dev s))" if "i < NBUF" "same_block dev b (bufs s (Buf i))" for i
    using that dev by (auto simp: keys_ok_def same_block_def dev_ok_def)
  then have "\<forall>i<NBUF. \<not> same_block dev b (bufs s (Buf i))" using None unfolding find_None_iff by blast
  with None show ?thesis by simp
next
  case (Some bp)
  then have "bp \<in> set (dl (dtab dev s))" "same_block dev b (bufs s bp)" by (auto simp: find_Some_iff)
  moreover have "set (dl (dtab dev s)) \<subseteq> Buf ` {..<NBUF}"
    using rep dtab_in_heads [OF dev] by (auto simp: bio_rep_def lists_ok_def)
  ultimately show ?thesis using Some by auto
qed

text \<open>The result of \<^verbatim>\<open>getblk\<close> and \<^verbatim>\<open>bread\<close>: a buffer that was free and now is held by the caller.\<close>

definition held :: "'a bst_scheme \<Rightarrow> int \<Rightarrow> int \<Rightarrow> bptr \<Rightarrow> 'a bst_scheme \<Rightarrow> bool" where
  "held s dev b bp t \<longleftrightarrow> (\<exists>i<NBUF. bp = Buf i \<and> \<not> busy s i \<and> (\<forall>j<NBUF. busy t j \<longleftrightarrow> j = i \<or> busy s j) \<and>
     same_block dev b (bufs t (Buf i)) \<and> B_ASYNC \<notin> flags t i \<and> clean t i \<and>
     bio_inv t \<and> keeps_content s t \<and> keeps_busy s t)"

text \<open>
  Going to sleep in \<^verbatim>\<open>getblk\<close>: on the busy buffer of that block, or on the available list when
  it is empty; in both cases the object slept on is marked wanted.
\<close>

definition must_wait :: "'a bst_scheme \<Rightarrow> int \<Rightarrow> int \<Rightarrow> chan \<Rightarrow> 'a bst_scheme \<Rightarrow> bool" where
  "must_wait s dev b c t \<longleftrightarrow> bio_inv t \<and> keeps_content s t \<and> bframe s t \<and>
     ((\<exists>i<NBUF. c = Ch_buf (Buf i) \<and> busy s i \<and> busy t i \<and> same_block dev b (bufs s (Buf i)) \<and> B_WANTED \<in> flags t i) \<or>
      (c = Ch_buf Bfreelist \<and> (\<forall>i<NBUF. busy s i) \<and> (\<forall>i<NBUF. busy t i) \<and> B_WANTED \<in> b_flags (bufs t Bfreelist)))"

lemma bio_invI: "bio_rep s al dl \<Longrightarrow> bio_inv s"
  by (auto simp: bio_inv_def)

lemma held_hit:
  assumes rep: "bio_rep s (xs @ Buf i # ys) dl" and key: "same_block dev b (bufs s (Buf i))"
  shows "held s dev b (Buf i) (notavail (Buf i) s)"
proof -
  have li: "lists_ok s (xs @ Buf i # ys) dl" using rep by (simp add: bio_rep_def)
  have i: "i < NBUF" "\<not> busy s i" using avail_mem [OF li, of "Buf i"] by auto
  note na = notavail_ok [OF rep]
  have d: "dll (avf s) (avb s) Bfreelist (xs @ Buf i # ys)" using li by (simp add: lists_ok_def)
  note sm = notavail_summary [OF avb_ne(1) [OF d], of "Buf i", simplified]
  have pli: "flags (notavail (Buf i) s) i = flags s i \<union> {B_BUSY}" "bdev (notavail (Buf i) s) i = bdev s i"
    "bno (notavail (Buf i) s) i = bno s i"
    using sm(6) [of "Buf i"] by (simp_all add: pl_def)
  have bo: "buf_ok s i" using rep i by (simp add: bio_rep_def)
  have kn: "keys_ok (notavail (Buf i) s) dl" using na(1) by (simp add: bio_rep_def)
  have "same_data s (notavail (Buf i) s)" by (rule sm(5))
  then have "clean (notavail (Buf i) s) i"
    using bo i same_data_disk [of s "notavail (Buf i) s"] unfolding clean_def buf_ok_def pli
    by (auto simp: same_data_def same_devs_simps)
  moreover have "B_ASYNC \<notin> flags s i" using bo i by (simp add: buf_ok_def)
  ultimately show ?thesis
    using i na(2) pli key bio_invI [OF na(1)] keeps_busy_upd [OF na(3) i(2,1) kn] upd_busy [OF na(3)]
    by (auto simp: held_def same_block_def)
qed

lemma hd_wanted_ok:
  assumes "bio_rep s al dl"
  shows "bio_rep (bflag_set Bfreelist {B_WANTED} s) al dl" "keeps_content s (bflag_set Bfreelist {B_WANTED} s)"
proof -
  let ?t = "bflag_set Bfreelist {B_WANTED} s"
  show "bio_rep ?t al dl"
    using assms by (auto simp: bio_rep_def tabs_ok_def heads_def lists_ok_def keys_ok_def dev_ok_def buf_ok_def)
  have "lcont ?t d b = lcont s d b" for d b
    by (rule lcont_same) (simp_all add: same_data_def same_devs_def caches_def)
  then show "keeps_content s ?t" by (simp add: keeps_content_def same_devs_def)
qed

lemma upd_bufI:
  assumes "same_devs s t" "\<And>p. p \<noteq> Buf i \<Longrightarrow> pl (bufs t p) = pl (bufs s p)" "\<And>j. j \<noteq> i \<Longrightarrow> buffers t j = buffers s j"
    "\<And>d b. on_disk t d b = on_disk s d b"
  shows "upd_buf i s t"
  using assms(1,3,4) assms(2) [of "Buf _"] pl_eq_fields(1) [OF assms(2)] by (simp add: upd_buf_def)

text \<open>Taking over the oldest available buffer for a new block.\<close>

definition take_over :: "nat \<Rightarrow> bptr \<Rightarrow> (buf \<Rightarrow> buf) \<Rightarrow> 'a bst_scheme \<Rightarrow> 'a bst_scheme" where
  "take_over i dp f s =
     bmod (Buf i) f (relink (Buf i) dp (bmod (Buf i) (\<lambda>b. b\<lparr>b_flags := {B_BUSY}\<rparr>) (notavail (Buf i) s)))"

lemma take_over_ok:
  assumes rep: "bio_rep s (Buf i # ys) dl" and nd: "B_DELWRI \<notin> flags s i" and dp: "dp \<in> heads s"
    and f: "\<And>b. b_flags (f b) = b_flags b \<and> b_addr (f b) = b_addr b \<and> b_forw (f b) = b_forw b \<and>
        b_back (f b) = b_back b \<and> av_forw (f b) = av_forw b \<and> av_back (f b) = av_back b \<and>
        b_dev (f b) = d \<and> (d \<noteq> NODEV \<longrightarrow> b_blkno (f b) = k)"
    and d: "d \<noteq> NODEV \<longrightarrow> dev_ok s d \<and> dp = dtab d s" and new: "\<forall>j<NBUF. \<not> same_block d k (bufs s (Buf j)) \<or> d = NODEV"
  shows "bio_inv (take_over i dp f s)" "keeps_content s (take_over i dp f s)" "keeps_busy s (take_over i dp f s)"
    "flags (take_over i dp f s) i = {B_BUSY}" "bdev (take_over i dp f s) i = d"
    "d \<noteq> NODEV \<longrightarrow> bno (take_over i dp f s) i = k" "bframe s (take_over i dp f s)" "i < NBUF" "\<not> busy s i"
    "buffers (take_over i dp f s) = buffers s" "\<And>j. busy (take_over i dp f s) j \<longleftrightarrow> j = i \<or> busy s j"
proof -
  let ?n = "notavail (Buf i) s" let ?m = "bmod (Buf i) (\<lambda>b. b\<lparr>b_flags := {B_BUSY}\<rparr>) ?n"
  let ?r = "relink (Buf i) dp ?m" let ?t = "take_over i dp f s"
  have rep': "bio_rep s ([] @ Buf i # ys) dl" using rep by simp
  have li: "lists_ok s ([] @ Buf i # ys) dl" using rep by (simp add: bio_rep_def)
  show i: "i < NBUF" "\<not> busy s i" using avail_mem [OF li, of "Buf i"] by auto
  have bo: "buf_ok s i" using rep i by (simp add: bio_rep_def)
  have dl: "dll (avf s) (avb s) Bfreelist ([] @ Buf i # ys)" using li by (simp add: lists_ok_def)
  note na = notavail_ok [OF rep']
  note sm = notavail_summary [OF avb_ne(1) [OF dl], of "Buf i", simplified]
  have pn: "flags ?n i = flags s i \<union> {B_BUSY}" "bdev ?n i = bdev s i" "bno ?n i = bno s i"
    "b_addr (bufs ?n (Buf i)) = b_addr (bufs s (Buf i))" "buffers ?n = buffers s"
    using sm(5) sm(6) [of "Buf i"] by (simp_all add: pl_def same_data_def)
  have st: "busy_step i ?n ?m" by (rule busy_step_bmod) (simp_all add: pn)
  have bm: "buf_ok ?m i" using bo by (simp add: buf_ok_def pn)
  have rm: "bio_rep ?m ys dl" using busy_step_ok [OF _ st i(1) _ _ bm] na(1) by simp
  have lm: "lists_ok ?m ys dl" and tm: "tabs_ok ?m" and km: "keys_ok ?m dl" using rm by (auto simp: bio_rep_def)
  have sd: "same_devs s ?m" using sm(5) by (simp add: same_data_def same_devs_def)
  have dpm: "dp \<in> heads ?m" using dp heads_eq [OF sd] by simp
  note rl = relink_lists [OF lm i(1) dpm tm]
  have t: "?t = bmod (Buf i) f ?r" by (simp add: take_over_def)
  have pr: "flags ?r i = {B_BUSY}" "b_addr (bufs ?r (Buf i)) = b_addr (bufs s (Buf i))"
    using rl(3) [of "Buf i"] pn(4) by (simp_all add: pl_def)
  show fl: "flags ?t i = {B_BUSY}" "bdev ?t i = d" "d \<noteq> NODEV \<longrightarrow> bno ?t i = k"
    using f pr by (auto simp: t)
  show bf: "buffers ?t = buffers s" using rl(2) pn(5) by (simp add: t same_data_def)
  have "busy_step i ?r ?t" unfolding t by (rule busy_step_bmod) (use f pr in auto)
  then have lt: "lists_ok ?t ys (moved (Buf i) dp dl)" by (rule busy_step_lists [OF rl(1)])
  have od: "on_disk ?t = on_disk s"
    using same_data_disk [OF rl(2)] same_data_disk [OF sm(5)] by (simp add: t fun_eq_iff)
  have oth: "pl (bufs ?t p) = pl (bufs s p)" if "p \<noteq> Buf i" for p
    using that rl(3) [of p] sm(6) [of p] by (simp add: t)
  have sdt: "same_devs s ?t" using sd rl(2) by (simp add: t same_data_def same_devs_def)
  have us: "upd_buf i s ?t" by (rule upd_bufI) (use sdt oth bf od in auto)
  have um: "upd_buf i ?m ?t"
    by (rule upd_bufI) (use sd sdt oth bf od pn(5) sm(6) same_data_disk [OF sm(5)] in \<open>auto simp: same_devs_def\<close>)
  have "key_ok ?m (moved (Buf i) dp dl) i (bdev ?t i) (bno ?t i)"
  proof -
    have "\<not> same_block d k (bufs ?m (Buf j))" if "j < NBUF" "j \<noteq> i" "d \<noteq> NODEV" for j
      using new that sm(6) [of "Buf j"] by (auto simp: same_block_def pl_eq)
    moreover have "dtab d ?m = dtab d s" "dev_ok ?m d = dev_ok s d" by (rule same_devs_simps [OF sd])+
    ultimately show ?thesis using d fl by (auto simp: key_ok_def moved_def simp del: dtab_mod)
  qed
  moreover have "buf_ok ?t i" using bo pr f by (simp add: buf_ok_def fl bf) (simp add: t)
  ultimately have rt: "bio_rep ?t ys (moved (Buf i) dp dl)"
    using moved_mem by (intro bio_rep_upd [OF rm um lt]) auto
  then show "bio_inv ?t" by (rule bio_invI)
  have "keys_ok ?t (moved (Buf i) dp dl)" using rt by (simp add: bio_rep_def)
  then show "keeps_busy s ?t" by (rule keeps_busy_upd [OF us i(2,1)])
  show "busy ?t j \<longleftrightarrow> j = i \<or> busy s j" for j by (rule upd_busy [OF us]) (simp add: fl)
  show "bframe s ?t" by (simp add: take_over_def kframe)
  show "keeps_content s ?t"
  proof -
    have ci: "caches ?t d b j \<longleftrightarrow> j \<noteq> i \<and> caches s d b j" for d b j
      using fl oth [of "Buf j"] caches_pl [of ?t j s d b] by (cases "j = i") (auto simp: caches_def)
    have "lcont ?t d b = lcont s d b" if dn: "d \<noteq> NODEV" and r: "in_range s d b" for d b
    proof (cases "caches s d b i")
      case True
      have ko: "keys_ok s dl" using rep by (simp add: bio_rep_def)
      have "\<not> caches ?t d b j" if "j < NBUF" for j
        using ci caches_unique [OF ko dn i(1) that True] by (auto simp: caches_def)
      then have "lcont ?t d b = on_disk s d b" by (simp add: lcont_uncached od)
      also have "\<dots> = buffers s i" using bo True nd i dn r by (auto simp: buf_ok_def caches_def same_block_def)
      finally show ?thesis using lcont_cached [OF ko dn i(1) True] by simp
    next
      case False
      then have "caches ?t d b j = caches s d b j" for j using ci by (cases "j = i") auto
      then have "find (caches ?t d b) [0 ..< NBUF] = find (caches s d b) [0 ..< NBUF]" by (intro find_cong_set) simp
      then show ?thesis by (simp add: lcont_def bf od split: option.split)
    qed
    then show ?thesis using sdt by (simp add: keeps_content_def)
  qed
qed

lemma held_trans:
  assumes "keeps_content s t" "keeps_busy s t" "\<And>j. j < NBUF \<Longrightarrow> busy t j = busy s j" "held t dev b bp v"
  shows "held s dev b bp v"
proof -
  from assms(4) obtain i where i: "i < NBUF" "bp = Buf i" "\<forall>j<NBUF. busy v j \<longleftrightarrow> j = i \<or> busy t j" "\<not> busy t i"
    "same_block dev b (bufs v (Buf i))" "B_ASYNC \<notin> flags v i" "bio_inv v" "keeps_content t v" "keeps_busy t v" "clean v i"
    by (auto simp: held_def)
  with assms(3) keeps_content_trans [OF assms(1) i(8)] keeps_busy_trans [OF assms(2) i(9)] show ?thesis
    by (auto simp: held_def)
qed

lemma wanted_busy_ok:
  assumes rep: "bio_rep s al dl" and i: "i < NBUF" "busy s i" and k: "same_block dev b (bufs s (Buf i))"
  shows "must_wait s dev b (Ch_buf (Buf i)) (bflag_set (Buf i) {B_WANTED} s)"
proof -
  let ?t = "bflag_set (Buf i) {B_WANTED} s"
  have "bio_rep ?t al dl" using flag_busy_ok(1) [OF rep i, of "{B_WANTED}"] by simp
  moreover have "lcont ?t d c = lcont s d c" for d c
    by (rule lcont_same) (auto simp: same_data_def same_devs_def caches_def same_block_def)
  ultimately show ?thesis
    using i k bio_invI by (auto simp: must_wait_def keeps_content_def same_devs_def same_block_def kframe)
qed

lemma wanted_hd_ok:
  assumes rep: "bio_rep s [] dl"
  shows "must_wait s dev b (Ch_buf Bfreelist) (bflag_set Bfreelist {B_WANTED} s)"
proof -
  have "busy s i" if "i < NBUF" for i using rep that avail_mem [of s "[]" dl "Buf i"] by (auto simp: bio_rep_def)
  with hd_wanted_ok [OF rep] bio_invI show ?thesis by (auto simp: must_wait_def kframe)
qed

lemma must_wait_trans:
  assumes "keeps_content s t" "keeps_busy s t" "bframe s t" "must_wait t dev b c v" "\<exists>i<NBUF. \<not> busy t i"
    "\<And>i. i < NBUF \<Longrightarrow> busy t i \<Longrightarrow> busy s i"
  shows "must_wait s dev b c v"
proof -
  have "i < NBUF \<Longrightarrow> same_block dev b (bufs t (Buf i)) \<Longrightarrow> busy s i \<Longrightarrow> same_block dev b (bufs s (Buf i))" for i
    using assms(2) by (auto simp: keeps_busy_def same_block_def pl_eq)
  with assms keeps_content_trans [OF assms(1)] bframe_trans [OF assms(3)] show ?thesis
    unfolding must_wait_def by blast
qed

lemma first_avail: "lists_ok s (p # ys) dl \<Longrightarrow> av_forw (bufs s Bfreelist) = p"
  using dll_ends [of "avf s" "avb s" Bfreelist "p # ys"] by (auto simp: lists_ok_def avf_def)

lemma no_avail: "lists_ok s al dl \<Longrightarrow> av_forw (bufs s Bfreelist) = Bfreelist \<longleftrightarrow> al = []"
proof -
  assume li: "lists_ok s al dl"
  have d: "dll (avf s) (avb s) Bfreelist al" using li by (simp add: lists_ok_def)
  show ?thesis using dll_ends [OF d] d by (cases al) (auto simp: avf_def dll_def)
qed

lemma getblk_loop_ok:
  assumes "bio_rep s al dl" "dev_ok s dev" "ndel s < n"
  shows "kpost (getblk_loop n dev b s) (\<lambda>bp t. held s dev b bp t \<and> bframe s t)
     (\<lambda>c p t. p = PRIBIO + 1 \<and> must_wait s dev b c t) (\<lambda>_ _. False)"
  using assms
proof (induction n arbitrary: s al)
  case (Suc n)
  note rep = Suc.prems(1) and dev = Suc.prems(2)
  have li: "lists_ok s al dl" using rep by (simp add: bio_rep_def)
  let ?dp = "dtab dev s"
  have dp: "?dp \<in> heads s" "?dp \<noteq> NULLB" using dtab_in_heads [OF dev] dev by (auto simp: dev_ok_def)
  note sc = dev_scan [OF li dp(1)]
  have fb: "case find (\<lambda>p. same_block dev b (bufs s p)) (dl ?dp) of
      Some bp \<Rightarrow> \<exists>i<NBUF. bp = Buf i \<and> same_block dev b (bufs s (Buf i))
    | None \<Rightarrow> \<forall>i<NBUF. \<not> same_block dev b (bufs s (Buf i))"
    by (rule find_block [OF rep dev])
  show ?case
  proof (cases "find (\<lambda>p. same_block dev b (bufs s p)) (dl ?dp)")
    case (Some bp)
    with fb obtain i where i: "i < NBUF" "bp = Buf i" "same_block dev b (bufs s (Buf i))" by auto
    show ?thesis
    proof (cases "busy s i")
      case True
      with sc Some dp i wanted_busy_ok [OF rep i(1) True i(3)] show ?thesis by (simp add: ksleep_def Let_def)
    next
      case False
      then have "Buf i \<in> set al" using avail_mem [OF li, of "Buf i"] i by auto
      then obtain xs ys where al: "al = xs @ Buf i # ys" by (meson split_list)
      then obtain c where c: "count_hit (Buf i) s = Some (s\<lparr>bufcount := c\<rparr>)"
        using count_hit_ok [of s xs i ys dl] rep by blast
      have "held (s\<lparr>bufcount := c\<rparr>) dev b (Buf i) (notavail (Buf i) (s\<lparr>bufcount := c\<rparr>))"
        by (rule held_hit [of _ xs i ys dl]) (use rep al i in simp_all)
      then have "held s dev b (Buf i) (notavail (Buf i) (s\<lparr>bufcount := c\<rparr>))"
        by (rule held_trans [rotated 3]) (simp_all add: keeps_content_def keeps_busy_def)
      with False sc Some dp i c show ?thesis by (simp add: Let_def kframe)
    qed
  next
    case None
    then have new: "\<forall>i<NBUF. \<not> same_block dev b (bufs s (Buf i))" using fb by simp
    show ?thesis
    proof (cases al)
      case Nil
      with rep sc None dp no_avail [OF li] wanted_hd_ok [of s dl dev b] show ?thesis by (simp add: ksleep_def Let_def)
    next
      case (Cons p ys)
      then obtain i where p: "p = Buf i" "i < NBUF" "\<not> busy s i" using avail_mem [OF li, of p] by auto
      have fa: "av_forw (bufs s Bfreelist) = Buf i" using first_avail [of s p ys dl] li Cons p by simp
      have rep1: "bio_rep s ([] @ Buf i # ys) dl" using rep Cons p by simp
      have d: "dll (avf s) (avb s) Bfreelist ([] @ Buf i # ys)" using li Cons p by (simp add: lists_ok_def)
      note sm = notavail_summary [OF avb_ne(1) [OF d], of "Buf i", simplified]
      have fl: "B_DELWRI \<in> flags (notavail (Buf i) s) i \<longleftrightarrow> B_DELWRI \<in> flags s i"
        using sm(6) [of "Buf i"] by (simp add: pl_def)
      show ?thesis
      proof (cases "B_DELWRI \<in> flags s i")
        case True
        note ev = evict_ok [OF rep1 True]
        have dt: "dev_ok (evict i s) dev" using dev ev(3) by (auto simp: keeps_content_def same_devs_simps)
        have bs: "busy (evict i s) j = busy s j" if "j < NBUF" for j
          using that avail_mem [of "evict i s" "[] @ ys @ [Buf i]" dl "Buf j"] ev(2) avail_mem [OF li, of "Buf j"] Cons p
          by (auto simp: bio_rep_def)
        then have bt: "\<not> busy (evict i s) i" "\<And>j. j < NBUF \<Longrightarrow> busy (evict i s) j \<Longrightarrow> busy s j"
          using p by auto
        have "kpost (getblk_loop n dev b (evict i s)) (\<lambda>bp t. held (evict i s) dev b bp t \<and> bframe (evict i s) t)
           (\<lambda>c p t. p = PRIBIO + 1 \<and> must_wait (evict i s) dev b c t) (\<lambda>_ _. False)"
          using Suc.IH [OF ev(2) dt] ev(5) Suc.prems(3) by simp
        then have "kpost (getblk_loop n dev b (evict i s)) (\<lambda>bp t. held s dev b bp t \<and> bframe s t)
           (\<lambda>c p t. p = PRIBIO + 1 \<and> must_wait s dev b c t) (\<lambda>_ _. False)"
          by (rule kpost_weaken)
            (use held_trans [OF ev(3,4) bs] bframe_trans [OF ev(6)] must_wait_trans [OF ev(3,4,6)] bt p in blast)+
        with True fl sc None dp fa ev(1) show ?thesis by (simp add: Let_def)
      next
        case False
        let ?f = "\<lambda>b'. b'\<lparr>b_dev := dev, b_blkno := b\<rparr>"
        note tk = take_over_ok [of s i ys dl ?dp ?f dev b]
        have "held s dev b (Buf i) (take_over i ?dp ?f s) \<and> bframe s (take_over i ?dp ?f s)"
          using tk rep1 False dp(1) dev new by (auto simp: held_def same_block_def dev_ok_def clean_def)
        with False fl sc None dp fa show ?thesis by (simp add: Let_def take_over_def)
      qed
    qed
  qed
qed simp

section \<open>Reading\<close>

text \<open>The state after a synchronous read into the held buffer \<open>i\<close>.\<close>

definition rd_start :: "bflag set \<Rightarrow> nat \<Rightarrow> 'a bst_scheme \<Rightarrow> 'a bst_scheme" where
  "rd_start fs i s = bmod (Buf i) (\<lambda>b. b\<lparr>b_bcount := BSIZE\<rparr>) (bflag_set (Buf i) fs s)"

definition rd_done :: "bflag set \<Rightarrow> nat \<Rightarrow> 'a bst_scheme \<Rightarrow> 'a bst_scheme" where
  "rd_done fs i s = bflag_set (Buf i) {B_DONE} (md_io i (rd_start fs i s))"

lemma rd_start_pl:
  "flags (rd_start fs i s) i = flags s i \<union> fs" "bdev (rd_start fs i s) i = bdev s i" "bno (rd_start fs i s) i = bno s i"
  "buffers (rd_start fs i s) = buffers s" "b_addr (bufs (rd_start fs i s) (Buf i)) = b_addr (bufs s (Buf i))"
  "b_bcount (bufs (rd_start fs i s) (Buf i)) = 512" "on_disk (rd_start fs i s) = on_disk s"
  "in_range (rd_start fs i s) = in_range s"
  by (simp_all add: rd_start_def BSIZE_def)

lemma rd_done_pl:
  assumes "B_READ \<in> fs"
  shows "flags (rd_done fs i s) i = flags s i \<union> fs \<union> {B_DONE}" "bdev (rd_done fs i s) i = bdev s i"
    "bno (rd_done fs i s) i = bno s i" "b_addr (bufs (rd_done fs i s) (Buf i)) = b_addr (bufs s (Buf i))"
    "buffers (rd_done fs i s) = (buffers s)(i := on_disk s (bdev s i) (bno s i))"
  using assms by (simp_all add: rd_done_def md_io_simps rd_start_pl)

lemma rd_done_ok:
  assumes rep: "bio_rep s al dl" and i: "i < NBUF" "busy s i" and fs: "fs \<subseteq> {B_READ, B_ASYNC}" "B_READ \<in> fs"
    and nd: "B_DONE \<notin> flags s i" and r: "in_range s (bdev s i) (bno s i)"
  shows "mdstrategy (Buf i) (rd_start fs i s) = iodone (Buf i) (md_io i (rd_start fs i s))"
    "bio_rep (rd_done fs i s) al dl" "busy_step i s (rd_done fs i s)" "keeps_content s (rd_done fs i s)"
    "on_disk (rd_done fs i s) = on_disk s"
proof -
  let ?a = "rd_start fs i s" let ?b = "md_io i ?a" let ?d = "rd_done fs i s"
  have bo: "buf_ok s i" and tb: "tabs_ok s" and ko: "keys_ok s dl" using rep i by (auto simp: bio_rep_def)
  have len: "length (buffers s i) = 512" and del: "B_DELWRI \<notin> flags s i" and err: "B_ERROR \<notin> flags s i \<or> bdev s i = NODEV"
    using bo nd r by (auto simp: buf_ok_def)
  have a: "busy_step i s ?a"
    using i by (simp add: rd_start_def busy_step_def upd_buf_def same_devs_def avf_def avb_def)
  have ua: "upd_buf i s ?a" and ba: "busy ?a i" using a by (simp_all add: busy_step_def)
  show "mdstrategy (Buf i) ?a = iodone (Buf i) ?b"
    using tabs_ok_upd [OF ua tb] bo r by (intro mdstrategy_in_range) (simp_all add: rd_start_pl buf_ok_def)
  have b: "busy_step i ?a ?b" using ba len by (intro md_io_step) (simp_all add: rd_start_pl)
  have bb: "busy ?b i" using b by (simp add: busy_step_def)
  have d: "busy_step i ?b ?d" unfolding rd_done_def bflag_set_def by (intro busy_step_bmod) (use bb in auto)
  have "busy_step i s ?b" by (rule busy_step_trans [OF a b]) (simp_all add: md_io_simps)
  from busy_step_trans [OF this d] show st: "busy_step i s ?d" by (simp add: rd_done_def)
  show od: "on_disk ?d = on_disk s"
    using md_io_disk [of ?a i] len fs by (auto simp: rd_done_def rd_start_pl fun_eq_iff)
  have bd: "busy ?d i" using st by (simp add: busy_step_def)
  have "in_range ?d = in_range s" using st by (auto simp: busy_step_def upd_buf_def same_devs_simps fun_eq_iff)
  moreover have "flags ?d i = flags s i \<union> fs \<union> {B_DONE}" "B_DELWRI \<notin> fs" "B_ERROR \<notin> fs"
    using fs(1) by (auto simp: rd_done_pl [OF fs(2)])
  ultimately have bod: "buf_ok ?d i"
    using bo del bd by (simp add: buf_ok_def rd_done_pl(2-5) [OF fs(2)])
  show rd: "bio_rep ?d al dl"
    by (rule busy_step_ok [OF rep st i(1) _ _ bod]) (simp_all add: rd_done_pl [OF fs(2)])
  have kd: "keys_ok ?d dl" and ud: "upd_buf i s ?d" using rd st by (auto simp: bio_rep_def busy_step_def)
  have "lcont ?d d b = lcont s d b" if dn: "d \<noteq> NODEV" and rg: "in_range s d b" for d b
  proof (cases "same_block d b (bufs s (Buf i))")
    case True
    have "caches ?d d b i" using True by (simp add: caches_def same_block_def rd_done_pl [OF fs(2)])
    from lcont_cached [OF kd dn i(1) this] True have "lcont ?d d b = on_disk s d b"
      by (simp add: rd_done_pl [OF fs(2)] same_block_def)
    moreover have "\<not> caches s d b j" if "j < NBUF" for j
      using caches_unique [OF ko dn that i(1) _ True] nd by (auto simp: caches_def)
    ultimately show ?thesis by (simp add: lcont_uncached)
  next
    case False
    then have "\<not> same_block d b (bufs ?d (Buf i))" by (simp add: same_block_def rd_done_pl [OF fs(2)])
    with lcont_upd [OF ud rg False] show ?thesis .
  qed
  then show "keeps_content s ?d" using ud by (simp add: keeps_content_def upd_buf_def)
qed

lemma bframe_rd [kframe]: "bframe s (rd_done fs i t) = bframe s t" "bframe s (rd_start fs i t) = bframe s t"
  by (simp_all add: rd_done_def rd_start_def kframe)

text \<open>The data a held buffer shows to its owner.\<close>

definition bdata :: "bptr \<Rightarrow> 'a bst_scheme \<Rightarrow> int list" where
  "bdata bp s = load (b_addr (bufs s bp)) (nat BSIZE) s"

lemma bdata_Buf: "bio_inv s \<Longrightarrow> i < NBUF \<Longrightarrow> bdata (Buf i) s = buffers s i"
  by (auto simp: bdata_def load_def bio_inv_def bio_rep_def buf_ok_def BSIZE_def)

lemma held_data:
  assumes "held s dev b bp t" "dev \<noteq> NODEV" "in_range s dev b" "B_DONE \<in> b_flags (bufs t bp)"
  shows "bdata bp t = lcont s dev b"
proof -
  from assms(1) obtain i where i: "i < NBUF" "bp = Buf i" "same_block dev b (bufs t (Buf i))" "bio_inv t" "keeps_content s t"
    by (auto simp: held_def)
  from i(4) obtain al dl where "bio_rep t al dl" by (auto simp: bio_inv_def)
  then have "lcont t dev b = buffers t i"
    using lcont_cached [of t dl dev i b] assms(2,4) i by (simp add: bio_rep_def caches_def)
  with bdata_Buf [OF i(4,1)] i assms(2,3) show ?thesis by (simp add: keeps_content_def)
qed

lemma keeps_busy_more:
  assumes ub: "upd_buf i t v" and b: "\<not> busy s i" "keeps_busy s t" and i: "i < NBUF" and inv: "bio_inv v"
  shows "keeps_busy s v"
proof -
  obtain al dl where ko: "keys_ok v dl" using inv by (auto simp: bio_inv_def bio_rep_def)
  have kj: "pl (bufs v (Buf j)) = pl (bufs s (Buf j)) \<and> buffers v j = buffers s j \<and>
      (bdev s j \<noteq> NODEV \<longrightarrow> on_disk v (bdev s j) (bno s j) = on_disk s (bdev s j) (bno s j))"
    if j: "j < NBUF" "busy s j" for j
  proof -
    have ne: "j \<noteq> i" using j b by auto
    have t: "pl (bufs t (Buf j)) = pl (bufs s (Buf j))" "buffers t j = buffers s j"
      "bdev s j \<noteq> NODEV \<longrightarrow> on_disk t (bdev s j) (bno s j) = on_disk s (bdev s j) (bno s j)"
      using b(2) j by (auto simp: keeps_busy_def)
    have v: "pl (bufs v (Buf j)) = pl (bufs t (Buf j))" "buffers v j = buffers t j" using ub ne by (auto simp: upd_buf_def)
    have "bdev v j = bdev s j" "bno v j = bno s j" using t v by (auto simp: pl_eq)
    then have "\<not> same_block (bdev s j) (bno s j) (bufs v (Buf i))" if "bdev s j \<noteq> NODEV"
      using ko i j ne that unfolding keys_ok_def same_block_def by metis
    with t v ub show ?thesis by (simp add: upd_buf_def)
  qed
  then show ?thesis by (simp add: keeps_busy_def)
qed

lemma held_step:
  assumes h: "held s dev b (Buf i) t" and rep: "bio_rep v al dl" and st: "busy_step i t v" and kc: "keeps_content t v"
    and key: "bdev v i = bdev t i" "bno v i = bno t i" "B_ASYNC \<notin> flags v i" "clean v i"
  shows "held s dev b (Buf i) v"
proof -
  from h have i: "i < NBUF" "\<not> busy s i" "\<forall>j<NBUF. busy t j \<longleftrightarrow> j = i \<or> busy s j" "same_block dev b (bufs t (Buf i))"
    "keeps_content s t" "keeps_busy s t" by (auto simp: held_def)
  have ub: "upd_buf i t v" using st by (simp add: busy_step_def)
  have "busy v j \<longleftrightarrow> j = i \<or> busy t j" for j using upd_busy [of i t v j] st by (simp add: busy_step_def)
  with i key bio_invI [OF rep] keeps_content_trans [OF _ kc] keeps_busy_more [OF ub i(2,6,1) bio_invI [OF rep]] show ?thesis
    by (auto simp: held_def same_block_def)
qed

lemma iodone_sync:
  assumes rep: "bio_rep s al dl" and i: "i < NBUF" "busy s i" and na: "B_ASYNC \<notin> flags s i" and dn: "B_DONE \<in> flags s i"
  shows "bio_rep (log_wakeup (Ch_buf (Buf i)) (bflag_clr (Buf i) {B_WANTED} s)) al dl"
    "busy_step i s (log_wakeup (Ch_buf (Buf i)) (bflag_clr (Buf i) {B_WANTED} s))"
    "keeps_content s (log_wakeup (Ch_buf (Buf i)) (bflag_clr (Buf i) {B_WANTED} s))"
proof -
  let ?t = "log_wakeup (Ch_buf (Buf i)) (bflag_clr (Buf i) {B_WANTED} s)"
  show st: "busy_step i s ?t"
    using i by (simp add: busy_step_def upd_buf_def same_devs_def avf_def avb_def fw_def bk_def fun_eq_iff)
  have "buf_ok s i" using rep i by (simp add: bio_rep_def)
  then have "buf_ok ?t i" using i by (simp add: buf_ok_def)
  then show "bio_rep ?t al dl" by (intro busy_step_ok [OF rep st i(1)]) simp_all
  have "lcont ?t d b = lcont s d b" for d b
    by (rule lcont_same) (auto simp: same_data_def same_devs_def caches_def same_block_def)
  then show "keeps_content s ?t" by (simp add: keeps_content_def same_devs_def)
qed

lemma stat_rep [simp]:
  "bio_rep (s\<lparr>nread := c\<rparr>) al dl = bio_rep s al dl" "bio_rep (s\<lparr>ncache := c\<rparr>) al dl = bio_rep s al dl"
  "bio_rep (s\<lparr>nreada := c\<rparr>) al dl = bio_rep s al dl"
  by (simp_all add: bio_rep_def tabs_ok_def heads_def lists_ok_def keys_ok_def dev_ok_def buf_ok_def)

lemma stat_cont [simp]:
  "lcont (s\<lparr>nread := c\<rparr>) d b = lcont s d b" "lcont (s\<lparr>ncache := c\<rparr>) d b = lcont s d b"
  "lcont (s\<lparr>nreada := c\<rparr>) d b = lcont s d b"
  by (rule lcont_same; simp add: same_data_def same_devs_def caches_def)+

lemma stat_held [simp]:
  "held s d b bp (t\<lparr>nread := c\<rparr>) = held s d b bp t" "held s d b bp (t\<lparr>ncache := c\<rparr>) = held s d b bp t"
  by (simp_all add: held_def bio_inv_def keeps_content_def same_devs_def keeps_busy_def clean_def)

lemma stat_bdata [simp]: "bdata bp (s\<lparr>nread := c\<rparr>) = bdata bp s" "bdata bp (s\<lparr>ncache := c\<rparr>) = bdata bp s"
  by (simp_all add: bdata_def load_def split: baddr.split)

lemma getblk_ok:
  assumes "bio_inv s" "dev_ok s dev"
  shows "kpost (getblk dev b s) (\<lambda>bp t. held s dev b bp t \<and> bframe s t)
     (\<lambda>c p t. p = PRIBIO + 1 \<and> must_wait s dev b c t) (\<lambda>_ _. False)"
proof -
  from assms(1) obtain al dl where "bio_rep s al dl" by (auto simp: bio_inv_def)
  with getblk_loop_ok [of s al dl dev "NBUF + 1" b] assms(2) ndel_bound [of s] show ?thesis
    by (simp add: getblk_def dev_ok_def)
qed

lemma held_read:
  assumes h: "held s dev b (Buf i) t" and nd: "B_DONE \<notin> flags t i" and dev: "dev \<noteq> NODEV" and r: "in_range s dev b"
  shows "held s dev b (Buf i) (start_read {B_READ} (Buf i) t)" "B_DONE \<in> flags (start_read {B_READ} (Buf i) t) i"
    "B_ERROR \<notin> flags (start_read {B_READ} (Buf i) t) i" "bframe t (start_read {B_READ} (Buf i) t)"
proof -
  from h obtain al dl where i: "i < NBUF" "busy t i" "\<not> busy s i" "same_block dev b (bufs t (Buf i))" "B_ASYNC \<notin> flags t i"
    and rep: "bio_rep t al dl" and kc: "keeps_content s t" by (auto simp: held_def bio_inv_def)
  have r': "in_range t (bdev t i) (bno t i)" and err: "B_ERROR \<notin> flags t i"
  proof -
    have "same_devs s t" using kc by (simp add: keeps_content_def)
    then show 1: "in_range t (bdev t i) (bno t i)" using i(4) r by (simp add: same_block_def same_devs_simps)
    have "buf_ok t i" using rep i by (simp add: bio_rep_def)
    with 1 i(4) dev show "B_ERROR \<notin> flags t i" by (auto simp: buf_ok_def same_block_def)
  qed
  let ?fs = "{B_READ}" let ?d = "rd_done ?fs i t"
  note rd = rd_done_ok [OF rep i(1,2) _ _ nd r', of ?fs, simplified]
  have fl: "flags ?d i = flags t i \<union> {B_READ, B_DONE}" by (auto simp: rd_done_pl)
  let ?v = "log_wakeup (Ch_buf (Buf i)) (bflag_clr (Buf i) {B_WANTED} ?d)"
  have na: "B_ASYNC \<notin> flags ?d i" "B_DONE \<in> flags ?d i" "busy ?d i" using fl i by auto
  note io = iodone_sync [OF rd(2) i(1) na(3,1,2)]
  have v: "start_read {B_READ} (Buf i) t = ?v"
    using rd(1) na by (auto simp: start_read_def rd_start_def [symmetric] iodone_def Let_def rd_done_def)
  have cl: "clean ?d i" using rd(5) by (simp add: clean_def rd_done_pl)
  have "held s dev b (Buf i) ?d"
    by (rule held_step [OF h rd(2,3,4)]) (use na cl in \<open>simp_all add: rd_done_pl\<close>)
  then show "held s dev b (Buf i) (start_read {B_READ} (Buf i) t)"
    unfolding v by (rule held_step [OF _ io]) (use na cl in \<open>simp_all add: clean_def\<close>)
  show "B_DONE \<in> flags (start_read {B_READ} (Buf i) t) i" "B_ERROR \<notin> flags (start_read {B_READ} (Buf i) t) i"
    unfolding v using na err fl by auto
  show "bframe t (start_read {B_READ} (Buf i) t)" unfolding v by (simp add: kframe)
qed

lemma held_Buf: "held s dev b bp t \<Longrightarrow> \<exists>i<NBUF. bp = Buf i"
  by (auto simp: held_def)

lemma bread_ok:
  assumes "bio_inv s" "dev_ok s dev" "in_range s dev b"
  shows "kpost (bread dev b s)
     (\<lambda>bp t. held s dev b bp t \<and> B_DONE \<in> b_flags (bufs t bp) \<and> bdata bp t = lcont s dev b \<and> bframe s t)
     (\<lambda>c p t. p = PRIBIO + 1 \<and> must_wait s dev b c t) (\<lambda>_ _. False)"
proof -
  have dev: "dev \<noteq> NODEV" using assms(2) by (simp add: dev_ok_def)
  have step: "kpost ((\<lambda>bp s. if B_DONE \<in> b_flags (bufs s bp) then Ok bp (s\<lparr>ncache := ncache s + 1\<rparr>)
       else (let s = start_read {B_READ} bp s; s = s\<lparr>nread := nread s + 1\<rparr> in kthen (iowait bp) (kret bp) s)) bp t)
     (\<lambda>bp t. held s dev b bp t \<and> B_DONE \<in> b_flags (bufs t bp) \<and> bdata bp t = lcont s dev b \<and> bframe s t) S P"
    if h: "held s dev b bp t \<and> bframe s t" for bp t S P
  proof (cases "B_DONE \<in> b_flags (bufs t bp)")
    case True
    with h held_data [OF _ dev assms(3) True] show ?thesis by (simp add: kframe)
  next
    case False
    obtain i where i: "bp = Buf i" using h held_Buf by blast
    let ?v = "start_read {B_READ} (Buf i) t"
    note rd = held_read [of s dev b i t, OF _ _ dev assms(3)]
    have v: "held s dev b (Buf i) ?v" "B_DONE \<in> flags ?v i" "B_ERROR \<notin> flags ?v i" "bframe s ?v"
      using rd h False i bframe_trans [of s t ?v] by auto
    with held_data [OF v(1) dev assms(3)] False i show ?thesis
      by (simp add: Let_def iowait_def geterror_id kframe)
  qed
  show ?thesis unfolding bread_def kpost_bind
    by (rule kpost_weaken [OF getblk_ok [OF assms(1,2)]]) (use step in auto)
qed

section \<open>Releasing and flushing\<close>

lemma upd_busy_idle: "upd_buf i s t \<Longrightarrow> \<not> busy t i \<Longrightarrow> busy t j \<longleftrightarrow> j \<noteq> i \<and> busy s j"
  by (cases "j = i") (auto simp: upd_buf_def pl_eq)

lemma brelse_disk:
  "bio_rep v al dl \<Longrightarrow> i < NBUF \<Longrightarrow> busy v i \<Longrightarrow> clean v i \<Longrightarrow> on_disk (brelse (Buf i) v) = on_disk v"
  using same_data_disk [OF brelse_ok(4) [of v al dl i]] by (auto simp: fun_eq_iff)

lemma bwrite_ok:
  assumes inv: "bio_inv s" and i: "i < NBUF" "busy s i" and r: "in_range s (bdev s i) (bno s i)"
  shows "\<exists>t. bwrite (Buf i) s = Ok () t \<and> bio_inv t \<and> written i s t \<and> bframe s t \<and>
     (\<forall>j. busy t j \<longleftrightarrow> j \<noteq> i \<and> busy s j) \<and> upd_buf i s t \<and>
     on_disk t (bdev s i) (bno s i) = buffers s i"
proof -
  from inv obtain al dl where rep: "bio_rep s al dl" by (auto simp: bio_inv_def)
  note w = wr_out_ok [OF rep i]
  have bo: "buf_ok (wr_out i s) i" using w(1) i by (simp add: bio_rep_def)
  have sd: "same_devs s (wr_out i s)" using w(3) by (simp add: upd_buf_def)
  have "on_disk (wr_out i s) (bdev s i) (bno s i) = buffers s i"
  proof -
    note wd = wr_done_ok [OF rep i]
    have bd: "busy (wr_done i s) i" using i by (simp add: wr_done_pl)
    have len: "length (buffers s i) = 512" using rep i by (simp add: bio_rep_def buf_ok_def)
    have l: "bio_rep (log_wakeup (Ch_buf (Buf i)) (bflag_clr (Buf i) {B_WANTED} (wr_done i s))) al dl" if "B_ASYNC \<notin> flags s i"
      using iodone_sync(1) [OF wd(1) i(1) bd] that by (simp add: wr_done_pl)
    have c: "clean (log_wakeup (Ch_buf (Buf i)) (bflag_clr (Buf i) {B_WANTED} (wr_done i s))) i"
      using wd(2) by (simp add: clean_def)
    have "on_disk (brelse (Buf i) (wr_done i s)) = on_disk (wr_done i s)"
      by (rule brelse_disk [OF wd(1) i(1) bd wd(2)])
    moreover have "on_disk (brelse (Buf i) (log_wakeup (Ch_buf (Buf i)) (bflag_clr (Buf i) {B_WANTED} (wr_done i s)))) = on_disk (wr_done i s)"
      if "B_ASYNC \<notin> flags s i"
      using brelse_disk [OF l [OF that] i(1) _ c] bd by simp
    ultimately show ?thesis using wr_done_step(2) [OF i(2) len] by (simp add: wr_out_def)
  qed
  with bwrite_eq [OF rep i r] w bio_invI [OF w(1)] upd_busy_idle [OF w(3,4)] show ?thesis by (simp add: kframe)
qed

lemma bdwrite_ok:
  assumes inv: "bio_inv s" and i: "i < NBUF" "busy s i" and dev: "bdev s i \<noteq> NODEV" and r: "in_range s (bdev s i) (bno s i)"
  shows "\<exists>t. bdwrite (Buf i) s = Ok () t \<and> bio_inv t \<and> written i s t \<and> bframe s t \<and>
     (\<forall>j. busy t j \<longleftrightarrow> j \<noteq> i \<and> busy s j) \<and> upd_buf i s t"
proof -
  from inv obtain al dl where rep: "bio_rep s al dl" by (auto simp: bio_inv_def)
  let ?v = "bflag_set (Buf i) {B_DELWRI, B_DONE} s" let ?t = "brelse (Buf i) ?v"
  have bo: "buf_ok s i" and tb: "tabs_ok s" and ko: "keys_ok s dl" using rep i by (auto simp: bio_rep_def)
  have st: "busy_step i s ?v" unfolding bflag_set_def by (rule busy_step_bmod) (use i in auto)
  have "buf_ok ?v i" using bo i dev r by (auto simp: buf_ok_def)
  then have rv: "bio_rep ?v al dl" by (intro busy_step_ok [OF rep st i(1)]) simp_all
  have cv: "clean ?v i" and bv: "busy ?v i" using i by (simp_all add: clean_def)
  note br = brelse_ok [OF rv i(1) bv cv]
  have err: "B_ERROR \<notin> flags s i" using bo dev r by (auto simp: buf_ok_def)
  have k: "bdev ?t i = bdev s i" "bno ?t i = bno s i" "B_DONE \<in> flags ?t i" "\<not> busy ?t i"
    using br(5) err by (auto simp: pl_def released_def)
  have ut: "upd_buf i s ?t"
    using upd_buf_trans [of i s ?v ?t] st br(3) k by (simp add: busy_step_def)
  have bf: "buffers ?t i = buffers s i" using br(4) by (simp add: same_data_def)
  have hd: "dtab (bdev s i) s \<in> heads s"
    using ko i dev by (intro dtab_in_heads) (auto simp: keys_ok_def)
  then have "B_TAPE \<notin> b_flags (bufs s (dtab (bdev s i) s))" using tb by (simp add: tabs_ok_def)
  then have "bdwrite (Buf i) s = Ok () ?t" by (simp add: bdwrite_def Let_def)
  with bio_invI [OF br(1)] written_of_upd [OF br(1) ut i(1) k(1,2) bf k(3)] ut upd_busy_idle [OF ut k(4)]
  show ?thesis by (simp add: kframe)
qed

lemma bflush_loop_ok:
  assumes "bio_rep s al dl" "ndel s < n"
  shows "\<exists>t. bflush_loop n dev s = Ok () t \<and> bio_inv t \<and> keeps_content s t \<and> bframe s t \<and> keeps_busy s t \<and>
     (\<forall>i<NBUF. busy t i = busy s i) \<and>
     (\<forall>i<NBUF. \<not> busy t i \<longrightarrow> B_DELWRI \<in> flags t i \<longrightarrow> \<not> (dev = NODEV \<or> dev = bdev t i))"
  using assms
proof (induction n arbitrary: s al)
  case (Suc n)
  note rep = Suc.prems(1)
  have li: "lists_ok s al dl" using rep by (simp add: bio_rep_def)
  let ?P = "\<lambda>p. B_DELWRI \<in> b_flags (bufs s p) \<and> (dev = NODEV \<or> dev = b_dev (bufs s p))"
  note sc = avail_scan [OF li, of ?P]
  show ?case
  proof (cases "find ?P al")
    case None
    then have "\<forall>p\<in>set al. \<not> ?P p" by (auto simp: find_None_iff)
    then have "\<forall>i<NBUF. \<not> busy s i \<longrightarrow> \<not> ?P (Buf i)" using avail_mem [OF li] by blast
    with None sc bio_invI [OF rep] show ?thesis by simp
  next
    case (Some p)
    then have p: "p \<in> set al" "?P p" by (auto simp: find_Some_iff)
    then obtain i where i: "p = Buf i" "i < NBUF" "\<not> busy s i" using avail_mem [OF li] by auto
    obtain xs ys where al: "al = xs @ Buf i # ys" using p i by (meson split_list)
    have rep1: "bio_rep s (xs @ Buf i # ys) dl" using rep al by simp
    have dw: "B_DELWRI \<in> flags s i" using p i by simp
    note ev = evict_ok [OF rep1 dw]
    have comm: "notavail (Buf i) (bflag_set (Buf i) {B_ASYNC} s) = bflag_set (Buf i) {B_ASYNC} (notavail (Buf i) s)"
    proof -
      have d: "dll (avf s) (avb s) Bfreelist (xs @ Buf i # ys)" using li al by (simp add: lists_ok_def)
      have ne: "av_back (bufs s (Buf i)) \<noteq> Buf i" "av_forw (bufs s (Buf i)) \<noteq> Buf i"
        using avb_ne [OF d] by (simp_all add: avb_def avf_def)
      show ?thesis using ne by (auto simp: notavail_def bflag_set_def bmod_def Let_def fun_eq_iff insert_commute)
    qed
    have bs: "busy (evict i s) j = busy s j" if "j < NBUF" for j
      using that avail_mem [of "evict i s" "xs @ ys @ [Buf i]" dl "Buf j"] ev(2) avail_mem [OF li, of "Buf j"] al i
      by (auto simp: bio_rep_def)
    from Suc.IH [OF ev(2)] ev(5) Suc.prems(2) obtain t where t: "bflush_loop n dev (evict i s) = Ok () t" "bio_inv t"
      "keeps_content (evict i s) t" "bframe (evict i s) t" "keeps_busy (evict i s) t"
      "\<forall>j<NBUF. busy t j = busy (evict i s) j"
      "\<forall>i<NBUF. \<not> busy t i \<longrightarrow> B_DELWRI \<in> flags t i \<longrightarrow> \<not> (dev = NODEV \<or> dev = bdev t i)" by auto
    have "bflush_loop (Suc n) dev s = Ok () t"
      using Some sc i comm ev(1) t(1) by (simp add: kthen_def kbind_def)
    with t bs keeps_content_trans [OF ev(3) t(3)] keeps_busy_trans [OF ev(4) t(5)] bframe_trans [OF ev(6) t(4)]
    show ?thesis by (intro exI [of _ t]) simp
  qed
qed simp

lemma flushed_disk:
  assumes rep: "bio_rep t al dl" and d: "d \<noteq> NODEV" and r: "in_range t d b"
    and no: "\<forall>i<NBUF. same_block d b (bufs t (Buf i)) \<longrightarrow> \<not> busy t i \<and> B_DELWRI \<notin> flags t i"
  shows "on_disk t d b = lcont t d b"
proof (cases "\<exists>i<NBUF. caches t d b i")
  case True
  then obtain i where i: "i < NBUF" "caches t d b i" by blast
  have ko: "keys_ok t dl" and bo: "buf_ok t i" using rep i by (auto simp: bio_rep_def)
  have "same_block d b (bufs t (Buf i))" using i by (simp add: caches_def)
  with no i(1) have "\<not> busy t i" "B_DELWRI \<notin> flags t i" by auto
  with bo i d r have "buffers t i = on_disk t d b" by (auto simp: buf_ok_def caches_def same_block_def)
  with lcont_cached [OF ko d i] show ?thesis by simp
next
  case False
  then show ?thesis using lcont_uncached [of t d b] by auto
qed

section \<open>Initialisation\<close>

text \<open>
  After \<open>k\<close> turns of the loop of \<^verbatim>\<open>binit\<close>: the buffers \<open>0 .. k - 1\<close> are on the list of
  unassociated buffers (newest first) and on the available list (oldest first).
\<close>

definition binit_part :: "nat \<Rightarrow> 'a bst_scheme \<Rightarrow> bool" where
  "binit_part k s \<longleftrightarrow>
     dll (fw s) (bk s) Bfreelist (rev (map Buf [0 ..< k])) \<and> dll (avf s) (avb s) Bfreelist (map Buf [0 ..< k]) \<and>
     (\<forall>i<k. flags s i = {} \<and> bdev s i = NODEV \<and> b_addr (bufs s (Buf i)) = Abuf i)"

lemma binit_link:
  fixes s :: "'a bst_scheme"
  assumes "fw s Bfreelist \<noteq> Buf k"
  defines "a \<equiv> bmod (Buf k) (\<lambda>b. b\<lparr>b_dev := NODEV, b_addr := Abuf k, b_back := Bfreelist, b_forw := fw s Bfreelist\<rparr>) s"
  defines "b \<equiv> bmod (fw s Bfreelist) (\<lambda>b. b\<lparr>b_back := Buf k\<rparr>) a"
  defines "c \<equiv> bmod Bfreelist (\<lambda>b. b\<lparr>b_forw := Buf k\<rparr>) b"
  defines "v \<equiv> bmod (Buf k) (\<lambda>b. b\<lparr>b_flags := {B_BUSY}\<rparr>) c"
  shows "binit_buf k s = brelse (Buf k) v"
    "fw v = (fw s)(Buf k := fw s Bfreelist, Bfreelist := Buf k)" "bk v = (bk s)(Buf k := Bfreelist, fw s Bfreelist := Buf k)"
    "avf v = avf s" "avb v = avb s" "pl (bufs v (Buf k)) = ({B_BUSY}, NODEV, bno s k, Abuf k)"
    "q \<noteq> Buf k \<Longrightarrow> pl (bufs v q) = pl (bufs s q)" "same_data s v"
proof -
  have n: "\<And>p f t. (\<And>b. b_forw (f b) = b_forw b) \<Longrightarrow> fw (bmod p f t) = fw t"
    "\<And>p f t. (\<And>b. b_back (f b) = b_back b) \<Longrightarrow> bk (bmod p f t) = bk t"
    "\<And>p f t. (\<And>b. av_forw (f b) = av_forw b) \<Longrightarrow> avf (bmod p f t) = avf t"
    "\<And>p f t. (\<And>b. av_back (f b) = av_back b) \<Longrightarrow> avb (bmod p f t) = avb t" for t :: "'a bst_scheme"
    by (auto simp: fw_def bk_def avf_def avb_def fun_eq_iff)
  have "fw v = fw c" "bk v = bk c" "avf v = avf c" "avb v = avb c" "bk c = bk b" "avf c = avf b" "avb c = avb b"
    "fw b = fw a" "avf b = avf a" "avb b = avb a" "avf a = avf s" "avb a = avb s"
    unfolding v_def c_def b_def a_def by (rule n; simp)+
  moreover have "fw c = (fw b)(Bfreelist := Buf k)" "fw a = (fw s)(Buf k := fw s Bfreelist)"
    "bk b = (bk a)(fw s Bfreelist := Buf k)" "bk a = (bk s)(Buf k := Bfreelist)"
    unfolding c_def a_def b_def by simp_all
  ultimately show "fw v = (fw s)(Buf k := fw s Bfreelist, Bfreelist := Buf k)"
    "bk v = (bk s)(Buf k := Bfreelist, fw s Bfreelist := Buf k)" "avf v = avf s" "avb v = avb s" by simp_all
  have "b_forw (bufs a Bfreelist) = fw s Bfreelist" by (simp add: a_def fw_def)
  then show "binit_buf k s = brelse (Buf k) v"
    by (simp add: binit_buf_def Let_def v_def c_def b_def a_def fw_def)
  have pl: "pl (bufs (bmod p f t) q) = (if q = p then pl (f (bufs t p)) else pl (bufs t q))" for p f q and t :: "'a bst_scheme"
    by simp
  have "pl (bufs c q) = pl (bufs a q)" for q unfolding c_def b_def pl by simp
  then have cq: "b_dev (bufs c q) = b_dev (bufs a q)" "b_blkno (bufs c q) = b_blkno (bufs a q)"
    "b_addr (bufs c q) = b_addr (bufs a q)" "pl (bufs c q) = pl (bufs a q)" for q by (simp_all add: pl_def)
  show "pl (bufs v (Buf k)) = ({B_BUSY}, NODEV, bno s k, Abuf k)"
    by (simp add: v_def pl_def cq) (simp add: a_def)
  show "pl (bufs v q) = pl (bufs s q)" if "q \<noteq> Buf k" using that cq(4) [of q] by (simp add: v_def) (simp add: a_def)
  show "same_data s v" by (simp add: v_def c_def b_def a_def)
qed

lemma binit_buf_part:
  assumes p: "binit_part k s"
  shows "binit_part (Suc k) (binit_buf k s)" "same_data s (binit_buf k s)"
    "p \<noteq> Bfreelist \<Longrightarrow> (\<forall>i. p \<noteq> Buf i) \<Longrightarrow> b_flags (bufs (binit_buf k s) p) = b_flags (bufs s p)"
    "B_TAPE \<in> b_flags (bufs (binit_buf k s) Bfreelist) \<longleftrightarrow> B_TAPE \<in> b_flags (bufs s Bfreelist)"
proof -
  let ?b = "Buf k"
  have df: "dll (fw s) (bk s) Bfreelist (rev (map Buf [0 ..< k]))" and da: "dll (avf s) (avb s) Bfreelist (map Buf [0 ..< k])"
    using p by (auto simp: binit_part_def)
  have nin: "?b \<notin> set (Bfreelist # rev (map Buf [0 ..< k]))" "?b \<notin> set (Bfreelist # map Buf [0 ..< k])" by auto
  have nf: "fw s Bfreelist \<noteq> ?b" "avf s Bfreelist \<noteq> ?b" "avb s Bfreelist \<noteq> ?b"
    using dll_head_mem [OF df] dll_head_mem [OF da] nin by metis+
  obtain v where v: "binit_buf k s = brelse ?b v"
    and fv: "fw v = (fw s)(?b := fw s Bfreelist, Bfreelist := ?b)" "bk v = (bk s)(?b := Bfreelist, fw s Bfreelist := ?b)"
    "avf v = avf s" "avb v = avb s" and pk: "pl (bufs v ?b) = ({B_BUSY}, NODEV, bno s k, Abuf k)"
    and pv: "\<And>q. q \<noteq> ?b \<Longrightarrow> pl (bufs v q) = pl (bufs s q)" and sd: "same_data s v"
    by (rule that [OF binit_link [OF nf(1)]])
  have ends: "avf v Bfreelist \<noteq> ?b" "avb v Bfreelist \<noteq> ?b" unfolding fv using nf by auto
  note hd = brelse_header [OF ends] and lk = brelse_links [OF ends]
  have fl: "flags v k = {B_BUSY}" "bdev v k = NODEV" "b_addr (bufs v (Buf k)) = Abuf k"
    using pk by (simp_all add: pl_def)
  show "same_data s (binit_buf k s)" using hd(3) sd unfolding v same_data_def same_devs_def by simp
  show "b_flags (bufs (binit_buf k s) p) = b_flags (bufs s p)" if "p \<noteq> Bfreelist" "\<forall>i. p \<noteq> Buf i"
    using hd(4) [of p] that pv [of p] unfolding v by (simp add: pl_def)
  show "B_TAPE \<in> b_flags (bufs (binit_buf k s) Bfreelist) \<longleftrightarrow> B_TAPE \<in> b_flags (bufs s Bfreelist)"
    unfolding v using hd(5) [of Bfreelist] pv [of Bfreelist] by (simp add: pl_def)
  have "dll (fw (binit_buf k s)) (bk (binit_buf k s)) Bfreelist (rev (map Buf [0 ..< Suc k]))"
    unfolding v hd(1,2) fv using dll_push_front [OF df nin(1)] by simp
  moreover have "dll (avf (binit_buf k s)) (avb (binit_buf k s)) Bfreelist (map Buf [0 ..< Suc k])"
    unfolding v lk fv using dll_push_back [OF da nin(2)] fl by simp
  moreover have "flags (binit_buf k s) i = {} \<and> bdev (binit_buf k s) i = NODEV \<and> b_addr (bufs (binit_buf k s) (Buf i)) = Abuf i"
    if "i < Suc k" for i
  proof (cases "i = k")
    case True
    with hd(4) [of "Buf k"] fl show ?thesis unfolding v by (simp add: pl_def released_def)
  next
    case False
    with hd(4) [of "Buf i"] pv [of "Buf i"] p that show ?thesis unfolding v by (simp add: pl_def binit_part_def)
  qed
  ultimately show "binit_part (Suc k) (binit_buf k s)" by (simp add: binit_part_def)
qed

lemma binit_bufs_part:
  assumes "binit_part 0 s"
  shows "binit_part k (fold binit_buf [0 ..< k] s) \<and> same_data s (fold binit_buf [0 ..< k] s) \<and>
    (\<forall>d. b_flags (bufs (fold binit_buf [0 ..< k] s) (Dtab d)) = b_flags (bufs s (Dtab d))) \<and>
    (B_TAPE \<in> b_flags (bufs (fold binit_buf [0 ..< k] s) Bfreelist) \<longleftrightarrow> B_TAPE \<in> b_flags (bufs s Bfreelist))"
proof (induction k)
  case (Suc k)
  then show ?case using binit_buf_part [of k "fold binit_buf [0 ..< k] s"] by (auto simp: same_data_def same_devs_def)
qed (use assms in simp)

lemma binit_dev_simps:
  "p \<noteq> dp \<Longrightarrow> bufs (binit_dev dp s) p = bufs s p" "buffers (binit_dev dp s) = buffers s" "mdsz (binit_dev dp s) = mdsz s"
  "d_tab (binit_dev dp s) = d_tab s" "nblkdev (binit_dev dp s) = nblkdev s + 1"
  "b_flags (bufs (binit_dev dp s) q) = b_flags (bufs s q)"
  "dp \<noteq> NULLB \<Longrightarrow> fw (binit_dev dp s) dp = dp \<and> bk (binit_dev dp s) dp = dp"
  by (auto simp: binit_dev_def Let_def fw_def bk_def)

lemma binit_devs:
  assumes "\<forall>p\<in>set ds. p = NULLB \<or> (\<exists>k. p = Dtab k)"
  shows "(\<forall>p\<in>set ds. p \<noteq> NULLB \<longrightarrow> fw (fold binit_dev ds s) p = p \<and> bk (fold binit_dev ds s) p = p) \<and>
    (\<forall>p. p \<notin> set ds \<longrightarrow> bufs (fold binit_dev ds s) p = bufs s p) \<and>
    (\<forall>p. b_flags (bufs (fold binit_dev ds s) p) = b_flags (bufs s p)) \<and>
    buffers (fold binit_dev ds s) = buffers s \<and> mdsz (fold binit_dev ds s) = mdsz s \<and>
    d_tab (fold binit_dev ds s) = d_tab s \<and> nblkdev (fold binit_dev ds s) = nblkdev s + int (length ds)"
  using assms
proof (induction ds rule: rev_induct)
  case (snoc d ds)
  let ?s = "fold binit_dev ds s"
  have IH: "\<forall>p\<in>set ds. p \<noteq> NULLB \<longrightarrow> fw ?s p = p \<and> bk ?s p = p" "\<forall>p. p \<notin> set ds \<longrightarrow> bufs ?s p = bufs s p"
    "\<forall>p. b_flags (bufs ?s p) = b_flags (bufs s p)" "buffers ?s = buffers s" "mdsz ?s = mdsz s" "d_tab ?s = d_tab s"
    "nblkdev ?s = nblkdev s + int (length ds)" using snoc by auto
  have "fw (binit_dev d ?s) p = p \<and> bk (binit_dev d ?s) p = p" if "p \<in> set (ds @ [d])" "p \<noteq> NULLB" for p
    using that IH(1) binit_dev_simps(1) [of p d ?s] binit_dev_simps(7) [of d ?s]
    by (cases "p = d") (auto simp: fw_def bk_def)
  with IH show ?case by (simp add: binit_dev_simps)
qed simp

text \<open>What the loader and the configuration leave for \<^verbatim>\<open>binit\<close>.\<close>

definition boot_ok :: "'a bst_scheme \<Rightarrow> bool" where
  "boot_ok s \<longleftrightarrow> (\<forall>p\<in>set (d_tab s). p = NULLB \<or> (\<exists>k. p = Dtab k)) \<and> nblkdev s = 0 \<and>
     (\<forall>k. B_TAPE \<notin> b_flags (bufs s (Dtab k))) \<and> B_TAPE \<notin> b_flags (bufs s Bfreelist) \<and>
     (\<forall>i<NBUF. length (buffers s i) = 512) \<and> (\<forall>dev. 0 \<le> mdsz s dev \<and> mdsz s dev < 4194304)"

lemma binit_inv:
  assumes "boot_ok s"
  shows "bio_inv (binit s)" "\<forall>i<NBUF. \<not> busy (binit s) i" "d_tab (binit s) = d_tab s" "mdsz (binit s) = mdsz s"
    "nblkdev (binit s) = int (length (d_tab s))" "\<forall>i<NBUF. flags (binit s) i = {}"
proof -
  let ?a = "bmod Bfreelist (\<lambda>b. b\<lparr>b_forw := Bfreelist, b_back := Bfreelist, av_forw := Bfreelist, av_back := Bfreelist\<rparr>) s"
  let ?b = "fold binit_buf [0 ..< NBUF] ?a" let ?t = "binit s"
  have t: "?t = fold binit_dev (d_tab s) ?b"
    using binit_bufs_part [of ?a NBUF] by (simp add: binit_def Let_def binit_part_def dll_def avf_def avb_def fw_def bk_def same_data_def same_devs_def)
  have "binit_part 0 ?a" by (simp add: binit_part_def dll_def avf_def avb_def fw_def bk_def)
  from binit_bufs_part [OF this, of NBUF] have p: "binit_part NBUF ?b" and sd: "same_data s ?b"
    and fl: "\<forall>d. b_flags (bufs ?b (Dtab d)) = b_flags (bufs s (Dtab d))"
      "B_TAPE \<notin> b_flags (bufs ?b Bfreelist)"
    using assms by (auto simp: same_data_def same_devs_def boot_ok_def)
  have ds: "\<forall>p\<in>set (d_tab s). p = NULLB \<or> (\<exists>k. p = Dtab k)" using assms by (simp add: boot_ok_def)
  note dv = binit_devs [OF ds, of ?b, folded t]
  have nd: "Bfreelist \<notin> set (d_tab s)" "Buf i \<notin> set (d_tab s)" for i using ds by auto
  have bf: "bufs ?t Bfreelist = bufs ?b Bfreelist" "bufs ?t (Buf i) = bufs ?b (Buf i)" for i using dv nd by auto
  show dt: "d_tab ?t = d_tab s" "mdsz ?t = mdsz s" "nblkdev ?t = int (length (d_tab s))"
    using dv sd assms by (auto simp: same_data_def same_devs_def boot_ok_def)
  have idle: "flags ?t i = {} \<and> bdev ?t i = NODEV \<and> b_addr (bufs ?t (Buf i)) = Abuf i" if "i < NBUF" for i
    using p that by (simp add: bf binit_part_def)
  then show "\<forall>i<NBUF. \<not> busy ?t i" "\<forall>i<NBUF. flags ?t i = {}" by simp_all
  define dl where "dl h = (if h = Bfreelist then rev (map Buf [0 ..< NBUF]) else [])" for h
  have "dll (avf ?t) (avb ?t) Bfreelist (map Buf [0 ..< NBUF])"
    using p bf by (subst dll_frame [where nx = "avf ?b" and pv = "avb ?b"]) (auto simp: binit_part_def avf_def avb_def)
  moreover have "dll (fw ?t) (bk ?t) Bfreelist (dl Bfreelist)"
    using p bf by (subst dll_frame [where nx = "fw ?b" and pv = "bk ?b"]) (auto simp: binit_part_def fw_def bk_def dl_def)
  moreover have "dll (fw ?t) (bk ?t) p (dl p)" if "p \<in> set (d_tab s)" "p \<noteq> NULLB" for p
    using dv that nd by (auto simp: dll_def dl_def)
  ultimately have "lists_ok ?t (map Buf [0 ..< NBUF]) dl"
    using idle nd dt ds by (auto simp: lists_ok_def dlls_def heads_def dl_def)
  moreover have "tabs_ok ?t"
    using assms dv fl bf dt sd by (auto simp: tabs_ok_def boot_ok_def heads_def)
  moreover have "buf_ok ?t i" if "i < NBUF" for i
    using idle [OF that] assms that dv sd by (simp add: buf_ok_def boot_ok_def same_data_def)
  ultimately have "bio_rep ?t (map Buf [0 ..< NBUF]) dl" using idle by (auto simp: bio_rep_def keys_ok_def)
  then show "bio_inv ?t" by (rule bio_invI)
qed

end
