(* ===== verification/Bio_Spec.thy ===== *)
theory Bio_Spec
  imports Bio_Ops
begin

text \<open>
  The contract of the buffer cache for its clients (\<open>block_cache\<close>), its interpretation on the
  routines of \<open>Bio\<close>, and the properties of the cache.
\<close>

section \<open>Modifying a held buffer\<close>

definition bput :: "bptr \<Rightarrow> int list \<Rightarrow> 'a bst_scheme \<Rightarrow> 'a bst_scheme" where
  "bput bp bs s = store (b_addr (bufs s bp)) bs s"

text \<open>\<open>owns t bp dev b\<close>: in \<open>t\<close> somebody holds \<open>bp\<close> for block \<open>b\<close> of \<open>dev\<close>.\<close>

definition owns :: "'a bst_scheme \<Rightarrow> bptr \<Rightarrow> int \<Rightarrow> int \<Rightarrow> bool" where
  "owns t bp dev b \<longleftrightarrow> (\<exists>i<NBUF. bp = Buf i \<and> busy t i \<and> same_block dev b (bufs t (Buf i)) \<and> B_ASYNC \<notin> flags t i)"

definition held_only :: "'a bst_scheme \<Rightarrow> bptr \<Rightarrow> 'a bst_scheme \<Rightarrow> bool" where
  "held_only s bp t \<longleftrightarrow> (\<exists>i<NBUF. bp = Buf i \<and> \<not> busy s i \<and> (\<forall>j<NBUF. busy t j \<longleftrightarrow> j = i \<or> busy s j))"

definition same_busy :: "'a bst_scheme \<Rightarrow> 'a bst_scheme \<Rightarrow> bool" where
  "same_busy s t \<longleftrightarrow> (\<forall>j<NBUF. busy t j = busy s j) \<and> keeps_busy s t"

text \<open>The content after block \<open>b\<close> of \<open>dev\<close> has become \<open>bs\<close>.\<close>

definition updated :: "'a bst_scheme \<Rightarrow> int \<Rightarrow> int \<Rightarrow> int list \<Rightarrow> 'a bst_scheme \<Rightarrow> bool" where
  "updated s dev b bs t \<longleftrightarrow> same_devs s t \<and>
     (\<forall>d c. d \<noteq> NODEV \<longrightarrow> in_range s d c \<longrightarrow> lcont t d c = (if d = dev \<and> c = b then bs else lcont s d c))"

lemma bput_Buf:
  assumes "bio_inv t" "i < NBUF" "length bs = 512"
  shows "bput (Buf i) bs t = t\<lparr>buffers := (buffers t)(i := bs)\<rparr>"
  using assms by (auto simp: bput_def store_def bio_inv_def bio_rep_def buf_ok_def)

lemma buffers_simps [simp]:
  "avf (s\<lparr>buffers := v\<rparr>) = avf s" "avb (s\<lparr>buffers := v\<rparr>) = avb s" "fw (s\<lparr>buffers := v\<rparr>) = fw s" "bk (s\<lparr>buffers := v\<rparr>) = bk s"
  "in_range (s\<lparr>buffers := v\<rparr>) = in_range s" "dtab d (s\<lparr>buffers := v\<rparr>) = dtab d s"
  by (auto simp: avf_def avb_def fw_def bk_def in_range_def dtab_def fun_eq_iff)

lemma bput_ok:
  assumes inv: "bio_inv t" and i: "i < NBUF" "busy t i" and len: "length bs = 512"
  shows "bio_inv (bput (Buf i) bs t)" "busy_step i t (bput (Buf i) bs t)" "buffers (bput (Buf i) bs t) i = bs"
    "bufs (bput (Buf i) bs t) = bufs t" "bframe s (bput (Buf i) bs t) = bframe s t" "same_devs t (bput (Buf i) bs t)"
proof -
  note eq = bput_Buf [OF inv i(1) len]
  from inv obtain al dl where rep: "bio_rep t al dl" by (auto simp: bio_inv_def)
  show st: "busy_step i t (bput (Buf i) bs t)" using i by (simp add: eq busy_step_def upd_buf_def same_devs_def)
  have "buf_ok t i" using rep i by (simp add: bio_rep_def)
  then have "buf_ok (bput (Buf i) bs t) i" using len i by (simp add: eq buf_ok_def)
  then show "bio_inv (bput (Buf i) bs t)" using busy_step_ok [OF rep st i(1)] bio_invI by (simp add: eq) blast
  show "buffers (bput (Buf i) bs t) i = bs" "bufs (bput (Buf i) bs t) = bufs t"
    "bframe s (bput (Buf i) bs t) = bframe s t" "same_devs t (bput (Buf i) bs t)"
    by (simp_all add: eq kframe same_devs_def)
qed

lemma modified_written:
  assumes h: "held s dev b (Buf i) t" and len: "length bs = 512" and w: "written i (bput (Buf i) bs t) v"
  shows "updated s dev b bs v"
proof -
  from h have i: "i < NBUF" "busy t i" "same_block dev b (bufs t (Buf i))" "bio_inv t" "keeps_content s t"
    by (auto simp: held_def)
  note bp = bput_ok [OF i(4,1,2) len]
  have ub: "upd_buf i t (bput (Buf i) bs t)" using bp(2) by (simp add: busy_step_def)
  have sd: "same_devs s t" using i(5) by (simp add: keeps_content_def)
  have "lcont v d c = (if d = dev \<and> c = b then bs else lcont s d c)" if "d \<noteq> NODEV" "in_range s d c" for d c
  proof -
    have r: "in_range t d c" "in_range (bput (Buf i) bs t) d c"
      using that sd bp(6) by (simp_all add: same_devs_simps)
    have 1: "lcont v d c = (if same_block d c (bufs t (Buf i)) then bs else lcont (bput (Buf i) bs t) d c)"
      using w that r by (simp add: written_def bp)
    have "lcont (bput (Buf i) bs t) d c = lcont t d c" if n: "\<not> same_block d c (bufs t (Buf i))"
      using lcont_upd [OF ub r(1) n] n by (simp add: bp)
    moreover have "lcont t d c = lcont s d c" using i(5) that by (simp add: keeps_content_def)
    moreover have "same_block d c (bufs t (Buf i)) \<longleftrightarrow> d = dev \<and> c = b" using i(3) by (auto simp: same_block_def)
    ultimately show ?thesis using 1 by simp
  qed
  with w sd bp(6) show ?thesis unfolding updated_def written_def by (blast intro: same_devs_trans)
qed

lemma released_busy:
  assumes h: "held s dev b (Buf i) t" and st: "busy_step i t v" and ub: "upd_buf i v w"
    and bw: "\<forall>j. busy w j \<longleftrightarrow> j \<noteq> i \<and> busy v j" and inv: "bio_inv v" "bio_inv w"
  shows "same_busy s w"
proof -
  from h have i: "i < NBUF" "\<not> busy s i" "\<forall>j<NBUF. busy t j \<longleftrightarrow> j = i \<or> busy s j" "keeps_busy s t" by (auto simp: held_def)
  have v: "busy v j = busy t j" for j using st by (cases "j = i") (auto simp: busy_step_def upd_buf_def pl_eq)
  have uv: "upd_buf i t v" using st by (simp add: busy_step_def)
  have "keeps_busy s w"
    by (rule keeps_busy_more [OF ub i(2) keeps_busy_more [OF uv i(2,4,1) inv(1)] i(1) inv(2)])
  moreover have "busy w j = busy s j" if "j < NBUF" for j using bw v i that by auto
  ultimately show ?thesis by (simp add: same_busy_def)
qed

lemma held_bdwrite:
  assumes h: "held s dev b bp t" and len: "length bs = 512" and dev: "dev \<noteq> NODEV" and r: "in_range s dev b"
  shows "\<exists>v. bdwrite bp (bput bp bs t) = Ok () v \<and> bio_inv v \<and> updated s dev b bs v \<and> same_busy s v \<and> bframe t v"
proof -
  from h obtain i where i: "i < NBUF" "bp = Buf i" "busy t i" "same_block dev b (bufs t (Buf i))" "bio_inv t" "same_devs s t"
    by (auto simp: held_def keeps_content_def)
  have h': "held s dev b (Buf i) t" using h i by simp
  note bp = bput_ok [OF i(5,1,3) len]
  have "in_range (bput (Buf i) bs t) dev b" using r i(6) bp(6) by (simp add: same_devs_simps)
  then have "\<exists>v. bdwrite (Buf i) (bput (Buf i) bs t) = Ok () v \<and> bio_inv v \<and> written i (bput (Buf i) bs t) v \<and>
      bframe (bput (Buf i) bs t) v \<and> (\<forall>j. busy v j \<longleftrightarrow> j \<noteq> i \<and> busy (bput (Buf i) bs t) j) \<and> upd_buf i (bput (Buf i) bs t) v"
    using i dev by (intro bdwrite_ok [OF bp(1) i(1)]) (auto simp: bp same_block_def)
  then obtain v where v: "bdwrite (Buf i) (bput (Buf i) bs t) = Ok () v" "bio_inv v" "written i (bput (Buf i) bs t) v"
    "bframe (bput (Buf i) bs t) v" "\<forall>j. busy v j \<longleftrightarrow> j \<noteq> i \<and> busy (bput (Buf i) bs t) j" "upd_buf i (bput (Buf i) bs t) v" by blast
  have "bframe t v" using bframe_trans [OF _ v(4)] bp(5) by simp
  with v i modified_written [OF h' len v(3)] released_busy [OF h' bp(2) v(6,5) bp(1) v(2)] show ?thesis by auto
qed

lemma held_bwrite:
  assumes h: "held s dev b bp t" and len: "length bs = 512" and dev: "dev \<noteq> NODEV" and r: "in_range s dev b"
  shows "\<exists>v. bwrite bp (bput bp bs t) = Ok () v \<and> bio_inv v \<and> updated s dev b bs v \<and> same_busy s v \<and> bframe t v \<and>
     on_disk v dev b = bs"
proof -
  from h obtain i where i: "i < NBUF" "bp = Buf i" "busy t i" "same_block dev b (bufs t (Buf i))" "bio_inv t" "same_devs s t"
    by (auto simp: held_def keeps_content_def)
  have h': "held s dev b (Buf i) t" using h i by simp
  note bp = bput_ok [OF i(5,1,3) len]
  have "in_range (bput (Buf i) bs t) dev b" using r i(6) bp(6) by (simp add: same_devs_simps)
  then have "\<exists>v. bwrite (Buf i) (bput (Buf i) bs t) = Ok () v \<and> bio_inv v \<and> written i (bput (Buf i) bs t) v \<and>
      bframe (bput (Buf i) bs t) v \<and> (\<forall>j. busy v j \<longleftrightarrow> j \<noteq> i \<and> busy (bput (Buf i) bs t) j) \<and> upd_buf i (bput (Buf i) bs t) v \<and>
      on_disk v (bdev (bput (Buf i) bs t) i) (bno (bput (Buf i) bs t) i) = buffers (bput (Buf i) bs t) i"
    using i by (intro bwrite_ok [OF bp(1) i(1)]) (auto simp: bp same_block_def)
  then obtain v where v: "bwrite (Buf i) (bput (Buf i) bs t) = Ok () v" "bio_inv v" "written i (bput (Buf i) bs t) v"
    "bframe (bput (Buf i) bs t) v" "\<forall>j. busy v j \<longleftrightarrow> j \<noteq> i \<and> busy (bput (Buf i) bs t) j" "upd_buf i (bput (Buf i) bs t) v"
    "on_disk v (bdev t i) (bno t i) = bs" by (auto simp: bp)
  have "bframe t v" using bframe_trans [OF _ v(4)] bp(5) by simp
  moreover have "on_disk v dev b = bs" using v(7) i(4) by (simp add: same_block_def)
  ultimately show ?thesis
    using v i modified_written [OF h' len v(3)] released_busy [OF h' bp(2) v(6,5) bp(1) v(2)] by auto
qed

lemma held_brelse:
  assumes h: "held s dev b bp t"
  shows "bio_inv (brelse bp t) \<and> keeps_content s (brelse bp t) \<and> same_busy s (brelse bp t) \<and> bframe t (brelse bp t)"
proof -
  from h obtain i where i: "i < NBUF" "bp = Buf i" "busy t i" "clean t i" "bio_inv t" "keeps_content s t" "keeps_busy s t"
    by (auto simp: held_def)
  have h': "held s dev b (Buf i) t" using h i by simp
  from i(5) obtain al dl where rep: "bio_rep t al dl" by (auto simp: bio_inv_def)
  note br = brelse_ok [OF rep i(1,3,4)]
  have nb: "\<not> busy (brelse (Buf i) t) i" using br(5) by (auto simp: pl_def released_def)
  have "busy_step i t t" using i by (simp add: busy_step_def upd_buf_def)
  from released_busy [OF h' this br(3) _ i(5) bio_invI [OF br(1)]] upd_busy_idle [OF br(3) nb]
  show ?thesis using i bio_invI [OF br(1)] keeps_content_trans [OF i(6) br(2)] by (simp add: kframe)
qed

section \<open>The contract\<close>

text \<open>
  What the file system relies on. \<open>view s d b\<close> is the content of block \<open>b\<close> of device \<open>d\<close>,
  \<open>got s d b h t\<close> says that \<open>t\<close> arises from \<open>s\<close> by obtaining the handle \<open>h\<close> for that block, and \<open>idle s d b\<close>
  that the block can be had without waiting.
\<close>

locale block_cache =
  fixes ok :: "'s \<Rightarrow> bool"
    and valid :: "'s \<Rightarrow> int \<Rightarrow> int \<Rightarrow> bool"
    and view :: "'s \<Rightarrow> int \<Rightarrow> int \<Rightarrow> int list"
    and idle :: "'s \<Rightarrow> int \<Rightarrow> int \<Rightarrow> bool"
    and kept :: "'s \<Rightarrow> 's \<Rightarrow> bool"
    and got :: "'s \<Rightarrow> int \<Rightarrow> int \<Rightarrow> 'h \<Rightarrow> 's \<Rightarrow> bool"
    and data :: "'h \<Rightarrow> 's \<Rightarrow> int list"
    and put :: "'h \<Rightarrow> int list \<Rightarrow> 's \<Rightarrow> 's"
    and rd :: "int \<Rightarrow> int \<Rightarrow> ('h, 's) kmon"
    and wr :: "'h \<Rightarrow> (unit, 's) kmon"
    and rel :: "'h \<Rightarrow> 's \<Rightarrow> 's"
  assumes rd_ok: "ok s \<Longrightarrow> valid s d b \<Longrightarrow>
      kpost (rd d b s) (\<lambda>h t. got s d b h t \<and> data h t = view s d b) (\<lambda>_ _ t. ok t \<and> \<not> idle s d b) (\<lambda>_ _. False)"
    and wr_ok: "got s d b h t \<Longrightarrow> valid s d b \<Longrightarrow> length bs = 512 \<Longrightarrow>
      \<exists>v. wr h (put h bs t) = Ok () v \<and> ok v \<and> kept s v \<and>
        (\<forall>d' b'. valid s d' b' \<longrightarrow> view v d' b' = (if d' = d \<and> b' = b then bs else view s d' b'))"
    and rel_ok: "got s d b h t \<Longrightarrow> ok (rel h t) \<and> kept s (rel h t) \<and>
      (\<forall>d' b'. valid s d' b' \<longrightarrow> view (rel h t) d' b' = view s d' b')"
    and kept_valid: "kept s v \<Longrightarrow> valid s d b \<Longrightarrow> valid v d b"
    and kept_idle: "kept s v \<Longrightarrow> idle s d b \<Longrightarrow> idle v d b"
    and view_length: "ok s \<Longrightarrow> valid s d b \<Longrightarrow> length (view s d b) = 512"
begin

text \<open>Reading a block, changing its data and handing it back for writing.\<close>

definition rmw :: "int \<Rightarrow> int \<Rightarrow> (int list \<Rightarrow> int list) \<Rightarrow> (unit, 's) kmon" where
  "rmw d b f = kbind (rd d b) (\<lambda>h s. wr h (put h (f (data h s)) s))"

definition look :: "int \<Rightarrow> int \<Rightarrow> (int list, 's) kmon" where
  "look d b = kbind (rd d b) (\<lambda>h s. Ok (data h s) (rel h s))"

lemma rmw_ok:
  assumes "ok s" "valid s d b" "\<And>x. length x = 512 \<Longrightarrow> length (f x) = 512"
  shows "kpost (rmw d b f s)
    (\<lambda>_ v. ok v \<and> kept s v \<and>
       (\<forall>d' b'. valid s d' b' \<longrightarrow> view v d' b' = (if d' = d \<and> b' = b then f (view s d b) else view s d' b')))
    (\<lambda>_ _ t. ok t \<and> \<not> idle s d b) (\<lambda>_ _. False)"
  unfolding rmw_def kpost_bind
proof (rule kpost_weaken [OF rd_ok [OF assms(1,2)]])
  fix h t assume g: "got s d b h t \<and> data h t = view s d b"
  have "length (f (view s d b)) = 512" using view_length [OF assms(1,2)] assms(3) by blast
  from wr_ok [OF _ assms(2) this, of h t] g
  show "kpost (wr h (put h (f (data h t)) t))
      (\<lambda>_ v. ok v \<and> kept s v \<and>
         (\<forall>d' b'. valid s d' b' \<longrightarrow> view v d' b' = (if d' = d \<and> b' = b then f (view s d b) else view s d' b')))
      (\<lambda>_ _ t. ok t \<and> \<not> idle s d b) (\<lambda>_ _. False)" by auto
qed auto

lemma look_ok:
  assumes "ok s" "valid s d b"
  shows "kpost (look d b s)
    (\<lambda>x v. x = view s d b \<and> ok v \<and> kept s v \<and> (\<forall>d' b'. valid s d' b' \<longrightarrow> view v d' b' = view s d' b'))
    (\<lambda>_ _ t. ok t \<and> \<not> idle s d b) (\<lambda>_ _. False)"
  unfolding look_def kpost_bind
  by (rule kpost_weaken [OF rd_ok [OF assms]]) (use rel_ok in auto)

text \<open>A block reads back as it was left, whatever was done to another block in between.\<close>

lemma rmw_rmw_look:
  assumes "ok s" "valid s d b" "valid s d' b'" "(d', b') \<noteq> (d, b)"
    "\<And>x. length x = 512 \<Longrightarrow> length (f x) = 512" "\<And>x. length x = 512 \<Longrightarrow> length (g x) = 512"
  shows "kpost (kthen (rmw d b f) (kthen (rmw d' b' g) (look d b)) s)
    (\<lambda>x v. x = f (view s d b) \<and> ok v) (\<lambda>_ _ t. ok t \<and> \<not> (idle s d b \<and> idle s d' b')) (\<lambda>_ _. False)"
  unfolding kpost_then
proof (rule kpost_weaken [OF rmw_ok [where f = f, OF assms(1,2,5)]])
  let ?S = "\<lambda>_ _ t. ok t \<and> \<not> (idle s d b \<and> idle s d' b')"
  fix t assume t: "ok t \<and> kept s t \<and>
    (\<forall>d' b'. valid s d' b' \<longrightarrow> view t d' b' = (if d' = d \<and> b' = b then f (view s d b) else view s d' b'))"
  then have vt: "valid t d b" "valid t d' b'" using kept_valid assms(2,3) by auto
  have it: "idle s d b \<Longrightarrow> idle t d b" "idle s d' b' \<Longrightarrow> idle t d' b'" using t kept_idle by auto
  show "kpost (rmw d' b' g t) (\<lambda>x t. kpost (look d b t) (\<lambda>x v. x = f (view s d b) \<and> ok v) ?S (\<lambda>_ _. False))
      ?S (\<lambda>_ _. False)"
  proof (rule kpost_weaken [OF rmw_ok [where f = g, OF _ vt(2) assms(6)]])
    fix v assume v: "ok v \<and> kept t v \<and>
      (\<forall>da ba. valid t da ba \<longrightarrow> view v da ba = (if da = d' \<and> ba = b' then g (view t d' b') else view t da ba))"
    then have vv: "valid v d b" "idle s d b \<Longrightarrow> idle v d b" using kept_valid vt kept_idle it by auto
    have "view v d b = f (view s d b)" using v t vt assms(2,4) by auto
    with look_ok [OF _ vv(1)] v vv(2) show "kpost (look d b v) (\<lambda>x v. x = f (view s d b) \<and> ok v) ?S (\<lambda>_ _. False)"
      by (auto intro: kpost_weaken)
  qed (use t it in auto)
qed auto

end

definition valid_blk :: "'a bst_scheme \<Rightarrow> int \<Rightarrow> int \<Rightarrow> bool" where
  "valid_blk s d b \<longleftrightarrow> dev_ok s d \<and> in_range s d b"

definition idle_blk :: "'a bst_scheme \<Rightarrow> int \<Rightarrow> int \<Rightarrow> bool" where
  "idle_blk s d b \<longleftrightarrow> (\<forall>i<NBUF. same_block d b (bufs s (Buf i)) \<longrightarrow> \<not> busy s i) \<and> (\<exists>i<NBUF. \<not> busy s i)"

definition kept_rest :: "'a bst_scheme \<Rightarrow> 'a bst_scheme \<Rightarrow> bool" where
  "kept_rest s t \<longleftrightarrow> same_devs s t \<and> same_busy s t \<and> bframe s t"

definition got_blk :: "'a bst_scheme \<Rightarrow> int \<Rightarrow> int \<Rightarrow> bptr \<Rightarrow> 'a bst_scheme \<Rightarrow> bool" where
  "got_blk s d b bp t \<longleftrightarrow> held s d b bp t \<and> bframe s t"

lemma must_wait_busy: "must_wait s d b c t \<Longrightarrow> bio_inv t \<and> \<not> idle_blk s d b"
  unfolding must_wait_def idle_blk_def by blast

lemma lcont_length: "bio_inv s \<Longrightarrow> length (lcont s d b) = 512"
  by (auto simp: lcont_def bio_inv_def bio_rep_def buf_ok_def find_Some_iff split: option.split)

lemma same_busy_idle: "same_busy s t \<Longrightarrow> idle_blk s d b \<Longrightarrow> idle_blk t d b"
  by (auto simp: same_busy_def keeps_busy_def idle_blk_def same_block_def pl_eq)

text \<open>Nobody holds a buffer of the device, and two buffers are available.\<close>

definition calm :: "'a bst_scheme \<Rightarrow> int \<Rightarrow> bool" where
  "calm s d \<longleftrightarrow> (\<forall>i<NBUF. busy s i \<longrightarrow> bdev s i \<noteq> d) \<and> (\<exists>i<NBUF. \<exists>j<NBUF. i \<noteq> j \<and> \<not> busy s i \<and> \<not> busy s j)"

lemma calm_idle: "calm s d \<Longrightarrow> idle_blk s d b"
  by (auto simp: calm_def idle_blk_def same_block_def)

lemma calm_same_busy: "same_busy s t \<Longrightarrow> calm s d \<Longrightarrow> calm t d"
  unfolding same_busy_def keeps_busy_def calm_def pl_eq by (elim conjE, intro conjI) (metis, blast)

interpretation bc: block_cache bio_inv valid_blk lcont idle_blk kept_rest got_blk bdata bput bread bdwrite brelse
proof
  fix s t v :: "'a bst_scheme" and d b :: int and h and bs :: "int list"
  show "kpost (bread d b s) (\<lambda>h t. got_blk s d b h t \<and> bdata h t = lcont s d b)
      (\<lambda>_ _ t. bio_inv t \<and> \<not> idle_blk s d b) (\<lambda>_ _. False)" if "bio_inv s" "valid_blk s d b"
  proof (rule kpost_weaken [OF bread_ok [of s d b]])
    show "bio_inv s" "dev_ok s d" "in_range s d b" using that by (auto simp: valid_blk_def)
  qed (auto simp: got_blk_def dest!: must_wait_busy)
  show "\<exists>v. bdwrite h (bput h bs t) = Ok () v \<and> bio_inv v \<and> kept_rest s v \<and>
      (\<forall>d' b'. valid_blk s d' b' \<longrightarrow> lcont v d' b' = (if d' = d \<and> b' = b then bs else lcont s d' b'))"
    if "got_blk s d b h t" "valid_blk s d b" "length bs = 512"
  proof -
    from that have g: "held s d b h t" "bframe s t" "d \<noteq> NODEV" "in_range s d b"
      by (auto simp: got_blk_def valid_blk_def dev_ok_def)
    from held_bdwrite [OF g(1) that(3) g(3,4)] obtain v where v: "bdwrite h (bput h bs t) = Ok () v" "bio_inv v"
      "updated s d b bs v" "same_busy s v" "bframe t v" by blast
    with bframe_trans [OF g(2) v(5)] show ?thesis
      by (intro exI [of _ v]) (simp add: kept_rest_def updated_def valid_blk_def dev_ok_def)
  qed
  show "bio_inv (brelse h t) \<and> kept_rest s (brelse h t) \<and>
      (\<forall>d' b'. valid_blk s d' b' \<longrightarrow> lcont (brelse h t) d' b' = lcont s d' b')" if "got_blk s d b h t"
    using held_brelse [of s d b h t] that bframe_trans [of s t]
    by (auto simp: got_blk_def valid_blk_def dev_ok_def kept_rest_def keeps_content_def)
  show "valid_blk v d b" if "kept_rest s v" "valid_blk s d b"
    using that by (auto simp: kept_rest_def valid_blk_def same_devs_simps)
  show "idle_blk v d b" if "kept_rest s v" "idle_blk s d b" using that same_busy_idle by (auto simp: kept_rest_def)
  show "length (lcont s d b) = 512" if "bio_inv s" using lcont_length [OF that] .
qed

section \<open>Read-ahead and unassociated buffers\<close>

lemma incore_ok:
  assumes "bio_inv s" "dev_ok s dev"
  shows "incore dev b s = Ok (\<exists>i<NBUF. same_block dev b (bufs s (Buf i))) s"
proof -
  from assms(1) obtain al dl where rep: "bio_rep s al dl" by (auto simp: bio_inv_def)
  then have "lists_ok s al dl" by (simp add: bio_rep_def)
  note sc = dev_scan [OF this dtab_in_heads [OF assms(2)], of "\<lambda>p. same_block dev b (bufs s p)"]
  have "find (\<lambda>p. same_block dev b (bufs s p)) (dl (dtab dev s)) \<noteq> None \<longleftrightarrow> (\<exists>i<NBUF. same_block dev b (bufs s (Buf i)))"
    using find_block [OF rep assms(2), of b] by (auto split: option.splits)
  then show ?thesis using sc by (simp add: incore_def Let_def)
qed

text \<open>What the read-ahead part of \<^verbatim>\<open>breada\<close> may do to the state: fill an idle buffer.\<close>

definition harmless :: "'a bst_scheme \<Rightarrow> 'a bst_scheme \<Rightarrow> bool" where
  "harmless s t \<longleftrightarrow> bio_inv t \<and> keeps_content s t \<and> same_busy s t \<and> bframe s t"

lemma harmless_refl: "bio_inv s \<Longrightarrow> harmless s s"
  by (simp add: harmless_def same_busy_def)

lemma harmless_stat: "harmless s t \<Longrightarrow> harmless s (t\<lparr>nreada := c\<rparr>)"
  by (simp add: harmless_def bio_inv_def keeps_content_def same_devs_def same_busy_def keeps_busy_def kframe)

lemma read_async:
  assumes h: "held s dev b bp t" and f: "bframe s t" and nd: "B_DONE \<notin> b_flags (bufs t bp)" and r: "in_range s dev b"
  shows "harmless s (start_read {B_READ, B_ASYNC} bp t)"
proof -
  from h obtain i al dl where i: "i < NBUF" "bp = Buf i" "busy t i" "same_block dev b (bufs t (Buf i))" "\<not> busy s i"
    "keeps_content s t" and rep: "bio_rep t al dl" by (auto simp: held_def bio_inv_def)
  have h': "held s dev b (Buf i) t" using h i by simp
  have nd': "B_DONE \<notin> flags t i" using nd i by simp
  have r': "in_range t (bdev t i) (bno t i)" using r i(4,6) by (auto simp: same_block_def keeps_content_def same_devs_simps)
  let ?fs = "{B_READ, B_ASYNC}" let ?d = "rd_done ?fs i t"
  note rd = rd_done_ok [OF rep i(1,3) _ _ nd' r', of ?fs, simplified]
  have fl: "flags ?d i = flags t i \<union> {B_READ, B_ASYNC, B_DONE}" by (auto simp: rd_done_pl)
  have cl: "clean ?d i" and bd: "busy ?d i" using rd(5) fl i by (auto simp: clean_def rd_done_pl)
  note br = brelse_ok [OF rd(2) i(1) bd cl]
  have e: "start_read ?fs bp t = brelse (Buf i) ?d"
  proof -
    have "B_ASYNC \<in> flags (bflag_set (Buf i) {B_DONE} (md_io i (rd_start ?fs i t))) i"
      using fl unfolding rd_done_def by blast
    then have "iodone (Buf i) (md_io i (rd_start ?fs i t)) = brelse (Buf i) ?d"
      unfolding iodone_def Let_def rd_done_def by (rule if_P)
    with rd(1) show ?thesis by (simp add: start_read_def i(2) rd_start_def)
  qed
  have nb: "\<not> busy (brelse (Buf i) ?d) i" using br(5) by (auto simp: pl_def released_def)
  have "same_busy s (brelse (Buf i) ?d)"
    using released_busy [OF h' rd(3) br(3) _ bio_invI [OF rd(2)] bio_invI [OF br(1)]] upd_busy_idle [OF br(3) nb] by blast
  moreover have "keeps_content s (brelse (Buf i) ?d)"
    using keeps_content_trans [OF i(6) keeps_content_trans [OF rd(4) br(2)]] .
  ultimately show ?thesis unfolding harmless_def e using bio_invI [OF br(1)] f by (simp add: kframe)
qed

lemma read_ahead_ok:
  assumes "bio_inv s" "dev_ok s dev" "ra \<noteq> 0 \<longrightarrow> in_range s dev ra"
  shows "kpost ((if ra = 0 then kret ()
            else kbind (incore dev ra) (\<lambda>rahit.
              if rahit then kret ()
              else kbind (getblk dev ra) (\<lambda>rabp s.
                Ok () (if B_DONE \<in> b_flags (bufs s rabp) then brelse rabp s
                       else (let s = start_read {B_READ, B_ASYNC} rabp s in s\<lparr>nreada := nreada s + 1\<rparr>))))) s)
     (\<lambda>_ t. harmless s t) (\<lambda>_ _ t. bio_inv t \<and> (\<forall>i<NBUF. busy s i)) (\<lambda>_ _. False)"
proof -
  have g: "kpost (getblk dev ra s) (\<lambda>rabp t.
      harmless s (if B_DONE \<in> b_flags (bufs t rabp) then brelse rabp t
         else (let s = start_read {B_READ, B_ASYNC} rabp t in s\<lparr>nreada := nreada s + 1\<rparr>)))
     (\<lambda>_ _ t. bio_inv t \<and> (\<forall>i<NBUF. busy s i)) (\<lambda>_ _. False)" if "ra \<noteq> 0" "\<not> (\<exists>i<NBUF. same_block dev ra (bufs s (Buf i)))"
  proof (rule kpost_weaken [OF getblk_ok [OF assms(1,2), of ra]])
    fix bp t assume h: "held s dev ra bp t \<and> bframe s t"
    show "harmless s (if B_DONE \<in> b_flags (bufs t bp) then brelse bp t
         else (let s = start_read {B_READ, B_ASYNC} bp t in s\<lparr>nreada := nreada s + 1\<rparr>))"
      using h held_brelse [of s dev ra bp t] read_async [of s dev ra bp t] assms(3) that(1) harmless_stat bframe_trans [of s t]
      by (auto simp: harmless_def Let_def)
  qed (use that(2) in \<open>auto simp: idle_blk_def dest!: must_wait_busy\<close>)
  show ?thesis using g assms(1) by (simp add: incore_ok [OF assms(1,2)] kbind_def [of "incore dev ra"] harmless_refl)
qed

lemma held_harmless:
  assumes h: "held s dev b bp t" and hm: "harmless t v"
  shows "held s dev b bp v"
proof -
  from h obtain i where i: "i < NBUF" "bp = Buf i" "\<not> busy s i" "\<forall>j<NBUF. busy t j \<longleftrightarrow> j = i \<or> busy s j"
    "same_block dev b (bufs t (Buf i))" "B_ASYNC \<notin> flags t i" "clean t i" "bio_inv t" "keeps_content s t" "keeps_busy s t"
    by (auto simp: held_def)
  from hm have v: "bio_inv v" "keeps_content t v" "\<forall>j<NBUF. busy v j = busy t j" "keeps_busy t v"
    by (auto simp: harmless_def same_busy_def)
  have "busy t i" using i by blast
  then have e: "pl (bufs v (Buf i)) = pl (bufs t (Buf i))" "buffers v i = buffers t i" using v(4) i(1) by (auto simp: keeps_busy_def)
  have "same_devs t v" using v(2) by (simp add: keeps_content_def)
  moreover have "bdev t i \<noteq> NODEV \<longrightarrow> on_disk v (bdev t i) (bno t i) = on_disk t (bdev t i) (bno t i)"
    using v(4) \<open>busy t i\<close> i(1) by (simp add: keeps_busy_def)
  ultimately have "clean v i" using i(7) e unfolding clean_def pl_eq by (auto simp: same_devs_simps)
  with i v e keeps_content_trans [OF i(9) v(2)] keeps_busy_trans [OF i(10) v(4)] show ?thesis
    unfolding held_def by (auto simp: same_block_def pl_eq)
qed

lemma harmless_inv: "harmless s t \<Longrightarrow> bio_inv t \<and> dev_ok t d = dev_ok s d \<and> in_range t d b = in_range s d b \<and>
    (d \<noteq> NODEV \<longrightarrow> in_range s d b \<longrightarrow> lcont t d b = lcont s d b)"
  by (auto simp: harmless_def keeps_content_def same_devs_simps)

lemma held_after_harmless:
  assumes "harmless s t" "held t dev b bp v"
  shows "held s dev b bp v"
  using assms by (intro held_trans [of s t]) (auto simp: harmless_def same_busy_def)

lemma breada_ok:
  assumes inv: "bio_inv s" and dev: "dev_ok s dev" and r: "in_range s dev b" and ra: "ra \<noteq> 0 \<longrightarrow> in_range s dev ra"
  shows "kpost (breada dev b ra s)
     (\<lambda>bp t. held s dev b bp t \<and> B_DONE \<in> b_flags (bufs t bp) \<and> bdata bp t = lcont s dev b \<and> bframe s t)
     (\<lambda>_ _ t. bio_inv t \<and> \<not> calm s dev) (\<lambda>_ _. False)"
proof -
  let ?Q = "\<lambda>bp t. held s dev b bp t \<and> B_DONE \<in> b_flags (bufs t bp) \<and> bdata bp t = lcont s dev b \<and> bframe s t"
  let ?A = "if ra = 0 then kret ()
            else kbind (incore dev ra) (\<lambda>rahit.
              if rahit then kret ()
              else kbind (getblk dev ra) (\<lambda>rabp s.
                Ok () (if B_DONE \<in> b_flags (bufs s rabp) then brelse rabp s
                       else (let s = start_read {B_READ, B_ASYNC} rabp s in s\<lparr>nreada := nreada s + 1\<rparr>))))"
  have dn: "dev \<noteq> NODEV" using dev by (simp add: dev_ok_def)
  have hit: "kpost (kthen ?A (bread dev b) s) ?Q (\<lambda>_ _ t. bio_inv t \<and> \<not> calm s dev) (\<lambda>_ _. False)"
    unfolding kpost_then
  proof (rule kpost_weaken [OF read_ahead_ok [OF inv dev ra]])
    fix t assume h: "harmless s t"
    note hi = harmless_inv [OF h, of dev b]
    have ct: "calm s dev \<Longrightarrow> idle_blk t dev b" using h calm_same_busy [of s t dev] calm_idle [of t dev b] by (auto simp: harmless_def)
    show "kpost (bread dev b t) ?Q (\<lambda>_ _ t. bio_inv t \<and> \<not> calm s dev) (\<lambda>_ _. False)"
    proof (rule kpost_weaken [OF bread_ok [of t dev b]])
      show "bio_inv t" "dev_ok t dev" "in_range t dev b" using hi dev r by auto
      show "?Q bp v" if "held t dev b bp v \<and> B_DONE \<in> b_flags (bufs v bp) \<and> bdata bp v = lcont t dev b \<and> bframe t v" for bp v
        using that held_after_harmless [OF h, of dev b bp v] hi r dn bframe_trans [of s t v] h by (auto simp: harmless_def)
    qed (use ct in \<open>auto dest: must_wait_busy\<close>)
  qed (auto simp: calm_def)
  have rest: "kpost (kthen ?A (kthen (iowait bp) (kret bp)) t) ?Q (\<lambda>_ _ t. bio_inv t \<and> \<not> calm s dev) (\<lambda>_ _. False)"
    if h: "held s dev b bp t" and d: "B_DONE \<in> b_flags (bufs t bp)" "B_ERROR \<notin> b_flags (bufs t bp)" and f: "bframe s t" for bp t
  proof -
    have it: "bio_inv t" and sd: "same_devs s t" using h by (auto simp: held_def keeps_content_def)
    have t: "dev_ok t dev" "ra \<noteq> 0 \<longrightarrow> in_range t dev ra" using sd dev ra by (auto simp: same_devs_simps)
    have ct: "\<not> calm s dev" if "\<forall>i<NBUF. busy t i" using h that unfolding held_def calm_def by blast
    show ?thesis unfolding kpost_then
    proof (rule kpost_weaken [OF read_ahead_ok [OF it t]])
      fix v assume hv: "harmless t v"
      have hd: "held s dev b bp v" by (rule held_harmless [OF h hv])
      obtain i where i: "bp = Buf i" "i < NBUF" "busy t i" using h by (auto simp: held_def)
      have "b_flags (bufs v bp) = b_flags (bufs t bp)" using hv i by (auto simp: harmless_def same_busy_def keeps_busy_def pl_eq)
      with d hd held_data [OF hd dn r] bframe_trans [OF f, of v] hv
      show "kpost (iowait bp v) (\<lambda>x t. kpost (kret bp t) ?Q (\<lambda>_ _ t. bio_inv t \<and> \<not> calm s dev) (\<lambda>_ _. False)) (\<lambda>_ _ t. bio_inv t \<and> \<not> calm s dev) (\<lambda>_ _. False)"
        by (simp add: iowait_def geterror_id harmless_def)
    qed (use ct in auto)
  qed
  have miss: "kpost (kthen ?A (kthen (iowait bp) (kret bp))
       (if B_DONE \<in> b_flags (bufs t bp) then t else (let s = start_read {B_READ} bp t in s\<lparr>nread := nread s + 1\<rparr>)))
     ?Q (\<lambda>_ _ t. bio_inv t \<and> \<not> calm s dev) (\<lambda>_ _. False)" if h: "held s dev b bp t \<and> bframe s t" for bp t
  proof (cases "B_DONE \<in> b_flags (bufs t bp)")
    case True
    obtain i al dl where i: "bp = Buf i" "i < NBUF" "same_block dev b (bufs t (Buf i))" "bio_rep t al dl" "same_devs s t"
      using h by (auto simp: held_def bio_inv_def keeps_content_def)
    then have "B_ERROR \<notin> b_flags (bufs t bp)" using r dn by (auto simp: bio_rep_def buf_ok_def same_block_def same_devs_simps)
    with True h rest show ?thesis by simp
  next
    case False
    obtain i where i: "bp = Buf i" using h held_Buf by blast
    let ?v = "start_read {B_READ} (Buf i) t"
    note rd = held_read [of s dev b i t, OF _ _ dn r]
    have "held s dev b (Buf i) ?v" "B_DONE \<in> flags ?v i" "B_ERROR \<notin> flags ?v i" "bframe s ?v"
      using rd h False i bframe_trans [of s t ?v] by auto
    with False i rest [of "Buf i" "?v\<lparr>nread := nread ?v + 1\<rparr>"] show ?thesis by (simp add: Let_def kframe)
  qed
  show ?thesis
  proof (cases "\<exists>i<NBUF. same_block dev b (bufs s (Buf i))")
    case True
    then show ?thesis using hit
      unfolding breada_def by (simp add: incore_ok [OF inv dev] kbind_def [of "incore dev b"] kbind_def [of "kret None"] kret_def)
  next
    case False
    have "kpost (getblk dev b s) (\<lambda>bp t. kpost (kthen ?A (kthen (iowait bp) (kret bp))
       (if B_DONE \<in> b_flags (bufs t bp) then t else (let s = start_read {B_READ} bp t in s\<lparr>nread := nread s + 1\<rparr>)))
     ?Q (\<lambda>_ _ t. bio_inv t \<and> \<not> calm s dev) (\<lambda>_ _. False)) (\<lambda>_ _ t. bio_inv t \<and> \<not> calm s dev) (\<lambda>_ _. False)"
      by (rule kpost_weaken [OF getblk_ok [OF inv dev]]) (use miss calm_idle [of s dev b] in \<open>auto dest: must_wait_busy\<close>)
    moreover have "incore dev b s = Ok False s" using False incore_ok [OF inv dev, of b] by simp
    ultimately show ?thesis unfolding breada_def kpost_bind by simp
  qed
qed

text \<open>A buffer from \<^verbatim>\<open>geteblk\<close>: held, and associated with no block.\<close>

definition held_none :: "'a bst_scheme \<Rightarrow> bptr \<Rightarrow> 'a bst_scheme \<Rightarrow> bool" where
  "held_none s bp t \<longleftrightarrow> (\<exists>i<NBUF. bp = Buf i \<and> \<not> busy s i \<and> (\<forall>j<NBUF. busy t j \<longleftrightarrow> j = i \<or> busy s j) \<and>
     bdev t i = NODEV \<and> bio_inv t \<and> keeps_content s t \<and> keeps_busy s t \<and> bframe s t)"

lemma geteblk_loop_ok:
  assumes "bio_rep s al dl" "ndel s < n"
  shows "kpost (geteblk_loop n s) (\<lambda>bp t. held_none s bp t)
     (\<lambda>c p t. c = Ch_buf Bfreelist \<and> bio_inv t \<and> (\<forall>i<NBUF. busy s i) \<and> B_WANTED \<in> b_flags (bufs t Bfreelist)) (\<lambda>_ _. False)"
  using assms
proof (induction n arbitrary: s al)
  case (Suc n)
  note rep = Suc.prems(1)
  have li: "lists_ok s al dl" using rep by (simp add: bio_rep_def)
  show ?case
  proof (cases al)
    case Nil
    with rep wanted_hd_ok [of s dl 0 0] no_avail [OF li] show ?thesis by (auto simp: ksleep_def must_wait_def)
  next
    case (Cons p ys)
    then obtain i where p: "p = Buf i" "i < NBUF" "\<not> busy s i" using avail_mem [OF li, of p] by auto
    have fa: "av_forw (bufs s Bfreelist) = Buf i" using first_avail [of s p ys dl] li Cons p by simp
    have rep1: "bio_rep s ([] @ Buf i # ys) dl" using rep Cons p by simp
    have d: "dll (avf s) (avb s) Bfreelist ([] @ Buf i # ys)" using li Cons p by (simp add: lists_ok_def)
    note sm = notavail_summary [OF avb_ne(1) [OF d], of "Buf i", simplified]
    have fl: "B_DELWRI \<in> flags (notavail (Buf i) s) i \<longleftrightarrow> B_DELWRI \<in> flags s i" using sm(6) [of "Buf i"] by (simp add: pl_def)
    show ?thesis
    proof (cases "B_DELWRI \<in> flags s i")
      case True
      note ev = evict_ok [OF rep1 True]
      have bs: "busy (evict i s) j = busy s j" if "j < NBUF" for j
        using that avail_mem [of "evict i s" "[] @ ys @ [Buf i]" dl "Buf j"] ev(2) avail_mem [OF li, of "Buf j"] Cons p
        by (auto simp: bio_rep_def)
      have "kpost (geteblk_loop n (evict i s)) (\<lambda>bp t. held_none s bp t)
        (\<lambda>c p t. c = Ch_buf Bfreelist \<and> bio_inv t \<and> (\<forall>i<NBUF. busy s i) \<and> B_WANTED \<in> b_flags (bufs t Bfreelist)) (\<lambda>_ _. False)"
      proof (rule kpost_weaken [OF Suc.IH [OF ev(2)]])
        show "ndel (evict i s) < n" using ev(5) Suc.prems(2) by simp
        show "held_none s bp t" if "held_none (evict i s) bp t" for bp t
          using that bs keeps_content_trans [OF ev(3)] keeps_busy_trans [OF ev(4)] bframe_trans [OF ev(6)]
          unfolding held_none_def by blast
      qed (use bs in auto)
      with True fl fa ev(1) show ?thesis by (simp add: Let_def)
    next
      case False
      let ?f = "\<lambda>b'. b'\<lparr>b_dev := NODEV\<rparr>"
      have "Bfreelist \<in> heads s" by (simp add: heads_def)
      note tk = take_over_ok [of s i ys dl Bfreelist ?f NODEV 0, OF _ False this]
      have "held_none s (Buf i) (take_over i Bfreelist ?f s)" using tk rep1 by (auto simp: held_none_def)
      with False fl fa show ?thesis by (simp add: Let_def take_over_def)
    qed
  qed
qed simp

lemma geteblk_ok:
  assumes "bio_inv s"
  shows "kpost (geteblk s) (\<lambda>bp t. held_none s bp t)
     (\<lambda>c p t. c = Ch_buf Bfreelist \<and> bio_inv t \<and> (\<forall>i<NBUF. busy s i) \<and> B_WANTED \<in> b_flags (bufs t Bfreelist)) (\<lambda>_ _. False)"
proof -
  from assms obtain al dl where "bio_rep s al dl" by (auto simp: bio_inv_def)
  with geteblk_loop_ok [of s al dl "NBUF + 1"] ndel_bound [of s] show ?thesis by (simp add: geteblk_def)
qed

section \<open>Properties\<close>

text \<open>A freshly initialised cache over one memory disk, for the witnesses.\<close>

definition buf0 :: buf where
  "buf0 = \<lparr>b_flags = {}, b_forw = NULLB, b_back = NULLB, av_forw = NULLB, av_back = NULLB, b_dev = 0, b_bcount = 0,
     b_addr = Aphys 0, b_blkno = 0, b_error = 0, b_resid = 0\<rparr>"

definition boot_st :: bst where
  "boot_st = \<lparr>u = user0, proc = (\<lambda>_. proc0), klog = [], time = 0, lbolt = 0, runq = None, slpque = (\<lambda>_. None), curpri = 0,
     runrun = 0, runin = 0, runout = 0, mpid = 0, umem = (\<lambda>_. None), core = (\<lambda>_. 0),
     bufs = (\<lambda>_. buf0), buffers = (\<lambda>_. replicate 512 0), d_tab = [Dtab 0], nblkdev = 0,
     mdmem = (\<lambda>_ _. 0), mdsz = (\<lambda>_. 4096), nread = 0, nreada = 0, ncache = 0, nwrite = 0,
     bufcount = (\<lambda>_. 0), swapdev = 0, swplo = 0, pdir = (\<lambda>_. None)\<rparr>"

lemma boot_st_ok: "boot_ok boot_st"
  by (simp add: boot_ok_def boot_st_def buf0_def)

lemma boot_inv: "bio_inv (binit boot_st)" "dev_ok (binit boot_st) 0" "in_range (binit boot_st) 0 7"
  "\<forall>i<NBUF. \<not> busy (binit boot_st) i" "valid_blk (binit boot_st) 0 7" "valid_blk (binit boot_st) 0 8"
  using binit_inv [OF boot_st_ok]
  by (simp_all add: dev_ok_def dtab_def in_range_def boot_st_def NODEV_def major_def cuint_def valid_blk_def)

lemma boot_idle: "idle_blk (binit boot_st) d b"
proof -
  have "0 < NBUF" by (simp add: NBUF_def)
  with boot_inv(4) show ?thesis by (auto simp: idle_blk_def)
qed

lemma boot_read: "\<exists>i t. i < NBUF \<and> bread 0 7 (binit boot_st) = Ok (Buf i) t \<and> bio_inv t \<and> busy t i \<and> in_range t (bdev t i) (bno t i)"
proof -
  have "kpost (bread 0 7 (binit boot_st)) (\<lambda>bp t. held (binit boot_st) 0 7 bp t) (\<lambda>_ _ _. False) (\<lambda>_ _. False)"
    by (rule kpost_weaken [OF bread_ok [OF boot_inv(1-3)]]) (auto simp: boot_idle dest!: must_wait_busy)
  then obtain bp t where b: "bread 0 7 (binit boot_st) = Ok bp t" "held (binit boot_st) 0 7 bp t"
    by (cases "bread 0 7 (binit boot_st)") auto
  then show ?thesis using boot_inv(3) by (auto simp: held_def keeps_content_def same_block_def same_devs_simps)
qed

text \<open>
  C31: the loader's state turns into a consistent cache: after \<^verbatim>\<open>binit\<close> every buffer is on the
  available list and on the list of unassociated buffers, and none is busy.
\<close>

theorem binit_establishes:
  assumes "boot_ok s"
  shows "bio_inv (binit s) \<and> (\<forall>i<NBUF. \<not> busy (binit s) i) \<and> nblkdev (binit s) = int (length (d_tab s))"
  using binit_inv [OF assms] by simp

theorem binit_establishes_witness: "bio_inv (binit boot_st)"
  using binit_establishes [OF boot_st_ok] by simp

text \<open>
  C1: \<^verbatim>\<open>bread\<close> of a block of a configured device gives the caller a buffer nobody else held,
  with the logical content of that block, and changes no block's content and no held buffer; it
  goes to sleep only when that block is held by somebody or every buffer is busy, and then
  what it sleeps on is marked wanted. It neither panics nor loops, whatever delayed
  writes it has to push out first.
\<close>

theorem bread_content:
  assumes "bio_inv s" "dev_ok s dev" "in_range s dev b"
  shows "case bread dev b s of
      Ok bp t \<Rightarrow> held s dev b bp t \<and> bdata bp t = lcont s dev b \<and> bframe s t
    | Slept c p t \<Rightarrow> must_wait s dev b c t
    | Panicked m t \<Rightarrow> False
    | Spun \<Rightarrow> False"
  using bread_ok [OF assms] by (cases "bread dev b s") auto

theorem bread_content_witness:
  "\<exists>bp t. bread 0 7 (binit boot_st) = Ok bp t \<and>
     bdata bp t = lcont (binit boot_st) 0 7"
proof -
  let ?s = "binit boot_st"
  have "\<not> must_wait ?s 0 7 c t" for c t
    using must_wait_busy [of ?s 0 7 c t] boot_idle by blast
  with bread_content [OF boot_inv(1-3)] show ?thesis
    by (cases "bread 0 7 ?s") auto
qed

text \<open>
  \<^verbatim>\<open>breada\<close> returns what \<^verbatim>\<open>bread\<close> returns: the read-ahead of another block neither
  changes any content nor leaves a buffer busy. It does not sleep when nobody holds a buffer of the device
  and two buffers are available.
\<close>

theorem breada_content:
  assumes "bio_inv s" "dev_ok s dev" "in_range s dev b" "ra \<noteq> 0 \<longrightarrow> in_range s dev ra"
  shows "case breada dev b ra s of
      Ok bp t \<Rightarrow> held s dev b bp t \<and> bdata bp t = lcont s dev b \<and> bframe s t
    | Slept c p t \<Rightarrow> bio_inv t \<and> \<not> calm s dev
    | Panicked m t \<Rightarrow> False
    | Spun \<Rightarrow> False"
  using breada_ok [OF assms] by (cases "breada dev b ra s") auto

theorem breada_content_witness:
  "\<exists>bp t. breada 0 7 8 (binit boot_st) = Ok bp t \<and> bdata bp t = lcont (binit boot_st) 0 7"
proof -
  have "calm (binit boot_st) 0" unfolding calm_def using boot_inv(4)
    by (intro conjI exI [of _ 0] exI [of _ 1]) (auto simp: NBUF_def)
  moreover have "in_range (binit boot_st) 0 8" using boot_inv(6) by (simp add: valid_blk_def)
  ultimately show ?thesis using breada_content [OF boot_inv(1-3), of 8] by (cases "breada 0 7 8 (binit boot_st)") auto
qed

text \<open>
  C29: a block that was read, changed and handed back with \<^verbatim>\<open>bdwrite\<close> reads back as it was left, also
  after another block has gone through the cache, whether or not it has been written to
  the device in the meantime. The sequence sleeps only when one of the two blocks or every buffer is busy.
\<close>

theorem bdwrite_reads_back:
  assumes "bio_inv s" "valid_blk s d b" "valid_blk s d' b'" "(d', b') \<noteq> (d, b)"
    "\<And>x. length x = 512 \<Longrightarrow> length (f x) = 512" "\<And>x. length x = 512 \<Longrightarrow> length (g x) = 512"
  shows "kpost (kthen (kbind (bread d b) (\<lambda>bp s. bdwrite bp (bput bp (f (bdata bp s)) s)))
       (kthen (kbind (bread d' b') (\<lambda>bp s. bdwrite bp (bput bp (g (bdata bp s)) s)))
         (kbind (bread d b) (\<lambda>bp s. Ok (bdata bp s) (brelse bp s)))) s)
    (\<lambda>x v. x = f (lcont s d b) \<and> bio_inv v) (\<lambda>_ _ t. bio_inv t \<and> \<not> (idle_blk s d b \<and> idle_blk s d' b')) (\<lambda>_ _. False)"
  using bc.rmw_rmw_look [where f = f and g = g, OF assms] unfolding bc.rmw_def bc.look_def .

theorem bdwrite_reads_back_witness:
  "kpost (kthen (kbind (bread 0 7) (\<lambda>bp s. bdwrite bp (bput bp (rev (bdata bp s)) s)))
       (kthen (kbind (bread 0 8) (\<lambda>bp s. bdwrite bp (bput bp (replicate 512 1) s)))
         (kbind (bread 0 7) (\<lambda>bp s. Ok (bdata bp s) (brelse bp s)))) (binit boot_st))
    (\<lambda>x v. x = rev (lcont (binit boot_st) 0 7) \<and> bio_inv v) (\<lambda>_ _ _. False) (\<lambda>_ _. False)"
  using bdwrite_reads_back [OF boot_inv(1,5,6), of rev "\<lambda>_. replicate 512 1"] by (simp add: boot_idle)

text \<open>
  \<^verbatim>\<open>bwrite\<close> returns with the data of the buffer on the device and the buffer released; no
  other block and no other held buffer changes.
\<close>

theorem bwrite_through:
  assumes "bio_inv s" "i < NBUF" "busy s i" "in_range s (bdev s i) (bno s i)"
  shows "\<exists>t. bwrite (Buf i) s = Ok () t \<and> bio_inv t \<and> written i s t \<and> bframe s t \<and>
     on_disk t (bdev s i) (bno s i) = buffers s i \<and> (\<forall>j. busy t j \<longleftrightarrow> j \<noteq> i \<and> busy s j)"
  using bwrite_ok [OF assms] by auto

theorem bwrite_through_witness:
  "\<exists>bp t v. bread 0 7 (binit boot_st) = Ok bp t \<and> bwrite bp t = Ok () v \<and> bio_inv v"
proof -
  from boot_read obtain i t where b: "i < NBUF" "bread 0 7 (binit boot_st) = Ok (Buf i) t" "bio_inv t" "busy t i"
    "in_range t (bdev t i) (bno t i)" by blast
  from bwrite_through [OF b(3,1,4,5)] b(2) show ?thesis by blast
qed

text \<open>
  C24: after \<^verbatim>\<open>bflush\<close> of a device the device holds the logical content of every block that is
  not in a busy buffer, and no content has changed; the loop of the code comes to an end.
\<close>

theorem bflush_syncs:
  assumes "bio_inv s"
  shows "\<exists>t. bflush dev s = Ok () t \<and> bio_inv t \<and> keeps_content s t \<and> bframe s t \<and>
     (\<forall>d b. d \<noteq> NODEV \<longrightarrow> in_range s d b \<longrightarrow> (dev = NODEV \<or> dev = d) \<longrightarrow>
        (\<forall>i<NBUF. same_block d b (bufs t (Buf i)) \<longrightarrow> \<not> busy s i) \<longrightarrow> on_disk t d b = lcont s d b)"
proof -
  from assms obtain al dl where rep: "bio_rep s al dl" by (auto simp: bio_inv_def)
  from bflush_loop_ok [OF rep, of "NBUF + 1" dev] ndel_bound [of s] obtain t where
    t: "bflush dev s = Ok () t" "bio_inv t" "keeps_content s t" "bframe s t" "\<forall>i<NBUF. busy t i = busy s i"
      "\<forall>i<NBUF. \<not> busy t i \<longrightarrow> B_DELWRI \<in> flags t i \<longrightarrow> \<not> (dev = NODEV \<or> dev = bdev t i)"
    by (auto simp: bflush_def)
  from t(2) obtain al' dl' where rt: "bio_rep t al' dl'" by (auto simp: bio_inv_def)
  have "on_disk t d b = lcont s d b" if d: "d \<noteq> NODEV" "in_range s d b" "dev = NODEV \<or> dev = d"
    "\<forall>i<NBUF. same_block d b (bufs t (Buf i)) \<longrightarrow> \<not> busy s i" for d b
  proof -
    have "\<forall>i<NBUF. same_block d b (bufs t (Buf i)) \<longrightarrow> \<not> busy t i \<and> B_DELWRI \<notin> flags t i"
      using d t(5,6) by (auto simp: same_block_def)
    moreover have "in_range t d b" using t(3) d by (auto simp: keeps_content_def same_devs_simps)
    ultimately have "on_disk t d b = lcont t d b" using flushed_disk [OF rt d(1)] by blast
    with t(3) d show ?thesis by (simp add: keeps_content_def)
  qed
  with t show ?thesis by blast
qed

theorem bflush_syncs_witness:
  "\<exists>t. bflush NODEV (binit boot_st) = Ok () t \<and> bio_inv t"
  using bflush_syncs [OF boot_inv(1), of NODEV] by blast

end
