(* ===== verification/Bytes.thy ===== *)
theory Bytes
  imports Prelude
begin

text \<open>
  Structures laid over disk blocks. A block is a list of bytes (integers 0 .. 255); fields are
  little-endian at fixed offsets, as the i386 compiler lays them out. The lemmas are the
  read-after-write laws that the codecs of the super block, the disk inode, the free-list
  block and the directory entry are built on.
\<close>

section \<open>Slices\<close>

definition get_bytes :: "nat \<Rightarrow> nat \<Rightarrow> int list \<Rightarrow> int list" where
  "get_bytes p n bs = take n (drop p bs)"

definition put_bytes :: "nat \<Rightarrow> int list \<Rightarrow> int list \<Rightarrow> int list" where
  "put_bytes p xs bs = take p bs @ xs @ drop (p + length xs) bs"

lemma length_put_bytes [simp]: "p + length xs \<le> length bs \<Longrightarrow> length (put_bytes p xs bs) = length bs"
  by (simp add: put_bytes_def)

lemma length_get_bytes [simp]: "p + n \<le> length bs \<Longrightarrow> length (get_bytes p n bs) = n"
  by (simp add: get_bytes_def)

lemma get_put_same [simp]: "p + length xs \<le> length bs \<Longrightarrow> n = length xs \<Longrightarrow> get_bytes p n (put_bytes p xs bs) = xs"
  by (simp add: get_bytes_def put_bytes_def)

lemma get_put_before: "q + n \<le> p \<Longrightarrow> p + length xs \<le> length bs \<Longrightarrow> get_bytes q n (put_bytes p xs bs) = get_bytes q n bs"
  by (rule nth_equalityI) (auto simp: get_bytes_def put_bytes_def nth_append)

lemma get_put_after: "p + length xs \<le> q \<Longrightarrow> p + length xs \<le> length bs \<Longrightarrow> get_bytes q n (put_bytes p xs bs) = get_bytes q n bs"
  by (simp add: get_bytes_def put_bytes_def)

lemmas get_put = get_put_same get_put_before get_put_after

lemma put_bytes_append: "put_bytes 0 xs bs = xs @ drop (length xs) bs"
  by (simp add: put_bytes_def)

lemma put_bytes_all: "length xs = length bs \<Longrightarrow> put_bytes 0 xs bs = xs"
  by (simp add: put_bytes_def)

lemma get_bytes_in: "x \<in> set (get_bytes p n bs) \<Longrightarrow> x \<in> set bs"
  by (auto simp: get_bytes_def dest: in_set_takeD in_set_dropD)

section \<open>Integers\<close>

fun enc :: "nat \<Rightarrow> int \<Rightarrow> int list" where
  "enc 0 v = []"
| "enc (Suc n) v = v mod 256 # enc n (v div 256)"

fun dec :: "int list \<Rightarrow> int" where
  "dec [] = 0"
| "dec (b # bs) = b + 256 * dec bs"

lemma length_enc [simp]: "length (enc n v) = n"
  by (induction n arbitrary: v) auto

lemma dec_enc: "dec (enc n v) = v mod 256 ^ n"
proof (induction n arbitrary: v)
  case (Suc n)
  then show ?case using zmod_zmult2_eq [of "256 ^ n" v 256] by simp
qed simp

lemma enc_bytes: "x \<in> set (enc n v) \<Longrightarrow> 0 \<le> x \<and> x < 256"
  by (induction n arbitrary: v) auto

lemma dec_range: "\<forall>b\<in>set bs. 0 \<le> b \<and> b < 256 \<Longrightarrow> 0 \<le> dec bs \<and> dec bs < 256 ^ length bs"
  by (induction bs) fastforce+

definition u16 :: "int list \<Rightarrow> int" where "u16 bs = ushort (dec bs)"
definition i16 :: "int list \<Rightarrow> int" where "i16 bs = short (dec bs)"
definition i32 :: "int list \<Rightarrow> int" where "i32 bs = cint (dec bs)"
definition i8 :: "int list \<Rightarrow> int" where "i8 bs = (dec bs + 128) mod 256 - 128"

lemma u16_enc [simp]: "u16 (enc 2 v) = ushort v"
  by (simp add: u16_def dec_enc ushort_def)

lemma i16_enc [simp]: "i16 (enc 2 v) = short v"
  by (simp add: i16_def dec_enc short_def) presburger

lemma i32_enc [simp]: "i32 (enc 4 v) = cint v"
  by (simp add: i32_def dec_enc cint_def) (metis mod_add_left_eq)

lemma i8_enc [simp]: "i8 (enc 1 v) = (v + 128) mod 256 - 128"
  by (simp add: i8_def dec_enc mod_add_left_eq)

section \<open>Arrays\<close>

text \<open>An array of \<open>n\<close>-byte elements.\<close>

fun split_every :: "nat \<Rightarrow> nat \<Rightarrow> int list \<Rightarrow> int list list" where
  "split_every n 0 bs = []"
| "split_every n (Suc k) bs = take n bs # split_every n k (drop n bs)"

lemma length_split_every [simp]: "length (split_every n k bs) = k"
  by (induction k arbitrary: bs) auto

lemma split_every_concat:
  "\<forall>x\<in>set xs. length x = n \<Longrightarrow> split_every n (length xs) (concat xs @ ys) = xs"
  by (induction xs) auto

definition enc_arr :: "nat \<Rightarrow> int list \<Rightarrow> int list" where
  "enc_arr n vs = concat (map (enc n) vs)"

lemma length_enc_arr [simp]: "length (enc_arr n vs) = n * length vs"
  by (induction vs) (auto simp: enc_arr_def)

definition i32s :: "nat \<Rightarrow> int list \<Rightarrow> int list" where
  "i32s k bs = map i32 (split_every 4 k bs)"

definition u16s :: "nat \<Rightarrow> int list \<Rightarrow> int list" where
  "u16s k bs = map u16 (split_every 2 k bs)"

lemma length_i32s [simp]: "length (i32s k bs) = k" by (simp add: i32s_def)
lemma length_u16s [simp]: "length (u16s k bs) = k" by (simp add: u16s_def)

lemma i32s_enc: "length vs = k \<Longrightarrow> i32s k (enc_arr 4 vs) = map cint vs"
  using split_every_concat [of "map (enc 4) vs" 4 "[]"] by (simp add: i32s_def enc_arr_def)

lemma u16s_enc: "length vs = k \<Longrightarrow> u16s k (enc_arr 2 vs) = map ushort vs"
  using split_every_concat [of "map (enc 2) vs" 2 "[]"] by (simp add: u16s_def enc_arr_def)

lemma i32s_range: "x \<in> set (i32s k bs) \<Longrightarrow> - 2147483648 \<le> x \<and> x < 2147483648"
  using cint_range by (auto simp: i32s_def i32_def)

lemma map_cint_id: "\<forall>v\<in>set vs. - 2147483648 \<le> v \<and> v < 2147483648 \<Longrightarrow> map cint vs = vs"
  by (induction vs) auto

lemma map_ushort_id: "\<forall>v\<in>set vs. 0 \<le> v \<and> v < 65536 \<Longrightarrow> map ushort vs = vs"
  by (induction vs) auto

end
