(* ===== verification/Fs.thy ===== *)
theory Fs
  imports Bio_Spec Bytes Prf
begin

text \<open>
  The data of the file system: the in-core tables (\<^verbatim>\<open>h/inode.h\<close>, \<^verbatim>\<open>h/file.h\<close>, \<^verbatim>\<open>h/mount.h\<close>) and the
  structures laid over disk blocks (\<^verbatim>\<open>h/filsys.h\<close>, \<^verbatim>\<open>h/fblk.h\<close>, \<^verbatim>\<open>h/ino.h\<close>), read and written field by field at
  the offsets the i386 layout gives them. The super block of a mounted device lives in a buffer
  that stays busy; a pointer to it is the pointer to that buffer.
\<close>

unbundle bit_operations_syntax

section \<open>Constants\<close>

definition NINODE :: nat where "NINODE = 200"
definition NFILE :: nat where "NFILE = 175"
definition NMOUNT :: nat where "NMOUNT = 8"
definition NADDR :: nat where "NADDR = 13"
definition NINDIR :: nat where "NINDIR = 128"
definition NICFREE :: int where "NICFREE = 50"
definition NICINOD :: int where "NICINOD = 100"
definition INOPB :: nat where "INOPB = 8"
definition ROOTINO :: int where "ROOTINO = 2"
definition SUPERB :: int where "SUPERB = 1"

lemmas fs_consts = NINODE_def NFILE_def NMOUNT_def NADDR_def NINDIR_def NICFREE_def NICINOD_def INOPB_def
  ROOTINO_def SUPERB_def

definition IFMT :: int where "IFMT = 0xF000"
definition IFDIR :: int where "IFDIR = 0x4000"
definition IFCHR :: int where "IFCHR = 0x2000"
definition IFBLK :: int where "IFBLK = 0x6000"
definition IFREG :: int where "IFREG = 0x8000"
definition IFMPC :: int where "IFMPC = 0x3000"
definition IFMPB :: int where "IFMPB = 0x7000"
definition ISUID :: int where "ISUID = 0x800"
definition ISGID :: int where "ISGID = 0x400"
definition ISVTX :: int where "ISVTX = 0x200"
definition IREAD :: int where "IREAD = 0x100"
definition IWRITE :: int where "IWRITE = 0x80"
definition IEXEC :: int where "IEXEC = 0x40"

lemmas imode_defs = IFMT_def IFDIR_def IFCHR_def IFBLK_def IFREG_def IFMPC_def IFMPB_def ISUID_def ISGID_def
  ISVTX_def IREAD_def IWRITE_def IEXEC_def

section \<open>In-core tables\<close>

datatype iflag = ILOCK | IUPD | IACC | IMOUNT | IWANT | ITEXT | ICHG

text \<open>\<^verbatim>\<open>i_rdev\<close> of a special file is \<open>i_addr ! 0\<close>. \<^verbatim>\<open>i_count\<close> is a signed character.\<close>

record inode =
  i_flag :: "iflag set"
  i_count :: int
  i_dev :: int
  i_number :: int
  i_mode :: int
  i_nlink :: int
  i_uid :: int
  i_gid :: int
  i_size :: int
  i_addr :: "int list"
  i_lastr :: int

datatype fflag = FREAD | FWRITE | FPIPE | FMPX | FMPY | FKERNEL

record file_s =
  f_flag :: "fflag set"
  f_count :: int
  f_inode :: nat
  f_offset :: int

record mount =
  m_dev :: int
  m_bufp :: bptr
  m_inodp :: "nat option"

record fss = bst +
  inode :: "nat \<Rightarrow> inode"
  file_t :: "nat \<Rightarrow> file_s"
  mount :: "nat \<Rightarrow> mount"
  rootdir :: nat
  rootdev :: int
  pipedev :: int
  rablock :: int
  updlock :: int

definition imod :: "nat \<Rightarrow> (inode \<Rightarrow> inode) \<Rightarrow> (unit, 'a fss_scheme) kmon" where
  "imod ip f = kmod (\<lambda>s. s\<lparr>inode := (inode s)(ip := f (inode s ip))\<rparr>)"

definition iset :: "nat \<Rightarrow> iflag set \<Rightarrow> (unit, 'a fss_scheme) kmon" where
  "iset ip fs = imod ip (\<lambda>i. i\<lparr>i_flag := i_flag i \<union> fs\<rparr>)"

definition iclr :: "nat \<Rightarrow> iflag set \<Rightarrow> (unit, 'a fss_scheme) kmon" where
  "iclr ip fs = imod ip (\<lambda>i. i\<lparr>i_flag := i_flag i - fs\<rparr>)"

definition iget_f :: "nat \<Rightarrow> (inode \<Rightarrow> 'b) \<Rightarrow> ('b, 'a fss_scheme) kmon" where
  "iget_f ip f = kget (\<lambda>s. f (inode s ip))"

lemma kpost_imod [simp]: "kpost (imod ip f s) Q S P = Q () (s\<lparr>inode := (inode s)(ip := f (inode s ip))\<rparr>)"
  by (simp add: imod_def)

lemma kpost_iset [simp]: "kpost (iset ip fs s) Q S P = Q () (s\<lparr>inode := (inode s)(ip := (inode s ip)\<lparr>i_flag := i_flag (inode s ip) \<union> fs\<rparr>)\<rparr>)"
  by (simp add: iset_def)

lemma kpost_iclr [simp]: "kpost (iclr ip fs s) Q S P = Q () (s\<lparr>inode := (inode s)(ip := (inode s ip)\<lparr>i_flag := i_flag (inode s ip) - fs\<rparr>)\<rparr>)"
  by (simp add: iclr_def)

lemma kpost_iget_f [simp]: "kpost (iget_f ip f s) Q S P = Q (f (inode s ip)) s"
  by (simp add: iget_f_def)

section \<open>The super block\<close>

definition s_isize :: "int list \<Rightarrow> int" where "s_isize b = u16 (get_bytes 0 2 b)"
definition s_fsize :: "int list \<Rightarrow> int" where "s_fsize b = i32 (get_bytes 4 4 b)"
definition s_nfree :: "int list \<Rightarrow> int" where "s_nfree b = i16 (get_bytes 8 2 b)"
definition s_free :: "int list \<Rightarrow> int \<Rightarrow> int" where "s_free b i = i32 (get_bytes (nat (12 + 4 * i)) 4 b)"
definition s_ninode :: "int list \<Rightarrow> int" where "s_ninode b = i16 (get_bytes 212 2 b)"
definition s_inode :: "int list \<Rightarrow> int \<Rightarrow> int" where "s_inode b i = u16 (get_bytes (nat (214 + 2 * i)) 2 b)"
definition s_flock :: "int list \<Rightarrow> int" where "s_flock b = i8 (get_bytes 414 1 b)"
definition s_ilock :: "int list \<Rightarrow> int" where "s_ilock b = i8 (get_bytes 415 1 b)"
definition s_fmod :: "int list \<Rightarrow> int" where "s_fmod b = i8 (get_bytes 416 1 b)"
definition s_ronly :: "int list \<Rightarrow> int" where "s_ronly b = i8 (get_bytes 417 1 b)"
definition s_time :: "int list \<Rightarrow> int" where "s_time b = i32 (get_bytes 420 4 b)"

definition set_s_nfree :: "int \<Rightarrow> int list \<Rightarrow> int list" where "set_s_nfree v = put_bytes 8 (enc 2 v)"
definition set_s_free :: "int \<Rightarrow> int \<Rightarrow> int list \<Rightarrow> int list" where "set_s_free i v = put_bytes (nat (12 + 4 * i)) (enc 4 v)"
definition set_s_ninode :: "int \<Rightarrow> int list \<Rightarrow> int list" where "set_s_ninode v = put_bytes 212 (enc 2 v)"
definition set_s_inode :: "int \<Rightarrow> int \<Rightarrow> int list \<Rightarrow> int list" where "set_s_inode i v = put_bytes (nat (214 + 2 * i)) (enc 2 v)"
definition set_s_flock :: "int \<Rightarrow> int list \<Rightarrow> int list" where "set_s_flock v = put_bytes 414 (enc 1 v)"
definition set_s_ilock :: "int \<Rightarrow> int list \<Rightarrow> int list" where "set_s_ilock v = put_bytes 415 (enc 1 v)"
definition set_s_fmod :: "int \<Rightarrow> int list \<Rightarrow> int list" where "set_s_fmod v = put_bytes 416 (enc 1 v)"
definition set_s_ronly :: "int \<Rightarrow> int list \<Rightarrow> int list" where "set_s_ronly v = put_bytes 417 (enc 1 v)"
definition set_s_time :: "int \<Rightarrow> int list \<Rightarrow> int list" where "set_s_time v = put_bytes 420 (enc 4 v)"

definition sb_free_bytes :: "int list \<Rightarrow> int list" where "sb_free_bytes b = get_bytes 12 200 b"
definition set_sb_free_bytes :: "int list \<Rightarrow> int list \<Rightarrow> int list" where "set_sb_free_bytes xs = put_bytes 12 xs"

text \<open>A block of the free list.\<close>

definition df_nfree :: "int list \<Rightarrow> int" where "df_nfree b = i32 (get_bytes 0 4 b)"
definition df_free_bytes :: "int list \<Rightarrow> int list" where "df_free_bytes b = get_bytes 4 200 b"
definition df_free :: "int list \<Rightarrow> int \<Rightarrow> int" where "df_free b i = i32 (get_bytes (nat (4 + 4 * i)) 4 b)"
definition set_df_nfree :: "int \<Rightarrow> int list \<Rightarrow> int list" where "set_df_nfree v = put_bytes 0 (enc 4 v)"
definition set_df_free_bytes :: "int list \<Rightarrow> int list \<Rightarrow> int list" where "set_df_free_bytes xs = put_bytes 4 xs"

text \<open>The array of block numbers in an indirect block.\<close>

definition b_daddr :: "int list \<Rightarrow> nat \<Rightarrow> int" where "b_daddr b i = i32 (get_bytes (4 * i) 4 b)"
definition set_b_daddr :: "nat \<Rightarrow> int \<Rightarrow> int list \<Rightarrow> int list" where "set_b_daddr i v = put_bytes (4 * i) (enc 4 v)"

text \<open>Access through the pointer to the buffer.\<close>

definition bget :: "bptr \<Rightarrow> (int list \<Rightarrow> 'b) \<Rightarrow> ('b, 'a bst_scheme) kmon" where
  "bget bp f = kget (\<lambda>s. f (bdata bp s))"

definition bset :: "bptr \<Rightarrow> (int list \<Rightarrow> int list) \<Rightarrow> (unit, 'a bst_scheme) kmon" where
  "bset bp f = kmod (\<lambda>s. bput bp (f (bdata bp s)) s)"

definition bflagged :: "bptr \<Rightarrow> bflag \<Rightarrow> (bool, 'a bst_scheme) kmon" where
  "bflagged bp f = kget (\<lambda>s. f \<in> b_flags (bufs s bp))"

lemma kpost_bget [simp]: "kpost (bget bp f s) Q S P = Q (f (bdata bp s)) s"
  by (simp add: bget_def)

lemma kpost_bset [simp]: "kpost (bset bp f s) Q S P = Q () (bput bp (f (bdata bp s)) s)"
  by (simp add: bset_def)

lemma krun_fs [krun]:
  "kbind (bget bp g) f s = f (g (bdata bp s)) s" "kthen (bset bp h) n s = n (bput bp (h (bdata bp s)) s)"
  "kbind (bflagged bp fl) f' s = f' (fl \<in> b_flags (bufs s bp)) s"
  "kbind (iget_f ip g') f'' t = f'' (g' (inode t ip)) t" "kthen (imod ip h') n' t = n' (t\<lparr>inode := (inode t)(ip := h' (inode t ip))\<rparr>)"
  "kthen (iset ip fs) n' t = n' (t\<lparr>inode := (inode t)(ip := (inode t ip)\<lparr>i_flag := i_flag (inode t ip) \<union> fs\<rparr>)\<rparr>)"
  "kthen (iclr ip fs) n' t = n' (t\<lparr>inode := (inode t)(ip := (inode t ip)\<lparr>i_flag := i_flag (inode t ip) - fs\<rparr>)\<rparr>)"
  by (simp_all add: bget_def bset_def bflagged_def iget_f_def imod_def iset_def iclr_def krun)

lemma run_fs [krun]:
  "bset bp h s = Ok () (bput bp (h (bdata bp s)) s)" "imod ip h' t = Ok () (t\<lparr>inode := (inode t)(ip := h' (inode t ip))\<rparr>)"
  "iset ip fs t = Ok () (t\<lparr>inode := (inode t)(ip := (inode t ip)\<lparr>i_flag := i_flag (inode t ip) \<union> fs\<rparr>)\<rparr>)"
  "iclr ip fs t = Ok () (t\<lparr>inode := (inode t)(ip := (inode t ip)\<lparr>i_flag := i_flag (inode t ip) - fs\<rparr>)\<rparr>)"
  by (simp_all add: bset_def imod_def iset_def iclr_def kmod_def)

lemma kpost_bflagged [simp]: "kpost (bflagged bp f s) Q S P = Q (f \<in> b_flags (bufs s bp)) s"
  by (simp add: bflagged_def)

section \<open>The disk inode\<close>

definition itod :: "int \<Rightarrow> int" where "itod x = cuint (x + 15) div 8"
definition itoo :: "int \<Rightarrow> nat" where "itoo x = nat ((x + 15) mod 8)"

text \<open>The fields of the \<open>k\<close>-th disk inode of a block.\<close>

definition di_mode :: "nat \<Rightarrow> int list \<Rightarrow> int" where "di_mode k b = u16 (get_bytes (64 * k) 2 b)"
definition di_nlink :: "nat \<Rightarrow> int list \<Rightarrow> int" where "di_nlink k b = i16 (get_bytes (64 * k + 2) 2 b)"
definition di_uid :: "nat \<Rightarrow> int list \<Rightarrow> int" where "di_uid k b = i16 (get_bytes (64 * k + 4) 2 b)"
definition di_gid :: "nat \<Rightarrow> int list \<Rightarrow> int" where "di_gid k b = i16 (get_bytes (64 * k + 6) 2 b)"
definition di_size :: "nat \<Rightarrow> int list \<Rightarrow> int" where "di_size k b = i32 (get_bytes (64 * k + 8) 4 b)"
definition di_addr :: "nat \<Rightarrow> int list \<Rightarrow> int list" where "di_addr k b = get_bytes (64 * k + 12) 40 b"
definition di_atime :: "nat \<Rightarrow> int list \<Rightarrow> int" where "di_atime k b = i32 (get_bytes (64 * k + 52) 4 b)"
definition di_mtime :: "nat \<Rightarrow> int list \<Rightarrow> int" where "di_mtime k b = i32 (get_bytes (64 * k + 56) 4 b)"
definition di_ctime :: "nat \<Rightarrow> int list \<Rightarrow> int" where "di_ctime k b = i32 (get_bytes (64 * k + 60) 4 b)"

lemmas di_defs = di_mode_def di_nlink_def di_uid_def di_gid_def di_size_def di_addr_def di_atime_def di_mtime_def di_ctime_def

section \<open>Read-after-write laws\<close>

lemmas sb_gets = s_isize_def s_fsize_def s_nfree_def s_ninode_def s_flock_def s_ilock_def s_fmod_def s_ronly_def
  s_time_def sb_free_bytes_def
lemmas sb_sets = set_s_nfree_def set_s_ninode_def set_s_flock_def set_s_ilock_def set_s_fmod_def set_s_ronly_def
  set_s_time_def set_sb_free_bytes_def

lemma i8_byte: "i8 [v mod 256] = cchar v"
  using i8_enc [of v] by (simp add: cchar_def)

lemma length_sb_sets [simp]:
  assumes "length b = 512"
  shows "length (set_s_nfree v b) = 512" "length (set_s_ninode v b) = 512" "length (set_s_flock v b) = 512"
    "length (set_s_ilock v b) = 512" "length (set_s_fmod v b) = 512" "length (set_s_ronly v b) = 512" "length (set_s_time v b) = 512"
    "length xs = 200 \<Longrightarrow> length (set_sb_free_bytes xs b) = 512"
    "0 \<le> i \<Longrightarrow> i < 50 \<Longrightarrow> length (set_s_free i v b) = 512" "0 \<le> i \<Longrightarrow> i < 100 \<Longrightarrow> length (set_s_inode i v b) = 512"
    "length (set_df_nfree v b) = 512" "length xs = 200 \<Longrightarrow> length (set_df_free_bytes xs b) = 512"
    "k < 128 \<Longrightarrow> length (set_b_daddr k v b) = 512"
  using assms by (simp_all add: sb_sets set_s_free_def set_s_inode_def set_df_nfree_def set_df_free_bytes_def set_b_daddr_def)

lemma set_s_nfree_get [simp]:
  assumes "length b = 512"
  shows "s_nfree (set_s_nfree v b) = short v" "s_isize (set_s_nfree v b) = s_isize b" "s_fsize (set_s_nfree v b) = s_fsize b"
    "s_ninode (set_s_nfree v b) = s_ninode b" "s_flock (set_s_nfree v b) = s_flock b" "s_ilock (set_s_nfree v b) = s_ilock b"
    "s_fmod (set_s_nfree v b) = s_fmod b" "s_ronly (set_s_nfree v b) = s_ronly b" "sb_free_bytes (set_s_nfree v b) = sb_free_bytes b"
  using assms by (simp_all add: sb_gets sb_sets get_put)

lemma set_s_flock_get [simp]:
  assumes "length b = 512"
  shows "s_flock (set_s_flock v b) = cchar v" "s_isize (set_s_flock v b) = s_isize b" "s_fsize (set_s_flock v b) = s_fsize b"
    "s_ninode (set_s_flock v b) = s_ninode b" "s_nfree (set_s_flock v b) = s_nfree b" "s_ilock (set_s_flock v b) = s_ilock b"
    "s_fmod (set_s_flock v b) = s_fmod b" "s_ronly (set_s_flock v b) = s_ronly b" "sb_free_bytes (set_s_flock v b) = sb_free_bytes b"
  using assms by (simp_all add: sb_gets sb_sets get_put i8_byte)

lemma set_s_ilock_get [simp]:
  assumes "length b = 512"
  shows "s_ilock (set_s_ilock v b) = cchar v" "s_isize (set_s_ilock v b) = s_isize b" "s_fsize (set_s_ilock v b) = s_fsize b"
    "s_ninode (set_s_ilock v b) = s_ninode b" "s_nfree (set_s_ilock v b) = s_nfree b" "s_flock (set_s_ilock v b) = s_flock b"
    "s_fmod (set_s_ilock v b) = s_fmod b" "s_ronly (set_s_ilock v b) = s_ronly b" "sb_free_bytes (set_s_ilock v b) = sb_free_bytes b"
  using assms by (simp_all add: sb_gets sb_sets get_put i8_byte)

lemma set_s_fmod_get [simp]:
  assumes "length b = 512"
  shows "s_fmod (set_s_fmod v b) = cchar v" "s_isize (set_s_fmod v b) = s_isize b" "s_fsize (set_s_fmod v b) = s_fsize b"
    "s_ninode (set_s_fmod v b) = s_ninode b" "s_nfree (set_s_fmod v b) = s_nfree b" "s_flock (set_s_fmod v b) = s_flock b"
    "s_ilock (set_s_fmod v b) = s_ilock b" "s_ronly (set_s_fmod v b) = s_ronly b" "sb_free_bytes (set_s_fmod v b) = sb_free_bytes b"
  using assms by (simp_all add: sb_gets sb_sets get_put i8_byte)

lemma set_s_ninode_get [simp]:
  assumes "length b = 512"
  shows "s_ninode (set_s_ninode v b) = short v" "s_isize (set_s_ninode v b) = s_isize b" "s_fsize (set_s_ninode v b) = s_fsize b"
    "s_fmod (set_s_ninode v b) = s_fmod b" "s_nfree (set_s_ninode v b) = s_nfree b" "s_flock (set_s_ninode v b) = s_flock b"
    "s_ilock (set_s_ninode v b) = s_ilock b" "s_ronly (set_s_ninode v b) = s_ronly b" "sb_free_bytes (set_s_ninode v b) = sb_free_bytes b"
  using assms by (simp_all add: sb_gets sb_sets get_put)

lemma set_sb_free_bytes_get [simp]:
  assumes "length b = 512" "length xs = 200"
  shows "sb_free_bytes (set_sb_free_bytes xs b) = xs" "s_isize (set_sb_free_bytes xs b) = s_isize b" "s_fsize (set_sb_free_bytes xs b) = s_fsize b"
    "s_fmod (set_sb_free_bytes xs b) = s_fmod b" "s_nfree (set_sb_free_bytes xs b) = s_nfree b" "s_flock (set_sb_free_bytes xs b) = s_flock b"
    "s_ilock (set_sb_free_bytes xs b) = s_ilock b" "s_ronly (set_sb_free_bytes xs b) = s_ronly b" "s_ninode (set_sb_free_bytes xs b) = s_ninode b"
  using assms by (simp_all add: sb_gets sb_sets get_put)

lemma set_s_free_get [simp]:
  assumes "length b = 512" "0 \<le> i" "i < 50"
  shows "s_isize (set_s_free i v b) = s_isize b" "s_fsize (set_s_free i v b) = s_fsize b" "s_nfree (set_s_free i v b) = s_nfree b"
    "s_fmod (set_s_free i v b) = s_fmod b" "s_flock (set_s_free i v b) = s_flock b"
    "s_ilock (set_s_free i v b) = s_ilock b" "s_ronly (set_s_free i v b) = s_ronly b" "s_ninode (set_s_free i v b) = s_ninode b"
  using assms by (simp_all add: sb_gets set_s_free_def get_put)

text \<open>The array of free blocks as a list.\<close>

definition frees :: "int list \<Rightarrow> int list" where
  "frees bs = i32s 50 bs"

lemma length_frees [simp]: "length (frees bs) = 50"
  by (simp add: frees_def)

lemma split_every_nth: "i < k \<Longrightarrow> n * k \<le> length bs \<Longrightarrow> split_every n k bs ! i = take n (drop (n * i) bs)"
proof (induction k arbitrary: bs i)
  case (Suc k)
  then show ?case by (cases i) (auto simp: add.commute)
qed simp

lemma nth_frees: "i < 50 \<Longrightarrow> length bs = 200 \<Longrightarrow> frees bs ! i = i32 (get_bytes (4 * i) 4 bs)"
  by (simp add: frees_def i32s_def split_every_nth get_bytes_def)

lemma get_get_bytes: "q + n \<le> m \<Longrightarrow> get_bytes q n (get_bytes p m b) = get_bytes (p + q) n b"
  by (simp add: get_bytes_def take_drop min_def add.commute)

lemma s_free_nth: "length b = 512 \<Longrightarrow> 0 \<le> i \<Longrightarrow> i < 50 \<Longrightarrow> s_free b i = frees (sb_free_bytes b) ! nat i"
  by (simp add: nth_frees s_free_def sb_free_bytes_def get_get_bytes nat_add_distrib nat_mult_distrib)

lemma set_s_free_frees:
  assumes "length b = 512" "0 \<le> i" "i < 50"
  shows "frees (sb_free_bytes (set_s_free i v b)) = (frees (sb_free_bytes b))[nat i := cint v]"
proof (rule nth_equalityI)
  fix k assume "k < length (frees (sb_free_bytes (set_s_free i v b)))"
  then have k: "k < 50" by simp
  have p: "nat (12 + 4 * i) = 12 + 4 * nat i" using assms by (simp add: nat_add_distrib nat_mult_distrib)
  have *: "frees (sb_free_bytes c) ! k = i32 (get_bytes (12 + 4 * k) 4 c)" if "length c = 512" for c
    using that k by (simp add: nth_frees sb_free_bytes_def get_get_bytes)
  consider "k = nat i" | "k < nat i" | "nat i < k" by linarith
  then show "frees (sb_free_bytes (set_s_free i v b)) ! k = (frees (sb_free_bytes b))[nat i := cint v] ! k"
  proof cases
    case 1
    have "frees (sb_free_bytes (set_s_free i v b)) ! k = i32 (get_bytes (12 + 4 * k) 4 (set_s_free i v b))"
      using assms by (intro *) simp
    then show ?thesis using assms k 1 by (simp add: set_s_free_def p)
  next
    case 2
    then show ?thesis using assms k by (simp add: *) (simp add: set_s_free_def p get_put)
  next
    case 3
    then show ?thesis using assms k by (simp add: *) (simp add: set_s_free_def p get_put)
  qed
qed simp

lemma df_get [simp]:
  assumes "length b = 512"
  shows "df_nfree (set_df_nfree v b) = cint v" "df_free_bytes (set_df_nfree v b) = df_free_bytes b"
    "length xs = 200 \<Longrightarrow> df_nfree (set_df_free_bytes xs b) = df_nfree b"
    "length xs = 200 \<Longrightarrow> df_free_bytes (set_df_free_bytes xs b) = xs"
    "length (df_free_bytes b) = 200" "length (sb_free_bytes b) = 200"
  using assms by (simp_all add: df_nfree_def df_free_bytes_def set_df_nfree_def set_df_free_bytes_def sb_free_bytes_def get_put)

end
