(* ===== verification/Alloc.thy ===== *)
theory Alloc
  imports Fs
begin

text \<open>
  The free list of a device (\<^verbatim>\<open>sys/alloc.c\<close>: \<open>getfs\<close>, \<open>badblock\<close>, \<open>alloc\<close>, \<open>free\<close>, \<open>ifree\<close>). The super
  block remembers up to \<open>NICFREE\<close> free blocks; slot 0 is the number of a block that holds the next
  group, or 0. The abstraction is the list of free blocks in the order in which \<open>alloc\<close> hands
  them out: \<open>alloc\<close> pops its head, \<open>free\<close> pushes.
\<close>

section \<open>Operations\<close>

definition find_mount :: "int \<Rightarrow> 'a fss_scheme \<Rightarrow> nat option" where
  "find_mount dev s = find (\<lambda>m. m_bufp (mount s m) \<noteq> NULLB \<and> m_dev (mount s m) = dev) [0 ..< NMOUNT]"

definition getfs :: "int \<Rightarrow> (bptr, 'a fss_scheme) kmon" where
  "getfs dev = kbind (kget (find_mount dev)) (\<lambda>r.
     case r of
       None \<Rightarrow> kpanic ''no fs''
     | Some m \<Rightarrow>
         kbind (kget (\<lambda>s. m_bufp (mount s m))) (\<lambda>fp.
         kbind (bget fp (\<lambda>b. s_nfree b > NICFREE \<or> s_ninode b > NICINOD)) (\<lambda>bad.
         kthen (kwhen bad (kthen (prdev ''bad count'' dev) (bset fp (\<lambda>b. set_s_ninode 0 (set_s_nfree 0 b)))))
         (kret fp))))"

definition badblock :: "bptr \<Rightarrow> int \<Rightarrow> int \<Rightarrow> (bool, 'a fss_scheme) kmon" where
  "badblock fp bn dev = kbind (bget fp (\<lambda>b. bn < s_isize b \<or> bn \<ge> s_fsize b)) (\<lambda>bad.
     kthen (kwhen bad (prdev ''bad block'' dev)) (kret bad))"

text \<open>The \<^verbatim>\<open>do ... while\<close> of \<open>alloc\<close>; \<open>None\<close> is \<^verbatim>\<open>goto nospace\<close>. Each turn lowers \<^verbatim>\<open>s_nfree\<close>.\<close>

fun alloc_pick :: "nat \<Rightarrow> bptr \<Rightarrow> int \<Rightarrow> (int option, 'a fss_scheme) kmon" where
  "alloc_pick 0 fp dev = kspin"
| "alloc_pick (Suc n) fp dev = kbind (bget fp s_nfree) (\<lambda>nf.
     if nf \<le> 0 then kret None
     else if nf > NICFREE then kthen (prdev ''Bad free count'' dev) (kret None)
     else
       kthen (bset fp (set_s_nfree (nf - 1)))
       (kbind (bget fp (\<lambda>b. s_free b (nf - 1))) (\<lambda>bn.
        if bn = 0 then kret None
        else kbind (badblock fp bn dev) (\<lambda>bad. if bad then alloc_pick n fp dev else kret (Some bn)))))"

text \<open>Reading the next group from block \<open>bn\<close>; the result tells whether there is one.\<close>

definition alloc_refill :: "bptr \<Rightarrow> int \<Rightarrow> int \<Rightarrow> (bool, 'a fss_scheme) kmon" where
  "alloc_refill fp dev bn =
     kthen (bset fp (\<lambda>b. set_s_flock (s_flock b + 1) b))
     (kbind (bread dev bn) (\<lambda>bp.
      kbind (bflagged bp B_ERROR) (\<lambda>err.
      kthen (kwhen (\<not> err)
        (kbind (bget bp df_nfree) (\<lambda>nf.
         kbind (bget bp df_free_bytes) (\<lambda>xs.
           bset fp (\<lambda>b. set_sb_free_bytes xs (set_s_nfree nf b))))))
      (kthen (kmod (brelse bp))
      (kthen (bset fp (set_s_flock 0))
      (kthen (kwakeup (Ch_flock fp))
      (bget fp (\<lambda>b. \<not> s_nfree b \<le> 0))))))))"

definition alloc_nospace :: "bptr \<Rightarrow> int \<Rightarrow> (bptr option, 'a fss_scheme) kmon" where
  "alloc_nospace fp dev =
     kthen (bset fp (set_s_nfree 0)) (kthen (prdev ''no space'' dev) (kthen (seterr ENOSPC) (kret None)))"

definition alloc :: "int \<Rightarrow> (bptr option, 'a fss_scheme) kmon" where
  "alloc dev =
     kbind (getfs dev) (\<lambda>fp.
     kbind (bget fp s_flock) (\<lambda>l.
     if l \<noteq> 0 then ksleep (Ch_flock fp) PINOD
     else kbind (alloc_pick (Suc (nat NICFREE)) fp dev) (\<lambda>r.
       case r of
         None \<Rightarrow> alloc_nospace fp dev
       | Some bn \<Rightarrow>
           kbind (bget fp s_nfree) (\<lambda>nf.
           kbind (if nf \<le> 0 then alloc_refill fp dev bn else kret True) (\<lambda>more.
           if \<not> more then alloc_nospace fp dev
           else kbind (getblk dev bn) (\<lambda>bp.
             kthen (kmod (clrbuf bp)) (kthen (bset fp (set_s_fmod 1)) (kret (Some bp)))))))))"

text \<open>Moving a full group of the super block into the block being freed.\<close>

definition free_spill :: "bptr \<Rightarrow> int \<Rightarrow> int \<Rightarrow> (unit, 'a fss_scheme) kmon" where
  "free_spill fp dev bn =
     kthen (bset fp (\<lambda>b. set_s_flock (s_flock b + 1) b))
     (kbind (getblk dev bn) (\<lambda>bp.
      kbind (bget fp s_nfree) (\<lambda>nf.
      kbind (bget fp sb_free_bytes) (\<lambda>xs.
      kthen (bset bp (\<lambda>b. set_df_free_bytes xs (set_df_nfree nf b)))
      (kthen (bset fp (set_s_nfree 0))
      (kthen (bwrite bp)
      (kthen (bset fp (set_s_flock 0))
      (kwakeup (Ch_flock fp)))))))))"

definition free :: "int \<Rightarrow> int \<Rightarrow> (unit, 'a fss_scheme) kmon" where
  "free dev bn =
     kbind (getfs dev) (\<lambda>fp.
     kthen (bset fp (set_s_fmod 1))
     (kbind (bget fp s_flock) (\<lambda>l.
      if l \<noteq> 0 then ksleep (Ch_flock fp) PINOD
      else kbind (badblock fp bn dev) (\<lambda>bad.
        if bad then kret ()
        else
          kbind (bget fp s_nfree) (\<lambda>nf.
          kthen (kwhen (nf \<le> 0) (bset fp (\<lambda>b. set_s_free 0 0 (set_s_nfree 1 b))))
          (kbind (bget fp s_nfree) (\<lambda>nf.
           kthen (kwhen (nf \<ge> NICFREE) (free_spill fp dev bn))
           (bset fp (\<lambda>b. set_s_fmod 1 (set_s_free (s_nfree b) bn (set_s_nfree (s_nfree b + 1) b)))))))))))"

definition ifree :: "int \<Rightarrow> int \<Rightarrow> (unit, 'a fss_scheme) kmon" where
  "ifree dev ino =
     kbind (getfs dev) (\<lambda>fp.
     kbind (bget fp (\<lambda>b. s_ilock b \<noteq> 0 \<or> s_ninode b \<ge> NICINOD)) (\<lambda>skip.
     if skip then kret ()
     else bset fp (\<lambda>b. set_s_fmod 1 (set_s_inode (s_ninode b) ino (set_s_ninode (s_ninode b + 1) b)))))"

text \<open>
  \<^verbatim>\<open>iinit\<close> of \<^verbatim>\<open>sys/main.c\<close>: the super block of the root device is read and kept. The driver's open routine
  is an argument; \<^verbatim>\<open>sizeof(struct filsys)\<close> is 448.
\<close>

definition nulldev :: "(unit, 'a kst_scheme) kmon" where
  "nulldev = kret ()"

definition nodev :: "(unit, 'a kst_scheme) kmon" where
  "nodev = seterr ENODEV"

definition iinit :: "(int \<Rightarrow> int \<Rightarrow> (unit, 'a fss_scheme) kmon) \<Rightarrow> (unit, 'a fss_scheme) kmon" where
  "iinit d_open =
     kbind (kget rootdev) (\<lambda>dev.
     kthen (d_open dev 1)
     (kbind (bread dev SUPERB) (\<lambda>bp.
      kbind geteblk (\<lambda>cp.
      kbind (uget u_error) (\<lambda>e.
      if e \<noteq> 0 then kpanic ''iinit''
      else
        kbind (bget bp (get_bytes 0 448)) (\<lambda>xs.
        kthen (bset cp (put_bytes 0 xs))
        (kthen (kmod (brelse bp))
        (kthen (kmod (\<lambda>s. s\<lparr>mount := (mount s)(0 := (mount s 0)\<lparr>m_bufp := cp, m_dev := dev\<rparr>)\<rparr>))
        (kthen (bset cp (\<lambda>b. set_s_ronly 0 (set_s_ilock 0 (set_s_flock 0 b))))
        (kmod (\<lambda>s. if time s = 0 then s\<lparr>time := s_time (bdata cp s)\<rparr> else s)))))))))))"

section \<open>What the cache does not look at\<close>

lemma bio_same:
  assumes "bufs t = bufs s" "buffers t = buffers s" "d_tab t = d_tab s" "nblkdev t = nblkdev s" "mdsz t = mdsz s" "mdmem t = mdmem s"
  shows "bio_inv t = bio_inv s"
proof -
  have [simp]: "avf t = avf s" "avb t = avb s" "fw t = fw s" "bk t = bk s" "dtab d t = dtab d s" "in_range t = in_range s"
    "on_disk t = on_disk s" "heads t = heads s" for d
    using assms by (simp_all add: fun_eq_iff avf_def avb_def fw_def bk_def dtab_def in_range_def on_disk_def md_range_def heads_def)
  show ?thesis using assms by (simp add: bio_inv_def bio_rep_def tabs_ok_def lists_ok_def keys_ok_def dev_ok_def buf_ok_def)
qed

lemma bio_inv_other [simp]:
  "bio_inv (s\<lparr>klog := l\<rparr>) = bio_inv s" "bio_inv (s\<lparr>u := v\<rparr>) = bio_inv s" "bio_inv (t\<lparr>inode := x\<rparr>) = bio_inv t"
  "bio_inv (t\<lparr>rablock := r\<rparr>) = bio_inv t" "bio_inv (s\<lparr>time := tm\<rparr>) = bio_inv s" "bio_inv (t\<lparr>mount := mt\<rparr>) = bio_inv t"
  by (rule bio_same; simp)+

lemma lcont_same_st: "bufs t = bufs s \<Longrightarrow> buffers t = buffers s \<Longrightarrow> mdmem t = mdmem s \<Longrightarrow> lcont t = lcont s"
proof -
  assume a: "bufs t = bufs s" "buffers t = buffers s" "mdmem t = mdmem s"
  then have "caches t = caches s" "on_disk t = on_disk s" by (simp_all add: fun_eq_iff caches_def on_disk_def md_range_def)
  with a show "lcont t = lcont s" by (intro ext) (simp add: lcont_def split: option.split)
qed

lemma lcont_other [simp]:
  "lcont (s\<lparr>klog := l\<rparr>) = lcont s" "lcont (s\<lparr>u := v\<rparr>) = lcont s" "lcont (t\<lparr>inode := x\<rparr>) = lcont t"
  "lcont (t\<lparr>rablock := r\<rparr>) = lcont t" "lcont (s\<lparr>time := tm\<rparr>) = lcont s" "lcont (t\<lparr>mount := mt\<rparr>) = lcont t"
  by (rule lcont_same_st; simp)+

lemma bdata_other [simp]:
  "bdata bp (s\<lparr>klog := l\<rparr>) = bdata bp s" "bdata bp (s\<lparr>u := v\<rparr>) = bdata bp s" "bdata bp (t\<lparr>inode := x\<rparr>) = bdata bp t"
  "bdata bp (t\<lparr>rablock := r\<rparr>) = bdata bp t" "bdata bp (s\<lparr>time := tm\<rparr>) = bdata bp s" "bdata bp (t\<lparr>mount := mt\<rparr>) = bdata bp t"
  by (simp_all add: bdata_def load_def split: baddr.split)

lemma dev_other [simp]:
  "dev_ok (s\<lparr>klog := l\<rparr>) = dev_ok s" "dev_ok (s\<lparr>u := v\<rparr>) = dev_ok s" "dev_ok (t\<lparr>inode := x\<rparr>) = dev_ok t"
  "in_range (s\<lparr>klog := l\<rparr>) = in_range s" "in_range (s\<lparr>u := v\<rparr>) = in_range s" "in_range (t\<lparr>inode := x\<rparr>) = in_range t"
  "same_devs r (s\<lparr>klog := l\<rparr>) = same_devs r s" "same_devs r (s\<lparr>u := v\<rparr>) = same_devs r s"
  "on_disk (s\<lparr>klog := l\<rparr>) = on_disk s" "on_disk (s\<lparr>u := v\<rparr>) = on_disk s"
  by (simp_all add: dev_ok_def in_range_def same_devs_def dtab_def on_disk_def md_range_def fun_eq_iff)

lemma bframe_more: "bframe s t \<Longrightarrow> mount t = mount s \<and> inode t = inode s \<and> file_t t = file_t s"
  by (cases s; cases t) (simp add: bframe_def bst.defs fss.defs)

lemma prdev_line_ex: "\<exists>l. prdev m dev s = Ok () (s\<lparr>klog := l\<rparr>)"
  by (auto simp: prdev_def kprint_def kprintf_def kdefs split: option.split)

section \<open>Working on a super block\<close>

text \<open>
  \<open>sbst fp s x t\<close>: from \<open>s\<close> to \<open>t\<close> only the super block held in \<open>fp\<close> has changed, to \<open>x\<close> (and the log and
  the buffers nobody holds); no block content has changed.
\<close>

definition kept_bufs :: "bptr \<Rightarrow> 'a bst_scheme \<Rightarrow> 'a bst_scheme \<Rightarrow> bool" where
  "kept_bufs fp s t \<longleftrightarrow> (\<forall>j<NBUF. busy t j = busy s j \<and>
     (busy s j \<longrightarrow> pl (bufs t (Buf j)) = pl (bufs s (Buf j)) \<and>
        (Buf j \<noteq> fp \<longrightarrow> buffers t j = buffers s j \<and>
           (bdev s j \<noteq> NODEV \<longrightarrow> on_disk t (bdev s j) (bno s j) = on_disk s (bdev s j) (bno s j)))))"

definition sb_buf :: "bptr \<Rightarrow> 'a bst_scheme \<Rightarrow> bool" where
  "sb_buf fp s \<longleftrightarrow> (\<exists>k<NBUF. fp = Buf k \<and> busy s k \<and> bdev s k = NODEV)"

definition sbst :: "bptr \<Rightarrow> 'a bst_scheme \<Rightarrow> int list \<Rightarrow> 'a bst_scheme \<Rightarrow> bool" where
  "sbst fp s x t \<longleftrightarrow> bio_inv t \<and> keeps_content s t \<and> kept_bufs fp s t \<and> sb_buf fp t \<and> bframe s t \<and> bdata fp t = x \<and> length x = 512"

lemma sbst_data: "sbst fp s x t \<Longrightarrow> bdata fp t = x \<and> length x = 512 \<and> bio_inv t"
  by (simp add: sbst_def)

lemma kept_bufs_trans: "kept_bufs fp s t \<Longrightarrow> kept_bufs fp t v \<Longrightarrow> kept_bufs fp s v"
  unfolding kept_bufs_def pl_eq by (metis (no_types, lifting))

lemma sbst_trans: "sbst fp s x t \<Longrightarrow> sbst fp t y v \<Longrightarrow> sbst fp s y v"
  unfolding sbst_def by (blast intro: keeps_content_trans kept_bufs_trans bframe_trans)

lemma bdata_length: "bio_inv s \<Longrightarrow> i < NBUF \<Longrightarrow> length (bdata (Buf i) s) = 512"
  by (simp add: bdata_Buf) (auto simp: bio_inv_def bio_rep_def buf_ok_def)

lemma sbst_start: "bio_inv s \<Longrightarrow> sb_buf fp s \<Longrightarrow> sbst fp s (bdata fp s) s"
  using bdata_length by (auto simp: sbst_def kept_bufs_def sb_buf_def)

lemma sbst_put1:
  assumes "bio_inv s" "sb_buf fp s" "length x = 512"
  shows "sbst fp s x (bput fp x s)"
proof -
  from assms(2) obtain k where k: "k < NBUF" "fp = Buf k" "busy s k" "bdev s k = NODEV" by (auto simp: sb_buf_def)
  note bp = bput_ok [OF assms(1) k(1,3) assms(3)]
  have ub: "upd_buf k s (bput (Buf k) x s)" using bp(2) by (simp add: busy_step_def)
  have "lcont (bput (Buf k) x s) d b = lcont s d b" if "d \<noteq> NODEV" "in_range s d b" for d b
    using that k by (intro lcont_upd [OF ub]) (auto simp: bp same_block_def)
  then have "keeps_content s (bput (Buf k) x s)" using bp(6) by (simp add: keeps_content_def)
  moreover have "on_disk (bput (Buf k) x s) d b = on_disk s d b" for d b
    using bput_Buf [OF assms(1) k(1) assms(3)] by simp
  then have "kept_bufs (Buf k) s (bput (Buf k) x s)" using ub by (auto simp: kept_bufs_def bp(4) upd_buf_def)
  moreover have "sb_buf (Buf k) (bput (Buf k) x s)" using k by (auto simp: sb_buf_def bp)
  moreover have "bdata (Buf k) (bput (Buf k) x s) = x" using bp k by (simp add: bdata_Buf)
  ultimately show ?thesis using bp(1) bp(5) [of s] assms(3) k by (simp add: sbst_def)
qed

lemma sbst_buf: "sbst fp s x t \<Longrightarrow> sb_buf fp t" by (simp add: sbst_def)

lemma sbst_put: "sbst fp s x t \<Longrightarrow> length y = 512 \<Longrightarrow> sbst fp s y (bput fp y t)"
  by (rule sbst_trans [OF _ sbst_put1]) (auto simp: sbst_def)

lemma sbst_log [simp]: "sbst fp s x (t\<lparr>klog := l\<rparr>) = sbst fp s x t"
  by (simp add: sbst_def kept_bufs_def keeps_content_def sb_buf_def bframe_def)

lemma kept_bufs_same_busy: "same_busy s t \<Longrightarrow> kept_bufs fp s t"
  by (auto simp: same_busy_def kept_bufs_def keeps_busy_def)

lemma sbst_kept:
  assumes "sbst fp s x t" "bio_inv v" "keeps_content t v" "same_busy t v" "bframe t v"
  shows "sbst fp s x v"
proof -
  from assms(1) obtain k where k: "k < NBUF" "fp = Buf k" "busy t k" "bdev t k = NODEV" "bio_inv t"
    by (auto simp: sb_buf_def sbst_def)
  then have "busy v k" "bdev v k = NODEV" "buffers v k = buffers t k"
    using assms(4) by (auto simp: same_busy_def keeps_busy_def pl_eq)
  then have "sbst fp t x v"
    using assms k sbst_data [OF assms(1)]
    by (auto simp: sbst_def sb_buf_def bdata_Buf kept_bufs_same_busy)
  then show ?thesis by (rule sbst_trans [OF assms(1)])
qed

section \<open>The free list\<close>

text \<open>
  \<open>fchain cont n fr L\<close>: \<open>n\<close> valid entries of the array \<open>fr\<close> and the groups chained to it in blocks with the
  contents \<open>cont\<close> hold the blocks \<open>L\<close>, in the order in which they are handed out.
\<close>

inductive fchain :: "(int \<Rightarrow> int list) \<Rightarrow> int \<Rightarrow> int list \<Rightarrow> int list \<Rightarrow> bool" for cont where
  fc_end: "1 \<le> n \<Longrightarrow> n \<le> 50 \<Longrightarrow> fr ! 0 = 0 \<Longrightarrow> fchain cont n fr (rev (take (nat n - 1) (tl fr)))"
| fc_next: "1 \<le> n \<Longrightarrow> n \<le> 50 \<Longrightarrow> fr ! 0 = b \<Longrightarrow> b \<noteq> 0 \<Longrightarrow>
     fchain cont (df_nfree (cont b)) (frees (df_free_bytes (cont b))) L \<Longrightarrow>
     fchain cont n fr (rev (take (nat n - 1) (tl fr)) @ b # L)"

definition ffree :: "(int \<Rightarrow> int list) \<Rightarrow> int list \<Rightarrow> int list \<Rightarrow> bool" where
  "ffree cont x L \<longleftrightarrow> (s_nfree x \<le> 0 \<and> L = []) \<or> fchain cont (s_nfree x) (frees (sb_free_bytes x)) L"

lemma fchain_cong: "fchain cont n fr L \<Longrightarrow> (\<And>b. b \<in> set L \<Longrightarrow> cont' b = cont b) \<Longrightarrow> fchain cont' n fr L"
proof (induction rule: fchain.induct)
  case (fc_end n fr)
  then show ?case by (intro fchain.fc_end)
next
  case (fc_next n fr b L)
  then show ?case by (intro fchain.fc_next) auto
qed

lemma ffree_cong: "ffree cont x L \<Longrightarrow> (\<And>b. b \<in> set L \<Longrightarrow> cont' b = cont b) \<Longrightarrow> ffree cont' x L"
  unfolding ffree_def using fchain_cong by blast

lemma rev_take_snoc:
  "1 < n \<Longrightarrow> n \<le> length fr \<Longrightarrow> rev (take (n - 1) (tl fr)) = fr ! (n - 1) # rev (take (n - 2) (tl fr))"
proof -
  assume a: "1 < n" "n \<le> length fr"
  then have "n - 1 = Suc (n - 2)" "n - 2 < length (tl fr)" by auto
  then have "take (n - 1) (tl fr) = take (n - 2) (tl fr) @ [tl fr ! (n - 2)]" by (metis take_Suc_conv_app_nth)
  moreover have "tl fr ! (n - 2) = fr ! (n - 1)" using a by (simp add: nth_tl Suc_diff_Suc numeral_2_eq_2)
  ultimately show ?thesis by simp
qed

text \<open>Taking one entry off the array in the super block.\<close>

lemma fchain_pop:
  assumes "fchain cont n fr L" "length fr = 50" "1 < n"
  shows "\<exists>L'. L = fr ! nat (n - 1) # L' \<and> fchain cont (n - 1) fr L'"
proof -
  have n: "n \<le> 50" using assms(1) by cases auto
  have e: "nat (n - 1) = nat n - 1" "nat n - 1 - 1 = nat n - 2" using assms(3) by auto
  have r: "rev (take (nat n - 1) (tl fr)) = fr ! (nat n - 1) # rev (take (nat n - 2) (tl fr))"
    using assms n by (intro rev_take_snoc) auto
  from assms(1) show ?thesis
  proof (cases rule: fchain.cases)
    case fc_end
    then have "fchain cont (n - 1) fr (rev (take (nat (n - 1) - 1) (tl fr)))" using assms(3) by (intro fchain.fc_end) auto
    moreover have "L = fr ! nat (n - 1) # rev (take (nat (n - 1) - 1) (tl fr))" using fc_end(1) r by (simp only: e)
    ultimately show ?thesis by blast
  next
    case (fc_next b L1)
    then have "fchain cont (n - 1) fr (rev (take (nat (n - 1) - 1) (tl fr)) @ b # L1)"
      using assms(3) by (intro fchain.fc_next) auto
    moreover have "L = fr ! nat (n - 1) # rev (take (nat (n - 1) - 1) (tl fr)) @ b # L1"
      using fc_next(1) r by (simp only: e append_Cons)
    ultimately show ?thesis by blast
  qed
qed

lemma fchain_last:
  assumes "fchain cont 1 fr L"
  shows "(L = [] \<and> fr ! 0 = 0) \<or> (\<exists>L'. L = fr ! 0 # L' \<and> fr ! 0 \<noteq> 0 \<and>
    fchain cont (df_nfree (cont (fr ! 0))) (frees (df_free_bytes (cont (fr ! 0)))) L')"
  using assms by cases auto

lemma fchain_push:
  assumes "fchain cont n fr L" "length fr = 50" "n < 50"
  shows "fchain cont (n + 1) (fr[nat n := b]) (b # L)"
proof -
  have n: "1 \<le> n" using assms(1) by cases auto
  have r: "rev (take (nat (n + 1) - 1) (tl (fr[nat n := b]))) = b # rev (take (nat n - 1) (tl fr))"
  proof -
    have "rev (take (nat (n + 1) - 1) (tl (fr[nat n := b]))) = (fr[nat n := b]) ! (nat (n + 1) - 1) # rev (take (nat (n + 1) - 2) (tl (fr[nat n := b])))"
      using n assms by (intro rev_take_snoc) auto
    moreover have "nat (n + 1) - 1 = nat n" "nat (n + 1) - 2 = nat n - 1" using n by auto
    moreover have "take (nat n - 1) (tl (fr[nat n := b])) = take (nat n - 1) (tl fr)"
      using n by (cases "nat n"; cases fr) auto
    ultimately show ?thesis using assms n by simp
  qed
  have f0: "fr[nat n := b] ! 0 = fr ! 0" using n by simp
  from assms(1) show ?thesis
  proof (cases rule: fchain.cases)
    case fc_end
    then have "fchain cont (n + 1) (fr[nat n := b]) (rev (take (nat (n + 1) - 1) (tl (fr[nat n := b]))))"
      using assms(3) f0 by (intro fchain.fc_end) auto
    then show ?thesis unfolding fc_end(1) r .
  next
    case (fc_next b' L1)
    then have "fchain cont (n + 1) (fr[nat n := b]) (rev (take (nat (n + 1) - 1) (tl (fr[nat n := b]))) @ b' # L1)"
      using assms(3) f0 by (intro fchain.fc_next) auto
    then show ?thesis unfolding fc_next(1) r by simp
  qed
qed

end
