(* ===== verification/Alloc_Spec.thy ===== *)
theory Alloc_Spec
  imports Alloc
begin

text \<open>
  The free list as a stack of blocks: what \<open>alloc\<close> and \<open>free\<close> do to the list that the super block and
  its chained groups denote.
\<close>

section \<open>Well-formed file systems\<close>

definition mounted :: "int \<Rightarrow> bptr \<Rightarrow> 'a fss_scheme \<Rightarrow> bool" where
  "mounted dev fp s \<longleftrightarrow> (\<exists>m. find_mount dev s = Some m \<and> m_bufp (mount s m) = fp)"

definition sb_range :: "int list \<Rightarrow> int list \<Rightarrow> bool" where
  "sb_range x L \<longleftrightarrow> distinct L \<and> (\<forall>b\<in>set L. s_isize x \<le> b \<and> b < s_fsize x \<and> b \<noteq> 0)"

definition fs_ok :: "int \<Rightarrow> bptr \<Rightarrow> int list \<Rightarrow> 'a fss_scheme \<Rightarrow> bool" where
  "fs_ok dev fp L s \<longleftrightarrow> bio_inv s \<and> mounted dev fp s \<and> sb_buf fp s \<and> dev_ok s dev \<and>
     s_nfree (bdata fp s) \<le> NICFREE \<and> s_ninode (bdata fp s) \<le> NICINOD \<and> s_fsize (bdata fp s) \<le> mdsz s dev \<and>
     ffree (lcont s dev) (bdata fp s) L \<and> sb_range (bdata fp s) L"

lemma mounted_bframe: "bframe s t \<Longrightarrow> mounted dev fp t = mounted dev fp s"
  using bframe_more [of s t] by (simp add: mounted_def find_mount_def)

lemma s_isize_range: "0 \<le> s_isize x"
  using ushort_range by (simp add: s_isize_def u16_def)

lemma sb_in_range: "fs_ok dev fp L s \<Longrightarrow> b \<in> set L \<Longrightarrow> in_range s dev b"
  using s_isize_range [of "bdata fp s"] by (fastforce simp: fs_ok_def sb_range_def in_range_def)

lemma fs_ok_other [simp]:
  "fs_ok dev fp L (s\<lparr>klog := l\<rparr>) = fs_ok dev fp L s" "fs_ok dev fp L (s\<lparr>u := v\<rparr>) = fs_ok dev fp L s"
  "fs_ok dev fp L (s\<lparr>inode := x\<rparr>) = fs_ok dev fp L s" "fs_ok dev fp L (s\<lparr>rablock := r\<rparr>) = fs_ok dev fp L s"
  by (simp_all add: fs_ok_def mounted_def find_mount_def sb_buf_def dev_ok_def dtab_def)

lemma getfs_run: "fs_ok dev fp L s \<Longrightarrow> getfs dev s = Ok fp s"
  by (auto simp: getfs_def fs_ok_def mounted_def kdefs bget_def)

text \<open>Moving \<open>fs_ok\<close> along a change of the super block.\<close>

lemma fs_ok_sbst:
  assumes "fs_ok dev fp L s" "sbst fp s x t" "s_nfree x \<le> NICFREE" "s_ninode x \<le> NICINOD"
    "s_isize x = s_isize (bdata fp s)" "s_fsize x = s_fsize (bdata fp s)" "ffree (lcont s dev) x L'" "sb_range x L'"
  shows "fs_ok dev fp L' t"
proof -
  have sd: "same_devs s t" "bframe s t" "keeps_content s t" using assms(2) by (auto simp: sbst_def keeps_content_def)
  have dv: "dev \<noteq> NODEV" using assms(1) by (simp add: fs_ok_def dev_ok_def)
  have "lcont t dev b = lcont s dev b" if "b \<in> set L'" for b
  proof -
    have "in_range s dev b" using that assms(1,6,8) s_isize_range [of x] by (fastforce simp: sb_range_def fs_ok_def in_range_def)
    with sd(3) dv show ?thesis by (simp add: keeps_content_def)
  qed
  then have "ffree (lcont t dev) x L'" by (rule ffree_cong [OF assms(7)])
  with assms sd show ?thesis
    by (auto simp: fs_ok_def sbst_def mounted_bframe same_devs_simps) (simp add: same_devs_def)
qed

section \<open>Taking an entry\<close>

lemma s_nfree_short: "- 32768 \<le> s_nfree x \<and> s_nfree x < 32768"
  using short_range by (simp add: s_nfree_def i16_def)

lemma fs_ok_len: "fs_ok dev fp L s \<Longrightarrow> length (bdata fp s) = 512"
  by (auto simp: fs_ok_def sb_buf_def bdata_length)

lemma ffree_Cons:
  assumes "ffree cont x (b # L)" "length x = 512"
  shows "1 \<le> s_nfree x \<and> s_nfree x \<le> 50 \<and> b = s_free x (s_nfree x - 1) \<and>
    (if s_nfree x = 1 then fchain cont (df_nfree (cont b)) (frees (df_free_bytes (cont b))) L
     else fchain cont (s_nfree x - 1) (frees (sb_free_bytes x)) L)"
proof -
  let ?fr = "frees (sb_free_bytes x)"
  have fc: "fchain cont (s_nfree x) ?fr (b # L)" using assms(1) by (simp add: ffree_def)
  then have n: "1 \<le> s_nfree x" "s_nfree x \<le> 50" by (cases, auto)+
  have f: "s_free x (s_nfree x - 1) = ?fr ! nat (s_nfree x - 1)" using assms n by (intro s_free_nth) auto
  show ?thesis
  proof (cases "s_nfree x = 1")
    case True
    with fc f n show ?thesis using fchain_last [of cont ?fr "b # L"] by auto
  next
    case False
    with fc f n show ?thesis using fchain_pop [of cont "s_nfree x" ?fr "b # L"] by auto
  qed
qed

lemma ffree_Nil:
  assumes "ffree cont x []" "length x = 512"
  shows "s_nfree x \<le> 0 \<or> (s_nfree x = 1 \<and> s_free x 0 = 0)"
proof (cases "s_nfree x \<le> 0")
  case False
  let ?fr = "frees (sb_free_bytes x)"
  have fc: "fchain cont (s_nfree x) ?fr []" using assms(1) False by (simp add: ffree_def)
  have "s_nfree x = 1" using fchain_pop [OF fc] False by fastforce
  with fc fchain_last [of cont ?fr "[]"] s_free_nth [OF assms(2), of 0] show ?thesis by auto
qed simp

lemma alloc_pick_some:
  assumes "fs_ok dev fp (b # L) s"
  shows "alloc_pick (Suc n) fp dev s = Ok (Some b) (bput fp (set_s_nfree (s_nfree (bdata fp s) - 1) (bdata fp s)) s)"
proof -
  let ?x = "bdata fp s" let ?y = "set_s_nfree (s_nfree ?x - 1) ?x" let ?t = "bput fp ?y s"
  have len: "length ?x = 512" by (rule fs_ok_len [OF assms])
  have y: "sbst fp s ?y ?t" using assms len by (intro sbst_put1) (auto simp: fs_ok_def)
  have c: "1 \<le> s_nfree ?x \<and> s_nfree ?x \<le> 50 \<and> b = s_free ?x (s_nfree ?x - 1)"
    using ffree_Cons [of "lcont s dev" ?x b L] assms len by (simp add: fs_ok_def)
  have fr: "s_free ?y (s_nfree ?x - 1) = b"
    using c len s_free_nth [of ?x "s_nfree ?x - 1"] s_free_nth [of ?y "s_nfree ?x - 1"] by simp
  have "s_isize ?x \<le> b" "b < s_fsize ?x" "b \<noteq> 0" using assms by (auto simp: fs_ok_def sb_range_def)
  with c fr len sbst_data [OF y] show ?thesis
    by (simp add: kdefs bget_def bset_def badblock_def NICFREE_def)
qed

lemma alloc_pick_none:
  assumes "fs_ok dev fp [] s"
  shows "\<exists>x t. alloc_pick (Suc n) fp dev s = Ok None t \<and> sbst fp s x t \<and> s_isize x = s_isize (bdata fp s) \<and>
    s_fsize x = s_fsize (bdata fp s) \<and> s_ninode x = s_ninode (bdata fp s)"
proof -
  let ?x = "bdata fp s" let ?y = "set_s_nfree (s_nfree ?x - 1) ?x" let ?t = "bput fp ?y s"
  have len: "length ?x = 512" by (rule fs_ok_len [OF assms])
  have y: "sbst fp s ?y ?t" using assms len by (intro sbst_put1) (auto simp: fs_ok_def)
  have c: "s_nfree ?x \<le> 0 \<or> (s_nfree ?x = 1 \<and> s_free ?x 0 = 0)"
    using ffree_Nil [of "lcont s dev" ?x] assms len by (simp add: fs_ok_def)
  show ?thesis
  proof (cases "s_nfree ?x \<le> 0")
    case True
    then have "alloc_pick (Suc n) fp dev s = Ok None s" by (simp add: kdefs bget_def)
    moreover have "sbst fp s ?x s" using assms by (intro sbst_start) (auto simp: fs_ok_def)
    ultimately show ?thesis by blast
  next
    case False
    then have c: "s_nfree ?x = 1" "s_free ?x 0 = 0" using c by auto
    have "s_free ?y 0 = 0" using c len s_free_nth [of ?x 0] s_free_nth [of ?y 0] by simp
    then have "alloc_pick (Suc n) fp dev s = Ok None ?t"
      using c sbst_data [OF y] by (simp add: kdefs bget_def bset_def NICFREE_def)
    then show ?thesis using y len by (intro exI [of _ ?y] exI [of _ ?t]) auto
  qed
qed

section \<open>Holding a block while the super block changes\<close>

lemma held_no_err: "held s dev b bp t \<Longrightarrow> dev \<noteq> NODEV \<Longrightarrow> in_range s dev b \<Longrightarrow> B_ERROR \<notin> b_flags (bufs t bp)"
  by (auto simp: held_def bio_inv_def bio_rep_def buf_ok_def same_block_def keeps_content_def same_devs_simps)

lemma held_sb: "held s dev b bp t \<Longrightarrow> sb_buf fp s \<Longrightarrow> sb_buf fp t \<and> bp \<noteq> fp \<and> (\<exists>i<NBUF. bp = Buf i \<and> busy t i) \<and> bio_inv t"
  by (auto simp: held_def sb_buf_def keeps_busy_def pl_eq)

lemma bput_comm:
  assumes "bio_inv t" "k < NBUF" "i < NBUF" "i \<noteq> k" "length x = 512" "length y = 512" "busy t i" "busy t k"
  shows "bput (Buf i) x (bput (Buf k) y t) = bput (Buf k) y (bput (Buf i) x t)"
proof -
  have "bio_inv (bput (Buf k) y t)" "bio_inv (bput (Buf i) x t)"
    using bput_ok(1) [OF assms(1,2) assms(8,6)] bput_ok(1) [OF assms(1,3) assms(7,5)] by auto
  then show ?thesis using assms by (simp add: bput_Buf fun_upd_twist)
qed

lemma held_sb_put:
  assumes h: "held s dev b bp t" and fp: "sb_buf fp s" and inv: "bio_inv s" and len: "length z = 512"
  shows "held (bput fp z s) dev b bp (bput fp z t)"
proof -
  from fp obtain k where k: "k < NBUF" "fp = Buf k" "busy s k" "bdev s k = NODEV" by (auto simp: sb_buf_def)
  from h obtain i where i: "i < NBUF" "bp = Buf i" "\<not> busy s i" "\<forall>j<NBUF. busy t j \<longleftrightarrow> j = i \<or> busy s j"
     "same_block dev b (bufs t (Buf i))" "B_ASYNC \<notin> flags t i" "clean t i" "bio_inv t" "keeps_content s t" "keeps_busy s t"
    by (auto simp: held_def)
  have ne: "i \<noteq> k" using i k by auto
  have bt: "busy t k" using i k by auto
  note es = bput_Buf [OF inv k(1) len] note et = bput_Buf [OF i(8) k(1) len]
  note ps = sbst_put1 [OF inv fp len] 
  have fpt: "sb_buf fp t" using held_sb [OF h fp] by simp
  note pt = sbst_put1 [OF i(8) fpt len]
  have kc: "keeps_content (bput fp z s) (bput fp z t)"
    using ps pt i(9) by (auto simp: sbst_def keeps_content_def same_devs_simps) (auto simp: same_devs_def)
  have kb: "keeps_busy (bput fp z s) (bput fp z t)"
    using i(10) by (auto simp: keeps_busy_def k(2) es et)
  have "clean (bput fp z t) i" using i(7) ne by (simp add: clean_def k(2) et)
  moreover have "bio_inv (bput fp z t)" using pt by (simp add: sbst_def)
  ultimately show ?thesis using i kc kb unfolding held_def by (intro exI [of _ i]) (auto simp: k(2) es et)
qed

lemma held_resid:
  assumes "held s dev b bp t"
  shows "held s dev b bp (bmod bp (\<lambda>b. b\<lparr>b_resid := v\<rparr>) t)"
proof -
  from assms obtain i where i: "i < NBUF" "bp = Buf i" "busy t i" "bio_inv t" "B_ASYNC \<notin> flags t i" "clean t i" "same_block dev b (bufs t (Buf i))"
    by (auto simp: held_def)
  let ?t = "bmod (Buf i) (\<lambda>b. b\<lparr>b_resid := v\<rparr>) t"
  from i(4) obtain al dl where rep: "bio_rep t al dl" by (auto simp: bio_inv_def)
  have st: "busy_step i t ?t" using i by (intro busy_step_bmod) auto
  have "buf_ok t i" using rep i by (simp add: bio_rep_def)
  then have "bio_rep ?t al dl" using i by (intro busy_step_ok [OF rep st i(1)]) (auto simp: buf_ok_def)
  moreover have "keeps_content t ?t"
  proof -
    have "caches ?t = caches t" by (simp add: fun_eq_iff caches_def same_block_def bmod_def)
    then have "lcont ?t = lcont t" by (intro ext) (simp add: lcont_def split: option.split)
    then show ?thesis by (simp add: keeps_content_def same_devs_def)
  qed
  ultimately show ?thesis unfolding i(2)
    using held_step [of s dev b i t ?t] assms st i by (auto simp: bio_invI busy_step_def clean_def same_block_def)
qed

section \<open>\<^verbatim>\<open>alloc\<close>\<close>

definition zeros :: "int list" where "zeros = replicate 512 0"

text \<open>
  The outcome of getting the block \<open>b\<close>: a buffer taken in the cache for that block and filled with
  zeros, with the super block updated.
\<close>

definition got_zeroed :: "'a fss_scheme \<Rightarrow> int \<Rightarrow> bptr \<Rightarrow> int \<Rightarrow> int list \<Rightarrow> bptr \<Rightarrow> 'a fss_scheme \<Rightarrow> bool" where
  "got_zeroed s dev fp b L bp t \<longleftrightarrow> (\<exists>x s1 t0. sbst fp s x s1 \<and> fs_ok dev fp L s1 \<and> held s1 dev b bp t0 \<and> bframe s1 t0 \<and>
     t = bput bp zeros t0)"

lemma alloc_take_ok:
  assumes st: "sbst fp s x t" and fs: "fs_ok dev fp L t" and r: "in_range t dev b"
  shows "kpost (kbind (getblk dev b) (\<lambda>bp. kthen (kmod (clrbuf bp)) (kthen (bset fp (set_s_fmod 1)) (kret (Some bp)))) t)
     (\<lambda>r v. \<exists>bp. r = Some bp \<and> got_zeroed s dev fp b L bp v)
     (\<lambda>c p v. p = PRIBIO + 1 \<and> must_wait t dev b c v) (\<lambda>_ _. False)"
proof -
  have inv: "bio_inv t" "dev_ok t dev" and fp: "sb_buf fp t" using fs by (auto simp: fs_ok_def)
  have len: "length x = 512" "bdata fp t = x" using sbst_data [OF st] by auto
  have "got_zeroed s dev fp b L bp (bput fp (set_s_fmod 1 (bdata fp (clrbuf bp v))) (clrbuf bp v))"
    if h: "held t dev b bp v \<and> bframe t v" for bp v
  proof -
    define w where "w = bmod bp (\<lambda>b. b\<lparr>b_resid := 0\<rparr>) v" let ?y = "set_s_fmod 1 x"
    have hw: "held t dev b bp w" and fw: "bframe t w" using held_resid h by (auto simp: w_def kframe)
    from held_sb [OF hw fp] obtain i where i: "i < NBUF" "bp = Buf i" "busy w i" "bio_inv w" "sb_buf fp w" "Buf i \<noteq> fp" by blast
    then obtain k where k: "k < NBUF" "fp = Buf k" "busy w k" "i \<noteq> k" by (auto simp: sb_buf_def)
    have c: "clrbuf bp v = bput bp zeros w"
    proof -
      have "b_addr (bufs w (Buf i)) = Abuf i" using i by (auto simp: bio_inv_def bio_rep_def buf_ok_def)
      then have "b_addr (bufs v bp) = Abuf i" by (simp add: w_def i(2))
      then show ?thesis by (simp add: w_def clrbuf_def bput_def zeros_def BSIZE_def bmod_def store_def)
    qed
    have ly: "length ?y = 512" using len by simp
    have z: "length zeros = 512" by (simp add: zeros_def)
    have "bdata fp (bput bp zeros w) = bdata fp w"
      using bput_ok(1) [OF i(4,1,3) z] i k z by (simp add: bdata_Buf bput_Buf)
    moreover have "bdata fp w = bdata fp t"
      using hw k fp inv i by (auto simp: held_def keeps_busy_def bdata_Buf sb_buf_def)
    ultimately have "bput fp (set_s_fmod 1 (bdata fp (clrbuf bp v))) (clrbuf bp v) = bput fp ?y (bput bp zeros w)"
      using len c by simp
    also have "\<dots> = bput bp zeros (bput fp ?y w)" unfolding i(2) k(2)
      by (rule bput_comm [symmetric]) (use i k z ly in auto)
    finally have e: "bput fp (set_s_fmod 1 (bdata fp (clrbuf bp v))) (clrbuf bp v) = bput bp zeros (bput fp ?y w)" .
    have hp: "held (bput fp ?y t) dev b bp (bput fp ?y w)" by (rule held_sb_put [OF hw fp inv(1) ly])
    have "fs_ok dev fp L (bput fp ?y t)"
      using fs len by (intro fs_ok_sbst [OF fs sbst_put1 [OF inv(1) fp ly]]) (auto simp: fs_ok_def ffree_def sb_range_def)
    moreover have "bframe (bput fp ?y t) (bput fp ?y w)"
      using fw inv i k ly by (simp add: bput_Buf kframe) (simp add: bframe_def)
    ultimately show ?thesis unfolding got_zeroed_def e using sbst_put [OF st ly] hp by blast
  qed
  then show ?thesis
    by (simp, intro kpost_weaken [OF getblk_ok [OF inv]]) auto
qed

text \<open>Reading the next group while nobody else may touch the free list.\<close>

lemma sbst_held_put_rel:
  assumes st: "sbst fp s x t" and h: "held t dev b bp v" and fv: "bframe t v" and len: "length y = 512"
  shows "sbst fp s y (brelse bp (bput fp y v))"
proof -
  have t: "bio_inv t" "sb_buf fp t" using st by (auto simp: sbst_def)
  note hp = held_sb_put [OF h t(2,1) len]
  note rl = held_brelse [OF hp]
  have "bframe (bput fp y t) (bput fp y v)"
    using fv t held_sb [OF h t(2)] len by (auto simp: bput_Buf sb_buf_def kframe) (simp add: bframe_def)
  then have "bframe (bput fp y t) (brelse bp (bput fp y v))" using rl bframe_trans by blast
  with rl show ?thesis by (intro sbst_kept [OF sbst_put [OF st len]]) auto
qed

definition sb_same :: "int list \<Rightarrow> int list \<Rightarrow> bool" where
  "sb_same x y \<longleftrightarrow> s_isize y = s_isize x \<and> s_fsize y = s_fsize x \<and> s_ninode y = s_ninode x \<and> s_ronly y = s_ronly x \<and> s_ilock y = s_ilock x"

lemma sb_same_trans: "sb_same x y \<Longrightarrow> sb_same y z \<Longrightarrow> sb_same x z"
  by (simp add: sb_same_def)

lemma sb_same_set [simp]:
  "length y = 512 \<Longrightarrow> sb_same x (set_s_nfree v y) = sb_same x y" "length y = 512 \<Longrightarrow> sb_same x (set_s_flock v y) = sb_same x y"
  "length y = 512 \<Longrightarrow> sb_same x (set_s_fmod v y) = sb_same x y"
  "length y = 512 \<Longrightarrow> length xs = 200 \<Longrightarrow> sb_same x (set_sb_free_bytes xs y) = sb_same x y"
  "length y = 512 \<Longrightarrow> 0 \<le> i \<Longrightarrow> i < 50 \<Longrightarrow> sb_same x (set_s_free i v y) = sb_same x y"
  by (simp_all add: sb_same_def)

lemma sb_same_refl [simp]: "sb_same x x" by (simp add: sb_same_def)

lemma alloc_refill_ok:
  assumes st: "sbst fp s y t" and dv: "dev_ok t dev" "in_range t dev b"
    and nf: "1 \<le> df_nfree (lcont t dev b)" "df_nfree (lcont t dev b) \<le> 50"
  shows "kpost (alloc_refill fp dev b t)
    (\<lambda>more v. more \<and> (\<exists>x. sbst fp s x v \<and> s_nfree x = df_nfree (lcont t dev b) \<and> sb_free_bytes x = df_free_bytes (lcont t dev b) \<and>
       sb_same y x \<and> s_flock x = 0))
    (\<lambda>c p v. p = PRIBIO + 1 \<and> \<not> idle_blk t dev b) (\<lambda>_ _. False)"
proof -
  let ?y1 = "set_s_flock (s_flock y + 1) y" let ?t1 = "bput fp ?y1 t" let ?c = "lcont t dev b"
  let ?x = "set_sb_free_bytes (df_free_bytes ?c) (set_s_nfree (df_nfree ?c) ?y1)"
  let ?f = "set_s_flock 0 ?x"
  have ly: "length y = 512" "bdata fp t = y" using sbst_data [OF st] by auto
  have st1: "sbst fp s ?y1 ?t1" using ly by (intro sbst_put [OF st]) simp
  have tt: "sbst fp t ?y1 ?t1" using st ly by (intro sbst_put1) (auto simp: sbst_def)
  have d: "dev \<noteq> NODEV" using dv by (simp add: dev_ok_def)
  have t1: "bio_inv ?t1" "dev_ok ?t1 dev" "in_range ?t1 dev b" "lcont ?t1 dev b = ?c"
    using tt dv d by (auto simp: sbst_def keeps_content_def same_devs_simps)
  have lc: "length ?c = 512" using lcont_length [OF t1(1), of dev b] t1(4) by simp
  have idle: "idle_blk ?t1 dev b = idle_blk t dev b"
    using tt ly by (auto simp: idle_blk_def bput_def store_def split: baddr.split)
  have lx: "length ?x = 512" "length ?f = 512" using ly lc by auto
  have body: "kpost (kbind (bflagged bp B_ERROR) (\<lambda>err.
      kthen (kwhen (\<not> err) (kbind (bget bp df_nfree) (\<lambda>nf. kbind (bget bp df_free_bytes) (\<lambda>xs.
           bset fp (\<lambda>b. set_sb_free_bytes xs (set_s_nfree nf b))))))
      (kthen (kmod (brelse bp)) (kthen (bset fp (set_s_flock 0)) (kthen (kwakeup (Ch_flock fp))
      (bget fp (\<lambda>b. \<not> s_nfree b \<le> 0)))))) v)
    (\<lambda>more v. more \<and> (\<exists>x. sbst fp s x v \<and> s_nfree x = df_nfree ?c \<and> sb_free_bytes x = df_free_bytes ?c \<and> sb_same y x \<and> s_flock x = 0))
    S (\<lambda>_ _. False)"
    if h: "held ?t1 dev b bp v \<and> bdata bp v = ?c \<and> bframe ?t1 v" for bp v S
  proof -
    have err: "B_ERROR \<notin> b_flags (bufs v bp)" using h held_no_err t1(3) d by blast
    have bv: "bdata fp v = ?y1"
      using held_sb [of ?t1 dev b bp v fp] h sbst_buf [OF st1] sbst_data [OF st1]
      by (auto simp: held_def keeps_busy_def bdata_Buf sb_buf_def)
    let ?v1 = "brelse bp (bput fp ?x v)"
    have s2: "sbst fp s ?x ?v1" using h lx by (intro sbst_held_put_rel [OF st1]) auto
    then have s3: "sbst fp s ?f (bput fp ?f ?v1)" by (rule sbst_put [OF _ lx(2)])
    have sn: "s_nfree ?f = df_nfree ?c" "sb_free_bytes ?f = df_free_bytes ?c" "sb_same y ?f" "s_flock ?f = 0"
      using ly lc nf by simp_all
    show ?thesis using err bv h sbst_data [OF s2] sbst_data [OF s3] sn(1) nf s3 sn
      by (simp del: set_s_flock_get set_s_nfree_get set_sb_free_bytes_get sb_same_set) blast
  qed
  show ?thesis unfolding alloc_refill_def kpost_then kpost_bset ly
    by (rule kpost_bindI, rule bread_ok [OF t1(1,2,3)], rule body [unfolded kpost_then])
      (use t1(4) must_wait_busy [of ?t1 dev b] idle in auto)
qed

lemma kept_bufs_idle: "kept_bufs fp s t \<Longrightarrow> idle_blk t d b = idle_blk s d b"
  unfolding kept_bufs_def idle_blk_def same_block_def pl_eq by (metis (no_types, lifting))

lemma sbst_idle: "sbst fp s x t \<Longrightarrow> idle_blk t d b = idle_blk s d b"
  by (rule kept_bufs_idle [of fp]) (simp add: sbst_def)

lemma fchain_bounds: "fchain cont n fr L \<Longrightarrow> 1 \<le> n \<and> n \<le> 50"
  by (induction rule: fchain.induct) auto

lemma sb_range_tl: "sb_range x (b # L) \<Longrightarrow> sb_same x y \<Longrightarrow> sb_range y L"
  by (simp add: sb_range_def sb_same_def)

declare alloc_pick.simps [simp del]

text \<open>The state after the pick and, where needed, the refill.\<close>

lemma alloc_some:
  assumes fs: "fs_ok dev fp (b # L) s" and fl: "s_flock (bdata fp s) = 0"
  shows "kpost (alloc dev s) (\<lambda>r t. \<exists>bp. r = Some bp \<and> got_zeroed s dev fp b L bp t)
    (\<lambda>c p t. p = PRIBIO + 1 \<and> \<not> idle_blk s dev b) (\<lambda>_ _. False)"
proof -
  let ?x = "bdata fp s" let ?y = "set_s_nfree (s_nfree ?x - 1) ?x" let ?t = "bput fp ?y s"
  have len: "length ?x = 512" by (rule fs_ok_len [OF fs])
  have y: "sbst fp s ?y ?t" using fs len by (intro sbst_put1) (auto simp: fs_ok_def)
  have "ffree (lcont s dev) ?x (b # L)" using fs by (simp add: fs_ok_def)
  note c = ffree_Cons [OF this len]
  have cc: "1 \<le> s_nfree ?x" "s_nfree ?x \<le> 50" using c by auto
  have ny: "s_nfree ?y = s_nfree ?x - 1" using cc len by simp
  have r: "in_range s dev b" by (rule sb_in_range [OF fs]) simp
  have d: "dev \<noteq> NODEV" using fs by (simp add: fs_ok_def dev_ok_def)
  have tk: "in_range t dev b" if "sbst fp s x t" for x t
    using that r by (auto simp: sbst_def keeps_content_def same_devs_simps)
  have take: "kpost (kbind (getblk dev b) (\<lambda>bp. kthen (kmod (clrbuf bp)) (kthen (bset fp (set_s_fmod 1)) (kret (Some bp)))) t)
     (\<lambda>r v. \<exists>bp. r = Some bp \<and> got_zeroed s dev fp b L bp v) (\<lambda>c p v. p = PRIBIO + 1 \<and> \<not> idle_blk s dev b) (\<lambda>_ _. False)"
    if st: "sbst fp s x t" "sb_same ?x x" "fchain (lcont s dev) (s_nfree x) (frees (sb_free_bytes x)) L" for x t
  proof -
    have "fs_ok dev fp L t"
      using fs st(2) fchain_bounds [OF st(3)] sb_range_tl [OF _ st(2), of b L]
      by (intro fs_ok_sbst [OF fs st(1)]) (auto simp: ffree_def st(3) fs_ok_def sb_same_def NICFREE_def)
    then show ?thesis
      by (rule kpost_weaken [OF alloc_take_ok [OF st(1) _ tk [OF st(1)]]])
        (use must_wait_busy [of t dev b] sbst_idle [OF st(1), of dev b] in blast)+
  qed
  have rest: "kpost (kbind (if s_nfree ?y \<le> 0 then alloc_refill fp dev b else kret True) (\<lambda>more.
           if \<not> more then alloc_nospace fp dev
           else kbind (getblk dev b) (\<lambda>bp.
             kthen (kmod (clrbuf bp)) (kthen (bset fp (set_s_fmod 1)) (kret (Some bp))))) ?t)
     (\<lambda>r v. \<exists>bp. r = Some bp \<and> got_zeroed s dev fp b L bp v) (\<lambda>c p v. p = PRIBIO + 1 \<and> \<not> idle_blk s dev b) (\<lambda>_ _. False)"
  proof (cases "s_nfree ?x = 1")
    case True
    then have fc: "fchain (lcont s dev) (df_nfree (lcont s dev b)) (frees (df_free_bytes (lcont s dev b))) L"
      using c by auto
    have lt: "lcont ?t dev b = lcont s dev b" "dev_ok ?t dev" using y r d fs
      by (auto simp: sbst_def keeps_content_def fs_ok_def same_devs_simps)
    have nf: "1 \<le> df_nfree (lcont ?t dev b)" "df_nfree (lcont ?t dev b) \<le> 50" using fchain_bounds [OF fc] lt by auto
    have z: "s_nfree ?y \<le> 0" using True ny by simp
    show ?thesis unfolding if_P [OF z]
    proof (rule kpost_bindI, rule alloc_refill_ok [OF y lt(2) tk [OF y] nf], goal_cases)
      case (1 more v)
      then obtain x where x: "sbst fp s x v" "s_nfree x = df_nfree (lcont s dev b)" "sb_free_bytes x = df_free_bytes (lcont s dev b)"
        "sb_same ?y x" and m: "more" using lt by auto
      have "sb_same ?x x" using x(4) sb_same_trans [of ?x ?y x] len by simp
      from take [OF x(1) this] fc x m show ?case by simp
    qed (use sbst_idle [OF y, of dev b] in auto)
  next
    case False
    then have "\<not> s_nfree ?y \<le> 0" "fchain (lcont s dev) (s_nfree ?y) (frees (sb_free_bytes ?y)) L" "sb_same ?x ?y"
      using c cc ny len by auto
    with take [OF y] show ?thesis by simp
  qed
  have "alloc dev s = kbind (if s_nfree ?y \<le> 0 then alloc_refill fp dev b else kret True) (\<lambda>more.
           if \<not> more then alloc_nospace fp dev
           else kbind (getblk dev b) (\<lambda>bp.
             kthen (kmod (clrbuf bp)) (kthen (bset fp (set_s_fmod 1)) (kret (Some bp))))) ?t"
    using sbst_data [OF y] by (simp add: alloc_def getfs_run [OF fs] alloc_pick_some [OF fs] fl kbind_def bget_def kget_def)
  with rest show ?thesis by (simp only:)
qed

lemma alloc_none:
  assumes fs: "fs_ok dev fp [] s" and fl: "s_flock (bdata fp s) = 0"
  shows "\<exists>x t. alloc dev s = Ok None (t\<lparr>u := (u t)\<lparr>u_error := ENOSPC\<rparr>\<rparr>) \<and> sbst fp s x t \<and> fs_ok dev fp [] t \<and> s_nfree x = 0"
proof -
  obtain x t where x: "alloc_pick (Suc (nat NICFREE)) fp dev s = Ok None t" "sbst fp s x t" "s_isize x = s_isize (bdata fp s)"
    "s_fsize x = s_fsize (bdata fp s)" "s_ninode x = s_ninode (bdata fp s)" using alloc_pick_none [OF fs] by blast
  have lx: "length x = 512" "bdata fp t = x" using sbst_data [OF x(2)] by auto
  let ?y = "set_s_nfree 0 x" let ?v = "bput fp ?y t"
  have y: "sbst fp s ?y ?v" using lx by (intro sbst_put [OF x(2)]) simp
  have fy: "s_nfree ?y = 0" using lx by simp
  have ok: "fs_ok dev fp [] ?v"
    using fs x lx by (intro fs_ok_sbst [OF fs y]) (auto simp: ffree_def fs_ok_def sb_range_def NICFREE_def)
  obtain m where p: "prdev ''no space'' dev ?v = Ok () (?v\<lparr>klog := m\<rparr>)" using prdev_line_ex by blast
  have "alloc dev s = Ok None ((?v\<lparr>klog := m\<rparr>)\<lparr>u := (u (?v\<lparr>klog := m\<rparr>))\<lparr>u_error := ENOSPC\<rparr>\<rparr>)"
    using lx x(1) fl p by (simp add: alloc_def getfs_run [OF fs] alloc_nospace_def kdefs bget_def bset_def seterr_def umod_def)
  moreover have "fs_ok dev fp [] (?v\<lparr>klog := m\<rparr>)" using ok by simp
  moreover have "sbst fp s ?y (?v\<lparr>klog := m\<rparr>)" using y by simp
  ultimately show ?thesis using fy by blast
qed

section \<open>\<^verbatim>\<open>free\<close>\<close>

text \<open>Like \<open>sbst\<close>, with one block of the device overwritten.\<close>

definition sbwr :: "bptr \<Rightarrow> 'a bst_scheme \<Rightarrow> int \<Rightarrow> int \<Rightarrow> int list \<Rightarrow> int list \<Rightarrow> 'a bst_scheme \<Rightarrow> bool" where
  "sbwr fp s dev b c x t \<longleftrightarrow> bio_inv t \<and> updated s dev b c t \<and> kept_bufs fp s t \<and> sb_buf fp t \<and> bframe s t \<and> bdata fp t = x \<and> length x = 512"

lemma sbwr_put:
  assumes "sbwr fp s dev b c x t" "length y = 512"
  shows "sbwr fp s dev b c y (bput fp y t)"
proof -
  have "sbst fp t y (bput fp y t)" using assms by (intro sbst_put1) (auto simp: sbwr_def)
  then show ?thesis using assms kept_bufs_trans bframe_trans
    by (auto simp: sbwr_def sbst_def updated_def keeps_content_def same_devs_simps intro: same_devs_trans)
qed

lemma sbwr_log [simp]: "sbwr fp s dev b c x (t\<lparr>klog := l\<rparr>) = sbwr fp s dev b c x t"
  by (simp add: sbwr_def kept_bufs_def updated_def sb_buf_def bframe_def)

lemma sbst_sbwr:
  assumes "sbst fp s x t" "sbwr fp t dev b c y v"
  shows "sbwr fp s dev b c y v"
  using assms kept_bufs_trans bframe_trans
  by (auto simp: sbwr_def sbst_def updated_def keeps_content_def same_devs_simps intro: same_devs_trans)

lemma sbwr_write:
  assumes st: "sbst fp s x t" and h: "held t dev b bp v" and fv: "bframe t v" and len: "length y = 512" "length c = 512"
    and d: "dev \<noteq> NODEV" "in_range t dev b"
  shows "\<exists>w. bwrite bp (bput fp y (bput bp c v)) = Ok () w \<and> sbwr fp s dev b c y w"
proof -
  have t: "bio_inv t" "sb_buf fp t" using st by (auto simp: sbst_def)
  note hp = held_sb_put [OF h t(2,1) len(1)]
  from held_sb [OF h t(2)] obtain i k where i: "i < NBUF" "bp = Buf i" "busy v i" "k < NBUF" "fp = Buf k" "busy v k" "i \<noteq> k" "bio_inv v"
    by (auto simp: sb_buf_def)
  have cm: "bput fp y (bput bp c v) = bput bp c (bput fp y v)" unfolding i(2,5)
    by (rule bput_comm [symmetric]) (use i len in auto)
  have sp: "sbst fp s y (bput fp y t)" by (rule sbst_put [OF st len(1)])
  have r: "in_range (bput fp y t) dev b" using d t len by (auto simp: bput_Buf sb_buf_def)
  obtain w where w: "bwrite bp (bput bp c (bput fp y v)) = Ok () w" "bio_inv w" "updated (bput fp y t) dev b c w"
    "same_busy (bput fp y t) w" "bframe (bput fp y v) w" using held_bwrite [OF hp len(2) d(1) r] by blast
  have f1: "bframe (bput fp y t) (bput fp y v)"
    using fv t i len by (auto simp: bput_Buf kframe) (simp add: bframe_def)
  have sbp: "sb_buf fp (bput fp y t)" using sp by (simp add: sbst_def)
  have bf: "bframe (bput fp y t) w" using f1 w(5) bframe_trans by blast
  have sw: "sb_buf fp w" using sbp w(4) by (auto simp: sb_buf_def same_busy_def keeps_busy_def pl_eq)
  have dw: "bdata fp w = y"
    using sbst_data [OF sp] sbp w(2,4) by (auto simp: sb_buf_def bdata_Buf same_busy_def keeps_busy_def)
  have "sbwr fp (bput fp y t) dev b c y w"
    using w len bf sw dw kept_bufs_same_busy by (simp add: sbwr_def)
  then show ?thesis using sbst_sbwr [OF sp] w(1) cm by auto
qed

lemma free_spill_ok:
  assumes st: "sbst fp s y t" and dv: "dev_ok t dev" "in_range t dev b"
  shows "kpost (free_spill fp dev b t)
    (\<lambda>_ v. \<exists>c z. sbwr fp s dev b c z v \<and> df_nfree c = s_nfree y \<and> df_free_bytes c = sb_free_bytes y \<and>
       s_nfree z = 0 \<and> sb_free_bytes z = sb_free_bytes y \<and> sb_same y z \<and> s_flock z = 0)
    (\<lambda>c p v. p = PRIBIO + 1 \<and> \<not> idle_blk t dev b) (\<lambda>_ _. False)"
proof -
  let ?y1 = "set_s_flock (s_flock y + 1) y" let ?t1 = "bput fp ?y1 t"
  let ?y2 = "set_s_nfree 0 ?y1" let ?z = "set_s_flock 0 ?y2"
  have ly: "length y = 512" "bdata fp t = y" using sbst_data [OF st] by auto
  have st1: "sbst fp s ?y1 ?t1" using ly by (intro sbst_put [OF st]) simp
  have tt: "sbst fp t ?y1 ?t1" using st ly by (intro sbst_put1) (auto simp: sbst_def)
  have d: "dev \<noteq> NODEV" using dv by (simp add: dev_ok_def)
  have t1: "bio_inv ?t1" "dev_ok ?t1 dev" "in_range ?t1 dev b"
    using tt dv d by (auto simp: sbst_def keeps_content_def same_devs_simps)
  have lx: "length ?y2 = 512" "length ?z = 512" using ly by auto
  have body: "kpost (kbind (bget fp s_nfree) (\<lambda>nf. kbind (bget fp sb_free_bytes) (\<lambda>xs.
      kthen (bset bp (\<lambda>b. set_df_free_bytes xs (set_df_nfree nf b)))
      (kthen (bset fp (set_s_nfree 0)) (kthen (bwrite bp) (kthen (bset fp (set_s_flock 0)) (kwakeup (Ch_flock fp))))))) v)
    (\<lambda>_ v. \<exists>c z. sbwr fp s dev b c z v \<and> df_nfree c = s_nfree y \<and> df_free_bytes c = sb_free_bytes y \<and>
       s_nfree z = 0 \<and> sb_free_bytes z = sb_free_bytes y \<and> sb_same y z \<and> s_flock z = 0) S (\<lambda>_ _. False)"
    if h: "held ?t1 dev b bp v \<and> bframe ?t1 v" for bp v S
  proof -
    have hh: "held ?t1 dev b bp v" "bframe ?t1 v" using h by auto
    from held_sb [OF hh(1) sbst_buf [OF st1]] obtain i k where i: "i < NBUF" "bp = Buf i" "busy v i" "k < NBUF" "fp = Buf k" "i \<noteq> k" "bio_inv v"
      by (auto simp: sb_buf_def)
    have bv: "bdata fp v = ?y1"
      using i hh sbst_buf [OF st1] sbst_data [OF st1] by (auto simp: held_def keeps_busy_def bdata_Buf sb_buf_def)
    define c where "c = set_df_free_bytes (sb_free_bytes ?y1) (set_df_nfree (s_nfree ?y1) (bdata bp v))"
    have lb: "length (bdata bp v) = 512" using i bdata_length by simp
    have lc: "length c = 512" "df_nfree c = s_nfree y" "df_free_bytes c = sb_free_bytes y"
      using ly lb s_nfree_short [of y] by (simp_all add: c_def)
    have bc: "bdata fp (bput bp c v) = ?y1"
      using bv bput_ok(1) [OF i(7,1,3) lc(1)] i lc by (simp add: bdata_Buf bput_Buf)
    obtain w where w: "bwrite bp (bput fp ?y2 (bput bp c v)) = Ok () w" "sbwr fp s dev b c ?y2 w"
      using sbwr_write [OF st1 hh lx(1) lc(1) d t1(3)] by blast
    have dw: "bdata fp w = ?y2" using w(2) by (simp add: sbwr_def)
    have z: "sbwr fp s dev b c ?z (bput fp ?z w)" by (rule sbwr_put [OF w(2) lx(2)])
    have zf: "s_nfree ?z = 0" "sb_free_bytes ?z = sb_free_bytes y" "sb_same y ?z" "s_flock ?z = 0" using ly by simp_all
    show ?thesis using z zf lc unfolding kpost_bind kpost_then kpost_bget kpost_bset bv c_def [symmetric] bc w(1) kpost.simps dw kpost_wakeup sbwr_log
      by blast
  qed
  show ?thesis unfolding free_spill_def kpost_then kpost_bset ly
    by (rule kpost_bindI, rule getblk_ok [OF t1(1,2)], rule body [unfolded kpost_then])
      (use must_wait_busy [of ?t1 dev b] sbst_idle [OF tt, of dev b] in auto)
qed

definition with_blk :: "'a bst_scheme \<Rightarrow> int \<Rightarrow> int \<Rightarrow> int list \<Rightarrow> int \<Rightarrow> int list" where
  "with_blk s dev b c n = (if n = b then c else lcont s dev n)"

lemma fs_ok_sbwr:
  assumes "fs_ok dev fp L s" "sbwr fp s dev b c x t" "s_nfree x \<le> NICFREE" "sb_same (bdata fp s) x"
    "fchain (with_blk s dev b c) (s_nfree x) (frees (sb_free_bytes x)) L'" "sb_range x L'"
  shows "fs_ok dev fp L' t"
proof -
  have sd: "same_devs s t" "bframe s t" "updated s dev b c t" using assms(2) by (auto simp: sbwr_def updated_def)
  have dv: "dev \<noteq> NODEV" using assms(1) by (simp add: fs_ok_def dev_ok_def)
  have "lcont t dev n = with_blk s dev b c n" if "n \<in> set L'" for n
  proof -
    have "in_range s dev n" using that assms(1,4,6) s_isize_range [of x]
      by (fastforce simp: sb_range_def fs_ok_def in_range_def sb_same_def)
    with sd(3) dv show ?thesis by (simp add: updated_def with_blk_def)
  qed
  then have "ffree (lcont t dev) x L'" unfolding ffree_def using fchain_cong [OF assms(5), of "lcont t dev"] by blast
  with assms sd show ?thesis
    by (auto simp: fs_ok_def sbwr_def mounted_bframe same_devs_simps sb_same_def) (simp add: same_devs_def)
qed

lemma sbst_is_sbwr: "sbst fp s x t \<Longrightarrow> sbwr fp s dev b (lcont s dev b) x t"
  by (auto simp: sbst_def sbwr_def updated_def keeps_content_def)

definition pushed :: "'a fss_scheme \<Rightarrow> int \<Rightarrow> bptr \<Rightarrow> int \<Rightarrow> int list \<Rightarrow> 'a fss_scheme \<Rightarrow> bool" where
  "pushed s dev fp b L t \<longleftrightarrow> fs_ok dev fp (b # L) t \<and> s_flock (bdata fp t) = 0 \<and> (\<exists>c x. sbwr fp s dev b c x t)"

definition free_last :: "int \<Rightarrow> int list \<Rightarrow> int list" where
  "free_last b z = set_s_fmod 1 (set_s_free (s_nfree z) b (set_s_nfree (s_nfree z + 1) z))"

lemma free_last_get:
  assumes "length z = 512" "0 \<le> s_nfree z" "s_nfree z < 50" "- 2147483648 \<le> b" "b < 2147483648"
  shows "length (free_last b z) = 512" "s_nfree (free_last b z) = s_nfree z + 1"
    "frees (sb_free_bytes (free_last b z)) = (frees (sb_free_bytes z))[nat (s_nfree z) := b]"
    "sb_same x (free_last b z) = sb_same x z" "s_flock (free_last b z) = s_flock z"
  using assms by (simp_all add: free_last_def set_s_free_frees)

lemma free_put:
  assumes fs: "fs_ok dev fp L s" and st: "sbwr fp s dev b c z v" and nf: "0 \<le> s_nfree z" "s_nfree z < 50"
    and b: "s_isize z \<le> b" "b < s_fsize z" "b \<noteq> 0" "b \<notin> set L" and sm: "sb_same (bdata fp s) z" and fl: "s_flock z = 0"
    and ch: "fchain (with_blk s dev b c) (s_nfree z + 1) ((frees (sb_free_bytes z))[nat (s_nfree z) := b]) (b # L)"
  shows "kpost (bset fp (\<lambda>b'. set_s_fmod 1 (set_s_free (s_nfree b') b (set_s_nfree (s_nfree b' + 1) b'))) v)
     (\<lambda>_ t. pushed s dev fp b L t) S P"
proof -
  have lz: "length z = 512" "bdata fp v = z" using st by (auto simp: sbwr_def)
  have br: "- 2147483648 \<le> b" "b < 2147483648" using b s_isize_range [of z] cint_range [of "dec (get_bytes 4 4 z)"]
    by (auto simp: s_fsize_def i32_def)
  note g = free_last_get [OF lz(1) nf br]
  have w: "sbwr fp s dev b c (free_last b z) (bput fp (free_last b z) v)" by (rule sbwr_put [OF st g(1)])
  have "sb_range (free_last b z) (b # L)"
    using fs b sm g(4) [of "bdata fp s"] by (auto simp: sb_range_def fs_ok_def sb_same_def)
  then have "fs_ok dev fp (b # L) (bput fp (free_last b z) v)"
    using nf sm g ch by (intro fs_ok_sbwr [OF fs w]) (auto simp: NICFREE_def)
  then have "pushed s dev fp b L (bput fp (free_last b z) v)"
    using w g(5) fl by (auto simp: pushed_def sbwr_def)
  then show ?thesis using lz by (simp add: free_last_def)
qed

lemma fchain_with: "fchain (lcont s dev) n fr L \<Longrightarrow> b \<notin> set L \<Longrightarrow> fchain (with_blk s dev b c) n fr L"
  by (erule fchain_cong) (auto simp: with_blk_def)

lemma free_ok:
  assumes fs: "fs_ok dev fp L s" and fl: "s_flock (bdata fp s) = 0"
    and b: "s_isize (bdata fp s) \<le> b" "b < s_fsize (bdata fp s)" "b \<noteq> 0" "b \<notin> set L"
  shows "kpost (free dev b s) (\<lambda>_ t. pushed s dev fp b L t) (\<lambda>c p t. p = PRIBIO + 1 \<and> \<not> idle_blk s dev b) (\<lambda>_ _. False)"
proof -
  let ?x = "bdata fp s" let ?x1 = "set_s_fmod 1 ?x" let ?t1 = "bput fp ?x1 s"
  let ?last = "bset fp (\<lambda>b'. set_s_fmod 1 (set_s_free (s_nfree b') b (set_s_nfree (s_nfree b' + 1) b')))"
  let ?Q = "\<lambda>_ t. pushed s dev fp b L t" let ?S = "\<lambda>c p t. p = PRIBIO + 1 \<and> \<not> idle_blk s dev b" let ?P = "\<lambda>_ _. False"
  have len: "length ?x = 512" by (rule fs_ok_len [OF fs])
  have x1: "sbst fp s ?x1 ?t1" using fs len by (intro sbst_put1) (auto simp: fs_ok_def)
  have ir: "in_range s dev b" using b fs s_isize_range [of ?x] by (auto simp: fs_ok_def in_range_def)
  have dv: "dev_ok t dev" "in_range t dev b" if "sbst fp s x t" for x t
    using that ir fs by (auto simp: sbst_def keeps_content_def same_devs_simps fs_ok_def)
  have n50: "s_nfree ?x \<le> 50" and ff: "ffree (lcont s dev) ?x L" using fs by (auto simp: fs_ok_def NICFREE_def)
  have rest: "kpost (kthen (kwhen (s_nfree ?x \<le> 0) (bset fp (\<lambda>b. set_s_free 0 0 (set_s_nfree 1 b))))
          (kbind (bget fp s_nfree) (\<lambda>nf. kthen (kwhen (nf \<ge> NICFREE) (free_spill fp dev b)) ?last)) ?t1) ?Q ?S ?P"
  proof -
    consider "s_nfree ?x \<le> 0" | "0 < s_nfree ?x" "s_nfree ?x < 50" | "s_nfree ?x = 50" using n50 by linarith
    then show ?thesis
    proof cases
      case 1
      let ?x2 = "set_s_free 0 0 (set_s_nfree 1 ?x1)"
      have l2: "length ?x2 = 512" using len by simp
      have s2: "sbst fp s ?x2 (bput fp ?x2 ?t1)" by (rule sbst_put [OF x1 l2])
      have n2: "s_nfree ?x2 = 1" "sb_same ?x ?x2" "s_flock ?x2 = 0" using len fl by simp_all
      have "fr ! 0 = 0 \<Longrightarrow> fchain cont 1 fr []" for cont and fr :: "int list"
        using fc_end [of 1 fr cont] by simp
      moreover have "frees (sb_free_bytes ?x2) ! 0 = 0" using len by (simp add: set_s_free_frees)
      ultimately have "fchain (with_blk s dev b c) 1 (frees (sb_free_bytes ?x2)) []" for c by blast
      moreover have "L = []" using ff 1 fchain_bounds by (force simp: ffree_def)
      ultimately have ch: "fchain (with_blk s dev b (lcont s dev b)) (s_nfree ?x2 + 1) ((frees (sb_free_bytes ?x2))[nat (s_nfree ?x2) := b]) (b # L)"
        unfolding n2 by (intro fchain_push) auto
      have "kpost (?last (bput fp ?x2 ?t1)) ?Q ?S ?P"
        by (rule free_put [OF fs sbst_is_sbwr [OF s2] _ _ _ _ b(3,4) n2(2,3) ch]) (use b n2(1) len in auto)
      with 1 sbst_data [OF x1] sbst_data [OF s2] n2(1) show ?thesis by (simp add: NICFREE_def del: set_s_free_get set_s_nfree_get)
    next
      case 2
      have n1: "s_nfree ?x1 = s_nfree ?x" "sb_same ?x ?x1" "s_flock ?x1 = 0" "sb_free_bytes ?x1 = sb_free_bytes ?x" using len fl by simp_all
      have "fchain (lcont s dev) (s_nfree ?x) (frees (sb_free_bytes ?x)) L" using ff 2 by (simp add: ffree_def)
      then have ch: "fchain (with_blk s dev b (lcont s dev b)) (s_nfree ?x1 + 1) ((frees (sb_free_bytes ?x1))[nat (s_nfree ?x1) := b]) (b # L)"
        unfolding n1(1,4) using 2 b(4) by (intro fchain_push fchain_with) auto
      have "kpost (?last ?t1) ?Q ?S ?P"
        by (rule free_put [OF fs sbst_is_sbwr [OF x1] _ _ _ _ b(3,4) n1(2,3) ch]) (use b 2 len in auto)
      with 2 sbst_data [OF x1] n1(1) show ?thesis by (simp add: NICFREE_def del: set_s_fmod_get)
    next
      case 3
      have n1: "s_nfree ?x1 = 50" "sb_same ?x ?x1" "sb_free_bytes ?x1 = sb_free_bytes ?x" using len 3 by simp_all
      have fc: "fchain (lcont s dev) 50 (frees (sb_free_bytes ?x)) L" using ff 3 by (simp add: ffree_def)
      have "kpost (kthen (free_spill fp dev b) ?last ?t1) ?Q ?S ?P"
      proof (rule kpost_thenI, rule free_spill_ok [OF x1 dv [OF x1]], goal_cases)
        case (1 y v)
        then obtain c z where z: "sbwr fp s dev b c z v" "df_nfree c = 50" "df_free_bytes c = sb_free_bytes ?x"
           "s_nfree z = 0" "sb_free_bytes z = sb_free_bytes ?x" "sb_same ?x1 z" "s_flock z = 0" using n1 by auto
        have sm: "sb_same ?x z" using sb_same_trans [OF n1(2) z(6)] .
        have "fchain (with_blk s dev b c) 1 (frs[0 := b]) (b # L)" if "length frs = 50" for frs :: "int list"
          using fc_next [of 1 "frs[0 := b]" b "with_blk s dev b c" L] fchain_with [OF fc b(4), of c] z that b(3)
          by (simp add: with_blk_def)
        then have ch: "fchain (with_blk s dev b c) (s_nfree z + 1) ((frees (sb_free_bytes z))[nat (s_nfree z) := b]) (b # L)"
          unfolding z(4) by simp
        show ?case
          by (rule free_put [OF fs z(1) _ _ _ _ b(3,4) sm z(7) ch]) (use b z(4) sm in \<open>auto simp: sb_same_def\<close>)
      qed (use sbst_idle [OF x1, of dev b] in auto)
      with 3 sbst_data [OF x1] n1(1) show ?thesis by (simp add: NICFREE_def del: set_s_fmod_get)
    qed
  qed
  have "free dev b s = kthen (kwhen (s_nfree ?x \<le> 0) (bset fp (\<lambda>b. set_s_free 0 0 (set_s_nfree 1 b))))
          (kbind (bget fp s_nfree) (\<lambda>nf. kthen (kwhen (nf \<ge> NICFREE) (free_spill fp dev b)) ?last)) ?t1"
    using sbst_data [OF x1] fl b len
    by (simp add: free_def getfs_run [OF fs] kbind_def kthen_def bget_def bset_def kget_def kmod_def badblock_def kwhen_def kret_def)
  with rest show ?thesis by (simp only:)
qed

end
