(* ===== verification/Alloc_Props.thy ===== *)
theory Alloc_Props
  imports Alloc_Spec
begin

text \<open>
  Mounting the root device at boot, and the properties of the block allocator. The abstract
  allocator is a stack of block numbers (\<open>free_store\<close>); the interpretation discharges its laws for the
  code.
\<close>

section \<open>\<^verbatim>\<open>iinit\<close>\<close>

definition disk_fs :: "int \<Rightarrow> int list \<Rightarrow> 'a fss_scheme \<Rightarrow> bool" where
  "disk_fs dev L s \<longleftrightarrow> (let x = lcont s dev SUPERB in
     s_nfree x \<le> NICFREE \<and> s_ninode x \<le> NICINOD \<and> s_fsize x \<le> mdsz s dev \<and> ffree (lcont s dev) x L \<and> sb_range x L)"

definition boot_sb :: "int list \<Rightarrow> int list \<Rightarrow> int list" where
  "boot_sb x y = set_s_ronly 0 (set_s_ilock 0 (set_s_flock 0 (put_bytes 0 (get_bytes 0 448 x) y)))"

lemma get_bytes_boot:
  assumes "length x = 512" "length y = 512" "p + n \<le> 414"
  shows "get_bytes p n (boot_sb x y) = get_bytes p n x"
proof -
  let ?w = "put_bytes 0 (get_bytes 0 448 x) y"
  have l: "length ?w = 512" using assms by simp
  have "get_bytes p n (boot_sb x y) = get_bytes p n ?w"
    using assms l by (simp add: boot_sb_def sb_sets get_put_before)
  also have "\<dots> = get_bytes p n x" using assms by (simp add: put_bytes_def get_bytes_def take_drop min_def)
  finally show ?thesis .
qed

lemma boot_sb_get:
  assumes "length x = 512" "length y = 512"
  shows "s_nfree (boot_sb x y) = s_nfree x" "s_ninode (boot_sb x y) = s_ninode x" "s_isize (boot_sb x y) = s_isize x"
    "s_fsize (boot_sb x y) = s_fsize x" "sb_free_bytes (boot_sb x y) = sb_free_bytes x" "s_flock (boot_sb x y) = 0"
    "length (boot_sb x y) = 512"
proof -
  show "s_nfree (boot_sb x y) = s_nfree x" "s_ninode (boot_sb x y) = s_ninode x" "s_isize (boot_sb x y) = s_isize x"
    "s_fsize (boot_sb x y) = s_fsize x" "sb_free_bytes (boot_sb x y) = sb_free_bytes x"
    using get_bytes_boot [OF assms] by (simp_all add: sb_gets)
  have "length (put_bytes 0 (get_bytes 0 448 x) y) = 512" using assms by simp
  then show "s_flock (boot_sb x y) = 0" "length (boot_sb x y) = 512"
    using i8_byte [of 0] by (simp_all add: boot_sb_def) (simp add: sb_gets sb_sets get_put cchar_def)
qed

lemma two_bufs: "i < NBUF \<Longrightarrow> \<exists>j<NBUF. j \<noteq> i"
  by (rule exI [of _ "if i = 0 then 1 else 0"]) (simp add: NBUF_def)

lemma kept_data:
  assumes "keeps_busy s t" "bio_inv s" "bio_inv t" "i < NBUF" "busy s i"
  shows "bdata (Buf i) t = bdata (Buf i) s"
  using assms by (simp add: keeps_busy_def bdata_Buf)

text \<open>Two buffers are held: one for the block read, one for the copy.\<close>

lemma iinit_bufs:
  assumes "bio_inv s" "dev_ok s dev" "in_range s dev SUPERB" "\<forall>i<NBUF. \<not> busy s i"
  shows "kpost (kbind (bread dev SUPERB) (\<lambda>bp. kbind geteblk (\<lambda>cp. kret (bp, cp))) s)
    (\<lambda>(bp, cp) v. \<exists>i<NBUF. \<exists>k<NBUF. i \<noteq> k \<and> bp = Buf i \<and> cp = Buf k \<and> (\<forall>j<NBUF. busy v j \<longleftrightarrow> j = i \<or> j = k) \<and> bdev v k = NODEV \<and>
       bio_inv v \<and> keeps_content s v \<and> bframe s v \<and> clean v i \<and> bdata bp v = lcont s dev SUPERB)
    (\<lambda>_ _ _. False) (\<lambda>_ _. False)"
proof (rule kpost_bindI, rule bread_ok [OF assms(1-3)], goal_cases)
  case (1 bp t)
  then obtain i where i: "i < NBUF" "bp = Buf i" "\<forall>j<NBUF. busy t j \<longleftrightarrow> j = i" "clean t i" "bio_inv t" "keeps_content s t" "bframe s t"
    "bdata bp t = lcont s dev SUPERB" using assms(4) by (auto simp: held_def)
  show ?case
  proof (rule kpost_bindI, rule geteblk_ok [OF i(5)], goal_cases)
    case (1 cp v)
    then obtain k where k: "k < NBUF" "cp = Buf k" "\<not> busy t k" "\<forall>j<NBUF. busy v j \<longleftrightarrow> j = k \<or> busy t j" "bdev v k = NODEV"
      "bio_inv v" "keeps_content t v" "keeps_busy t v" "bframe t v" by (auto simp: held_none_def)
    have bi: "busy t i" using i by auto
    have p: "pl (bufs v (Buf i)) = pl (bufs t (Buf i))" "buffers v i = buffers t i"
      "bdev t i \<noteq> NODEV \<Longrightarrow> on_disk v (bdev t i) (bno t i) = on_disk t (bdev t i) (bno t i)"
      using k(8) i(1) bi by (auto simp: keeps_busy_def)
    have "bdev v i = bdev t i" "bno v i = bno t i" "flags v i = flags t i" "same_devs t v"
      using p(1) k(7) by (auto simp: pl_eq keeps_content_def)
    then have "clean v i" using i(4) p(2,3) by (cases "bdev t i = NODEV") (simp_all add: clean_def same_devs_simps)
    moreover have "bdata bp v = lcont s dev SUPERB" using kept_data [OF k(8) i(5) k(6) i(1) bi] i by simp
    moreover have "i \<noteq> k" using bi k i by auto
    ultimately show ?case using i k keeps_content_trans [OF i(6) k(7)] bframe_trans [OF i(7) k(9)] by auto
  next
    case (2 c p v)
    then show ?case using i(3) two_bufs [OF i(1)] by auto
  qed auto
next
  case (2 c p v)
  have "0 < NBUF" by (simp add: NBUF_def)
  then have "idle_blk s dev SUPERB" using assms(4) by (auto simp: idle_blk_def)
  with 2 show ?case using must_wait_busy by blast
qed auto

text \<open>The held copy \<open>cp\<close> is filled, the buffer read is released.\<close>

lemma iinit_release:
  assumes v: "bio_inv v" "i < NBUF" "k < NBUF" "i \<noteq> k" "\<forall>j<NBUF. busy v j \<longleftrightarrow> j = i \<or> j = k" "bdev v k = NODEV" "clean v i"
    and y: "length y = 512"
  defines "w \<equiv> brelse (Buf i) (bput (Buf k) y v)"
  shows "bio_inv w" "keeps_content v w" "bframe v w" "sb_buf (Buf k) w" "bdata (Buf k) w = y" "\<forall>j<NBUF. busy w j \<longleftrightarrow> j = k"
proof -
  have b: "busy v i" "busy v k" using v by auto
  note bp = bput_ok [OF v(1,3) b(2) y]
  have sb: "sb_buf (Buf k) v" using v b by (auto simp: sb_buf_def)
  note st = sbst_put1 [OF v(1) sb y]
  have e: "bput (Buf k) y v = v\<lparr>buffers := (buffers v)(k := y)\<rparr>" by (rule bput_Buf [OF v(1,3) y])
  have cl: "clean (bput (Buf k) y v) i" using v(4,7) by (simp add: e clean_def)
  obtain al dl where rep: "bio_rep (bput (Buf k) y v) al dl" using bp(1) by (auto simp: bio_inv_def)
  note br = brelse_ok [OF rep v(2) _ cl, folded w_def]
  have bi: "busy (bput (Buf k) y v) i" using b by (simp add: e)
  note br = br [OF bi]
  show inv: "bio_inv w" using br(1) by (rule bio_invI)
  show "keeps_content v w" using keeps_content_trans [OF _ br(2)] st by (auto simp: sbst_def)
  show "bframe v w" using st by (simp add: w_def kframe sbst_def)
  have nb: "\<not> busy w i" using br(5) by (auto simp: pl_def released_def)
  have bs: "busy w j \<longleftrightarrow> j \<noteq> i \<and> busy (bput (Buf k) y v) j" for j by (rule upd_busy_idle [OF br(3) nb])
  then show "\<forall>j<NBUF. busy w j \<longleftrightarrow> j = k" using v by (auto simp: e)
  have pk: "pl (bufs w (Buf k)) = pl (bufs v (Buf k))" "buffers w k = y"
    using br(3) v(4) by (auto simp: upd_buf_def e)
  then show "sb_buf (Buf k) w" using v b by (auto simp: sb_buf_def pl_eq)
  show "bdata (Buf k) w = y" using inv pk v by (simp add: bdata_Buf)
qed

lemma iinit_ok:
  assumes inv: "bio_inv s" "\<forall>i<NBUF. \<not> busy s i" and dev: "dev_ok s (rootdev s)" "in_range s (rootdev s) SUPERB"
    and err: "u_error (u s) = 0" and m: "\<forall>k. m_bufp (mount s k) = NULLB" and fs: "disk_fs (rootdev s) L s"
  shows "\<exists>fp t. iinit (\<lambda>_ _. nulldev) s = Ok () t \<and> fs_ok (rootdev s) fp L t \<and> s_flock (bdata fp t) = 0 \<and> keeps_content s t \<and>
    (\<forall>j<NBUF. busy t j \<longleftrightarrow> Buf j = fp) \<and> time t = (if time s = 0 then s_time (bdata fp t) else time s) \<and>
    s_isize (bdata fp t) = s_isize (lcont s (rootdev s) SUPERB) \<and> s_fsize (bdata fp t) = s_fsize (lcont s (rootdev s) SUPERB)"
proof -
  let ?dev = "rootdev s" let ?x = "lcont s ?dev SUPERB"
  have "kpost (kbind (bread ?dev SUPERB) (\<lambda>bp. kbind geteblk (\<lambda>cp. kret (bp, cp))) s)
    (\<lambda>(bp, cp) v. \<exists>i<NBUF. \<exists>k<NBUF. i \<noteq> k \<and> bp = Buf i \<and> cp = Buf k \<and> (\<forall>j<NBUF. busy v j \<longleftrightarrow> j = i \<or> j = k) \<and> bdev v k = NODEV \<and>
       bio_inv v \<and> keeps_content s v \<and> bframe s v \<and> clean v i \<and> bdata bp v = ?x)
    (\<lambda>_ _ _. False) (\<lambda>_ _. False)" by (rule iinit_bufs [OF inv(1) dev inv(2)])
  then obtain t v i k where r: "bread ?dev SUPERB s = Ok (Buf i) t" "geteblk t = Ok (Buf k) v"
    and v: "i < NBUF" "k < NBUF" "i \<noteq> k" "\<forall>j<NBUF. busy v j \<longleftrightarrow> j = i \<or> j = k" "bdev v k = NODEV" "bio_inv v" "keeps_content s v"
      "bframe s v" "clean v i" "bdata (Buf i) v = ?x"
    apply (cases "bread ?dev SUPERB s"; simp)
    subgoal for bp t by (cases "geteblk t") auto
    done
  define y where "y = put_bytes 0 (get_bytes 0 448 ?x) (bdata (Buf k) v)"
  have lx: "length ?x = 512" by (rule lcont_length [OF inv(1)])
  have lk: "length (bdata (Buf k) v) = 512" by (rule bdata_length [OF v(6,2)])
  have ly: "length y = 512" using lx lk by (simp add: y_def)
  define w where "w = brelse (Buf i) (bput (Buf k) y v)"
  note w = iinit_release [OF v(6,1,2,3,4,5,9) ly, folded w_def]
  define w1 where "w1 = w\<lparr>mount := (mount w)(0 := (mount w 0)\<lparr>m_bufp := Buf k, m_dev := ?dev\<rparr>)\<rparr>"
  define z where "z = boot_sb ?x (bdata (Buf k) v)"
  note zg = boot_sb_get [OF lx lk, folded z_def]
  have w1: "bio_inv w1" "sb_buf (Buf k) w1" "bdata (Buf k) w1 = y" using w by (simp_all add: w1_def sb_buf_def)
  note st = sbst_put1 [OF w1(1,2) zg(7)]
  define w2 where "w2 = bput (Buf k) z w1"
  have zy: "z = set_s_ronly 0 (set_s_ilock 0 (set_s_flock 0 y))" by (simp add: z_def boot_sb_def y_def)
  define f where "f = (if time w2 = 0 then w2\<lparr>time := s_time (bdata (Buf k) w2)\<rparr> else w2)"
  have uv: "u_error (u v) = 0" using v(8) err by (simp add: bframe_def)
  have run: "iinit (\<lambda>_ _. nulldev) s = Ok () f"
    using r uv v(10) w(5) w1(3)
    by (simp add: iinit_def nulldev_def kdefs uget_def bget_def bset_def y_def [symmetric] w_def [symmetric] w1_def [symmetric]
        zy [symmetric] w2_def [symmetric] f_def)
  have kc: "keeps_content s f"
  proof -
    have "keeps_content w w1" by (simp add: w1_def keeps_content_def same_devs_def)
    then have "keeps_content s w2" using v(7) w(2) st unfolding w2_def sbst_def by (blast intro: keeps_content_trans)
    then show ?thesis by (simp add: f_def keeps_content_def same_devs_def)
  qed
  have mt: "mount f = (mount s)(0 := (mount s 0)\<lparr>m_bufp := Buf k, m_dev := ?dev\<rparr>)"
    using bframe_more [of s v] v(8) bframe_more [of v w] w(3) bframe_more [of w1 w2] st
    by (simp add: f_def w1_def w2_def sbst_def)
  have d2: "bdata (Buf k) f = z" "bio_inv f" "sb_buf (Buf k) f" using st by (auto simp: f_def w2_def sbst_def sb_buf_def)
  have "mounted ?dev (Buf k) f"
    using m by (auto simp: mounted_def find_mount_def mt NMOUNT_def upt_conv_Cons)
  moreover have "dev_ok f ?dev" "mdsz f = mdsz s" using kc dev by (auto simp: keeps_content_def same_devs_simps) (simp add: same_devs_def)
  moreover have "ffree (lcont f ?dev) z L"
  proof -
    have "ffree (lcont s ?dev) z L" "sb_range ?x L" "s_fsize ?x \<le> mdsz s ?dev" using fs zg by (auto simp: disk_fs_def Let_def ffree_def)
    moreover have "lcont f ?dev b = lcont s ?dev b" if "b \<in> set L" for b
    proof -
      have "in_range s ?dev b" using that calculation s_isize_range [of ?x] by (fastforce simp: sb_range_def in_range_def)
      then show ?thesis using kc dev by (simp add: keeps_content_def dev_ok_def)
    qed
    ultimately show ?thesis using ffree_cong by blast
  qed
  ultimately have "fs_ok ?dev (Buf k) L f"
    using fs d2 zg by (auto simp: fs_ok_def disk_fs_def Let_def sb_range_def)
  moreover have "busy f j \<longleftrightarrow> Buf j = Buf k" if "j < NBUF" for j
    using that w(6) st by (auto simp: f_def w2_def w1_def sbst_def kept_bufs_def)
  moreover have "time f = (if time s = 0 then s_time (bdata (Buf k) f) else time s)"
    using v(8) w(3) st by (auto simp: f_def w2_def w1_def sbst_def bframe_def)
  ultimately show ?thesis using run kc d2 zg(3,4,6) by (intro exI [of _ "Buf k"] exI [of _ f]) simp
qed

section \<open>The allocator as a stack\<close>

text \<open>What a caller of \<open>alloc\<close> gets.\<close>

definition fresh_block :: "'a fss_scheme \<Rightarrow> int \<Rightarrow> int \<Rightarrow> bptr option \<Rightarrow> 'a fss_scheme \<Rightarrow> bool" where
  "fresh_block s dev b r t \<longleftrightarrow> (\<exists>bp. r = Some bp \<and> owns t bp dev b \<and> bdata bp t = zeros \<and>
     (\<forall>j<NBUF. busy t j \<longleftrightarrow> Buf j = bp \<or> busy s j) \<and> \<not> owns s bp dev b \<and> bframe s t \<and>
     (\<forall>d c. d \<noteq> NODEV \<longrightarrow> in_range s d c \<longrightarrow> (d, c) \<noteq> (dev, b) \<longrightarrow> lcont t d c = lcont s d c))"

lemma got_zeroed_fresh:
  assumes g: "got_zeroed s dev fp b L bp t" and nb: "b \<notin> set L" and dv: "dev \<noteq> NODEV"
  shows "fresh_block s dev b (Some bp) t" "fs_ok dev fp L t"
proof -
  obtain x s1 t0 where g: "sbst fp s x s1" "fs_ok dev fp L s1" "held s1 dev b bp t0" "bframe s1 t0" "t = bput bp zeros t0"
    using g by (auto simp: got_zeroed_def)
  have z: "length zeros = 512" by (simp add: zeros_def)
  from g(3) obtain i where i: "i < NBUF" "bp = Buf i" "\<not> busy s1 i" "\<forall>j<NBUF. busy t0 j \<longleftrightarrow> j = i \<or> busy s1 j"
     "same_block dev b (bufs t0 (Buf i))" "B_ASYNC \<notin> flags t0 i" "bio_inv t0" "keeps_content s1 t0" "keeps_busy s1 t0"
    by (auto simp: held_def)
  have bi: "busy t0 i" using i by auto
  note bp = bput_ok [OF i(7,1) bi z]
  have tt: "t = bput (Buf i) zeros t0" using g(5) i(2) by simp
  have ub: "upd_buf i t0 t" using bp(2) tt by (simp add: busy_step_def)
  have lc: "lcont t d c = lcont s1 d c" if "d \<noteq> NODEV" "in_range s1 d c" "(d, c) \<noteq> (dev, b)" for d c
  proof -
    have "lcont t d c = lcont t0 d c" using that i(5,8) bp(4) tt
      by (intro lcont_upd [OF ub]) (auto simp: same_block_def keeps_content_def same_devs_simps)
    then show ?thesis using i(8) that by (simp add: keeps_content_def)
  qed
  have sd: "same_devs s1 t" using i(8) bp(6) tt same_devs_trans by (auto simp: keeps_content_def)
  have bf: "bframe s1 t" using g(4) bp(5) tt by simp
  have fpb: "sb_buf fp t" "fp \<noteq> bp" using held_sb [OF g(3)] g(1) tt bp(4) by (auto simp: sbst_def sb_buf_def)
  have df: "bdata fp t = bdata fp s1"
  proof -
    obtain k where k: "k < NBUF" "fp = Buf k" "busy s1 k" using g(2) by (auto simp: fs_ok_def sb_buf_def)
    have "k \<noteq> i" using k i by auto
    then have "buffers t k = buffers t0 k" using ub by (simp add: upd_buf_def)
    moreover have "bio_inv s1" using g(1) by (simp add: sbst_def)
    ultimately show ?thesis using k i(9) bp(1) tt by (simp add: bdata_Buf keeps_busy_def)
  qed
  show "fs_ok dev fp L t"
  proof -
    have "lcont t dev n = lcont s1 dev n" if "n \<in> set L" for n
      using that nb dv by (intro lc sb_in_range [OF g(2)]) auto
    moreover have "ffree (lcont s1 dev) (bdata fp s1) L" using g(2) by (simp add: fs_ok_def)
    ultimately have "ffree (lcont t dev) (bdata fp t) L" unfolding df using ffree_cong by blast
    moreover have "bio_inv t" using bp(1) tt by simp
    moreover have "mdsz t = mdsz s1" using sd by (simp add: same_devs_def)
    ultimately show ?thesis using g(2) fpb(1) unfolding fs_ok_def df mounted_bframe [OF bf] same_devs_simps(2) [OF sd] by simp
  qed
  have bs: "busy s1 j = busy s j" if "j < NBUF" for j using g(1) that by (simp add: sbst_def kept_bufs_def)
  have "owns t bp dev b" using i bi bp(4) tt by (auto simp: owns_def)
  moreover have "bdata bp t = zeros" using bp(1,3) tt i by (simp add: bdata_Buf)
  moreover have "\<forall>j<NBUF. busy t j \<longleftrightarrow> Buf j = bp \<or> busy s j" using i bs bp(4) tt by auto
  moreover have "\<not> owns s bp dev b" using i bs by (auto simp: owns_def)
  moreover have "bframe s t" using bf g(1) bframe_trans by (auto simp: sbst_def)
  moreover have "lcont t d c = lcont s d c" if "d \<noteq> NODEV" "in_range s d c" "(d, c) \<noteq> (dev, b)" for d c
    using that lc [of d c] g(1) by (auto simp: sbst_def keeps_content_def same_devs_simps)
  ultimately show "fresh_block s dev b (Some bp) t" by (auto simp: fresh_block_def)
qed

text \<open>
  The contract of an allocator of numbered units over a state: the free units are a stack, the
  unit freed last is handed out first.
\<close>

locale free_store =
  fixes ok :: "int list \<Rightarrow> 's \<Rightarrow> bool"
    and valid :: "'s \<Rightarrow> int \<Rightarrow> bool"
    and wait :: "'s \<Rightarrow> int \<Rightarrow> bool"
    and got :: "'s \<Rightarrow> int \<Rightarrow> 'h option \<Rightarrow> 's \<Rightarrow> bool"
    and get :: "('h option, 's) kmon"
    and put :: "int \<Rightarrow> (unit, 's) kmon"
  assumes get_some: "ok (b # L) s \<Longrightarrow> kpost (get s) (\<lambda>r t. got s b r t) (\<lambda>_ _ _. wait s b) (\<lambda>_ _. False)"
    and get_none: "ok [] s \<Longrightarrow> \<exists>t. get s = Ok None t"
    and put_push: "ok L s \<Longrightarrow> valid s b \<Longrightarrow> b \<notin> set L \<Longrightarrow> kpost (put b s) (\<lambda>_ t. ok (b # L) t \<and> (wait t b \<longrightarrow> wait s b)) (\<lambda>_ _ _. wait s b) (\<lambda>_ _. False)"
begin

lemma put_get:
  assumes "ok L s" "valid s b" "b \<notin> set L"
  shows "kpost (kthen (put b) get s) (\<lambda>r t. \<exists>v. ok (b # L) v \<and> got v b r t) (\<lambda>_ _ _. wait s b) (\<lambda>_ _. False)"
proof (rule kpost_thenI, rule put_push [OF assms], goal_cases)
  case (1 x t)
  then show ?case by (intro kpost_weaken [OF get_some]) auto
qed auto

end

definition free_ready :: "int \<Rightarrow> bptr \<Rightarrow> int list \<Rightarrow> 'a fss_scheme \<Rightarrow> bool" where
  "free_ready dev fp L s \<longleftrightarrow> fs_ok dev fp L s \<and> s_flock (bdata fp s) = 0"

definition data_blk :: "bptr \<Rightarrow> 'a fss_scheme \<Rightarrow> int \<Rightarrow> bool" where
  "data_blk fp s b \<longleftrightarrow> s_isize (bdata fp s) \<le> b \<and> b < s_fsize (bdata fp s) \<and> b \<noteq> 0"

interpretation blocks: free_store "free_ready dev fp" "data_blk fp" "\<lambda>s b. \<not> idle_blk s dev b"
    "\<lambda>s b r t. fresh_block s dev b r t" "alloc dev" "free dev" for dev fp
proof
  fix b L and s :: "'a fss_scheme"
  assume "free_ready dev fp (b # L) s"
  then have f: "fs_ok dev fp (b # L) s" "s_flock (bdata fp s) = 0" by (auto simp: free_ready_def)
  have "b \<notin> set L" "dev \<noteq> NODEV" using f by (auto simp: fs_ok_def sb_range_def dev_ok_def)
  then show "kpost (alloc dev s) (fresh_block s dev b) (\<lambda>_ _ _. \<not> idle_blk s dev b) (\<lambda>_ _. False)"
    by (intro kpost_weaken [OF alloc_some [OF f]]) (auto intro: got_zeroed_fresh)
next
  fix s :: "'a fss_scheme"
  assume "free_ready dev fp [] s"
  then show "\<exists>t. alloc dev s = Ok None t" using alloc_none [of dev fp s] by (auto simp: free_ready_def)
next
  fix b L and s :: "'a fss_scheme"
  assume "free_ready dev fp L s" "data_blk fp s b" "b \<notin> set L"
  then show "kpost (free dev b s) (\<lambda>_ t. free_ready dev fp (b # L) t \<and> (\<not> idle_blk t dev b \<longrightarrow> \<not> idle_blk s dev b))
      (\<lambda>_ _ _. \<not> idle_blk s dev b) (\<lambda>_ _. False)"
    by (intro kpost_weaken [OF free_ok [of dev fp L s b]])
      (auto simp: free_ready_def data_blk_def pushed_def sbwr_def dest: kept_bufs_idle [of fp])
qed

section \<open>Properties\<close>

text \<open>A root device with a super block on it, for the witnesses: block 7 is free.\<close>

definition demo_sb :: "int list" where
  "demo_sb = set_s_free 1 7 (set_s_nfree 2 (put_bytes 4 (enc 4 100) (put_bytes 0 (enc 2 3) zeros)))"

definition inode0 :: inode where
  "inode0 = \<lparr>i_flag = {}, i_count = 0, i_dev = 0, i_number = 0, i_mode = 0, i_nlink = 0, i_uid = 0, i_gid = 0, i_size = 0,
     i_addr = replicate 13 0, i_lastr = 0\<rparr>"

definition fs_boot :: fss where
  "fs_boot = \<lparr>u = user0, proc = (\<lambda>_. proc0), klog = [], time = 0, lbolt = 0, runq = None, slpque = (\<lambda>_. None), curpri = 0,
     runrun = 0, runin = 0, runout = 0, mpid = 0, umem = (\<lambda>_. None), core = (\<lambda>_. 0),
     bufs = (\<lambda>_. buf0), buffers = (\<lambda>_. replicate 512 0), d_tab = [Dtab 0], nblkdev = 0,
     mdmem = (\<lambda>_ y. if 512 \<le> y \<and> y < 1024 then demo_sb ! nat (y - 512) else 0), mdsz = (\<lambda>_. 4096), nread = 0, nreada = 0, ncache = 0,
     nwrite = 0, bufcount = (\<lambda>_. 0), swapdev = 0, swplo = 0, pdir = (\<lambda>_. None), inode = (\<lambda>_. inode0),
     file_t = (\<lambda>_. \<lparr>f_flag = {}, f_count = 0, f_inode = 0, f_offset = 0\<rparr>),
     mount = (\<lambda>_. \<lparr>m_dev = 0, m_bufp = NULLB, m_inodp = None\<rparr>), rootdir = 0, rootdev = 0, pipedev = 0, rablock = 0, updlock = 0\<rparr>"

lemma demo_sb_get: "length demo_sb = 512" "s_nfree demo_sb = 2" "s_isize demo_sb = 3" "s_fsize demo_sb = 100" "s_ninode demo_sb = 0"
  "frees (sb_free_bytes demo_sb) ! 0 = 0" "frees (sb_free_bytes demo_sb) ! 1 = 7"
proof -
  let ?b = "put_bytes 4 (enc 4 100) (put_bytes 0 (enc 2 3) zeros)"
  have l: "length ?b = 512" "length zeros = 512" by (simp_all add: zeros_def)
  have "frees (sb_free_bytes ?b) ! 0 = 0"
    using l by (simp add: nth_frees sb_free_bytes_def get_get_bytes get_put)
      (simp add: zeros_def get_bytes_def i32_def cint_def numeral_eq_Suc)
  then show "frees (sb_free_bytes demo_sb) ! 0 = 0" "frees (sb_free_bytes demo_sb) ! 1 = 7"
    using l by (simp_all add: demo_sb_def set_s_free_frees)
  show "length demo_sb = 512" "s_nfree demo_sb = 2" using l by (simp_all add: demo_sb_def)
  have "s_isize ?b = 3" "s_fsize ?b = 100" "s_ninode ?b = 0"
    using l by (simp_all add: sb_gets get_put ushort_def cint_def)
      (simp_all add: zeros_def get_bytes_def i16_def numeral_eq_Suc)
  then show "s_isize demo_sb = 3" "s_fsize demo_sb = 100" "s_ninode demo_sb = 0" using l by (simp_all add: demo_sb_def)
qed

lemma fs_boot_ok: "boot_ok fs_boot"
  by (simp add: boot_ok_def fs_boot_def buf0_def)

lemma fs_boot_disk: "on_disk s 0 1 = demo_sb" if "mdmem s = mdmem fs_boot"
  using that demo_sb_get(1) by (intro nth_equalityI) (simp_all add: on_disk_def md_range_def fs_boot_def)

lemma bframe_binit: "bframe s (binit s)"
proof -
  have b: "bframe s (binit_buf i t) = bframe s t" for i t by (simp add: binit_buf_def Let_def kframe)
  have d: "bframe s (binit_dev p t) = bframe s t" for p t by (simp add: binit_dev_def Let_def kframe) (simp add: bframe_def bmod_def)
  have "bframe s (fold binit_buf is t) = bframe s t" for "is" t by (induction "is" arbitrary: t) (auto simp: b)
  moreover have "bframe s (fold binit_dev ps t) = bframe s t" for ps t by (induction ps arbitrary: t) (auto simp: d)
  ultimately show ?thesis by (simp add: binit_def Let_def kframe)
qed

lemma mdmem_binit: "mdmem (binit s) = mdmem s"
proof -
  have r: "mdmem (brelse p t) = mdmem t" for p and t :: "'a bst_scheme"
    by (simp add: brelse_def Let_def bmod_def bflag_clr_def log_wakeup_def)
  have b: "mdmem (binit_buf i t) = mdmem t" for i and t :: "'a bst_scheme" by (simp add: binit_buf_def Let_def r bmod_def)
  have d: "mdmem (binit_dev p t) = mdmem t" for p and t :: "'a bst_scheme" by (simp add: binit_dev_def Let_def bmod_def)
  have "mdmem (fold binit_buf is t) = mdmem t" for "is" and t :: "'a bst_scheme" by (induction "is" arbitrary: t) (auto simp: b)
  moreover have "mdmem (fold binit_dev ps t) = mdmem t" for ps and t :: "'a bst_scheme" by (induction ps arbitrary: t) (auto simp: d)
  ultimately show ?thesis by (simp add: binit_def Let_def bmod_def)
qed

lemma fs_boot_fs:
  defines "s \<equiv> binit fs_boot"
  shows "bio_inv s" "\<forall>i<NBUF. \<not> busy s i" "rootdev s = 0" "dev_ok s 0" "in_range s 0 SUPERB" "u_error (u s) = 0"
    "\<forall>k. m_bufp (mount s k) = NULLB" "disk_fs 0 [7] s" "in_range s 0 7" "lcont s 0 SUPERB = demo_sb"
proof -
  note b = binit_inv [OF fs_boot_ok, folded s_def]
  have f: "bframe fs_boot s" by (simp add: s_def bframe_binit)
  show "bio_inv s" "\<forall>i<NBUF. \<not> busy s i" using b by auto
  have m: "mount s = mount fs_boot" using bframe_more [OF f] by simp
  have "rootdev s = rootdev fs_boot" using f by (cases s) (auto simp: bframe_def fs_boot_def bst.defs fss.defs)
  then show "rootdev s = 0" by (simp add: fs_boot_def)
  show "dev_ok s 0" "in_range s 0 SUPERB" "in_range s 0 7" using b(3-5)
    by (simp_all add: dev_ok_def dtab_def in_range_def fs_boot_def NODEV_def major_def cuint_def SUPERB_def)
  show "u_error (u s) = 0" using f by (simp add: bframe_def fs_boot_def user0_def)
  show "\<forall>k. m_bufp (mount s k) = NULLB" by (simp add: m fs_boot_def)
  have "lcont s 0 1 = on_disk s 0 1" using b(6) by (intro lcont_uncached) (simp add: caches_def)
  then show x: "lcont s 0 SUPERB = demo_sb" using fs_boot_disk [of s] mdmem_binit [of fs_boot] by (simp add: SUPERB_def s_def)
  have "fchain (lcont s 0) 2 (frees (sb_free_bytes demo_sb)) (rev (take (nat 2 - 1) (tl (frees (sb_free_bytes demo_sb)))))"
    using demo_sb_get(6) by (intro fc_end) auto
  moreover have "take 1 (tl (frees (sb_free_bytes demo_sb))) = [7]"
    using demo_sb_get(7) length_frees [of "sb_free_bytes demo_sb"] by (intro nth_equalityI) (auto simp: nth_tl)
  ultimately have "ffree (lcont s 0) demo_sb [7]" using demo_sb_get by (simp add: ffree_def)
  then show "disk_fs 0 [7] s"
    using demo_sb_get b(4) by (simp add: disk_fs_def x NICFREE_def NICINOD_def sb_range_def fs_boot_def)
qed

text \<open>
  At boot, the root device ends up mounted with the free list that its super block and the
  chained groups hold on the disk, unlocked; no block content changes, and the only buffer
  left busy is the copy of the super block. The clock, when not yet set, is
  taken from the super block.
\<close>

theorem iinit_mounts_root:
  assumes "bio_inv s" "\<forall>i<NBUF. \<not> busy s i" "dev_ok s (rootdev s)" "in_range s (rootdev s) SUPERB"
    "u_error (u s) = 0" "\<forall>k. m_bufp (mount s k) = NULLB" "disk_fs (rootdev s) L s"
  shows "\<exists>fp t. iinit (\<lambda>_ _. nulldev) s = Ok () t \<and> fs_ok (rootdev s) fp L t \<and> s_flock (bdata fp t) = 0 \<and> keeps_content s t \<and>
    (\<forall>j<NBUF. busy t j \<longleftrightarrow> Buf j = fp) \<and> time t = (if time s = 0 then s_time (bdata fp t) else time s) \<and>
    s_isize (bdata fp t) = s_isize (lcont s (rootdev s) SUPERB) \<and> s_fsize (bdata fp t) = s_fsize (lcont s (rootdev s) SUPERB)"
  by (rule iinit_ok [OF assms])

theorem iinit_mounts_root_witness:
  "\<exists>fp t. iinit (\<lambda>_ _. nulldev) (binit fs_boot) = Ok () t \<and> fs_ok 0 fp [7] t"
  using iinit_mounts_root [of "binit fs_boot" "[7]"] fs_boot_fs by metis

text \<open>A mounted root file system in which one block is free.\<close>

lemma demo_mounted: "\<exists>fp t. iinit (\<lambda>_ _. nulldev) (binit fs_boot) = Ok () t \<and> free_ready 0 fp [7] t \<and> (\<forall>b. idle_blk t 0 b) \<and>
    data_blk fp t 9"
proof -
  obtain fp t where t: "iinit (\<lambda>_ _. nulldev) (binit fs_boot) = Ok () t" "fs_ok 0 fp [7] t" "s_flock (bdata fp t) = 0"
    "\<forall>j<NBUF. busy t j \<longleftrightarrow> Buf j = fp" "s_isize (bdata fp t) = 3" "s_fsize (bdata fp t) = 100"
    using iinit_ok [of "binit fs_boot" "[7]"] fs_boot_fs demo_sb_get by metis
  obtain k where k: "k < NBUF" "fp = Buf k" "bdev t k = NODEV" using t(2) by (auto simp: fs_ok_def sb_buf_def)
  have "idle_blk t 0 b" for b
    using t(4) k two_bufs [OF k(1)] by (auto simp: idle_blk_def same_block_def NODEV_def)
  moreover have "data_blk fp t 9"
    using t by (simp add: data_blk_def)
  ultimately show ?thesis using t by (auto simp: free_ready_def)
qed



text \<open>
  C13: \<^verbatim>\<open>free\<close> of a block of the data area puts it at the head of the free list, spilling a full array of the
  super block into the freed block; no other block changes. A block number
  outside the data area is refused with a diagnostic and the list stays as it was.
\<close>

theorem free_pushes:
  assumes "fs_ok dev fp L s" "s_flock (bdata fp s) = 0" "b \<notin> set L" "b \<noteq> 0"
  shows "case free dev b s of
      Ok _ t \<Rightarrow> fs_ok dev fp (if s_isize (bdata fp s) \<le> b \<and> b < s_fsize (bdata fp s) then b # L else L) t \<and>
        (\<forall>c. in_range s dev c \<longrightarrow> c \<noteq> b \<longrightarrow> lcont t dev c = lcont s dev c)
    | Slept c p t \<Rightarrow> \<not> idle_blk s dev b
    | Panicked m t \<Rightarrow> False
    | Spun \<Rightarrow> False"
proof (cases "s_isize (bdata fp s) \<le> b \<and> b < s_fsize (bdata fp s)")
  case True
  have d: "dev \<noteq> NODEV" using assms(1) by (simp add: fs_ok_def dev_ok_def)
  have "kpost (free dev b s) (\<lambda>_ t. pushed s dev fp b L t) (\<lambda>c p t. \<not> idle_blk s dev b) (\<lambda>_ _. False)"
    by (rule kpost_weaken [OF free_ok [OF assms(1,2)]]) (use True assms in auto)
  then show ?thesis using True d by (cases "free dev b s") (auto simp: pushed_def sbwr_def updated_def)
next
  case False
  let ?x = "set_s_fmod 1 (bdata fp s)" let ?t = "bput fp ?x s"
  have len: "length (bdata fp s) = 512" by (rule fs_ok_len [OF assms(1)])
  have x: "sbst fp s ?x ?t" using assms(1) len by (intro sbst_put1) (auto simp: fs_ok_def)
  have ok: "fs_ok dev fp L ?t"
    using assms(1) len by (intro fs_ok_sbst [OF assms(1) x]) (auto simp: fs_ok_def ffree_def sb_range_def)
  have d: "dev \<noteq> NODEV" using assms(1) by (simp add: fs_ok_def dev_ok_def)
  obtain l where p: "prdev ''bad block'' dev ?t = Ok () (?t\<lparr>klog := l\<rparr>)" using prdev_line_ex by blast
  have "free dev b s = Ok () (?t\<lparr>klog := l\<rparr>)"
    using False len sbst_data [OF x] assms(2) p
    by (auto simp: free_def getfs_run [OF assms(1)] kdefs bget_def bset_def badblock_def)
  then show ?thesis using ok x d False by (auto simp: sbst_def keeps_content_def)
qed

theorem free_pushes_witness:
  "\<exists>fp t v. iinit (\<lambda>_ _. nulldev) (binit fs_boot) = Ok () t \<and> free 0 9 t = Ok () v \<and> fs_ok 0 fp [9, 7] v"
proof -
  obtain fp t where t: "iinit (\<lambda>_ _. nulldev) (binit fs_boot) = Ok () t" "free_ready 0 fp [7] t" "idle_blk t 0 9" "data_blk fp t 9"
    using demo_mounted by blast
  with free_pushes [of 0 fp "[7]" t 9] show ?thesis
    by (cases "free 0 9 t") (auto simp: free_ready_def data_blk_def)
qed

text \<open>
  The free list is last in, first out: a block that is freed and then allocated again comes back as the
  same block, zeroed, with the list as it was before.
\<close>

theorem free_alloc_lifo:
  assumes "fs_ok dev fp L s" "s_flock (bdata fp s) = 0" "s_isize (bdata fp s) \<le> b" "b < s_fsize (bdata fp s)" "b \<noteq> 0" "b \<notin> set L"
  shows "case kthen (free dev b) (alloc dev) s of
      Ok r t \<Rightarrow> \<exists>v. fs_ok dev fp (b # L) v \<and> fresh_block v dev b r t
    | Slept c p t \<Rightarrow> \<not> idle_blk s dev b
    | Panicked m t \<Rightarrow> False
    | Spun \<Rightarrow> False"
proof -
  have "free_ready dev fp L s" "data_blk fp s b" using assms by (auto simp: free_ready_def data_blk_def)
  from blocks.put_get [OF this assms(6)] show ?thesis
    by (cases "kthen (free dev b) (alloc dev) s") (auto simp: free_ready_def)
qed

theorem free_alloc_lifo_witness:
  "\<exists>s v bp t. iinit (\<lambda>_ _. nulldev) (binit fs_boot) = Ok () s \<and> kthen (free 0 9) (alloc 0) s = Ok (Some bp) t \<and> fresh_block v 0 9 (Some bp) t"
proof -
  obtain fp t where t: "iinit (\<lambda>_ _. nulldev) (binit fs_boot) = Ok () t" "free_ready 0 fp [7] t" "data_blk fp t 9" "idle_blk t 0 9"
    using demo_mounted by blast
  with free_alloc_lifo [of 0 fp "[7]" t 9] show ?thesis
    by (cases "kthen (free 0 9) (alloc 0) t") (auto simp: free_ready_def data_blk_def fresh_block_def)
qed

end
