(* ===== verification/Inode.thy ===== *)
theory Inode
  imports Alloc_Props
begin

text \<open>
  The in-core inode table (\<^verbatim>\<open>sys/iget.c\<close>; \<open>ialloc\<close> and \<open>update\<close> of \<^verbatim>\<open>sys/alloc.c\<close>; \<open>plock\<close> and \<open>prele\<close> of
  \<^verbatim>\<open>sys/pipe.c\<close>). An inode pointer is an index into the table. The layout of the disk inode is
  given by \<open>iexp\<close> (reading) and \<open>iupd\<close> (writing) on the block that holds it.
\<close>

section \<open>Locking\<close>

definition plock :: "nat \<Rightarrow> (unit, 'a fss_scheme) kmon" where
  "plock ip = kbind (iget_f ip i_flag) (\<lambda>fl.
     if ILOCK \<in> fl then kthen (iset ip {IWANT}) (ksleep (Ch_inode ip) PINOD) else iset ip {ILOCK})"

definition prele :: "nat \<Rightarrow> (unit, 'a fss_scheme) kmon" where
  "prele ip =
     kthen (iclr ip {ILOCK})
     (kbind (iget_f ip i_flag) (\<lambda>fl. kwhen (IWANT \<in> fl) (kthen (iclr ip {IWANT}) (kwakeup (Ch_inode ip)))))"

section \<open>The disk inode\<close>

text \<open>\<open>iexpand\<close>: the fields of the \<open>k\<close>-th disk inode of the block \<open>b\<close>; addresses are 3 bytes on the disk.\<close>

definition iexp :: "nat \<Rightarrow> int list \<Rightarrow> inode \<Rightarrow> inode" where
  "iexp k b i = i\<lparr>i_mode := di_mode k b, i_nlink := di_nlink k b, i_uid := di_uid k b, i_gid := di_gid k b, i_size := di_size k b,
     i_addr := map dec (split_every 3 NADDR (di_addr k b))\<rparr>"

definition iexpand :: "nat \<Rightarrow> nat \<Rightarrow> int list \<Rightarrow> (unit, 'a fss_scheme) kmon" where
  "iexpand ip k b = imod ip (iexp k b)"

text \<open>What \<open>iupdat\<close> stores into the block.\<close>

definition iupd :: "inode \<Rightarrow> int \<Rightarrow> int \<Rightarrow> int \<Rightarrow> nat \<Rightarrow> int list \<Rightarrow> int list" where
  "iupd i ta tm now k b =
     (let o' = 64 * k;
          b = put_bytes o' (enc 2 (i_mode i)) b;
          b = put_bytes (o' + 2) (enc 2 (i_nlink i)) b;
          b = put_bytes (o' + 4) (enc 2 (i_uid i)) b;
          b = put_bytes (o' + 6) (enc 2 (i_gid i)) b;
          b = put_bytes (o' + 8) (enc 4 (i_size i)) b;
          b = put_bytes (o' + 12) (enc_arr 3 (take NADDR (i_addr i))) b;
          b = (if IACC \<in> i_flag i then put_bytes (o' + 52) (enc 4 ta) b else b);
          b = (if IUPD \<in> i_flag i then put_bytes (o' + 56) (enc 4 tm) b else b)
      in if ICHG \<in> i_flag i then put_bytes (o' + 60) (enc 4 now) b else b)"

text \<open>The diagnostic for an address whose fourth byte is not zero, one per address.\<close>

definition iaddr_warn :: "inode \<Rightarrow> (unit, 'a fss_scheme) kmon" where
  "iaddr_warn i = kfor (take NADDR (i_addr i)) (\<lambda>a.
     kwhen (a div 16777216 mod 256 \<noteq> 0 \<and> i_mode i AND IFMT \<noteq> IFMPC \<and> i_mode i AND IFMT \<noteq> IFMPB)
       (kprint (''iaddress > 2^24'' @ [CHR 0x0A]) []))"

definition iupdat :: "nat \<Rightarrow> int \<Rightarrow> int \<Rightarrow> (unit, 'a fss_scheme) kmon" where
  "iupdat ip ta tm = kbind (iget_f ip id) (\<lambda>i.
     if i_flag i \<inter> {IUPD, IACC, ICHG} = {} then kret ()
     else
       kbind (getfs (i_dev i)) (\<lambda>fp.
       kbind (bget fp s_ronly) (\<lambda>ro.
       if ro \<noteq> 0 then kret ()
       else
         kbind (bread (i_dev i) (itod (i_number i))) (\<lambda>bp.
         kbind (bflagged bp B_ERROR) (\<lambda>err.
         if err then kmod (brelse bp)
         else
           kbind (kget time) (\<lambda>now.
           kthen (iaddr_warn i)
           (kthen (bset bp (iupd i ta tm now (itoo (i_number i))))
           (kthen (iclr ip {IUPD, IACC, ICHG})
           (bdwrite bp)))))))))"

section \<open>Truncation\<close>

text \<open>
  The loop of \<open>tloop\<close> over the entries of an indirect block, from the last to the first; the block is
  read again after each call for a subtree. \<open>None\<close>: the block could not be read.
\<close>

fun tloop_scan :: "int \<Rightarrow> int \<Rightarrow> bool \<Rightarrow> (int \<Rightarrow> (unit, 'a fss_scheme) kmon) \<Rightarrow> bptr option \<Rightarrow> nat list \<Rightarrow>
    (bptr option option, 'a fss_scheme) kmon" where
  "tloop_scan dev bn f1 sub bp [] = kret (Some bp)"
| "tloop_scan dev bn f1 sub bp (i # is) =
     kbind (case bp of
         Some b \<Rightarrow> kret (Some b)
       | None \<Rightarrow> kbind (bread dev bn) (\<lambda>b. kbind (bflagged b B_ERROR) (\<lambda>err.
           if err then kthen (kmod (brelse b)) (kret None) else kret (Some b)))) (\<lambda>r.
     case r of
       None \<Rightarrow> kret None
     | Some b \<Rightarrow> kbind (bget b (\<lambda>x. b_daddr x i)) (\<lambda>nb.
         if nb = 0 then tloop_scan dev bn f1 sub (Some b) is
         else if f1 then kthen (kmod (brelse b)) (kthen (sub nb) (tloop_scan dev bn f1 sub None is))
         else kthen (free dev nb) (tloop_scan dev bn f1 sub (Some b) is)))"

function tloop :: "int \<Rightarrow> int \<Rightarrow> bool \<Rightarrow> bool \<Rightarrow> (unit, 'a fss_scheme) kmon" where
  "tloop dev bn f1 f2 =
     kbind (tloop_scan dev bn f1 (if f1 then (\<lambda>nb. tloop dev nb f2 False) else (\<lambda>_. kret ())) None (rev [0 ..< NINDIR])) (\<lambda>r.
     case r of
       None \<Rightarrow> kret ()
     | Some bp \<Rightarrow> kthen (case bp of None \<Rightarrow> kret () | Some b \<Rightarrow> kmod (brelse b)) (free dev bn))"
  by pat_completeness auto
termination by (relation "measure (\<lambda>(_, _, f1, f2). of_bool f1 + of_bool f2)") auto

declare tloop.simps [simp del]

definition itrunc :: "nat \<Rightarrow> (unit, 'a fss_scheme) kmon" where
  "itrunc ip = kbind (iget_f ip (\<lambda>i. i_mode i AND IFMT)) (\<lambda>m.
     if m \<noteq> IFREG \<and> m \<noteq> IFDIR then kret ()
     else
       kbind (iget_f ip i_dev) (\<lambda>dev.
       kthen (kfor (rev [0 ..< NADDR]) (\<lambda>i.
         kbind (iget_f ip (\<lambda>n. i_addr n ! i)) (\<lambda>bn.
         if bn = 0 then kret ()
         else
           kthen (imod ip (\<lambda>n. n\<lparr>i_addr := (i_addr n)[i := 0]\<rparr>))
           (if i = NADDR - 3 then tloop dev bn False False
            else if i = NADDR - 2 then tloop dev bn True False
            else if i = NADDR - 1 then tloop dev bn True True
            else free dev bn))))
       (kthen (imod ip (\<lambda>n. n\<lparr>i_size := 0\<rparr>)) (iset ip {ICHG, IUPD}))))"

section \<open>References\<close>

definition iput :: "nat \<Rightarrow> (unit, 'a fss_scheme) kmon" where
  "iput ip =
     kbind (iget_f ip i_count) (\<lambda>c.
     kthen (kwhen (c = 1)
       (kthen (iset ip {ILOCK})
       (kbind (iget_f ip i_nlink) (\<lambda>nl.
        kthen (kwhen (nl \<le> 0)
          (kthen (itrunc ip)
          (kthen (imod ip (\<lambda>i. i\<lparr>i_mode := 0\<rparr>))
          (kthen (iset ip {IUPD, ICHG})
          (kbind (iget_f ip id) (\<lambda>i. ifree (i_dev i) (i_number i)))))))
        (kbind (kget time) (\<lambda>now.
         kthen (iupdat ip now now)
         (kthen (prele ip)
         (imod ip (\<lambda>i. i\<lparr>i_flag := {}, i_number := 0\<rparr>)))))))))
     (kthen (imod ip (\<lambda>i. i\<lparr>i_count := cchar (i_count i - 1)\<rparr>))
     (prele ip)))"

definition find_inode :: "int \<Rightarrow> int \<Rightarrow> 'a fss_scheme \<Rightarrow> nat option" where
  "find_inode dev ino s = find (\<lambda>ip. i_number (inode s ip) = ino \<and> i_dev (inode s ip) = dev) [0 ..< NINODE]"

definition free_slot :: "'a fss_scheme \<Rightarrow> nat option" where
  "free_slot s = find (\<lambda>ip. i_count (inode s ip) = 0) [0 ..< NINODE]"

text \<open>The part of \<open>iget\<close> for an inode that is not in core.\<close>

definition iget_new :: "int \<Rightarrow> int \<Rightarrow> (nat option, 'a fss_scheme) kmon" where
  "iget_new dev ino = kbind (kget free_slot) (\<lambda>r.
     case r of
       None \<Rightarrow> kthen (kprint (''Inode table overflow'' @ [CHR 0x0A]) []) (kthen (seterr ENFILE) (kret None))
     | Some ip \<Rightarrow>
         kthen (imod ip (\<lambda>i. i\<lparr>i_dev := dev, i_number := ino, i_flag := {ILOCK}, i_count := cchar (i_count i + 1), i_lastr := 0\<rparr>))
         (kbind (bread dev (itod ino)) (\<lambda>bp.
          kbind (bflagged bp B_ERROR) (\<lambda>err.
          if err then kthen (kmod (brelse bp)) (kthen (iput ip) (kret None))
          else
            kbind (bget bp id) (\<lambda>b.
            kthen (iexpand ip (itoo ino) b)
            (kthen (kmod (brelse bp)) (kret (Some ip))))))))"

definition mount_of :: "nat \<Rightarrow> 'a fss_scheme \<Rightarrow> nat option" where
  "mount_of ip s = find (\<lambda>m. m_inodp (mount s m) = Some ip) [0 ..< NMOUNT]"

text \<open>\<^verbatim>\<open>goto loop\<close> follows one mount per turn; the fuel is the size of the mount table.\<close>

fun iget_loop :: "nat \<Rightarrow> int \<Rightarrow> int \<Rightarrow> (nat option, 'a fss_scheme) kmon" where
  "iget_loop 0 dev ino = kspin"
| "iget_loop (Suc n) dev ino = kbind (kget (find_inode dev ino)) (\<lambda>r.
     case r of
       None \<Rightarrow> iget_new dev ino
     | Some ip \<Rightarrow> kbind (iget_f ip i_flag) (\<lambda>fl.
         if ILOCK \<in> fl then kthen (iset ip {IWANT}) (ksleep (Ch_inode ip) PINOD)
         else if IMOUNT \<in> fl then
           kbind (kget (mount_of ip)) (\<lambda>mr.
           case mr of
             Some m \<Rightarrow> kbind (kget (\<lambda>s. m_dev (mount s m))) (\<lambda>d. iget_loop n d ROOTINO)
           | None \<Rightarrow> kpanic ''no imt'')
         else kthen (imod ip (\<lambda>i. i\<lparr>i_count := cchar (i_count i + 1)\<rparr>)) (kthen (iset ip {ILOCK}) (kret (Some ip)))))"

declare iget_loop.simps [simp del]

definition iget :: "int \<Rightarrow> int \<Rightarrow> (nat option, 'a fss_scheme) kmon" where
  "iget dev ino = iget_loop (NMOUNT + 1) dev ino"

section \<open>Allocating an inode\<close>

text \<open>The scan of one block of the i-list.\<close>

fun ialloc_inner :: "bptr \<Rightarrow> int \<Rightarrow> bptr \<Rightarrow> int \<Rightarrow> nat list \<Rightarrow> (int, 'a fss_scheme) kmon" where
  "ialloc_inner fp dev bp ino [] = kret ino"
| "ialloc_inner fp dev bp ino (i # is) =
     kbind (bget bp (di_mode i)) (\<lambda>m.
     kbind (kget (find_inode dev ino)) (\<lambda>r.
     if m \<noteq> 0 \<or> r \<noteq> None then ialloc_inner fp dev bp (ushort (ino + 1)) is
     else
       kthen (bset fp (\<lambda>b. set_s_inode (s_ninode b) ino (set_s_ninode (s_ninode b + 1) b)))
       (kbind (bget fp s_ninode) (\<lambda>n.
        if n \<ge> NICINOD then kret ino else ialloc_inner fp dev bp (ushort (ino + 1)) is))))"

fun ialloc_scan :: "bptr \<Rightarrow> int \<Rightarrow> int \<Rightarrow> int list \<Rightarrow> (unit, 'a fss_scheme) kmon" where
  "ialloc_scan fp dev ino [] = kret ()"
| "ialloc_scan fp dev ino (adr # adrs) =
     kbind (bread dev adr) (\<lambda>bp.
     kbind (bflagged bp B_ERROR) (\<lambda>err.
     if err then kthen (kmod (brelse bp)) (ialloc_scan fp dev (ushort (ino + int INOPB)) adrs)
     else
       kbind (ialloc_inner fp dev bp ino [0 ..< INOPB]) (\<lambda>ino.
       kthen (kmod (brelse bp))
       (kbind (bget fp s_ninode) (\<lambda>n. if n \<ge> NICINOD then kret () else ialloc_scan fp dev ino adrs)))))"

definition ialloc_refill :: "bptr \<Rightarrow> int \<Rightarrow> (unit, 'a fss_scheme) kmon" where
  "ialloc_refill fp dev =
     kthen (bset fp (\<lambda>b. set_s_ilock (s_ilock b + 1) b))
     (kbind (bget fp s_isize) (\<lambda>isz.
      kthen (ialloc_scan fp dev 1 (map int [nat (SUPERB + 1) ..< nat isz]))
      (kthen (bset fp (set_s_ilock 0))
      (kwakeup (Ch_ilock fp)))))"

text \<open>
  \<^verbatim>\<open>goto loop\<close>: a turn either uses up an entry of the super block or refills an empty array; after a
  refill the next inode taken is free. The fuel allows for a full array, the refill and another array.
\<close>

fun ialloc_loop :: "nat \<Rightarrow> bptr \<Rightarrow> int \<Rightarrow> (nat option, 'a fss_scheme) kmon" where
  "ialloc_loop 0 fp dev = kspin"
| "ialloc_loop (Suc n) fp dev =
     kbind (bget fp s_ninode) (\<lambda>ni.
     if ni > 0 then
       kthen (bset fp (set_s_ninode (ni - 1)))
       (kbind (bget fp (\<lambda>b. s_inode b (ni - 1))) (\<lambda>ino.
        if ino < ROOTINO then ialloc_loop n fp dev
        else kbind (iget dev ino) (\<lambda>r.
          case r of
            None \<Rightarrow> kret None
          | Some ip \<Rightarrow> kbind (iget_f ip i_mode) (\<lambda>m.
              if m = 0 then
                kthen (imod ip (\<lambda>i. i\<lparr>i_addr := replicate NADDR 0\<rparr>))
                (kthen (bset fp (set_s_fmod 1)) (kret (Some ip)))
              else kthen (iput ip) (ialloc_loop n fp dev)))))
     else
       kthen (ialloc_refill fp dev)
       (kbind (bget fp s_ninode) (\<lambda>ni.
        if ni > 0 then ialloc_loop n fp dev
        else kthen (prdev ''Out of inodes'' dev) (kthen (seterr ENOSPC) (kret None)))))"

declare ialloc_loop.simps [simp del]

definition ialloc :: "int \<Rightarrow> (nat option, 'a fss_scheme) kmon" where
  "ialloc dev =
     kbind (getfs dev) (\<lambda>fp.
     kbind (bget fp s_ilock) (\<lambda>l.
     if l \<noteq> 0 then ksleep (Ch_ilock fp) PINOD else ialloc_loop 202 fp dev))"

section \<open>Writing everything out\<close>

definition update_sb :: "nat \<Rightarrow> (unit, 'a fss_scheme) kmon" where
  "update_sb m = kbind (kget (\<lambda>s. mount s m)) (\<lambda>mp.
     if m_bufp mp = NULLB then kret ()
     else
       kbind (bget (m_bufp mp) (\<lambda>b. s_fmod b = 0 \<or> s_ilock b \<noteq> 0 \<or> s_flock b \<noteq> 0 \<or> s_ronly b \<noteq> 0)) (\<lambda>skip.
       if skip then kret ()
       else
         kbind (getblk (m_dev mp) SUPERB) (\<lambda>bp.
         kbind (bflagged bp B_ERROR) (\<lambda>err.
         if err then kret ()
         else
           kbind (kget time) (\<lambda>now.
           kthen (bset (m_bufp mp) (\<lambda>b. set_s_time now (set_s_fmod 0 b)))
           (kbind (bget (m_bufp mp) id) (\<lambda>b.
            kthen (bset bp (\<lambda>_. b)) (bwrite bp))))))))"

definition update_inode :: "nat \<Rightarrow> (unit, 'a fss_scheme) kmon" where
  "update_inode ip = kbind (iget_f ip id) (\<lambda>i.
     if ILOCK \<notin> i_flag i \<and> i_count i \<noteq> 0 then
       kthen (iset ip {ILOCK})
       (kthen (imod ip (\<lambda>i. i\<lparr>i_count := cchar (i_count i + 1)\<rparr>))
       (kbind (kget time) (\<lambda>now. kthen (iupdat ip now now) (iput ip))))
     else kret ())"

definition update :: "(unit, 'a fss_scheme) kmon" where
  "update = kbind (kget updlock) (\<lambda>l.
     if l \<noteq> 0 then kret ()
     else
       kthen (kmod (\<lambda>s. s\<lparr>updlock := updlock s + 1\<rparr>))
       (kthen (kfor [0 ..< NMOUNT] update_sb)
       (kthen (kfor [0 ..< NINODE] update_inode)
       (kthen (kmod (\<lambda>s. s\<lparr>updlock := 0\<rparr>))
       (bflush NODEV)))))"

end
