(* ===== verification/Inode_Spec.thy ===== *)
theory Inode_Spec
  imports Inode
begin

text \<open>
  The inode table: the disk format round trip, what \<open>iupdat\<close> leaves in the block, and that the table
  holds at most one entry per file.
\<close>

section \<open>The disk format\<close>

lemma get_bytes_same: "length b = n \<Longrightarrow> get_bytes 0 n b = b"
  by (simp add: get_bytes_def)

definition fits :: "inode \<Rightarrow> bool" where
  "fits i \<longleftrightarrow> 0 \<le> i_mode i \<and> i_mode i < 65536 \<and> - 32768 \<le> i_nlink i \<and> i_nlink i < 32768 \<and>
     - 32768 \<le> i_uid i \<and> i_uid i < 32768 \<and> - 32768 \<le> i_gid i \<and> i_gid i < 32768 \<and>
     - 2147483648 \<le> i_size i \<and> i_size i < 2147483648 \<and> length (i_addr i) = NADDR \<and>
     (\<forall>a\<in>set (i_addr i). 0 \<le> a \<and> a < 16777216)"

lemma length_iupd:
  assumes "length b = 512" "k < 8" "length (i_addr i) = NADDR"
  shows "length (iupd i ta tm now k b) = 512"
  using assms by (simp add: iupd_def Let_def NADDR_def)

text \<open>The bytes of the fields, as written one after the other.\<close>

definition ihdr :: "inode \<Rightarrow> int list" where
  "ihdr i = enc 2 (i_mode i) @ enc 2 (i_nlink i) @ enc 2 (i_uid i) @ enc 2 (i_gid i) @ enc 4 (i_size i) @
     enc_arr 3 (take NADDR (i_addr i))"

lemma put_bytes_join:
  "p + length xs + length ys \<le> length b \<Longrightarrow> put_bytes (p + length xs) ys (put_bytes p xs b) = put_bytes p (xs @ ys) b"
  by (simp add: put_bytes_def ac_simps)

definition ptime :: "nat \<Rightarrow> bool \<Rightarrow> int \<Rightarrow> int list \<Rightarrow> int list" where
  "ptime p c v b = (if c then put_bytes p (enc 4 v) b else b)"

lemma iupd_parts:
  assumes "length b = 512" "k < 8" "length (i_addr i) = NADDR"
  shows "iupd i ta tm now k b =
    ptime (64 * k + 60) (ICHG \<in> i_flag i) now (ptime (64 * k + 56) (IUPD \<in> i_flag i) tm
      (ptime (64 * k + 52) (IACC \<in> i_flag i) ta (put_bytes (64 * k) (ihdr i) b)))"
proof -
  let ?h = "put_bytes (64 * k) (ihdr i) b"
  have "put_bytes (64 * k + 12) (enc_arr 3 (take NADDR (i_addr i))) (put_bytes (64 * k + 8) (enc 4 (i_size i))
      (put_bytes (64 * k + 6) (enc 2 (i_gid i)) (put_bytes (64 * k + 4) (enc 2 (i_uid i))
      (put_bytes (64 * k + 2) (enc 2 (i_nlink i)) (put_bytes (64 * k) (enc 2 (i_mode i)) b))))) = ?h"
    using assms put_bytes_join [of "64 * k" "enc 2 (i_mode i)" "enc 2 (i_nlink i)" b]
      put_bytes_join [of "64 * k" "enc 2 (i_mode i) @ enc 2 (i_nlink i)" "enc 2 (i_uid i)" b]
      put_bytes_join [of "64 * k" "enc 2 (i_mode i) @ enc 2 (i_nlink i) @ enc 2 (i_uid i)" "enc 2 (i_gid i)" b]
      put_bytes_join [of "64 * k" "enc 2 (i_mode i) @ enc 2 (i_nlink i) @ enc 2 (i_uid i) @ enc 2 (i_gid i)" "enc 4 (i_size i)" b]
      put_bytes_join [of "64 * k" "enc 2 (i_mode i) @ enc 2 (i_nlink i) @ enc 2 (i_uid i) @ enc 2 (i_gid i) @ enc 4 (i_size i)"
        "enc_arr 3 (take NADDR (i_addr i))" b]
    by (simp del: enc.simps add: ihdr_def NADDR_def)
  then show ?thesis by (simp add: iupd_def ptime_def Let_def)
qed

lemma length_ihdr: "length (i_addr i) = NADDR \<Longrightarrow> length (ihdr i) = 51"
  by (simp add: ihdr_def NADDR_def del: enc.simps)

lemma length_ptime [simp]: "length b = 512 \<Longrightarrow> p + 4 \<le> 512 \<Longrightarrow> length (ptime p c v b) = 512"
  by (simp add: ptime_def)

lemma get_ptime:
  "length b = 512 \<Longrightarrow> p + 4 \<le> 512 \<Longrightarrow> q + n \<le> p \<or> p + 4 \<le> q \<Longrightarrow> get_bytes q n (ptime p c v b) = get_bytes q n b"
  by (auto simp: ptime_def get_put_before get_put_after)

lemma get_ihdr:
  assumes "length b = 512" "k < 8" "length (i_addr i) = NADDR" "q + n \<le> 51"
  shows "get_bytes (64 * k + q) n (put_bytes (64 * k) (ihdr i) b) = get_bytes q n (ihdr i)"
  using assms length_ihdr [OF assms(3)] by (simp add: get_bytes_def put_bytes_def)

lemma iupd_field:
  assumes "length b = 512" "k < 8" "length (i_addr i) = NADDR" "q + n \<le> 51"
  shows "get_bytes (64 * k + q) n (iupd i ta tm now k b) = get_bytes q n (ihdr i)"
  using assms length_ihdr [OF assms(3)] by (simp add: iupd_parts get_ptime get_ihdr)

lemma iupd_outside:
  assumes "length b = 512" "k < 8" "length (i_addr i) = NADDR" "q + n \<le> 64 * k \<or> 64 * k + 64 \<le> q"
  shows "get_bytes q n (iupd i ta tm now k b) = get_bytes q n b"
proof -
  have "get_bytes q n (put_bytes (64 * k) (ihdr i) b) = get_bytes q n b"
    using assms length_ihdr [OF assms(3)] by (auto intro: get_put_before get_put_after)
  then show ?thesis using assms length_ihdr [OF assms(3)] by (auto simp: iupd_parts get_ptime)
qed

lemma dec_enc3: "0 \<le> a \<Longrightarrow> a < 16777216 \<Longrightarrow> dec (enc 3 a) = a"
  by (simp add: dec_enc del: enc.simps)

lemma ihdr_get:
  assumes "length (i_addr i) = NADDR"
  shows "get_bytes 0 2 (ihdr i) = enc 2 (i_mode i)" "get_bytes 2 2 (ihdr i) = enc 2 (i_nlink i)"
    "get_bytes 4 2 (ihdr i) = enc 2 (i_uid i)" "get_bytes 6 2 (ihdr i) = enc 2 (i_gid i)" "get_bytes 8 4 (ihdr i) = enc 4 (i_size i)"
    "get_bytes 12 39 (ihdr i) = enc_arr 3 (i_addr i)"
  using assms by (simp_all add: ihdr_def get_bytes_def NADDR_def del: enc.simps)

lemma split_every_take: "n * k \<le> m \<Longrightarrow> split_every n k (take m bs) = split_every n k bs"
  by (induction k arbitrary: bs m) (auto simp: min_def drop_take)

lemma iexp_iupd:
  assumes "length b = 512" "k < 8" "fits i"
  shows "iexp k (iupd i ta tm now k b) j = j\<lparr>i_mode := i_mode i, i_nlink := i_nlink i, i_uid := i_uid i, i_gid := i_gid i,
      i_size := i_size i, i_addr := i_addr i\<rparr>"
proof -
  have la: "length (i_addr i) = NADDR" using assms(3) by (simp add: fits_def)
  let ?b = "iupd i ta tm now k b"
  note f = iupd_field [OF assms(1,2) la]
  have "map dec (split_every 3 NADDR (di_addr k ?b)) = i_addr i"
  proof -
    have "split_every 3 NADDR (di_addr k ?b) = split_every 3 NADDR (take 39 (di_addr k ?b))"
      by (simp add: split_every_take NADDR_def)
    also have "take 39 (di_addr k ?b) = get_bytes (64 * k + 12) 39 ?b" by (simp add: di_addr_def get_bytes_def)
    also have "\<dots> = enc_arr 3 (i_addr i)" using f [of 12 39] ihdr_get(6) [OF la] by simp
    also have "split_every 3 NADDR (enc_arr 3 (i_addr i)) = map (enc 3) (i_addr i)"
      using split_every_concat [of "map (enc 3) (i_addr i)" 3 "[]"] la by (simp add: enc_arr_def del: enc.simps)
    finally show ?thesis using assms(3) by (auto simp: fits_def dec_enc3 intro: map_idI simp del: enc.simps)
  qed
  moreover have "di_mode k ?b = i_mode i" "di_nlink k ?b = i_nlink i" "di_uid k ?b = i_uid i" "di_gid k ?b = i_gid i" "di_size k ?b = i_size i"
    using assms(3) f [of 0 2] f [of 2 2] f [of 4 2] f [of 6 2] f [of 8 4] ihdr_get [OF la]
    by (simp_all add: di_defs fits_def del: enc.simps)
  ultimately show ?thesis by (simp add: iexp_def)
qed

text \<open>
  C32: the disk inode is a faithful image of the in-core inode: what \<^verbatim>\<open>iupdat\<close> stores reads back through
  \<^verbatim>\<open>iexpand\<close> as the same mode, link count, owner, size and block addresses (3 bytes each on the
  disk); the times change exactly when the corresponding flag is set, and the other
  inodes of the block stay as they are.
\<close>

theorem iexpand_iupdat_roundtrip:
  assumes "length b = 512" "k < 8" "fits i"
  shows "iexp k (iupd i ta tm now k b) j = j\<lparr>i_mode := i_mode i, i_nlink := i_nlink i, i_uid := i_uid i, i_gid := i_gid i,
      i_size := i_size i, i_addr := i_addr i\<rparr> \<and>
    di_atime k (iupd i ta tm now k b) = (if IACC \<in> i_flag i then cint ta else di_atime k b) \<and>
    di_mtime k (iupd i ta tm now k b) = (if IUPD \<in> i_flag i then cint tm else di_mtime k b) \<and>
    di_ctime k (iupd i ta tm now k b) = (if ICHG \<in> i_flag i then cint now else di_ctime k b) \<and>
    (\<forall>k'<8. k' \<noteq> k \<longrightarrow> get_bytes (64 * k') 64 (iupd i ta tm now k b) = get_bytes (64 * k') 64 b)"
proof -
  have la: "length (i_addr i) = NADDR" using assms(3) by (simp add: fits_def)
  let ?b = "iupd i ta tm now k b" let ?h = "put_bytes (64 * k) (ihdr i) b"
  have l: "length ?h = 512" using assms length_ihdr [OF la] by simp
  have h: "get_bytes (64 * k + q) 4 ?h = get_bytes (64 * k + q) 4 b" if "51 \<le> q" "q \<le> 60" for q
    using assms that length_ihdr [OF la] by (intro get_put_after) auto
  have pt: "i32 (get_bytes p 4 (ptime p c v x)) = (if c then cint v else i32 (get_bytes p 4 x))" if "length x = 512" "p + 4 \<le> 512" for p c v x
    using that by (simp add: ptime_def del: enc.simps)
  have "di_atime k ?b = (if IACC \<in> i_flag i then cint ta else di_atime k b)"
    "di_mtime k ?b = (if IUPD \<in> i_flag i then cint tm else di_mtime k b)"
    "di_ctime k ?b = (if ICHG \<in> i_flag i then cint now else di_ctime k b)"
    using assms(1,2) l h [of 52] h [of 56] h [of 60]
    by (simp_all add: iupd_parts [OF assms(1,2) la] di_defs pt get_ptime)
  moreover have "get_bytes (64 * k') 64 ?b = get_bytes (64 * k') 64 b" if "k' \<noteq> k" for k'
    using that by (intro iupd_outside [OF assms(1,2) la]) (cases "k' < k", auto)
  ultimately show ?thesis using iexp_iupd [OF assms] by blast
qed

theorem iexpand_iupdat_roundtrip_witness:
  "iexp 3 (iupd (inode0\<lparr>i_mode := 33188, i_size := 700, i_addr := [9, 1234567, 0, 0, 0, 0, 0, 0, 0, 0, 0, 0, 16777215]\<rparr>) 1 2 3 3 zeros) inode0 =
     inode0\<lparr>i_mode := 33188, i_size := 700, i_addr := [9, 1234567, 0, 0, 0, 0, 0, 0, 0, 0, 0, 0, 16777215]\<rparr>"
proof -
  let ?i = "inode0\<lparr>i_mode := 33188, i_size := 700, i_addr := [9, 1234567, 0, 0, 0, 0, 0, 0, 0, 0, 0, 0, 16777215]\<rparr>"
  have "length zeros = 512" "(3 :: nat) < 8" "fits ?i" by (simp_all add: zeros_def fits_def inode0_def NADDR_def)
  from iexpand_iupdat_roundtrip [OF this] show ?thesis by (simp add: inode0_def)
qed

section \<open>\<^verbatim>\<open>iupdat\<close> on the device\<close>

lemma held_other [simp]:
  "held s d b bp (t\<lparr>klog := l\<rparr>) = held s d b bp t" "held s d b bp (t'\<lparr>inode := x\<rparr>) = held s d b bp t'"
  by (simp_all add: held_def keeps_content_def keeps_busy_def clean_def same_devs_def on_disk_def md_range_def in_range_def)

lemma bput_other [simp]:
  "bput bp bs (t\<lparr>klog := l\<rparr>) = (bput bp bs t)\<lparr>klog := l\<rparr>" "bput bp bs (t'\<lparr>inode := x\<rparr>) = (bput bp bs t')\<lparr>inode := x\<rparr>"
  by (simp_all add: bput_def store_def split: baddr.split cong: if_cong)

lemma bput_sel [simp]:
  "inode (bput bp bs t) = inode t" "mount (bput bp bs t) = mount t" "file_t (bput bp bs t) = file_t t" "u (bput bp bs t') = u t'"
  "time (bput bp bs t') = time t'" "bufs (bput bp bs t') = bufs t'"
  by (simp_all add: bput_def store_def split: baddr.split)

lemma kfor_klog:
  assumes "\<And>x s. \<exists>l. f x s = Ok () (s\<lparr>klog := l\<rparr>)"
  shows "\<exists>l. kfor xs f s = Ok () (s\<lparr>klog := l\<rparr>)"
proof (induction xs arbitrary: s)
  case Nil
  have "s\<lparr>klog := klog s\<rparr> = s" by simp
  then show ?case by (auto simp: kret_def intro: exI [of _ "klog s"])
next
  case (Cons x xs)
  obtain l where "f x s = Ok () (s\<lparr>klog := l\<rparr>)" using assms by blast
  then show ?case using Cons [of "s\<lparr>klog := l\<rparr>"] by (auto simp: kthen_def kbind_def)
qed

lemma klog_self: "\<exists>l. s = s\<lparr>klog := l\<rparr>"
  by (rule exI [of _ "klog s"]) simp

lemma iaddr_warn_run: "\<exists>l. iaddr_warn i s = Ok () (s\<lparr>klog := l\<rparr>)"
  unfolding iaddr_warn_def by (rule kfor_klog) (auto simp: kwhen_def kret_def kprint_def kprintf_def kmod_def klog_self)

lemma itoo_less: "itoo n < 8"
  by (simp add: itoo_def nat_less_iff)

lemma bframe_inode: "bframe s t \<Longrightarrow> inode t = inode s \<and> time t = time s"
  using bframe_more [of s t] by (simp add: bframe_def)

definition iupdated :: "'a fss_scheme \<Rightarrow> nat \<Rightarrow> int \<Rightarrow> int \<Rightarrow> 'a fss_scheme \<Rightarrow> bool" where
  "iupdated s ip ta tm t \<longleftrightarrow> (let i = inode s ip; b = itod (i_number i) in
     bio_inv t \<and> updated s (i_dev i) b (iupd i ta tm (time s) (itoo (i_number i)) (lcont s (i_dev i) b)) t \<and> same_busy s t \<and>
     inode t = (inode s)(ip := i\<lparr>i_flag := i_flag i - {IUPD, IACC, ICHG}\<rparr>) \<and> mount t = mount s \<and> u t = u s)"

lemma iupdat_ok:
  assumes fs: "fs_ok (i_dev i) fp L s" and i: "i = inode s ip" and rw: "s_ronly (bdata fp s) = 0"
    and r: "in_range s (i_dev i) (itod (i_number i))" and fl: "i_flag i \<inter> {IUPD, IACC, ICHG} \<noteq> {}"
    and la: "length (i_addr i) = NADDR"
  shows "kpost (iupdat ip ta tm s) (\<lambda>_ t. iupdated s ip ta tm t)
    (\<lambda>c p t. \<not> idle_blk s (i_dev i) (itod (i_number i))) (\<lambda>_ _. False)"
proof -
  let ?d = "i_dev i" let ?b = "itod (i_number i)" let ?k = "itoo (i_number i)"
  have d: "bio_inv s" "dev_ok s ?d" "?d \<noteq> NODEV" using fs by (auto simp: fs_ok_def dev_ok_def)
  have body: "kpost (kbind (bflagged bp B_ERROR) (\<lambda>err.
         if err then kmod (brelse bp)
         else
           kbind (kget time) (\<lambda>now.
           kthen (iaddr_warn i)
           (kthen (bset bp (iupd i ta tm now ?k))
           (kthen (iclr ip {IUPD, IACC, ICHG})
           (bdwrite bp))))) t) (\<lambda>_ t. iupdated s ip ta tm t) S P"
    if h: "held s ?d ?b bp t" "bdata bp t = lcont s ?d ?b" "bframe s t" for bp t S P
  proof -
    let ?c = "iupd i ta tm (time s) ?k (lcont s ?d ?b)"
    have err: "B_ERROR \<notin> b_flags (bufs t bp)" using held_no_err [OF h(1) d(3) r] .
    obtain l where w: "iaddr_warn i t = Ok () (t\<lparr>klog := l\<rparr>)" using iaddr_warn_run by blast
    have lc: "length ?c = 512" using length_iupd [OF lcont_length [OF d(1)] itoo_less la] .
    let ?i' = "(inode s)(ip := i\<lparr>i_flag := i_flag i - {IUPD, IACC, ICHG}\<rparr>)"
    let ?t = "t\<lparr>klog := l, inode := ?i'\<rparr>"
    have ht: "held s ?d ?b bp ?t" using h(1) by simp
    obtain v where v: "bdwrite bp (bput bp ?c ?t) = Ok () v" "bio_inv v" "updated s ?d ?b ?c v" "same_busy s v" "bframe ?t v"
      using held_bdwrite [OF ht lc d(3) r] by blast
    have it: "inode t = inode s" "time t = time s" using bframe_inode [OF h(3)] by auto
    have "inode v = ?i'" "mount v = mount s" "u v = u s"
      using bframe_more [OF v(5)] bframe_more [OF h(3)] v(5) h(3) by (auto simp: bframe_def)
    then have "iupdated s ip ta tm v" using v i by (simp add: iupdated_def Let_def)
    moreover have "(bput bp ?c t)\<lparr>klog := l, inode := ?i'\<rparr> = bput bp ?c ?t" by simp
    ultimately show ?thesis using err w it h(2) v(1) i
      by (simp add: iclr_def imod_def kmod_def)
  qed
  have "iupdat ip ta tm s = kbind (bread ?d ?b) (\<lambda>bp. kbind (bflagged bp B_ERROR) (\<lambda>err.
         if err then kmod (brelse bp)
         else
           kbind (kget time) (\<lambda>now.
           kthen (iaddr_warn i)
           (kthen (bset bp (iupd i ta tm now ?k))
           (kthen (iclr ip {IUPD, IACC, ICHG})
           (bdwrite bp)))))) s"
    using fl rw by (auto simp: iupdat_def krun kbind_Ok [of "getfs _", OF getfs_run [OF fs]] i [symmetric] cong: if_cong)
  moreover have "kpost (kbind (bread ?d ?b) (\<lambda>bp. kbind (bflagged bp B_ERROR) (\<lambda>err.
         if err then kmod (brelse bp)
         else
           kbind (kget time) (\<lambda>now.
           kthen (iaddr_warn i)
           (kthen (bset bp (iupd i ta tm now ?k))
           (kthen (iclr ip {IUPD, IACC, ICHG})
           (bdwrite bp)))))) s) (\<lambda>_ t. iupdated s ip ta tm t) (\<lambda>c p t. \<not> idle_blk s ?d ?b) (\<lambda>_ _. False)"
    by (rule kpost_bindI, rule bread_ok [OF d(1,2) r], rule body) (use must_wait_busy in blast)+
  ultimately show ?thesis by (simp only:)
qed

text \<open>
  C21: \<^verbatim>\<open>iupdat\<close> of a changed inode of a writable file system puts exactly its disk image into the
  block of the i-list that holds it, clears the change flags and touches no other block, no other
  inode and no held buffer; it sleeps only when that block or every buffer is
  busy. A clean inode, or a read-only file system, is left alone.
\<close>

theorem iupdat_writes:
  assumes "fs_ok (i_dev (inode s ip)) fp L s" "in_range s (i_dev (inode s ip)) (itod (i_number (inode s ip)))"
    "length (i_addr (inode s ip)) = NADDR"
  shows "case iupdat ip ta tm s of
      Ok _ t \<Rightarrow> if i_flag (inode s ip) \<inter> {IUPD, IACC, ICHG} = {} \<or> s_ronly (bdata fp s) \<noteq> 0 then t = s else iupdated s ip ta tm t
    | Slept c p t \<Rightarrow> \<not> idle_blk s (i_dev (inode s ip)) (itod (i_number (inode s ip)))
    | Panicked m t \<Rightarrow> False
    | Spun \<Rightarrow> False"
proof (cases "i_flag (inode s ip) \<inter> {IUPD, IACC, ICHG} = {} \<or> s_ronly (bdata fp s) \<noteq> 0")
  case True
  then have "iupdat ip ta tm s = Ok () s"
    by (auto simp: iupdat_def krun kbind_Ok [of "getfs _", OF getfs_run [OF assms(1)]] kret_def)
  with True show ?thesis by simp
next
  case False
  then have "kpost (iupdat ip ta tm s) (\<lambda>_ t. iupdated s ip ta tm t)
    (\<lambda>c p t. \<not> idle_blk s (i_dev (inode s ip)) (itod (i_number (inode s ip)))) (\<lambda>_ _. False)"
    using assms by (intro iupdat_ok [OF assms(1) refl]) auto
  with False show ?thesis by (cases "iupdat ip ta tm s") auto
qed

text \<open>An inode with number 8 and a change to write, in the mounted demonstration file system.\<close>

lemma demo_inode: "\<exists>fp (t :: fss). free_ready 0 fp [7] t \<and> (\<forall>b. idle_blk t 0 b) \<and> in_range t 0 2 \<and> s_ronly (bdata fp t) = 0 \<and>
    inode t = (\<lambda>_. inode0)(5 := inode0\<lparr>i_number := 8, i_flag := {IUPD}, i_count := 1\<rparr>)"
proof -
  obtain fp t where t: "iinit (\<lambda>_ _. nulldev) (binit fs_boot) = Ok () t" "free_ready 0 fp [7] t" "\<forall>b. idle_blk t 0 b"
    using demo_mounted by blast
  let ?y = "set_s_ronly 0 (bdata fp t)"
  have f: "fs_ok 0 fp [7] t" "s_flock (bdata fp t) = 0" using t by (auto simp: free_ready_def)
  have l: "length (bdata fp t) = 512" by (rule fs_ok_len [OF f(1)])
  have y: "length ?y = 512" "s_nfree ?y = s_nfree (bdata fp t)" "s_isize ?y = s_isize (bdata fp t)" "s_fsize ?y = s_fsize (bdata fp t)"
    "s_ninode ?y = s_ninode (bdata fp t)" "sb_free_bytes ?y = sb_free_bytes (bdata fp t)" "s_flock ?y = 0" "s_ronly ?y = 0"
    using l f(2) i8_byte [of 0] by (simp_all add: sb_gets sb_sets get_put cchar_def)
  have st: "sbst fp t ?y (bput fp ?y t)" using f y by (intro sbst_put1) (auto simp: fs_ok_def)
  have "fs_ok 0 fp [7] (bput fp ?y t)"
    using f y by (intro fs_ok_sbst [OF f(1) st]) (auto simp: fs_ok_def ffree_def sb_range_def)
  then have fr: "free_ready 0 fp [7] (bput fp ?y t)" using st y by (simp add: free_ready_def sbst_def)
  have "in_range t 0 2" using sb_in_range [OF f(1), of 7] by (simp add: in_range_def)
  then have r: "in_range (bput fp ?y t) 0 2" using st by (auto simp: sbst_def keeps_content_def same_devs_simps)
  let ?t = "(bput fp ?y t)\<lparr>inode := (\<lambda>_. inode0)(5 := inode0\<lparr>i_number := 8, i_flag := {IUPD}, i_count := 1\<rparr>)\<rparr>"
  have "free_ready 0 fp [7] ?t" "s_ronly (bdata fp ?t) = 0" "in_range ?t 0 2" using fr r y st by (auto simp: free_ready_def sbst_def)
  moreover have "idle_blk ?t 0 b" for b using t(3) sbst_idle [OF st, of 0 b] by (auto simp: idle_blk_def)
  moreover have "inode ?t = (\<lambda>_. inode0)(5 := inode0\<lparr>i_number := 8, i_flag := {IUPD}, i_count := 1\<rparr>)" by simp
  ultimately show ?thesis by blast
qed

theorem iupdat_writes_witness:
  "\<exists>s t :: fss. iupdat 5 1 2 s = Ok () t \<and> iupdated s 5 1 2 t \<and> i_flag (inode s 5) = {IUPD}"
proof -
  obtain fp and s :: fss where s: "free_ready 0 fp [7] s" "\<forall>b. idle_blk s 0 b" "in_range s 0 2" "s_ronly (bdata fp s) = 0"
    "inode s = (\<lambda>_. inode0)(5 := inode0\<lparr>i_number := 8, i_flag := {IUPD}, i_count := 1\<rparr>)" using demo_inode by blast
  have e: "i_dev (inode s 5) = 0" "itod (i_number (inode s 5)) = 2" "i_flag (inode s 5) = {IUPD}" "length (i_addr (inode s 5)) = NADDR"
    by (simp_all add: s(5) inode0_def itod_def cuint_def NADDR_def)
  from iupdat_writes [of s 5 fp "[7]" 1 2] s(1-4) e have "\<exists>t. iupdat 5 1 2 s = Ok () t \<and> iupdated s 5 1 2 t"
    by (cases "iupdat 5 1 2 s") (auto simp: free_ready_def)
  then show ?thesis using e(3) by blast
qed

section \<open>The table\<close>





lemma held_brelse_inode: "held s d b bp t \<Longrightarrow> bframe t (brelse bp t)"
  using held_brelse by blast








end
