(* ===== verification/Rdwri.thy ===== *)
theory Rdwri
  imports Inode_Spec
begin

text \<open>
  File contents: the block map (\<open>bmap\<close>), the byte transfers between buffers and a process (\<open>passc\<close>,
  \<open>cpass\<close>, \<open>iomove\<close>) and the read and write loops (\<open>readi\<close>, \<open>writei\<close>) of \<^verbatim>\<open>sys/subr.c\<close> and \<^verbatim>\<open>sys/rdwri.c\<close>. The
  character device switch is an argument of the routines that dispatch through it.

  User memory is \<open>umem\<close>; an address without a value faults. With \<^verbatim>\<open>u_segflg\<close> set the address is in the
  kernel: the directory entry \<^verbatim>\<open>u.u_dent\<close> lies at \<open>UDENT\<close>, everything else is \<open>core\<close>. The
  machine-language copies move words of four bytes and stop at the first fault.
\<close>

section \<open>Memory\<close>

definition UDENT :: int where "UDENT = 2 ^ 31"

definition kpeek :: "int \<Rightarrow> 'a kst_scheme \<Rightarrow> int" where
  "kpeek a s = (let k = a - UDENT in
     if 0 \<le> k \<and> k < 2 then enc 2 (d_ino (u s)) ! nat k
     else if 2 \<le> k \<and> k < 16 then d_name (u s) ! nat (k - 2)
     else core s a)"

definition kpoke :: "int \<Rightarrow> int \<Rightarrow> 'a kst_scheme \<Rightarrow> 'a kst_scheme" where
  "kpoke a c s = (let k = a - UDENT in
     if 0 \<le> k \<and> k < 2 then s\<lparr>u := (u s)\<lparr>d_ino := u16 ((enc 2 (d_ino (u s)))[nat k := c])\<rparr>\<rparr>
     else if 2 \<le> k \<and> k < 16 then s\<lparr>u := (u s)\<lparr>d_name := (d_name (u s))[nat (k - 2) := c]\<rparr>\<rparr>
     else s\<lparr>core := (core s)(a := c)\<rparr>)"

definition ustep :: "int \<Rightarrow> user \<Rightarrow> user" where
  "ustep n v = v\<lparr>u_count := cuint (u_count v - n), u_offset := cint (u_offset v + n), u_base := u_base v + n\<rparr>"

definition passc :: "int \<Rightarrow> (int, 'a kst_scheme) kmon" where
  "passc c =
     kbind (kget u) (\<lambda>v.
     if u_segflg v \<noteq> 0 then
       kthen (kmod (kpoke (u_base v) (c mod 256))) (kthen (umod (ustep 1)) (kbind (uget u_count) (\<lambda>n. kret (if n = 0 then -1 else 0))))
     else
       kbind (kget (\<lambda>s. umem s (u_base v))) (\<lambda>m.
       if m = None then kthen (seterr EFAULT) (kret (-1))
       else
         kthen (kmod (\<lambda>s. s\<lparr>umem := (umem s)(u_base v \<mapsto> c mod 256)\<rparr>))
         (kthen (umod (ustep 1)) (kbind (uget u_count) (\<lambda>n. kret (if n = 0 then -1 else 0))))))"

definition cpass :: "(int, 'a kst_scheme) kmon" where
  "cpass =
     kbind (kget u) (\<lambda>v.
     if u_count v = 0 then kret (-1)
     else if u_segflg v \<noteq> 0 then
       kbind (kget (kpeek (u_base v))) (\<lambda>c. kthen (umod (ustep 1)) (kret (c mod 256)))
     else
       kbind (kget (\<lambda>s. umem s (u_base v))) (\<lambda>m.
       case m of
         None \<Rightarrow> kthen (seterr EFAULT) (kret (-1))
       | Some c \<Rightarrow> kthen (umod (ustep 1)) (kret (c mod 256))))"

text \<open>The mapped bytes from address \<open>a\<close>, at most \<open>n\<close>.\<close>

definition umapped :: "int \<Rightarrow> nat \<Rightarrow> 'a kst_scheme \<Rightarrow> int list" where
  "umapped a n s = map the (takeWhile (\<lambda>x. x \<noteq> None) (map (\<lambda>k. umem s (a + int k)) [0 ..< n]))"

definition words :: "nat \<Rightarrow> nat" where "words n = n div 4 * 4"

definition copyin :: "int \<Rightarrow> bptr \<Rightarrow> nat \<Rightarrow> nat \<Rightarrow> (bool, 'a bst_scheme) kmon" where
  "copyin a bp on n =
     kbind (kget (umapped a n)) (\<lambda>bs.
     kthen (bset bp (put_bytes on (take (words (length bs)) bs)))
     (kret (length bs < n)))"

definition upoke :: "int \<Rightarrow> int list \<Rightarrow> 'a kst_scheme \<Rightarrow> 'a kst_scheme" where
  "upoke a bs s = s\<lparr>umem := (\<lambda>x. if a \<le> x \<and> x < a + int (length bs) then Some (bs ! nat (x - a)) else umem s x)\<rparr>"

definition copyout :: "bptr \<Rightarrow> nat \<Rightarrow> int \<Rightarrow> nat \<Rightarrow> (bool, 'a bst_scheme) kmon" where
  "copyout bp on a n =
     kbind (kget (umapped a n)) (\<lambda>bs.
     kbind (bget bp (get_bytes on (words (length bs)))) (\<lambda>xs.
     kthen (kmod (upoke a xs))
     (kret (length bs < n))))"

section \<open>\<^verbatim>\<open>iomove\<close>\<close>

fun iomove_in :: "bptr \<Rightarrow> nat \<Rightarrow> nat \<Rightarrow> (unit, 'a bst_scheme) kmon" where
  "iomove_in bp on 0 = kret ()"
| "iomove_in bp on (Suc n) = kbind cpass (\<lambda>t. if t < 0 then kret () else kthen (bset bp (put_bytes on [t])) (iomove_in bp (on + 1) n))"

fun iomove_out :: "bptr \<Rightarrow> nat \<Rightarrow> nat \<Rightarrow> (unit, 'a bst_scheme) kmon" where
  "iomove_out bp on 0 = kret ()"
| "iomove_out bp on (Suc n) = kbind (bget bp (\<lambda>b. b ! on)) (\<lambda>c. kbind (passc c) (\<lambda>r. if r < 0 then kret () else iomove_out bp (on + 1) n))"

text \<open>\<^verbatim>\<open>(int)cp & (NBPW-1)\<close>: the pool is aligned and has 514 bytes per buffer.\<close>

definition cp_low :: "baddr \<Rightarrow> nat \<Rightarrow> int" where
  "cp_low a on = (case a of Abuf i \<Rightarrow> (514 * int i + int on) mod 4 | Aphys p \<Rightarrow> (p + int on) mod 4)"

definition iomove :: "bptr \<Rightarrow> nat \<Rightarrow> int \<Rightarrow> bool \<Rightarrow> (unit, 'a bst_scheme) kmon" where
  "iomove bp on n rd =
     (if n = 0 then kret ()
      else
        kbind (kget u) (\<lambda>v.
        kbind (kget (\<lambda>s. b_addr (bufs s bp))) (\<lambda>a.
        if u_segflg v \<noteq> 1 \<and> n mod 4 = 0 \<and> cp_low a on = 0 \<and> u_base v mod 4 = 0 then
          kbind (if rd then copyout bp on (u_base v) (nat n) else copyin (u_base v) bp on (nat n)) (\<lambda>t.
          if t then seterr EFAULT else umod (ustep n))
        else if rd then iomove_out bp on (nat n)
        else iomove_in bp on (nat n))))"

definition umin :: "int \<Rightarrow> int \<Rightarrow> int" where
  "umin a b = (if cuint a < cuint b then cuint a else cuint b)"

definition umax :: "int \<Rightarrow> int \<Rightarrow> int" where
  "umax a b = (if cuint a > cuint b then cuint a else cuint b)"

section \<open>The block map\<close>

text \<open>The address in slot \<open>i\<close> of the inode, with a block allocated for it when writing.\<close>

definition bmap_slot :: "nat \<Rightarrow> int \<Rightarrow> nat \<Rightarrow> bool \<Rightarrow> (int option, 'a fss_scheme) kmon" where
  "bmap_slot ip dev i rd =
     kbind (iget_f ip (\<lambda>n. i_addr n ! i)) (\<lambda>nb.
     if nb \<noteq> 0 then kret (Some nb)
     else if rd then kret None
     else kbind (alloc dev) (\<lambda>r.
       case r of
         None \<Rightarrow> kret None
       | Some bp \<Rightarrow>
           kbind (kget (\<lambda>s. b_blkno (bufs s bp))) (\<lambda>nb.
           kthen (bdwrite bp)
           (kthen (imod ip (\<lambda>n. n\<lparr>i_addr := (i_addr n)[i := nb]\<rparr>))
           (kthen (iset ip {IUPD, ICHG}) (kret (Some nb)))))))"

text \<open>How many levels of indirection, the shift and the remaining block number.\<close>

fun bmap_level :: "nat \<Rightarrow> nat \<Rightarrow> int \<Rightarrow> int \<Rightarrow> (nat \<times> nat \<times> int) option" where
  "bmap_level 0 sh nb bn = None"
| "bmap_level (Suc j) sh nb bn =
     (let sh = sh + 7; nb = nb * 128 in if bn < nb then Some (Suc j, sh, bn) else bmap_level j sh nb (bn - nb))"

definition set_rablock :: "int \<Rightarrow> (unit, 'a fss_scheme) kmon" where
  "set_rablock r = kmod (\<lambda>s. s\<lparr>rablock := r\<rparr>)"

text \<open>
  The walk through the indirect blocks; \<open>prev\<close> is the buffer and the index of the previous level, whose
  data the read-ahead is taken from after the buffer has been released.
\<close>

fun bmap_walk :: "nat \<Rightarrow> int \<Rightarrow> bool \<Rightarrow> nat \<Rightarrow> int \<Rightarrow> int \<Rightarrow> (bptr \<times> nat) option \<Rightarrow> (int, 'a fss_scheme) kmon" where
  "bmap_walk 0 dev rd sh bn nb prev =
     (case prev of
        None \<Rightarrow> kret nb
      | Some (bp, i) \<Rightarrow> kthen (kwhen (i < NINDIR - 1) (kbind (bget bp (\<lambda>b. b_daddr b (i + 1))) set_rablock)) (kret nb))"
| "bmap_walk (Suc k) dev rd sh bn nb prev =
     kbind (bread dev nb) (\<lambda>bp.
     kbind (bflagged bp B_ERROR) (\<lambda>err.
     if err then kthen (kmod (brelse bp)) (kret 0)
     else
       (let sh = sh - 7; i = nat (bn div 2 ^ sh mod 128) in
        kbind (bget bp (\<lambda>b. b_daddr b i)) (\<lambda>nb.
        if nb \<noteq> 0 then kthen (kmod (brelse bp)) (bmap_walk k dev rd sh bn nb (Some (bp, i)))
        else if rd then kthen (kmod (brelse bp)) (kret (-1))
        else kbind (alloc dev) (\<lambda>r.
          case r of
            None \<Rightarrow> kthen (kmod (brelse bp)) (kret (-1))
          | Some nbp \<Rightarrow>
              kbind (kget (\<lambda>s. b_blkno (bufs s nbp))) (\<lambda>nb.
              kthen (bdwrite nbp)
              (kthen (bset bp (set_b_daddr i nb))
              (kthen (bdwrite bp)
              (bmap_walk k dev rd sh bn nb (Some (bp, i)))))))))))"

definition bmap :: "nat \<Rightarrow> int \<Rightarrow> bool \<Rightarrow> (int, 'a fss_scheme) kmon" where
  "bmap ip bn rd =
     (if bn < 0 then kthen (seterr EFBIG) (kret 0)
      else
        kbind (iget_f ip i_dev) (\<lambda>dev.
        kthen (set_rablock 0)
        (if bn < int NADDR - 3 then
           kbind (bmap_slot ip dev (nat bn) rd) (\<lambda>r.
           case r of
             None \<Rightarrow> kret (-1)
           | Some nb \<Rightarrow>
               kthen (kwhen (bn < int NADDR - 4) (kbind (iget_f ip (\<lambda>n. i_addr n ! (nat bn + 1))) set_rablock)) (kret nb))
         else
           case bmap_level 3 0 1 (bn - (int NADDR - 3)) of
             None \<Rightarrow> kthen (seterr EFBIG) (kret 0)
           | Some (j, sh, bn) \<Rightarrow>
               kbind (bmap_slot ip dev (NADDR - j) rd) (\<lambda>r.
               case r of
                 None \<Rightarrow> kret (-1)
               | Some nb \<Rightarrow> bmap_walk (4 - j) dev rd sh bn nb None))))"

section \<open>Reading and writing\<close>

text \<open>A row of a device switch, with the device number still an argument: the routines of the driver of a device.\<close>

record 's devsw =
  d_open :: "int \<Rightarrow> int \<Rightarrow> (unit, 's) kmon"
  d_close :: "int \<Rightarrow> fflag set \<Rightarrow> int \<Rightarrow> (unit, 's) kmon"
  d_read :: "int \<Rightarrow> (unit, 's) kmon"
  d_write :: "int \<Rightarrow> (unit, 's) kmon"

fun readi_loop :: "nat \<Rightarrow> nat \<Rightarrow> int \<Rightarrow> int \<Rightarrow> (unit, 'a fss_scheme) kmon" where
  "readi_loop 0 ip dev type = kspin"
| "readi_loop (Suc k) ip dev type =
     kbind (kget u) (\<lambda>v.
     kbind (iget_f ip id) (\<lambda>ino.
     let lbn = u_offset v div 512; on = nat (u_offset v mod 512); n = umin (BSIZE - int on) (u_count v);
         blk = (type = IFBLK \<or> type = IFMPB); diff = cint (i_size ino - u_offset v) in
     if \<not> blk \<and> diff \<le> 0 then kret ()
     else
       (let n = (if \<not> blk \<and> diff < n then diff else n) in
        kbind (if blk then kthen (set_rablock (lbn + 1)) (kret lbn) else bmap ip lbn True) (\<lambda>bn.
        kbind (uget u_error) (\<lambda>e.
        if \<not> blk \<and> e \<noteq> 0 then kret ()
        else
          (let dev = (if blk then dev else i_dev ino) in
           kbind (kget rablock) (\<lambda>ra.
           kbind (if bn < 0 then kbind geteblk (\<lambda>bp. kthen (kmod (clrbuf bp)) (kret bp))
                  else if i_lastr ino + 1 = lbn then breada dev bn ra
                  else bread dev bn) (\<lambda>bp.
           kthen (imod ip (\<lambda>i. i\<lparr>i_lastr := lbn\<rparr>))
           (kbind (kget (\<lambda>s. b_resid (bufs s bp))) (\<lambda>resid.
            let n = umin n (BSIZE - resid) in
            kthen (kwhen (n \<noteq> 0) (iomove bp on n True))
            (kthen (kmod (brelse bp))
            (kbind (kget u) (\<lambda>v.
             if u_error v = 0 \<and> u_count v \<noteq> 0 \<and> n > 0 then readi_loop k ip dev type else kret ())))))))))))))"

definition readi :: "'a fss_scheme devsw \<Rightarrow> nat \<Rightarrow> (unit, 'a fss_scheme) kmon" where
  "readi cdev ip =
     kbind (kget u) (\<lambda>v.
     if u_count v = 0 then kret ()
     else if u_offset v < 0 then seterr EINVAL
     else
       kthen (iset ip {IACC})
       (kbind (iget_f ip id) (\<lambda>ino.
        let dev = short (i_addr ino ! 0); type = i_mode ino AND IFMT in
        if type = IFCHR \<or> type = IFMPC then d_read cdev dev
        else readi_loop (Suc (nat (u_count v))) ip dev type)))"

fun writei_loop :: "nat \<Rightarrow> nat \<Rightarrow> int \<Rightarrow> int \<Rightarrow> (unit, 'a fss_scheme) kmon" where
  "writei_loop 0 ip dev type = kspin"
| "writei_loop (Suc k) ip dev type =
     kbind (kget u) (\<lambda>v.
     let lbn = u_offset v div 512; on = nat (u_offset v mod 512); n = umin (BSIZE - int on) (u_count v);
         blk = (type = IFBLK \<or> type = IFMPB) in
     kbind (if blk then kret lbn else bmap ip lbn False) (\<lambda>bn.
     if \<not> blk \<and> bn < 0 then kret ()
     else
       kbind (iget_f ip i_dev) (\<lambda>idev.
       let dev = (if blk then dev else idev) in
       kbind (if n = BSIZE then getblk dev bn else bread dev bn) (\<lambda>bp.
       kthen (iomove bp on n False)
       (kbind (uget u_error) (\<lambda>e.
        kthen (if e \<noteq> 0 then kmod (brelse bp) else bdwrite bp)
        (kbind (kget u) (\<lambda>v.
         kthen (imod ip (\<lambda>i. if u_offset v > i_size i \<and> (type = IFDIR \<or> type = IFREG) then i\<lparr>i_size := u_offset v\<rparr> else i))
         (kthen (iset ip {IUPD, ICHG})
         (if u_error v = 0 \<and> u_count v \<noteq> 0 then writei_loop k ip dev type else kret ()))))))))))"

definition writei :: "'a fss_scheme devsw \<Rightarrow> nat \<Rightarrow> (unit, 'a fss_scheme) kmon" where
  "writei cdev ip =
     kbind (kget u) (\<lambda>v.
     if u_offset v < 0 then seterr EINVAL
     else
       kbind (iget_f ip id) (\<lambda>ino.
       let dev = short (i_addr ino ! 0); type = i_mode ino AND IFMT in
       if type = IFCHR \<or> type = IFMPC then kthen (iset ip {IUPD, ICHG}) (d_write cdev dev)
       else if u_count v = 0 then kret ()
       else writei_loop (Suc (nat (u_count v))) ip dev type))"

declare readi_loop.simps [simp del] writei_loop.simps [simp del]

section \<open>New files\<close>

definition wdir :: "'a fss_scheme devsw \<Rightarrow> nat \<Rightarrow> (unit, 'a fss_scheme) kmon" where
  "wdir cdev ip =
     kbind (uget (\<lambda>v. the (u_pdir v))) (\<lambda>pd.
     kbind (iget_f pd i_nlink) (\<lambda>nl.
     kthen (if nl \<le> 0 then seterr ENOTDIR
            else
              kbind (iget_f ip i_number) (\<lambda>ino.
              kthen (umod (\<lambda>v. v\<lparr>d_ino := ino, d_name := u_dbuf v, u_count := 16, u_segflg := 1, u_base := UDENT\<rparr>))
              (writei cdev pd)))
     (iput pd)))"

definition maknode :: "'a fss_scheme devsw \<Rightarrow> int \<Rightarrow> (nat option, 'a fss_scheme) kmon" where
  "maknode cdev mode =
     kbind (uget (\<lambda>v. the (u_pdir v))) (\<lambda>pd.
     kbind (iget_f pd i_dev) (\<lambda>dev.
     kbind (ialloc dev) (\<lambda>r.
     case r of
       None \<Rightarrow> kthen (iput pd) (kret None)
     | Some ip \<Rightarrow>
         kthen (iset ip {IACC, IUPD, ICHG})
         (kbind (kget u) (\<lambda>v.
          let mode = (if mode AND IFMT = 0 then mode OR IFREG else mode) in
          kthen (imod ip (\<lambda>i. i\<lparr>i_mode := ushort (mode AND NOT (u_cmask v)), i_nlink := 1, i_uid := u_uid v, i_gid := u_gid v\<rparr>))
          (kthen (wdir cdev ip) (kret (Some ip))))))))"

end
