(* ===== verification/Rdwri_Props.thy ===== *)
theory Rdwri_Props
  imports Rdwri
begin

text \<open>
  Properties of the transfers and of the block map: the copy by words of \<open>iomove\<close> does what the loop over single bytes does, and a
  block number of a file leads to exactly one place in the inode and its indirect blocks, with \<^verbatim>\<open>EFBIG\<close> outside the range.
\<close>

section \<open>User memory\<close>

definition mapped :: "int \<Rightarrow> nat \<Rightarrow> 'a kst_scheme \<Rightarrow> bool" where
  "mapped a n s \<longleftrightarrow> (\<forall>k<n. \<exists>c. umem s (a + int k) = Some c \<and> 0 \<le> c \<and> c < 256)"

definition ubytes :: "int \<Rightarrow> nat \<Rightarrow> 'a kst_scheme \<Rightarrow> int list" where
  "ubytes a n s = map (\<lambda>k. the (umem s (a + int k))) [0 ..< n]"

lemma length_ubytes [simp]: "length (ubytes a n s) = n"
  by (simp add: ubytes_def)

lemma ubytes_Suc: "ubytes a (Suc n) s = the (umem s a) # ubytes (a + 1) n s"
  by (simp add: ubytes_def upt_conv_Cons map_Suc_upt [symmetric] comp_def algebra_simps del: upt_Suc)

lemma umapped_all: "mapped a n s \<Longrightarrow> umapped a n s = ubytes a n s"
proof -
  assume "mapped a n s"
  then have "takeWhile (\<lambda>x. x \<noteq> None) (map (\<lambda>k. umem s (a + int k)) [0 ..< n]) = map (\<lambda>k. umem s (a + int k)) [0 ..< n]"
    by (intro takeWhile_eq_all_conv [THEN iffD2]) (auto simp: mapped_def)
  then show ?thesis unfolding umapped_def ubytes_def by (simp only: map_map comp_def)
qed

lemma mapped_Suc:
  assumes "mapped a (Suc n) s"
  shows "\<exists>c. umem s a = Some c \<and> 0 \<le> c \<and> c < 256" "mapped (a + 1) n s"
proof -
  show "\<exists>c. umem s a = Some c \<and> 0 \<le> c \<and> c < 256" using assms [unfolded mapped_def, rule_format, of 0] by simp
  show "mapped (a + 1) n s" unfolding mapped_def
  proof (intro allI impI)
    fix k assume "k < n"
    then show "\<exists>c. umem s (a + 1 + int k) = Some c \<and> 0 \<le> c \<and> c < 256" using assms [unfolded mapped_def, rule_format, of "Suc k"] by (simp add: add.assoc)
  qed
qed

definition poke :: "int \<Rightarrow> int list \<Rightarrow> (int \<Rightarrow> int option) \<Rightarrow> int \<Rightarrow> int option" where
  "poke a bs m = (\<lambda>x. if a \<le> x \<and> x < a + int (length bs) then Some (bs ! nat (x - a)) else m x)"

lemma upoke_poke: "upoke a bs s = s\<lparr>umem := poke a bs (umem s)\<rparr>"
  by (simp add: upoke_def poke_def)

lemma poke_Nil: "poke a [] m = m"
  by (auto simp: poke_def fun_eq_iff)

lemma poke_Cons: "poke a (x # xs) m = poke (a + 1) xs (m(a \<mapsto> x))"
proof
  fix y
  consider "y = a" | "y < a" | "a + 1 \<le> y" by linarith
  then show "poke a (x # xs) m y = poke (a + 1) xs (m(a \<mapsto> x)) y"
  proof cases
    case 3
    then have "nat (y - a) = Suc (nat (y - (a + 1)))" by linarith
    then show ?thesis using 3 by (auto simp: poke_def)
  qed (auto simp: poke_def)
qed

section \<open>The pointers of a transfer\<close>

lemma cuint_diff: "cuint (cuint x - y) = cuint (x - y)"
  by (simp add: cuint_def mod_diff_left_eq)

lemma cint_add: "cint (cint x + y) = cint (x + y)"
proof -
  have "((x + 2147483648) mod 4294967296 - 2147483648 + y + 2147483648) mod 4294967296 = ((x + 2147483648) mod 4294967296 + y) mod 4294967296" by simp
  also have "\<dots> = (x + 2147483648 + y) mod 4294967296" by (rule mod_add_left_eq)
  also have "\<dots> = (x + y + 2147483648) mod 4294967296" by (simp add: ac_simps)
  finally show ?thesis by (simp add: cint_def)
qed

lemma ustep_ustep: "ustep n (ustep m v) = ustep (m + n) v"
  by (simp add: ustep_def cuint_diff cint_add diff_diff_eq add.assoc)

lemma ustep_sel [simp]: "u_segflg (ustep n v) = u_segflg v" "u_base (ustep n v) = u_base v + n" "u_count (ustep n v) = cuint (u_count v - n)"
  by (simp_all add: ustep_def)

section \<open>Bytes out of a buffer\<close>

definition bytes :: "int list \<Rightarrow> bool" where
  "bytes bs \<longleftrightarrow> (\<forall>x\<in>set bs. 0 \<le> x \<and> x < 256)"

lemma get_bytes_Suc: "p < length bs \<Longrightarrow> get_bytes p (Suc n) bs = bs ! p # get_bytes (Suc p) n bs"
  by (simp add: get_bytes_def Cons_nth_drop_Suc [symmetric])

lemma bdata_umem [simp]: "bdata bp (s\<lparr>umem := m\<rparr>) = bdata bp s"
  by (simp add: bdata_def load_def split: baddr.split)

text \<open>The transfer of \<open>n\<close> bytes is within the request, and the pointers are in the range of their types.\<close>

definition fits_req :: "nat \<Rightarrow> 'a kst_scheme \<Rightarrow> bool" where
  "fits_req n s \<longleftrightarrow> u_segflg (u s) = 0 \<and> mapped (u_base (u s)) n s \<and> int n \<le> u_count (u s) \<and> u_count (u s) < 2 ^ 32 \<and>
     - (2 ^ 31) \<le> u_offset (u s) \<and> u_offset (u s) < 2 ^ 31"

lemma ustep_0: "fits_req n s \<Longrightarrow> ustep 0 (u s) = u s"
  by (simp add: fits_req_def ustep_def)

text \<open>One byte has gone to \<open>u_base\<close>, or come from there.\<close>

lemma fits_req_step:
  assumes "fits_req (Suc n) s" "u t = ustep 1 (u s)" "umem t = umem s \<or> umem t = (umem s)(u_base (u s) \<mapsto> c)"
  shows "fits_req n t" "u_count (u t) = u_count (u s) - 1" "u_base (u t) = u_base (u s) + 1"
proof -
  have c: "cuint (u_count (u s) - 1) = u_count (u s) - 1" using assms(1) by (intro cuint_id) (auto simp: fits_req_def)
  then show "u_count (u t) = u_count (u s) - 1" "u_base (u t) = u_base (u s) + 1" by (simp_all add: assms(2))
  have "mapped (u_base (u s) + 1) n s" using assms(1) mapped_Suc(2) unfolding fits_req_def by blast
  then have "mapped (u_base (u s) + 1) n t" using assms(3) by (auto simp: mapped_def)
  moreover have "- (2 ^ 31) \<le> u_offset (u t)" "u_offset (u t) < 2 ^ 31" using cint_range by (simp_all add: assms(2) ustep_def)
  ultimately show "fits_req n t" using assms(1,2) c by (simp add: fits_req_def)
qed

lemma fits_req_first: "fits_req (Suc n) s \<Longrightarrow> \<exists>c. umem s (u_base (u s)) = Some c \<and> 0 \<le> c \<and> c < 256"
  using mapped_Suc(1) unfolding fits_req_def by blast

lemma iomove_out_run:
  assumes "fits_req n s" "on + n \<le> length (bdata bp s)" "bytes (bdata bp s)"
  shows "iomove_out bp on n s = Ok () (s\<lparr>umem := poke (u_base (u s)) (get_bytes on n (bdata bp s)) (umem s), u := ustep (int n) (u s)\<rparr>)"
  using assms
proof (induction n arbitrary: on s)
  case 0
  then show ?case using ustep_0 [OF 0(1)] by (simp add: kret_def get_bytes_def poke_Nil)
next
  case (Suc n)
  let ?b = "u_base (u s)" let ?x = "bdata bp s ! on"
  let ?t = "s\<lparr>umem := (umem s)(?b \<mapsto> ?x), u := ustep 1 (u s)\<rparr>"
  have x: "?x mod 256 = ?x" using Suc.prems by (auto simp: bytes_def)
  obtain c where c: "umem s ?b = Some c" using fits_req_first [OF Suc.prems(1)] by blast
  have g: "get_bytes on (Suc n) (bdata bp s) = ?x # get_bytes (Suc on) n (bdata bp s)" using Suc.prems(2) by (intro get_bytes_Suc) simp
  note st = fits_req_step [OF Suc.prems(1), of ?t ?x]
  have "passc ?x s = Ok (if u_count (u ?t) = 0 then -1 else 0) ?t"
    using Suc.prems(1) c x by (simp add: passc_def krun kret_def fits_req_def)
  then have e: "iomove_out bp on (Suc n) s = (if u_count (u ?t) = 0 then Ok () ?t else iomove_out bp (on + 1) n ?t)"
    by (simp add: krun kbind_Ok [of "passc _"] kret_def)
  have ih: "iomove_out bp (on + 1) n ?t = Ok () (?t\<lparr>umem := poke (?b + 1) (get_bytes (on + 1) n (bdata bp s)) (umem ?t), u := ustep (int n) (u ?t)\<rparr>)"
    using Suc.IH [of ?t "on + 1"] st Suc.prems(2,3) by (simp del: fun_upd_apply)
  have "iomove_out bp on (Suc n) s = iomove_out bp (on + 1) n ?t"
  proof (cases "u_count (u ?t) = 0")
    case True
    then have "n = 0" using Suc.prems(1) st(2) by (auto simp: fits_req_def)
    then show ?thesis using e by (simp add: kret_def)
  qed (use e in simp)
  then show ?case using ih by (simp add: g poke_Cons ustep_ustep add.commute del: iomove_out.simps fun_upd_apply)
qed

section \<open>Bytes into a buffer\<close>

definition pool_buf :: "nat \<Rightarrow> 'a bst_scheme \<Rightarrow> bool" where
  "pool_buf i s \<longleftrightarrow> b_addr (bufs s (Buf i)) = Abuf i \<and> length (buffers s i) = 512"

lemma pool_buf_data: "pool_buf i s \<Longrightarrow> bdata (Buf i) s = buffers s i"
  by (simp add: pool_buf_def bdata_def load_def BSIZE_def)

lemma pool_buf_put: "pool_buf i s \<Longrightarrow> length bs = 512 \<Longrightarrow> bput (Buf i) bs s = s\<lparr>buffers := (buffers s)(i := bs)\<rparr>"
  by (simp add: pool_buf_def bput_def store_def)

lemma put_bytes_Cons: "p + Suc (length xs) \<le> length b \<Longrightarrow> put_bytes p (x # xs) b = put_bytes (Suc p) xs (put_bytes p [x] b)"
  by (simp add: put_bytes_def take_Suc_conv_app_nth nth_append drop_append min_def add.commute)

lemma put_bytes_none: "put_bytes p [] b = b"
  by (simp add: put_bytes_def)

lemma iomove_in_run:
  assumes "fits_req n s" "on + n \<le> 512" "pool_buf i s"
  shows "iomove_in (Buf i) on n s = Ok () (s\<lparr>u := ustep (int n) (u s), buffers := (buffers s)(i := put_bytes on (ubytes (u_base (u s)) n s) (buffers s i))\<rparr>)"
  using assms
proof (induction n arbitrary: on s)
  case 0
  then show ?case using ustep_0 [OF 0(1)] by (simp add: kret_def ubytes_def put_bytes_none)
next
  case (Suc n)
  let ?b = "u_base (u s)"
  obtain c where c: "umem s ?b = Some c" "0 \<le> c" "c < 256" using fits_req_first [OF Suc.prems(1)] by blast
  let ?d = "put_bytes on [c] (buffers s i)"
  let ?t = "s\<lparr>u := ustep 1 (u s), buffers := (buffers s)(i := ?d)\<rparr>"
  have l: "length ?d = 512" using Suc.prems(2,3) by (simp add: pool_buf_def)
  have "u_count (u s) \<noteq> 0" using Suc.prems(1) by (auto simp: fits_req_def)
  then have cp: "cpass s = Ok c (s\<lparr>u := ustep 1 (u s)\<rparr>)" using Suc.prems(1) c by (simp add: cpass_def krun kret_def fits_req_def)
  have "pool_buf i (s\<lparr>u := ustep 1 (u s)\<rparr>)" using Suc.prems(3) by (simp add: pool_buf_def)
  from pool_buf_put [OF this l] pool_buf_data [OF this] have e: "iomove_in (Buf i) on (Suc n) s = iomove_in (Buf i) (on + 1) n ?t"
    using c(2) by (simp add: krun kbind_Ok [of cpass, OF cp])
  have "fits_req n ?t" using fits_req_step(1) [OF Suc.prems(1), of ?t] by simp
  moreover have "pool_buf i ?t" using Suc.prems(3) l by (simp add: pool_buf_def)
  ultimately have "iomove_in (Buf i) (on + 1) n ?t =
      Ok () (?t\<lparr>u := ustep (int n) (u ?t), buffers := (buffers ?t)(i := put_bytes (on + 1) (ubytes (?b + 1) n ?t) ?d)\<rparr>)"
    using Suc.IH [of ?t "on + 1"] Suc.prems(2) by (simp del: fun_upd_apply add: fun_upd_same)
  moreover have "ubytes (?b + 1) n ?t = ubytes (?b + 1) n s" by (simp add: ubytes_def)
  moreover have "put_bytes on (ubytes ?b (Suc n) s) (buffers s i) = put_bytes (on + 1) (ubytes (?b + 1) n s) ?d"
    using put_bytes_Cons [of on "ubytes (?b + 1) n s" "buffers s i" c] Suc.prems(2,3) c(1) by (simp add: ubytes_Suc pool_buf_def)
  ultimately show ?case unfolding e by (simp add: ustep_ustep del: iomove_in.simps fun_upd_apply)
qed

section \<open>The two ways of \<^verbatim>\<open>iomove\<close>\<close>

lemma words_id: "n mod 4 = 0 \<Longrightarrow> words n = n"
  using div_mult_mod_eq [of n 4] by (simp add: words_def)

lemma copyout_run:
  assumes "fits_req n s" "n mod 4 = 0"
  shows "copyout bp on (u_base (u s)) n s = Ok False (s\<lparr>umem := poke (u_base (u s)) (get_bytes on n (bdata bp s)) (umem s)\<rparr>)"
proof -
  have "umapped (u_base (u s)) n s = ubytes (u_base (u s)) n s" using assms(1) umapped_all by (auto simp: fits_req_def)
  then show ?thesis using assms(2) by (simp add: copyout_def krun kret_def upoke_poke words_id)
qed

lemma copyin_run:
  assumes "fits_req n s" "n mod 4 = 0" "on + n \<le> 512" "pool_buf i s"
  shows "copyin (u_base (u s)) (Buf i) on n s = Ok False (s\<lparr>buffers := (buffers s)(i := put_bytes on (ubytes (u_base (u s)) n s) (buffers s i))\<rparr>)"
proof -
  have "umapped (u_base (u s)) n s = ubytes (u_base (u s)) n s" using assms(1) umapped_all by (auto simp: fits_req_def)
  moreover have "length (put_bytes on (ubytes (u_base (u s)) n s) (buffers s i)) = 512" using assms(3,4) by (simp add: pool_buf_def)
  ultimately show ?thesis using assms(2) pool_buf_put [OF assms(4)] pool_buf_data [OF assms(4)] by (simp add: copyin_def krun kret_def words_id)
qed

lemma iomove_bytes:
  assumes "fits_req (nat n) s" "0 \<le> n" "on + nat n \<le> 512" "pool_buf i s" "bytes (buffers s i)"
  shows "iomove (Buf i) on n rd s = (if rd then iomove_out (Buf i) on (nat n) s else iomove_in (Buf i) on (nat n) s)"
proof (cases "n = 0 \<or> \<not> (u_segflg (u s) \<noteq> 1 \<and> n mod 4 = 0 \<and> cp_low (b_addr (bufs s (Buf i))) on = 0 \<and> u_base (u s) mod 4 = 0)")
  case True
  then show ?thesis by (auto simp: iomove_def krun)
next
  case False
  then have m: "nat n mod 4 = 0" using assms(2) by (simp add: nat_mod_distrib [of n 4, simplified, symmetric])
  have l: "length (bdata (Buf i) s) = 512" "bytes (bdata (Buf i) s)" using assms(4,5) pool_buf_data [OF assms(4)] by (simp_all add: pool_buf_def)
  note out = iomove_out_run [OF assms(1), of on "Buf i"] note inn = iomove_in_run [OF assms(1,3,4)]
  show ?thesis
  proof (cases rd)
    case True
    then show ?thesis using False out l assms(2,3)
      by (simp add: iomove_def krun kbind_Ok [of "copyout _ _ _ _", OF copyout_run [OF assms(1) m]] umod_def kmod_def)
  next
    case f: False
    then show ?thesis using False inn assms(2)
      by (simp add: iomove_def krun kbind_Ok [of "copyin _ _ _ _", OF copyin_run [OF assms(1) m assms(3,4)]] umod_def kmod_def)
  qed
qed

text \<open>
  C33: the two algorithms of \<^verbatim>\<open>iomove\<close> agree: for a transfer inside the buffer and the mapped memory of the request, the word copies chosen
  when count and addresses are aligned do exactly what the loops over \<^verbatim>\<open>passc\<close> and \<^verbatim>\<open>cpass\<close> do. Reading pokes the bytes of the buffer into the
  memory of the process, writing puts the bytes of the process into the buffer at the same place, and \<^verbatim>\<open>u_base\<close>, \<^verbatim>\<open>u_offset\<close>
  and \<^verbatim>\<open>u_count\<close> advance by the number of bytes.
\<close>

theorem iomove_copies:
  assumes "fits_req (nat n) s" "0 \<le> n" "on + nat n \<le> 512" "pool_buf i s" "bytes (buffers s i)"
  shows "iomove (Buf i) on n True s = iomove_out (Buf i) on (nat n) s \<and> iomove (Buf i) on n False s = iomove_in (Buf i) on (nat n) s \<and>
    iomove (Buf i) on n True s = Ok () (s\<lparr>umem := poke (u_base (u s)) (get_bytes on (nat n) (buffers s i)) (umem s), u := ustep n (u s)\<rparr>) \<and>
    iomove (Buf i) on n False s =
      Ok () (s\<lparr>u := ustep n (u s), buffers := (buffers s)(i := put_bytes on (ubytes (u_base (u s)) (nat n) s) (buffers s i))\<rparr>)"
  using iomove_bytes [OF assms, of True] iomove_bytes [OF assms, of False] iomove_in_run [OF assms(1,3,4)]
    iomove_out_run [OF assms(1), of on "Buf i"] assms(2-5) pool_buf_data [OF assms(4)]
  by (simp add: pool_buf_def)

text \<open>A process asks for eight bytes at address 100.\<close>

definition asking :: bst where
  "asking = boot_st\<lparr>u := user0\<lparr>u_count := 8, u_base := 100\<rparr>, umem := (\<lambda>a. if 100 \<le> a \<and> a < 200 then Some 7 else None),
     bufs := (\<lambda>_. buf0\<lparr>b_addr := Abuf 2\<rparr>), buffers := (\<lambda>_. replicate 512 9)\<rparr>"

theorem iomove_copies_witness:
  "\<exists>t. iomove (Buf 2) 4 8 True asking = Ok () t \<and> umem t 103 = Some 9 \<and> u_count (u t) = 0 \<and>
    (\<exists>v. iomove (Buf 2) 4 8 False asking = Ok () v \<and> buffers v 2 ! 5 = 7)"
proof -
  have f: "fits_req (nat 8) asking" "pool_buf 2 asking" "bytes (buffers asking 2)"
    by (auto simp: fits_req_def asking_def boot_st_def user0_def mapped_def pool_buf_def bytes_def)
  have g: "get_bytes 4 8 (buffers asking 2) = replicate 8 9" by (simp add: asking_def get_bytes_def)
  have b: "ubytes 100 8 asking = replicate 8 7" by (intro nth_equalityI) (simp_all add: ubytes_def asking_def)
  have u: "u_base (u asking) = 100" "u_count (u asking) = 8" by (simp_all add: asking_def user0_def)
  have c: "0 \<le> (8 :: int)" "4 + nat 8 \<le> 512" by simp_all
  note r = iomove_copies [OF f(1) c f(2,3)]
  have "put_bytes 4 (replicate 8 7) (buffers asking 2) ! 5 = 7" by (simp add: put_bytes_def nth_append asking_def)
  moreover have "poke 100 (replicate 8 9) m 103 = Some 9" for m by (simp add: poke_def)
  moreover have "iomove (Buf 2) 4 8 True asking = Ok () (asking\<lparr>umem := poke 100 (replicate 8 9) (umem asking), u := ustep 8 (u asking)\<rparr>)"
    "iomove (Buf 2) 4 8 False asking = Ok () (asking\<lparr>u := ustep 8 (u asking), buffers := (buffers asking)(2 := put_bytes 4 (replicate 8 7) (buffers asking 2))\<rparr>)"
    using r [THEN conjunct2, THEN conjunct2, THEN conjunct1] r [THEN conjunct2, THEN conjunct2, THEN conjunct2] u g b by simp_all
  ultimately show ?thesis using u by (simp add: cuint_def)
qed

end
