(* ===== verification/Bmap_Spec.thy ===== *)
theory Bmap_Spec
  imports Rdwri_Props
begin

text \<open>
  The block map of a file: where the inode and its indirect blocks put each block of a file, and the proof that \<open>bmap\<close>
  finds it. The residual counts of the buffers, which the transfers depend on, are zero throughout.
\<close>

section \<open>No residual counts\<close>

text \<open>
  \<^verbatim>\<open>readi\<close> transfers \<^verbatim>\<open>BSIZE - b_resid\<close> bytes at most. The driver and \<^verbatim>\<open>clrbuf\<close> leave the residual count of a buffer of the pool at zero
  and nothing else sets it.
\<close>

definition no_resid :: "'a bst_scheme \<Rightarrow> bool" where
  "no_resid s \<longleftrightarrow> (\<forall>i. b_resid (bufs s (Buf i)) = 0)"

fun onret :: "('a, 's) kres \<Rightarrow> ('s \<Rightarrow> bool) \<Rightarrow> bool" where
  "onret (Ok x t) I = I t"
| "onret r I = True"

lemma onret_bind: "onret (m s) I \<Longrightarrow> (\<And>x t. I t \<Longrightarrow> onret (f x t) J) \<Longrightarrow> onret (kbind m f s) J"
  by (cases "m s") (auto simp: kbind_def)

lemma onret_then: "onret (m s) I \<Longrightarrow> (\<And>t. I t \<Longrightarrow> onret (n t) J) \<Longrightarrow> onret (kthen m n s) J"
  unfolding kthen_def by (rule onret_bind)

lemma no_resid_bmod: "no_resid s \<Longrightarrow> (\<And>b. b_resid b = 0 \<Longrightarrow> b_resid (f b) = 0) \<Longrightarrow> no_resid (bmod p f s)"
  by (auto simp: no_resid_def bmod_def)

lemma no_resid_flags [simp]: "no_resid (bflag_set p fs s) = no_resid s" "no_resid (bflag_clr p fs s) = no_resid s"
  by (auto simp: no_resid_def)

lemma no_resid_other [simp]:
  "no_resid (s\<lparr>buffers := v\<rparr>) = no_resid s" "no_resid (s\<lparr>mdmem := m\<rparr>) = no_resid s" "no_resid (s\<lparr>bufcount := c\<rparr>) = no_resid s"
  "no_resid (s\<lparr>ncache := n\<rparr>) = no_resid s" "no_resid (s\<lparr>nread := n\<rparr>) = no_resid s" "no_resid (s\<lparr>nreada := n\<rparr>) = no_resid s"
  "no_resid (s\<lparr>nwrite := n\<rparr>) = no_resid s" "no_resid (s\<lparr>u := v'\<rparr>) = no_resid s" "no_resid (s\<lparr>umem := w\<rparr>) = no_resid s"
  "no_resid (s\<lparr>core := w'\<rparr>) = no_resid s" "no_resid (log_wakeup c' s) = no_resid s" "no_resid (md_write d x bs s) = no_resid s"
  by (simp_all add: no_resid_def log_wakeup_def)

lemma no_resid_fs [simp]: "no_resid (t\<lparr>inode := x\<rparr>) = no_resid t" "no_resid (t\<lparr>rablock := r\<rparr>) = no_resid t"
  by (simp_all add: no_resid_def)

lemma no_resid_store [simp]: "no_resid (store a bs s) = no_resid s"
  by (simp add: store_def split: baddr.split)

lemma no_resid_lists: "no_resid s \<Longrightarrow> no_resid (notavail p s)" "no_resid s \<Longrightarrow> no_resid (brelse p s)" "no_resid s \<Longrightarrow> no_resid (relink p q s)"
  by (auto simp: notavail_def brelse_def relink_def Let_def intro!: no_resid_bmod)

lemma no_resid_iodone: "no_resid s \<Longrightarrow> no_resid (iodone p s)"
  by (auto simp: iodone_def Let_def intro!: no_resid_lists)

lemma no_resid_md: "no_resid s \<Longrightarrow> no_resid (mdstrategy p s)"
  by (auto simp: mdstrategy_def Let_def intro!: no_resid_iodone no_resid_bmod)

lemma no_resid_start: "no_resid s \<Longrightarrow> no_resid (start_read fs p s)"
  unfolding start_read_def by (intro no_resid_md no_resid_bmod) auto

lemma no_resid_geterror [simp]: "no_resid (geterror p s) = no_resid s"
  by (simp add: geterror_def)

lemma no_resid_iowait: "no_resid s \<Longrightarrow> onret (iowait p s) no_resid"
  by (simp add: iowait_def ksleep_def)

lemma no_resid_bwrite:
  assumes "no_resid s"
  shows "onret (bwrite p s) no_resid"
proof -
  let ?t = "mdstrategy p ((bmod p (\<lambda>b. b\<lparr>b_bcount := BSIZE\<rparr>) (bflag_clr p {B_READ, B_DONE, B_ERROR, B_DELWRI, B_AGE} s))
    \<lparr>nwrite := nwrite (bmod p (\<lambda>b. b\<lparr>b_bcount := BSIZE\<rparr>) (bflag_clr p {B_READ, B_DONE, B_ERROR, B_DELWRI, B_AGE} s)) + 1\<rparr>)"
  have "no_resid ?t" using assms by (intro no_resid_md) (simp, intro no_resid_bmod, auto)
  then show ?thesis unfolding bwrite_def Let_def
    by (auto intro!: onret_then [where I = no_resid] no_resid_iowait simp: kmod_def no_resid_lists)
qed

lemma no_resid_getblk_loop: "no_resid s \<Longrightarrow> onret (getblk_loop n d b s) no_resid"
proof (induction n arbitrary: s)
  case (Suc n)
  have w: "onret (kthen (bwrite p) (getblk_loop n d b) (bflag_set p {B_ASYNC} (notavail p s))) no_resid" for p
    using Suc no_resid_lists(1) [OF Suc.prems] by (intro onret_then [where I = no_resid] no_resid_bwrite) auto
  have k: "no_resid (bmod p (\<lambda>b. b\<lparr>b_dev := d, b_blkno := b'\<rparr>) (relink p q (bmod p (\<lambda>b. b\<lparr>b_flags := {B_BUSY}\<rparr>) (notavail p s))))" for p q b'
    using Suc.prems by (intro no_resid_bmod no_resid_lists) auto
  show ?case using Suc.prems w k
    by (auto simp: Let_def ksleep_def kpanic_def count_hit_def no_resid_lists split: option.split)
qed simp

lemma no_resid_geteblk_loop: "no_resid s \<Longrightarrow> onret (geteblk_loop n s) no_resid"
proof (induction n arbitrary: s)
  case (Suc n)
  have w: "onret (kthen (bwrite p) (geteblk_loop n) (bflag_set p {B_ASYNC} (notavail p s))) no_resid" for p
    using Suc no_resid_lists(1) [OF Suc.prems] by (intro onret_then [where I = no_resid] no_resid_bwrite) auto
  have k: "no_resid (bmod p (\<lambda>b. b\<lparr>b_dev := NODEV\<rparr>) (relink p q (bmod p (\<lambda>b. b\<lparr>b_flags := {B_BUSY}\<rparr>) (notavail p s))))" for p q
    using Suc.prems by (intro no_resid_bmod no_resid_lists) auto
  show ?case using Suc.prems w k by (auto simp: Let_def ksleep_def)
qed simp

lemma no_resid_getblk: "no_resid s \<Longrightarrow> onret (getblk d b s) no_resid"
  using no_resid_getblk_loop by (auto simp: getblk_def kpanic_def simp del: getblk_loop.simps)

lemma no_resid_geteblk: "no_resid s \<Longrightarrow> onret (geteblk s) no_resid"
  unfolding geteblk_def by (rule no_resid_geteblk_loop)

lemma no_resid_bread: "no_resid s \<Longrightarrow> onret (bread d b s) no_resid"
  unfolding bread_def
  by (rule onret_bind [OF no_resid_getblk])
    (auto simp: Let_def kret_def intro!: onret_then [where I = no_resid] no_resid_iowait no_resid_start)

lemma no_resid_incore: "no_resid s \<Longrightarrow> onret (incore d b s) no_resid"
  by (simp add: incore_def Let_def split: option.split)

lemma no_resid_breada:
  assumes "no_resid s"
  shows "onret (breada d b ra s) no_resid"
proof -
  have 1: "onret ((if hit then kret None else kbind (getblk d b) (\<lambda>bp s. Ok (Some bp) (if B_DONE \<in> b_flags (bufs s bp) then s
      else (let s = start_read {B_READ} bp s in s\<lparr>nread := nread s + 1\<rparr>)))) t) no_resid" if "no_resid t" for hit t
    using that by (auto simp: kret_def Let_def intro!: onret_bind [where I = no_resid] no_resid_getblk no_resid_start)
  have 2: "onret ((if ra = 0 then kret () else kbind (incore d ra) (\<lambda>rahit. if rahit then kret () else kbind (getblk d ra) (\<lambda>rabp s.
      Ok () (if B_DONE \<in> b_flags (bufs s rabp) then brelse rabp s
        else (let s = start_read {B_READ, B_ASYNC} rabp s in s\<lparr>nreada := nreada s + 1\<rparr>))))) t) no_resid" if "no_resid t" for t
    using that by (auto simp: kret_def Let_def intro!: onret_bind [where I = no_resid] no_resid_getblk no_resid_start no_resid_incore no_resid_lists)
  have 3: "onret ((case obp of None \<Rightarrow> bread d b | Some bp \<Rightarrow> kthen (iowait bp) (kret bp)) t) no_resid" if "no_resid t" for obp t
    using that by (auto simp: kret_def split: option.split intro!: no_resid_bread onret_then [where I = no_resid] no_resid_iowait)
  show ?thesis unfolding breada_def
    by (rule onret_bind [where I = no_resid], rule no_resid_incore [OF assms], rule onret_bind [where I = no_resid], erule 1,
      rule onret_then [where I = no_resid], erule 2, erule 3)
qed

lemma no_resid_clrbuf: "no_resid s \<Longrightarrow> no_resid (clrbuf p s)"
  unfolding clrbuf_def by (intro no_resid_bmod) auto

section \<open>The content of a file\<close>

text \<open>
  The reference definition: block \<open>j\<close> below an indirect block of \<open>k\<close> levels is found by the digits of \<open>j\<close> to the base 128, and the
  file is laid out as ten direct blocks and three trees. Address 0 is a hole.
\<close>

fun sub :: "nat \<Rightarrow> (int \<Rightarrow> int list) \<Rightarrow> int \<Rightarrow> int \<Rightarrow> int" where
  "sub 0 c p j = p"
| "sub (Suc k) c p j = (if p = 0 then 0 else sub k c (b_daddr (c p) (nat (j div 128 ^ k))) (j mod 128 ^ k))"

definition MAXBN :: int where "MAXBN = 10 + 128 + 128 ^ 2 + 128 ^ 3"

definition block_of :: "inode \<Rightarrow> (int \<Rightarrow> int list) \<Rightarrow> int \<Rightarrow> int" where
  "block_of i c bn =
     (if bn < 10 then i_addr i ! nat bn
      else if bn < 10 + 128 then sub 1 c (i_addr i ! 10) (bn - 10)
      else if bn < 10 + 128 + 128 ^ 2 then sub 2 c (i_addr i ! 11) (bn - (10 + 128))
      else sub 3 c (i_addr i ! 12) (bn - (10 + 128 + 128 ^ 2)))"

text \<open>Every address reachable from the inode is a hole or a block of the device.\<close>

fun tree_ok :: "nat \<Rightarrow> 'a bst_scheme \<Rightarrow> int \<Rightarrow> int \<Rightarrow> bool" where
  "tree_ok 0 s d p \<longleftrightarrow> p = 0 \<or> in_range s d p"
| "tree_ok (Suc k) s d p \<longleftrightarrow> p = 0 \<or> in_range s d p \<and> (\<forall>i<128. tree_ok k s d (b_daddr (lcont s d p) i))"

definition file_ok :: "inode \<Rightarrow> 'a bst_scheme \<Rightarrow> bool" where
  "file_ok i s \<longleftrightarrow> bio_inv s \<and> dev_ok s (i_dev i) \<and> length (i_addr i) = NADDR \<and>
     (\<forall>k<10. tree_ok 0 s (i_dev i) (i_addr i ! k)) \<and> (\<forall>k<3. tree_ok (Suc k) s (i_dev i) (i_addr i ! (10 + k)))"

text \<open>What reading may change: buffers nobody holds, without effect on the content, and nothing a file system routine looks at.\<close>

definition cache_step :: "'a bst_scheme \<Rightarrow> 'a bst_scheme \<Rightarrow> bool" where
  "cache_step s t \<longleftrightarrow> bio_inv t \<and> keeps_content s t \<and> same_busy s t \<and> (no_resid s \<longrightarrow> no_resid t)"

definition rd_step :: "'a fss_scheme \<Rightarrow> 'a fss_scheme \<Rightarrow> bool" where
  "rd_step s t \<longleftrightarrow> cache_step s t \<and> u t = u s \<and> umem t = umem s \<and> core t = core s \<and> proc t = proc s \<and> time t = time s \<and>
     inode t = inode s \<and> mount t = mount s \<and> file_t t = file_t s"

lemma same_busy_trans: "same_busy s t \<Longrightarrow> same_busy t v \<Longrightarrow> same_busy s v"
  by (auto simp: same_busy_def intro: keeps_busy_trans)

lemma cache_step_refl: "bio_inv s \<Longrightarrow> cache_step s s"
  by (simp add: cache_step_def same_busy_def)

lemma cache_step_trans: "cache_step s t \<Longrightarrow> cache_step t v \<Longrightarrow> cache_step s v"
  unfolding cache_step_def using keeps_content_trans [of s t v] same_busy_trans [of s t v] by simp

lemma cache_step_same:
  assumes "bufs t = bufs s" "buffers t = buffers s" "d_tab t = d_tab s" "nblkdev t = nblkdev s" "mdsz t = mdsz s" "mdmem t = mdmem s"
  shows "cache_step r t = cache_step r s" "cache_step t r = cache_step s r"
proof -
  have e: "bio_inv t = bio_inv s" "lcont t = lcont s" "no_resid t = no_resid s" using bio_same [OF assms] lcont_same_st assms by (auto simp: no_resid_def)
  have "on_disk t = on_disk s" "in_range t = in_range s" using assms by (simp_all add: fun_eq_iff on_disk_def md_range_def in_range_def)
  then show "cache_step r t = cache_step r s" "cache_step t r = cache_step s r"
    using assms e by (simp_all add: cache_step_def keeps_content_def same_busy_def keeps_busy_def same_devs_def)
qed

lemma cache_step_other:
  "cache_step s (t\<lparr>u := x\<rparr>) = cache_step s t" "cache_step s (t\<lparr>umem := m\<rparr>) = cache_step s t" "cache_step s' (t'\<lparr>inode := y\<rparr>) = cache_step s' t'"
  "cache_step s' (t'\<lparr>rablock := r\<rparr>) = cache_step s' t'" "cache_step (s'\<lparr>rablock := r\<rparr>) t' = cache_step s' t'"
  by (rule cache_step_same; simp)+

lemma rd_cache_step: "rd_step s t \<Longrightarrow> cache_step s t"
  by (simp add: rd_step_def)

lemma rd_step_refl: "bio_inv s \<Longrightarrow> rd_step s s"
  by (simp add: rd_step_def cache_step_refl)

lemma rd_step_trans: "rd_step s t \<Longrightarrow> rd_step t v \<Longrightarrow> rd_step s v"
  unfolding rd_step_def using cache_step_trans [of s t v] by simp

lemma rd_step_harmless: "bio_inv t \<and> keeps_content s t \<and> same_busy s t \<and> bframe s t \<Longrightarrow> (no_resid s \<longrightarrow> no_resid t) \<Longrightarrow> rd_step s t"
  using bframe_more [of s t] by (simp add: rd_step_def cache_step_def bframe_def)

lemma rd_step_ra [simp]: "rd_step s (t\<lparr>rablock := r\<rparr>) = rd_step s t" "rd_step (s\<lparr>rablock := r\<rparr>) t = rd_step s t"
  by (simp_all add: rd_step_def cache_step_other)

lemma cache_step_calm: "cache_step s t \<Longrightarrow> calm s d \<Longrightarrow> calm t d"
  using calm_same_busy [of s t d] by (simp add: cache_step_def)

lemma cache_step_lcont: "cache_step s t \<Longrightarrow> d \<noteq> NODEV \<Longrightarrow> in_range s d b \<Longrightarrow> lcont t d b = lcont s d b"
  by (simp add: cache_step_def keeps_content_def)

lemma cache_step_devs: "cache_step s t \<Longrightarrow> in_range t = in_range s \<and> dev_ok t = dev_ok s \<and> bio_inv t"
  by (auto simp: cache_step_def keeps_content_def same_devs_simps fun_eq_iff)

lemma tree_ok_step: "cache_step s t \<Longrightarrow> d \<noteq> NODEV \<Longrightarrow> tree_ok k t d p = tree_ok k s d p"
proof (induction k arbitrary: p)
  case (Suc k)
  then show ?case using cache_step_lcont [OF Suc.prems, of p] cache_step_devs [OF Suc.prems(1)] by auto
next
  case 0
  then show ?case using cache_step_devs [OF 0(1)] by simp
qed

lemma file_ok_step: "cache_step s t \<Longrightarrow> file_ok i s \<Longrightarrow> file_ok i t"
  using tree_ok_step [of s t "i_dev i"] cache_step_devs [of s t] by (auto simp: file_ok_def dev_ok_def)

lemma div_less_int: "0 < q \<Longrightarrow> j < n * q \<Longrightarrow> j div q < (n :: int)"
proof (rule ccontr)
  assume "0 < q" "j < n * q" "\<not> j div q < n"
  then have "n * q \<le> j div q * q" by (intro mult_right_mono) auto
  moreover have "j div q * q \<le> j" using div_mult_mod_eq [of j q] pos_mod_sign [OF \<open>0 < q\<close>, of j] by linarith
  ultimately show False using \<open>j < n * q\<close> by linarith
qed

lemma sub_step:
  "cache_step s t \<Longrightarrow> d \<noteq> NODEV \<Longrightarrow> tree_ok k s d p \<Longrightarrow> 0 \<le> j \<Longrightarrow> j < 128 ^ k \<Longrightarrow> sub k (lcont t d) p j = sub k (lcont s d) p j"
proof (induction k arbitrary: p j)
  case (Suc k)
  have "nat (j div 128 ^ k) < 128" using Suc.prems(4,5) div_less_int [of "128 ^ k" j 128] by (simp add: nat_less_iff pos_imp_zdiv_nonneg_iff)
  then show ?case using Suc.IH [of "b_daddr (lcont s d p) (nat (j div 128 ^ k))" "j mod 128 ^ k"] Suc.prems cache_step_lcont [OF Suc.prems(1,2), of p] by auto
qed simp

section \<open>\<^verbatim>\<open>bmap\<close> for reading\<close>

text \<open>The digits of a block number to the base 128, as the code takes them with shifts.\<close>

lemma digits:
  fixes bn :: int
  shows "bn mod 128 ^ Suc k div 128 ^ k = bn div 128 ^ k mod 128" "bn mod 128 ^ Suc k mod 128 ^ k = bn mod 128 ^ k"
proof -
  have "bn mod 128 ^ Suc k = 128 ^ k * (bn div 128 ^ k mod 128) + bn mod 128 ^ k"
    using zmod_zmult2_eq [of 128 bn "128 ^ k"] by (simp add: mult.commute)
  then show "bn mod 128 ^ Suc k div 128 ^ k = bn div 128 ^ k mod 128" by (simp add: div_mult_self4)
  show "bn mod 128 ^ Suc k mod 128 ^ k = bn mod 128 ^ k" by (simp add: mod_mod_cancel)
qed

lemma shift_power: "2 ^ (7 * k) = (128 :: int) ^ k"
  by (simp add: power_mult)

lemma bdata_brelse [simp]: "bdata p (brelse q s) = bdata p s"
proof -
  have "b_addr (bufs (brelse q s) p) = b_addr (bufs s p)" "buffers (brelse q s) = buffers s"
    by (auto simp: brelse_def Let_def)
  moreover have "bframe s (brelse q s)" by (simp add: kframe)
  then have "core (brelse q s) = core s" by (simp add: bframe_def)
  ultimately show ?thesis by (simp add: bdata_def load_def split: baddr.split)
qed

lemma bframe_ra: "bframe s t \<Longrightarrow> rablock t = rablock s"
  unfolding bframe_def by (cases s; cases t) simp

lemma bread_step:
  assumes "bio_inv s" "dev_ok s d" "in_range s d b"
  shows "kpost (bread d b s) (\<lambda>bp t. held s d b bp t \<and> bdata bp t = lcont s d b \<and> bframe s t \<and> B_ERROR \<notin> b_flags (bufs t bp) \<and> (no_resid s \<longrightarrow> no_resid t))
    (\<lambda>_ _ t. \<not> calm s d) (\<lambda>_ _. False)"
proof -
  have d: "d \<noteq> NODEV" using assms(2) by (simp add: dev_ok_def)
  show ?thesis using bread_ok [OF assms] no_resid_bread [of s d b] held_no_err [OF _ d assms(3)] must_wait_busy [of s d b] calm_idle [of s d b]
    by (cases "bread d b s") auto
qed

lemma rd_step_release:
  assumes "held s d b bp t" "bframe s t" "no_resid s \<longrightarrow> no_resid t"
  shows "rd_step s (brelse bp t)"
  using held_brelse [OF assms(1)] bframe_trans [OF assms(2)] assms(3) no_resid_lists(2) [of t bp] by (intro rd_step_harmless) auto

definition ra_ok :: "int \<Rightarrow> 'a fss_scheme \<Rightarrow> bool" where
  "ra_ok d s \<longleftrightarrow> rablock s = 0 \<or> in_range s d (rablock s)"

definition hole_or :: "int \<Rightarrow> int" where
  "hole_or b = (if b = 0 then -1 else b)"

lemma hole_or_0: "hole_or 0 = -1"
  by (simp add: hole_or_def)

lemma bmap_walk_ok:
  assumes "bio_inv s" "dev_ok s d" "tree_ok k s d nb" "nb \<noteq> 0" "ra_ok d s"
    "case prev of None \<Rightarrow> k \<noteq> 0 | Some (bp, i) \<Rightarrow> k = 0 \<longrightarrow> i < 127 \<longrightarrow> tree_ok 0 s d (b_daddr (bdata bp s) (i + 1))"
  shows "kpost (bmap_walk k d True (7 * k) bn nb prev s)
    (\<lambda>r t. rd_step s t \<and> ra_ok d t \<and> r = hole_or (sub k (lcont s d) nb (bn mod 128 ^ k))) (\<lambda>_ _ t. \<not> calm s d) (\<lambda>_ _. False)"
  using assms
proof (induction k arbitrary: s nb prev)
  case 0
  obtain bp i where p: "prev = Some (bp, i)" using 0(6) by (cases prev) auto
  have "ra_ok d (s\<lparr>rablock := b_daddr (bdata bp s) (i + 1)\<rparr>)" if "i < 127" using 0(6) p that by (simp add: ra_ok_def in_range_def)
  then show ?case using 0 p rd_step_refl [OF 0(1)] by (simp add: set_rablock_def NINDIR_def hole_or_def)
next
  case (Suc k)
  have r: "in_range s d nb" and tr: "\<forall>i<128. tree_ok k s d (b_daddr (lcont s d nb) i)" and dn: "d \<noteq> NODEV"
    using Suc.prems(2-4) by (auto simp: dev_ok_def)
  let ?i = "nat (bn div 128 ^ k mod 128)"
  let ?nb = "b_daddr (lcont s d nb) ?i"
  have i: "?i < 128" by (simp add: nat_less_iff)
  have sub: "sub (Suc k) (lcont s d) nb (bn mod 128 ^ Suc k) = sub k (lcont s d) ?nb (bn mod 128 ^ k)"
    using Suc.prems(4) digits [of bn k] by (simp del: power_Suc)
  show ?case
  proof (simp only: bmap_walk.simps, rule kpost_bindI, rule bread_step [OF Suc.prems(1,2) r])
    fix bp t assume h: "held s d nb bp t \<and> bdata bp t = lcont s d nb \<and> bframe s t \<and> B_ERROR \<notin> b_flags (bufs t bp) \<and> (no_resid s \<longrightarrow> no_resid t)"
    let ?v = "brelse bp t"
    have st: "rd_step s ?v" using h rd_step_release by blast
    note dv = cache_step_devs [OF rd_cache_step [OF st]]
    have ra: "ra_ok d ?v" using Suc.prems(5) dv h bframe_ra [of s ?v] held_brelse [of s d nb bp t] bframe_trans [of s t ?v] by (simp add: ra_ok_def)
    have rest: "kpost (bmap_walk k d True (7 * k) bn ?nb (Some (bp, ?i)) ?v)
        (\<lambda>r t. rd_step s t \<and> ra_ok d t \<and> r = hole_or (sub (Suc k) (lcont s d) nb (bn mod 128 ^ Suc k))) (\<lambda>_ _ t. \<not> calm s d) (\<lambda>_ _. False)"
      if nz: "?nb \<noteq> 0"
    proof (rule kpost_weaken [OF Suc.IH [of ?v ?nb "Some (bp, ?i)"]])
      show "bio_inv ?v" "dev_ok ?v d" "tree_ok k ?v d ?nb" "?nb \<noteq> 0" "ra_ok d ?v"
        using dv Suc.prems(2) tree_ok_step [OF rd_cache_step [OF st] dn] tr i nz ra by auto
      show "case Some (bp, ?i) of None \<Rightarrow> k \<noteq> 0 | Some (bp, i) \<Rightarrow> k = 0 \<longrightarrow> i < 127 \<longrightarrow> tree_ok 0 ?v d (b_daddr (bdata bp ?v) (i + 1))"
        using h tr [rule_format, of "?i + 1"] dv by auto
      have "sub k (lcont ?v d) ?nb (bn mod 128 ^ k) = sub k (lcont s d) ?nb (bn mod 128 ^ k)" using tr i by (intro sub_step [OF rd_cache_step [OF st] dn]) auto
      then show "rd_step s w \<and> ra_ok d w \<and> r = hole_or (sub (Suc k) (lcont s d) nb (bn mod 128 ^ Suc k))"
        if "rd_step ?v w \<and> ra_ok d w \<and> r = hole_or (sub k (lcont ?v d) ?nb (bn mod 128 ^ k))" for r w
        using that rd_step_trans [OF st] unfolding sub by simp
    qed (use cache_step_calm [OF rd_cache_step [OF st]] in auto)
    have sh: "7 * Suc k - 7 = 7 * k" by simp
    have z: "sub k c 0 j = 0" for c j by (cases k) auto
    show "kpost (kbind (bflagged bp B_ERROR) (\<lambda>err. if err then kthen (kmod (brelse bp)) (kret 0)
       else let sh = 7 * Suc k - 7; i = nat (bn div 2 ^ sh mod 128)
         in kbind (bget bp (\<lambda>b. b_daddr b i)) (\<lambda>nb. if nb \<noteq> 0 then kthen (kmod (brelse bp)) (bmap_walk k d True sh bn nb (Some (bp, i)))
              else if True then kthen (kmod (brelse bp)) (kret (- 1))
              else kbind (alloc d) (\<lambda>r. case r of None \<Rightarrow> kthen (kmod (brelse bp)) (kret (- 1))
                | Some nbp \<Rightarrow> kbind (kget (\<lambda>s. b_blkno (bufs s nbp))) (\<lambda>nb. kthen (bdwrite nbp) (kthen (bset bp (set_b_daddr i nb))
                    (kthen (bdwrite bp) (bmap_walk k d True sh bn nb (Some (bp, i))))))))) t)
      (\<lambda>r t. rd_step s t \<and> ra_ok d t \<and> r = hole_or (sub (Suc k) (lcont s d) nb (bn mod 128 ^ Suc k))) (\<lambda>_ _ t. \<not> calm s d) (\<lambda>_ _. False)"
      using h rest [unfolded sub] st ra z unfolding sub by (simp add: sh shift_power Let_def hole_or_0 del: power_Suc sub.simps)
  qed auto
qed

lemma bmap_level_3:
  "bmap_level 3 0 1 b = (if b < 128 then Some (3, 7 * 1, b) else if b - 128 < 128 ^ 2 then Some (2, 7 * 2, b - 128)
     else if b - (128 + 128 ^ 2) < 128 ^ 3 then Some (1, 7 * 3, b - (128 + 128 ^ 2)) else None)"
  by (simp add: numeral_3_eq_3 Let_def)

lemma bmap_slot_read: "bmap_slot ip d i True s = Ok (if i_addr (inode s ip) ! i = 0 then None else Some (i_addr (inode s ip) ! i)) s"
  by (simp add: bmap_slot_def krun kret_def)

lemma bmap_direct:
  assumes f: "file_ok (inode s ip) s" and b: "0 \<le> bn" "bn < 10"
  shows "\<exists>t. bmap ip bn True s = Ok (hole_or (block_of (inode s ip) c bn)) t \<and> rd_step s t \<and> ra_ok (i_dev (inode s ip)) t"
proof -
  let ?i = "inode s ip"
  have "nat bn + 1 < 10 \<Longrightarrow> tree_ok 0 s (i_dev ?i) (i_addr ?i ! (nat bn + 1))" using f unfolding file_ok_def by blast
  then have "ra_ok (i_dev ?i) (s\<lparr>rablock := i_addr ?i ! (nat bn + 1)\<rparr>)" if "bn < 9" using that by (simp add: ra_ok_def in_range_def)
  moreover have "ra_ok (i_dev ?i) (s\<lparr>rablock := 0\<rparr>)" by (simp add: ra_ok_def)
  moreover have "rd_step s s" using f rd_step_refl by (auto simp: file_ok_def)
  ultimately show ?thesis using b
    by (simp add: bmap_def krun kbind_Ok [of "bmap_slot _ _ _ _", OF bmap_slot_read] set_rablock_def kret_run hole_or_def block_of_def NADDR_def)
qed

lemma bmap_tree:
  assumes f: "file_ok (inode s ip) s" and k: "k < 3" and j: "0 \<le> j" "j < 128 ^ Suc k" and d: "d = i_dev (inode s ip)"
  shows "kpost (kbind (bmap_slot ip d (10 + k) True) (\<lambda>r. case r of None \<Rightarrow> kret (-1) | Some nb \<Rightarrow> bmap_walk (Suc k) d True (7 * Suc k) j nb None) (s\<lparr>rablock := 0\<rparr>))
    (\<lambda>r t. rd_step s t \<and> ra_ok d t \<and> r = hole_or (sub (Suc k) (lcont s d) (i_addr (inode s ip) ! (10 + k)) j)) (\<lambda>_ _ t. \<not> calm s d) (\<lambda>_ _. False)"
proof -
  let ?p = "i_addr (inode s ip) ! (10 + k)" let ?s = "s\<lparr>rablock := 0\<rparr>"
  have t: "bio_inv s" "dev_ok s d" "tree_ok (Suc k) s d ?p" "d \<noteq> NODEV" using f k d by (auto simp: file_ok_def dev_ok_def)
  have st: "rd_step s ?s" using rd_step_refl [OF t(1)] by simp
  have m: "j mod 128 ^ Suc k = j" using j by simp
  have l: "sub (Suc k) (lcont ?s d) ?p j = sub (Suc k) (lcont s d) ?p j" using sub_step [OF rd_cache_step [OF st] t(4,3) j] .
  have z: "ra_ok d ?s" by (simp add: ra_ok_def)
  show ?thesis
  proof (cases "?p = 0")
    case True
    then show ?thesis using st z by (simp add: bmap_slot_read hole_or_0)
  next
    case False
    have "kpost (bmap_walk (Suc k) d True (7 * Suc k) j ?p None ?s)
      (\<lambda>r t. rd_step ?s t \<and> ra_ok d t \<and> r = hole_or (sub (Suc k) (lcont ?s d) ?p (j mod 128 ^ Suc k))) (\<lambda>_ _ t. \<not> calm ?s d) (\<lambda>_ _. False)"
      using False t z cache_step_devs [OF rd_cache_step [OF st]] tree_ok_step [OF rd_cache_step [OF st] t(4)] by (intro bmap_walk_ok) auto
    then have "kpost (bmap_walk (Suc k) d True (7 * Suc k) j ?p None ?s)
      (\<lambda>r t. rd_step s t \<and> ra_ok d t \<and> r = hole_or (sub (Suc k) (lcont s d) ?p j)) (\<lambda>_ _ t. \<not> calm s d) (\<lambda>_ _. False)"
      unfolding m l by (rule kpost_weaken) (use cache_step_calm [OF rd_cache_step [OF st]] in \<open>auto simp del: sub.simps\<close>)
    moreover have "kbind (bmap_slot ip d (10 + k) True) (\<lambda>r. case r of None \<Rightarrow> kret (-1) | Some nb \<Rightarrow> bmap_walk (Suc k) d True (7 * Suc k) j nb None) ?s =
        bmap_walk (Suc k) d True (7 * Suc k) j ?p None ?s"
      using False by (simp add: kbind_Ok [of "bmap_slot _ _ _ _", OF bmap_slot_read] del: bmap_walk.simps)
    ultimately show ?thesis by (simp only:)
  qed
qed

lemma bmap_ok:
  assumes f: "file_ok (inode s ip) s" and d: "d = i_dev (inode s ip)" and b: "0 \<le> bn" "bn < MAXBN"
  shows "kpost (bmap ip bn True s) (\<lambda>r t. rd_step s t \<and> ra_ok d t \<and> r = hole_or (block_of (inode s ip) (lcont s d) bn)) (\<lambda>_ _ t. \<not> calm s d) (\<lambda>_ _. False)"
proof (cases "bn < 10")
  case True
  then show ?thesis using bmap_direct [OF f b(1), of "lcont s d"] d by auto
next
  case False
  have n: "(1 :: nat) = Suc 0" "(2 :: nat) = Suc 1" "(3 :: nat) = Suc 2" by simp_all
  have e: "bmap ip bn True s = (case bmap_level 3 0 1 (bn - 10) of
             None \<Rightarrow> kthen (seterr EFBIG) (kret 0)
           | Some (j, sh, bn) \<Rightarrow>
               kbind (bmap_slot ip d (NADDR - j) True) (\<lambda>r.
               case r of
                 None \<Rightarrow> kret (-1)
               | Some nb \<Rightarrow> bmap_walk (4 - j) d True sh bn nb None)) (s\<lparr>rablock := 0\<rparr>)"
    unfolding d using False b(1) by (simp add: bmap_def krun set_rablock_def NADDR_def)
  consider (1) "bn < 10 + 128" | (2) "10 + 128 \<le> bn" "bn < 10 + 128 + 128 ^ 2" | (3) "10 + 128 + 128 ^ 2 \<le> bn" by linarith
  then show ?thesis
  proof cases
    case 1
    have "bmap ip bn True s = kbind (bmap_slot ip d (10 + 0) True) (\<lambda>r. case r of None \<Rightarrow> kret (-1) | Some nb \<Rightarrow>
        bmap_walk (Suc 0) d True (7 * Suc 0) (bn - 10) nb None) (s\<lparr>rablock := 0\<rparr>)"
      unfolding e using 1 by (simp add: bmap_level_3 NADDR_def del: bmap_walk.simps cong: option.case_cong)
    moreover have "block_of (inode s ip) (lcont s d) bn = sub (Suc 0) (lcont s d) (i_addr (inode s ip) ! (10 + 0)) (bn - 10)"
      using 1 False by (simp add: block_of_def)
    ultimately show ?thesis using 1 False bmap_tree [OF f, of 0 "bn - 10" d] d by (simp only:) simp
  next
    case 2
    have "bmap ip bn True s = kbind (bmap_slot ip d (10 + 1) True) (\<lambda>r. case r of None \<Rightarrow> kret (-1) | Some nb \<Rightarrow>
        bmap_walk (Suc 1) d True (7 * Suc 1) (bn - 138) nb None) (s\<lparr>rablock := 0\<rparr>)"
      unfolding e using 2 by (simp add: bmap_level_3 NADDR_def numeral_2_eq_2 del: bmap_walk.simps cong: option.case_cong)
    moreover have "block_of (inode s ip) (lcont s d) bn = sub (Suc 1) (lcont s d) (i_addr (inode s ip) ! (10 + 1)) (bn - 138)"
      using 2 by (simp add: block_of_def numeral_2_eq_2)
    ultimately show ?thesis using 2 bmap_tree [OF f, of 1 "bn - 138" d] d by (simp only:) simp
  next
    case 3
    have "bmap ip bn True s = kbind (bmap_slot ip d (10 + 2) True) (\<lambda>r. case r of None \<Rightarrow> kret (-1) | Some nb \<Rightarrow>
        bmap_walk (Suc 2) d True (7 * Suc 2) (bn - 16522) nb None) (s\<lparr>rablock := 0\<rparr>)"
      unfolding e using 3 b(2) by (simp add: bmap_level_3 NADDR_def MAXBN_def numeral_3_eq_3 numeral_2_eq_2 del: bmap_walk.simps cong: option.case_cong)
    moreover have "block_of (inode s ip) (lcont s d) bn = sub (Suc 2) (lcont s d) (i_addr (inode s ip) ! (10 + 2)) (bn - 16522)"
      using 3 by (simp add: block_of_def numeral_3_eq_3 numeral_2_eq_2)
    ultimately show ?thesis using 3 b(2) bmap_tree [OF f, of 2 "bn - 16522" d] d by (simp only: MAXBN_def) simp
  qed
qed

lemma bmap_too_big:
  assumes "bn < 0 \<or> MAXBN \<le> bn"
  shows "\<exists>r. bmap ip bn rd s = Ok 0 (s\<lparr>u := (u s)\<lparr>u_error := EFBIG\<rparr>, rablock := r\<rparr>)"
proof (cases "bn < 0")
  case True
  have "bmap ip bn rd s = Ok 0 (s\<lparr>u := (u s)\<lparr>u_error := EFBIG\<rparr>\<rparr>)" using True by (simp add: bmap_def krun kret_run)
  then show ?thesis by (intro exI [of _ "rablock s"]) simp
next
  case False
  then have "MAXBN \<le> bn" using assms by simp
  then have "bmap_level 3 0 1 (bn - 10) = None" by (simp add: bmap_level_3 MAXBN_def)
  moreover have "\<not> bn < 10" using \<open>MAXBN \<le> bn\<close> by (simp add: MAXBN_def)
  ultimately have "bmap ip bn rd s = Ok 0 (s\<lparr>u := (u s)\<lparr>u_error := EFBIG\<rparr>, rablock := 0\<rparr>)"
    using False by (simp add: bmap_def krun kret_run set_rablock_def NADDR_def)
  then show ?thesis by blast
qed

lemma sub_range: "tree_ok k s d p \<Longrightarrow> 0 \<le> j \<Longrightarrow> j < 128 ^ k \<Longrightarrow> sub k (lcont s d) p j = 0 \<or> in_range s d (sub k (lcont s d) p j)"
proof (induction k arbitrary: p j)
  case (Suc k)
  have "nat (j div 128 ^ k) < 128" using Suc.prems div_less_int [of "128 ^ k" j 128] by (simp add: nat_less_iff pos_imp_zdiv_nonneg_iff)
  then show ?case using Suc.IH [of "b_daddr (lcont s d p) (nat (j div 128 ^ k))" "j mod 128 ^ k"] Suc.prems by auto
qed simp

lemma block_cases:
  assumes "file_ok i s" "0 \<le> bn" "bn < MAXBN"
  obtains (direct) k where "k < 10" "\<And>c. block_of i c bn = sub 0 c (i_addr i ! k) 0" "tree_ok 0 s (i_dev i) (i_addr i ! k)"
  | (tree) k j where "0 \<le> j" "j < 128 ^ Suc k" "\<And>c. block_of i c bn = sub (Suc k) c (i_addr i ! (10 + k)) j" "tree_ok (Suc k) s (i_dev i) (i_addr i ! (10 + k))"
proof -
  have d: "tree_ok 0 s (i_dev i) (i_addr i ! k)" if "k < 10" for k using assms(1) that unfolding file_ok_def by blast
  have t: "tree_ok (Suc k) s (i_dev i) (i_addr i ! (10 + k))" if "k < 3" for k using assms(1) that unfolding file_ok_def by blast
  have n: "Suc (Suc 0) = 2" "Suc 2 = 3" by simp_all
  consider "bn < 10" | "10 \<le> bn" "bn < 138" | "138 \<le> bn" "bn < 16522" | "16522 \<le> bn" by linarith
  then show thesis
  proof cases
    case 1
    then show ?thesis using assms(2) d [of "nat bn"] by (intro direct [of "nat bn"]) (simp_all add: block_of_def)
  next
    case 2
    then show ?thesis using t [of 0] by (intro tree [of "bn - 10" 0]) (simp_all add: block_of_def del: sub.simps(2) tree_ok.simps(2))
  next
    case 3
    then show ?thesis using t [of 1] by (intro tree [of "bn - 138" 1]) (simp_all add: block_of_def n del: sub.simps(2) tree_ok.simps(2))
  next
    case 4
    then show ?thesis using t [of 2] assms(3) by (intro tree [of "bn - 16522" 2]) (simp_all add: block_of_def n MAXBN_def del: sub.simps(2) tree_ok.simps(2))
  qed
qed

lemma block_of_range:
  assumes "file_ok i s" "0 \<le> bn" "bn < MAXBN"
  shows "block_of i (lcont s (i_dev i)) bn = 0 \<or> in_range s (i_dev i) (block_of i (lcont s (i_dev i)) bn)"
  using assms
proof (cases rule: block_cases)
  case (tree k j)
  then show ?thesis using sub_range [OF tree(4,1,2)] by (simp only:)
qed simp

lemma block_of_step:
  assumes "cache_step s t" "file_ok i s" "0 \<le> bn" "bn < MAXBN"
  shows "block_of i (lcont t (i_dev i)) bn = block_of i (lcont s (i_dev i)) bn"
proof -
  have d: "i_dev i \<noteq> NODEV" using assms(2) by (simp add: file_ok_def dev_ok_def)
  from assms(2-4) show ?thesis by (rule block_cases) (use sub_step [OF assms(1) d] in \<open>simp_all del: sub.simps(2)\<close>)
qed

text \<open>
  C12: \<^verbatim>\<open>bmap\<close> for reading finds the block of the file that the inode and its indirect blocks define: ten direct blocks, then trees of one,
  two and three levels with 128 addresses per block. For a hole it returns -1, and outside the range of 2113674 blocks it
  sets \<^verbatim>\<open>EFBIG\<close>. It changes no content, no inode and no held buffer, the block it names for read-ahead belongs to the device, and it
  does not sleep when nobody holds a buffer of the device.
\<close>

theorem bmap_finds:
  assumes "file_ok (inode s ip) s"
  shows "case bmap ip bn True s of
      Ok r t \<Rightarrow> if 0 \<le> bn \<and> bn < MAXBN
        then rd_step s t \<and> ra_ok (i_dev (inode s ip)) t \<and> r = hole_or (block_of (inode s ip) (lcont s (i_dev (inode s ip))) bn)
        else \<exists>ra. r = 0 \<and> t = s\<lparr>u := (u s)\<lparr>u_error := EFBIG\<rparr>, rablock := ra\<rparr>
    | Slept c p t \<Rightarrow> 0 \<le> bn \<and> bn < MAXBN \<and> \<not> calm s (i_dev (inode s ip))
    | Panicked m t \<Rightarrow> False
    | Spun \<Rightarrow> False"
proof (cases "0 \<le> bn \<and> bn < MAXBN")
  case True
  then show ?thesis using bmap_ok [OF assms refl, of bn] by (cases "bmap ip bn True s") simp_all
next
  case False
  then obtain r where "bmap ip bn True s = Ok 0 (s\<lparr>u := (u s)\<lparr>u_error := EFBIG\<rparr>, rablock := r\<rparr>)"
    using bmap_too_big [of bn ip True s] by (auto simp: not_le not_less)
  then show ?thesis using False by (simp only: kres.case if_False) (intro exI [of _ r] conjI refl)
qed

text \<open>A file on the demonstration disk: block 0 of it is the super block, block 1 an empty block, and it has an empty indirect block.\<close>

definition demo_file :: inode where
  "demo_file = inode0\<lparr>i_count := 1, i_number := 5, i_mode := 0x8000, i_size := 600, i_addr := [1, 9, 0, 0, 0, 0, 0, 0, 0, 0, 9, 0, 0]\<rparr>"

definition demo_st :: fss where
  "demo_st = (binit fs_boot)\<lparr>inode := (\<lambda>_. inode0)(3 := demo_file)\<rparr>"

lemma demo_st_ok:
  "bio_inv demo_st" "dev_ok demo_st 0" "calm demo_st 0" "lcont demo_st 0 1 = demo_sb" "b \<noteq> 1 \<Longrightarrow> lcont demo_st 0 b = zeros"
  "in_range demo_st 0 b \<longleftrightarrow> 0 \<le> b \<and> b < 4096" "u demo_st = user0"
proof -
  let ?s = "binit fs_boot"
  note b = binit_inv [OF fs_boot_ok]
  note f = fs_boot_fs
  show "bio_inv demo_st" "dev_ok demo_st 0" using f(1,4) by (simp_all add: demo_st_def)
  have "calm ?s 0" unfolding calm_def using b(2) by (intro conjI exI [of _ 0] exI [of _ 1]) (auto simp: NBUF_def)
  then show "calm demo_st 0" by (simp add: demo_st_def calm_def)
  show "lcont demo_st 0 1 = demo_sb" using f(10) by (simp add: demo_st_def SUPERB_def)
  have "lcont ?s 0 b = on_disk ?s 0 b" using b(6) by (intro lcont_uncached) (simp add: caches_def)
  also have "on_disk ?s 0 b = zeros" if "b \<noteq> 1"
    using that by (intro nth_equalityI) (auto simp: on_disk_def md_range_def mdmem_binit fs_boot_def zeros_def)
  finally show "b \<noteq> 1 \<Longrightarrow> lcont demo_st 0 b = zeros" by (simp add: demo_st_def)
  show "in_range demo_st 0 b \<longleftrightarrow> 0 \<le> b \<and> b < 4096" using b(4) by (simp add: demo_st_def in_range_def fs_boot_def)
  show "u demo_st = user0" using bframe_binit [of fs_boot] by (simp add: demo_st_def bframe_def fs_boot_def)
qed

lemma b_daddr_zeros: "i < 128 \<Longrightarrow> b_daddr zeros i = 0"
proof -
  assume "i < 128"
  then have "get_bytes (4 * i) 4 zeros = replicate 4 0" by (simp add: get_bytes_def zeros_def)
  moreover have "dec (replicate n 0) = 0" for n by (induction n) auto
  ultimately show ?thesis by (simp add: b_daddr_def i32_def cint_def)
qed

lemma demo_file_ok: "file_ok demo_file demo_st"
proof -
  have "tree_ok 0 demo_st 0 (i_addr demo_file ! k)" if "k < 10" for k
    using that by (cases k; simp add: demo_file_def demo_st_ok numeral_eq_Suc; (cases "k - 1"; simp)?) (auto simp: nth_Cons' split: if_splits)
  moreover have "tree_ok (Suc k) demo_st 0 (i_addr demo_file ! (10 + k))" if "k < 3" for k
  proof -
    have "k = 0 \<or> k = 1 \<or> k = 2" using that by linarith
    then show ?thesis by (auto simp: demo_file_def demo_st_ok b_daddr_zeros)
  qed
  ultimately show ?thesis using demo_st_ok(1,2) by (simp add: file_ok_def demo_file_def inode0_def NADDR_def)
qed

theorem bmap_finds_witness:
  "(\<exists>t. bmap 3 1 True demo_st = Ok 9 t) \<and> (\<exists>t. bmap 3 12 True demo_st = Ok (-1) t) \<and>
    (\<exists>t. bmap 3 2113674 True demo_st = Ok 0 t \<and> u_error (u t) = EFBIG)"
proof -
  have f: "file_ok (inode demo_st 3) demo_st" and i: "inode demo_st 3 = demo_file" using demo_file_ok by (simp_all add: demo_st_def)
  have "block_of demo_file (lcont demo_st 0) 1 = 9" "block_of demo_file (lcont demo_st 0) 12 = 0"
    by (simp_all add: block_of_def demo_file_def demo_st_ok b_daddr_zeros)
  moreover have "i_dev demo_file = 0" by (simp add: demo_file_def inode0_def)
  ultimately show ?thesis
    using bmap_finds [OF f, of 1] bmap_finds [OF f, of 12] bmap_finds [OF f, of 2113674] demo_st_ok(3) i
    by (auto simp: MAXBN_def hole_or_def split: kres.splits)
qed

end
