(* ===== verification/Readi_Spec.thy ===== *)
theory Readi_Spec
  imports Bmap_Spec
begin

text \<open>
  Reading a file: its content as the block map and the logical content of the device define it, and the
  proof that \<open>readi\<close> delivers exactly the requested part of it.
\<close>

section \<open>A buffer to copy from\<close>

lemma clrbuf_none_release:
  assumes h: "held_none s bp v"
  shows "bdata bp (clrbuf bp v) = zeros" "harmless s (brelse bp (clrbuf bp v))"
proof -
  from h obtain i where i: "i < NBUF" "bp = Buf i" "\<not> busy s i" "\<forall>j<NBUF. busy v j \<longleftrightarrow> j = i \<or> busy s j" "bdev v i = NODEV" "bio_inv v"
    "keeps_content s v" "keeps_busy s v" "bframe s v" by (auto simp: held_none_def)
  then obtain al dl where rep: "bio_rep v al dl" by (auto simp: bio_inv_def)
  have bo: "buf_ok v i" using rep i(1) by (simp add: bio_rep_def)
  define w where "w = bmod (Buf i) (\<lambda>b. b\<lparr>b_resid := 0\<rparr>) (v\<lparr>buffers := (buffers v)(i := zeros)\<rparr>)"
  have e: "clrbuf (Buf i) v = w" using bo by (simp add: clrbuf_def w_def store_def buf_ok_def zeros_def BSIZE_def)
  have bz: "busy v i" using i by auto
  have z: "length zeros = 512" by (simp add: zeros_def)
  have st1: "busy_step i v (v\<lparr>buffers := (buffers v)(i := zeros)\<rparr>)"
    using bput_ok(2) [OF i(6,1) bz z] bput_Buf [OF i(6,1) z] by simp
  have st: "busy_step i v w" unfolding w_def by (rule busy_step_trans [OF st1 busy_step_bmod]) (use bz in simp_all)
  have nd: "bdev w i = NODEV" "bno w i = bno v i" using i(5) by (simp_all add: w_def)
  have "buf_ok w i" using bo i(5) bz by (simp add: w_def buf_ok_def zeros_def)
  then have rw: "bio_rep w al dl" using nd i(5) by (intro busy_step_ok [OF rep st i(1)]) auto
  have ub: "upd_buf i v w" using st by (simp add: busy_step_def)
  have kc: "keeps_content v w" unfolding keeps_content_def
  proof (intro conjI allI impI)
    show "same_devs v w" using ub by (simp add: upd_buf_def)
    show "lcont w d b = lcont v d b" if "d \<noteq> NODEV" "in_range v d b" for d b
      using that nd i(5) by (intro lcont_upd [OF ub]) (auto simp: same_block_def)
  qed
  have bw: "busy w i" "clean w i" using st nd by (simp_all add: busy_step_def clean_def)
  note br = brelse_ok [OF rw i(1) bw]
  have nb: "\<not> busy (brelse (Buf i) w) i" using br(5) by (auto simp: pl_def released_def)
  have "busy (brelse (Buf i) w) j = busy s j" if "j < NBUF" for j
    using upd_busy_idle [OF br(3) nb, of j] upd_busy [OF ub bw(1), of j] bw i(3,4) that by auto
  moreover have "keeps_busy s (brelse (Buf i) w)"
    by (rule keeps_busy_more [OF br(3) i(3) keeps_busy_more [OF ub i(3,8,1) bio_invI [OF rw]] i(1) bio_invI [OF br(1)]])
  moreover have "bframe s (brelse (Buf i) w)" using i(9) by (simp add: kframe w_def)
  ultimately show "harmless s (brelse bp (clrbuf bp v))"
    unfolding harmless_def i(2) e using bio_invI [OF br(1)] keeps_content_trans [OF i(7) keeps_content_trans [OF kc br(2)]] by (simp add: same_busy_def)
  show "bdata bp (clrbuf bp v) = zeros" unfolding i(2) e bdata_Buf [OF bio_invI [OF rw] i(1)] by (simp add: w_def)
qed

text \<open>The process side of the state and the inode table do not matter to the cache.\<close>

lemma brelse_commute:
  assumes "\<And>s. bufs (g s) = bufs s" "\<And>p f s. bmod p f (g s) = g (bmod p f s)" "\<And>c s. log_wakeup c (g s) = g (log_wakeup c s)"
  shows "brelse p (g s) = g (brelse p s)"
proof -
  have w: "rel_wake p (g s) = g (rel_wake p s)" by (simp add: rel_wake_def Let_def bflag_clr_def assms)
  have e: "rel_err p (g s) = g (rel_err p s)" for s by (simp add: rel_err_def assms)
  have f: "rel_front p (g s) = g (rel_front p s)" for s by (simp add: rel_front_def Let_def assms)
  have b: "rel_back p (g s) = g (rel_back p s)" for s by (simp add: rel_back_def Let_def assms)
  show ?thesis by (simp add: brelse_stages Let_def w e f b bflag_clr_def assms)
qed

lemma brelse_user:
  "brelse p (s\<lparr>u := x\<rparr>) = (brelse p s)\<lparr>u := x\<rparr>" "brelse p (s\<lparr>umem := m\<rparr>) = (brelse p s)\<lparr>umem := m\<rparr>"
  "brelse p (t\<lparr>inode := y\<rparr>) = (brelse p t)\<lparr>inode := y\<rparr>"
  by (rule brelse_commute; simp add: bmod_def log_wakeup_def)+

text \<open>A buffer with the data \<open>D\<close>, which can be handed back at once.\<close>

definition ready_buf :: "'a fss_scheme \<Rightarrow> int list \<Rightarrow> bptr \<Rightarrow> 'a fss_scheme \<Rightarrow> bool" where
  "ready_buf s D bp v \<longleftrightarrow> (\<exists>i<NBUF. bp = Buf i \<and> pool_buf i v \<and> buffers v i = D) \<and> rd_step s (brelse bp v) \<and> b_resid (bufs v bp) = 0 \<and>
     u v = u s \<and> umem v = umem s \<and> inode v = inode s"

lemma ready_bufI:
  assumes "bio_inv v" "i < NBUF" "bp = Buf i" "bdata bp v = D" "rd_step s (brelse bp v)" "no_resid v" "bframe s v"
  shows "ready_buf s D bp v"
proof -
  have "pool_buf i v" using assms(1,2) by (auto simp: pool_buf_def bio_inv_def bio_rep_def buf_ok_def)
  then show ?thesis using assms bframe_more [OF assms(7)] by (auto simp: ready_buf_def bdata_Buf no_resid_def bframe_def)
qed

lemma held_ready:
  assumes "held s d b bp v" "bdata bp v = D" "bframe s v" "no_resid s" "no_resid s \<longrightarrow> no_resid v"
  shows "ready_buf s D bp v"
proof -
  obtain i where "i < NBUF" "bp = Buf i" "bio_inv v" using assms(1) by (auto simp: held_def)
  then show ?thesis using assms rd_step_release [OF assms(1,3,5)] by (intro ready_bufI) auto
qed

lemma none_ready:
  assumes "held_none s bp v" "no_resid s" "no_resid v"
  shows "ready_buf s zeros bp (clrbuf bp v)"
proof -
  obtain i where i: "i < NBUF" "bp = Buf i" "bframe s v" "bio_inv v" using assms(1) by (auto simp: held_none_def)
  note c = clrbuf_none_release [OF assms(1)]
  have nr: "no_resid (clrbuf bp v)" "no_resid (brelse bp (clrbuf bp v))" using assms(3) no_resid_clrbuf no_resid_lists(2) by auto
  have "b_addr (bufs v (Buf i)) = Abuf i" using i by (auto simp: bio_inv_def bio_rep_def buf_ok_def)
  then have p: "pool_buf i (clrbuf bp v)" "buffers (clrbuf bp v) i = zeros" "bframe s (clrbuf bp v)"
    using i by (auto simp: pool_buf_def clrbuf_def store_def bdata_def load_def BSIZE_def zeros_def bio_inv_def bio_rep_def buf_ok_def kframe)
  have "rd_step s (brelse bp (clrbuf bp v))" using c(2) nr by (intro rd_step_harmless) (auto simp: harmless_def)
  then show ?thesis using p nr i(1,2) bframe_more [OF p(3)] by (auto simp: ready_buf_def no_resid_def bframe_def)
qed

section \<open>\<^verbatim>\<open>readi\<close>\<close>

definition file_data :: "inode \<Rightarrow> 'a bst_scheme \<Rightarrow> int \<Rightarrow> int list" where
  "file_data i s bn = (let b = block_of i (lcont s (i_dev i)) bn in if b = 0 then zeros else lcont s (i_dev i) b)"

definition file_bytes :: "inode \<Rightarrow> 'a bst_scheme \<Rightarrow> int \<Rightarrow> nat \<Rightarrow> int list" where
  "file_bytes i s off n = map (\<lambda>k. file_data i s ((off + int k) div 512) ! nat ((off + int k) mod 512)) [0 ..< n]"

lemma length_file_bytes [simp]: "length (file_bytes i s off n) = n"
  by (simp add: file_bytes_def)

text \<open>\<open>n\<close> bytes of the file have been copied to the process, the pointers have moved and the inode remembers the last block.\<close>

definition copied :: "nat \<Rightarrow> 'a fss_scheme \<Rightarrow> nat \<Rightarrow> 'a fss_scheme \<Rightarrow> bool" where
  "copied ip s n t \<longleftrightarrow> cache_step s t \<and> (\<exists>l. inode t = (inode s)(ip := (inode s ip)\<lparr>i_lastr := l\<rparr>)) \<and>
     umem t = poke (u_base (u s)) (file_bytes (inode s ip) s (u_offset (u s)) n) (umem s) \<and> u t = ustep (int n) (u s) \<and>
     proc t = proc s \<and> time t = time s \<and> core t = core s \<and> mount t = mount s \<and> file_t t = file_t s"

definition avail :: "inode \<Rightarrow> user \<Rightarrow> nat" where
  "avail i v = nat (min (u_count v) (max 0 (i_size i - u_offset v)))"

definition can_read :: "nat \<Rightarrow> 'a fss_scheme \<Rightarrow> bool" where
  "can_read ip s \<longleftrightarrow> file_ok (inode s ip) s \<and> no_resid s \<and> (\<forall>b. in_range s (i_dev (inode s ip)) b \<longrightarrow> bytes (lcont s (i_dev (inode s ip)) b)) \<and>
     0 \<le> i_size (inode s ip) \<and> i_size (inode s ip) < 2 ^ 31 \<and> i_size (inode s ip) \<le> 512 * MAXBN \<and> 0 \<le> u_offset (u s) \<and> u_offset (u s) < 2 ^ 31 \<and>
     u_segflg (u s) = 0 \<and> 0 \<le> u_count (u s) \<and> u_count (u s) < 2 ^ 32 \<and> mapped (u_base (u s)) (avail (inode s ip) (u s)) s"

lemma rd_step_user: "rd_step s t \<Longrightarrow> u t = u s \<and> umem t = umem s \<and> inode t = inode s"
  by (simp add: rd_step_def)

text \<open>The block of the file is fetched.\<close>

lemma fetch_ok:
  assumes inv: "bio_inv s" "dev_ok s d" "no_resid s" and b: "b = 0 \<or> in_range s d b" and ra: "ra_ok d s"
  shows "kpost ((if hole_or b < 0 then kbind geteblk (\<lambda>bp. kthen (kmod (clrbuf bp)) (kret bp))
      else if seq then breada d (hole_or b) (rablock s) else bread d (hole_or b)) s)
    (\<lambda>bp v. ready_buf s (if b = 0 then zeros else lcont s d b) bp v) (\<lambda>_ _ t. \<not> calm s d) (\<lambda>_ _. False)"
proof (cases "b = 0")
  case True
  have "kpost (geteblk s) (\<lambda>bp v. ready_buf s zeros bp (clrbuf bp v)) (\<lambda>_ _ t. \<not> calm s d) (\<lambda>_ _. False)"
    using geteblk_ok [OF inv(1)] no_resid_geteblk [OF inv(3)] none_ready [OF _ inv(3)] by (cases "geteblk s") (auto simp: calm_def)
  then show ?thesis using True by (simp add: hole_or_def)
next
  case False
  then have r: "in_range s d b" "\<not> hole_or b < 0" "hole_or b = b" using b by (auto simp: hole_or_def in_range_def)
  have "kpost (bread d b s) (\<lambda>bp v. ready_buf s (lcont s d b) bp v) (\<lambda>_ _ t. \<not> calm s d) (\<lambda>_ _. False)"
    by (rule kpost_weaken [OF bread_step [OF inv(1,2) r(1)]]) (auto intro: held_ready inv(3))
  moreover have "kpost (breada d b (rablock s) s) (\<lambda>bp v. ready_buf s (lcont s d b) bp v) (\<lambda>_ _ t. \<not> calm s d) (\<lambda>_ _. False)"
    using breada_ok [OF inv(1,2) r(1), of "rablock s"] ra no_resid_breada [OF inv(3), of d b "rablock s"] held_ready [where s = s and D = "lcont s d b", OF _ _ _ inv(3)]
    by (cases "breada d b (rablock s) s") (auto simp: ra_ok_def)
  ultimately show ?thesis using False r by simp
qed

lemma ready_trans:
  assumes "rd_step s t" "ready_buf t D bp v"
  shows "ready_buf s D bp v"
  using assms(2) rd_step_trans [OF assms(1), of "brelse bp v"] rd_step_user [OF assms(1)] unfolding ready_buf_def by simp

text \<open>The bytes are copied and the buffer is handed back.\<close>

lemma copy_out:
  assumes rb: "ready_buf s D bp v" and fit: "fits_req n s" and n: "0 < n" "on + n \<le> 512" and bt: "bytes D"
    and i': "i' = (inode s)(ip := (inode s ip)\<lparr>i_lastr := l\<rparr>)"
  shows "\<exists>w. rd_step s w \<and> kthen (imod ip (\<lambda>i. i\<lparr>i_lastr := l\<rparr>)) (kbind (kget (\<lambda>s. b_resid (bufs s bp))) (\<lambda>resid.
      let n = umin (int n) (BSIZE - resid) in
      kthen (kwhen (n \<noteq> 0) (iomove bp on n True)) (kthen (kmod (brelse bp)) (g n)))) v =
    g (int n) (w\<lparr>inode := i', umem := poke (u_base (u s)) (get_bytes on n D) (umem s), u := ustep (int n) (u s)\<rparr>)"
proof -
  obtain i where i: "i < NBUF" "bp = Buf i" "pool_buf i v" "buffers v i = D" using rb by (auto simp: ready_buf_def)
  have v: "rd_step s (brelse bp v)" "b_resid (bufs v bp) = 0" "u v = u s" "umem v = umem s" "inode v = inode s" using rb by (auto simp: ready_buf_def)
  let ?v = "v\<lparr>inode := i'\<rparr>"
  have f: "fits_req (nat (int n)) ?v" using fit v by (simp add: fits_req_def mapped_def)
  have p: "pool_buf i ?v" "buffers ?v i = D" using i by (auto simp: pool_buf_def)
  have D: "length D = 512" using i by (auto simp: pool_buf_def)
  have io: "iomove bp on (int n) True ?v = Ok () (?v\<lparr>umem := poke (u_base (u s)) (get_bytes on n D) (umem s), u := ustep (int n) (u s)\<rparr>)"
    using iomove_bytes [OF f _ _ p(1), of on True] iomove_out_run [OF f, of on bp] n bt p i(2) D v pool_buf_data [OF p(1)] by simp
  have m: "umin (int n) BSIZE = int n" using n by (simp add: umin_def BSIZE_def cuint_def)
  have ii: "(inode v)(ip := (inode v ip)\<lparr>i_lastr := l\<rparr>) = i'" by (simp add: i' v)
  show ?thesis
    by (intro exI [of _ "brelse bp v"] conjI v(1))
      (use n in \<open>simp add: krun imod_def Let_def v(2) m ii kthen_Ok [of "iomove bp on (int n) True", OF io] brelse_user\<close>)
qed

section \<open>Putting the pieces together\<close>

lemma file_bytes_block:
  assumes "0 \<le> off" "nat (off mod 512) + n \<le> 512" "length (file_data i s (off div 512)) = 512"
  shows "get_bytes (nat (off mod 512)) n (file_data i s (off div 512)) = file_bytes i s off n"
proof (intro nth_equalityI)
  fix k assume "k < length (get_bytes (nat (off mod 512)) n (file_data i s (off div 512)))"
  then have k: "k < n" using assms by simp
  have e: "off + int k = 512 * (off div 512) + (off mod 512 + int k)" using div_mult_mod_eq [of off 512] by linarith
  have m: "0 \<le> off mod 512 + int k" "off mod 512 + int k < 512" using k assms(2) pos_mod_sign [of 512 off] by linarith+
  then have "(off + int k) div 512 = off div 512" "(off + int k) mod 512 = off mod 512 + int k"
    using int_div_pos_eq [OF e m] int_mod_pos_eq [OF e m] by auto
  then show "get_bytes (nat (off mod 512)) n (file_data i s (off div 512)) ! k = file_bytes i s off n ! k"
    using k assms(2,3) by (simp add: get_bytes_def file_bytes_def nat_add_distrib)
qed (use assms in simp)

lemma file_bytes_add: "file_bytes i s off (n + m) = file_bytes i s off n @ file_bytes i s (off + int n) m"
proof -
  have "map f [n ..< n + m] = map (\<lambda>k. f (n + k)) [0 ..< m]" for f :: "nat \<Rightarrow> int" by (intro nth_equalityI) auto
  then show ?thesis unfolding file_bytes_def upt_add_eq_append [OF le0] map_append by (simp add: add.assoc)
qed

lemma poke_append: "poke a (xs @ ys) m = poke (a + int (length xs)) ys (poke a xs m)"
proof (induction xs arbitrary: a m)
  case (Cons x xs)
  then show ?case by (simp add: poke_Cons add.assoc del: fun_upd_apply)
qed (simp add: poke_Nil)

lemma file_data_step:
  assumes "cache_step s t" "file_ok i s" "0 \<le> bn" "bn < MAXBN"
  shows "file_data (i\<lparr>i_lastr := l\<rparr>) t bn = file_data i s bn"
proof -
  have d: "i_dev i \<noteq> NODEV" using assms(2) by (simp add: file_ok_def dev_ok_def)
  have "block_of (i\<lparr>i_lastr := l\<rparr>) c bn = block_of i c bn" for c by (simp add: block_of_def)
  then show ?thesis using block_of_step [OF assms] block_of_range [OF assms(2-4)] cache_step_lcont [OF assms(1) d]
    by (auto simp: file_data_def Let_def)
qed

lemma file_bytes_step:
  assumes "cache_step s t" "file_ok i s" "0 \<le> off" "off + int n \<le> 512 * MAXBN"
  shows "file_bytes (i\<lparr>i_lastr := l\<rparr>) t off n = file_bytes i s off n"
proof -
  have "file_data (i\<lparr>i_lastr := l\<rparr>) t ((off + int k) div 512) = file_data i s ((off + int k) div 512)" if "k < n" for k
    using that assms(3,4) by (intro file_data_step [OF assms(1,2)]) (auto intro: div_less_int)
  then show ?thesis by (simp add: file_bytes_def)
qed

lemma length_file_data: "bio_inv s \<Longrightarrow> length (file_data i s bn) = 512"
  by (simp add: file_data_def Let_def lcont_length zeros_def)

lemma copied_intro:
  assumes "rd_step s w"
  shows "copied ip s n (w\<lparr>inode := (inode s)(ip := (inode s ip)\<lparr>i_lastr := l\<rparr>),
    umem := poke (u_base (u s)) (file_bytes (inode s ip) s (u_offset (u s)) n) (umem s), u := ustep (int n) (u s)\<rparr>)"
  using assms unfolding copied_def rd_step_def by (auto simp: cache_step_other)

lemma copied_none: "can_read ip s \<Longrightarrow> copied ip s 0 s"
proof -
  assume c: "can_read ip s"
  then have "bio_inv s" "ustep 0 (u s) = u s" by (auto simp: can_read_def file_ok_def ustep_def)
  moreover have "\<exists>l. inode s = (inode s)(ip := (inode s ip)\<lparr>i_lastr := l\<rparr>)" by (intro exI [of _ "i_lastr (inode s ip)"]) simp
  ultimately show ?thesis unfolding copied_def using cache_step_refl by (simp add: file_bytes_def poke_Nil)
qed

lemma copied_pointers:
  assumes "can_read ip s" "copied ip s n t" "n \<le> avail (inode s ip) (u s)"
  shows "u_offset (u t) = u_offset (u s) + int n" "u_count (u t) = u_count (u s) - int n" "u_base (u t) = u_base (u s) + int n"
    "u_segflg (u t) = 0" "u_error (u t) = u_error (u s)" "avail (inode t ip) (u t) = avail (inode s ip) (u s) - n"
    "u_offset (u s) + int n \<le> max (u_offset (u s)) (i_size (inode s ip))"
proof -
  let ?i = "inode s ip"
  have ut: "u t = ustep (int n) (u s)" "\<exists>l. inode t ip = ?i\<lparr>i_lastr := l\<rparr>" using assms(2) by (auto simp: copied_def)
  have c: "0 \<le> i_size ?i" "i_size ?i < 2 ^ 31" "0 \<le> u_offset (u s)" "u_offset (u s) < 2 ^ 31" "u_segflg (u s) = 0" "0 \<le> u_count (u s)" "u_count (u s) < 2 ^ 32"
    using assms(1) by (auto simp: can_read_def)
  have n: "int n \<le> u_count (u s)" "int n \<le> max 0 (i_size ?i - u_offset (u s))" using assms(3) c(6) by (auto simp: avail_def)
  show m: "u_offset (u s) + int n \<le> max (u_offset (u s)) (i_size ?i)" using n(2) by linarith
  have "cint (u_offset (u s) + int n) = u_offset (u s) + int n" using c m by (intro cint_id) auto
  moreover have "cuint (u_count (u s) - int n) = u_count (u s) - int n" using c n by (intro cuint_id) auto
  ultimately show o: "u_offset (u t) = u_offset (u s) + int n" "u_count (u t) = u_count (u s) - int n" by (simp_all add: ut(1) ustep_def)
  show "u_base (u t) = u_base (u s) + int n" "u_segflg (u t) = 0" "u_error (u t) = u_error (u s)" using c(5) by (simp_all add: ut(1) ustep_def)
  show "avail (inode t ip) (u t) = avail ?i (u s) - n" using ut(2) n by (auto simp: avail_def o)
qed

lemma can_read_step:
  assumes "can_read ip s" "copied ip s n t" "n \<le> avail (inode s ip) (u s)"
  shows "can_read ip t"
proof -
  let ?i = "inode s ip" let ?d = "i_dev (inode s ip)"
  note p = copied_pointers [OF assms]
  from assms(2) obtain l where cs: "cache_step s t" and it: "inode t ip = ?i\<lparr>i_lastr := l\<rparr>" and
    um: "umem t = poke (u_base (u s)) (file_bytes ?i s (u_offset (u s)) n) (umem s)" by (auto simp: copied_def)
  have c: "file_ok ?i s" "no_resid s" "\<forall>b. in_range s ?d b \<longrightarrow> bytes (lcont s ?d b)" "mapped (u_base (u s)) (avail ?i (u s)) s"
    using assms(1) by (auto simp: can_read_def)
  have "file_ok (inode t ip) t" using file_ok_step [OF cs c(1)] by (simp add: it file_ok_def)
  moreover have "no_resid t" "\<forall>b. in_range t ?d b \<longrightarrow> bytes (lcont t ?d b)"
    using cs c(1-3) cache_step_devs [OF cs] cache_step_lcont [OF cs] by (auto simp: cache_step_def file_ok_def dev_ok_def)
  moreover have "mapped (u_base (u t)) (avail (inode t ip) (u t)) t" unfolding mapped_def p(3,6)
  proof (intro allI impI)
    fix k assume "k < avail ?i (u s) - n"
    then have "\<exists>c. umem s (u_base (u s) + int (n + k)) = Some c \<and> 0 \<le> c \<and> c < 256" using c(4) [unfolded mapped_def, rule_format, of "n + k"] by simp
    then show "\<exists>c. umem t (u_base (u s) + int n + int k) = Some c \<and> 0 \<le> c \<and> c < 256" by (simp add: um poke_def add.assoc)
  qed
  moreover have "int n \<le> u_count (u s)" using assms(1,3) by (auto simp: can_read_def avail_def)
  ultimately show ?thesis using assms(1) p(1,2,4,7) unfolding can_read_def by (auto simp: it)
qed

lemma copied_trans:
  assumes "can_read ip s" "copied ip s n t" "copied ip t m v" "n + m \<le> avail (inode s ip) (u s)"
  shows "copied ip s (n + m) v"
proof -
  have n: "n \<le> avail (inode s ip) (u s)" using assms(4) by simp
  note p = copied_pointers [OF assms(1,2) n]
  from assms(2) obtain l where t: "cache_step s t" "inode t = (inode s)(ip := (inode s ip)\<lparr>i_lastr := l\<rparr>)"
    "umem t = poke (u_base (u s)) (file_bytes (inode s ip) s (u_offset (u s)) n) (umem s)" "u t = ustep (int n) (u s)" by (auto simp: copied_def)
  from assms(3) obtain l' where v: "cache_step t v" "inode v = (inode t)(ip := (inode t ip)\<lparr>i_lastr := l'\<rparr>)"
    "umem v = poke (u_base (u t)) (file_bytes (inode t ip) t (u_offset (u t)) m) (umem t)" "u v = ustep (int m) (u t)" by (auto simp: copied_def)
  have b: "u_offset (u s) + int n + int m \<le> 512 * MAXBN \<or> m = 0" and o: "0 \<le> u_offset (u s)" and f: "file_ok (inode s ip) s"
    using assms(1,4) by (auto simp: avail_def can_read_def)
  have "file_bytes (inode t ip) t (u_offset (u t)) m = file_bytes (inode s ip) s (u_offset (u s) + int n) m"
    using b o file_bytes_step [OF t(1) f, of "u_offset (u s) + int n" m l] by (auto simp: t(2) p(1) file_bytes_def)
  then have "umem v = poke (u_base (u s)) (file_bytes (inode s ip) s (u_offset (u s)) (n + m)) (umem s)"
    by (simp add: v(3) t(3) p(3) file_bytes_add poke_append)
  moreover have "u v = ustep (int (n + m)) (u s)" by (simp add: v(4) t(4) ustep_ustep)
  moreover have "inode v = (inode s)(ip := (inode s ip)\<lparr>i_lastr := l'\<rparr>)" by (simp add: v(2) t(2))
  ultimately show ?thesis using assms(2,3) cache_step_trans [OF t(1) v(1)] unfolding copied_def by auto
qed

text \<open>How much one turn of the loop copies.\<close>

definition turn_bytes :: "inode \<Rightarrow> user \<Rightarrow> nat" where
  "turn_bytes i v = min (avail i v) (512 - nat (u_offset v mod 512))"

lemma turn_count:
  assumes "can_read ip s" "i = inode s ip" "v = u s" "\<not> cint (i_size i - u_offset v) \<le> 0"
  shows "(let n = umin (BSIZE - int (nat (u_offset v mod 512))) (u_count v) in if cint (i_size i - u_offset v) < n then cint (i_size i - u_offset v) else n) =
      int (turn_bytes i v)"
    "u_count v \<noteq> 0 \<Longrightarrow> 0 < turn_bytes i v" "nat (u_offset v mod 512) + turn_bytes i v \<le> 512" "0 \<le> u_offset v div 512" "u_offset v div 512 < MAXBN"
    "fits_req (turn_bytes i v) s"
proof -
  have c: "0 \<le> i_size i" "i_size i < 2 ^ 31" "i_size i \<le> 512 * MAXBN" "0 \<le> u_offset v" "u_offset v < 2 ^ 31" "0 \<le> u_count v" "u_count v < 2 ^ 32"
    "u_segflg v = 0" "mapped (u_base v) (avail i v) s"
    using assms(1-3) by (auto simp: can_read_def)
  have d: "cint (i_size i - u_offset v) = i_size i - u_offset v" using c by (intro cint_id) auto
  have on: "0 \<le> u_offset v mod 512" "u_offset v mod 512 < 512" by simp_all
  have "cuint (BSIZE - int (nat (u_offset v mod 512))) = 512 - u_offset v mod 512" "cuint (u_count v) = u_count v"
    using on c by (simp add: BSIZE_def, intro cuint_id, auto)
  then have m: "umin (BSIZE - int (nat (u_offset v mod 512))) (u_count v) = min (512 - u_offset v mod 512) (u_count v)" by (simp add: umin_def min_def)
  have "int (512 - nat (u_offset v mod 512)) = 512 - u_offset v mod 512" using on by linarith
  then have tb: "int (turn_bytes i v) = min (min (u_count v) (i_size i - u_offset v)) (512 - u_offset v mod 512)"
    using assms(4) c unfolding turn_bytes_def avail_def d of_nat_min by simp
  show "(let n = umin (BSIZE - int (nat (u_offset v mod 512))) (u_count v) in if cint (i_size i - u_offset v) < n then cint (i_size i - u_offset v) else n) =
      int (turn_bytes i v)"
    unfolding m d tb Let_def by (simp add: min_def)
  show "nat (u_offset v mod 512) + turn_bytes i v \<le> 512" using on by (simp add: turn_bytes_def)
  show "0 \<le> u_offset v div 512" using c by (simp add: pos_imp_zdiv_nonneg_iff)
  show "u_offset v div 512 < MAXBN" using assms(4) c unfolding d by (intro div_less_int) auto
  show "u_count v \<noteq> 0 \<Longrightarrow> 0 < turn_bytes i v" using assms(4) c on unfolding d by (simp add: turn_bytes_def avail_def)
  have "mapped (u_base v) (turn_bytes i v) s" using c(9) by (auto simp: mapped_def turn_bytes_def)
  then show "fits_req (turn_bytes i v) s" using c assms(3) by (auto simp: fits_req_def turn_bytes_def avail_def)
qed

lemma readi_turn:
  assumes "type \<noteq> IFBLK" "type \<noteq> IFMPB" "i = inode s ip" "v = u s" "\<not> cint (i_size i - u_offset v) \<le> 0" "can_read ip s"
    and g: "g = (\<lambda>n. kbind (kget u) (\<lambda>v. if u_error v = 0 \<and> u_count v \<noteq> 0 \<and> n > 0 then readi_loop k ip (i_dev i) type else kret ()))"
  shows "readi_loop (Suc k) ip dev type s =
     kbind (bmap ip (u_offset v div 512) True) (\<lambda>bn. kbind (uget u_error) (\<lambda>e. if e \<noteq> 0 then kret ()
        else kbind (kget rablock) (\<lambda>ra. kbind (if bn < 0 then kbind geteblk (\<lambda>bp. kthen (kmod (clrbuf bp)) (kret bp))
                  else if i_lastr i + 1 = u_offset v div 512 then breada (i_dev i) bn ra else bread (i_dev i) bn) (\<lambda>bp.
           kthen (imod ip (\<lambda>j. j\<lparr>i_lastr := u_offset v div 512\<rparr>))
           (kbind (kget (\<lambda>s. b_resid (bufs s bp))) (\<lambda>resid.
            let n = umin (int (turn_bytes i v)) (BSIZE - resid) in
            kthen (kwhen (n \<noteq> 0) (iomove bp (nat (u_offset v mod 512)) n True))
            (kthen (kmod (brelse bp)) (g n)))))))) s"
proof -
  note d = assms(5) [unfolded assms(3,4)]
  note tb = turn_count(1) [OF assms(6) refl refl d, unfolded Let_def]
  have blk: "(type = IFBLK \<or> type = IFMPB) = False" using assms(1,2) by simp
  show ?thesis unfolding readi_loop.simps(2) g assms(3,4) blk Let_def krun_base krun_fs id_apply
    by (simp only: d tb simp_thms if_False if_True)
qed

lemma turn_copy:
  assumes cr: "can_read ip s" and i: "i = inode s ip" and v: "v = u s" and nz: "\<not> cint (i_size i - u_offset v) \<le> 0" "u_count v \<noteq> 0"
    and lbn: "lbn = u_offset v div 512" and n: "n = turn_bytes i v" and bd: "bytes (file_data i s lbn)" and rb: "ready_buf s (file_data i s lbn) bp w"
    and rest: "\<And>t. copied ip s n t \<Longrightarrow> kpost (g (int n) t) Q S P"
  shows "kpost (kthen (imod ip (\<lambda>j. j\<lparr>i_lastr := lbn\<rparr>)) (kbind (kget (\<lambda>s. b_resid (bufs s bp))) (\<lambda>resid.
            let n = umin (int n) (BSIZE - resid) in
            kthen (kwhen (n \<noteq> 0) (iomove bp (nat (u_offset v mod 512)) n True)) (kthen (kmod (brelse bp)) (g n)))) w) Q S P"
proof -
  note tc = turn_count [OF cr i v nz(1)]
  have m: "0 < n" "nat (u_offset v mod 512) + n \<le> 512" "fits_req n s" using tc(2,3,6) nz(2) by (simp_all add: n)
  have fb: "get_bytes (nat (u_offset v mod 512)) n (file_data i s lbn) = file_bytes i s (u_offset v) n"
    unfolding lbn by (rule file_bytes_block) (use cr m(2) length_file_data [of s] in \<open>auto simp: can_read_def file_ok_def v\<close>)
  obtain w' where w': "rd_step s w'" "kthen (imod ip (\<lambda>j. j\<lparr>i_lastr := lbn\<rparr>)) (kbind (kget (\<lambda>s. b_resid (bufs s bp))) (\<lambda>resid.
        let n = umin (int n) (BSIZE - resid) in
        kthen (kwhen (n \<noteq> 0) (iomove bp (nat (u_offset v mod 512)) n True)) (kthen (kmod (brelse bp)) (g n)))) w =
      g (int n) (w'\<lparr>inode := (inode s)(ip := (inode s ip)\<lparr>i_lastr := lbn\<rparr>), umem := poke (u_base (u s)) (file_bytes i s (u_offset v) n) (umem s), u := ustep (int n) (u s)\<rparr>)"
    using copy_out [OF rb m(3,1,2) bd refl, of ip lbn g] unfolding fb by blast
  show ?thesis unfolding w'(2) by (rule rest) (use copied_intro [OF w'(1), of ip n lbn] in \<open>simp add: i v\<close>)
qed

lemma readi_loop_ok:
  fixes s :: "'a fss_scheme"
  assumes "can_read ip s" "u_error (u s) = 0" "u_count (u s) \<noteq> 0" "nat (u_count (u s)) < k" "type \<noteq> IFBLK" "type \<noteq> IFMPB"
  shows "kpost (readi_loop k ip dev type s) (\<lambda>_ t. copied ip s (avail (inode s ip) (u s)) t) (\<lambda>_ _ t. \<not> calm s (i_dev (inode s ip))) (\<lambda>_ _. False)"
  using assms
proof (induction k arbitrary: s dev)
  case (Suc k)
  define i where "i = inode s ip" define v where "v = u s" define lbn where "lbn = u_offset v div 512" define d where "d = i_dev i"
  note cr = Suc.prems(1)
  have f: "file_ok i s" "no_resid s" "bio_inv s" "dev_ok s d" "d \<noteq> NODEV" and bt: "\<forall>b. in_range s d b \<longrightarrow> bytes (lcont s d b)"
    using cr by (auto simp: can_read_def file_ok_def dev_ok_def i_def d_def)
  show ?case
  proof (cases "cint (i_size i - u_offset v) \<le> 0")
    case True
    have "cint (i_size i - u_offset v) = i_size i - u_offset v" using cr by (intro cint_id) (auto simp: can_read_def i_def v_def)
    then have "avail i v = 0" using True by (simp add: avail_def)
    moreover have "readi_loop (Suc k) ip dev type s = Ok () s" using True Suc.prems(5,6) by (simp add: readi_loop.simps(2) krun kret_run i_def v_def Let_def)
    ultimately show ?thesis using copied_none [OF cr] by (simp add: i_def v_def)
  next
    case False
    note tc = turn_count [OF cr i_def v_def False]
    define b where "b = block_of i (lcont s d) lbn" define n where "n = turn_bytes i v"
    have n: "0 < n" "n \<le> avail i v" "nat (u_offset v mod 512) + n \<le> 512" "fits_req n s"
      using tc(2,3,6) Suc.prems(3) by (simp_all add: n_def v_def turn_bytes_def)
    have bo: "b = 0 \<or> in_range s d b" using block_of_range [OF f(1), of lbn] tc(4,5) by (simp add: b_def d_def lbn_def)
    have dat: "(if b = 0 then zeros else lcont s d b) = file_data i s lbn" by (simp add: file_data_def Let_def b_def d_def)
    have bd: "bytes (file_data i s lbn)" using bo bt by (auto simp: dat [symmetric] bytes_def zeros_def)
    define g :: "int \<Rightarrow> (unit, 'a fss_scheme) kmon" where "g = (\<lambda>n. kbind (kget u) (\<lambda>v. if u_error v = 0 \<and> u_count v \<noteq> 0 \<and> n > 0 then readi_loop k ip d type else kret ()))"
    have rest: "kpost (g (int n) t) (\<lambda>_ t. copied ip s (avail i v) t) (\<lambda>_ _ t. \<not> calm s d) (\<lambda>_ _. False)" if ct: "copied ip s n t" for t
    proof -
      note p = copied_pointers [OF cr ct n(2) [unfolded i_def v_def]]
      have it: "i_dev (inode t ip) = d" "cache_step s t" using ct by (auto simp: copied_def i_def d_def)
      show ?thesis
      proof (cases "u_count (u t) = 0")
        case True
        then have "avail i v = n" using p(2) n(2) by (simp add: avail_def v_def i_def)
        then show ?thesis using True ct by (simp add: g_def)
      next
        case False
        have tr: "copied ip s (avail i v) t'" if "copied ip t (avail (inode t ip) (u t)) t'" for t'
          using copied_trans [OF cr ct that] p(6) n(2) by (simp add: i_def v_def)
        have less: "nat (u_count (u t)) < k" using Suc.prems(3,4) n(1,2) unfolding p(2) avail_def v_def by linarith
        have "kpost (readi_loop k ip d type t) (\<lambda>_ t'. copied ip t (avail (inode t ip) (u t)) t') (\<lambda>_ _ _. \<not> calm t d) (\<lambda>_ _. False)"
          using less Suc.IH [OF can_read_step [OF cr ct n(2) [unfolded i_def v_def]], of d] False p(2,5) n(1) Suc.prems(2,4-6) it(1) by simp
        then have "kpost (readi_loop k ip d type t) (\<lambda>_ t'. copied ip s (avail i v) t') (\<lambda>_ _ t. \<not> calm s d) (\<lambda>_ _. False)"
          by (rule kpost_weaken) (use tr cache_step_calm [OF it(2), of d] in auto)
        then show ?thesis using False n(1) p(5) Suc.prems(2) by (simp add: g_def)
      qed
    qed
    show ?thesis unfolding readi_turn [OF Suc.prems(5,6) i_def v_def False cr g_def [unfolded d_def]] i_def [symmetric] v_def [symmetric] d_def [symmetric] lbn_def [symmetric]
      n_def [symmetric]
    proof (rule kpost_bindI, rule bmap_ok [where ip = ip and d = d and s = s])
      fix r t assume rt: "rd_step s t \<and> ra_ok d t \<and> r = hole_or (block_of (inode s ip) (lcont s d) lbn)"
      then have st: "rd_step s t" and r: "r = hole_or b" by (auto simp: b_def i_def)
      note dv = cache_step_devs [OF rd_cache_step [OF st]]
      have nr: "no_resid t" using st f(2) by (simp add: rd_step_def cache_step_def)
      have lc: "(if b = 0 then zeros else lcont t d b) = file_data i s lbn" using bo cache_step_lcont [OF rd_cache_step [OF st] f(5)] dat by auto
      have et: "u_error (u t) = 0" using rd_step_user [OF st] Suc.prems(2) by simp
      have "kpost (kbind (if r < 0 then kbind geteblk (\<lambda>bp. kthen (kmod (clrbuf bp)) (kret bp))
                  else if i_lastr i + 1 = lbn then breada d r (rablock t) else bread d r) (\<lambda>bp. kthen (imod ip (\<lambda>j. j\<lparr>i_lastr := lbn\<rparr>))
           (kbind (kget (\<lambda>s. b_resid (bufs s bp))) (\<lambda>resid. let n = umin (int n) (BSIZE - resid) in
            kthen (kwhen (n \<noteq> 0) (iomove bp (nat (u_offset v mod 512)) n True)) (kthen (kmod (brelse bp)) (g n))))) t)
        (\<lambda>_ t. copied ip s (avail i v) t) (\<lambda>_ _ t. \<not> calm s d) (\<lambda>_ _. False)"
        unfolding r by (rule kpost_bindI, rule fetch_ok [where b = b and d = d and s = t])
          (use dv f bo nr rt lc ready_trans [OF st] turn_copy [where g = g, OF cr i_def v_def False Suc.prems(3) [folded v_def] lbn_def n_def bd _ rest] cache_step_calm [OF rd_cache_step [OF st], of d] in auto)
      then show "kpost (kbind (uget u_error) (\<lambda>e. if e \<noteq> 0 then kret () else kbind (kget rablock) (\<lambda>ra.
          kbind (if r < 0 then kbind geteblk (\<lambda>bp. kthen (kmod (clrbuf bp)) (kret bp))
                  else if i_lastr i + 1 = lbn then breada d r ra else bread d r) (\<lambda>bp. kthen (imod ip (\<lambda>j. j\<lparr>i_lastr := lbn\<rparr>))
           (kbind (kget (\<lambda>s. b_resid (bufs s bp))) (\<lambda>resid. let n = umin (int n) (BSIZE - resid) in
            kthen (kwhen (n \<noteq> 0) (iomove bp (nat (u_offset v mod 512)) n True)) (kthen (kmod (brelse bp)) (g n))))))) t)
        (\<lambda>_ t. copied ip s (avail i v) t) (\<lambda>_ _ t. \<not> calm s d) (\<lambda>_ _. False)"
        by (simp only: kpost_bind kpost_uget kpost_get et if_False simp_thms)
    qed (use f tc(4,5) in \<open>auto simp: i_def d_def lbn_def\<close>)
  qed
qed simp

section \<open>The property\<close>

lemma file_bytes_flag [simp]: "file_bytes (i\<lparr>i_flag := f\<rparr>) s off n = file_bytes i s off n"
proof -
  have "block_of (i\<lparr>i_flag := f\<rparr>) c b = block_of i c b" for c b by (simp add: block_of_def)
  then show ?thesis by (simp add: file_bytes_def file_data_def Let_def)
qed

lemma file_bytes_inode [simp]: "file_bytes i (s\<lparr>inode := x\<rparr>) off n = file_bytes i s off n"
  by (simp add: file_bytes_def file_data_def Let_def)

lemma can_read_flag:
  assumes "can_read ip s" "s' = s\<lparr>inode := (inode s)(ip := (inode s ip)\<lparr>i_flag := f\<rparr>)\<rparr>"
  shows "can_read ip s'" "cache_step s s'" "avail (inode s' ip) (u s') = avail (inode s ip) (u s)"
proof -
  have c: "file_ok (inode s ip) s" using assms(1) by (simp add: can_read_def)
  then show cs: "cache_step s s'" using cache_step_refl [of s] by (simp add: assms(2) cache_step_other file_ok_def)
  show a: "avail (inode s' ip) (u s') = avail (inode s ip) (u s)" by (simp add: assms(2) avail_def)
  have "file_ok (inode s' ip) s'" using file_ok_step [OF cs c] by (simp add: assms(2) file_ok_def)
  moreover have "mapped a n s' = mapped a n s" for a n by (simp add: assms(2) mapped_def)
  ultimately show "can_read ip s'" using assms(1) a by (simp add: can_read_def assms(2))
qed

definition plain :: "inode \<Rightarrow> bool" where
  "plain i \<longleftrightarrow> i_mode i AND IFMT \<notin> {IFBLK, IFMPB, IFCHR, IFMPC}"

text \<open>
  C4: \<^verbatim>\<open>readi\<close> of a file that is no device delivers exactly the requested part of the file: the bytes from \<^verbatim>\<open>u_offset\<close> on, at most
  \<^verbatim>\<open>u_count\<close> of them and none behind the end of the file, as the blocks of the file and its holes define them, are at \<^verbatim>\<open>u_base\<close>
  in the memory of the process, \<^verbatim>\<open>u_base\<close>, \<^verbatim>\<open>u_offset\<close> and \<^verbatim>\<open>u_count\<close> have moved by their number, and nothing else of the process or of the
  file system has changed but the access mark and the last block read of the inode. Read-ahead or not, it returns; it sleeps only when
  somebody holds a buffer of the device or fewer than two buffers are available.
\<close>

theorem readi_reads:
  assumes "can_read ip s" "u_error (u s) = 0" "plain (inode s ip)"
  shows "case readi cdev ip s of
      Ok _ t \<Rightarrow> if u_count (u s) = 0 then t = s
        else \<exists>l. inode t = (inode s)(ip := (inode s ip)\<lparr>i_flag := i_flag (inode s ip) \<union> {IACC}, i_lastr := l\<rparr>) \<and>
          umem t = poke (u_base (u s)) (file_bytes (inode s ip) s (u_offset (u s)) (avail (inode s ip) (u s))) (umem s) \<and>
          u t = ustep (int (avail (inode s ip) (u s))) (u s) \<and> cache_step s t \<and> mount t = mount s \<and> file_t t = file_t s \<and> proc t = proc s
    | Slept c p t \<Rightarrow> \<not> calm s (i_dev (inode s ip))
    | Panicked m t \<Rightarrow> False
    | Spun \<Rightarrow> False"
proof (cases "u_count (u s) = 0")
  case True
  then show ?thesis by (simp add: readi_def krun kret_run)
next
  case False
  define s' where "s' = s\<lparr>inode := (inode s)(ip := (inode s ip)\<lparr>i_flag := i_flag (inode s ip) \<union> {IACC}\<rparr>)\<rparr>"
  let ?t = "i_mode (inode s ip) AND IFMT" let ?d = "short (i_addr (inode s ip) ! 0)"
  note cf = can_read_flag [OF assms(1) s'_def]
  have t: "?t \<noteq> IFBLK" "?t \<noteq> IFMPB" "?t \<noteq> IFCHR" "?t \<noteq> IFMPC" using assms(3) by (auto simp: plain_def)
  have u': "u s' = u s" "umem s' = umem s" "inode s' ip = (inode s ip)\<lparr>i_flag := i_flag (inode s ip) \<union> {IACC}\<rparr>" "mount s' = mount s"
    "file_t s' = file_t s" "proc s' = proc s" "i_dev (inode s' ip) = i_dev (inode s ip)" by (simp_all add: s'_def)
  have "\<not> u_offset (u s) < 0" using assms(1) by (auto simp: can_read_def)
  then have e: "readi cdev ip s = readi_loop (Suc (nat (u_count (u s)))) ip ?d ?t s'"
    using False t by (simp add: readi_def krun iset_def s'_def Let_def)
  have cm: "calm s d \<Longrightarrow> calm s' d" for d using cache_step_calm [OF cf(2)] .
  have fb: "file_bytes (inode s' ip) s' a n = file_bytes (inode s ip) s a n" for a n unfolding u'(3) by (simp add: s'_def)
  have "kpost (readi cdev ip s) (\<lambda>_ t. copied ip s' (avail (inode s ip) (u s)) t) (\<lambda>_ _ t. \<not> calm s (i_dev (inode s ip))) (\<lambda>_ _. False)"
    unfolding e by (rule kpost_weaken [OF readi_loop_ok [OF cf(1), of "Suc (nat (u_count (u s)))" ?t ?d]])
      (use False assms(2) t u' cf(3) cm in auto)
  then show ?thesis using False cache_step_trans [OF cf(2)]
    by (cases "readi cdev ip s") (auto simp: copied_def u' fb, auto simp: s'_def)
qed

lemma bytes_put: "bytes xs \<Longrightarrow> bytes b \<Longrightarrow> bytes (put_bytes p xs b)"
  by (auto simp: bytes_def put_bytes_def dest!: in_set_takeD in_set_dropD)

lemma bytes_demo: "bytes demo_sb" "bytes zeros"
proof -
  show z: "bytes zeros" by (simp add: bytes_def zeros_def)
  have "bytes (enc n v)" for n v using enc_bytes by (auto simp: bytes_def)
  with z show "bytes demo_sb" unfolding demo_sb_def set_s_free_def set_s_nfree_def by (intro bytes_put)
qed

text \<open>A process reads 1000 bytes from the start of the demonstration file of 600 bytes.\<close>

definition demo_read :: fss where
  "demo_read = demo_st\<lparr>u := user0\<lparr>u_count := 1000, u_base := 100\<rparr>, umem := (\<lambda>a. if 100 \<le> a \<and> a < 2000 then Some 255 else None)\<rparr>"

lemma no_resid_binit: "no_resid s \<Longrightarrow> no_resid (binit s)"
proof -
  have b: "no_resid t \<Longrightarrow> no_resid (binit_buf i t)" for i and t :: "'a bst_scheme"
    unfolding binit_buf_def Let_def by (intro no_resid_lists no_resid_bmod) auto
  have d: "no_resid t \<Longrightarrow> no_resid (binit_dev p t)" for p and t :: "'a bst_scheme"
    by (auto simp: binit_dev_def Let_def no_resid_def bmod_def)
  have "no_resid t \<Longrightarrow> no_resid (fold binit_buf is t)" for "is" and t :: "'a bst_scheme" by (induction "is" arbitrary: t) (auto simp: b)
  moreover have "no_resid t \<Longrightarrow> no_resid (fold binit_dev ps t)" for ps and t :: "'a bst_scheme" by (induction ps arbitrary: t) (auto simp: d)
  moreover assume "no_resid s"
  ultimately show ?thesis unfolding binit_def Let_def by (simp add: no_resid_bmod)
qed

lemma demo_can_read: "can_read 3 demo_read" "inode demo_read 3 = demo_file" "calm demo_read 0"
proof -
  have c: "cache_step demo_st demo_read" using cache_step_refl [OF demo_st_ok(1)] by (simp add: demo_read_def cache_step_other)
  show i: "inode demo_read 3 = demo_file" by (simp add: demo_read_def demo_st_def)
  have "no_resid fs_boot" by (simp add: no_resid_def fs_boot_def buf0_def)
  then have "no_resid demo_read" using no_resid_binit [of fs_boot] by (simp add: demo_read_def demo_st_def)
  moreover have "lcont demo_read 0 b = lcont demo_st 0 b" if "in_range demo_st 0 b" for b using cache_step_lcont [OF c _ that] by (simp add: NODEV_def)
  moreover have "bytes (lcont demo_st 0 b)" for b using demo_st_ok(4,5) bytes_demo by (cases "b = 1") auto
  ultimately show "can_read 3 demo_read" using file_ok_step [OF c demo_file_ok] cache_step_devs [OF c] unfolding can_read_def i
    by (auto simp: demo_file_def inode0_def demo_read_def user0_def MAXBN_def mapped_def avail_def)
  show "calm demo_read 0" using cache_step_calm [OF c demo_st_ok(3)] .
qed

theorem readi_reads_witness:
  "\<forall>cdev. \<exists>t. readi cdev 3 demo_read = Ok () t \<and> umem t 100 = Some (demo_sb ! 0) \<and> umem t 612 = Some 0 \<and> umem t 700 = Some 255 \<and> u_count (u t) = 400"
proof
  fix cdev :: "fss devsw"
  have u: "u_error (u demo_read) = 0" "u_count (u demo_read) = 1000" "u_base (u demo_read) = 100" "u_offset (u demo_read) = 0" "umem demo_read 700 = Some 255"
    by (simp_all add: demo_read_def user0_def)
  have a: "avail demo_file (u demo_read) = 600" using u by (simp add: avail_def demo_file_def)
  have p: "plain demo_file" by (simp add: plain_def demo_file_def IFMT_def IFBLK_def IFMPB_def IFCHR_def IFMPC_def)
  have d: "i_dev demo_file = 0" by (simp add: demo_file_def inode0_def)
  have c: "cache_step demo_st demo_read" using cache_step_refl [OF demo_st_ok(1)] by (simp add: demo_read_def cache_step_other)
  have "block_of demo_file k 0 = 1" "block_of demo_file k 1 = 9" for k by (simp_all add: block_of_def demo_file_def)
  moreover have "lcont demo_read 0 1 = demo_sb" "lcont demo_read 0 9 = zeros"
    using cache_step_lcont [OF c, of 0] demo_st_ok(4-6) by (simp_all add: NODEV_def)
  ultimately have "file_bytes demo_file demo_read 0 600 ! 0 = demo_sb ! 0" "file_bytes demo_file demo_read 0 600 ! 512 = 0"
    by (simp_all add: file_bytes_def file_data_def d zeros_def)
  with readi_reads [OF demo_can_read(1) u(1), of cdev] demo_can_read(2,3) p d a u
  show "\<exists>t. readi cdev 3 demo_read = Ok () t \<and> umem t 100 = Some (demo_sb ! 0) \<and> umem t 612 = Some 0 \<and> umem t 700 = Some 255 \<and> u_count (u t) = 400"
    by (cases "readi cdev 3 demo_read") (auto simp: poke_def cuint_def)
qed

end
