(* ===== verification/Proc.thy ===== *)
theory Proc
  imports Kstate
begin

text \<open>
  Processes (\<^verbatim>\<open>sys/slp.c\<close> and the signal primitives of \<^verbatim>\<open>sys/sig.c\<close>): sleeping and waking, the run queue, priorities,
  the choice of the next process and of a process id, and the delivery of signals.

  A process pointer is an index into the table. The sleep queues are hashed by the address slept on;
  the hash function of the channels is the parameter \<open>h\<close>. \<^verbatim>\<open>spl\<close> calls only mask interrupts. Saving and resuming
  a context is the machine's; the routines below are what happens between a resume and the next.
\<close>

section \<open>Access\<close>

definition SQSIZE :: nat where "SQSIZE = 64"

definition pget :: "nat \<Rightarrow> (proc \<Rightarrow> 'b) \<Rightarrow> ('b, 'a kst_scheme) kmon" where
  "pget p f = kget (\<lambda>s. f (proc s p))"

definition pmod :: "nat \<Rightarrow> (proc \<Rightarrow> proc) \<Rightarrow> (unit, 'a kst_scheme) kmon" where
  "pmod p f = kmod (\<lambda>s. s\<lparr>proc := (proc s)(p := f (proc s p))\<rparr>)"

lemma krun_proc [krun]:
  "kbind (pget p g) f s = f (g (proc s p)) s" "kthen (pmod p h) n s = n (s\<lparr>proc := (proc s)(p := h (proc s p))\<rparr>)"
  "pmod p h s = Ok () (s\<lparr>proc := (proc s)(p := h (proc s p))\<rparr>)"
  by (simp_all add: pget_def pmod_def krun) (simp add: kmod_def)

section \<open>The run queue\<close>

text \<open>The entries reached from \<open>p\<close> along \<^verbatim>\<open>p_link\<close>, at most \<open>n\<close> of them.\<close>

fun chain :: "nat \<Rightarrow> (nat \<Rightarrow> nat option) \<Rightarrow> nat option \<Rightarrow> nat list" where
  "chain 0 lk p = []"
| "chain (Suc n) lk None = []"
| "chain (Suc n) lk (Some p) = p # chain n lk (lk p)"

definition links :: "'a kst_scheme \<Rightarrow> nat \<Rightarrow> nat option" where
  "links s p = p_link (proc s p)"

definition runq_list :: "'a kst_scheme \<Rightarrow> nat list" where
  "runq_list s = chain NPROC (links s) (runq s)"

definition setrq :: "nat \<Rightarrow> (unit, 'a kst_scheme) kmon" where
  "setrq p = kbind (kget (\<lambda>s. p \<in> set (runq_list s))) (\<lambda>on.
     if on then kprintf (''proc on q'' @ [CHR 0x0A])
     else
       kbind (kget runq) (\<lambda>q.
       kthen (pmod p (\<lambda>x. x\<lparr>p_link := q\<rparr>))
       (kmod (\<lambda>s. s\<lparr>runq := Some p\<rparr>))))"

section \<open>Waking\<close>

text \<open>
  \<open>wakeup\<close> walks a sleep queue, \<open>q\<close> being the process before \<open>p\<close>; it calls \<open>setrun\<close>, which calls \<open>wakeup\<close> again for the
  channel of a sleeping process, and for the swapper when the process is swapped out. The fuel
  bounds the depth of the calls and turns together: a walk, the walk for the swapper inside it, and the call
  that started them.
\<close>

definition WFUEL :: nat where "WFUEL = 4 * NPROC"

fun wakeup_loop :: "nat \<Rightarrow> (chan \<Rightarrow> nat) \<Rightarrow> chan \<Rightarrow> nat option \<Rightarrow> nat option \<Rightarrow> (unit, 'a kst_scheme) kmon"
  and setrun_f :: "nat \<Rightarrow> (chan \<Rightarrow> nat) \<Rightarrow> nat \<Rightarrow> (unit, 'a kst_scheme) kmon" where
  "wakeup_loop 0 h c q po = kspin"
| "wakeup_loop (Suc n) h c q po =
     (case po of
        None \<Rightarrow> kret ()
      | Some p \<Rightarrow> kbind (pget p id) (\<lambda>x.
          if p_wchan x = Some c \<and> p_stat x \<noteq> SZOMB then
            (let sp = p_link x in
             kthen (case q of
                None \<Rightarrow> kmod (\<lambda>s. s\<lparr>slpque := (slpque s)(h c := sp)\<rparr>)
              | Some q \<Rightarrow> pmod q (\<lambda>y. y\<lparr>p_link := sp\<rparr>))
             (kthen (pmod p (\<lambda>x. x\<lparr>p_wchan := None\<rparr>))
             (kthen (setrun_f n h p)
             (wakeup_loop n h c q sp))))
          else wakeup_loop n h c (Some p) (p_link x)))"
| "setrun_f 0 h p = kspin"
| "setrun_f (Suc n) h p =
     kbind (pget p id) (\<lambda>x.
     if p_stat x = SNULL \<or> p_stat x = SZOMB then kpanic ''Running a dead proc''
     else case p_wchan x of
       Some w \<Rightarrow> kbind (kget (\<lambda>s. slpque s (h w))) (wakeup_loop n h w None)
     | None \<Rightarrow>
         kthen (pmod p (\<lambda>x. x\<lparr>p_stat := SRUN\<rparr>))
         (kthen (setrq p)
         (kthen (kmod (\<lambda>s. if p_pri (proc s p) < curpri s then s\<lparr>runrun := cchar (runrun s + 1)\<rparr> else s))
         (kbind (kget runout) (\<lambda>ro.
          if ro \<noteq> 0 \<and> SLOAD \<notin> p_flag x then
            kthen (kmod (\<lambda>s. s\<lparr>runout := 0\<rparr>))
            (kbind (kget (\<lambda>s. slpque s (h Ch_runout))) (wakeup_loop n h Ch_runout None))
          else kret ())))))"

declare wakeup_loop.simps [simp del] setrun_f.simps [simp del]

definition wakeup :: "(chan \<Rightarrow> nat) \<Rightarrow> chan \<Rightarrow> (unit, 'a kst_scheme) kmon" where
  "wakeup h c = kbind (kget (\<lambda>s. slpque s (h c))) (wakeup_loop WFUEL h c None)"

definition setrun :: "(chan \<Rightarrow> nat) \<Rightarrow> nat \<Rightarrow> (unit, 'a kst_scheme) kmon" where
  "setrun h p = setrun_f (WFUEL + 1) h p"

section \<open>Signals\<close>

definition psignal :: "(chan \<Rightarrow> nat) \<Rightarrow> nat \<Rightarrow> int \<Rightarrow> (unit, 'a kst_scheme) kmon" where
  "psignal h p sig =
     (if cuint sig \<ge> int NSIG then kret ()
      else
        kthen (kwhen (sig \<noteq> 0) (pmod p (\<lambda>x. x\<lparr>p_sig := p_sig x \<union> {nat sig}\<rparr>)))
        (kthen (pmod p (\<lambda>x. if p_pri x > PUSER then x\<lparr>p_pri := PUSER\<rparr> else x))
        (kbind (pget p id) (\<lambda>x. kwhen (p_stat x = SSLEEP \<and> p_pri x > PZERO) (setrun h p)))))"

definition signal :: "(chan \<Rightarrow> nat) \<Rightarrow> int \<Rightarrow> int \<Rightarrow> (unit, 'a kst_scheme) kmon" where
  "signal h pgrp sig =
     (if pgrp = 0 then kret ()
      else kfor [0 ..< NPROC] (\<lambda>p. kbind (pget p p_pgrp) (\<lambda>g. kwhen (g = pgrp) (psignal h p sig))))"

definition fsig :: "proc \<Rightarrow> nat" where
  "fsig x = (case find (\<lambda>i. i \<in> p_sig x) [1 ..< NSIG] of None \<Rightarrow> 0 | Some i \<Rightarrow> i)"

fun issig_loop :: "nat \<Rightarrow> nat \<Rightarrow> (nat, 'a kst_scheme) kmon" where
  "issig_loop 0 p = kspin"
| "issig_loop (Suc k) p =
     kbind (pget p id) (\<lambda>x.
     kbind (uget u_signal) (\<lambda>act.
     if p_sig x = {} then kret 0
     else
       (let n = fsig x in
        if act n \<noteq> 1 \<or> STRC \<in> p_flag x then kret n
        else kthen (pmod p (\<lambda>x. x\<lparr>p_sig := p_sig x - {n}\<rparr>)) (issig_loop k p))))"

declare issig_loop.simps [simp del]

text \<open>A turn removes one signal; there are 16.\<close>

definition issig :: "(nat, 'a kst_scheme) kmon" where
  "issig = kbind (uget u_procp) (issig_loop NSIG)"

section \<open>Sleeping\<close>

text \<open>
  The routine up to the switch. The result tells whether the process gives up the processor; otherwise a
  signal is pending and control goes to the context saved in \<^verbatim>\<open>u_qsav\<close>.
\<close>

definition sleep :: "(chan \<Rightarrow> nat) \<Rightarrow> chan \<Rightarrow> int \<Rightarrow> (bool, 'a kst_scheme) kmon" where
  "sleep h c pri =
     kbind (uget u_procp) (\<lambda>rp.
     kbind (kget (\<lambda>s. slpque s (h c))) (\<lambda>hd.
     kthen (pmod rp (\<lambda>x. x\<lparr>p_stat := SSLEEP, p_wchan := Some c, p_pri := pri, p_link := hd\<rparr>))
     (kthen (kmod (\<lambda>s. s\<lparr>slpque := (slpque s)(h c := Some rp)\<rparr>))
     (if pri > PZERO then
        kbind issig (\<lambda>n.
        if n \<noteq> 0 then
          kthen (pmod rp (\<lambda>x. x\<lparr>p_wchan := None, p_stat := SRUN\<rparr>))
          (kbind (pget rp p_link) (\<lambda>l.
           kthen (kmod (\<lambda>s. s\<lparr>slpque := (slpque s)(h c := l)\<rparr>)) (kret False)))
        else
          kbind (kget runin) (\<lambda>r.
          kthen (kwhen (r \<noteq> 0) (kthen (kmod (\<lambda>s. s\<lparr>runin := 0\<rparr>)) (wakeup h Ch_runin)))
          (kret True)))
      else kret True))))"

section \<open>Priorities and the choice of the next process\<close>

definition setpri :: "nat \<Rightarrow> (int, 'a kst_scheme) kmon" where
  "setpri pp =
     kbind (pget pp id) (\<lambda>x.
     let p = (p_cpu x mod 256) div 16 + (PUSER + p_nice x - NZERO);
         p = (if p > 127 then 127 else p) in
     kthen (kmod (\<lambda>s. if p < curpri s then s\<lparr>runrun := cchar (runrun s + 1)\<rparr> else s))
     (kthen (pmod pp (\<lambda>x. x\<lparr>p_pri := p\<rparr>))
     (kret p)))"

text \<open>
  The search of \<open>swtch\<close> along the run queue, with the previous process, the best one so far with its
  predecessor, and its priority.
\<close>

fun swtch_scan :: "(nat \<Rightarrow> proc) \<Rightarrow> nat list \<Rightarrow> nat option \<Rightarrow> (nat \<times> nat option) option \<Rightarrow> int \<Rightarrow> (nat \<times> nat option) option \<times> int" where
  "swtch_scan pr [] q best n = (best, n)"
| "swtch_scan pr (p # ps) q best n =
     (if p_stat (pr p) = SRUN \<and> SLOAD \<in> p_flag (pr p) \<and> p_pri (pr p) < n
      then swtch_scan pr ps (Some p) (Some (p, q)) (p_pri (pr p))
      else swtch_scan pr ps (Some p) best n)"

text \<open>
  One turn of the loop of \<open>swtch\<close> in process 0. The result is the process to resume and whether
  it continues at \<^verbatim>\<open>u_ssav\<close> (it was swapped or is new) or at \<^verbatim>\<open>u_rsav\<close>; \<open>None\<close> means idling.
\<close>

definition swtch_select :: "((nat \<times> bool) option, 'a kst_scheme) kmon" where
  "swtch_select =
     kthen (kmod (\<lambda>s. s\<lparr>runrun := 0\<rparr>))
     (kbind (kget (\<lambda>s. swtch_scan (proc s) (runq_list s) None None 128)) (\<lambda>(best, n).
      case best of
        None \<Rightarrow> kret None
      | Some (p, q) \<Rightarrow>
          kbind (pget p id) (\<lambda>x.
          kthen (case q of
             None \<Rightarrow> kmod (\<lambda>s. s\<lparr>runq := p_link x\<rparr>)
           | Some q \<Rightarrow> pmod q (\<lambda>y. y\<lparr>p_link := p_link x\<rparr>))
          (kthen (kmod (\<lambda>s. s\<lparr>curpri := n\<rparr>))
          (kthen (pmod p (\<lambda>x. x\<lparr>p_flag := p_flag x - {SSWAP}\<rparr>))
          (kret (Some (p, SSWAP \<in> p_flag x))))))))"

definition qswtch :: "(unit, 'a kst_scheme) kmon" where
  "qswtch = kbind (uget u_procp) setrq"

section \<open>Process ids\<close>

text \<open>The loop \<open>retry\<close> of \<open>newproc\<close>. A turn uses up one candidate, at most twice \<open>NPROC\<close> are taken, and one turn may wrap.\<close>

fun newpid_loop :: "nat \<Rightarrow> (int, 'a kst_scheme) kmon" where
  "newpid_loop 0 = kspin"
| "newpid_loop (Suc k) =
     kthen (kmod (\<lambda>s. s\<lparr>mpid := cint (mpid s + 1)\<rparr>))
     (kbind (kget mpid) (\<lambda>m.
      if m \<ge> 30000 then kthen (kmod (\<lambda>s. s\<lparr>mpid := 0\<rparr>)) (newpid_loop k)
      else
        kbind (kget (\<lambda>s. list_ex (\<lambda>p. p_pid (proc s p) = m \<or> p_pgrp (proc s p) = m) [0 ..< NPROC])) (\<lambda>used.
        if used then newpid_loop k else kret m)))"

declare newpid_loop.simps [simp del]

definition newpid :: "(int, 'a kst_scheme) kmon" where
  "newpid = newpid_loop (2 * NPROC + 2)"

end
