(* ===== verification/Text.thy ===== *)
theory Text
  imports Rdwri Rmap Proc
begin

text \<open>
  Shared text segments (\<^verbatim>\<open>sys/text.c\<close>, \<^verbatim>\<open>h/text.h\<close>): the text table, its locks, and the release of
  core and swap space. A text pointer is an index into the table. \<^verbatim>\<open>mfree\<close> and \<^verbatim>\<open>malloc\<close> past the end of their
  map have no defined effect in the source; here that ends the run in \<open>Panicked ''wild access''\<close>.
\<close>

section \<open>State\<close>

datatype xflag = XTRC | XWRIT | XLOAD | XLOCK | XWANT

record text_s =
  x_daddr :: int
  x_caddr :: int
  x_size :: int
  x_iptr :: "nat option"
  x_count :: int
  x_ccount :: int
  x_flag :: "xflag set"

record xst = fss +
  text_t :: "nat \<Rightarrow> text_s"
  swapmap :: rmap
  coremap :: rmap
  mpxip :: "nat option"

definition NTEXT :: nat where "NTEXT = 40"

definition xmod :: "nat \<Rightarrow> (text_s \<Rightarrow> text_s) \<Rightarrow> (unit, 'a xst_scheme) kmon" where
  "xmod xp f = kmod (\<lambda>s. s\<lparr>text_t := (text_t s)(xp := f (text_t s xp))\<rparr>)"

definition xget :: "nat \<Rightarrow> (text_s \<Rightarrow> 'b) \<Rightarrow> ('b, 'a xst_scheme) kmon" where
  "xget xp f = kget (\<lambda>s. f (text_t s xp))"

definition wild :: "('b, 's) kmon" where
  "wild = kpanic ''wild access''"

definition mfree_swap :: "int \<Rightarrow> int \<Rightarrow> (unit, 'a xst_scheme) kmon" where
  "mfree_swap sz a = kbind (kget (\<lambda>s. mfree_map (swapmap s) sz a)) (\<lambda>r.
     case r of None \<Rightarrow> wild | Some m \<Rightarrow> kmod (\<lambda>s. s\<lparr>swapmap := m\<rparr>))"

definition mfree_core :: "int \<Rightarrow> int \<Rightarrow> (unit, 'a xst_scheme) kmon" where
  "mfree_core sz a = kbind (kget (\<lambda>s. mfree_map (coremap s) sz a)) (\<lambda>r.
     case r of None \<Rightarrow> wild | Some m \<Rightarrow> kmod (\<lambda>s. s\<lparr>coremap := m\<rparr>))"

definition malloc_swap :: "int \<Rightarrow> (int, 'a xst_scheme) kmon" where
  "malloc_swap sz = kbind (kget (\<lambda>s. malloc (swapmap s) sz)) (\<lambda>r.
     case r of None \<Rightarrow> wild | Some (a, m) \<Rightarrow> kthen (kmod (\<lambda>s. s\<lparr>swapmap := m\<rparr>)) (kret a))"

section \<open>Locks\<close>

definition xlock :: "nat \<Rightarrow> (unit, 'a xst_scheme) kmon" where
  "xlock xp = kbind (xget xp x_flag) (\<lambda>fl.
     if XLOCK \<in> fl then kthen (xmod xp (\<lambda>x. x\<lparr>x_flag := x_flag x \<union> {XWANT}\<rparr>)) (ksleep (Ch_text xp) PSWP)
     else xmod xp (\<lambda>x. x\<lparr>x_flag := x_flag x \<union> {XLOCK}\<rparr>))"

definition xunlock :: "nat \<Rightarrow> (unit, 'a xst_scheme) kmon" where
  "xunlock xp = kbind (xget xp x_flag) (\<lambda>fl.
     kthen (kwhen (XWANT \<in> fl) (kwakeup (Ch_text xp))) (xmod xp (\<lambda>x. x\<lparr>x_flag := x_flag x - {XLOCK, XWANT}\<rparr>)))"

section \<open>Release\<close>

definition xccdec :: "nat option \<Rightarrow> (unit, 'a xst_scheme) kmon" where
  "xccdec xo = (case xo of
     None \<Rightarrow> kret ()
   | Some xp \<Rightarrow> kbind (xget xp x_ccount) (\<lambda>cc.
       if cc = 0 then kret ()
       else
         kthen (xlock xp)
         (kthen (xmod xp (\<lambda>x. x\<lparr>x_ccount := cchar (x_ccount x - 1)\<rparr>))
         (kbind (xget xp id) (\<lambda>x.
          kthen (kwhen (x_ccount x = 0)
            (kthen (kwhen (XWRIT \<in> x_flag x)
               (kthen (xmod xp (\<lambda>x. x\<lparr>x_flag := x_flag x - {XWRIT}\<rparr>)) (swap (x_daddr x) (x_caddr x) (x_size x) {})))
             (mfree_core (x_size x) (x_caddr x))))
          (xunlock xp))))))"

text \<open>The end of \<^verbatim>\<open>xfree\<close> and \<^verbatim>\<open>xuntext\<close>: the table's reference to the inode is given up.\<close>

definition text_iput :: "nat \<Rightarrow> (unit, 'a xst_scheme) kmon" where
  "text_iput ip =
     kthen (iclr ip {ITEXT})
     (kbind (iget_f ip i_flag) (\<lambda>fl.
      if ILOCK \<in> fl then imod ip (\<lambda>i. i\<lparr>i_count := cchar (i_count i - 1)\<rparr>) else iput ip))"

definition xfree :: "(unit, 'a xst_scheme) kmon" where
  "xfree =
     kbind (uget u_procp) (\<lambda>p.
     kbind (kget (\<lambda>s. p_textp (proc s p))) (\<lambda>r.
     case r of
       None \<Rightarrow> kret ()
     | Some xp \<Rightarrow>
         kthen (xlock xp)
         (kthen (xmod xp (\<lambda>x. x\<lparr>x_flag := x_flag x - {XLOCK}\<rparr>))
         (kthen (pmod p (\<lambda>q. q\<lparr>p_textp := None\<rparr>))
         (kbind (xget xp (\<lambda>x. the (x_iptr x))) (\<lambda>ip.
          kthen (xmod xp (\<lambda>x. x\<lparr>x_count := cchar (x_count x - 1)\<rparr>))
          (kbind (xget xp id) (\<lambda>x.
           kbind (iget_f ip i_mode) (\<lambda>m.
           if x_count x = 0 \<and> m AND ISVTX = 0 then
             kthen (xmod xp (\<lambda>x. x\<lparr>x_iptr := None\<rparr>))
             (kthen (mfree_swap (ctod (x_size x)) (x_daddr x))
             (kthen (mfree_core (x_size x) (x_caddr x))
             (text_iput ip)))
           else xccdec (Some xp))))))))))"

definition xuntext :: "nat \<Rightarrow> (unit, 'a xst_scheme) kmon" where
  "xuntext xp =
     kthen (xlock xp)
     (kbind (xget xp id) (\<lambda>x.
      if x_count x \<noteq> 0 then xunlock xp
      else
        (let ip = the (x_iptr x) in
         kthen (xmod xp (\<lambda>x. x\<lparr>x_flag := x_flag x - {XLOCK}, x_iptr := None\<rparr>))
         (kthen (mfree_swap (ctod (x_size x)) (x_daddr x))
         (text_iput ip)))))"

definition xumount :: "int \<Rightarrow> (unit, 'a xst_scheme) kmon" where
  "xumount dev = kfor [0 ..< NTEXT] (\<lambda>xp.
     kbind (xget xp x_iptr) (\<lambda>r.
     case r of
       None \<Rightarrow> kret ()
     | Some ip \<Rightarrow> kbind (iget_f ip i_dev) (\<lambda>d. kwhen (dev = d) (xuntext xp))))"

text \<open>
  The first test of \<^verbatim>\<open>xrele\<close>, \<^verbatim>\<open>ip->i_flag&ITEXT==0\<close>, is \<^verbatim>\<open>i_flag & (ITEXT==0)\<close> and never returns: the table
  is always searched.
\<close>

definition xrele :: "nat \<Rightarrow> (unit, 'a xst_scheme) kmon" where
  "xrele ip = kfor [0 ..< NTEXT] (\<lambda>xp. kbind (xget xp x_iptr) (\<lambda>r. kwhen (r = Some ip) (xuntext xp)))"

section \<open>Swapping a process out\<close>

definition xswap :: "nat \<Rightarrow> bool \<Rightarrow> int \<Rightarrow> (unit, 'a xst_scheme) kmon" where
  "xswap p ff os =
     kbind (kget (\<lambda>s. proc s p)) (\<lambda>q.
     let os = (if os = 0 then p_size q else os) in
     kbind (malloc_swap (ctod (p_size q))) (\<lambda>a.
     if a = 0 then kpanic ''out of swap space''
     else
       kthen (pmod p (\<lambda>q. q\<lparr>p_flag := p_flag q \<union> {SLOCK}\<rparr>))
       (kthen (xccdec (p_textp q))
       (kthen (swap a (p_addr q) os {})
       (kthen (kwhen ff (mfree_core os (p_addr q)))
       (kthen (pmod p (\<lambda>q. q\<lparr>p_addr := short a, p_flag := p_flag q - {SLOAD, SLOCK}, p_time := 0\<rparr>))
       (kbind (kget runout) (\<lambda>r.
        kwhen (r \<noteq> 0) (kthen (kmod (\<lambda>s. s\<lparr>runout := 0\<rparr>)) (kwakeup Ch_runout))))))))))"

section \<open>Lemmas\<close>

lemma krun_text [krun]:
  "kbind (xget xp g) f s = f (g (text_t s xp)) s" "kthen (xmod xp h) n s = n (s\<lparr>text_t := (text_t s)(xp := h (text_t s xp))\<rparr>)"
  "xmod xp h s = Ok () (s\<lparr>text_t := (text_t s)(xp := h (text_t s xp))\<rparr>)"
  by (simp_all add: xget_def xmod_def krun) (simp add: kmod_def)

end
