(* ===== verification/Fio.thy ===== *)
theory Fio
  imports Text
begin

text \<open>
  Open files (\<^verbatim>\<open>sys/fio.c\<close>): descriptors and the file table, access permission, and the calls through the
  device switches on opening and closing special files. A file pointer is an index into the file
  table. The device switches are an argument of the routines that dispatch through them.
\<close>

record 's switches =
  cdevsw :: "'s devsw"
  bdevsw :: "'s devsw"
  nchrdev :: int

definition ASU :: int where "ASU = 2"

definition filemod :: "nat \<Rightarrow> (file_s \<Rightarrow> file_s) \<Rightarrow> (unit, 'a fss_scheme) kmon" where
  "filemod fp f = kmod (\<lambda>s. s\<lparr>file_t := (file_t s)(fp := f (file_t s fp))\<rparr>)"

definition fget :: "nat \<Rightarrow> (file_s \<Rightarrow> 'b) \<Rightarrow> ('b, 'a fss_scheme) kmon" where
  "fget fp f = kget (\<lambda>s. f (file_t s fp))"

section \<open>Descriptors\<close>

definition getf :: "int \<Rightarrow> (nat option, 'a kst_scheme) kmon" where
  "getf f = kbind (uget u_ofile) (\<lambda>ofile.
     if 0 \<le> f \<and> f < int NOFILE \<and> ofile (nat f) \<noteq> None then kret (ofile (nat f))
     else kthen (seterr EBADF) (kret None))"

definition ufalloc :: "(int, 'a kst_scheme) kmon" where
  "ufalloc = kbind (uget u_ofile) (\<lambda>ofile.
     case find (\<lambda>i. ofile i = None) [0 ..< NOFILE] of
       Some i \<Rightarrow> kthen (umod (\<lambda>v. v\<lparr>r_val1 := int i, u_pofile := (u_pofile v)(i := 0)\<rparr>)) (kret (int i))
     | None \<Rightarrow> kthen (seterr EMFILE) (kret (-1)))"

definition falloc :: "(nat option, 'a fss_scheme) kmon" where
  "falloc = kbind ufalloc (\<lambda>i.
     if i < 0 then kret None
     else kbind (kget (\<lambda>s. find (\<lambda>fp. f_count (file_t s fp) = 0) [0 ..< NFILE])) (\<lambda>r.
       case r of
         Some fp \<Rightarrow>
           kthen (umod (\<lambda>v. v\<lparr>u_ofile := (u_ofile v)(nat i := Some fp)\<rparr>))
           (kthen (filemod fp (\<lambda>f. f\<lparr>f_count := cchar (f_count f + 1), f_offset := 0\<rparr>))
           (kret (Some fp)))
       | None \<Rightarrow> kthen (kprint (''no file'' @ [CHR 0x0A]) []) (kthen (seterr ENFILE) (kret None))))"

section \<open>Special files\<close>

definition openi :: "'a fss_scheme switches \<Rightarrow> nat \<Rightarrow> int \<Rightarrow> (unit, 'a fss_scheme) kmon" where
  "openi sw ip rw = kbind (iget_f ip id) (\<lambda>i.
     let dev = short (i_addr i ! 0); maj = major dev; type = i_mode i AND IFMT in
     if type = IFCHR \<or> type = IFMPC then
       (if maj \<ge> cuint (nchrdev sw) then seterr ENXIO else d_open (cdevsw sw) dev rw)
     else if type = IFBLK \<or> type = IFMPB then
       kbind (kget nblkdev) (\<lambda>n. if maj \<ge> cuint n then seterr ENXIO else d_open (bdevsw sw) dev rw)
     else kret ())"

text \<open>The device handler is called only when no other open file refers to the inode.\<close>

definition close_dev :: "(unit, 'a fss_scheme) kmon \<Rightarrow> nat \<Rightarrow> fflag set \<Rightarrow> (unit, 'a fss_scheme) kmon" where
  "close_dev cfunc ip flag = kbind (kget (\<lambda>s. list_ex (\<lambda>fp. f_count (file_t s fp) \<noteq> 0 \<and> f_inode (file_t s fp) = ip) [0 ..< NFILE])) (\<lambda>more.
     if flag \<inter> {FMPX, FMPY} = {} \<and> more then kret () else cfunc)"

definition closef :: "'a fss_scheme switches \<Rightarrow> nat option \<Rightarrow> (unit, 'a fss_scheme) kmon" where
  "closef sw fpo = (case fpo of
     None \<Rightarrow> kret ()
   | Some fp \<Rightarrow> kbind (fget fp id) (\<lambda>f.
       if f_count f > 1 then filemod fp (\<lambda>f. f\<lparr>f_count := cchar (f_count f - 1)\<rparr>)
       else
         (let ip = f_inode f; flag = f_flag f; cp = f_offset f in
          kbind (iget_f ip id) (\<lambda>i.
          let dev = short (i_addr i ! 0); type = i_mode i AND IFMT in
          kthen (plock ip)
          (kthen (filemod fp (\<lambda>f. f\<lparr>f_count := 0\<rparr>))
          (kthen (kwhen (FPIPE \<in> flag)
             (kthen (imod ip (\<lambda>i. i\<lparr>i_mode := ushort (i_mode i AND NOT (IREAD OR IWRITE))\<rparr>))
             (kthen (kwakeup (Ch_inode1 ip)) (kwakeup (Ch_inode2 ip)))))
          (kthen (iput ip)
          (if type = IFCHR \<or> type = IFMPC then close_dev (d_close (cdevsw sw) dev flag cp) ip flag
           else if type = IFBLK \<or> type = IFMPB then close_dev (d_close (bdevsw sw) dev flag cp) ip flag
           else kret ()))))))))"

section \<open>Permissions\<close>

text \<open>The tests of \<open>access\<close> for writing; the result is the error, 0 for none.\<close>

definition access_write :: "nat \<Rightarrow> (int, 'a xst_scheme) kmon" where
  "access_write ip =
     kbind (iget_f ip i_dev) (\<lambda>d.
     kbind (getfs d) (\<lambda>fp.
     kbind (bget fp s_ronly) (\<lambda>ro.
     if ro \<noteq> 0 then kret EROFS
     else
       kbind (iget_f ip i_flag) (\<lambda>fl.
       kthen (kwhen (ITEXT \<in> fl) (xrele ip))
       (kbind (iget_f ip i_flag) (\<lambda>fl. kret (if ITEXT \<in> fl then ETXTBSY else 0)))))))"

text \<open>The bit of \<open>mode\<close>, shifted to the owner, group or other field.\<close>

definition mode_for :: "user \<Rightarrow> inode \<Rightarrow> int \<Rightarrow> int" where
  "mode_for v i m = (if u_uid v = i_uid i then m else if u_gid v = i_gid i then drop_bit 3 m else drop_bit 3 (drop_bit 3 m))"

definition access :: "nat \<Rightarrow> int \<Rightarrow> (bool, 'a xst_scheme) kmon" where
  "access ip m =
     kbind (if m = IWRITE then access_write ip else kret 0) (\<lambda>e.
     if e \<noteq> 0 then kthen (seterr e) (kret True)
     else
       kbind (kget u) (\<lambda>v.
       kbind (iget_f ip id) (\<lambda>i.
       if u_uid v = 0 then kret False
       else if i_mode i AND mode_for v i m \<noteq> 0 then kret False
       else kthen (seterr EACCES) (kret True))))"

definition suser :: "(bool, 'a kst_scheme) kmon" where
  "suser = kbind (uget u_uid) (\<lambda>uid.
     if uid = 0 then kthen (umod (\<lambda>v. v\<lparr>u_acflag := u_acflag v OR ASU\<rparr>)) (kret True)
     else kthen (seterr EPERM) (kret False))"

lemma krun_fio [krun]:
  "kbind (fget fp g) f s = f (g (file_t s fp)) s" "kthen (filemod fp h) n s = n (s\<lparr>file_t := (file_t s)(fp := h (file_t s fp))\<rparr>)"
  by (simp_all add: fget_def filemod_def krun)

lemma run_fio [krun]: "filemod fp h s = Ok () (s\<lparr>file_t := (file_t s)(fp := h (file_t s fp))\<rparr>)"
  by (simp add: filemod_def kmod_def)

end
