(* ===== verification/Namei.thy ===== *)
theory Namei
  imports Fio
begin

text \<open>
  Path names (\<^verbatim>\<open>sys/nami.c\<close>, and \<^verbatim>\<open>owner\<close> of \<^verbatim>\<open>sys/fio.c\<close>). The three labels of \<^verbatim>\<open>namei\<close> are three loops: \<open>cloop\<close> takes the
  next component, \<open>seloop\<close> enters the directory (again after \<^verbatim>\<open>..\<close> has crossed a mount
  point) and \<open>eloop\<close> scans its entries. The function that gives the next character is an argument.

  Fuel: \<open>cloop\<close> and the character loops take at least one character per turn, and an address has 32 bits
  (\<open>ADDRS\<close>); \<open>eloop\<close> advances one entry of 16 bytes per turn; \<open>seloop\<close> leaves one mounted file system per turn.
\<close>

section \<open>Characters of the name\<close>

definition ADDRS :: nat where "ADDRS = 2 ^ 32"

definition schar :: "(int, 'a kst_scheme) kmon" where
  "schar = kbind (kget (\<lambda>s. core s (u_dirp (u s)))) (\<lambda>c. kthen (umod (\<lambda>v. v\<lparr>u_dirp := u_dirp v + 1\<rparr>)) (kret (c mod 256)))"

definition uchar :: "(int, 'a kst_scheme) kmon" where
  "uchar = kbind (kget (\<lambda>s. umem s (u_dirp (u s)))) (\<lambda>r.
     kthen (umod (\<lambda>v. v\<lparr>u_dirp := u_dirp v + 1\<rparr>))
     (case r of
        None \<Rightarrow> kthen (seterr EFAULT) (kret (-1))
      | Some c \<Rightarrow> kret (c mod 256)))"

text \<open>The character codes of slash, dot and exclamation mark.\<close>

definition SLASH :: int where "SLASH = 47"
definition DOT :: int where "DOT = 46"
definition BANG :: int where "BANG = 33"

fun skip_slash :: "nat \<Rightarrow> (int, 's) kmon \<Rightarrow> int \<Rightarrow> (int, 's) kmon" where
  "skip_slash 0 func c = kspin"
| "skip_slash (Suc n) func c = (if c = SLASH then kbind func (skip_slash n func) else kret c)"

text \<open>One component into \<open>u_dbuf\<close>; \<open>cp\<close> is the index of the next free place. The result is \<open>cp\<close> and the character after the name.\<close>

fun gather :: "nat \<Rightarrow> (int, 'a xst_scheme) kmon \<Rightarrow> nat \<Rightarrow> int \<Rightarrow> (nat \<times> int, 'a xst_scheme) kmon" where
  "gather 0 func cp c = kspin"
| "gather (Suc n) func cp c =
     kbind (uget u_error) (\<lambda>e.
     kbind (kget mpxip) (\<lambda>mx.
     if c \<noteq> SLASH \<and> c \<noteq> 0 \<and> e = 0 \<and> \<not> (mx \<noteq> None \<and> c = BANG) then
       kthen (kwhen (cp < DIRSIZ) (umod (\<lambda>v. v\<lparr>u_dbuf := (u_dbuf v)[cp := c mod 256]\<rparr>)))
       (kbind func (gather n func (if cp < DIRSIZ then cp + 1 else cp)))
     else kret (cp, c)))"

definition pad_name :: "nat \<Rightarrow> (unit, 'a kst_scheme) kmon" where
  "pad_name cp = umod (\<lambda>v. v\<lparr>u_dbuf := take cp (u_dbuf v) @ replicate (DIRSIZ - cp) 0\<rparr>)"

section \<open>Scanning a directory\<close>

text \<open>
  How the scan ends: the entry is in \<open>d_ino\<close> and \<open>d_name\<close>, the directory has no such entry (with the offset
  after the first empty entry, or 0), or a block could not be read.
\<close>

datatype scan = Found | Absent int | Unread

definition release :: "bptr option \<Rightarrow> (unit, 'a bst_scheme) kmon" where
  "release bo = (case bo of None \<Rightarrow> kret () | Some bp \<Rightarrow> kmod (brelse bp))"

text \<open>The buffer with the entry at \<open>off\<close>: the one held, or that of the next block.\<close>

definition dir_block :: "nat \<Rightarrow> int \<Rightarrow> bptr option \<Rightarrow> (bptr option, 'a fss_scheme) kmon" where
  "dir_block dp off bo =
     (if off mod 512 = 0 then
        kthen (release bo)
        (kbind (iget_f dp i_dev) (\<lambda>dev.
         kbind (bmap dp (off div 512) True) (\<lambda>bn.
         kbind (bread dev bn) (\<lambda>bp.
         kbind (bflagged bp B_ERROR) (\<lambda>err.
         if err then kthen (kmod (brelse bp)) (kret None) else kret (Some bp))))))
      else case bo of None \<Rightarrow> wild | Some bp \<Rightarrow> kret (Some bp))"

fun eloop :: "nat \<Rightarrow> nat \<Rightarrow> int \<Rightarrow> bptr option \<Rightarrow> (scan, 'a fss_scheme) kmon" where
  "eloop 0 dp eo bo = kspin"
| "eloop (Suc n) dp eo bo =
     kbind (uget u_offset) (\<lambda>off.
     kbind (iget_f dp i_size) (\<lambda>size.
     if off \<ge> size then kthen (release bo) (kret (Absent eo))
     else kbind (dir_block dp off bo) (\<lambda>r.
       case r of
         None \<Rightarrow> kret Unread
       | Some bp \<Rightarrow> kbind (bget bp (get_bytes (nat (off mod 512)) 16)) (\<lambda>bs.
           let ino = u16 (take 2 bs); name = drop 2 bs; off = cint (off + 16) in
           kthen (umod (\<lambda>v. v\<lparr>d_ino := ino, d_name := name, u_offset := off\<rparr>))
           (kbind (uget u_dbuf) (\<lambda>db.
            if ino = 0 then eloop n dp (if eo = 0 then off else eo) (Some bp)
            else if db \<noteq> name then eloop n dp eo (Some bp)
            else kthen (kmod (brelse bp)) (kret Found)))))))"

declare skip_slash.simps [simp del] gather.simps [simp del] eloop.simps [simp del]

section \<open>\<^verbatim>\<open>namei\<close>\<close>

text \<open>What follows the search of one directory: return, continue with the next component, or \<^verbatim>\<open>goto out\<close>.\<close>

datatype turn = Return "nat option" | Into nat | Out nat

text \<open>The end of the directory was reached.\<close>

definition absent :: "int \<Rightarrow> int \<Rightarrow> nat \<Rightarrow> int \<Rightarrow> (turn, 'a xst_scheme) kmon" where
  "absent flag c dp eo =
     (if flag = 1 \<and> c = 0 then
        kbind (access dp IWRITE) (\<lambda>denied.
        if denied then kret (Out dp)
        else
          kthen (umod (\<lambda>v. v\<lparr>u_pdir := Some dp\<rparr>))
          (kthen (if eo \<noteq> 0 then umod (\<lambda>v. v\<lparr>u_offset := eo - 16\<rparr>) else iset dp {IUPD, ICHG})
          (kret (Return None))))
      else kthen (seterr ENOENT) (kret (Out dp)))"

text \<open>The mount entry whose root directory is left through \<^verbatim>\<open>..\<close>\<close>

definition dotdot_mount :: "nat \<Rightarrow> 'a fss_scheme \<Rightarrow> nat option" where
  "dotdot_mount dp s =
     (if d_ino (u s) = ROOTINO \<and> i_number (inode s dp) = ROOTINO \<and> d_name (u s) ! 1 = DOT
      then find (\<lambda>m. m_bufp (mount s m) \<noteq> NULLB \<and> m_dev (mount s m) = i_dev (inode s dp)) [1 ..< NMOUNT]
      else None)"

fun seloop :: "nat \<Rightarrow> int \<Rightarrow> int \<Rightarrow> nat \<Rightarrow> (turn, 'a xst_scheme) kmon" where
  "seloop 0 flag c dp = kspin"
| "seloop (Suc n) flag c dp =
     kbind (iget_f dp i_mode) (\<lambda>m.
     kthen (kwhen (m AND IFMT \<noteq> IFDIR) (seterr ENOTDIR))
     (kthen (access dp IEXEC)
     (kbind (uget u_error) (\<lambda>e.
      if e \<noteq> 0 then kret (Out dp)
      else
        kthen (umod (\<lambda>v. v\<lparr>u_offset := 0, u_segflg := 1\<rparr>))
        (kbind (iget_f dp i_size) (\<lambda>size.
         kbind (eloop (nat size div 16 + 2) dp 0 None) (\<lambda>r.
         case r of
           Unread \<Rightarrow> kret (Out dp)
         | Absent eo \<Rightarrow> absent flag c dp eo
         | Found \<Rightarrow>
             if flag = 2 \<and> c = 0 then
               kbind (access dp IWRITE) (\<lambda>denied. kret (if denied then Out dp else Return (Some dp)))
             else
               kbind (kget (dotdot_mount dp)) (\<lambda>mo.
               kbind (iget_f dp i_dev) (\<lambda>d.
               kthen (iput dp)
               (case mo of
                  Some m \<Rightarrow>
                    kbind (kget (\<lambda>s. the (m_inodp (mount s m)))) (\<lambda>dp.
                    kthen (imod dp (\<lambda>i. i\<lparr>i_count := cchar (i_count i + 1)\<rparr>))
                    (kthen (plock dp)
                    (seloop n flag c dp)))
                | None \<Rightarrow>
                    kbind (uget d_ino) (\<lambda>ino.
                    kbind (iget d ino) (\<lambda>r.
                    kret (case r of None \<Rightarrow> Return None | Some dp \<Rightarrow> Into dp)))))))))))))"

fun cloop :: "nat \<Rightarrow> (int, 'a xst_scheme) kmon \<Rightarrow> int \<Rightarrow> int \<Rightarrow> nat \<Rightarrow> (nat option, 'a xst_scheme) kmon" where
  "cloop 0 func flag c dp = kspin"
| "cloop (Suc n) func flag c dp =
     kbind (uget u_error) (\<lambda>e.
     if e \<noteq> 0 then kthen (iput dp) (kret None)
     else if c = 0 then kret (Some dp)
     else
       kbind (gather ADDRS func 0 c) (\<lambda>(cp, c).
       kthen (pad_name cp)
       (kbind (skip_slash ADDRS func c) (\<lambda>c.
        kbind (kget mpxip) (\<lambda>mx.
        case (if c = BANG then mx else None) of
          Some mp \<Rightarrow>
            kthen (iput dp)
            (kthen (plock mp)
            (kthen (imod mp (\<lambda>i. i\<lparr>i_count := cchar (i_count i + 1)\<rparr>))
            (kret (Some mp))))
        | None \<Rightarrow>
            kbind (seloop (NMOUNT + 1) flag c dp) (\<lambda>r.
            case r of
              Return x \<Rightarrow> kret x
            | Out dp \<Rightarrow> kthen (iput dp) (kret None)
            | Into dp \<Rightarrow> cloop n func flag c dp))))))"

declare seloop.simps [simp del] cloop.simps [simp del]

definition namei :: "(int, 'a xst_scheme) kmon \<Rightarrow> int \<Rightarrow> (nat option, 'a xst_scheme) kmon" where
  "namei func flag =
     kbind (uget u_cdir) (\<lambda>cdir.
     kbind func (\<lambda>c.
     kbind (uget u_rdir) (\<lambda>rdir.
     kbind (kget rootdir) (\<lambda>root.
     let dp = (if c = SLASH then (case rdir of None \<Rightarrow> root | Some d \<Rightarrow> d) else cdir) in
     kbind (iget_f dp id) (\<lambda>i.
     kthen (iget (i_dev i) (i_number i))
     (kbind (skip_slash ADDRS func c) (\<lambda>c.
      kthen (kwhen (c = 0 \<and> flag \<noteq> 0) (seterr ENOENT))
      (cloop ADDRS func flag c dp))))))))"

definition owner :: "(nat option, 'a xst_scheme) kmon" where
  "owner = kbind (namei uchar 0) (\<lambda>r.
     case r of
       None \<Rightarrow> kret None
     | Some ip \<Rightarrow>
         kbind (uget u_uid) (\<lambda>uid.
         kbind (iget_f ip i_uid) (\<lambda>own.
         if uid = own then kret (Some ip)
         else kbind suser (\<lambda>su. if su then kret (Some ip) else kthen (iput ip) (kret None)))))"

end
