(* ===== verification/Pipe.thy ===== *)
theory Pipe
  imports Namei
begin

text \<open>
  Pipes (\<^verbatim>\<open>sys/pipe.c\<close>): a nameless file of at most a few blocks, written at its end and read from the offset of
  the read side, emptied whenever the reader catches up. \<^verbatim>\<open>IREAD\<close> and \<^verbatim>\<open>IWRITE\<close> in the mode say that a reader or a writer
  sleeps, on the address of the inode plus 2 or plus 1.
\<close>

definition PIPSIZ :: int where "PIPSIZ = 4096"
definition SIGPIPE :: nat where "SIGPIPE = 13"

definition pipe :: "(unit, 'a fss_scheme) kmon" where
  "pipe =
     kbind (kget pipedev) (\<lambda>d.
     kbind (ialloc d) (\<lambda>io.
     case io of
       None \<Rightarrow> kret ()
     | Some ip \<Rightarrow>
         kbind falloc (\<lambda>ro.
         case ro of
           None \<Rightarrow> iput ip
         | Some r_fp \<Rightarrow>
             kbind (uget r_val1) (\<lambda>r.
             kbind falloc (\<lambda>wo.
             case wo of
               None \<Rightarrow>
                 kthen (filemod r_fp (\<lambda>f. f\<lparr>f_count := 0\<rparr>))
                 (kthen (umod (\<lambda>v. v\<lparr>u_ofile := (u_ofile v)(nat r := None)\<rparr>))
                 (iput ip))
             | Some w_fp \<Rightarrow>
                 kthen (umod (\<lambda>v. v\<lparr>r_val2 := r_val1 v, r_val1 := r\<rparr>))
                 (kthen (filemod w_fp (\<lambda>f. f\<lparr>f_flag := {FWRITE, FPIPE}, f_inode := ip\<rparr>))
                 (kthen (filemod r_fp (\<lambda>f. f\<lparr>f_flag := {FREAD, FPIPE}, f_inode := ip\<rparr>))
                 (imod ip (\<lambda>i. i\<lparr>i_count := 2, i_mode := IFREG, i_flag := {IACC, IUPD, ICHG}\<rparr>)))))))))"

definition readp :: "'a fss_scheme devsw \<Rightarrow> nat \<Rightarrow> (unit, 'a fss_scheme) kmon" where
  "readp cdev fp =
     kbind (fget fp f_inode) (\<lambda>ip.
     kthen (plock ip)
     (kbind (iget_f ip i_size) (\<lambda>size.
      if size = 0 then
        kthen (prele ip)
        (kbind (iget_f ip i_count) (\<lambda>n.
         if n < 2 then kret ()
         else kthen (imod ip (\<lambda>i. i\<lparr>i_mode := i_mode i OR IREAD\<rparr>)) (ksleep (Ch_inode2 ip) PPIPE)))
      else
        kbind (fget fp f_offset) (\<lambda>off.
        kthen (umod (\<lambda>v. v\<lparr>u_offset := off\<rparr>))
        (kthen (readi cdev ip)
        (kbind (uget u_offset) (\<lambda>off.
         kthen (filemod fp (\<lambda>f. f\<lparr>f_offset := off\<rparr>))
         (kbind (iget_f ip id) (\<lambda>i.
          kthen (kwhen (off = i_size i)
            (kthen (filemod fp (\<lambda>f. f\<lparr>f_offset := 0\<rparr>))
            (kthen (imod ip (\<lambda>i. i\<lparr>i_size := 0\<rparr>))
            (kwhen (i_mode i AND IWRITE \<noteq> 0)
               (kthen (imod ip (\<lambda>i. i\<lparr>i_mode := ushort (i_mode i AND NOT IWRITE)\<rparr>)) (kwakeup (Ch_inode1 ip)))))))
          (prele ip))))))))))"

text \<open>
  One turn of \<open>loop\<close> per part of at most \<open>PIPSIZ\<close> bytes; \<open>c\<close> is what remains to be written. A turn subtracts \<open>PIPSIZ\<close> from the
  unsigned value of \<open>c\<close> or reaches 0, which bounds the number of turns.
\<close>

fun writep_loop :: "nat \<Rightarrow> 'a fss_scheme devsw \<Rightarrow> nat \<Rightarrow> int \<Rightarrow> (unit, 'a fss_scheme) kmon" where
  "writep_loop 0 cdev ip c = kspin"
| "writep_loop (Suc n) cdev ip c =
     kthen (plock ip)
     (if c = 0 then kthen (prele ip) (umod (\<lambda>v. v\<lparr>u_count := 0\<rparr>))
      else
        kbind (iget_f ip id) (\<lambda>i.
        if i_count i < 2 then
          kthen (prele ip)
          (kthen (seterr EPIPE)
          (kbind (uget u_procp) (\<lambda>p. kpsignal p SIGPIPE)))
        else if i_size i \<ge> PIPSIZ then
          kthen (imod ip (\<lambda>i. i\<lparr>i_mode := i_mode i OR IWRITE\<rparr>))
          (kthen (prele ip)
          (ksleep (Ch_inode1 ip) PPIPE))
        else
          (let n' = umin c PIPSIZ in
           kthen (umod (\<lambda>v. v\<lparr>u_offset := i_size i, u_count := n'\<rparr>))
           (kthen (writei cdev ip)
           (kthen (prele ip)
           (kbind (iget_f ip i_mode) (\<lambda>m.
            kthen (kwhen (m AND IREAD \<noteq> 0)
              (kthen (imod ip (\<lambda>i. i\<lparr>i_mode := ushort (i_mode i AND NOT IREAD)\<rparr>)) (kwakeup (Ch_inode2 ip))))
            (writep_loop n cdev ip (cint (c - n'))))))))))"

declare writep_loop.simps [simp del]

definition writep :: "'a fss_scheme devsw \<Rightarrow> nat \<Rightarrow> (unit, 'a fss_scheme) kmon" where
  "writep cdev fp =
     kbind (fget fp f_inode) (\<lambda>ip.
     kbind (uget u_count) (\<lambda>c.
     writep_loop (nat (cuint c) div 4096 + 2) cdev ip (cint c)))"

end
