(* ===== verification/Sys2.thy ===== *)
theory Sys2
  imports Pipe
begin

text \<open>
  The file system calls of \<^verbatim>\<open>sys/sys2.c\<close>. The arguments of a call are in \<open>u_arg\<close>; \<open>u_dirp\<close> holds the first one, as \<^verbatim>\<open>trap\<close> leaves it.
\<close>

definition uap :: "nat \<Rightarrow> (int, 'a kst_scheme) kmon" where
  "uap n = uget (\<lambda>v. u_arg v ! n)"

section \<open>Reading and writing\<close>

text \<open>\<^verbatim>\<open>IFCHR&IFBLK\<close> is the bit common to the special files.\<close>

definition rdwr :: "'a fss_scheme switches \<Rightarrow> fflag \<Rightarrow> (unit, 'a fss_scheme) kmon" where
  "rdwr sw mode =
     kbind (uap 0) (\<lambda>fdes.
     kbind (uap 1) (\<lambda>cbuf.
     kbind (uap 2) (\<lambda>count.
     kbind (getf fdes) (\<lambda>r.
     case r of
       None \<Rightarrow> kret ()
     | Some fp \<Rightarrow>
         kbind (fget fp id) (\<lambda>f.
         if mode \<notin> f_flag f then seterr EBADF
         else
           kthen (umod (\<lambda>v. v\<lparr>u_base := cbuf, u_count := cuint count, u_segflg := 0\<rparr>))
           (kthen
             (if FPIPE \<in> f_flag f then (if mode = FREAD then readp (cdevsw sw) fp else writep (cdevsw sw) fp)
              else
                (let ip = f_inode f; mp = (f_flag f \<inter> {FMPX, FMPY} \<noteq> {}) in
                 kthen (umod (\<lambda>v. v\<lparr>u_offset := (if mp then 0 else f_offset f)\<rparr>))
                 (kbind (iget_f ip i_mode) (\<lambda>m.
                  kthen (kwhen (m AND (IFCHR AND IFBLK) = 0) (plock ip))
                  (kthen (if mode = FREAD then readi (cdevsw sw) ip else writei (cdevsw sw) ip)
                  (kbind (iget_f ip i_mode) (\<lambda>m.
                   kthen (kwhen (m AND (IFCHR AND IFBLK) = 0) (prele ip))
                   (kbind (uget u_count) (\<lambda>left.
                    kwhen (\<not> mp) (filemod fp (\<lambda>f. f\<lparr>f_offset := cint (f_offset f + (cuint count - left))\<rparr>)))))))))))
             (umod (\<lambda>v. v\<lparr>r_val1 := cint (cuint count - u_count v)\<rparr>))))))))"

definition read_call :: "'a fss_scheme switches \<Rightarrow> (unit, 'a fss_scheme) kmon" where
  "read_call sw = rdwr sw FREAD"

definition write_call :: "'a fss_scheme switches \<Rightarrow> (unit, 'a fss_scheme) kmon" where
  "write_call sw = rdwr sw FWRITE"

section \<open>Opening and closing\<close>

definition mode_flags :: "int \<Rightarrow> fflag set" where
  "mode_flags m = (if m AND 1 \<noteq> 0 then {FREAD} else {}) \<union> (if m AND 2 \<noteq> 0 then {FWRITE} else {})"

text \<open>The permission tests of \<open>open1\<close>.\<close>

definition open1_access :: "nat \<Rightarrow> int \<Rightarrow> (unit, 'a xst_scheme) kmon" where
  "open1_access ip mode =
     kthen (kwhen (mode AND 1 \<noteq> 0) (kbind (access ip IREAD) (\<lambda>_. kret ())))
     (kwhen (mode AND 2 \<noteq> 0)
        (kthen (access ip IWRITE)
        (kbind (iget_f ip i_mode) (\<lambda>m. kwhen (m AND IFMT = IFDIR) (seterr EISDIR)))))"

definition open1 :: "'a xst_scheme switches \<Rightarrow> nat \<Rightarrow> int \<Rightarrow> int \<Rightarrow> (unit, 'a xst_scheme) kmon" where
  "open1 sw ip mode trf =
     kthen (kwhen (trf \<noteq> 2) (open1_access ip mode))
     (kbind (uget u_error) (\<lambda>e.
      if e \<noteq> 0 then iput ip
      else
        kthen (kwhen (trf = 1) (itrunc ip))
        (kthen (prele ip)
        (kbind falloc (\<lambda>r.
         case r of
           None \<Rightarrow> iput ip
         | Some fp \<Rightarrow>
             kthen (filemod fp (\<lambda>f. f\<lparr>f_flag := mode_flags mode, f_inode := ip\<rparr>))
             (kbind (uget r_val1) (\<lambda>i.
              kthen (openi sw ip (mode AND 2))
              (kbind (uget u_error) (\<lambda>e.
               if e = 0 then kret ()
               else
                 kthen (umod (\<lambda>v. v\<lparr>u_ofile := (u_ofile v)(nat i := None)\<rparr>))
                 (kthen (filemod fp (\<lambda>f. f\<lparr>f_count := cchar (f_count f - 1)\<rparr>))
                 (iput ip)))))))))))"

definition open_call :: "'a xst_scheme switches \<Rightarrow> (unit, 'a xst_scheme) kmon" where
  "open_call sw =
     kbind (namei uchar 0) (\<lambda>r.
     case r of
       None \<Rightarrow> kret ()
     | Some ip \<Rightarrow>
         kthen (umod (\<lambda>v. v\<lparr>u_arg := (u_arg v)[1 := cint (u_arg v ! 1 + 1)]\<rparr>))
         (kbind (uap 1) (\<lambda>rwmode. open1 sw ip rwmode 0)))"

definition creat :: "'a xst_scheme switches \<Rightarrow> (unit, 'a xst_scheme) kmon" where
  "creat sw =
     kbind (namei uchar 1) (\<lambda>r.
     case r of
       None \<Rightarrow>
         kbind (uget u_error) (\<lambda>e.
         if e \<noteq> 0 then kret ()
         else
           kbind (uap 1) (\<lambda>fmode.
           kbind (maknode (cdevsw sw) (fmode AND 0xFFF AND NOT ISVTX)) (\<lambda>r.
           case r of None \<Rightarrow> kret () | Some ip \<Rightarrow> open1 sw ip 2 2)))
     | Some ip \<Rightarrow> open1 sw ip 2 1)"

definition close :: "'a fss_scheme switches \<Rightarrow> (unit, 'a fss_scheme) kmon" where
  "close sw =
     kbind (uap 0) (\<lambda>fdes.
     kbind (getf fdes) (\<lambda>r.
     case r of
       None \<Rightarrow> kret ()
     | Some fp \<Rightarrow> kthen (umod (\<lambda>v. v\<lparr>u_ofile := (u_ofile v)(nat fdes := None)\<rparr>)) (closef sw (Some fp))))"

definition seek :: "(unit, 'a fss_scheme) kmon" where
  "seek =
     kbind (uap 0) (\<lambda>fdes.
     kbind (uap 1) (\<lambda>off.
     kbind (uap 2) (\<lambda>sbase.
     kbind (getf fdes) (\<lambda>r.
     case r of
       None \<Rightarrow> kret ()
     | Some fp \<Rightarrow>
         kbind (fget fp id) (\<lambda>f.
         if f_flag f \<inter> {FPIPE, FMPX, FMPY} \<noteq> {} then seterr ESPIPE
         else
           kbind (iget_f (f_inode f) i_size) (\<lambda>size.
           let off = (if sbase = 1 then cint (off + f_offset f) else if sbase = 2 then cint (off + size) else off) in
           kthen (umod (\<lambda>v. v\<lparr>u_arg := (u_arg v)[1 := off]\<rparr>))
           (kthen (filemod fp (\<lambda>f. f\<lparr>f_offset := off\<rparr>))
           (umod (\<lambda>v. v\<lparr>r_val1 := off\<rparr>)))))))))"

section \<open>Names\<close>

definition link_new :: "'a xst_scheme switches \<Rightarrow> nat \<Rightarrow> (unit, 'a xst_scheme) kmon" where
  "link_new sw ip =
     kbind (namei uchar 1) (\<lambda>r.
     case r of
       Some xp \<Rightarrow> kthen (seterr EEXIST) (iput xp)
     | None \<Rightarrow>
         kbind (kget u) (\<lambda>v.
         if u_error v \<noteq> 0 then kret ()
         else
           (let pd = the (u_pdir v) in
            kbind (iget_f pd i_dev) (\<lambda>d.
            kbind (iget_f ip i_dev) (\<lambda>d'.
            if d \<noteq> d' then kthen (iput pd) (seterr EXDEV)
            else
              kthen (wdir (cdevsw sw) ip)
              (kbind (uget u_error) (\<lambda>e.
               kwhen (e = 0)
                 (kthen (imod ip (\<lambda>i. i\<lparr>i_nlink := short (i_nlink i + 1)\<rparr>)) (iset ip {ICHG})))))))))"

definition link :: "'a xst_scheme switches \<Rightarrow> (unit, 'a xst_scheme) kmon" where
  "link sw =
     kbind (namei uchar 0) (\<lambda>r.
     case r of
       None \<Rightarrow> kret ()
     | Some ip \<Rightarrow>
         kbind (iget_f ip i_mode) (\<lambda>m.
         kbind (if m AND IFMT = IFDIR then suser else kret True) (\<lambda>ok.
         kthen (if \<not> ok then kret ()
                else
                  kthen (prele ip)
                  (kbind (uap 1) (\<lambda>linkname.
                   kthen (umod (\<lambda>v. v\<lparr>u_dirp := linkname\<rparr>))
                   (link_new sw ip))))
         (iput ip))))"

definition mknod :: "'a xst_scheme switches \<Rightarrow> (unit, 'a xst_scheme) kmon" where
  "mknod sw =
     kbind suser (\<lambda>su.
     kbind (if su then namei uchar 1 else kret None) (\<lambda>r.
     case r of
       Some ip \<Rightarrow> kthen (seterr EEXIST) (iput ip)
     | None \<Rightarrow>
         kbind (uget u_error) (\<lambda>e.
         if e \<noteq> 0 then kret ()
         else
           kbind (uap 1) (\<lambda>fmode.
           kbind (uap 2) (\<lambda>dev.
           kbind (maknode (cdevsw sw) fmode) (\<lambda>r.
           case r of
             None \<Rightarrow> kret ()
           | Some ip \<Rightarrow>
               kthen (imod ip (\<lambda>i. i\<lparr>i_addr := (i_addr i)[0 := short dev]\<rparr>))
               (iput ip)))))))"

definition saccess :: "(unit, 'a xst_scheme) kmon" where
  "saccess =
     kbind (uap 1) (\<lambda>fmode.
     kbind (kget u) (\<lambda>v.
     kthen (umod (\<lambda>v. v\<lparr>u_uid := u_ruid v, u_gid := u_rgid v\<rparr>))
     (kbind (namei uchar 0) (\<lambda>r.
      kthen
        (case r of
           None \<Rightarrow> kret ()
         | Some ip \<Rightarrow>
             kthen (if fmode AND 4 \<noteq> 0 then access ip IREAD else kret False)
             (kthen (if fmode AND 2 \<noteq> 0 then access ip IWRITE else kret False)
             (kthen (if fmode AND 1 \<noteq> 0 then access ip IEXEC else kret False)
             (iput ip))))
        (umod (\<lambda>w. w\<lparr>u_uid := u_uid v, u_gid := u_gid v\<rparr>))))))"

end
