(* ===== verification/Sys3.thy ===== *)
theory Sys3
  imports Sys2
begin

text \<open>
  The system calls of \<^verbatim>\<open>sys/sys3.c\<close>: file status, duplicated descriptors, and mounting. A structure handed to the user is
  the list of its bytes in the i386 layout; \<open>pad\<close> stands for the bytes of padding, which the
  source leaves as they were on the stack.
\<close>

section \<open>Copies between the kernel and a process\<close>

text \<open>The copies of \<^verbatim>\<open>conf/mch.s\<close>, word by word up to the first fault, for kernel data that is not in a buffer.\<close>

definition copyout_k :: "int list \<Rightarrow> int \<Rightarrow> (bool, 'a kst_scheme) kmon" where
  "copyout_k bs a = kbind (kget (umapped a (length bs))) (\<lambda>m.
     kthen (kmod (upoke a (take (words (length m)) bs))) (kret (length m < length bs)))"

definition copyin_k :: "int \<Rightarrow> nat \<Rightarrow> (int list option, 'a kst_scheme) kmon" where
  "copyin_k a n = kbind (kget (umapped a n)) (\<lambda>m. kret (if length m < n then None else Some m))"

section \<open>Status\<close>

text \<open>The bytes of \<^verbatim>\<open>struct stat\<close>.\<close>

definition stat_bytes :: "inode \<Rightarrow> int \<Rightarrow> int list \<Rightarrow> int \<Rightarrow> int \<Rightarrow> int \<Rightarrow> int list" where
  "stat_bytes i sz pad at mt ct =
     enc 2 (i_dev i) @ enc 2 (i_number i) @ enc 2 (i_mode i) @ enc 2 (i_nlink i) @ enc 2 (i_uid i) @ enc 2 (i_gid i) @
     enc 2 (short (i_addr i ! 0)) @ take 2 pad @ enc 4 sz @ enc 4 at @ enc 4 mt @ enc 4 ct"

definition stat1 :: "int list \<Rightarrow> nat \<Rightarrow> int \<Rightarrow> int \<Rightarrow> (unit, 'a fss_scheme) kmon" where
  "stat1 pad ip ub pipeadj =
     kbind (kget time) (\<lambda>now.
     kthen (iupdat ip now now)
     (kbind (iget_f ip id) (\<lambda>i.
      kbind (bread (i_dev i) (itod (i_number i))) (\<lambda>bp.
      kbind (bget bp id) (\<lambda>b.
      let k = itoo (i_number i) in
      kthen (kmod (brelse bp))
      (kbind (copyout_k (stat_bytes i (cint (i_size i - pipeadj)) pad (di_atime k b) (di_mtime k b) (di_ctime k b)) ub) (\<lambda>bad.
       kwhen bad (seterr EFAULT))))))))"

definition fstat :: "int list \<Rightarrow> (unit, 'a fss_scheme) kmon" where
  "fstat pad =
     kbind (uap 0) (\<lambda>fdes.
     kbind (uap 1) (\<lambda>sb.
     kbind (getf fdes) (\<lambda>r.
     case r of
       None \<Rightarrow> kret ()
     | Some fp \<Rightarrow> kbind (fget fp id) (\<lambda>f. stat1 pad (f_inode f) sb (if FPIPE \<in> f_flag f then f_offset f else 0)))))"

definition stat :: "int list \<Rightarrow> (unit, 'a xst_scheme) kmon" where
  "stat pad =
     kbind (uap 1) (\<lambda>sb.
     kbind (namei uchar 0) (\<lambda>r.
     case r of
       None \<Rightarrow> kret ()
     | Some ip \<Rightarrow> kthen (stat1 pad ip sb 0) (iput ip)))"

section \<open>Duplicated descriptors\<close>

text \<open>\<open>m\<close> is the first argument without the descriptor; bit 6 asks for the descriptor in the second argument.\<close>

definition dup_to :: "int \<Rightarrow> int \<Rightarrow> (int option, 'a kst_scheme) kmon" where
  "dup_to m fdes2 =
     (if m AND 64 = 0 then kbind ufalloc (\<lambda>i. kret (if i < 0 then None else Some i))
      else if fdes2 < 0 \<or> fdes2 \<ge> int NOFILE then kthen (seterr EBADF) (kret None)
      else kthen (umod (\<lambda>v. v\<lparr>r_val1 := fdes2\<rparr>)) (kret (Some fdes2)))"

definition dup :: "'a fss_scheme switches \<Rightarrow> (unit, 'a fss_scheme) kmon" where
  "dup sw =
     kbind (uap 0) (\<lambda>a.
     kbind (uap 1) (\<lambda>fdes2.
     let m = a AND NOT 63; fdes = a AND 63 in
     kthen (umod (\<lambda>v. v\<lparr>u_arg := (u_arg v)[0 := fdes]\<rparr>))
     (kbind (getf fdes) (\<lambda>r.
      case r of
        None \<Rightarrow> kret ()
      | Some fp \<Rightarrow>
          kbind (dup_to m fdes2) (\<lambda>io.
          case io of
            None \<Rightarrow> kret ()
          | Some i \<Rightarrow>
              if i = fdes then kret ()
              else
                kbind (uget u_ofile) (\<lambda>ofile.
                kthen (closef sw (ofile (nat i)))
                (kthen (umod (\<lambda>v. v\<lparr>u_ofile := (u_ofile v)(nat i := Some fp)\<rparr>))
                (filemod fp (\<lambda>f. f\<lparr>f_count := cchar (f_count f + 1)\<rparr>)))))))))"

section \<open>Mounting\<close>

definition getmdev :: "(int, 'a xst_scheme) kmon" where
  "getmdev = kbind (namei uchar 0) (\<lambda>r.
     case r of
       None \<Rightarrow> kret NODEV
     | Some ip \<Rightarrow>
         kbind (iget_f ip id) (\<lambda>i.
         kthen (kwhen (i_mode i AND IFMT \<noteq> IFBLK) (seterr ENOTBLK))
         (let dev = short (i_addr i ! 0) in
          kbind (kget nblkdev) (\<lambda>n.
          kthen (kwhen (major dev \<ge> n) (seterr ENXIO))
          (kthen (iput ip) (kret dev))))))"

text \<open>The search of the mount table: the slot to use, or none when the table is full or holds the device.\<close>

definition mount_slot :: "int \<Rightarrow> 'a fss_scheme \<Rightarrow> nat option" where
  "mount_slot dev s =
     (if list_ex (\<lambda>m. m_bufp (mount s m) \<noteq> NULLB \<and> m_dev (mount s m) = dev) [0 ..< NMOUNT] then None
      else find (\<lambda>m. m_bufp (mount s m) = NULLB) [0 ..< NMOUNT])"

definition mmod :: "nat \<Rightarrow> (mount \<Rightarrow> mount) \<Rightarrow> (unit, 'a fss_scheme) kmon" where
  "mmod m f = kmod (\<lambda>s. s\<lparr>mount := (mount s)(m := f (mount s m))\<rparr>)"

text \<open>From the opening of the device on.\<close>

definition smount_dev :: "'a fss_scheme switches \<Rightarrow> int \<Rightarrow> nat \<Rightarrow> nat \<Rightarrow> int \<Rightarrow> (unit, 'a fss_scheme) kmon" where
  "smount_dev sw dev ip mp ronly =
     kthen (d_open (bdevsw sw) dev (of_bool (ronly = 0)))
     (kbind (uget u_error) (\<lambda>e.
      if e \<noteq> 0 then kthen (seterr EBUSY) (iput ip)
      else
        kbind (bread dev SUPERB) (\<lambda>bp.
        kbind (uget u_error) (\<lambda>e.
        if e \<noteq> 0 then kthen (kmod (brelse bp)) (iput ip)
        else
          kthen (mmod mp (\<lambda>m. m\<lparr>m_inodp := Some ip, m_dev := dev\<rparr>))
          (kbind geteblk (\<lambda>mb.
           kthen (mmod mp (\<lambda>m. m\<lparr>m_bufp := mb\<rparr>))
           (kbind (bget bp id) (\<lambda>b.
            kthen (bset mb (\<lambda>_. b))
            (kthen (bset mb (\<lambda>b. set_s_ronly (ronly AND 1) (set_s_flock 0 (set_s_ilock 0 b))))
            (kthen (kmod (brelse bp))
            (kthen (iset ip {IMOUNT})
            (prele ip))))))))))))"

definition smount :: "'a xst_scheme switches \<Rightarrow> (unit, 'a xst_scheme) kmon" where
  "smount sw =
     kbind (uap 1) (\<lambda>freg.
     kbind (uap 2) (\<lambda>ronly.
     kbind getmdev (\<lambda>dev.
     kbind (uget u_error) (\<lambda>e.
     if e \<noteq> 0 then kret ()
     else
       kthen (umod (\<lambda>v. v\<lparr>u_dirp := freg\<rparr>))
       (kbind (namei uchar 0) (\<lambda>r.
        case r of
          None \<Rightarrow> kret ()
        | Some ip \<Rightarrow>
            kbind (iget_f ip id) (\<lambda>i.
            kbind (kget (mount_slot dev)) (\<lambda>slot.
            case (if i_count i \<noteq> 1 \<or> i_mode i AND (IFBLK AND IFCHR) \<noteq> 0 then None else slot) of
              None \<Rightarrow> kthen (seterr EBUSY) (iput ip)
            | Some mp \<Rightarrow> smount_dev sw dev ip mp ronly))))))))"

definition sumount :: "'a xst_scheme switches \<Rightarrow> (unit, 'a xst_scheme) kmon" where
  "sumount sw =
     kbind getmdev (\<lambda>dev.
     kbind (uget u_error) (\<lambda>e.
     if e \<noteq> 0 then kret ()
     else
       kthen (xumount dev)
       (kthen update
       (kbind (kget (find_mount dev)) (\<lambda>r.
        case r of
          None \<Rightarrow> seterr EINVAL
        | Some mp \<Rightarrow>
            kbind (kget (\<lambda>s. list_ex (\<lambda>ip. i_number (inode s ip) \<noteq> 0 \<and> i_dev (inode s ip) = dev) [0 ..< NINODE])) (\<lambda>used.
            if used then seterr EBUSY
            else
              kthen (d_close (bdevsw sw) dev {} 0)
              (kbind (kget (\<lambda>s. mount s mp)) (\<lambda>m.
               let ip = the (m_inodp m) in
               kthen (iclr ip {IMOUNT})
               (kthen (plock ip)
               (kthen (iput ip)
               (kthen (mmod mp (\<lambda>m. m\<lparr>m_bufp := NULLB\<rparr>))
               (kmod (brelse (m_bufp m))))))))))))))"

end
