(* ===== verification/Sys4.thy ===== *)
theory Sys4
  imports Sys3
begin

text \<open>
  The system calls of \<^verbatim>\<open>sys/sys4.c\<close>: time, identity, names and modes of files, signals and alarms.
\<close>

definition TIMEZONE :: int where "TIMEZONE = 5 * 60"
definition DSTFLAG :: int where "DSTFLAG = 1"
definition SIGKIL :: int where "SIGKIL = 9"

definition myproc :: "(proc \<Rightarrow> 'b) \<Rightarrow> ('b, 'a kst_scheme) kmon" where
  "myproc f = kget (\<lambda>s. f (proc s (u_procp (u s))))"

definition pmod_me :: "(proc \<Rightarrow> proc) \<Rightarrow> (unit, 'a kst_scheme) kmon" where
  "pmod_me f = kbind (uget u_procp) (\<lambda>p. pmod p f)"

section \<open>Time\<close>

definition gtime :: "(unit, 'a kst_scheme) kmon" where
  "gtime = kbind (kget time) (\<lambda>t. umod (\<lambda>v. v\<lparr>r_val1 := t\<rparr>))"

text \<open>The bytes of \<^verbatim>\<open>struct timeb\<close> for the clock \<open>t\<close> and the ticks \<open>ms\<close> since.\<close>

definition timeb_bytes :: "int list \<Rightarrow> int \<Rightarrow> int \<Rightarrow> int list" where
  "timeb_bytes pad t ms =
     (let t' = (if ms > HZ then cint (t + 1) else t); ms' = (if ms > HZ then ms - HZ else ms)
      in enc 4 t' @ enc 2 (cuint (1000 * ms') div HZ) @ enc 2 TIMEZONE @ enc 2 DSTFLAG @ take 2 pad)"

definition ftime :: "int list \<Rightarrow> (unit, 'a kst_scheme) kmon" where
  "ftime pad =
     kbind (uap 0) (\<lambda>tp.
     kbind (kget time) (\<lambda>t.
     kbind (kget lbolt) (\<lambda>l.
     kbind (copyout_k (timeb_bytes pad t (cuint l)) tp) (\<lambda>bad. kwhen bad (seterr EFAULT)))))"

definition stime :: "(unit, 'a kst_scheme) kmon" where
  "stime = kbind (uap 0) (\<lambda>t. kbind suser (\<lambda>su. kwhen su (kmod (\<lambda>s. s\<lparr>time := t\<rparr>))))"

section \<open>Identity\<close>

text \<open>\<^verbatim>\<open>u.u_ruid == uid || suser()\<close>: \<open>suser\<close> is called only when the ids differ.\<close>

definition same_or_su :: "int \<Rightarrow> int \<Rightarrow> (bool, 'a kst_scheme) kmon" where
  "same_or_su x y = (if x = y then kret True else suser)"

definition setuid :: "(unit, 'a kst_scheme) kmon" where
  "setuid =
     kbind (uap 0) (\<lambda>uid.
     kbind (uget u_ruid) (\<lambda>ruid.
     kbind (same_or_su ruid uid) (\<lambda>ok.
     kwhen ok
       (kthen (umod (\<lambda>v. v\<lparr>u_uid := short uid\<rparr>))
       (kthen (pmod_me (\<lambda>p. p\<lparr>p_uid := short uid\<rparr>))
       (umod (\<lambda>v. v\<lparr>u_ruid := short uid\<rparr>)))))))"

definition getuid :: "(unit, 'a kst_scheme) kmon" where
  "getuid = umod (\<lambda>v. v\<lparr>r_val1 := u_ruid v, r_val2 := u_uid v\<rparr>)"

definition setgid :: "(unit, 'a kst_scheme) kmon" where
  "setgid =
     kbind (uap 0) (\<lambda>gid.
     kbind (uget u_rgid) (\<lambda>rgid.
     kbind (same_or_su rgid gid) (\<lambda>ok.
     kwhen ok (umod (\<lambda>v. v\<lparr>u_gid := short gid, u_rgid := short gid\<rparr>)))))"

definition getgid :: "(unit, 'a kst_scheme) kmon" where
  "getgid = umod (\<lambda>v. v\<lparr>r_val1 := u_rgid v, r_val2 := u_gid v\<rparr>)"

definition getpid :: "(unit, 'a kst_scheme) kmon" where
  "getpid = kbind (myproc id) (\<lambda>p. umod (\<lambda>v. v\<lparr>r_val1 := p_pid p, r_val2 := p_ppid p\<rparr>))"

definition sync :: "(unit, 'a fss_scheme) kmon" where
  "sync = update"

definition nice :: "(unit, 'a kst_scheme) kmon" where
  "nice =
     kbind (uap 0) (\<lambda>n.
     kbind (if n < 0 then suser else kret True) (\<lambda>ok.
     kbind (myproc p_nice) (\<lambda>old.
     let n = cint ((if ok then n else 0) + old);
         n = (if n \<ge> 2 * NZERO then 2 * NZERO - 1 else n);
         n = (if n < 0 then 0 else n)
     in pmod_me (\<lambda>p. p\<lparr>p_nice := cchar n\<rparr>))))"

section \<open>Names and modes\<close>

text \<open>The removal of the entry at the offset \<^verbatim>\<open>namei\<close> left, up to the label \<open>out\<close>.\<close>

definition unlink_entry :: "'a xst_scheme devsw \<Rightarrow> nat \<Rightarrow> nat \<Rightarrow> (unit, 'a xst_scheme) kmon" where
  "unlink_entry cdev pp ip =
     kbind (iget_f ip i_flag) (\<lambda>fl.
     kthen (kwhen (ITEXT \<in> fl) (xrele ip))
     (kbind (iget_f ip id) (\<lambda>i.
      if ITEXT \<in> i_flag i \<and> i_nlink i = 1 then seterr ETXTBSY
      else
        kthen (umod (\<lambda>v. v\<lparr>u_offset := cint (u_offset v - 16), u_base := UDENT, u_count := 16, d_ino := 0\<rparr>))
        (kthen (writei cdev pp)
        (kthen (imod ip (\<lambda>i. i\<lparr>i_nlink := short (i_nlink i - 1)\<rparr>))
        (iset ip {ICHG}))))))"

definition unlink :: "'a xst_scheme switches \<Rightarrow> (unit, 'a xst_scheme) kmon" where
  "unlink sw =
     kbind (namei uchar 2) (\<lambda>r.
     case r of
       None \<Rightarrow> kret ()
     | Some pp \<Rightarrow>
         kbind (uget d_ino) (\<lambda>ino.
         kbind (iget_f pp id) (\<lambda>p.
         kbind (if i_number p = ino then kthen (imod pp (\<lambda>i. i\<lparr>i_count := cchar (i_count i + 1)\<rparr>)) (kret (Some pp))
                else iget (i_dev p) ino) (\<lambda>r.
         kthen
           (case r of
              None \<Rightarrow> kret ()
            | Some ip \<Rightarrow>
                kbind (iget_f ip id) (\<lambda>i.
                kbind (if i_mode i AND IFMT = IFDIR then suser else kret True) (\<lambda>ok.
                kthen (if \<not> ok then kret ()
                       else if i_dev i \<noteq> i_dev p then seterr EBUSY
                       else unlink_entry (cdevsw sw) pp ip)
                (iput ip))))
           (iput pp)))))"

definition chdirec :: "(user \<Rightarrow> nat option) \<Rightarrow> (nat \<Rightarrow> user \<Rightarrow> user) \<Rightarrow> (unit, 'a xst_scheme) kmon" where
  "chdirec gt st =
     kbind (namei uchar 0) (\<lambda>r.
     case r of
       None \<Rightarrow> kret ()
     | Some ip \<Rightarrow>
         kbind (iget_f ip i_mode) (\<lambda>m.
         if m AND IFMT \<noteq> IFDIR then kthen (seterr ENOTDIR) (iput ip)
         else
           kbind (access ip IEXEC) (\<lambda>denied.
           if denied then iput ip
           else
             kthen (prele ip)
             (kbind (uget gt) (\<lambda>old.
              kthen (case old of None \<Rightarrow> kret () | Some d \<Rightarrow> kthen (plock d) (iput d))
              (umod (st ip)))))))"

definition chdir :: "(unit, 'a xst_scheme) kmon" where
  "chdir = chdirec (\<lambda>v. Some (u_cdir v)) (\<lambda>ip v. v\<lparr>u_cdir := ip\<rparr>)"

definition chroot :: "(unit, 'a xst_scheme) kmon" where
  "chroot = kbind suser (\<lambda>su. kwhen su (chdirec u_rdir (\<lambda>ip v. v\<lparr>u_rdir := Some ip\<rparr>)))"

text \<open>The new mode of \<open>chmod\<close>: the type is kept; only the super-user may set the sticky bit.\<close>

definition new_mode :: "int \<Rightarrow> int \<Rightarrow> int \<Rightarrow> int" where
  "new_mode uid old fmode =
     (let fmode = (if uid \<noteq> 0 then fmode AND NOT ISVTX else fmode) in ushort ((old AND NOT 0xFFF) OR (fmode AND 0xFFF)))"

definition chmod :: "(unit, 'a xst_scheme) kmon" where
  "chmod =
     kbind owner (\<lambda>r.
     case r of
       None \<Rightarrow> kret ()
     | Some ip \<Rightarrow>
         kbind (uap 1) (\<lambda>fmode.
         kbind (uget u_uid) (\<lambda>uid.
         kthen (umod (\<lambda>v. if uid \<noteq> 0 then v\<lparr>u_arg := (u_arg v)[1 := fmode AND NOT ISVTX]\<rparr> else v))
         (kthen (imod ip (\<lambda>i. i\<lparr>i_mode := new_mode uid (i_mode i) fmode\<rparr>))
         (kthen (iset ip {ICHG})
         (kbind (iget_f ip id) (\<lambda>i.
          kthen (kwhen (ITEXT \<in> i_flag i \<and> i_mode i AND ISVTX = 0) (xrele ip))
          (iput ip))))))))"

definition chown :: "(unit, 'a xst_scheme) kmon" where
  "chown =
     kbind suser (\<lambda>su.
     if \<not> su then kret ()
     else
       kbind owner (\<lambda>r.
       case r of
         None \<Rightarrow> kret ()
       | Some ip \<Rightarrow>
           kbind (uap 1) (\<lambda>uid.
           kbind (uap 2) (\<lambda>gid.
           kthen (imod ip (\<lambda>i. i\<lparr>i_uid := short uid, i_gid := short gid\<rparr>))
           (kthen (iset ip {ICHG})
           (iput ip))))))"

section \<open>Signals\<close>

definition ssig :: "(unit, 'a kst_scheme) kmon" where
  "ssig =
     kbind (uap 0) (\<lambda>a.
     kbind (uap 1) (\<lambda>fun'.
     if a \<le> 0 \<or> a \<ge> int NSIG \<or> a = SIGKIL then seterr EINVAL
     else
       kthen (umod (\<lambda>v. v\<lparr>r_val1 := u_signal v (nat a), u_signal := (u_signal v)(nat a := fun')\<rparr>))
       (pmod_me (\<lambda>p. p\<lparr>p_sig := p_sig p - {nat a}\<rparr>))))"

text \<open>The processes a call of \<open>kill\<close> reaches.\<close>

definition kill_target :: "user \<Rightarrow> (nat \<Rightarrow> proc) \<Rightarrow> int \<Rightarrow> nat \<Rightarrow> bool" where
  "kill_target v procs pid p =
     (let priv = (pid = -1 \<and> u_uid v = 0); a = (if priv then 0 else pid) in
      p_stat (procs p) \<noteq> SNULL \<and>
      (a = 0 \<or> p_pid (procs p) = a) \<and>
      \<not> (a = 0 \<and> ((p_pgrp (procs p) \<noteq> p_pgrp (procs (u_procp v)) \<and> \<not> priv) \<or> p \<le> 1)) \<and>
      (u_uid v = 0 \<or> u_uid v = p_uid (procs p)))"

definition kill :: "(unit, 'a kst_scheme) kmon" where
  "kill =
     kbind (uap 0) (\<lambda>pid.
     kbind (uap 1) (\<lambda>signo.
     kbind (kget (\<lambda>s. filter (kill_target (u s) (proc s) pid) [0 ..< NPROC])) (\<lambda>ps.
     kthen (kfor ps (\<lambda>p. kpsignal p (nat (cuint signo))))
     (kwhen (ps = []) (seterr ESRCH)))))"

section \<open>Accounting, alarms and masks\<close>

definition times :: "(unit, 'a kst_scheme) kmon" where
  "times =
     kbind (uap 0) (\<lambda>tp.
     kbind (kget u) (\<lambda>v.
     kbind (copyout_k (enc 4 (u_utime v) @ enc 4 (u_stime v) @ enc 4 (u_cutime v) @ enc 4 (u_cstime v)) tp) (\<lambda>bad.
     kwhen bad (seterr EFAULT))))"

definition profil :: "(unit, 'a kst_scheme) kmon" where
  "profil = umod (\<lambda>v. v\<lparr>pr_base := u_arg v ! 0, pr_size := cuint (u_arg v ! 1), pr_off := cuint (u_arg v ! 2), pr_scale := cuint (u_arg v ! 3)\<rparr>)"

definition alarm :: "(unit, 'a kst_scheme) kmon" where
  "alarm =
     kbind (uap 0) (\<lambda>deltat.
     kbind (myproc p_clktim) (\<lambda>c.
     kthen (pmod_me (\<lambda>p. p\<lparr>p_clktim := deltat\<rparr>))
     (umod (\<lambda>v. v\<lparr>r_val1 := c\<rparr>))))"

definition pause :: "(unit, 'a kst_scheme) kmon" where
  "pause = ksleep Ch_u PSLEP"

definition umask :: "(unit, 'a kst_scheme) kmon" where
  "umask = umod (\<lambda>v. v\<lparr>u_cmask := u_arg v ! 0 AND 0x1FF, r_val1 := u_cmask v\<rparr>)"

text \<open>On a fault \<open>utime\<close> returns without giving up the inode.\<close>

definition utime :: "(unit, 'a xst_scheme) kmon" where
  "utime =
     kbind (uap 1) (\<lambda>tptr.
     kbind owner (\<lambda>r.
     case r of
       None \<Rightarrow> kret ()
     | Some ip \<Rightarrow>
         kbind (copyin_k tptr 8) (\<lambda>tv.
         case tv of
           None \<Rightarrow> seterr EFAULT
         | Some bs \<Rightarrow>
             kthen (iset ip {IACC, IUPD, ICHG})
             (kthen (iupdat ip (i32 (take 4 bs)) (i32 (drop 4 bs)))
             (iput ip)))))"

lemma krun_sys [krun]:
  "kbind (uap n) f s = f (u_arg (u s) ! n) s" "kbind (myproc g) f' s = f' (g (proc s (u_procp (u s)))) s"
  "kthen (pmod_me h) m s = m (s\<lparr>proc := (proc s)(u_procp (u s) := h (proc s (u_procp (u s))))\<rparr>)"
  "pmod_me h s = Ok () (s\<lparr>proc := (proc s)(u_procp (u s) := h (proc s (u_procp (u s))))\<rparr>)"
  by (simp_all add: uap_def myproc_def pmod_me_def krun)

end
