(* ===== verification/Fio_Props.thy ===== *)
theory Fio_Props
  imports Sys4
begin

text \<open>
  Properties of descriptors, permissions and of the simple system calls: the permission table implemented by \<open>access\<close>, the
  descriptors and file slots handed out by \<open>falloc\<close>, the rejection of bad descriptors, the bounds kept by \<open>nice\<close>, and the
  inode that \<open>utime\<close> leaves locked.
\<close>

lemma run_base: "kret x s = Ok x s" "kmod f t = Ok () (f t)"
  by (simp_all add: kret_def kmod_def)

section \<open>Permissions\<close>







lemma imode_pow2: "IREAD = 2 ^ 8" "IWRITE = 2 ^ 7" "IEXEC = 2 ^ 6"
  by (simp_all add: imode_defs)



section \<open>Descriptors\<close>

definition free_fd :: "user \<Rightarrow> nat option" where
  "free_fd v = find (\<lambda>i. u_ofile v i = None) [0 ..< NOFILE]"

definition free_file :: "'a fss_scheme \<Rightarrow> nat option" where
  "free_file s = find (\<lambda>fp. f_count (file_t s fp) = 0) [0 ..< NFILE]"

text \<open>
  \<^verbatim>\<open>falloc\<close> gives the lowest free descriptor and the first unused file entry, with reference count 1 and offset 0, and
  returns the descriptor in \<^verbatim>\<open>r_val1\<close>; no other descriptor and no file in use changes. With all 20 descriptors open it fails with \<^verbatim>\<open>EMFILE\<close>; with the file
  table full it fails with \<^verbatim>\<open>ENFILE\<close> and no descriptor is opened.
\<close>

theorem falloc_lowest:
  "case free_fd (u s) of
     None \<Rightarrow> falloc s = Ok None (s\<lparr>u := (u s)\<lparr>u_error := EMFILE\<rparr>\<rparr>) \<and> (\<forall>i<NOFILE. u_ofile (u s) i \<noteq> None)
   | Some fd \<Rightarrow> u_ofile (u s) fd = None \<and> fd < NOFILE \<and> (\<forall>i<fd. u_ofile (u s) i \<noteq> None) \<and>
       (case free_file s of
          None \<Rightarrow> (\<forall>fp<NFILE. f_count (file_t s fp) \<noteq> 0) \<and> (\<exists>t. falloc s = Ok None t \<and> u_error (u t) = ENFILE \<and> u_ofile (u t) = u_ofile (u s) \<and> file_t t = file_t s)
        | Some fp \<Rightarrow> f_count (file_t s fp) = 0 \<and> fp < NFILE \<and> (\<forall>q<fp. f_count (file_t s q) \<noteq> 0) \<and>
            (\<exists>t. falloc s = Ok (Some fp) t \<and> r_val1 (u t) = int fd \<and> u_error (u t) = u_error (u s) \<and>
              u_ofile (u t) = (u_ofile (u s))(fd := Some fp) \<and> file_t t = (file_t s)(fp := (file_t s fp)\<lparr>f_count := 1, f_offset := 0\<rparr>)))"
proof (cases "free_fd (u s)")
  case None
  then show ?thesis
    by (simp add: falloc_def ufalloc_def krun run_base free_fd_def) (simp add: find_upt_None)
next
  case (Some fd)
  then have fd: "u_ofile (u s) fd = None" "fd < NOFILE" "\<forall>i<fd. u_ofile (u s) i \<noteq> None" by (auto simp: free_fd_def find_upt_Some)
  let ?s = "s\<lparr>u := (u s)\<lparr>r_val1 := int fd, u_pofile := (u_pofile (u s))(fd := 0)\<rparr>\<rparr>"
  have e: "ufalloc s = Ok (int fd) ?s"
    using Some by (simp add: ufalloc_def krun run_base free_fd_def)
  have ff: "find (\<lambda>fp. f_count (file_t ?s fp) = 0) [0 ..< NFILE] = free_file s" by (simp add: free_file_def)
  show ?thesis
  proof (cases "free_file s")
    case None
    then have "falloc s = kthen (kprint (''no file'' @ [CHR 0x0A]) []) (kthen (seterr ENFILE) (kret None)) ?s"
      using ff by (simp add: falloc_def kbind_Ok [of ufalloc, OF e] krun)
    then show ?thesis using Some None fd by (simp add: kprint_def krun run_base) (simp add: free_file_def find_upt_None)
  next
    case (Some fp)
    then have fp: "f_count (file_t s fp) = 0" "fp < NFILE" "\<forall>q<fp. f_count (file_t s q) \<noteq> 0" by (auto simp: free_file_def find_upt_Some)
    then show ?thesis using Some \<open>free_fd (u s) = Some fd\<close> fd ff by (simp add: falloc_def kbind_Ok [of ufalloc, OF e] krun run_base)
  qed
qed

text \<open>A descriptor that does not name an open file.\<close>

definition bad_fd :: "user \<Rightarrow> int \<Rightarrow> bool" where
  "bad_fd v f \<longleftrightarrow> f < 0 \<or> int NOFILE \<le> f \<or> u_ofile v (nat f) = None"

lemma getf_run: "getf f s = (if bad_fd (u s) f then Ok None (s\<lparr>u := (u s)\<lparr>u_error := EBADF\<rparr>\<rparr>) else Ok (u_ofile (u s) (nat f)) s)"
  by (auto simp: getf_def bad_fd_def krun run_base)

text \<open>
  \<^verbatim>\<open>read\<close>, \<^verbatim>\<open>write\<close>, \<^verbatim>\<open>close\<close>, \<^verbatim>\<open>seek\<close> and \<^verbatim>\<open>fstat\<close> on a number that is not an open descriptor, and \<^verbatim>\<open>read\<close> and \<^verbatim>\<open>write\<close> on a file not opened for it, fail with \<^verbatim>\<open>EBADF\<close> and
  change nothing else: no lock is taken, no offset moved, nothing transferred.
\<close>

theorem bad_descriptor_rejected:
  "let e = Ok () (s\<lparr>u := (u s)\<lparr>u_error := EBADF\<rparr>\<rparr>) in
   if bad_fd (u s) (u_arg (u s) ! 0) then read_call sw s = e \<and> write_call sw s = e \<and> close sw s = e \<and> seek s = e \<and> fstat pad s = e
   else (let fl = f_flag (file_t s (the (u_ofile (u s) (nat (u_arg (u s) ! 0))))) in
     (if FREAD \<notin> fl then read_call sw s = e else True) \<and> (if FWRITE \<notin> fl then write_call sw s = e else True))"
proof (cases "bad_fd (u s) (u_arg (u s) ! 0)")
  case True
  note g = kbind_Ok [of "getf _", OF getf_run [THEN trans, OF if_P [OF True]]]
  show ?thesis using True
    by (simp add: read_call_def write_call_def rdwr_def close_def seek_def fstat_def krun g run_base Let_def)
next
  case False
  then obtain fp where fp: "u_ofile (u s) (nat (u_arg (u s) ! 0)) = Some fp" by (auto simp: bad_fd_def)
  have g: "getf (u_arg (u s) ! 0) s = Ok (Some fp) s" using False fp by (simp add: getf_run)
  show ?thesis using False fp
    by (auto simp: read_call_def write_call_def rdwr_def krun kbind_Ok [of "getf _", OF g] run_base Let_def)
qed

section \<open>\<^verbatim>\<open>nice\<close>\<close>

text \<open>
  \<^verbatim>\<open>nice\<close> keeps the nice value between 0 and 39, and only the super-user can make it smaller: without privilege a negative argument is
  refused with \<^verbatim>\<open>EPERM\<close> and leaves the value as it is.
\<close>

theorem nice_bounds:
  assumes "0 \<le> p_nice (proc s (u_procp (u s)))" "p_nice (proc s (u_procp (u s))) < 2 * NZERO" "- (2 ^ 31) \<le> u_arg (u s) ! 0" "u_arg (u s) ! 0 < 2 ^ 31 - 64"
  shows "\<exists>t. nice s = Ok () t \<and> (let n = u_arg (u s) ! 0; old = p_nice (proc s (u_procp (u s))); new = p_nice (proc t (u_procp (u s))) in
    0 \<le> new \<and> new < 2 * NZERO \<and>
    (if n < 0 \<and> u_uid (u s) \<noteq> 0 then new = old \<and> u_error (u t) = EPERM else new = max 0 (min 39 (old + n)) \<and> u_error (u t) = u_error (u s)))"
proof -
  let ?n = "u_arg (u s) ! 0" let ?o = "p_nice (proc s (u_procp (u s)))"
  have o: "?o < 40" using assms(2) by (simp add: NZERO_def)
  then have c: "cint (?n + ?o) = ?n + ?o" "cint ?o = ?o" using assms by (auto intro!: cint_id)
  show ?thesis
  proof (cases "?n < 0")
    case True
    then show ?thesis using assms(1) o c by (auto simp: nice_def suser_def krun run_base NZERO_def Let_def max_def min_def)
  next
    case False
    then show ?thesis using assms(1) o c by (auto simp: nice_def krun run_base NZERO_def Let_def max_def min_def)
  qed
qed

section \<open>\<^verbatim>\<open>utime\<close>\<close>

text \<open>
  C38: when the times cannot be read from the caller, \<^verbatim>\<open>utime\<close> returns \<^verbatim>\<open>EFAULT\<close> without releasing the inode \<^verbatim>\<open>owner\<close> gave it: the inode stays locked
  and referenced after the call, and whoever uses the file next sleeps.
\<close>

theorem utime_keeps_lock:
  assumes "owner s = Ok (Some ip) t" "length (umapped (u_arg (u s) ! 1) 8 t) < 8" "ILOCK \<in> i_flag (inode t ip)"
  shows "\<exists>v. utime s = Ok () v \<and> u_error (u v) = EFAULT \<and> inode v = inode t \<and> plock ip v = Slept (Ch_inode ip) PINOD (v\<lparr>inode := (inode v)(ip := (inode v ip)\<lparr>i_flag := i_flag (inode v ip) \<union> {IWANT}\<rparr>)\<rparr>)"
proof -
  have "utime s = Ok () (t\<lparr>u := (u t)\<lparr>u_error := EFAULT\<rparr>\<rparr>)"
    using assms(2) by (simp add: utime_def krun kbind_Ok [of owner, OF assms(1)] copyin_k_def run_base)
  then show ?thesis using assms(3) by (simp add: plock_def krun ksleep_def)
qed

section \<open>Witnesses\<close>

text \<open>
  The boot state with an empty text table, a current directory in slot 3 (owner 0, mode 0750, group 5) and the empty path name at address 100.
\<close>

definition xs0 :: xst where
  "xs0 = (fss.extend fs_boot (xst.fields (\<lambda>_. \<lparr>x_daddr = 0, x_caddr = 0, x_size = 0, x_iptr = None, x_count = 0, x_ccount = 0, x_flag = {}\<rparr>) [] [] None))
     \<lparr>inode := (\<lambda>_. inode0)(3 := inode0\<lparr>i_number := 2, i_count := 1, i_mode := 0x41E8, i_gid := 5\<rparr>),
      u := user0\<lparr>u_cdir := 3, u_dirp := 100, u_arg := [100, 200, 0, 0, 0]\<rparr>, umem := [100 \<mapsto> 0]\<rparr>"

lemma xs0_sel: "inode xs0 = (\<lambda>_. inode0)(3 := inode0\<lparr>i_number := 2, i_count := 1, i_mode := 0x41E8, i_gid := 5\<rparr>)"
  "u xs0 = user0\<lparr>u_cdir := 3, u_dirp := 100, u_arg := [100, 200, 0, 0, 0]\<rparr>" "umem xs0 = [100 \<mapsto> 0]" "file_t xs0 = file_t fs_boot" "proc xs0 = proc fs_boot"
  by (simp_all add: xs0_def fss.defs xst.defs fs_boot_def)


theorem falloc_lowest_witness: "\<exists>t. falloc xs0 = Ok (Some 0) t \<and> r_val1 (u t) = 0 \<and> u_ofile (u t) 0 = Some 0 \<and> f_count (file_t t 0) = 1"
proof -
  have f: "free_fd (u xs0) = Some 0" "free_file xs0 = Some 0"
    unfolding free_fd_def free_file_def find_upt_Some by (simp_all add: xs0_sel user0_def fs_boot_def NOFILE_def NFILE_def)
  show ?thesis using falloc_lowest [of xs0] unfolding f by auto
qed

theorem nice_bounds_witness: "\<exists>t. nice (xs0\<lparr>u := (u xs0)\<lparr>u_arg := [60]\<rparr>\<rparr>) = Ok () t \<and> p_nice (proc t 0) = 39"
proof -
  let ?s = "xs0\<lparr>u := (u xs0)\<lparr>u_arg := [60]\<rparr>\<rparr>"
  have "p_nice (proc ?s (u_procp (u ?s))) = 0" "u_procp (u ?s) = 0" by (simp_all add: xs0_sel fs_boot_def proc0_def user0_def)
  then show ?thesis using nice_bounds [of ?s] by (auto simp: NZERO_def Let_def)
qed

lemma owner_here: "\<exists>t. owner xs0 = Ok (Some 3) t \<and> ILOCK \<in> i_flag (inode t 3) \<and> umem t = umem xs0"
proof -
  let ?s = "xs0\<lparr>u := (u xs0)\<lparr>u_dirp := 101\<rparr>\<rparr>"
  let ?t = "?s\<lparr>inode := (inode xs0)(3 := (inode xs0 3)\<lparr>i_count := 2, i_flag := {ILOCK}\<rparr>)\<rparr>"
  have c: "uchar xs0 = Ok 0 ?s" by (simp add: uchar_def krun run_base xs0_sel user0_def)
  have f: "find_inode 0 2 ?s = Some 3" unfolding find_inode_def find_upt_Some by (auto simp: xs0_sel inode0_def NINODE_def)
  have g: "iget 0 2 ?s = Ok (Some 3) ?t"
    using f by (simp add: iget_def iget_loop.simps krun run_base) (simp add: xs0_sel inode0_def)
  obtain n where n: "ADDRS = Suc n" by (cases ADDRS) (auto simp: ADDRS_def)
  have d: "i_dev (inode xs0 3) = 0" "i_number (inode xs0 3) = 2" "u_cdir (u xs0) = 3" "u_error (u xs0) = 0" "u_uid (u xs0) = 0" "i_uid (inode xs0 3) = 0"
    by (simp_all add: xs0_sel inode0_def user0_def)
  have "namei uchar 0 xs0 = Ok (Some 3) ?t"
    using d by (simp add: namei_def krun kbind_Ok [of uchar, OF c] kthen_Ok [of "iget _ _", OF g] n skip_slash.simps cloop.simps SLASH_def run_base)
  then have "owner xs0 = Ok (Some 3) ?t" using d by (simp add: owner_def kbind_Ok [of "namei _ _"] krun run_base)
  then show ?thesis by (intro exI [of _ ?t]) simp
qed

theorem utime_keeps_lock_witness: "\<exists>v. utime xs0 = Ok () v \<and> u_error (u v) = EFAULT \<and> ILOCK \<in> i_flag (inode v 3)"
proof -
  obtain t where t: "owner xs0 = Ok (Some 3) t" "ILOCK \<in> i_flag (inode t 3)" "umem t = umem xs0" using owner_here by blast
  have "length (umapped (u_arg (u xs0) ! 1) 8 t) < 8" using t(3) by (simp add: umapped_def xs0_sel user0_def upt_conv_Cons)
  from utime_keeps_lock [OF t(1) this t(2)] t(2) show ?thesis by auto
qed

end
