(* ===== verification/Proc_Spec.thy ===== *)
theory Proc_Spec
  imports Proc
begin

text \<open>
  Correctness of the process queues: the sleep queues and the run queue are disjoint lists through \<^verbatim>\<open>p_link\<close>, a process with a
  wait channel is on the queue of that channel, and \<open>wakeup\<close> moves exactly the sleepers of the channel to the run queue.
  Also bounds on priorities, the choice made by \<open>swtch\<close>, and fresh process ids.
\<close>

section \<open>Linked lists\<close>

fun lseg :: "(nat \<Rightarrow> nat option) \<Rightarrow> nat option \<Rightarrow> nat list \<Rightarrow> nat option \<Rightarrow> bool" where
  "lseg lk p [] e \<longleftrightarrow> p = e"
| "lseg lk p (x # xs) e \<longleftrightarrow> p = Some x \<and> lseg lk (lk x) xs e"

lemma lseg_append [simp]: "lseg lk p (xs @ ys) e \<longleftrightarrow> (\<exists>m. lseg lk p xs m \<and> lseg lk m ys e)"
  by (induction xs arbitrary: p) auto

lemma lseg_cong: "(\<And>x. x \<in> set xs \<Longrightarrow> lk' x = lk x) \<Longrightarrow> lseg lk' p xs e = lseg lk p xs e"
  by (induction xs arbitrary: p) auto

lemma lseg_chain: "lseg lk p xs None \<Longrightarrow> length xs \<le> n \<Longrightarrow> chain n lk p = xs"
proof (induction n lk p arbitrary: xs rule: chain.induct)
  case (3 n lk p)
  then show ?case by (cases xs) auto
next
  case (2 n lk)
  then show ?case by (cases xs) auto
qed auto

section \<open>The queues\<close>

text \<open>\<open>Q None\<close> is the run queue, \<open>Q (Some i)\<close> the sleep queue \<open>i\<close>.\<close>

definition head :: "'a kst_scheme \<Rightarrow> nat option \<Rightarrow> nat option" where
  "head s k = (case k of None \<Rightarrow> runq s | Some i \<Rightarrow> slpque s i)"

definition qlists_ok :: "'a kst_scheme \<Rightarrow> (nat option \<Rightarrow> nat list) \<Rightarrow> bool" where
  "qlists_ok s Q \<longleftrightarrow> (\<forall>k. lseg (links s) (head s k) (Q k) None \<and> distinct (Q k) \<and> (\<forall>p\<in>set (Q k). p < NPROC)) \<and>
     (\<forall>k l. k \<noteq> l \<longrightarrow> set (Q k) \<inter> set (Q l) = {})"

definition sleepers_ok :: "(chan \<Rightarrow> nat) \<Rightarrow> 'a kst_scheme \<Rightarrow> (nat option \<Rightarrow> nat list) \<Rightarrow> bool" where
  "sleepers_ok h s Q \<longleftrightarrow> (\<forall>p c. p_wchan (proc s p) = Some c \<longrightarrow> p \<in> set (Q (Some (h c))) \<and> p_stat (proc s p) \<noteq> SNULL \<and> p_stat (proc s p) \<noteq> SZOMB) \<and>
     (\<forall>i. \<forall>p\<in>set (Q (Some i)). p_wchan (proc s p) \<noteq> None)"

definition queues_ok :: "(chan \<Rightarrow> nat) \<Rightarrow> 'a kst_scheme \<Rightarrow> (nat option \<Rightarrow> nat list) \<Rightarrow> bool" where
  "queues_ok h s Q \<longleftrightarrow> qlists_ok s Q \<and> sleepers_ok h s Q"

lemma qlists_disj: "qlists_ok s Q \<Longrightarrow> k \<noteq> l \<Longrightarrow> x \<in> set (Q k) \<Longrightarrow> x \<notin> set (Q l)"
  unfolding qlists_ok_def by blast

lemma qlists_distinct: "qlists_ok s Q \<Longrightarrow> Q k = xs \<Longrightarrow> distinct xs"
  unfolding qlists_ok_def by blast

lemma queue_length:
  assumes "qlists_ok s Q"
  shows "length (Q k) \<le> NPROC"
proof -
  have "distinct (Q k)" "set (Q k) \<subseteq> {0 ..< NPROC}" using assms by (auto simp: qlists_ok_def)
  then have "length (Q k) \<le> card {0 ..< NPROC}"
    by (metis card_mono distinct_card finite_atLeastLessThan)
  then show ?thesis by simp
qed

lemma runq_list_ok: "qlists_ok s Q \<Longrightarrow> runq_list s = Q None"
  unfolding runq_list_def using queue_length [of s Q None]
  by (intro lseg_chain) (auto simp: qlists_ok_def head_def split: option.splits)

lemma queue_wchan: "queues_ok h s Q \<Longrightarrow> p \<in> set (Q (Some i)) \<Longrightarrow> \<exists>c. p_wchan (proc s p) = Some c \<and> h c = i"
  unfolding queues_ok_def sleepers_ok_def qlists_ok_def by (metis disjoint_iff not_Some_eq option.inject)

lemma wchan_queue: "queues_ok h s Q \<Longrightarrow> p_wchan (proc s p) = Some c \<Longrightarrow> p \<in> set (Q (Some (h c)))"
  by (auto simp: queues_ok_def sleepers_ok_def)

text \<open>Processes \<open>P\<close> have gone from the sleep queues to the run queue; nothing else has changed but links and scheduling flags.\<close>

definition awake :: "proc \<Rightarrow> proc" where
  "awake x = x\<lparr>p_stat := SRUN, p_wchan := None\<rparr>"

definition nolink :: "proc \<Rightarrow> proc" where
  "nolink x = x\<lparr>p_link := None\<rparr>"

definition no_sched :: "'a kst_scheme \<Rightarrow> 'a kst_scheme" where
  "no_sched s = s\<lparr>runq := None, slpque := (\<lambda>_. None), proc := (\<lambda>_. proc0), runrun := 0, runout := 0\<rparr>"

definition sched_frame :: "'a kst_scheme \<Rightarrow> 'a kst_scheme \<Rightarrow> bool" where
  "sched_frame s t \<longleftrightarrow> no_sched t = no_sched s"

lemma no_sched_simps [simp]:
  "no_sched (s\<lparr>runq := a\<rparr>) = no_sched s" "no_sched (s\<lparr>slpque := b\<rparr>) = no_sched s" "no_sched (s\<lparr>proc := c\<rparr>) = no_sched s"
  "no_sched (s\<lparr>runrun := d\<rparr>) = no_sched s" "no_sched (s\<lparr>runout := d\<rparr>) = no_sched s"
  by (simp_all add: no_sched_def)

definition moved :: "nat set \<Rightarrow> 'a kst_scheme \<Rightarrow> (nat option \<Rightarrow> nat list) \<Rightarrow> 'a kst_scheme \<Rightarrow> (nat option \<Rightarrow> nat list) \<Rightarrow> bool" where
  "moved P s Q t Q' \<longleftrightarrow> (\<forall>i. Q' (Some i) = filter (\<lambda>p. p \<notin> P) (Q (Some i))) \<and> set (Q' None) = set (Q None) \<union> P \<and>
     (\<forall>p. nolink (proc t p) = (if p \<in> P then awake (nolink (proc s p)) else nolink (proc s p))) \<and> sched_frame s t"

lemma sched_frame_trans: "sched_frame s t \<Longrightarrow> sched_frame t v \<Longrightarrow> sched_frame s v"
  by (simp add: sched_frame_def)

lemma awake_awake [simp]: "awake (awake x) = awake x"
  by (simp add: awake_def)

lemma nolink_sel: "nolink x = nolink y \<Longrightarrow> p_wchan x = p_wchan y \<and> p_stat x = p_stat y \<and> p_flag x = p_flag y \<and> p_pri x = p_pri y"
  unfolding nolink_def by (cases x, cases y) simp

lemma nolink_awake: "nolink x = awake (nolink y) \<Longrightarrow> p_wchan x = None \<and> p_stat x = SRUN \<and> p_flag x = p_flag y"
  unfolding nolink_def awake_def by (cases x, cases y) simp

lemma moved_trans:
  assumes "moved P s Q t Q1" "moved P' t Q1 v Q2"
  shows "moved (P \<union> P') s Q v Q2"
proof -
  have "Q2 (Some i) = filter (\<lambda>p. p \<notin> P \<union> P') (Q (Some i))" for i
    using assms by (auto simp: moved_def intro: filter_cong)
  moreover have "nolink (proc v p) = (if p \<in> P \<union> P' then awake (nolink (proc s p)) else nolink (proc s p))" for p
    using assms by (simp add: moved_def)
  ultimately show ?thesis using assms sched_frame_trans by (auto simp: moved_def)
qed

lemma moved_refl: "moved {} s Q s Q"
  by (simp add: moved_def sched_frame_def)

text \<open>What a move leaves of the wait channels.\<close>

lemma moved_wchan:
  assumes "moved P s Q t Q'"
  shows "p_wchan (proc t p) = (if p \<in> P then None else p_wchan (proc s p))"
    "p_stat (proc t p) = (if p \<in> P then SRUN else p_stat (proc s p))" "p_flag (proc t p) = p_flag (proc s p)"
  using assms nolink_sel nolink_awake unfolding moved_def by (metis (full_types))+

section \<open>Pushing on the run queue\<close>

lemma setrq_push:
  assumes "qlists_ok s Q" "\<forall>k. p \<notin> set (Q k)" "p < NPROC"
  shows "\<exists>t. setrq p s = Ok () t \<and> qlists_ok t (Q(None := p # Q None)) \<and>
    t = s\<lparr>runq := Some p, proc := (proc s)(p := (proc s p)\<lparr>p_link := runq s\<rparr>)\<rparr>"
proof -
  let ?t = "s\<lparr>runq := Some p, proc := (proc s)(p := (proc s p)\<lparr>p_link := runq s\<rparr>)\<rparr>"
  have "setrq p s = Ok () ?t"
    using runq_list_ok [OF assms(1)] assms(2) by (simp add: setrq_def krun kmod_def)
  moreover have "lseg (links ?t) (head ?t k) ((Q(None := p # Q None)) k) None" for k
  proof -
    have "lseg (links ?t) e (Q l) None = lseg (links s) e (Q l) None" for e l
      using assms(2) by (intro lseg_cong) (auto simp: links_def)
    then show ?thesis using assms(1) by (auto simp: qlists_ok_def head_def links_def split: option.splits)
  qed
  then have "qlists_ok ?t (Q(None := p # Q None))" using assms by (simp add: qlists_ok_def)
  ultimately show ?thesis by blast
qed

section \<open>Unlinking\<close>

definition hd_opt :: "nat list \<Rightarrow> nat option" where
  "hd_opt xs = (case xs of [] \<Rightarrow> None | x # _ \<Rightarrow> Some x)"

definition last_opt :: "nat list \<Rightarrow> nat option" where
  "last_opt xs = (if xs = [] then None else Some (last xs))"

lemma hd_opt_simps [simp]: "hd_opt [] = None" "hd_opt (x # xs) = Some x"
  by (simp_all add: hd_opt_def)

lemma last_opt_simps [simp]: "last_opt [] = None" "last_opt (xs @ [x]) = Some x"
  by (simp_all add: last_opt_def)

lemma lseg_hd: "lseg lk e xs None \<Longrightarrow> e = hd_opt xs"
  by (cases xs) auto

lemma queue_head: "qlists_ok s Q \<Longrightarrow> head s k = hd_opt (Q k)"
  using lseg_hd unfolding qlists_ok_def by blast

text \<open>The successor of the removed entry is stored into its predecessor \<open>q\<close>, or into the head of the queue.\<close>

definition cut :: "nat option \<Rightarrow> nat option \<Rightarrow> nat option \<Rightarrow> 'a kst_scheme \<Rightarrow> 'a kst_scheme" where
  "cut k q l s = (case q of
     None \<Rightarrow> (case k of None \<Rightarrow> s\<lparr>runq := l\<rparr> | Some i \<Rightarrow> s\<lparr>slpque := (slpque s)(i := l)\<rparr>)
   | Some q \<Rightarrow> s\<lparr>proc := (proc s)(q := (proc s q)\<lparr>p_link := l\<rparr>)\<rparr>)"

lemma cut_keeps: "nolink (proc (cut k q l s) p) = nolink (proc s p)" "sched_frame s (cut k q l s)" "runout (cut k q l s) = runout s"
  by (auto simp: cut_def nolink_def sched_frame_def split: option.splits)

lemma lseg_remove:
  assumes "lseg lk e (A @ p # B) None" "distinct (A @ p # B)"
  shows "lseg (case last_opt A of None \<Rightarrow> lk | Some q \<Rightarrow> lk(q := lk p)) (case last_opt A of None \<Rightarrow> lk p | Some q \<Rightarrow> e) (A @ B) None"
proof (cases A rule: rev_cases)
  case Nil
  then show ?thesis using assms by simp
next
  case (snoc A' q)
  let ?lk = "lk(q := lk p)"
  have "lseg ?lk m B None = lseg lk m B None" "lseg ?lk m' A' e' = lseg lk m' A' e'" for m m' e'
    using assms(2) snoc by (intro lseg_cong; auto)+
  then show ?thesis using assms snoc by auto
qed

lemma cut_ok:
  assumes "qlists_ok s Q" "Q k = A @ p # B"
  shows "qlists_ok (cut k (last_opt A) (links s p) s) (Q(k := A @ B))"
proof -
  let ?t = "cut k (last_opt A) (links s p) s"
  have l: "lseg (links s) (head s j) (Q j) None" "distinct (Q j)" for j using assms(1) by (auto simp: qlists_ok_def)
  have lk: "links ?t = (case last_opt A of None \<Rightarrow> links s | Some q \<Rightarrow> (links s)(q := links s p))"
    by (auto simp: cut_def links_def split: option.splits)
  have hd: "head ?t j = (if j = k \<and> last_opt A = None then links s p else head s j)" for j
    by (auto simp: cut_def head_def split: option.splits)
  have "lseg (links ?t) (head ?t j) ((Q(k := A @ B)) j) None" for j
  proof (cases "j = k")
    case True
    then show ?thesis using lseg_remove [of "links s" "head s k" A p B] l [of k] assms(2)
      by (simp add: lk hd split: option.splits)
  next
    case False
    have "lseg (links ?t) e (Q j) None = lseg (links s) e (Q j) None" for e
    proof (intro lseg_cong)
      fix x assume "x \<in> set (Q j)"
      then have "x \<notin> set (Q k)" using qlists_disj [OF assms(1) False] by blast
      then have "x \<notin> set A" using assms(2) by simp
      then show "links ?t x = links s x" unfolding lk by (auto simp: last_opt_def)
    qed
    then show ?thesis using False l [of j] by (simp add: hd)
  qed
  moreover have "distinct ((Q(k := A @ B)) j)" "set ((Q(k := A @ B)) j) \<subseteq> set (Q j)" for j
    using l(2) [of j] l(2) [of k] assms(2) by (cases "j = k"; auto)+
  moreover from this(2) have "x < NPROC" if "x \<in> set ((Q(k := A @ B)) j)" for x j
    using assms(1) that by (auto simp: qlists_ok_def simp del: fun_upd_apply)
  moreover from calculation(3) have "set ((Q(k := A @ B)) i) \<inter> set ((Q(k := A @ B)) j) = {}" if "i \<noteq> j" for i j
    using qlists_disj [OF assms(1) that] by blast
  ultimately show ?thesis unfolding qlists_ok_def by blast
qed

lemma qlists_nolink: "qlists_ok s Q \<Longrightarrow> p_link y = p_link (proc s p) \<Longrightarrow> qlists_ok (s\<lparr>proc := (proc s)(p := y)\<rparr>) Q"
proof -
  assume a: "qlists_ok s Q" "p_link y = p_link (proc s p)"
  then have "links (s\<lparr>proc := (proc s)(p := y)\<rparr>) = links s" "head (s\<lparr>proc := (proc s)(p := y)\<rparr>) = head s"
    by (auto simp: links_def head_def fun_eq_iff split: option.splits)
  then show ?thesis using a by (simp add: qlists_ok_def)
qed

text \<open>A sleeper taken off its queue, with its wait channel cleared.\<close>

definition taken :: "nat option \<Rightarrow> nat list \<Rightarrow> nat \<Rightarrow> 'a kst_scheme \<Rightarrow> 'a kst_scheme" where
  "taken k A p s = (let t = cut k (last_opt A) (links s p) s in t\<lparr>proc := (proc t)(p := (proc t p)\<lparr>p_wchan := None\<rparr>)\<rparr>)"

lemma nolink_wchan: "nolink a = nolink b \<Longrightarrow> nolink (a\<lparr>p_wchan := None\<rparr>) = (nolink b)\<lparr>p_wchan := None\<rparr>"
  by (cases a, cases b) (simp add: nolink_def)

lemma taken_proc: "nolink (proc (taken k A p s) x) = (if x = p then (nolink (proc s x))\<lparr>p_wchan := None\<rparr> else nolink (proc s x))"
  using cut_keeps(1) [of k "last_opt A" "links s p" s x] nolink_wchan by (auto simp: taken_def Let_def)

lemma taken_frame: "sched_frame s (taken k A p s)" "runout (taken k A p s) = runout s"
proof -
  have "sched_frame t (t\<lparr>proc := x\<rparr>)" for t :: "'a kst_scheme" and x by (simp add: sched_frame_def)
  then show "sched_frame s (taken k A p s)" unfolding taken_def Let_def using cut_keeps(2) sched_frame_trans by blast
qed (simp add: taken_def Let_def cut_keeps)

lemma taken_ok:
  assumes "queues_ok h s Q" "Q (Some i) = A @ p # B"
  shows "queues_ok h (taken (Some i) A p s) (Q(Some i := A @ B))" "\<forall>k. p \<notin> set ((Q(Some i := A @ B)) k)"
    "p_wchan (proc (taken (Some i) A p s) p) = None" "p_stat (proc (taken (Some i) A p s) p) = p_stat (proc s p)"
proof -
  let ?t = "taken (Some i) A p s"
  have q: "qlists_ok s Q" "distinct (A @ p # B)" using assms qlists_distinct unfolding queues_ok_def by blast+
  have x: "p_wchan (proc ?t x) = (if x = p then None else p_wchan (proc s x))" "p_stat (proc ?t x) = p_stat (proc s x)" for x
    using taken_proc [of "Some i" A p s x] unfolding nolink_def by (cases "proc ?t x"; cases "proc s x"; auto split: if_splits)+
  then show "p_wchan (proc ?t p) = None" "p_stat (proc ?t p) = p_stat (proc s p)" by auto
  have "qlists_ok ?t (Q(Some i := A @ B))"
    unfolding taken_def Let_def by (rule qlists_nolink) (use cut_ok [OF q(1) assms(2)] in auto)
  moreover have n: "p \<notin> set (Q k)" if "k \<noteq> Some i" for k
    using qlists_disj [OF q(1), of "Some i" k p] assms(2) that by auto
  have m: "y \<in> set ((Q(Some i := A @ B)) k) \<longleftrightarrow> y \<in> set (Q k) \<and> y \<noteq> p" for y k
    using q(2) assms(2) n [of k] by (cases "k = Some i") auto
  have "sleepers_ok h ?t (Q(Some i := A @ B))"
    using assms(1) by (simp add: queues_ok_def sleepers_ok_def x m Ball_def del: fun_upd_apply) blast
  ultimately show "queues_ok h ?t (Q(Some i := A @ B))" by (simp add: queues_ok_def)
  show "\<forall>k. p \<notin> set ((Q(Some i := A @ B)) k)" by (simp add: m del: fun_upd_apply)
qed

lemma moved_taken:
  assumes "moved (insert p P) (taken (Some i) A p s) (Q(Some i := A @ B)) t Q'" "Q (Some i) = A @ p # B"
  shows "moved (insert p P) s Q t Q'"
proof -
  let ?s = "taken (Some i) A p s"
  note m = assms(1) [unfolded moved_def]
  have "Q' (Some j) = filter (\<lambda>x. x \<notin> insert p P) (Q (Some j))" for j
    using m assms(2) by (cases "j = i") simp_all
  moreover have "set (Q' None) = set (Q None) \<union> insert p P" using m by simp
  moreover have "nolink (proc t x) = (if x \<in> insert p P then awake (nolink (proc s x)) else nolink (proc s x))" for x
  proof -
    have "nolink (proc t x) = (if x \<in> insert p P then awake (nolink (proc ?s x)) else nolink (proc ?s x))" using m by blast
    then show ?thesis by (simp add: taken_proc awake_def)
  qed
  moreover have "sched_frame s t" using m sched_frame_trans [OF taken_frame(1)] by blast
  ultimately show ?thesis unfolding moved_def by blast
qed

section \<open>\<^verbatim>\<open>wakeup\<close>\<close>

text \<open>What the walk needs of \<open>setrun\<close>: it puts the process on the run queue and may wake sleepers of the channels \<open>X\<close> on other queues.\<close>

definition runs :: "(chan \<Rightarrow> nat) \<Rightarrow> nat \<Rightarrow> chan set \<Rightarrow> nat \<Rightarrow> nat \<Rightarrow> 'a kst_scheme \<Rightarrow> (nat option \<Rightarrow> nat list) \<Rightarrow> bool" where
  "runs h i X m p s Q \<longleftrightarrow> (\<exists>t Q' P. setrun_f m h p s = Ok () t \<and> queues_ok h t Q' \<and> moved (insert p P) s Q t Q' \<and> Q' (Some i) = Q (Some i) \<and>
     P \<subseteq> {p. p_wchan (proc s p) \<in> Some ` X} \<and> (runout s = 0 \<longrightarrow> runout t = 0))"

definition ready :: "(chan \<Rightarrow> nat) \<Rightarrow> nat \<Rightarrow> 'a kst_scheme \<Rightarrow> (nat option \<Rightarrow> nat list) \<Rightarrow> bool" where
  "ready h p s Q \<longleftrightarrow> queues_ok h s Q \<and> (\<forall>k. p \<notin> set (Q k)) \<and> p < NPROC \<and> p_stat (proc s p) \<noteq> SNULL \<and> p_stat (proc s p) \<noteq> SZOMB \<and> p_wchan (proc s p) = None"

lemma wakeup_step:
  "wakeup_loop (Suc n) h c q None s = Ok () s"
  "p_wchan (proc s p) = Some c \<Longrightarrow> p_stat (proc s p) \<noteq> SZOMB \<Longrightarrow>
     wakeup_loop (Suc n) h c (last_opt A) (Some p) s = kthen (setrun_f n h p) (wakeup_loop n h c (last_opt A) (links s p)) (taken (Some (h c)) A p s)"
  "p_wchan (proc s p) \<noteq> Some c \<Longrightarrow> wakeup_loop (Suc n) h c q (Some p) s = wakeup_loop n h c (Some p) (links s p) s"
  by (simp_all add: wakeup_loop.simps krun kret_def taken_def cut_def links_def Let_def split: option.split)

lemma wakeup_loop_ok:
  fixes s :: "'a kst_scheme"
  assumes S: "\<And>(s :: 'a kst_scheme) Q p m. N \<le> m \<Longrightarrow> (J \<longrightarrow> runout s = 0) \<Longrightarrow> ready h p s Q \<Longrightarrow> runs h (h c) X m p s Q"
    and "queues_ok h s Q" "Q (Some (h c)) = A @ B" "\<forall>p\<in>set A. p_wchan (proc s p) \<noteq> Some c" "J \<longrightarrow> runout s = 0" "N + length B + 1 \<le> n"
  shows "\<exists>t Q' P. wakeup_loop n h c (last_opt A) (hd_opt B) s = Ok () t \<and> queues_ok h t Q' \<and> moved P s Q t Q' \<and>
    {p \<in> set B. p_wchan (proc s p) = Some c} \<subseteq> P \<and> P \<subseteq> {p. p_wchan (proc s p) \<in> Some ` insert c X} \<and> (runout s = 0 \<longrightarrow> runout t = 0)"
  using assms(2-)
proof (induction B arbitrary: A s Q n)
  case Nil
  then obtain n' where "n = Suc n'" by (cases n) auto
  then show ?case using Nil moved_refl [of s Q] by (auto simp: wakeup_step intro!: exI [of _ "{}"])
next
  case (Cons p B)
  then obtain n' where n: "n = Suc n'" "N \<le> n'" "N + length B + 1 \<le> n'" by (cases n) auto
  have q: "qlists_ok s Q" using Cons.prems(1) by (simp add: queues_ok_def)
  have "lseg (links s) (head s (Some (h c))) (A @ p # B) None" using q Cons.prems(2) unfolding qlists_ok_def by metis
  then have nx: "links s p = hd_opt B" using lseg_hd by auto
  show ?case
  proof (cases "p_wchan (proc s p) = Some c")
    case True
    have st: "p_stat (proc s p) \<noteq> SNULL" "p_stat (proc s p) \<noteq> SZOMB" "p < NPROC"
      using Cons.prems(1,2) True by (auto simp: queues_ok_def sleepers_ok_def qlists_ok_def) (metis in_set_conv_decomp)
    let ?s = "taken (Some (h c)) A p s" let ?Q = "Q(Some (h c) := A @ B)"
    note tk = taken_ok [OF Cons.prems(1,2)]
    have "ready h p ?s ?Q" using tk st by (simp add: ready_def)
    then have "runs h (h c) X n' p ?s ?Q" using S n(2) Cons.prems(4) by (simp add: taken_frame)
    then obtain t Q1 P where t: "setrun_f n' h p ?s = Ok () t" "queues_ok h t Q1" "moved (insert p P) ?s ?Q t Q1" "Q1 (Some (h c)) = A @ B"
        "P \<subseteq> {x. p_wchan (proc ?s x) \<in> Some ` X}" "runout s = 0 \<longrightarrow> runout t = 0"
      unfolding runs_def taken_frame by auto
    have m1: "moved (insert p P) s Q t Q1" using moved_taken [OF t(3) Cons.prems(2)] .
    note w = moved_wchan(1) [OF m1]
    have "\<forall>x\<in>set A. p_wchan (proc t x) \<noteq> Some c" using Cons.prems(3) by (simp add: w)
    from Cons.IH [OF t(2,4) this _ n(3)] t(6) Cons.prems(4)
    obtain v Q2 P2 where v: "wakeup_loop n' h c (last_opt A) (hd_opt B) t = Ok () v" "queues_ok h v Q2" "moved P2 t Q1 v Q2"
        "{x \<in> set B. p_wchan (proc t x) = Some c} \<subseteq> P2" "P2 \<subseteq> {x. p_wchan (proc t x) \<in> Some ` insert c X}" "runout t = 0 \<longrightarrow> runout v = 0"
      by blast
    have "wakeup_loop n h c (last_opt A) (hd_opt (p # B)) s = Ok () v"
      using True st t(1) v(1) nx by (simp add: n(1) wakeup_step kthen_Ok)
    moreover have "moved (insert p P \<union> P2) s Q v Q2" using moved_trans [OF m1 v(3)] .
    moreover have "{x \<in> set (p # B). p_wchan (proc s x) = Some c} \<subseteq> insert p P \<union> P2" using v(4) by (auto simp: w split: if_splits)
    moreover have "p_wchan (proc ?s x) = (if x = p then None else p_wchan (proc s x))" for x
      using taken_proc [of "Some (h c)" A p s x] unfolding nolink_def by (cases "proc ?s x"; cases "proc s x"; auto split: if_splits)
    then have "insert p P \<union> P2 \<subseteq> {x. p_wchan (proc s x) \<in> Some ` insert c X}" using t(5) v(5) True by (auto simp: w split: if_splits)
    ultimately show ?thesis using v(2,6) t(6) by blast
  next
    case False
    then have "\<forall>x\<in>set (A @ [p]). p_wchan (proc s x) \<noteq> Some c" using Cons.prems(3) by auto
    from Cons.IH [OF Cons.prems(1) _ this Cons.prems(4) n(3)] Cons.prems(2) False nx show ?thesis
      by (auto simp: n(1) wakeup_step(3))
  qed
qed

lemma queues_ok_runout [simp]: "queues_ok h (t\<lparr>runout := x\<rparr>) Q = queues_ok h t Q" "queues_ok h (t\<lparr>runrun := x\<rparr>) Q = queues_ok h t Q"
  by (simp_all add: queues_ok_def qlists_ok_def sleepers_ok_def links_def [abs_def] head_def [abs_def])

lemma setrun_step:
  assumes "ready h p s Q"
  obtains t where "queues_ok h t (Q(None := p # Q None))" "moved {p} s Q t (Q(None := p # Q None))" "runout t = runout s"
    "setrun_f (Suc n) h p s =
       (if runout s \<noteq> 0 \<and> SLOAD \<notin> p_flag (proc s p) then wakeup_loop n h Ch_runout None (slpque t (h Ch_runout)) (t\<lparr>runout := 0\<rparr>) else Ok () t)"
proof -
  let ?Q = "Q(None := p # Q None)"
  let ?s = "s\<lparr>proc := (proc s)(p := (proc s p)\<lparr>p_stat := SRUN\<rparr>)\<rparr>"
  note r = assms [unfolded ready_def queues_ok_def]
  have q: "qlists_ok ?s Q" using r by (intro qlists_nolink) auto
  obtain t where t: "setrq p ?s = Ok () t" "qlists_ok t ?Q" "t = ?s\<lparr>runq := Some p, proc := (proc ?s)(p := (proc ?s p)\<lparr>p_link := runq ?s\<rparr>)\<rparr>"
    using setrq_push [OF q] r by blast
  define v where "v = (if p_pri (proc t p) < curpri t then t\<lparr>runrun := cchar (runrun t + 1)\<rparr> else t)"
  have pr: "proc v x = (if x = p then (proc s p)\<lparr>p_stat := SRUN, p_link := runq s\<rparr> else proc s x)" "runout v = runout s" for x
    by (simp_all add: v_def t(3))
  have "sleepers_ok h t ?Q" using r by (auto simp: sleepers_ok_def t(3))
  then have "queues_ok h v ?Q" using t(2) by (simp add: v_def) (simp add: queues_ok_def)
  moreover have "filter (\<lambda>x. x \<noteq> p) (Q k) = Q k" for k using r by (intro filter_True) auto
  then have "moved {p} s Q v ?Q" using r
    by (auto simp: moved_def pr nolink_def awake_def sched_frame_def v_def t(3))
  moreover have "setrun_f (Suc n) h p s =
       (if runout s \<noteq> 0 \<and> SLOAD \<notin> p_flag (proc s p) then wakeup_loop n h Ch_runout None (slpque v (h Ch_runout)) (v\<lparr>runout := 0\<rparr>) else Ok () v)"
    using r pr(2) by (simp add: setrun_f.simps krun kthen_Ok [where m = "setrq p", OF t(1)] v_def [symmetric] kret_def)
  ultimately show ?thesis using that pr(2) by blast
qed

text \<open>With no swapper waiting, \<open>setrun\<close> wakes nobody else.\<close>

lemma runs_idle:
  assumes "ready h p s Q" "runout s = 0" "1 \<le> m"
  shows "runs h i {} m p s Q"
proof -
  obtain n where "m = Suc n" using assms(3) by (cases m) auto
  then show ?thesis using setrun_step [OF assms(1), of n] assms(2) unfolding runs_def
    by (metis (no_types, lifting) empty_subsetI fun_upd_other option.distinct(1))
qed

lemma moved_runout [simp]: "moved P s Q (t\<lparr>runout := x\<rparr>) Q' = moved P s Q t Q'" "moved P (s\<lparr>runout := x\<rparr>) Q t Q' = moved P s Q t Q'"
  by (auto simp: moved_def sched_frame_def)

lemma runs_swapper:
  assumes "ready h p s Q" "NPROC + 3 \<le> m" "i \<noteq> h Ch_runout"
  shows "runs h i {Ch_runout} m p s Q"
proof (cases "runout s = 0 \<or> SLOAD \<in> p_flag (proc s p)")
  case True
  obtain n where "m = Suc n" using assms(2) by (cases m) auto
  with True show ?thesis using setrun_step [OF assms(1), of n] unfolding runs_def
    by (metis (no_types, lifting) empty_subsetI fun_upd_other option.distinct(1))
next
  case False
  obtain n where n: "m = Suc n" "NPROC + 2 \<le> n" using assms(2) by (cases m) auto
  let ?Q = "Q(None := p # Q None)" let ?h = "h Ch_runout"
  obtain t where t: "queues_ok h t ?Q" "moved {p} s Q t ?Q" "setrun_f m h p s = wakeup_loop n h Ch_runout None (slpque t ?h) (t\<lparr>runout := 0\<rparr>)"
    using setrun_step [OF assms(1), of n] False n(1) by metis
  let ?t = "t\<lparr>runout := 0\<rparr>"
  have q: "qlists_ok t ?Q" using t(1) by (simp add: queues_ok_def)
  have hd: "slpque t ?h = hd_opt (Q (Some ?h))" using queue_head [OF q, of "Some ?h"] by (simp add: head_def)
  have "length (Q (Some ?h)) \<le> NPROC" using queue_length [OF q, of "Some ?h"] by simp
  then have "\<exists>v Q' P. wakeup_loop n h Ch_runout (last_opt []) (hd_opt (Q (Some ?h))) ?t = Ok () v \<and> queues_ok h v Q' \<and> moved P ?t ?Q v Q' \<and>
    {x \<in> set (Q (Some ?h)). p_wchan (proc ?t x) = Some Ch_runout} \<subseteq> P \<and> P \<subseteq> {x. p_wchan (proc ?t x) \<in> Some ` insert Ch_runout {}} \<and> (runout ?t = 0 \<longrightarrow> runout v = 0)"
    using t(1) n(2) runs_idle by (intro wakeup_loop_ok [where N = 1 and J = True]) auto
  then obtain v Q' P where v: "setrun_f m h p s = Ok () v" "queues_ok h v Q'" "moved P t ?Q v Q'" "P \<subseteq> {x. p_wchan (proc t x) = Some Ch_runout}"
    using t(3) hd by auto
  have "moved (insert p P) s Q v Q'" using moved_trans [OF t(2) v(3)] by simp
  moreover have P: "P \<subseteq> {x. p_wchan (proc s x) \<in> Some ` {Ch_runout}}" using v(4) moved_wchan(1) [OF t(2)] by (auto split: if_splits)
  moreover have "x \<notin> P" if "x \<in> set (Q (Some i))" for x
    using queue_wchan [OF t(1), of x i] that v(4) assms(3) by auto
  then have "Q' (Some i) = Q (Some i)" using v(3) by (simp add: moved_def)
  ultimately show ?thesis using v(1,2) False unfolding runs_def by blast
qed

section \<open>The choice of \<^verbatim>\<open>swtch\<close>\<close>

definition runnable :: "proc \<Rightarrow> bool" where
  "runnable x \<longleftrightarrow> p_stat x = SRUN \<and> SLOAD \<in> p_flag x"

lemma swtch_scan_ok:
  "(\<exists>B p C. ps = B @ p # C \<and> runnable (pr p) \<and> p_pri (pr p) < n \<and> swtch_scan pr ps (last_opt A) best n = (Some (p, last_opt (A @ B)), p_pri (pr p)) \<and>
      (\<forall>x\<in>set B. runnable (pr x) \<longrightarrow> p_pri (pr p) < p_pri (pr x)) \<and> (\<forall>x\<in>set C. runnable (pr x) \<longrightarrow> p_pri (pr p) \<le> p_pri (pr x))) \<or>
   (swtch_scan pr ps (last_opt A) best n = (best, n) \<and> (\<forall>x\<in>set ps. runnable (pr x) \<longrightarrow> n \<le> p_pri (pr x)))"
proof (induction ps arbitrary: A best n)
  case (Cons y ps)
  have l: "Some y = last_opt (A @ [y])" by simp
  show ?case
  proof (cases "runnable (pr y) \<and> p_pri (pr y) < n")
    case True
    let ?r = "swtch_scan pr ps (last_opt (A @ [y])) (Some (y, last_opt A)) (p_pri (pr y))"
    have e: "swtch_scan pr (y # ps) (last_opt A) best n = ?r" using True by (simp add: runnable_def)
    from Cons.IH [of "p_pri (pr y)" "A @ [y]" "Some (y, last_opt A)"] show ?thesis
    proof (elim disjE exE conjE)
      fix B p C assume "ps = B @ p # C" "runnable (pr p)" "p_pri (pr p) < p_pri (pr y)" "?r = (Some (p, last_opt ((A @ [y]) @ B)), p_pri (pr p))"
        "\<forall>x\<in>set B. runnable (pr x) \<longrightarrow> p_pri (pr p) < p_pri (pr x)" "\<forall>x\<in>set C. runnable (pr x) \<longrightarrow> p_pri (pr p) \<le> p_pri (pr x)"
      then show ?thesis unfolding e using True by (intro disjI1 exI [of _ "y # B"] exI [of _ p] exI [of _ C]) auto
    next
      assume "?r = (Some (y, last_opt A), p_pri (pr y))" "\<forall>x\<in>set ps. runnable (pr x) \<longrightarrow> p_pri (pr y) \<le> p_pri (pr x)"
      then show ?thesis unfolding e using True by (intro disjI1 exI [of _ "[]"] exI [of _ y] exI [of _ ps]) auto
    qed
  next
    case False
    let ?r = "swtch_scan pr ps (last_opt (A @ [y])) best n"
    have e: "swtch_scan pr (y # ps) (last_opt A) best n = ?r" using False by (auto simp: runnable_def)
    from Cons.IH [of n "A @ [y]" best] show ?thesis
    proof (elim disjE exE conjE)
      fix B p C assume "ps = B @ p # C" "runnable (pr p)" "p_pri (pr p) < n" "?r = (Some (p, last_opt ((A @ [y]) @ B)), p_pri (pr p))"
        "\<forall>x\<in>set B. runnable (pr x) \<longrightarrow> p_pri (pr p) < p_pri (pr x)" "\<forall>x\<in>set C. runnable (pr x) \<longrightarrow> p_pri (pr p) \<le> p_pri (pr x)"
      then show ?thesis unfolding e using False by (intro disjI1 exI [of _ "y # B"] exI [of _ p] exI [of _ C]) auto
    next
      assume "?r = (best, n)" "\<forall>x\<in>set ps. runnable (pr x) \<longrightarrow> n \<le> p_pri (pr x)"
      then show ?thesis unfolding e using False by auto
    qed
  qed
qed simp

section \<open>Fresh process ids\<close>

definition used_ids :: "'a kst_scheme \<Rightarrow> int set" where
  "used_ids s = (\<lambda>p. p_pid (proc s p)) ` {0 ..< NPROC} \<union> (\<lambda>p. p_pgrp (proc s p)) ` {0 ..< NPROC}"

lemma card_used: "finite (used_ids s)" "card (used_ids s) \<le> 2 * NPROC"
proof -
  have "card (f ` {0 ..< NPROC}) \<le> NPROC" for f :: "nat \<Rightarrow> int" using card_image_le [of "{0 ..< NPROC}" f] by simp
  then have "card (used_ids s) \<le> NPROC + NPROC" unfolding used_ids_def by (meson add_mono card_Un_le le_trans)
  then show "card (used_ids s) \<le> 2 * NPROC" by simp
qed (simp add: used_ids_def)

lemma newpid_turn:
  assumes "0 \<le> mpid s" "mpid s < 29999"
  shows "newpid_loop (Suc k) s = (if mpid s + 1 \<in> used_ids s then newpid_loop k (s\<lparr>mpid := mpid s + 1\<rparr>) else Ok (mpid s + 1) (s\<lparr>mpid := mpid s + 1\<rparr>))"
  using assms by (auto simp: newpid_loop.simps krun used_ids_def list_ex_iff kret_def image_iff)

lemma newpid_wrap: "mpid s = 29999 \<Longrightarrow> newpid_loop (Suc k) s = newpid_loop k (s\<lparr>mpid := 0\<rparr>)"
  by (simp add: newpid_loop.simps krun)

lemma newpid_run:
  assumes "0 \<le> mpid s" "mpid s + int j \<le> 29999"
  shows "(\<exists>i. mpid s < i \<and> i \<le> mpid s + int j \<and> i \<notin> used_ids s \<and> newpid_loop (j + k) s = Ok i (s\<lparr>mpid := i\<rparr>)) \<or>
    {mpid s + 1 .. mpid s + int j} \<subseteq> used_ids s \<and> newpid_loop (j + k) s = newpid_loop k (s\<lparr>mpid := mpid s + int j\<rparr>)"
  using assms
proof (induction j arbitrary: s)
  case (Suc j)
  let ?m = "mpid s + 1" let ?s = "s\<lparr>mpid := ?m\<rparr>"
  have t: "newpid_loop (Suc j + k) s = (if ?m \<in> used_ids s then newpid_loop (j + k) ?s else Ok ?m ?s)"
    using newpid_turn [of s "j + k"] Suc.prems by simp
  have u: "used_ids ?s = used_ids s" by (simp add: used_ids_def)
  show ?case
  proof (cases "?m \<in> used_ids s")
    case False
    then show ?thesis using t by (intro disjI1 exI [of _ ?m]) auto
  next
    case True
    have s: "{?m .. mpid s + int (Suc j)} = insert ?m {?m + 1 .. ?m + int j}" by auto
    have "0 \<le> mpid ?s" "mpid ?s + int j \<le> 29999" using Suc.prems by auto
    from Suc.IH [OF this] show ?thesis
    proof (elim disjE exE conjE)
      fix i assume "mpid ?s < i" "i \<le> mpid ?s + int j" "i \<notin> used_ids ?s" "newpid_loop (j + k) ?s = Ok i (?s\<lparr>mpid := i\<rparr>)"
      then show ?thesis using t True u by (intro disjI1 exI [of _ i]) auto
    next
      assume "{mpid ?s + 1 .. mpid ?s + int j} \<subseteq> used_ids ?s" "newpid_loop (j + k) ?s = newpid_loop k (?s\<lparr>mpid := mpid ?s + int j\<rparr>)"
      then show ?thesis using t True u s by (intro disjI2) (simp add: add.assoc)
    qed
  qed
qed simp

lemma newpid_ok:
  assumes "0 \<le> mpid s" "mpid s < 30000"
  shows "\<exists>i. 0 < i \<and> i < 30000 \<and> i \<notin> used_ids s \<and> newpid s = Ok i (s\<lparr>mpid := i\<rparr>)"
proof -
  let ?m = "mpid s" let ?U = "used_ids s"
  have f: "newpid s = newpid_loop 302 s" by (simp add: newpid_def NPROC_def)
  have big: "\<not> A \<subseteq> ?U" if "card A = 301" for A
  proof
    assume "A \<subseteq> ?U"
    then have "card A \<le> card ?U" using card_mono card_used(1) by blast
    then show False using that card_used(2) [of s] by (simp add: NPROC_def)
  qed
  show ?thesis
  proof (cases "?m \<le> 29698")
    case True
    then have b: "?m + int 301 \<le> 29999" by simp
    have c: "\<not> {?m + 1 .. ?m + int 301} \<subseteq> ?U" by (rule big) simp
    have n: "(301 :: nat) + 1 = 302" by simp
    obtain i where "?m < i" "i \<le> ?m + int 301" "i \<notin> ?U" "newpid_loop 302 s = Ok i (s\<lparr>mpid := i\<rparr>)"
      using newpid_run [OF assms(1) b, of 1] c unfolding n by blast
    then show ?thesis using f assms(1) b by (intro exI [of _ i]) simp
  next
    case False
    define j where "j = nat (29999 - ?m)"
    define k where "k = 301 - j"
    have j: "?m + int j = 29999" "j \<le> 300" "j + Suc k = 302" "j + k = 301" using False assms by (auto simp: j_def k_def)
    let ?s = "s\<lparr>mpid := 0\<rparr>"
    have u: "used_ids ?s = ?U" by (simp add: used_ids_def)
    have w: "newpid_loop (Suc k) (s\<lparr>mpid := 29999\<rparr>) = newpid_loop k ?s" using newpid_wrap [of "s\<lparr>mpid := 29999\<rparr>" k] by simp
    have "card ({?m + 1 .. 29999} \<union> {1 .. int k}) = 301"
    proof -
      have "{?m + 1 .. 29999} \<inter> {1 .. int k} = {}" using False by (auto simp: k_def)
      then have "card ({?m + 1 .. 29999} \<union> {1 .. int k}) = card {?m + 1 .. 29999} + card {1 .. int k}" by (intro card_Un_disjoint) auto
      then show ?thesis using j by (simp add: j_def)
    qed
    note nu = big [OF this]
    have r: "(\<exists>i. ?m < i \<and> i \<le> 29999 \<and> i \<notin> ?U \<and> newpid_loop 302 s = Ok i (s\<lparr>mpid := i\<rparr>)) \<or>
      {?m + 1 .. 29999} \<subseteq> ?U \<and> newpid_loop 302 s = newpid_loop k ?s"
      using newpid_run [of s j "Suc k"] assms(1) unfolding j(1,3) w by simp
    show ?thesis
    proof (cases "{?m + 1 .. 29999} \<subseteq> ?U \<and> newpid_loop 302 s = newpid_loop k ?s")
      case True
      then have n: "\<not> {1 .. int k} \<subseteq> ?U" using nu by blast
      have "int k \<le> 301" by (simp add: k_def)
      then have "(\<exists>i. 0 < i \<and> i \<le> int k \<and> i \<notin> ?U \<and> newpid_loop k ?s = Ok i (s\<lparr>mpid := i\<rparr>)) \<or> {1 .. int k} \<subseteq> ?U"
        using newpid_run [of ?s k 0] by (auto simp: u)
      then obtain i where i: "0 < i" "i \<le> int k" "i \<notin> ?U" "newpid_loop k ?s = Ok i (s\<lparr>mpid := i\<rparr>)" using n by blast
      then have "i < 30000" using \<open>int k \<le> 301\<close> by linarith
      with i show ?thesis using True f by (intro exI [of _ i]) simp
    next
      case False
      then obtain i where "?m < i" "i \<le> 29999" "i \<notin> ?U" "newpid_loop 302 s = Ok i (s\<lparr>mpid := i\<rparr>)" using r by blast
      then show ?thesis using f assms(1) by (intro exI [of _ i]) simp
    qed
  qed
qed

section \<open>Properties\<close>

text \<open>States for the witnesses: processes asleep on queue 0.\<close>

definition idle_st :: kst where
  "idle_st = \<lparr>u = user0, proc = (\<lambda>_. proc0), klog = [], time = 0, lbolt = 0, runq = None, slpque = (\<lambda>_. None), curpri = 0,
     runrun = 0, runin = 0, runout = 0, mpid = 0, umem = (\<lambda>_. None), core = (\<lambda>_. 0)\<rparr>"

definition asleep :: "chan \<Rightarrow> nat option \<Rightarrow> proc" where
  "asleep c l = proc0\<lparr>p_stat := SSLEEP, p_wchan := Some c, p_link := l\<rparr>"

definition two_asleep :: kst where
  "two_asleep = idle_st\<lparr>proc := (\<lambda>_. proc0)(1 := asleep Ch_lbolt (Some 2), 2 := asleep (Ch_inode 3) None), slpque := (\<lambda>_. None)(0 := Some 1), runout := 1\<rparr>"


lemma asleep_sel [simp]: "p_wchan (asleep c l) = Some c" "p_link (asleep c l) = l" "p_stat (asleep c l) = SSLEEP" "p_flag (asleep c l) = {}" "p_pri (asleep c l) = 0"
  by (simp_all add: asleep_def proc0_def)

lemma proc0_sel [simp]: "p_wchan proc0 = None" "p_link proc0 = None" "p_stat proc0 = SNULL" "p_flag proc0 = {}" "p_pri proc0 = 0"
  by (simp_all add: proc0_def)

lemma two_asleep_ok: "queues_ok (\<lambda>c. if c = Ch_runout then 1 else 0) two_asleep ((\<lambda>_. [])(Some 0 := [1, 2]))"
  by (auto simp: queues_ok_def qlists_ok_def sleepers_ok_def two_asleep_def idle_st_def head_def links_def NPROC_def split: option.splits if_splits)


text \<open>The condition of the theorem on \<^verbatim>\<open>wakeup\<close> below: no swapper waits, or the channel is not on its queue.\<close>

lemma wakeup_moved:
  fixes s :: "'a kst_scheme"
  assumes "queues_ok h s Q" "runout s = 0 \<or> h c \<noteq> h Ch_runout"
  shows "\<exists>t Q' P. wakeup h c s = Ok () t \<and> queues_ok h t Q' \<and> moved P s Q t Q' \<and>
    {p. p_wchan (proc s p) = Some c} \<subseteq> P \<and> P \<subseteq> {p. p_wchan (proc s p) = Some c \<or> p_wchan (proc s p) = Some Ch_runout}"
proof -
  have q: "qlists_ok s Q" using assms(1) by (simp add: queues_ok_def)
  have l: "length (Q (Some (h c))) \<le> NPROC" using queue_length [OF q] .
  have hd: "slpque s (h c) = hd_opt (Q (Some (h c)))" using queue_head [OF q, of "Some (h c)"] by (simp add: head_def)
  define X where "X = (if runout s = 0 then {} else {Ch_runout})"
  have S: "runs h (h c) X m p s' Q" if "NPROC + 3 \<le> m" "runout s = 0 \<longrightarrow> runout s' = 0" "ready h p s' Q" for m p Q and s' :: "'a kst_scheme"
    using that assms(2) runs_idle [of h p s' Q m "h c"] runs_swapper [of h p s' Q m "h c"] by (auto simp: X_def)
  have "\<exists>t Q' P. wakeup_loop WFUEL h c (last_opt []) (hd_opt (Q (Some (h c)))) s = Ok () t \<and> queues_ok h t Q' \<and> moved P s Q t Q' \<and>
    {p \<in> set (Q (Some (h c))). p_wchan (proc s p) = Some c} \<subseteq> P \<and> P \<subseteq> {p. p_wchan (proc s p) \<in> Some ` insert c X} \<and> (runout s = 0 \<longrightarrow> runout t = 0)"
    using assms(1) l by (intro wakeup_loop_ok [OF S]) (auto simp: WFUEL_def NPROC_def)
  then obtain t Q' P where t: "wakeup h c s = Ok () t" "queues_ok h t Q'" "moved P s Q t Q'"
      "{p \<in> set (Q (Some (h c))). p_wchan (proc s p) = Some c} \<subseteq> P" "P \<subseteq> {p. p_wchan (proc s p) \<in> Some ` insert c X}"
    using hd by (auto simp: wakeup_def krun)
  have "{p. p_wchan (proc s p) = Some c} \<subseteq> P" using t(4) wchan_queue [OF assms(1)] by blast
  moreover have "P \<subseteq> {p. p_wchan (proc s p) = Some c \<or> p_wchan (proc s p) = Some Ch_runout}"
    using t(5) by (auto simp: X_def split: if_splits)
  ultimately show ?thesis using t(1-3) by blast
qed

lemma wakeup_ok:
  fixes s :: "'a kst_scheme"
  assumes "queues_ok h s Q" "runout s = 0 \<or> h c \<noteq> h Ch_runout"
  shows "\<exists>t Q'. wakeup h c s = Ok () t \<and> queues_ok h t Q' \<and> sched_frame s t \<and> (\<forall>p. p_wchan (proc t p) \<noteq> Some c) \<and>
    (\<forall>p. p_wchan (proc s p) = Some c \<longrightarrow> nolink (proc t p) = awake (nolink (proc s p)) \<and> p \<in> set (Q' None)) \<and>
    (\<forall>p d. p_wchan (proc s p) = Some d \<longrightarrow> d \<noteq> c \<longrightarrow> d \<noteq> Ch_runout \<longrightarrow> nolink (proc t p) = nolink (proc s p) \<and> p \<in> set (Q' (Some (h d)))) \<and>
    (\<forall>p. p_wchan (proc s p) = None \<longrightarrow> nolink (proc t p) = nolink (proc s p)) \<and> set (Q None) \<subseteq> set (Q' None)"
proof -
  obtain t Q' P where t: "wakeup h c s = Ok () t" "queues_ok h t Q'" "moved P s Q t Q'" "{p. p_wchan (proc s p) = Some c} \<subseteq> P"
    "P \<subseteq> {p. p_wchan (proc s p) = Some c \<or> p_wchan (proc s p) = Some Ch_runout}"
    using wakeup_moved [OF assms] by blast
  note m = t(3) [unfolded moved_def]
  have c: "p \<in> P" if "p_wchan (proc s p) = Some c" for p using t(4) that by blast
  have nP: "p \<notin> P" if "p_wchan (proc s p) \<noteq> Some c" "p_wchan (proc s p) \<noteq> Some Ch_runout" for p using t(5) that by blast
  have "p_wchan (proc t p) \<noteq> Some c" for p using moved_wchan(1) [OF t(3)] c by auto
  moreover have "p \<in> set (Q' (Some (h d)))" if "p_wchan (proc s p) = Some d" "p \<notin> P" for p d
    using m wchan_queue [OF assms(1) that(1)] that(2) by simp
  ultimately show ?thesis using t(1,2) m c nP by (intro exI [of _ t] exI [of _ Q']) auto
qed

text \<open>
  C3: \<^verbatim>\<open>wakeup(c)\<close> makes every process sleeping on \<open>c\<close> runnable and puts it on the run queue; nobody sleeps on \<open>c\<close> afterwards. Sleepers on
  other channels stay asleep on their queues (the swapper, waiting on \<^verbatim>\<open>runout\<close>, may be woken as well), no other process
  changes, the queues stay disjoint well-formed lists, and the call returns. The condition is that no swapper waits or that the
  channel does not share the sleep queue of \<^verbatim>\<open>runout\<close>.
\<close>

theorem wakeup_wakes:
  fixes s :: "'a kst_scheme"
  assumes "queues_ok h s Q" "runout s = 0 \<or> h c \<noteq> h Ch_runout"
  shows "\<exists>t Q'. wakeup h c s = Ok () t \<and> queues_ok h t Q' \<and> sched_frame s t \<and> (\<forall>p. p_wchan (proc t p) \<noteq> Some c) \<and>
    (\<forall>p. p_wchan (proc s p) = Some c \<longrightarrow> nolink (proc t p) = awake (nolink (proc s p)) \<and> p \<in> set (Q' None)) \<and>
    (\<forall>p d. p_wchan (proc s p) = Some d \<longrightarrow> d \<noteq> c \<longrightarrow> d \<noteq> Ch_runout \<longrightarrow> nolink (proc t p) = nolink (proc s p) \<and> p \<in> set (Q' (Some (h d)))) \<and>
    (\<forall>p. p_wchan (proc s p) = None \<longrightarrow> nolink (proc t p) = nolink (proc s p)) \<and> set (Q None) \<subseteq> set (Q' None)"
  by (rule wakeup_ok [OF assms])

theorem wakeup_wakes_witness:
  "\<exists>t. wakeup (\<lambda>c. if c = Ch_runout then 1 else 0) Ch_lbolt two_asleep = Ok () t \<and> p_stat (proc t 1) = SRUN \<and> p_wchan (proc t 2) = Some (Ch_inode 3)"
proof -
  have w: "p_wchan (proc two_asleep 1) = Some Ch_lbolt" "p_wchan (proc two_asleep 2) = Some (Ch_inode 3)" by (simp_all add: two_asleep_def)
  from wakeup_wakes [OF two_asleep_ok, of Ch_lbolt] obtain t where t: "wakeup (\<lambda>c. if c = Ch_runout then 1 else 0) Ch_lbolt two_asleep = Ok () t"
      "nolink (proc t 1) = awake (nolink (proc two_asleep 1))" "nolink (proc t 2) = nolink (proc two_asleep 2)" using w by auto
  then show ?thesis using nolink_sel [OF t(3)] nolink_awake [OF t(2)] w by simp
qed


text \<open>
  C26: \<^verbatim>\<open>swtch\<close> resumes a process of the run queue that is runnable and in core and whose priority number is the smallest, the first such in the
  queue; it takes exactly that process off the queue, sets \<^verbatim>\<open>curpri\<close> to its priority, and idles only when no process of the queue is runnable
  and in core.
\<close>

theorem swtch_picks_best:
  assumes "qlists_ok s Q" "\<forall>p\<in>set (Q None). p_pri (proc s p) < 128"
  shows "case swtch_select s of
      Ok None t \<Rightarrow> t = s\<lparr>runrun := 0\<rparr> \<and> (\<forall>p\<in>set (Q None). \<not> runnable (proc s p))
    | Ok (Some (p, swapped)) t \<Rightarrow> (\<exists>A B. Q None = A @ p # B \<and> qlists_ok t (Q(None := A @ B)) \<and> runnable (proc s p) \<and>
        (\<forall>x\<in>set A. runnable (proc s x) \<longrightarrow> p_pri (proc s p) < p_pri (proc s x)) \<and>
        (\<forall>x\<in>set B. runnable (proc s x) \<longrightarrow> p_pri (proc s p) \<le> p_pri (proc s x))) \<and>
        curpri t = p_pri (proc s p) \<and> swapped = (SSWAP \<in> p_flag (proc s p)) \<and> runrun t = 0
    | _ \<Rightarrow> False"
proof -
  let ?s = "s\<lparr>runrun := 0\<rparr>"
  have q: "qlists_ok ?s Q" using assms(1) by (simp add: qlists_ok_def links_def [abs_def] head_def [abs_def])
  have rq: "runq_list ?s = Q None" using runq_list_ok [OF q] .
  from swtch_scan_ok [of "Q None" "proc s" 128 "[]" None] show ?thesis
  proof (elim disjE exE conjE)
    fix A p B assume a: "Q None = A @ p # B" "runnable (proc s p)" "swtch_scan (proc s) (Q None) (last_opt []) None 128 = (Some (p, last_opt ([] @ A)), p_pri (proc s p))"
      "\<forall>x\<in>set A. runnable (proc s x) \<longrightarrow> p_pri (proc s p) < p_pri (proc s x)" "\<forall>x\<in>set B. runnable (proc s x) \<longrightarrow> p_pri (proc s p) \<le> p_pri (proc s x)"
    define c where "c = cut None (last_opt A) (links s p) ?s"
    define t where "t = c\<lparr>curpri := p_pri (proc s p), proc := (proc c)(p := (proc c p)\<lparr>p_flag := p_flag (proc c p) - {SSWAP}\<rparr>)\<rparr>"
    have r: "swtch_select s = Ok (Some (p, SSWAP \<in> p_flag (proc s p))) t"
      using a(3) rq by (cases "last_opt A") (simp_all add: swtch_select_def krun kret_def t_def c_def cut_def links_def)
    have "qlists_ok c (Q(None := A @ B))" using cut_ok [OF q a(1)] by (simp add: c_def links_def)
    then have "qlists_ok (c\<lparr>curpri := p_pri (proc s p)\<rparr>) (Q(None := A @ B))" by (simp add: qlists_ok_def links_def [abs_def] head_def [abs_def])
    from qlists_nolink [OF this, of "(proc c p)\<lparr>p_flag := p_flag (proc c p) - {SSWAP}\<rparr>" p]
    have "qlists_ok t (Q(None := A @ B))" by (simp add: t_def)
    moreover have "curpri t = p_pri (proc s p)" "runrun t = 0" by (simp_all add: t_def c_def cut_def split: option.splits)
    ultimately show ?thesis using r a by auto
  next
    assume a: "swtch_scan (proc s) (Q None) (last_opt []) None 128 = (None, 128)" "\<forall>x\<in>set (Q None). runnable (proc s x) \<longrightarrow> 128 \<le> p_pri (proc s x)"
    then have "swtch_select s = Ok None ?s" using rq by (simp add: swtch_select_def krun kret_def)
    then show ?thesis using a(2) assms(2) by fastforce
  qed
qed

definition two_ready :: kst where
  "two_ready = idle_st\<lparr>proc := (\<lambda>_. proc0)(1 := proc0\<lparr>p_stat := SRUN, p_flag := {SLOAD}, p_pri := 60, p_link := Some 2\<rparr>,
     2 := proc0\<lparr>p_stat := SRUN, p_flag := {SLOAD}, p_pri := 50\<rparr>), runq := Some 1\<rparr>"

theorem swtch_picks_best_witness: "\<exists>t. swtch_select two_ready = Ok (Some (2, False)) t \<and> curpri t = 50"
proof -
  have "qlists_ok two_ready ((\<lambda>_. [])(None := [1, 2]))" "\<forall>p\<in>set (((\<lambda>_. [])(None := [1, 2])) None). p_pri (proc two_ready p) < 128"
    by (auto simp: qlists_ok_def two_ready_def idle_st_def head_def links_def NPROC_def split: option.splits if_splits)
  from swtch_picks_best [OF this] show ?thesis
    by (auto simp: two_ready_def runnable_def split: kres.splits option.splits) (auto simp: Cons_eq_append_conv)
qed

text \<open>
  C20: the loop that looks for a process id ends, whatever ids are in use: it returns a number between 1 and 29999 that is neither the id
  nor the group of any process, and remembers it in \<^verbatim>\<open>mpid\<close>.
\<close>

theorem newpid_fresh:
  assumes "0 \<le> mpid s" "mpid s < 30000"
  shows "\<exists>i. newpid s = Ok i (s\<lparr>mpid := i\<rparr>) \<and> 0 < i \<and> i < 30000 \<and> (\<forall>p<NPROC. p_pid (proc s p) \<noteq> i \<and> p_pgrp (proc s p) \<noteq> i)"
proof -
  obtain i where "0 < i" "i < 30000" "i \<notin> used_ids s" "newpid s = Ok i (s\<lparr>mpid := i\<rparr>)" using newpid_ok [OF assms] by blast
  then show ?thesis by (intro exI [of _ i]) (auto simp: used_ids_def image_iff)
qed

theorem newpid_fresh_witness: "\<exists>i. newpid (idle_st\<lparr>mpid := 29999\<rparr>) = Ok i (idle_st\<lparr>mpid := i\<rparr>) \<and> 0 < i"
  using newpid_fresh [of "idle_st\<lparr>mpid := 29999\<rparr>"] by auto

text \<open>
  With a nice value that \<^verbatim>\<open>nice\<close> can set, the priority computed by \<^verbatim>\<open>setpri\<close> lies between 30 and 84, so a process in user mode can always be
  interrupted by a signal (above \<^verbatim>\<open>PZERO\<close>) and the cut at 127 is never used; a larger nice value never gives a better priority, and \<^verbatim>\<open>runrun\<close> is
  raised exactly when the process is better than the running one.
\<close>

theorem setpri_range:
  assumes "0 \<le> p_nice (proc s p)" "p_nice (proc s p) < 2 * NZERO"
  shows "\<exists>x t. setpri p s = Ok x t \<and> x = (p_cpu (proc s p) mod 256) div 16 + 30 + p_nice (proc s p) \<and> 30 \<le> x \<and> x \<le> 84 \<and> PZERO < x \<and>
    p_pri (proc t p) = x \<and> runrun t = (if x < curpri s then cchar (runrun s + 1) else runrun s)"
proof -
  let ?c = "p_cpu (proc s p) mod 256"
  have "0 \<le> ?c" "?c < 256" by simp_all
  then have "0 \<le> ?c div 16" "?c div 16 \<le> 15" by auto
  then show ?thesis using assms by (auto simp: setpri_def krun kret_def PUSER_def NZERO_def PZERO_def Let_def)
qed

theorem setpri_range_witness: "\<exists>t. setpri 1 (idle_st\<lparr>proc := (\<lambda>_. proc0\<lparr>p_nice := 39, p_cpu := -1\<rparr>)\<rparr>) = Ok 84 t"
  using setpri_range [of "idle_st\<lparr>proc := (\<lambda>_. proc0\<lparr>p_nice := 39, p_cpu := -1\<rparr>)\<rparr>" 1] by (auto simp: NZERO_def)

end
