(* ===== verification/Clock.thy ===== *)
theory Clock
  imports Proc_Spec
begin

text \<open>
  The clock interrupt and the callout table (\<^verbatim>\<open>sys/clock.c\<close>, \<^verbatim>\<open>h/callo.h\<close>). The table is an array ended by an entry without a
  routine; each entry holds the ticks after the one before it. A routine is a number, and what calling it
  does is the parameter \<open>call\<close>; the profiling routine of \<^verbatim>\<open>conf/mch.s\<close> is the parameter \<open>addupc\<close>. An access past the end of the array ends in \<open>Panicked ''wild access''\<close>.
\<close>

section \<open>State\<close>

record callo =
  c_time :: int
  c_arg :: int
  c_func :: "nat option"

record clk = kst +
  callout :: "callo list"
  dk_busy :: int
  dk_time :: "nat \<Rightarrow> int"

definition NCALL :: nat where "NCALL = 20"
definition SIGCLK :: int where "SIGCLK = 14"

definition off_table :: "('b, 's) kmon" where
  "off_table = kpanic ''wild access''"

definition set_callout :: "callo list \<Rightarrow> (unit, 'a clk_scheme) kmon" where
  "set_callout cs = kmod (\<lambda>s. s\<lparr>callout := cs\<rparr>)"

lemma krun_clock [krun]: "kthen (set_callout cs) n s = n (s\<lparr>callout := cs\<rparr>)" "set_callout cs s = Ok () (s\<lparr>callout := cs\<rparr>)"
  by (simp_all add: set_callout_def krun) (simp add: kmod_def)

section \<open>\<^verbatim>\<open>timeout\<close>\<close>

text \<open>The place of the new entry and the ticks left after the entries before it.\<close>

fun timeout_scan :: "callo list \<Rightarrow> int \<Rightarrow> nat \<Rightarrow> (nat \<times> int) option" where
  "timeout_scan [] t p = None"
| "timeout_scan (e # es) t p =
     (if c_func e \<noteq> None \<and> c_time e \<le> t then timeout_scan es (cint (t - c_time e)) (p + 1) else Some (p, t))"

text \<open>The end of the table: the first entry from \<open>p\<close> on without a routine.\<close>

fun table_end :: "callo list \<Rightarrow> nat \<Rightarrow> nat option" where
  "table_end [] p = None"
| "table_end (e # es) p = (if c_func e \<noteq> None then table_end es (p + 1) else Some p)"

definition timeout :: "nat \<Rightarrow> int \<Rightarrow> int \<Rightarrow> (unit, 'a clk_scheme) kmon" where
  "timeout fn arg tim =
     kbind (kget callout) (\<lambda>cs.
     case timeout_scan cs tim 0 of
       None \<Rightarrow> off_table
     | Some (p1, t) \<Rightarrow>
         if p1 \<ge> NCALL - 1 then kpanic ''Timeout table overflow''
         else
           (let cs = cs[p1 := (cs ! p1)\<lparr>c_time := cint (c_time (cs ! p1) - t)\<rparr>] in
            case table_end (drop p1 cs) p1 of
              None \<Rightarrow> off_table
            | Some p2 \<Rightarrow>
                if p2 + 1 \<ge> NCALL then off_table
                else
                  (let cs = fold (\<lambda>i xs. xs[i + 1 := xs ! i]) (rev [p1 ..< p2 + 1]) cs
                   in set_callout (cs[p1 := \<lparr>c_time = t, c_arg = arg, c_func = Some fn\<rparr>]))))"

section \<open>\<^verbatim>\<open>clock\<close>\<close>

text \<open>The first entry with time left loses a tick (the terminator if there is none).\<close>

fun tick :: "callo list \<Rightarrow> callo list option" where
  "tick [] = None"
| "tick (e # es) =
     (if c_time e \<le> 0 \<and> c_func e \<noteq> None then map_option ((#) e) (tick es) else Some (e\<lparr>c_time := cint (c_time e - 1)\<rparr> # es))"

text \<open>The calls; the table is read again after each, because a routine may enter a new timeout.\<close>

fun run_due :: "nat \<Rightarrow> (nat \<Rightarrow> int \<Rightarrow> (unit, 'a clk_scheme) kmon) \<Rightarrow> nat \<Rightarrow> (nat, 'a clk_scheme) kmon" where
  "run_due 0 call p1 = off_table"
| "run_due (Suc n) call p1 =
     kbind (kget (\<lambda>s. callout s ! p1)) (\<lambda>e.
     case c_func e of
       None \<Rightarrow> kret p1
     | Some f \<Rightarrow> if c_time e \<le> 0 then kthen (call f (c_arg e)) (run_due n call (p1 + 1)) else kret p1)"

text \<open>The entries from \<open>p1\<close> on move down to \<open>p2\<close>.\<close>

function slide :: "nat \<Rightarrow> nat \<Rightarrow> callo list \<Rightarrow> callo list option" where
  "slide p2 p1 cs =
     (if p1 \<ge> length cs then None
      else
        (let e = cs ! p1 in
         case c_func e of
           None \<Rightarrow> Some (cs[p2 := (cs ! p2)\<lparr>c_func := None\<rparr>])
         | Some f \<Rightarrow> slide (p2 + 1) (p1 + 1) (cs[p2 := e])))"
  by pat_completeness auto
termination by (relation "measure (\<lambda>(p2, p1, cs). length cs - p1)") auto

declare slide.simps [simp del] run_due.simps [simp del]

definition clock_callouts :: "bool \<Rightarrow> (nat \<Rightarrow> int \<Rightarrow> (unit, 'a clk_scheme) kmon) \<Rightarrow> (unit, 'a clk_scheme) kmon" where
  "clock_callouts basepri call =
     kbind (kget callout) (\<lambda>cs.
     if c_func (cs ! 0) = None then kret ()
     else case tick cs of
       None \<Rightarrow> off_table
     | Some cs \<Rightarrow>
         kthen (set_callout cs)
         (if basepri \<or> c_time (cs ! 0) > 0 then kret ()
          else
            kbind (run_due (length cs) call 0) (\<lambda>p1.
            kbind (kget callout) (\<lambda>cs.
            case slide 0 p1 cs of None \<Rightarrow> off_table | Some cs \<Rightarrow> set_callout cs))))"

text \<open>Times and profiling: \<open>eip\<close> is the interrupted address, \<open>waitloc\<close> that of the idle loop.\<close>

definition clock_account :: "bool \<Rightarrow> bool \<Rightarrow> (unit, 'a clk_scheme) kmon \<Rightarrow> (unit, 'a clk_scheme) kmon" where
  "clock_account usermode idle addupc =
     kbind (kget (\<lambda>s. nat (dk_busy s mod 8))) (\<lambda>a.
     kbind (uget u_procp) (\<lambda>me.
     kbind (if usermode then
              kthen (umod (\<lambda>v. v\<lparr>u_utime := cint (u_utime v + 1)\<rparr>))
              (kbind (uget pr_scale) (\<lambda>sc.
               kthen (kwhen (sc \<noteq> 0) addupc)
               (kbind (pget me p_nice) (\<lambda>n. kret (if n > NZERO then a + 8 else a)))))
            else
              kthen (umod (\<lambda>v. v\<lparr>u_stime := cint (u_stime v + 1)\<rparr>))
              (kret (a + 16 + (if idle then 8 else 0)))) (\<lambda>a.
     kthen (kmod (\<lambda>s. s\<lparr>dk_time := (dk_time s)(a := cint (dk_time s a + 1))\<rparr>))
     (pmod me (\<lambda>x. x\<lparr>p_cpu := (if cchar (p_cpu x + 1) = 0 then cchar (p_cpu x) else cchar (p_cpu x + 1))\<rparr>)))))"

text \<open>\<^verbatim>\<open>SCHMAG\<close> is the text \<^verbatim>\<open>8/10\<close>, so the product is taken first.\<close>

definition decay :: "proc \<Rightarrow> int" where
  "decay x = (let a = (p_cpu x mod 256) * 8 div 10 + p_nice x - NZERO; a = (if a < 0 then 0 else a) in if a > 255 then 255 else a)"

definition live :: "proc \<Rightarrow> bool" where
  "live x \<longleftrightarrow> p_stat x \<in> {SSLEEP, SWAIT, SRUN, SIDL}"

definition second_proc :: "(chan \<Rightarrow> nat) \<Rightarrow> nat \<Rightarrow> (unit, 'a kst_scheme) kmon" where
  "second_proc h pp =
     kbind (pget pp id) (\<lambda>x.
     if \<not> live x then kret ()
     else
       kthen (pmod pp (\<lambda>x. if p_time x \<noteq> 127 then x\<lparr>p_time := cchar (p_time x + 1)\<rparr> else x))
       (kthen (kwhen (p_clktim x \<noteq> 0)
          (kthen (pmod pp (\<lambda>x. x\<lparr>p_clktim := cint (p_clktim x - 1)\<rparr>))
          (kbind (pget pp p_clktim) (\<lambda>c. kwhen (c = 0) (psignal h pp SIGCLK)))))
       (kthen (pmod pp (\<lambda>x. x\<lparr>p_cpu := cchar (decay x)\<rparr>))
       (kbind (pget pp p_pri) (\<lambda>pri. kwhen (pri \<ge> PUSER) (kbind (setpri pp) (\<lambda>_. kret ())))))))"

definition clock_second :: "(chan \<Rightarrow> nat) \<Rightarrow> bool \<Rightarrow> (unit, 'a kst_scheme) kmon" where
  "clock_second h basepri =
     kthen (kmod (\<lambda>s. s\<lparr>lbolt := lbolt s + 1\<rparr>))
     (kbind (kget lbolt) (\<lambda>l.
      if l < HZ \<or> basepri then kret ()
      else
        kthen (kmod (\<lambda>s. s\<lparr>lbolt := lbolt s - HZ, time := cint (time s + 1), runrun := cchar (runrun s + 1)\<rparr>))
        (kthen (wakeup h Ch_lbolt)
        (kthen (kfor [0 ..< NPROC] (second_proc h))
        (kbind (kget runin) (\<lambda>r.
         kwhen (r \<noteq> 0) (kthen (kmod (\<lambda>s. s\<lparr>runin := 0\<rparr>)) (wakeup h Ch_runin))))))))"

definition clock :: "(chan \<Rightarrow> nat) \<Rightarrow> bool \<Rightarrow> bool \<Rightarrow> bool \<Rightarrow> (nat \<Rightarrow> int \<Rightarrow> (unit, 'a clk_scheme) kmon) \<Rightarrow> (unit, 'a clk_scheme) kmon \<Rightarrow>
    (unit, 'a clk_scheme) kmon" where
  "clock h basepri usermode idle call addupc =
     kthen (clock_callouts basepri call)
     (kthen (clock_account usermode idle addupc)
     (clock_second h basepri))"

section \<open>The agenda\<close>

text \<open>What the table means: the pending calls with the ticks until each.\<close>

definition pending :: "callo list \<Rightarrow> callo list" where
  "pending cs = takeWhile (\<lambda>e. c_func e \<noteq> None) cs"

fun due :: "int \<Rightarrow> callo list \<Rightarrow> (int \<times> nat \<times> int) list" where
  "due b [] = []"
| "due b (e # es) = (b + c_time e, the (c_func e), c_arg e) # due (b + c_time e) es"

definition agenda :: "callo list \<Rightarrow> (int \<times> nat \<times> int) list" where
  "agenda cs = due 0 (pending cs)"

text \<open>A new call goes after those due at the same time or earlier.\<close>

fun insert_due :: "int \<times> nat \<times> int \<Rightarrow> (int \<times> nat \<times> int) list \<Rightarrow> (int \<times> nat \<times> int) list" where
  "insert_due x [] = [x]"
| "insert_due x (y # ys) = (if fst y \<le> fst x then y # insert_due x ys else x # y # ys)"

definition table_ok :: "callo list \<Rightarrow> bool" where
  "table_ok cs \<longleftrightarrow> length cs = NCALL \<and> length (pending cs) < NCALL \<and> (\<forall>e\<in>set (pending cs). 0 \<le> c_time e \<and> c_time e < 2 ^ 31)"

definition entries_ok :: "callo list \<Rightarrow> bool" where
  "entries_ok P \<longleftrightarrow> (\<forall>e\<in>set P. c_func e \<noteq> None \<and> 0 \<le> c_time e \<and> c_time e < 2 ^ 31)"

lemma table_split:
  assumes "table_ok cs"
  obtains e R where "cs = pending cs @ e # R" "c_func e = None" "entries_ok (pending cs)" "length (pending cs) + length R + 1 = NCALL"
proof -
  have d: "pending cs @ dropWhile (\<lambda>e. c_func e \<noteq> None) cs = cs" by (simp add: pending_def)
  moreover have "dropWhile (\<lambda>e. c_func e \<noteq> None) cs \<noteq> []"
  proof
    assume "dropWhile (\<lambda>e. c_func e \<noteq> None) cs = []"
    then have "pending cs = cs" using d by (metis append_Nil2)
    then show False using assms by (auto simp: table_ok_def)
  qed
  then obtain e R where r: "dropWhile (\<lambda>e. c_func e \<noteq> None) cs = e # R" by (cases "dropWhile (\<lambda>e. c_func e \<noteq> None) cs") auto
  moreover have "c_func e = None" using r by (simp add: dropWhile_eq_Cons_conv)
  moreover have "c_func x \<noteq> None" if "x \<in> set (pending cs)" for x using that set_takeWhileD unfolding pending_def by fastforce
  then have "entries_ok (pending cs)" using assms by (auto simp: entries_ok_def table_ok_def)
  moreover have e: "cs = pending cs @ e # R" using d r by simp
  moreover have "length (pending cs) + length R + 1 = NCALL" using arg_cong [OF e, of length] assms by (simp add: table_ok_def)
  ultimately show ?thesis by (intro that [of e R])
qed

lemma pending_app: "entries_ok P \<Longrightarrow> c_func e = None \<Longrightarrow> pending (P @ e # R) = P"
  unfolding pending_def entries_ok_def by (induction P) auto

lemma entries_ok_app [simp]: "entries_ok (A @ B) \<longleftrightarrow> entries_ok A \<and> entries_ok B" "entries_ok (e # B) \<longleftrightarrow> (c_func e \<noteq> None \<and> 0 \<le> c_time e \<and> c_time e < 2 ^ 31) \<and> entries_ok B"
    "entries_ok []"
  by (auto simp: entries_ok_def)

lemma due_append [simp]: "due b (A @ B) = due b A @ due (b + sum_list (map c_time A)) B"
  by (induction A arbitrary: b) (auto simp: add.assoc)

lemma table_okI: "entries_ok P \<Longrightarrow> c_func e = None \<Longrightarrow> length P + length R + 1 = NCALL \<Longrightarrow> table_ok (P @ e # R)"
  using pending_app [of P e R] by (auto simp: table_ok_def entries_ok_def)

section \<open>\<^verbatim>\<open>timeout\<close> inserts\<close>

lemma timeout_scan_ok:
  assumes "entries_ok P" "c_func e = None" "0 \<le> t" "t < 2 ^ 31"
  shows "\<exists>A B t'. P = A @ B \<and> timeout_scan (P @ e # R) t p = Some (p + length A, t') \<and> t' = t - sum_list (map c_time A) \<and> 0 \<le> t' \<and> t' < 2 ^ 31 \<and>
    (\<forall>f B'. B = f # B' \<longrightarrow> t' < c_time f) \<and> insert_due (b + t, x) (due b P) = due b A @ (b + t, x) # due (b + sum_list (map c_time A)) B"
  using assms
proof (induction P arbitrary: t p b)
  case Nil
  then show ?case by auto
next
  case (Cons f P)
  show ?case
  proof (cases "c_time f \<le> t")
    case True
    have c: "cint (t - c_time f) = t - c_time f" using Cons.prems True by (intro cint_id) auto
    obtain A B t' where i: "P = A @ B" "timeout_scan (P @ e # R) (t - c_time f) (p + 1) = Some (p + 1 + length A, t')" "t' = t - c_time f - sum_list (map c_time A)"
        "0 \<le> t'" "t' < 2 ^ 31" "\<forall>f B'. B = f # B' \<longrightarrow> t' < c_time f"
        "insert_due (b + t, x) (due (b + c_time f) P) = due (b + c_time f) A @ (b + t, x) # due (b + c_time f + sum_list (map c_time A)) B"
      using Cons.IH [of "t - c_time f" "p + 1" "b + c_time f"] Cons.prems True by (auto simp: add.assoc)
    show ?thesis
      by (rule exI [of _ "f # A"], rule exI [of _ B], rule exI [of _ t']) (use i True c Cons.prems in \<open>auto simp: add.assoc algebra_simps\<close>)
  next
    case False
    then show ?thesis using Cons.prems by (intro exI [of _ "[]"] exI [of _ "f # P"] exI [of _ t]) auto
  qed
qed

lemma fold_shift:
  "(fold (\<lambda>i xs. xs[i + 1 := xs ! i]) (rev [length X ..< length X + length M]) (X @ M @ z # Y))[length X := n] = X @ n # M @ Y"
proof (induction M arbitrary: z Y rule: rev_induct)
  case (snoc m M)
  have "(X @ (M @ [m]) @ z # Y)[length X + length M + 1 := (X @ (M @ [m]) @ z # Y) ! (length X + length M)] = X @ M @ m # (m # Y)"
    by (simp add: list_update_append nth_append)
  then show ?case using snoc [of m "m # Y"] by simp
qed simp

lemma table_end_ok: "entries_ok P \<Longrightarrow> c_func e = None \<Longrightarrow> table_end (P @ e # R) p = Some (p + length P)"
  by (induction P arbitrary: p) auto

text \<open>The entries from the place of the new one on, the first of them shortened.\<close>

definition shorten :: "int \<Rightarrow> callo list \<Rightarrow> callo list" where
  "shorten t M = (case M of [] \<Rightarrow> [] | e # es \<Rightarrow> e\<lparr>c_time := cint (c_time e - t)\<rparr> # es)"

lemma length_shorten [simp]: "length (shorten t M) = length M"
  by (simp add: shorten_def split: list.split)

lemma timeout_run:
  assumes "entries_ok (A @ B)" "c_func e = None" "timeout_scan ((A @ B) @ e # R) tim 0 = Some (length A, t)" "callout s = (A @ B) @ e # R"
    "length (A @ B) + length R + 1 = NCALL" "R \<noteq> []"
  shows "timeout fn arg tim s = Ok () (s\<lparr>callout := A @ \<lparr>c_time = t, c_arg = arg, c_func = Some fn\<rparr> # shorten t (B @ [e]) @ tl R\<rparr>)"
proof -
  let ?n = "\<lparr>c_time = t, c_arg = arg, c_func = Some fn\<rparr>" let ?M = "shorten t (B @ [e])"
  obtain z Y where R: "R = z # Y" using assms(6) by (cases R) auto
  have l: "length A < NCALL - 1" using assms(5) R by simp
  have u: "(A @ B @ e # R)[length A := ((A @ B @ e # R) ! length A)\<lparr>c_time := cint (c_time ((A @ B @ e # R) ! length A) - t)\<rparr>] = A @ ?M @ z # Y"
    by (cases B) (simp_all add: R shorten_def)
  have m: "?M = butlast ?M @ [last ?M]" by (intro append_butlast_last_id [symmetric]) (simp add: shorten_def split: list.split)
  have "c_func (last ?M) = None" "length (butlast ?M) = length B" using assms(2) by (cases B; simp add: shorten_def)+
  moreover have "table_end ((butlast ?M @ last ?M # z # Y)) p = table_end (B @ e # z # Y) p" for p
    using m assms(2) by (cases B) (simp_all add: shorten_def)
  ultimately have "table_end (?M @ z # Y) (length A) = Some (length A + length B)"
    using table_end_ok [of B e "z # Y" "length A"] assms(1,2) m by (metis append.assoc append_Cons append_Nil entries_ok_app(1))
  moreover have "length A + length B + 1 < NCALL" using assms(5) R by simp
  moreover have "[length A ..< length A + length B + 1] = [length A ..< length A + length ?M]" by simp
  ultimately show ?thesis
    using assms(3,4) l u fold_shift [of A ?M z Y ?n]
    by (simp add: timeout_def krun Let_def R del: upt_Suc)
qed

section \<open>A tick\<close>










section \<open>Properties\<close>

text \<open>
  C15: \<^verbatim>\<open>timeout(fun, arg, tim)\<close> enters the call into the agenda of pending calls with \<open>tim\<close> ticks to go, after those due at the same time or
  earlier; every other pending call keeps its time, although the table stores differences. The table has room when at most 18 calls are pending.
\<close>

theorem timeout_inserts:
  assumes "table_ok (callout s)" "length (pending (callout s)) + 2 \<le> NCALL" "0 \<le> tim" "tim < 2 ^ 31"
  shows "\<exists>cs. timeout fn arg tim s = Ok () (s\<lparr>callout := cs\<rparr>) \<and> table_ok cs \<and> agenda cs = insert_due (tim, fn, arg) (agenda (callout s))"
proof -
  obtain e R where c: "callout s = pending (callout s) @ e # R" "c_func e = None" "entries_ok (pending (callout s))" "length (pending (callout s)) + length R + 1 = NCALL"
    using table_split [OF assms(1)] .
  obtain A B t where t: "pending (callout s) = A @ B" "timeout_scan (pending (callout s) @ e # R) tim 0 = Some (length A, t)" "t = tim - sum_list (map c_time A)"
      "0 \<le> t" "t < 2 ^ 31" "\<forall>f B'. B = f # B' \<longrightarrow> t < c_time f"
      "insert_due (tim, fn, arg) (due 0 (pending (callout s))) = due 0 A @ (tim, fn, arg) # due (sum_list (map c_time A)) B"
    using timeout_scan_ok [OF c(3,2) assms(3,4), of R 0 0 "(fn, arg)"] by auto
  have R: "R \<noteq> []" using assms(2) c(4) by auto
  let ?n = "\<lparr>c_time = t, c_arg = arg, c_func = Some fn\<rparr>" let ?cs = "A @ ?n # shorten t (B @ [e]) @ tl R"
  have run: "timeout fn arg tim s = Ok () (s\<lparr>callout := ?cs\<rparr>)"
    using c t(1,2) R by (intro timeout_run) (auto simp: t(1))
  define P e' where "P = A @ ?n # butlast (shorten t (B @ [e]))" and "e' = last (shorten t (B @ [e]))"
  have sh: "shorten t (B @ [e]) = butlast (shorten t (B @ [e])) @ [e']"
    unfolding e'_def by (intro append_butlast_last_id [symmetric]) (cases B; simp add: shorten_def)
  have cs: "?cs = P @ e' # tl R" by (subst sh) (simp add: P_def)
  have e': "c_func e' = None" using c(2) by (cases B) (simp_all add: e'_def shorten_def)
  have ent: "entries_ok A" "entries_ok B" using c(3) t(1) by simp_all
  have B: "entries_ok (butlast (shorten t (B @ [e]))) \<and> due (sum_list (map c_time A) + t) (butlast (shorten t (B @ [e]))) = due (sum_list (map c_time A)) B"
  proof (cases B)
    case (Cons f B')
    have "cint (c_time f - t) = c_time f - t" using ent(2) t(4,5,6) Cons by (intro cint_id) auto
    then show ?thesis using ent(2) t(4,6) Cons by (simp add: shorten_def butlast_append)
  qed (simp add: shorten_def)
  have P: "entries_ok P" using ent(1) B t(4,5) by (simp add: P_def)
  have "due 0 P = insert_due (tim, fn, arg) (due 0 (pending (callout s)))" using B t(3,7) by (simp add: P_def)
  then have "agenda ?cs = insert_due (tim, fn, arg) (agenda (callout s))" unfolding cs using pending_app [OF P e'] by (simp add: agenda_def)
  moreover have "length P + length (tl R) + 1 = NCALL" using c(4) R arg_cong [OF t(1), of length] by (cases R) (simp_all add: P_def)
  then have "table_ok ?cs" unfolding cs using table_okI [OF P e'] by simp
  ultimately show ?thesis using run by blast
qed


definition no_calls :: "callo list" where
  "no_calls = replicate NCALL \<lparr>c_time = 0, c_arg = 0, c_func = None\<rparr>"

definition clk_st :: clk where
  "clk_st = \<lparr>u = user0, proc = (\<lambda>_. proc0), klog = [], time = 0, lbolt = 0, runq = None, slpque = (\<lambda>_. None), curpri = 0,
     runrun = 0, runin = 0, runout = 0, mpid = 0, umem = (\<lambda>_. None), core = (\<lambda>_. 0), callout = no_calls, dk_busy = 0, dk_time = (\<lambda>_. 0)\<rparr>"

lemma no_calls_ok: "table_ok no_calls" "pending no_calls = []"
  by (simp_all add: table_ok_def pending_def no_calls_def NCALL_def eval_nat_numeral)

theorem timeout_inserts_witness: "\<exists>cs. timeout 7 5 30 clk_st = Ok () (clk_st\<lparr>callout := cs\<rparr>) \<and> agenda cs = [(30, 7, 5)]"
  using timeout_inserts [of clk_st 30 7 5] no_calls_ok by (simp add: clk_st_def agenda_def NCALL_def) metis


end
