(* ===== verification/Tty.thy ===== *)
theory Tty
  imports Rdwri Clock Clist
begin

text \<open>
  Terminals: the line discipline of \<^verbatim>\<open>dev/tty.c\<close> (with \<^verbatim>\<open>h/tty.h\<close>, the parity table of \<^verbatim>\<open>dev/partab.c\<close> and the
  multiplexor stubs of \<^verbatim>\<open>sys/fakemx.c\<close>). The state adds to the clock's state the character blocks of
  \<open>Clist\<close>, the table of terminal structures (\<open>tp\<close> is an index into it), the line buffer \<^verbatim>\<open>canonb\<close> and
  the state of the hardware, an arbitrary type that only the port instructions reach. The pointers
  \<^verbatim>\<open>t_oproc\<close>, \<^verbatim>\<open>d_stop\<close> and the line switch are the rows of \<open>tdrv\<close>, an argument. \<^verbatim>\<open>wakeup\<close> and \<^verbatim>\<open>signal\<close> are logged;
  a \<^verbatim>\<open>sleep\<close> ends the run of a routine. Characters are the values 0 to 255 that \<^verbatim>\<open>getc\<close>
  returns; the special characters are \<^verbatim>\<open>char\<close>s and so between -128 and 127.
\<close>

unbundle bit_operations_syntax

section \<open>State\<close>

record tc =
  intrc :: int
  quitc :: int
  startc :: int
  stopc :: int
  eofc :: int
  brkc :: int

datatype tstate =
    TIMEOUT | WOPEN | ISOPEN | FLUSH | CARR_ON | BUSY | ASLEEP | XCLUDE | TTSTOP | HUPCLS | TBLOCK
  | DKCMD | DKMPX | DKCALL | DKLINGR | CNTLQ

record tty =
  t_rawq :: clist
  t_canq :: clist
  t_outq :: clist
  t_chan :: "nat option"
  t_addr :: int
  t_dev :: int
  t_flags :: int
  t_state :: "tstate set"
  t_pgrp :: int
  t_delct :: int
  t_line :: int
  t_col :: int
  t_erase :: int
  t_kill :: int
  t_char :: int
  t_ispeed :: int
  t_ospeed :: int
  t_tc :: tc

record 'h tst = clk +
  clm :: clmem
  ttys :: "nat \<Rightarrow> tty"
  canonb :: "int list"
  tk_nin :: int
  tk_nout :: int
  hw :: 'h

definition TTIPRI :: int where "TTIPRI = 28"
definition TTOPRI :: int where "TTOPRI = 29"
definition CERASE :: int where "CERASE = 35"
definition CEOT :: int where "CEOT = 4"
definition CKILL :: int where "CKILL = 64"
definition CQUIT :: int where "CQUIT = 28"
definition CINTR :: int where "CINTR = 127"
definition CSTOP :: int where "CSTOP = 19"
definition CSTART :: int where "CSTART = 17"
definition CBRK :: int where "CBRK = 255"
definition TTHIWAT :: int where "TTHIWAT = 100"
definition TTLOWAT :: int where "TTLOWAT = 50"
definition TTYHOG :: int where "TTYHOG = 256"
definition CANBSIZ :: nat where "CANBSIZ = 256"
definition TANDEM :: int where "TANDEM = 1"
definition CBREAK :: int where "CBREAK = 2"
definition LCASE :: int where "LCASE = 4"
definition ECHO :: int where "ECHO = 8"
definition CRMOD :: int where "CRMOD = 16"
definition RAW :: int where "RAW = 32"
definition ODDP :: int where "ODDP = 64"
definition EVENP :: int where "EVENP = 128"
definition TBDELAY :: int where "TBDELAY = 3072"
definition XTABS :: int where "XTABS = 3072"
definition VTDELAY :: int where "VTDELAY = 16384"
definition SIGINT :: nat where "SIGINT = 2"
definition SIGQUIT :: nat where "SIGQUIT = 3"

text \<open>The input mapping table, and the parity table whose low bits classify a character.\<close>

definition maptab :: "int list" where
  "maptab = replicate 32 0 @
     [0, 124, 0, 0, 0, 0, 0, 96,
      123, 125, 0, 0, 0, 0, 0, 0] @
     replicate 40 0 @
     [0, 0, 0, 0, 0, 0, 126, 0,
      0, 65, 66, 67, 68, 69, 70, 71,
      72, 73, 74, 75, 76, 77, 78, 79,
      80, 81, 82, 83, 84, 85, 86, 87,
      88, 89, 90, 0, 0, 0, 0, 0]"

definition partab :: "int list" where
  "partab =
    [1, 129, 129, 1, 129, 1, 1, 129, 130, 4, 3, 129, 5, 134, 129, 1,
     129, 1, 1, 129, 1, 129, 129, 1, 1, 129, 129, 1, 129, 1, 1, 129,
     128, 0, 0, 128, 0, 128, 128, 0, 0, 128, 128, 0, 128, 0, 0, 128,
     0, 128, 128, 0, 128, 0, 0, 128, 128, 0, 0, 128, 0, 128, 128, 0,
     128, 0, 0, 128, 0, 128, 128, 0, 0, 128, 128, 0, 128, 0, 0, 128,
     0, 128, 128, 0, 128, 0, 0, 128, 128, 0, 0, 128, 0, 128, 128, 0,
     0, 128, 128, 0, 128, 0, 0, 128, 128, 0, 0, 128, 0, 128, 128, 0,
     128, 0, 0, 128, 0, 128, 128, 0, 0, 128, 128, 0, 128, 0, 0, 129]"

text \<open>The routines a terminal reaches through pointers: its driver and the line switch.\<close>

record 's tdrv =
  t_oproc :: "nat \<Rightarrow> (unit, 's) kmon"
  d_stop :: "nat \<Rightarrow> (unit, 's) kmon"
  nldisp :: int
  l_open :: "int \<Rightarrow> int \<Rightarrow> nat \<Rightarrow> int \<Rightarrow> (unit, 's) kmon"
  l_close :: "int \<Rightarrow> nat \<Rightarrow> (unit, 's) kmon"
  l_ioctl :: "int \<Rightarrow> int \<Rightarrow> nat \<Rightarrow> int \<Rightarrow> (unit, 's) kmon"

section \<open>Access to the structures\<close>

definition tget :: "nat \<Rightarrow> (tty \<Rightarrow> 'b) \<Rightarrow> ('b, ('h, 'a) tst_scheme) kmon" where
  "tget tp f = kget (\<lambda>s. f (ttys s tp))"

definition tmod :: "nat \<Rightarrow> (tty \<Rightarrow> tty) \<Rightarrow> (unit, ('h, 'a) tst_scheme) kmon" where
  "tmod tp f = kmod (\<lambda>s. s\<lparr>ttys := (ttys s)(tp := f (ttys s tp))\<rparr>)"

text \<open>\<^verbatim>\<open>tp->t_state |= f\<close> and \<^verbatim>\<open>tp->t_state &= ~f\<close>.\<close>

definition tset :: "nat \<Rightarrow> tstate \<Rightarrow> (unit, ('h, 'a) tst_scheme) kmon" where
  "tset tp f = tmod tp (\<lambda>t. t\<lparr>t_state := insert f (t_state t)\<rparr>)"

definition tclr :: "nat \<Rightarrow> tstate \<Rightarrow> (unit, ('h, 'a) tst_scheme) kmon" where
  "tclr tp f = tmod tp (\<lambda>t. t\<lparr>t_state := t_state t - {f}\<rparr>)"

text \<open>The three queues of a terminal, and the calls of \<^verbatim>\<open>prim.c\<close> on them.\<close>

datatype tqueue = Rawq | Canq | Outq

fun tq :: "tqueue \<Rightarrow> tty \<Rightarrow> clist" where
  "tq Rawq t = t_rawq t"
| "tq Canq t = t_canq t"
| "tq Outq t = t_outq t"

fun tq_set :: "tqueue \<Rightarrow> clist \<Rightarrow> tty \<Rightarrow> tty" where
  "tq_set Rawq q t = t\<lparr>t_rawq := q\<rparr>"
| "tq_set Canq q t = t\<lparr>t_canq := q\<rparr>"
| "tq_set Outq q t = t\<lparr>t_outq := q\<rparr>"

definition tq_store :: "tqueue \<Rightarrow> nat \<Rightarrow> clist \<times> clmem \<Rightarrow> ('h, 'a) tst_scheme \<Rightarrow> ('h, 'a) tst_scheme" where
  "tq_store k tp r s = s\<lparr>ttys := (ttys s)(tp := tq_set k (fst r) (ttys s tp)), clm := snd r\<rparr>"

definition tgetc :: "tqueue \<Rightarrow> nat \<Rightarrow> (int, ('h, 'a) tst_scheme) kmon" where
  "tgetc k tp = (\<lambda>s. let r = getc (tq k (ttys s tp)) (clm s) in Ok (fst r) (tq_store k tp (snd r) s))"

definition tputc :: "int \<Rightarrow> tqueue \<Rightarrow> nat \<Rightarrow> (int, ('h, 'a) tst_scheme) kmon" where
  "tputc c k tp = (\<lambda>s. let r = putc c (tq k (ttys s tp)) (clm s) in Ok (fst r) (tq_store k tp (snd r) s))"

definition tb_to_q :: "int list \<Rightarrow> tqueue \<Rightarrow> nat \<Rightarrow> (nat, ('h, 'a) tst_scheme) kmon" where
  "tb_to_q cs k tp = (\<lambda>s. let r = b_to_q cs (tq k (ttys s tp)) (clm s) in Ok (fst r) (tq_store k tp (snd r) s))"

definition tcc :: "tqueue \<Rightarrow> nat \<Rightarrow> (int, ('h, 'a) tst_scheme) kmon" where
  "tcc k tp = tget tp (\<lambda>t. c_cc (tq k t))"

definition ksignal :: "int \<Rightarrow> nat \<Rightarrow> (unit, 'a kst_scheme) kmon" where
  "ksignal g n = kmod (\<lambda>s. s\<lparr>klog := klog s @ [Ev_signal g n]\<rparr>)"

text \<open>\<^verbatim>\<open>sys/fakemx.c\<close>.\<close>

definition sdata :: "nat \<Rightarrow> (unit, 'a kst_scheme) kmon" where
  "sdata cp = kret ()"

definition mpxchan :: "(unit, 'a kst_scheme) kmon" where
  "mpxchan = seterr EINVAL"

definition scontrol :: "nat \<Rightarrow> int \<Rightarrow> nat \<Rightarrow> (unit, 'a kst_scheme) kmon" where
  "scontrol ch s c = kret ()"

definition M_SIG :: int where "M_SIG = 14"

section \<open>Output\<close>

definition ttstart :: "('h, 'a) tst_scheme tdrv \<Rightarrow> nat \<Rightarrow> (unit, ('h, 'a) tst_scheme) kmon" where
  "ttstart d tp = kbind (tget tp t_state) (\<lambda>st.
     kwhen (TIMEOUT \<notin> st \<and> TTSTOP \<notin> st \<and> BUSY \<notin> st) (t_oproc d tp))"

definition ttrstrt :: "('h, 'a) tst_scheme tdrv \<Rightarrow> nat \<Rightarrow> (unit, ('h, 'a) tst_scheme) kmon" where
  "ttrstrt d tp = kthen (tclr tp TIMEOUT) (ttstart d tp)"

text \<open>The delay after a character and the new column (the \<^verbatim>\<open>switch\<close> of \<^verbatim>\<open>ttyoutput\<close>).\<close>

definition out_delay :: "int \<Rightarrow> int \<Rightarrow> int \<Rightarrow> int \<times> int" where
  "out_delay fl col c =
     (let ctype = partab ! nat c AND 63 in
      if ctype = 0 then (0, cchar (col + 1))
      else if ctype = 2 then (0, if col \<noteq> 0 then cchar (col - 1) else col)
      else if ctype = 3 then
        (let ctype = drop_bit 8 fl AND 3 in
         (if ctype = 1 then (if col \<noteq> 0 then cint (umax (cuint col div 16 + 3) 6) else 0)
          else if ctype = 2 then 6 else 0, 0))
      else if ctype = 4 then
        (let ctype = drop_bit 10 fl AND 3; w = 1 - (col OR NOT 7) in
         (if ctype = 1 then (if w < 5 then 0 else w) else 0, cchar (cchar (col OR 7) + 1)))
      else if ctype = 5 then (if fl AND VTDELAY \<noteq> 0 then 127 else 0, col)
      else if ctype = 6 then
        (let ctype = drop_bit 12 fl AND 3 in
         (if ctype = 1 then 5 else if ctype = 2 then 10 else 0, 0))
      else (0, col))"

text \<open>The pairs of the string that \<^verbatim>\<open>ttyoutput\<close> searches for upper-case-only terminals.\<close>

definition lcase_esc :: "(int \<times> int) list" where
  "lcase_esc = [(123, 40), (125, 41), (124, 33), (126, 94), (96, 39)]"

definition out_char :: "int \<Rightarrow> nat \<Rightarrow> (unit, ('h, 'a) tst_scheme) kmon" where
  "out_char c tp =
     kbind (tputc c Outq tp) (\<lambda>_.
     kbind (tget tp (\<lambda>t. out_delay (t_flags t) (t_col t) c)) (\<lambda>(w, col).
     kthen (tmod tp (\<lambda>t. t\<lparr>t_col := col\<rparr>))
     (if w \<noteq> 0 then kbind (tputc (w OR 128) Outq tp) (\<lambda>_. kret ()) else kret ())))"

text \<open>\<^verbatim>\<open>do out while (--c >= 0 && tp->t_col&07)\<close>.\<close>

fun tab_loop :: "nat \<Rightarrow> (unit, ('h, 'a) tst_scheme) kmon \<Rightarrow> nat \<Rightarrow> (unit, ('h, 'a) tst_scheme) kmon" where
  "tab_loop 0 out tp = out"
| "tab_loop (Suc c) out tp =
     kthen out (kbind (tget tp t_col) (\<lambda>col. if col AND 7 \<noteq> 0 then tab_loop c out tp else kret ()))"

text \<open>The number bounds the depth of the recursion; a space, a backslash and a carriage return recurse no further.\<close>

fun ttyoutput_f :: "nat \<Rightarrow> int \<Rightarrow> nat \<Rightarrow> (unit, ('h, 'a) tst_scheme) kmon" where
  "ttyoutput_f 0 c tp = kspin"
| "ttyoutput_f (Suc n) c tp =
     kthen (kmod (\<lambda>s. s\<lparr>tk_nout := cint (tk_nout s + 1)\<rparr>))
     (kbind (tget tp t_flags) (\<lambda>fl.
      if fl AND RAW \<noteq> 0 then kbind (tputc c Outq tp) (\<lambda>_. kret ())
      else
        (let c = c AND 127 in
         if c = CEOT then kret ()
         else if c = 9 \<and> fl AND TBDELAY = XTABS then tab_loop 8 (ttyoutput_f n 32 tp) tp
         else
           kbind (if fl AND LCASE \<noteq> 0 then
                    kbind (case map_of lcase_esc c of
                        Some e \<Rightarrow> kthen (ttyoutput_f n 92 tp) (kret e)
                      | None \<Rightarrow> kret c) (\<lambda>c.
                    kret (if 97 \<le> c \<and> c \<le> 122 then c - 32 else c))
                  else kret c) (\<lambda>c.
           kthen (kwhen (c = 10 \<and> fl AND CRMOD \<noteq> 0) (ttyoutput_f n 13 tp))
           (out_char c tp)))))"

definition ttyoutput :: "int \<Rightarrow> nat \<Rightarrow> (unit, ('h, 'a) tst_scheme) kmon" where
  "ttyoutput c tp = ttyoutput_f 2 c tp"

section \<open>Flushing\<close>

text \<open>\<^verbatim>\<open>while (getc(q) >= 0)\<close>: at most one more call than the queue has characters.\<close>

fun drain :: "nat \<Rightarrow> tqueue \<Rightarrow> nat \<Rightarrow> (unit, ('h, 'a) tst_scheme) kmon" where
  "drain 0 k tp = kspin"
| "drain (Suc n) k tp = kbind (tgetc k tp) (\<lambda>c. if c \<ge> 0 then drain n k tp else kret ())"

definition flush_queue :: "tqueue \<Rightarrow> nat \<Rightarrow> (unit, ('h, 'a) tst_scheme) kmon" where
  "flush_queue k tp = kbind (tcc k tp) (\<lambda>n. drain (Suc (nat n)) k tp)"

definition flushtty :: "('h, 'a) tst_scheme tdrv \<Rightarrow> nat \<Rightarrow> (unit, ('h, 'a) tst_scheme) kmon" where
  "flushtty d tp =
     kthen (flush_queue Canq tp)
     (kthen (kwakeup (Ch_rawq tp))
     (kthen (kwakeup (Ch_outq tp))
     (kthen (tclr tp TTSTOP)
     (kthen (d_stop d tp)
     (kthen (flush_queue Outq tp)
     (kthen (flush_queue Rawq tp)
     (tmod tp (\<lambda>t. t\<lparr>t_delct := 0\<rparr>))))))))"

definition wflushtty :: "('h, 'a) tst_scheme tdrv \<Rightarrow> nat \<Rightarrow> (unit, ('h, 'a) tst_scheme) kmon" where
  "wflushtty d tp =
     kbind (tget tp (\<lambda>t. c_cc (t_outq t) \<noteq> 0 \<and> CARR_ON \<in> t_state t)) (\<lambda>wait.
     if wait then
       kthen (t_oproc d tp) (kthen (tset tp ASLEEP) (ksleep (Ch_outq tp) TTOPRI))
     else flushtty d tp)"

section \<open>Opening, closing and control\<close>

definition ttyopen :: "int \<Rightarrow> nat \<Rightarrow> (unit, ('h, 'a) tst_scheme) kmon" where
  "ttyopen dev tp =
     kbind (uget u_procp) (\<lambda>pp.
     kthen (tmod tp (\<lambda>t. t\<lparr>t_dev := dev\<rparr>))
     (kbind (pget pp id) (\<lambda>p.
     kthen (kwhen (p_pgrp p = 0)
       (kthen (umod (\<lambda>v. v\<lparr>u_ttyp := Some (int tp), u_ttyd := dev\<rparr>))
       (kthen (tmod tp (\<lambda>t. if t_pgrp t = 0 then t\<lparr>t_pgrp := p_pid p\<rparr> else t))
       (kbind (tget tp t_pgrp) (\<lambda>g. pmod pp (\<lambda>p. p\<lparr>p_pgrp := g\<rparr>))))))
     (kthen (tclr tp WOPEN) (tset tp ISOPEN)))))"

definition ttychars :: "nat \<Rightarrow> (unit, ('h, 'a) tst_scheme) kmon" where
  "ttychars tp = tmod tp (\<lambda>t. t\<lparr>t_tc := \<lparr>intrc = CINTR, quitc = CQUIT, startc = CSTART, stopc = CSTOP,
     eofc = CEOT, brkc = cchar CBRK\<rparr>, t_erase := CERASE, t_kill := CKILL\<rparr>)"

definition ttyclose :: "('h, 'a) tst_scheme tdrv \<Rightarrow> nat \<Rightarrow> (unit, ('h, 'a) tst_scheme) kmon" where
  "ttyclose d tp =
     kthen (tmod tp (\<lambda>t. t\<lparr>t_pgrp := 0\<rparr>))
     (kthen (wflushtty d tp)
     (tmod tp (\<lambda>t. t\<lparr>t_state := {}\<rparr>)))"

text \<open>
  \<^verbatim>\<open>copyin\<close> and \<^verbatim>\<open>copyout\<close> of \<^verbatim>\<open>conf/mch.s\<close> for structures in the kernel: whole words are moved, the rest of
  the count is dropped; the range is checked against the end of the user space first.
\<close>

definition past_user :: "int \<Rightarrow> nat \<Rightarrow> bool" where
  "past_user a n \<longleftrightarrow> a < 0 \<or> a + int n > 4194304"

definition copyin_k :: "int \<Rightarrow> nat \<Rightarrow> (bool \<times> int list, 'a kst_scheme) kmon" where
  "copyin_k a n = kget (\<lambda>s. if past_user a n then (True, [])
     else let bs = umapped a (words n) s in (length bs < words n, take (words (length bs)) bs))"

definition copyout_k :: "int list \<Rightarrow> int \<Rightarrow> nat \<Rightarrow> (bool, 'a kst_scheme) kmon" where
  "copyout_k xs a n =
     (if past_user a n then kret True
      else
        kbind (kget (\<lambda>s. length (umapped a (words n) s))) (\<lambda>k.
        kthen (kmod (upoke a (take (words k) xs)))
        (kret (k < words n))))"

definition tc_bytes :: "tc \<Rightarrow> int list" where
  "tc_bytes x = map (\<lambda>c. c mod 256) [intrc x, quitc x, startc x, stopc x, eofc x, brkc x]"

definition tc_of :: "int list \<Rightarrow> tc" where
  "tc_of bs = \<lparr>intrc = cchar (bs ! 0), quitc = cchar (bs ! 1), startc = cchar (bs ! 2), stopc = cchar (bs ! 3),
     eofc = cchar (bs ! 4), brkc = cchar (bs ! 5)\<rparr>"

definition ttiocb_bytes :: "tty \<Rightarrow> int list" where
  "ttiocb_bytes t = map (\<lambda>c. c mod 256) [t_ispeed t, t_ospeed t, t_erase t, t_kill t] @ enc 4 (t_flags t)"

definition ttiocb_set :: "int list \<Rightarrow> tty \<Rightarrow> tty" where
  "ttiocb_set bs t = t\<lparr>t_ispeed := cchar (bs ! 0), t_ospeed := cchar (bs ! 1), t_erase := cchar (bs ! 2),
     t_kill := cchar (bs ! 3), t_flags := short (i32 (drop 4 bs))\<rparr>"

definition TIOCGETD :: int where "TIOCGETD = 29696"
definition TIOCSETD :: int where "TIOCSETD = 29697"
definition TIOCHPCL :: int where "TIOCHPCL = 29698"
definition TIOCGETP :: int where "TIOCGETP = 29704"
definition TIOCSETP :: int where "TIOCSETP = 29705"
definition TIOCSETN :: int where "TIOCSETN = 29706"
definition TIOCEXCL :: int where "TIOCEXCL = 29709"
definition TIOCNXCL :: int where "TIOCNXCL = 29710"
definition TIOCFLUSH :: int where "TIOCFLUSH = 29712"
definition TIOCSETC :: int where "TIOCSETC = 29713"
definition TIOCGETC :: int where "TIOCGETC = 29714"
definition DIOCGETP :: int where "DIOCGETP = 25608"
definition DIOCSETP :: int where "DIOCSETP = 25609"
definition FIOCLEX :: int where "FIOCLEX = 26113"
definition FIONCLEX :: int where "FIONCLEX = 26114"

lemmas ioc_defs = TIOCGETD_def TIOCSETD_def TIOCHPCL_def TIOCGETP_def TIOCSETP_def TIOCSETN_def TIOCEXCL_def
  TIOCNXCL_def TIOCFLUSH_def TIOCSETC_def TIOCGETC_def DIOCGETP_def DIOCSETP_def

definition ttioccomm :: "('h, 'a) tst_scheme tdrv \<Rightarrow> int \<Rightarrow> nat \<Rightarrow> int \<Rightarrow> int \<Rightarrow> (bool, ('h, 'a) tst_scheme) kmon" where
  "ttioccomm d com tp addr dev =
     (if com = TIOCGETD then
        kbind (tget tp t_line) (\<lambda>t.
        kbind (copyout_k (enc 4 t) addr 4) (\<lambda>bad.
        kthen (kwhen bad (seterr EFAULT)) (kret True)))
      else if com = TIOCSETD then
        kbind (copyin_k addr 4) (\<lambda>(bad, bs).
        if bad then kthen (seterr EFAULT) (kret True)
        else if cuint (dec bs) \<ge> cuint (nldisp d) then kthen (seterr ENXIO) (kret True)
        else
          kbind (tget tp t_line) (\<lambda>line.
          kthen (kwhen (line \<noteq> 0) (l_close d line tp))
          (kthen (kwhen (cuint (dec bs) \<noteq> 0) (l_open d (cuint (dec bs)) dev tp addr))
          (kbind (uget u_error) (\<lambda>e.
          kthen (kwhen (e = 0) (tmod tp (\<lambda>t. t\<lparr>t_line := cchar (cuint (dec bs))\<rparr>))) (kret True))))))
      else if com = TIOCEXCL then kthen (tset tp XCLUDE) (kret True)
      else if com = TIOCNXCL then kthen (tclr tp XCLUDE) (kret True)
      else if com = TIOCSETP \<or> com = TIOCSETN then
        kthen (kwhen (com = TIOCSETP) (wflushtty d tp))
        (kbind (copyin_k addr 8) (\<lambda>(bad, bs).
         if bad then kthen (seterr EFAULT) (kret True)
         else kthen (tmod tp (ttiocb_set bs)) (kret True)))
      else if com = TIOCGETP then
        kbind (tget tp ttiocb_bytes) (\<lambda>bs.
        kbind (copyout_k bs addr 8) (\<lambda>bad.
        kthen (kwhen bad (seterr EFAULT)) (kret True)))
      else if com = TIOCHPCL then kthen (tset tp HUPCLS) (kret True)
      else if com = TIOCFLUSH then kthen (flushtty d tp) (kret True)
      else if com = DIOCSETP \<or> com = DIOCGETP then
        kbind (tget tp t_line) (\<lambda>line. kthen (l_ioctl d line com tp addr) (kret True))
      else if com = TIOCSETC then
        kbind (copyin_k addr 6) (\<lambda>(bad, bs).
        kthen (tmod tp (\<lambda>t. t\<lparr>t_tc := tc_of (bs @ drop (length bs) (tc_bytes (t_tc t)))\<rparr>))
        (kthen (kwhen bad (seterr EFAULT)) (kret True)))
      else if com = TIOCGETC then
        kbind (tget tp (\<lambda>t. tc_bytes (t_tc t))) (\<lambda>bs.
        kbind (copyout_k bs addr 6) (\<lambda>bad.
        kthen (kwhen bad (seterr EFAULT)) (kret True)))
      else kret False)"

section \<open>Input\<close>

text \<open>
  The loop of \<^verbatim>\<open>canon\<close>: \<open>bp\<close> is the index into \<^verbatim>\<open>canonb\<close>. Each turn takes a character from the raw queue, so
  the number of turns is bounded by their count. A mapping table entry past the end of the table is a wild access.
\<close>

definition canon_store :: "(nat \<Rightarrow> (nat, ('h, 'a) tst_scheme) kmon) \<Rightarrow> nat \<Rightarrow> int \<Rightarrow> (nat, ('h, 'a) tst_scheme) kmon" where
  "canon_store loop bp c =
     kthen (kmod (\<lambda>s. s\<lparr>canonb := (canonb s)[bp := c]\<rparr>))
     (if bp + 1 \<ge> CANBSIZ then kret (bp + 1) else loop (bp + 1))"

fun canon_loop :: "nat \<Rightarrow> nat \<Rightarrow> nat \<Rightarrow> (nat, ('h, 'a) tst_scheme) kmon" where
  "canon_loop 0 tp bp = kspin"
| "canon_loop (Suc n) tp bp =
     kbind (tgetc Rawq tp) (\<lambda>c.
     if c < 0 then kret bp
     else
       kbind (tget tp id) (\<lambda>t.
       kbind (kget canonb) (\<lambda>cb.
       if t_flags t AND (RAW OR CBREAK) = 0 then
         (if c = 255 then kthen (tmod tp (\<lambda>t. t\<lparr>t_delct := cchar (t_delct t - 1)\<rparr>)) (kret bp)
          else if cb ! (bp - 1) \<noteq> 92 then
            (if c = t_erase t then canon_loop n tp (if bp > 2 then bp - 1 else bp)
             else if c = t_kill t then canon_loop n tp 2
             else if c = eofc (t_tc t) then canon_loop n tp bp
             else canon_store (canon_loop n tp) bp c)
          else if c \<ge> 128 then off_table
          else
            (let mc = (if c = t_erase t \<or> c = t_kill t then c else maptab ! nat c) in
             if mc \<noteq> 0 \<and> (mc = c \<or> t_flags t AND LCASE \<noteq> 0) then
               canon_store (canon_loop n tp) (bp - 1) (if cb ! (bp - 2) \<noteq> 92 then mc else c)
             else canon_store (canon_loop n tp) bp c))
       else canon_store (canon_loop n tp) bp c)))"

definition canon :: "('h, 'a) tst_scheme tdrv \<Rightarrow> nat \<Rightarrow> (int, ('h, 'a) tst_scheme) kmon" where
  "canon d tp =
     kbind (tget tp id) (\<lambda>t.
     if t_flags t AND (RAW OR CBREAK) = 0 \<and> t_delct t = 0 \<or>
        t_flags t AND (RAW OR CBREAK) \<noteq> 0 \<and> c_cc (t_rawq t) = 0 then
       (if CARR_ON \<notin> t_state t \<or> t_chan t \<noteq> None then kret 0
        else ksleep (Ch_rawq tp) TTIPRI)
     else
       kbind (canon_loop (Suc (nat (c_cc (t_rawq t)))) tp 2) (\<lambda>bp.
       kbind (kget (\<lambda>s. drop 2 (take bp (canonb s)))) (\<lambda>line.
       kbind (tb_to_q line Canq tp) (\<lambda>_.
       kbind (tget tp id) (\<lambda>t.
       kthen (kwhen (TBLOCK \<in> t_state t \<and> c_cc (t_rawq t) < TTYHOG div 5)
         (kbind (tputc (startc (t_tc t)) Outq tp) (\<lambda>r.
          kthen (kwhen (r = 0) (kthen (tclr tp TBLOCK) (ttstart d tp)))
          (tmod tp (\<lambda>t. t\<lparr>t_char := 0\<rparr>)))))
       (kret (int (bp - 2))))))))"

definition ttyblock :: "('h, 'a) tst_scheme tdrv \<Rightarrow> nat \<Rightarrow> (unit, ('h, 'a) tst_scheme) kmon" where
  "ttyblock d tp =
     kbind (tget tp id) (\<lambda>t.
     let x = c_cc (t_rawq t) + c_cc (t_canq t) in
     kthen (kwhen (c_cc (t_rawq t) > TTYHOG) (kthen (flushtty d tp) (tclr tp TBLOCK)))
     (kwhen (x \<ge> TTYHOG div 2)
       (kbind (tputc (stopc (t_tc t)) Outq tp) (\<lambda>r.
        kwhen (r = 0)
          (kthen (tset tp TBLOCK)
          (kthen (tmod tp (\<lambda>t. t\<lparr>t_char := cchar (t_char t + 1)\<rparr>))
          (ttstart d tp)))))))"

text \<open>
  \<^verbatim>\<open>ttyinput\<close> in three parts: the start, stop, interrupt and quit characters (\<open>None\<close> when the character is
  used up), the queueing, and the echo. \<open>fl\<close> is the local copy of \<^verbatim>\<open>t_flags\<close>.
\<close>

definition tty_cooked :: "('h, 'a) tst_scheme tdrv \<Rightarrow> int \<Rightarrow> int \<Rightarrow> nat \<Rightarrow> (int option, ('h, 'a) tst_scheme) kmon" where
  "tty_cooked d fl c tp =
     kbind (tget tp id) (\<lambda>t.
     let tc = t_tc t in
     if TTSTOP \<in> t_state t \<and> c = startc tc then kthen (tclr tp TTSTOP) (kthen (ttstart d tp) (kret None))
     else if TTSTOP \<in> t_state t \<and> c = stopc tc then kret None
     else if TTSTOP \<notin> t_state t \<and> c = stopc tc then kthen (tset tp TTSTOP) (kthen (d_stop d tp) (kret None))
     else if TTSTOP \<notin> t_state t \<and> c = startc tc then kret None
     else
       kthen (kwhen (TTSTOP \<in> t_state t) (kthen (tclr tp TTSTOP) (ttstart d tp)))
       (if c = quitc tc \<or> c = intrc tc then
          kthen (flushtty d tp)
          (let sig = (if c = intrc tc then SIGINT else SIGQUIT) in
           kbind (tget tp id) (\<lambda>t.
           kthen (case t_chan t of Some cp \<Rightarrow> scontrol cp M_SIG sig | None \<Rightarrow> ksignal (t_pgrp t) sig)
           (kret None)))
        else kret (Some (if c = 13 \<and> fl AND CRMOD \<noteq> 0 then 10 else c))))"

definition tty_echo :: "('h, 'a) tst_scheme tdrv \<Rightarrow> int \<Rightarrow> int \<Rightarrow> nat \<Rightarrow> (unit, ('h, 'a) tst_scheme) kmon" where
  "tty_echo d fl c tp =
     kwhen (fl AND ECHO \<noteq> 0)
       (kthen (ttyoutput c tp)
       (kbind (tget tp t_kill) (\<lambda>k.
        kthen (kwhen (c = k \<and> fl AND (RAW OR CBREAK) = 0) (ttyoutput 10 tp))
        (ttstart d tp))))"

definition tty_queue :: "('h, 'a) tst_scheme tdrv \<Rightarrow> int \<Rightarrow> int \<Rightarrow> nat \<Rightarrow> (unit, ('h, 'a) tst_scheme) kmon" where
  "tty_queue d fl c tp =
     kbind (tcc Rawq tp) (\<lambda>n.
     if n > TTYHOG then flushtty d tp
     else
       (let c = (if fl AND LCASE \<noteq> 0 \<and> 65 \<le> c \<and> c \<le> 90 then c + 32 else c) in
        kbind (tputc c Rawq tp) (\<lambda>_.
        kbind (tget tp t_tc) (\<lambda>tc.
        kthen (kwhen (fl AND (RAW OR CBREAK) \<noteq> 0 \<or> c = 10 \<or> c = eofc tc \<or> c = brkc tc)
          (kthen (kwhen (fl AND (RAW OR CBREAK) = 0)
             (kbind (tputc 255 Rawq tp) (\<lambda>r.
              kwhen (r = 0) (tmod tp (\<lambda>t. t\<lparr>t_delct := cchar (t_delct t + 1)\<rparr>)))))
          (kbind (tget tp t_chan) (\<lambda>cp. case cp of Some cp \<Rightarrow> sdata cp | None \<Rightarrow> kwakeup (Ch_rawq tp)))))
        (tty_echo d fl c tp)))))"

definition ttyinput :: "('h, 'a) tst_scheme tdrv \<Rightarrow> int \<Rightarrow> nat \<Rightarrow> (unit, ('h, 'a) tst_scheme) kmon" where
  "ttyinput d c tp =
     kthen (kmod (\<lambda>s. s\<lparr>tk_nin := cint (tk_nin s + 1)\<rparr>))
     (kbind (tget tp t_flags) (\<lambda>fl.
      let c = c AND 255 in
      kthen (kwhen (fl AND TANDEM \<noteq> 0) (ttyblock d tp))
      (kbind (if fl AND RAW = 0 then tty_cooked d fl (c AND 127) tp else kret (Some c)) (\<lambda>r.
       case r of None \<Rightarrow> kret () | Some c \<Rightarrow> tty_queue d fl c tp))))"

definition ttyrend :: "('h, 'a) tst_scheme tdrv \<Rightarrow> int list \<Rightarrow> nat \<Rightarrow> (unit, ('h, 'a) tst_scheme) kmon" where
  "ttyrend d bs tp =
     kbind (tget tp (\<lambda>t. t_flags t AND TANDEM)) (\<lambda>tandem.
     kbind (tget tp t_flags) (\<lambda>fl.
     kthen
       (if fl AND RAW \<noteq> 0 then
          kbind (tb_to_q bs Rawq tp) (\<lambda>_.
          kbind (tget tp t_chan) (\<lambda>cp. case cp of Some cp \<Rightarrow> sdata cp | None \<Rightarrow> kwakeup (Ch_rawq tp)))
        else
          kthen (tmod tp (\<lambda>t. t\<lparr>t_flags := t_flags t AND NOT TANDEM\<rparr>))
          (kthen (kfor bs (\<lambda>c. ttyinput d c tp))
          (tmod tp (\<lambda>t. t\<lparr>t_flags := t_flags t OR tandem\<rparr>))))
     (kwhen (tandem \<noteq> 0) (ttyblock d tp))))"

section \<open>Reading and writing\<close>

text \<open>\<^verbatim>\<open>while (tp->t_canq.c_cc && passc(getc(&tp->t_canq))>=0)\<close>: each turn removes a character.\<close>

fun ttread_loop :: "nat \<Rightarrow> nat \<Rightarrow> (unit, ('h, 'a) tst_scheme) kmon" where
  "ttread_loop 0 tp = kspin"
| "ttread_loop (Suc n) tp =
     kbind (tcc Canq tp) (\<lambda>cc.
     if cc = 0 then kret ()
     else kbind (tgetc Canq tp) (\<lambda>c. kbind (passc c) (\<lambda>r. if r \<ge> 0 then ttread_loop n tp else kret ())))"

definition ttread :: "('h, 'a) tst_scheme tdrv \<Rightarrow> nat \<Rightarrow> (int, ('h, 'a) tst_scheme) kmon" where
  "ttread d tp =
     kbind (tget tp id) (\<lambda>t.
     if CARR_ON \<notin> t_state t then kret 0
     else
       kbind (if c_cc (t_canq t) \<noteq> 0 then kret 1 else canon d tp) (\<lambda>r.
       kthen (kwhen (r \<noteq> 0) (kbind (tcc Canq tp) (\<lambda>cc. ttread_loop (Suc (nat cc)) tp)))
       (kbind (tcc Rawq tp) (\<lambda>a. kbind (tcc Canq tp) (\<lambda>b. kret (a + b))))))"

text \<open>
  The wait of \<^verbatim>\<open>ttwrite\<close> for the output to drain: \<open>True\<close> when the routine has to return to the multiplexor. The
  write loop consumes a character of the user's buffer in each turn.
\<close>

definition ttwrite_wait :: "('h, 'a) tst_scheme tdrv \<Rightarrow> nat \<Rightarrow> (bool, ('h, 'a) tst_scheme) kmon" where
  "ttwrite_wait d tp =
     kbind (tcc Outq tp) (\<lambda>n.
     if n > TTHIWAT then
       kthen (ttstart d tp)
       (kbind (tcc Outq tp) (\<lambda>n.
        if n = 0 then kret False
        else
          kthen (tset tp ASLEEP)
          (kbind (tget tp t_chan) (\<lambda>cp. if cp \<noteq> None then kret True else ksleep (Ch_outq tp) TTOPRI))))
     else kret False)"

fun ttwrite_loop :: "nat \<Rightarrow> ('h, 'a) tst_scheme tdrv \<Rightarrow> nat \<Rightarrow> (chan option, ('h, 'a) tst_scheme) kmon" where
  "ttwrite_loop 0 d tp = kspin"
| "ttwrite_loop (Suc n) d tp =
     kbind (uget u_count) (\<lambda>cnt.
     if cnt = 0 then kthen (ttstart d tp) (kret None)
     else
       kbind (ttwrite_wait d tp) (\<lambda>back.
       if back then kret (Some (Ch_outq tp))
       else
         kbind cpass (\<lambda>c.
         if c < 0 then kthen (ttstart d tp) (kret None)
         else kthen (ttyoutput c tp) (ttwrite_loop n d tp))))"

definition ttwrite :: "('h, 'a) tst_scheme tdrv \<Rightarrow> nat \<Rightarrow> (chan option, ('h, 'a) tst_scheme) kmon" where
  "ttwrite d tp =
     kbind (tget tp t_state) (\<lambda>st.
     if CARR_ON \<notin> st then kret None
     else kbind (uget u_count) (\<lambda>cnt. ttwrite_loop (Suc (nat cnt)) d tp))"

end
