(* ===== verification/Sr.thy ===== *)
theory Sr
  imports Tty
begin

text \<open>
  The serial line driver \<^verbatim>\<open>dev/sr.c\<close> and the indirect terminal driver \<^verbatim>\<open>dev/sys.c\<close>. The structure \<^verbatim>\<open>sr[d]\<close> is entry \<open>d\<close> of
  the table of terminals. The port instructions are the argument \<open>ports\<close>: functions on the state of the
  hardware, which the kernel's own state cannot be reached from. \<open>srintr\<close>'s receive loop runs as long as the
  line status shows a character; the number of turns allowed to it is an argument. The callout
  routine \<^verbatim>\<open>ttrstrt\<close> has number \<open>TTRSTRT\<close>.
\<close>

record 'h ports =
  inb :: "int \<Rightarrow> 'h \<Rightarrow> int \<times> 'h"
  outb :: "int \<Rightarrow> int \<Rightarrow> 'h \<Rightarrow> 'h"

definition kinb :: "'h ports \<Rightarrow> int \<Rightarrow> (int, ('h, 'a) tst_scheme) kmon" where
  "kinb p port = (\<lambda>s. let r = inb p port (hw s) in Ok (fst r) (s\<lparr>hw := snd r\<rparr>))"

definition koutb :: "'h ports \<Rightarrow> int \<Rightarrow> int \<Rightarrow> (unit, ('h, 'a) tst_scheme) kmon" where
  "koutb p port v = kmod (\<lambda>s. s\<lparr>hw := outb p port (v mod 256) (hw s)\<rparr>)"

definition NSR :: int where "NSR = 2"
definition SSPEED :: int where "SSPEED = 13"
definition RBR :: int where "RBR = 0"
definition THR :: int where "THR = 0"
definition IER :: int where "IER = 1"
definition IIR :: int where "IIR = 2"
definition LCR :: int where "LCR = 3"
definition MCR :: int where "MCR = 4"
definition LSR :: int where "LSR = 5"
definition DLL :: int where "DLL = 0"
definition DLM :: int where "DLM = 1"
definition DATA7 :: int where "DATA7 = 2"
definition DATA8 :: int where "DATA8 = 3"
definition STOP1 :: int where "STOP1 = 0"
definition PARTN :: int where "PARTN = 0"
definition PARTO :: int where "PARTO = 8"
definition PARTE :: int where "PARTE = 24"
definition DLAB :: int where "DLAB = 128"
definition DR :: int where "DR = 1"
definition THRE :: int where "THRE = 32"
definition TTRSTRT :: nat where "TTRSTRT = 1"

definition srstab :: "int list" where
  "srstab = [0, 2304, 1536, 1047, 857, 768, 576, 384, 192, 96, 64, 48, 24, 12, 6, 3]"

text \<open>\<^verbatim>\<open>&sr[minor(dev)]\<close>: the table has \<^verbatim>\<open>NSR\<close> entries.\<close>

definition sr_tty :: "int \<Rightarrow> (nat \<Rightarrow> ('b, ('h, 'a) tst_scheme) kmon) \<Rightarrow> ('b, ('h, 'a) tst_scheme) kmon" where
  "sr_tty dev f = (if minor dev < NSR then f (nat (minor dev)) else off_table)"

definition srparam :: "'h ports \<Rightarrow> nat \<Rightarrow> (unit, ('h, 'a) tst_scheme) kmon" where
  "srparam p tp =
     kbind (tget tp id) (\<lambda>t.
     if t_ispeed t < 0 \<or> t_ispeed t \<ge> 16 then off_table
     else
       (let v = srstab ! nat (t_ispeed t);
            d = (if t_flags t AND RAW \<noteq> 0 then DATA8 else DATA7);
            par = (if t_flags t AND RAW \<noteq> 0 then PARTN
                 else if t_flags t AND EVENP \<noteq> 0 then PARTE
                 else if t_flags t AND ODDP \<noteq> 0 then PARTO else PARTN);
            port = t_addr t
        in if v = 0 then kret ()
           else
             kthen (koutb p (port + IER) 0)
             (kthen (koutb p (port + LCR) DLAB)
             (kthen (koutb p (port + DLL) v)
             (kthen (koutb p (port + DLM) (drop_bit 8 v))
             (kthen (koutb p (port + LCR) (d OR par OR STOP1))
             (kthen (koutb p (port + IIR) 129)
             (kthen (kinb p (port + LSR))
             (kthen (kinb p (port + RBR))
             (koutb p (port + IER) 3))))))))))"

definition sropen :: "'h ports \<Rightarrow> int \<Rightarrow> int \<Rightarrow> (unit, ('h, 'a) tst_scheme) kmon" where
  "sropen p dev flag =
     (if minor dev \<ge> NSR then seterr ENXIO
      else
        (let tp = nat (minor dev) in
         kthen (tmod tp (\<lambda>t. t\<lparr>t_addr := (if tp = 0 then 1016 else 760)\<rparr>))
         (kbind (tget tp t_state) (\<lambda>st.
          kthen
            (kwhen (ISOPEN \<notin> st)
              (kthen (tmod tp (\<lambda>t. t\<lparr>t_state := {CARR_ON}, t_ispeed := SSPEED, t_ospeed := SSPEED,
                  t_flags := RAW OR ODDP OR EVENP OR ECHO\<rparr>))
              (kthen (srparam p tp)
              (kbind (tget tp t_addr) (\<lambda>port.
               kbind (kinb p (port + MCR)) (\<lambda>v.
               kthen (koutb p (port + MCR) (v OR 8))
               (ttychars tp)))))))
            (ttyopen dev tp)))))"

text \<open>The wait for the transmitter: \<open>False\<close> when it never became ready.\<close>

fun thre_wait :: "'h ports \<Rightarrow> int \<Rightarrow> nat \<Rightarrow> (bool, ('h, 'a) tst_scheme) kmon" where
  "thre_wait p port 0 = kret False"
| "thre_wait p port (Suc i) =
     kbind (kinb p (port + LSR)) (\<lambda>v. if v AND THRE \<noteq> 0 then kret True else thre_wait p port i)"

definition srstart :: "'h ports \<Rightarrow> nat \<Rightarrow> (unit, ('h, 'a) tst_scheme) kmon" where
  "srstart p tp =
     kbind (tget tp t_state) (\<lambda>st.
     if TIMEOUT \<in> st \<or> BUSY \<in> st \<or> TTSTOP \<in> st then kret ()
     else
       kbind (tgetc Outq tp) (\<lambda>c.
       if c < 0 then kret ()
       else
         kbind (tget tp t_flags) (\<lambda>fl.
         kthen
           (if c \<ge> 128 \<and> fl AND RAW = 0 then
              kthen (tset tp TIMEOUT) (timeout TTRSTRT (int tp) ((c AND 127) + 6))
            else
              kthen (tmod tp (\<lambda>t. t\<lparr>t_char := cchar c\<rparr>))
              (kthen (tset tp BUSY)
              (kbind (tget tp t_addr) (\<lambda>port.
               kbind (thre_wait p port 8192) (\<lambda>ready.
               kthen (kwhen (\<not> ready) (kprintf (''timeout in srstart'' @ [CHR 0x0A])))
               (koutb p (port + THR) c))))))
         (kbind (tget tp id) (\<lambda>t.
          kwhen (c_cc (t_outq t) \<le> TTLOWAT \<and> ASLEEP \<in> t_state t)
            (kthen (tclr tp ASLEEP) (kwakeup (Ch_outq tp))))))))"

text \<open>The rows of the character and line switches of \<^verbatim>\<open>conf/mkconf.c\<close> for this driver.\<close>

definition sr_drv :: "'h ports \<Rightarrow> ('h, 'a) tst_scheme tdrv" where
  "sr_drv p = \<lparr>t_oproc = srstart p, d_stop = (\<lambda>_. kret ()), nldisp = 1,
     l_open = (\<lambda>_ dev tp _. ttyopen dev tp), l_close = (\<lambda>_ _. kret ()), l_ioctl = (\<lambda>_ _ _ _. seterr ENODEV)\<rparr>"

definition srclose :: "'h ports \<Rightarrow> int \<Rightarrow> int \<Rightarrow> (unit, ('h, 'a) tst_scheme) kmon" where
  "srclose p dev flag = sr_tty dev (ttyclose (sr_drv p))"

definition srread :: "'h ports \<Rightarrow> int \<Rightarrow> (unit, ('h, 'a) tst_scheme) kmon" where
  "srread p dev = sr_tty dev (\<lambda>tp. kthen (ttread (sr_drv p) tp) (kret ()))"

definition srwrite :: "'h ports \<Rightarrow> int \<Rightarrow> (unit, ('h, 'a) tst_scheme) kmon" where
  "srwrite p dev = sr_tty dev (\<lambda>tp. kthen (ttwrite (sr_drv p) tp) (kret ()))"

fun sr_receive :: "nat \<Rightarrow> 'h ports \<Rightarrow> int \<Rightarrow> nat \<Rightarrow> (int, ('h, 'a) tst_scheme) kmon" where
  "sr_receive 0 p port tp = kspin"
| "sr_receive (Suc n) p port tp =
     kbind (kinb p (port + RBR)) (\<lambda>c.
     kthen (ttyinput (sr_drv p) c tp)
     (kbind (kinb p (port + LSR)) (\<lambda>st. if st AND DR \<noteq> 0 then sr_receive n p port tp else kret st)))"

definition srintr :: "nat \<Rightarrow> 'h ports \<Rightarrow> int \<Rightarrow> (unit, ('h, 'a) tst_scheme) kmon" where
  "srintr n p dev =
     (let tp = nat (dev mod 2); xmit = kthen (tclr tp BUSY) (ttstart (sr_drv p) tp) in
      kbind (tget tp t_addr) (\<lambda>port.
      kbind (kinb p (port + IIR)) (\<lambda>iir.
      if iir AND 7 = 4 then
        kbind (sr_receive n p port tp) (\<lambda>st. if st AND THRE = 0 then kret () else xmit)
      else if iir AND 7 = 2 then xmit
      else kret ())))"

definition srioctl :: "'h ports \<Rightarrow> int \<Rightarrow> int \<Rightarrow> int \<Rightarrow> int \<Rightarrow> (unit, ('h, 'a) tst_scheme) kmon" where
  "srioctl p dev cmd addr flag =
     sr_tty dev (\<lambda>tp.
     kbind (ttioccomm (sr_drv p) cmd tp addr dev) (\<lambda>ok.
     if ok then kwhen (cmd = TIOCSETP \<or> cmd = TIOCSETN) (srparam p tp)
     else seterr ENOTTY))"

text \<open>What the callout routine number does, for \<^verbatim>\<open>clock\<close>.\<close>

definition sr_call :: "'h ports \<Rightarrow> nat \<Rightarrow> int \<Rightarrow> (unit, ('h, 'a) tst_scheme) kmon" where
  "sr_call p f arg = (if f = TTRSTRT then ttrstrt (sr_drv p) (nat arg) else kret ())"

section \<open>\<^verbatim>\<open>dev/sys.c\<close>\<close>

text \<open>The indirect driver passes each call to the driver of the controlling terminal, given by its row of \<^verbatim>\<open>cdevsw\<close>.\<close>

definition syopen :: "'a kst_scheme devsw \<Rightarrow> int \<Rightarrow> (unit, 'a kst_scheme) kmon" where
  "syopen cd flag =
     kbind (kget u) (\<lambda>v. if u_ttyp v = None then seterr ENXIO else d_open cd (u_ttyd v) flag)"

definition syread :: "'a kst_scheme devsw \<Rightarrow> (unit, 'a kst_scheme) kmon" where
  "syread cd = kbind (uget u_ttyd) (d_read cd)"

definition sywrite :: "'a kst_scheme devsw \<Rightarrow> (unit, 'a kst_scheme) kmon" where
  "sywrite cd = kbind (uget u_ttyd) (d_write cd)"

definition sysioctl :: "(int \<Rightarrow> int \<Rightarrow> int \<Rightarrow> int \<Rightarrow> (unit, 'a kst_scheme) kmon) \<Rightarrow> int \<Rightarrow> int \<Rightarrow> int \<Rightarrow> (unit, 'a kst_scheme) kmon" where
  "sysioctl d_ioctl cmd addr flag = kbind (uget u_ttyd) (\<lambda>dev. d_ioctl dev cmd addr flag)"

end
