(* ===== verification/Cpool.thy ===== *)
theory Cpool
  imports Clist
begin

text \<open>
  Many queues on one free list. The lemmas of \<open>Clist\<close> follow one queue; the drivers keep several queues
  (three for each terminal) whose blocks come from the same free list. \<open>pool m Q C\<close> says that every queue
  \<open>Q k\<close> holds the characters \<open>C k\<close> and that no block is used twice; each routine of \<^verbatim>\<open>prim.c\<close> changes
  the contents of the queue it is called on and of no other.
\<close>

definition pool :: "clmem \<Rightarrow> ('k \<Rightarrow> clist) \<Rightarrow> ('k \<Rightarrow> int list) \<Rightarrow> bool" where
  "pool m Q C \<longleftrightarrow> (\<exists>fs B. cchain (c_next m) (cfreelist m) fs \<and> distinct fs \<and>
     (\<forall>k. distinct (B k) \<and> set fs \<inter> set (B k) = {}) \<and>
     (\<forall>k k'. k \<noteq> k' \<longrightarrow> set (B k) \<inter> set (B k') = {}) \<and>
     (\<forall>k. qrep m (Q k) (B k) (C k)))"

lemma cchain_outside:
  "(\<And>b. b \<in> set bs \<Longrightarrow> nx' b = nx b) \<Longrightarrow> cchain nx' p bs = cchain nx p bs"
  by (induction bs arbitrary: p) auto

lemma qrep_outside:
  assumes "same_outside A m m'" "set bs \<inter> A = {}" "distinct bs" "qrep m q bs cs"
  shows "qrep m' q bs cs"
proof (cases "bs = []")
  case False
  from assms(4) False have r: "cchain (c_next m) (hd bs) bs" "hd bs + 4 \<le> c_cf q" "c_cl q \<le> last bs + 32"
    by (auto simp: qrep_def)
  have "cchain (c_next m') (hd bs) bs = cchain (c_next m) (hd bs) bs"
    using assms(1,2) by (intro cchain_outside) (auto simp: same_outside_def)
  moreover have "map (c_info m') (qaddrs (c_cf q) (c_cl q) bs) = map (c_info m) (qaddrs (c_cf q) (c_cl q) bs)"
    using qaddrs_blk [OF r(1) False assms(3) r(2,3)] assms(1,2) by (auto simp: same_outside_def)
  ultimately show ?thesis using assms(4) by (simp add: qrep_def)
qed (use assms in \<open>simp add: qrep_def\<close>)

lemma poolE:
  assumes "pool m Q C"
  obtains fs bs where "clist_rep m (Q k) fs bs (C k)"
    "\<And>m' q' fs' bs' cs'. clist_rep m' q' fs' bs' cs' \<Longrightarrow> set fs' \<union> set bs' = set fs \<union> set bs \<Longrightarrow>
       same_outside (set fs \<union> set bs) m m' \<Longrightarrow> pool m' (Q(k := q')) (C(k := cs'))"
proof -
  from assms obtain fs B where p: "cchain (c_next m) (cfreelist m) fs" "distinct fs"
    "\<And>k. distinct (B k)" "\<And>k. set fs \<inter> set (B k) = {}"
    "\<And>k k'. k \<noteq> k' \<Longrightarrow> set (B k) \<inter> set (B k') = {}" "\<And>k. qrep m (Q k) (B k) (C k)"
    unfolding pool_def by blast
  show thesis
  proof
    show "clist_rep m (Q k) fs (B k) (C k)" using p by (simp add: clist_rep_def)
    fix m' q' fs' bs' cs'
    assume r: "clist_rep m' q' fs' bs' cs'" and A: "set fs' \<union> set bs' = set fs \<union> set (B k)"
      and o: "same_outside (set fs \<union> set (B k)) m m'"
    let ?B = "B(k := bs')"
    from r have r': "cchain (c_next m') (cfreelist m') fs'" "distinct fs'" "distinct bs'" "set fs' \<inter> set bs' = {}"
      "qrep m' q' bs' cs'" by (simp_all add: clist_rep_def)
    have apart: "set (B j) \<inter> (set fs \<union> set (B k)) = {}" if "j \<noteq> k" for j
      using p(4) [of j] p(5) [OF that] by blast
    have "set (?B i) \<inter> set (?B j) = {}" if "i \<noteq> j" for i j
    proof (cases "i = k"; cases "j = k")
      assume "i = k" "j \<noteq> k"
      with apart [of j] A show ?thesis by auto
    next
      assume "i \<noteq> k" "j = k"
      with apart [of i] A show ?thesis by auto
    qed (use that p(5) [of i j] in auto)
    moreover have "set fs' \<inter> set (?B j) = {}" for j
      using r'(4) apart [of j] A by (cases "j = k") auto
    moreover have "qrep m' ((Q(k := q')) j) (?B j) ((C(k := cs')) j)" for j
      using r'(5) qrep_outside [OF o apart p(3) p(6)] by simp
    moreover have "distinct (?B j)" for j using r'(3) p(3) by simp
    ultimately show "pool m' (Q(k := q')) (C(k := cs'))"
      unfolding pool_def using r'(1,2) by blast
  qed
qed

lemma pool_cc: "pool m Q C \<Longrightarrow> c_cc (Q k) = int (length (C k))"
  by (erule poolE [where k = k]) (simp add: clist_rep_def qrep_def)

lemma pool_getc_nil: "pool m Q C \<Longrightarrow> C k = [] \<Longrightarrow> getc (Q k) m = (-1, Q k, m)"
  by (erule poolE [where k = k]) (simp add: getc_empty)

lemma pool_getc_cons:
  assumes "pool m Q C" "C k = c # cs"
  obtains q' m' where "getc (Q k) m = (c, q', m')" "pool m' (Q(k := q')) (C(k := cs))"
  using assms(1)
proof (cases rule: poolE [where k = k])
  case (1 fs bs)
  from getc_cons [of m "Q k" fs bs c cs] 1(1) assms(2) show ?thesis
    by (metis "1"(2) that)
qed

lemma putc_freelist: "cfreelist m = 0 \<Longrightarrow> cfreelist (snd (snd (putc c q m))) = 0"
  by (simp add: putc_def putc_at_def Let_def)

text \<open>\<^verbatim>\<open>putc\<close> stores or is refused; it is refused only when the free list is empty, which it then stays.\<close>

lemma pool_putc:
  assumes "pool m Q C"
  obtains (stored) q' m' where "putc c (Q k) m = (0, q', m')" "pool m' (Q(k := q')) (C(k := C k @ [c mod 256]))"
      "cfreelist m = 0 \<Longrightarrow> cfreelist m' = 0"
  | (refused) m' where "putc c (Q k) m = (-1, Q k, m')" "pool m' Q C" "cfreelist m = 0" "cfreelist m' = 0"
proof -
  from assms show thesis
  proof (cases rule: poolE [where k = k])
    case (1 fs bs)
    note rep = 1
    from rep(1) show thesis
    proof (cases rule: putc_cases [where c = c])
      case (refused m')
      have "cfreelist m = 0" using rep(1) refused(1) by (simp add: clist_rep_def)
      moreover have "cfreelist m' = 0" using putc_freelist [OF calculation, of c "Q k"] refused(3) by simp
      moreover have "pool m' Q C" using rep(2) [OF refused(4) refl refused(5)] by simp
      ultimately show thesis using that(2) refused(3) by blast
    next
      case (stored q' m' fs' bs')
      have "cfreelist m = 0 \<Longrightarrow> cfreelist m' = 0" using putc_freelist [of m c "Q k"] stored(2) by simp
      with that(1) [OF stored(2) rep(2) [OF stored(3-5)]] show thesis by blast
    qed
  qed
qed

lemma pool_putc_all:
  assumes "pool m Q C" "\<forall>c\<in>set cs. 0 \<le> c \<and> c < 256"
  shows "\<exists>n q' m'. putc_all cs (Q k) m = (length cs - n, q', m') \<and> n \<le> length cs \<and>
     pool m' (Q(k := q')) (C(k := C k @ take n cs)) \<and> (n < length cs \<or> cfreelist m = 0 \<longrightarrow> cfreelist m' = 0)"
  using assms
proof (induction cs arbitrary: m Q C)
  case Nil
  then show ?case by (intro exI [of _ 0] exI [of _ "Q k"] exI [of _ m]) (simp del: fun_upd_apply)
next
  case (Cons c cs)
  from Cons.prems(1) show ?case
  proof (cases rule: pool_putc [where c = c and k = k])
    case (stored q' m')
    from Cons.IH [OF stored(2)] Cons.prems(2) obtain n q'' m'' where n: "putc_all cs q' m' = (length cs - n, q'', m'')" "n \<le> length cs"
      "pool m'' (Q(k := q'')) (C(k := C k @ c mod 256 # take n cs))" "n < length cs \<or> cfreelist m' = 0 \<longrightarrow> cfreelist m'' = 0"
      by (auto simp del: fun_upd_apply simp: fun_upd_same)
    have c: "c mod 256 = c" using Cons.prems(2) by simp
    show ?thesis
      by (rule exI [of _ "Suc n"], rule exI [of _ q''], rule exI [of _ m'']) (use stored n c in \<open>simp del: fun_upd_apply\<close>)
  next
    case (refused m')
    show ?thesis
      by (rule exI [of _ 0], rule exI [of _ "Q k"], rule exI [of _ m']) (use refused in \<open>simp del: fun_upd_apply\<close>)
  qed
qed

lemma pool_b_to_q:
  assumes "pool m Q C" "\<forall>c\<in>set cs. 0 \<le> c \<and> c < 256"
  obtains n q' m' where "b_to_q cs (Q k) m = (length cs - n, q', m')" "n \<le> length cs"
    "pool m' (Q(k := q')) (C(k := C k @ take n cs))" "n < length cs \<or> cfreelist m = 0 \<Longrightarrow> cfreelist m' = 0"
proof -
  from assms(1) obtain fs bs where "clist_rep m (Q k) fs bs (C k)" by (rule poolE)
  from b_to_q_putc_all [OF assms(2) this] pool_putc_all [OF assms, of k] that show thesis by metis
qed

end
