(* ===== verification/Tty_Spec.thy ===== *)
theory Tty_Spec
  imports Tty Cpool
begin

text \<open>
  The terminal's line editor. \<open>ttyqs\<close> relates the queues of all terminals to the characters they hold;
  \<open>edit_char\<close> and \<open>take_line\<close> are the editor on lists. The lemmas show that \<^verbatim>\<open>canon\<close>, which works in the
  array \<^verbatim>\<open>canonb\<close> and on block queues, computes the same line.
\<close>

section \<open>The queues of the terminals\<close>

definition bytes :: "int list \<Rightarrow> bool" where
  "bytes cs \<longleftrightarrow> (\<forall>c\<in>set cs. 0 \<le> c \<and> c < 256)"

lemma bytes_simps [simp]: "bytes []" "bytes (c # cs) \<longleftrightarrow> 0 \<le> c \<and> c < 256 \<and> bytes cs" "bytes (rev cs) = bytes cs" "bytes (cs @ ds) \<longleftrightarrow> bytes cs \<and> bytes ds"
  by (auto simp: bytes_def)

lemma bytes_take: "bytes cs \<Longrightarrow> bytes (take n cs)"
  by (auto simp: bytes_def dest: in_set_takeD)

definition ttyqs :: "('h, 'a) tst_scheme \<Rightarrow> (nat \<times> tqueue \<Rightarrow> int list) \<Rightarrow> bool" where
  "ttyqs s C \<longleftrightarrow> pool (clm s) (\<lambda>k. tq (snd k) (ttys s (fst k))) C \<and> (\<forall>k. bytes (C k))"

lemma ttyqsD: "ttyqs s C \<Longrightarrow> pool (clm s) (\<lambda>k. tq (snd k) (ttys s (fst k))) C" "ttyqs s C \<Longrightarrow> bytes (C k)"
  unfolding ttyqs_def by blast+

lemma tq_tq_set [simp]: "tq k (tq_set k' q t) = (if k = k' then q else tq k t)"
  by (cases k; cases k') auto

lemma tq_set_fields [simp]:
  "t_chan (tq_set k q t) = t_chan t" "t_addr (tq_set k q t) = t_addr t" "t_dev (tq_set k q t) = t_dev t"
  "t_flags (tq_set k q t) = t_flags t" "t_state (tq_set k q t) = t_state t" "t_pgrp (tq_set k q t) = t_pgrp t"
  "t_delct (tq_set k q t) = t_delct t" "t_line (tq_set k q t) = t_line t" "t_col (tq_set k q t) = t_col t"
  "t_erase (tq_set k q t) = t_erase t" "t_kill (tq_set k q t) = t_kill t" "t_char (tq_set k q t) = t_char t"
  "t_ispeed (tq_set k q t) = t_ispeed t" "t_ospeed (tq_set k q t) = t_ospeed t" "t_tc (tq_set k q t) = t_tc t"
  by (cases k; simp)+

lemma tq_upd [simp]:
  "tq k (t\<lparr>t_dev := x\<rparr>) = tq k t" "tq k (t\<lparr>t_flags := x\<rparr>) = tq k t" "tq k (t\<lparr>t_state := f\<rparr>) = tq k t"
  "tq k (t\<lparr>t_pgrp := x\<rparr>) = tq k t" "tq k (t\<lparr>t_delct := x\<rparr>) = tq k t" "tq k (t\<lparr>t_col := x\<rparr>) = tq k t"
  "tq k (t\<lparr>t_char := x\<rparr>) = tq k t" "tq k (t\<lparr>t_rawq := q, t_delct := x\<rparr>) = tq k (t\<lparr>t_rawq := q\<rparr>)"
  by (cases k; simp)+

lemma ttyqs_store:
  "pool m ((\<lambda>k. tq (snd k) (ttys s (fst k)))((tp, k) := q)) C \<Longrightarrow> \<forall>k. bytes (C k) \<Longrightarrow> ttyqs (tq_store k tp (q, m) s) C"
proof -
  have eq: "(\<lambda>j. tq (snd j) (ttys (tq_store k tp (q, m) s) (fst j))) = (\<lambda>k. tq (snd k) (ttys s (fst k)))((tp, k) := q)"
    by (auto simp: tq_store_def fun_eq_iff)
  assume "pool m ((\<lambda>k. tq (snd k) (ttys s (fst k)))((tp, k) := q)) C" "\<forall>k. bytes (C k)"
  then show ?thesis unfolding ttyqs_def eq by (simp add: tq_store_def)
qed

lemma ttyqs_same_queues:
  "(\<And>i k. tq k (ttys s' i) = tq k (ttys s i)) \<Longrightarrow> clm s' = clm s \<Longrightarrow> ttyqs s' C = ttyqs s C"
  by (simp add: ttyqs_def)

lemma ttyqs_len: "ttyqs s C \<Longrightarrow> c_cc (tq k (ttys s tp)) = int (length (C (tp, k)))"
  using pool_cc [of "clm s" "\<lambda>k. tq (snd k) (ttys s (fst k))" C "(tp, k)"] by (simp add: ttyqsD(1))

lemmas ttyqs_cc = ttyqs_len [where k = Rawq, simplified] ttyqs_len [where k = Canq, simplified] ttyqs_len [where k = Outq, simplified]

lemma tgetc_cons:
  assumes "ttyqs s C" "C (tp, k) = c # cs"
  obtains q m where "tgetc k tp s = Ok c (tq_store k tp (q, m) s)" "ttyqs (tq_store k tp (q, m) s) (C((tp, k) := cs))"
proof -
  from pool_getc_cons [OF ttyqsD(1) [OF assms(1)] assms(2)] obtain q m where
    "getc (tq k (ttys s tp)) (clm s) = (c, q, m)"
    "pool m ((\<lambda>k. tq (snd k) (ttys s (fst k)))((tp, k) := q)) (C((tp, k) := cs))" by auto
  note r = this
  have b: "\<forall>j. bytes ((C((tp, k) := cs)) j)" using ttyqsD(2) [OF assms(1)] assms(2) by (metis bytes_simps(2) fun_upd_apply)
  show thesis by (rule that [OF _ ttyqs_store [OF r(2) b]]) (simp add: tgetc_def r(1))
qed

lemma tgetc_nil:
  assumes "ttyqs s C" "C (tp, k) = []"
  shows "tgetc k tp s = Ok (-1) s"
proof -
  from pool_getc_nil [OF ttyqsD(1) [OF assms(1)] assms(2)]
  have "getc (tq k (ttys s tp)) (clm s) = (-1, tq k (ttys s tp), clm s)" by simp
  moreover have "tq_set k (tq k (ttys s tp)) (ttys s tp) = ttys s tp" by (cases k) auto
  ultimately show ?thesis by (simp add: tgetc_def tq_store_def)
qed

lemma tputc_cases:
  assumes "ttyqs s C"
  obtains (stored) q m where "tputc c k tp s = Ok 0 (tq_store k tp (q, m) s)"
      "ttyqs (tq_store k tp (q, m) s) (C((tp, k) := C (tp, k) @ [c mod 256]))" "cfreelist (clm s) = 0 \<Longrightarrow> cfreelist m = 0"
  | (refused) q m where "tputc c k tp s = Ok (-1) (tq_store k tp (q, m) s)" "ttyqs (tq_store k tp (q, m) s) C"
      "cfreelist (clm s) = 0" "cfreelist m = 0"
proof -
  from ttyqsD(1) [OF assms] show thesis
  proof (cases rule: pool_putc [where c = c and k = "(tp, k)"])
    case (stored q m)
    have b: "\<forall>j. bytes ((C((tp, k) := C (tp, k) @ [c mod 256])) j)" using ttyqsD(2) [OF assms] by simp
    show thesis by (rule that(1) [OF _ ttyqs_store [OF stored(2) b]]) (use stored in \<open>simp_all add: tputc_def\<close>)
  next
    case (refused m)
    then have "pool m ((\<lambda>k. tq (snd k) (ttys s (fst k)))((tp, k) := tq k (ttys s tp))) C"
      by (simp add: fun_upd_idem del: fun_upd_apply)
    from that(2) [OF _ ttyqs_store [OF this]] ttyqsD(2) [OF assms] refused show thesis by (simp add: tputc_def)
  qed
qed

lemma tb_to_q_prefix:
  assumes "ttyqs s C" "\<forall>c\<in>set cs. 0 \<le> c \<and> c < 256"
  obtains n q m where "tb_to_q cs k tp s = Ok (length cs - n) (tq_store k tp (q, m) s)" "n \<le> length cs"
    "ttyqs (tq_store k tp (q, m) s) (C((tp, k) := C (tp, k) @ take n cs))" "n < length cs \<Longrightarrow> cfreelist m = 0"
proof -
  from pool_b_to_q [OF ttyqsD(1) [OF assms(1)] assms(2), of "(tp, k)"] obtain n q m where
    "b_to_q cs (tq k (ttys s tp)) (clm s) = (length cs - n, q, m)" "n \<le> length cs"
    "pool m ((\<lambda>k. tq (snd k) (ttys s (fst k)))((tp, k) := q)) (C((tp, k) := C (tp, k) @ take n cs))"
    "n < length cs \<or> cfreelist (clm s) = 0 \<Longrightarrow> cfreelist m = 0" by auto
  note r = this
  have b: "\<forall>j. bytes ((C((tp, k) := C (tp, k) @ take n cs)) j)"
    using ttyqsD(2) [OF assms(1)] assms(2) bytes_take [of cs n] by (simp add: bytes_def [of cs])
  show thesis by (rule that [OF _ r(2) ttyqs_store [OF r(3) b]]) (use r in \<open>simp_all add: tb_to_q_def\<close>)
qed

lemma krun_tty [krun]:
  "kbind (tget tp f) g s = g (f (ttys s tp)) s" "kthen (tmod tp h) n s = n (s\<lparr>ttys := (ttys s)(tp := h (ttys s tp))\<rparr>)"
  "tmod tp h s = Ok () (s\<lparr>ttys := (ttys s)(tp := h (ttys s tp))\<rparr>)" "tget tp f s = Ok (f (ttys s tp)) s"
  by (simp_all add: tget_def tmod_def krun) (simp_all add: kmod_def kget_def)

section \<open>The line editor on lists\<close>

text \<open>The line typed so far is kept in reverse.\<close>

definition edit_char :: "tty \<Rightarrow> int list \<Rightarrow> int \<Rightarrow> int list" where
  "edit_char t rb c =
     (if rb \<noteq> [] \<and> hd rb = 92 then
        (let mc = (if c = t_erase t \<or> c = t_kill t then c else maptab ! nat c) in
         if mc \<noteq> 0 \<and> (mc = c \<or> t_flags t AND LCASE \<noteq> 0) then
           (if tl rb \<noteq> [] \<and> hd (tl rb) = 92 then c else mc) # tl rb
         else c # rb)
      else if c = t_erase t then tl rb
      else if c = t_kill t then []
      else if c = eofc (t_tc t) then rb
      else c # rb)"

text \<open>The next line of the raw queue, what is left of the queue, and whether a delimiter was taken.\<close>

fun take_line :: "tty \<Rightarrow> int list \<Rightarrow> int list \<Rightarrow> int list \<times> int list \<times> bool" where
  "take_line t rb [] = (rb, [], False)"
| "take_line t rb (c # cs) =
     (if c = 255 then (rb, cs, True)
      else if length (edit_char t rb c) = CANBSIZ - 2 then (edit_char t rb c, cs, False)
      else take_line t (edit_char t rb c) cs)"

definition edit :: "tty \<Rightarrow> int list \<Rightarrow> int list" where
  "edit t line = rev (foldl (edit_char t) [] line)"

lemma edit_char_length: "length (edit_char t rb c) \<le> Suc (length rb)"
  by (cases rb) (auto simp: edit_char_def Let_def)

lemma maptab_bytes: "0 \<le> c \<Longrightarrow> c < 128 \<Longrightarrow> 0 \<le> maptab ! nat c \<and> maptab ! nat c < 128"
proof -
  assume "0 \<le> c" "c < 128"
  then have "maptab ! nat c \<in> set maptab" by (intro nth_mem) (simp add: maptab_def)
  moreover have "set maptab \<subseteq> {0 ..< 128}" by (simp add: maptab_def)
  ultimately show ?thesis by auto
qed

lemma edit_char_bytes:
  assumes "bytes rb" "0 \<le> c" "c < 128"
  shows "bytes (edit_char t rb c)"
proof -
  have "bytes (tl rb)" using assms(1) by (cases rb) simp_all
  moreover have "edit_char t rb c \<in> {tl rb, [], rb, c # rb, c # tl rb, maptab ! nat c # tl rb}"
    unfolding edit_char_def Let_def by (simp split: if_split)
  ultimately show ?thesis using assms maptab_bytes [OF assms(2,3)] by fastforce
qed

lemma take_line_bytes:
  "bytes rb \<Longrightarrow> \<forall>c\<in>set cs. 0 \<le> c \<and> (c < 128 \<or> c = 255) \<Longrightarrow> bytes (fst (take_line t rb cs))"
  by (induction cs arbitrary: rb) (auto simp: edit_char_bytes)

lemma take_line_fits:
  "255 \<notin> set line \<Longrightarrow> length rb + length line < CANBSIZ - 2 \<Longrightarrow>
     take_line t rb (line @ 255 # rest) = (foldl (edit_char t) rb line, rest, True)"
proof (induction line arbitrary: rb)
  case (Cons c line)
  then have "length (edit_char t rb c) + length line < CANBSIZ - 2"
    using edit_char_length [of t rb c] by simp
  with Cons show ?case by auto
qed simp

section \<open>The buffer\<close>

text \<open>The array \<^verbatim>\<open>canonb\<close> holds the reversed line \<open>rb\<close> from index 2 on; the two cells before it are never written.\<close>

definition buf_holds :: "int list \<Rightarrow> int list \<Rightarrow> bool" where
  "buf_holds cb rb \<longleftrightarrow> length cb = CANBSIZ \<and> cb ! 1 \<noteq> 92 \<and> length rb \<le> CANBSIZ - 2 \<and> take (length rb) (drop 2 cb) = rev rb"

lemma buf_nil: "length cb = CANBSIZ \<Longrightarrow> cb ! 1 \<noteq> 92 \<Longrightarrow> buf_holds cb []"
  by (simp add: buf_holds_def)

lemma buf_nth: "buf_holds cb rb \<Longrightarrow> i < length rb \<Longrightarrow> cb ! (1 + length rb - i) = rb ! i"
proof -
  assume b: "buf_holds cb rb" and i: "i < length rb"
  let ?j = "length rb - 1 - i"
  have "rev rb ! ?j = take (length rb) (drop 2 cb) ! ?j" using b by (simp add: buf_holds_def)
  also have "\<dots> = drop 2 cb ! ?j" using i by simp
  finally have "rev rb ! ?j = drop 2 cb ! ?j" .
  moreover have "2 + (length rb - 1 - i) = 1 + length rb - i" using i by simp
  ultimately show ?thesis using b i by (simp add: buf_holds_def rev_nth CANBSIZ_def)
qed

lemma buf_last: "buf_holds cb rb \<Longrightarrow> cb ! (1 + length rb) = 92 \<longleftrightarrow> rb \<noteq> [] \<and> hd rb = 92"
  using buf_nth [of cb rb 0] by (cases rb) (auto simp: buf_holds_def)

lemma buf_last2: "buf_holds cb rb \<Longrightarrow> rb \<noteq> [] \<Longrightarrow> cb ! length rb = 92 \<longleftrightarrow> tl rb \<noteq> [] \<and> hd (tl rb) = 92"
proof -
  assume b: "buf_holds cb rb" "rb \<noteq> []"
  then obtain x xs where rb: "rb = x # xs" by (cases rb) auto
  show ?thesis
  proof (cases xs)
    case Nil
    with b rb show ?thesis by (simp add: buf_holds_def)
  next
    case (Cons y ys)
    with buf_nth [OF b(1), of 1] rb show ?thesis by simp
  qed
qed

lemma buf_pop: "buf_holds cb (c # rb) \<Longrightarrow> buf_holds cb rb"
  by (auto simp: buf_holds_def CANBSIZ_def take_Suc_conv_app_nth)

lemma buf_tl: "buf_holds cb rb \<Longrightarrow> buf_holds cb (tl rb)"
  using buf_pop by (cases rb) auto

lemma buf_push: "buf_holds cb rb \<Longrightarrow> length rb < CANBSIZ - 2 \<Longrightarrow> buf_holds (cb[2 + length rb := c]) (c # rb)"
  by (simp add: buf_holds_def CANBSIZ_def drop_update_swap take_Suc_conv_app_nth)

section \<open>\<^verbatim>\<open>canon\<close> computes the editor's line\<close>

lemma canon_store_push:
  assumes "buf_holds (canonb s) rb" "length rb < CANBSIZ - 2"
  shows "\<exists>cb. buf_holds cb (c # rb) \<and>
    canon_store loop (2 + length rb) c s =
      (if length (c # rb) = CANBSIZ - 2 then Ok CANBSIZ (s\<lparr>canonb := cb\<rparr>) else loop (2 + length (c # rb)) (s\<lparr>canonb := cb\<rparr>))"
proof (intro exI conjI)
  show "buf_holds ((canonb s)[2 + length rb := c]) (c # rb)" by (rule buf_push [OF assms])
  show "canon_store loop (2 + length rb) c s =
      (if length (c # rb) = CANBSIZ - 2 then Ok CANBSIZ (s\<lparr>canonb := (canonb s)[2 + length rb := c]\<rparr>)
       else loop (2 + length (c # rb)) (s\<lparr>canonb := (canonb s)[2 + length rb := c]\<rparr>))"
    using assms(2) by (auto simp: canon_store_def krun kret_def CANBSIZ_def)
qed

text \<open>One turn of the loop on a character that is not the delimiter.\<close>

lemma canon_step:
  assumes get: "tgetc Rawq tp s = Ok c s1" and cb: "canonb s1 = canonb s"
    and buf: "buf_holds (canonb s) rb" "length rb < CANBSIZ - 2"
    and cooked: "t_flags (ttys s1 tp) AND (RAW OR CBREAK) = 0" and c: "0 \<le> c" "c < 128"
  shows "\<exists>cb. buf_holds cb (edit_char (ttys s1 tp) rb c) \<and>
    canon_loop (Suc n) tp (2 + length rb) s =
      (if length (edit_char (ttys s1 tp) rb c) = CANBSIZ - 2 then Ok CANBSIZ (s1\<lparr>canonb := cb\<rparr>)
       else canon_loop n tp (2 + length (edit_char (ttys s1 tp) rb c)) (s1\<lparr>canonb := cb\<rparr>))"
proof -
  let ?t = "ttys s1 tp"
  have ix: "2 + length rb - 1 = 1 + length rb" "2 + length rb - 2 = length rb" by simp_all
  have c1: "\<not> c < 0" and c2: "c \<noteq> 255" and c3: "\<not> 128 \<le> c" using c by simp_all
  have run: "canon_loop (Suc n) tp (2 + length rb) s =
      (if canonb s ! (1 + length rb) \<noteq> 92 then
         (if c = t_erase ?t then canon_loop n tp (if 2 + length rb > 2 then 1 + length rb else 2 + length rb)
          else if c = t_kill ?t then canon_loop n tp 2
          else if c = eofc (t_tc ?t) then canon_loop n tp (2 + length rb)
          else canon_store (canon_loop n tp) (2 + length rb) c)
       else
         (let mc = (if c = t_erase ?t \<or> c = t_kill ?t then c else maptab ! nat c) in
          if mc \<noteq> 0 \<and> (mc = c \<or> t_flags ?t AND LCASE \<noteq> 0) then
            canon_store (canon_loop n tp) (1 + length rb) (if canonb s ! length rb \<noteq> 92 then mc else c)
          else canon_store (canon_loop n tp) (2 + length rb) c)) s1"
    unfolding canon_loop.simps(2) kbind_Ok [of "tgetc Rawq tp", OF get]
    by (simp only: krun id_apply if_not_P [OF c1] if_not_P [OF c2] if_not_P [OF c3] if_P [OF cooked] cb ix)
  have same: "s1\<lparr>canonb := canonb s\<rparr> = s1" by (simp add: cb [symmetric])
  show ?thesis
  proof (cases "rb \<noteq> [] \<and> hd rb = 92")
    case False
    then have nb: "canonb s ! (1 + length rb) \<noteq> 92" using buf_last [OF buf(1)] by simp
    consider (erase) "c = t_erase ?t" | (kill) "c \<noteq> t_erase ?t" "c = t_kill ?t"
      | (eof) "c \<noteq> t_erase ?t" "c \<noteq> t_kill ?t" "c = eofc (t_tc ?t)"
      | (plain) "c \<noteq> t_erase ?t" "c \<noteq> t_kill ?t" "c \<noteq> eofc (t_tc ?t)" by blast
    then show ?thesis
    proof cases
      case erase
      have e: "edit_char ?t rb c = tl rb" unfolding edit_char_def by (simp only: if_not_P [OF False] if_P [OF erase])
      have len: "length (tl rb) \<noteq> CANBSIZ - 2" "(if 2 + length rb > 2 then 1 + length rb else 2 + length rb) = 2 + length (tl rb)"
        using buf(2) by (cases rb; simp)+
      have "canon_loop (Suc n) tp (2 + length rb) s = canon_loop n tp (2 + length (tl rb)) s1"
        by (simp only: run if_P [OF nb] if_P [OF erase] len(2))
      with buf_tl [OF buf(1)] len(1) same e show ?thesis by metis
    next
      case kill
      have e: "edit_char ?t rb c = []" unfolding edit_char_def by (simp only: if_not_P [OF False] if_not_P [OF kill(1)] if_P [OF kill(2)])
      have b: "buf_holds (canonb s) []" using buf(1) by (simp add: buf_holds_def)
      have "canon_loop (Suc n) tp (2 + length rb) s = canon_loop n tp (2 + length ([] :: int list)) s1"
        by (simp only: run if_P [OF nb] if_not_P [OF kill(1)] if_P [OF kill(2)] list.size add_0_right)
      moreover have "length ([] :: int list) \<noteq> CANBSIZ - 2" by (simp add: CANBSIZ_def)
      ultimately show ?thesis using b same e by metis
    next
      case eof
      have e: "edit_char ?t rb c = rb"
        unfolding edit_char_def by (simp only: if_not_P [OF False] if_not_P [OF eof(1)] if_not_P [OF eof(2)] if_P [OF eof(3)])
      have "canon_loop (Suc n) tp (2 + length rb) s = canon_loop n tp (2 + length rb) s1"
        by (simp only: run if_P [OF nb] if_not_P [OF eof(1)] if_not_P [OF eof(2)] if_P [OF eof(3)])
      with buf same e show ?thesis by (metis less_irrefl)
    next
      case plain
      have e: "edit_char ?t rb c = c # rb"
        unfolding edit_char_def by (simp only: if_not_P [OF False] if_not_P [OF plain(1)] if_not_P [OF plain(2)] if_not_P [OF plain(3)])
      have r: "canon_loop (Suc n) tp (2 + length rb) s = canon_store (canon_loop n tp) (2 + length rb) c s1"
        by (simp only: run if_P [OF nb] if_not_P [OF plain(1)] if_not_P [OF plain(2)] if_not_P [OF plain(3)])
      show ?thesis unfolding e r by (rule canon_store_push) (simp_all add: cb buf)
    qed
  next
    case True
    then have nb: "canonb s ! (1 + length rb) = 92" using buf_last [OF buf(1)] by simp
    have nb2: "canonb s ! length rb = 92 \<longleftrightarrow> tl rb \<noteq> [] \<and> hd (tl rb) = 92" using buf_last2 [OF buf(1)] True by simp
    define mc where "mc = (if c = t_erase ?t \<or> c = t_kill ?t then c else maptab ! nat c)"
    have nnb: "\<not> canonb s ! (1 + length rb) \<noteq> 92" using nb by simp
    show ?thesis
    proof (cases "mc \<noteq> 0 \<and> (mc = c \<or> t_flags ?t AND LCASE \<noteq> 0)")
      case False
      have e: "edit_char ?t rb c = c # rb"
        unfolding edit_char_def Let_def mc_def [symmetric] by (simp only: if_P [OF True] if_not_P [OF False])
      have r: "canon_loop (Suc n) tp (2 + length rb) s = canon_store (canon_loop n tp) (2 + length rb) c s1"
        unfolding run Let_def mc_def [symmetric] by (simp only: if_not_P [OF nnb] if_not_P [OF False])
      show ?thesis unfolding e r by (rule canon_store_push) (simp_all add: cb buf)
    next
      case mapped: True
      let ?x = "if canonb s ! length rb \<noteq> 92 then mc else c"
      have e: "edit_char ?t rb c = ?x # tl rb"
        unfolding edit_char_def Let_def mc_def [symmetric] if_P [OF True] if_P [OF mapped] using nb2 by simp
      have len: "1 + length rb = 2 + length (tl rb)" "length (tl rb) < CANBSIZ - 2"
        using True buf(2) by (cases rb; simp)+
      have r: "canon_loop (Suc n) tp (2 + length rb) s = canon_store (canon_loop n tp) (2 + length (tl rb)) ?x s1"
        unfolding run Let_def mc_def [symmetric] by (simp only: if_not_P [OF nnb] if_P [OF mapped]) (simp only: len(1))
      show ?thesis unfolding e r by (rule canon_store_push) (use len(2) in \<open>simp_all add: cb buf_tl [OF buf(1)]\<close>)
    qed
  qed
qed

text \<open>The state after the loop: the raw queue, the delimiter count and the buffer have changed.\<close>

definition canon_end :: "nat \<Rightarrow> clmem \<Rightarrow> clist \<Rightarrow> bool \<Rightarrow> int list \<Rightarrow> ('h, 'a) tst_scheme \<Rightarrow> ('h, 'a) tst_scheme" where
  "canon_end tp m q hit cb s =
     s\<lparr>clm := m, ttys := (ttys s)(tp := (ttys s tp)\<lparr>t_rawq := q,
         t_delct := (if hit then cchar (t_delct (ttys s tp) - 1) else t_delct (ttys s tp))\<rparr>), canonb := cb\<rparr>"

lemma edit_char_cong:
  "t_erase t' = t_erase t \<Longrightarrow> t_kill t' = t_kill t \<Longrightarrow> t_flags t' = t_flags t \<Longrightarrow> t_tc t' = t_tc t \<Longrightarrow>
     edit_char t' = edit_char t"
  by (simp add: fun_eq_iff edit_char_def)

lemma take_line_cong: "edit_char t' = edit_char t \<Longrightarrow> take_line t' rb cs = take_line t rb cs"
  by (induction cs arbitrary: rb) simp_all

lemma tq_store_raw: "tq_store Rawq tp (q, m) s = s\<lparr>ttys := (ttys s)(tp := (ttys s tp)\<lparr>t_rawq := q\<rparr>), clm := m\<rparr>"
  by (simp add: tq_store_def)

lemma ttyqs_canon_end: "ttyqs (canon_end tp m q hit cb s) C = ttyqs (tq_store Rawq tp (q, m) s) C"
  by (rule ttyqs_same_queues) (auto simp: canon_end_def tq_store_raw)

lemma canon_delim:
  assumes "tgetc Rawq tp s = Ok 255 (tq_store Rawq tp (q, m) s)" "t_flags (ttys s tp) AND (RAW OR CBREAK) = 0"
  shows "canon_loop (Suc n) tp bp s = Ok bp (canon_end tp m q True (canonb s) s)"
  unfolding canon_loop.simps kbind_Ok [of "tgetc Rawq tp", OF assms(1)]
  using assms(2) by (simp add: krun kret_def tq_store_raw) (simp add: canon_end_def)

lemma canon_loop_edits:
  assumes "ttyqs s C" "buf_holds (canonb s) rb" "length rb < CANBSIZ - 2" "length (C (tp, Rawq)) < n"
    "t_flags (ttys s tp) AND (RAW OR CBREAK) = 0" "\<forall>c\<in>set (C (tp, Rawq)). 0 \<le> c \<and> (c < 128 \<or> c = 255)"
    "take_line (ttys s tp) rb (C (tp, Rawq)) = (rb', rest, hit)"
  shows "\<exists>m q cb. canon_loop n tp (2 + length rb) s = Ok (2 + length rb') (canon_end tp m q hit cb s) \<and>
    ttyqs (canon_end tp m q hit cb s) (C((tp, Rawq) := rest)) \<and> buf_holds cb rb'"
  using assms
proof (induction n arbitrary: s C rb)
  case (Suc n)
  note qs = Suc.prems(1)
  show ?case
  proof (cases "C (tp, Rawq)")
    case Nil
    have "canon_end tp (clm s) (t_rawq (ttys s tp)) False (canonb s) s = s" by (simp add: canon_end_def)
    moreover have "canon_loop (Suc n) tp (2 + length rb) s = Ok (2 + length rb) s"
      unfolding canon_loop.simps kbind_Ok [of "tgetc Rawq tp", OF tgetc_nil [OF qs Nil]] by (simp add: kret_def)
    ultimately show ?thesis using Suc.prems(2,7) qs Nil by (metis Pair_inject fun_upd_triv take_line.simps(1))
  next
    case (Cons c cs)
    from tgetc_cons [OF qs Cons] obtain q m where get: "tgetc Rawq tp s = Ok c (tq_store Rawq tp (q, m) s)"
      and qs1: "ttyqs (tq_store Rawq tp (q, m) s) (C((tp, Rawq) := cs))" .
    define s1 where "s1 = tq_store Rawq tp (q, m) s"
    have s1: "canonb s1 = canonb s" "ttys s1 tp = (ttys s tp)\<lparr>t_rawq := q\<rparr>" by (simp_all add: s1_def tq_store_raw)
    have ec: "edit_char (ttys s1 tp) = edit_char (ttys s tp)" by (rule edit_char_cong) (simp_all add: s1)
    have cooked: "t_flags (ttys s1 tp) AND (RAW OR CBREAK) = 0" using Suc.prems(5) by (simp add: s1)
    have ok: "0 \<le> c" "c < 128 \<or> c = 255" using Suc.prems(6) Cons by auto
    show ?thesis
    proof (cases "c = 255")
      case True
      with Suc.prems(7) Cons have res: "rb' = rb" "rest = cs" "hit" by auto
      from canon_delim [OF get [unfolded True] Suc.prems(5)] res qs1 Suc.prems(2) show ?thesis
        by (metis ttyqs_canon_end)
    next
      case False
      then have c: "0 \<le> c" "c < 128" using ok by auto
      from canon_step [OF get [folded s1_def] s1(1) Suc.prems(2,3) cooked c, of n] obtain cb where
        cb: "buf_holds cb (edit_char (ttys s tp) rb c)" and
        run: "canon_loop (Suc n) tp (2 + length rb) s =
          (if length (edit_char (ttys s tp) rb c) = CANBSIZ - 2 then Ok CANBSIZ (s1\<lparr>canonb := cb\<rparr>)
           else canon_loop n tp (2 + length (edit_char (ttys s tp) rb c)) (s1\<lparr>canonb := cb\<rparr>))"
        unfolding ec by blast
      let ?s = "s1\<lparr>canonb := cb\<rparr>"
      have same: "canon_end tp m' q' h cb' ?s = canon_end tp m' q' h cb' s" for m' q' h cb'
        by (simp add: canon_end_def s1_def tq_store_raw)
      have qs2: "ttyqs ?s (C((tp, Rawq) := cs))" using qs1 by (simp add: ttyqs_def s1_def [symmetric])
      show ?thesis
      proof (cases "length (edit_char (ttys s tp) rb c) = CANBSIZ - 2")
        case True
        with Suc.prems(7) Cons False have res: "rb' = edit_char (ttys s tp) rb c" "rest = cs" "\<not> hit" by auto
        have "canon_end tp m q hit cb s = ?s" using res(3) by (simp add: canon_end_def s1_def tq_store_raw)
        moreover have "2 + length rb' = CANBSIZ" using True res(1) by (simp add: CANBSIZ_def)
        ultimately show ?thesis using run True cb qs2 res by metis
      next
        case short: False
        have "length (edit_char (ttys s tp) rb c) < CANBSIZ - 2" using cb short by (simp add: buf_holds_def)
        moreover have "take_line (ttys ?s tp) (edit_char (ttys s tp) rb c) cs = (rb', rest, hit)"
          using Suc.prems(7) Cons False short take_line_cong [OF ec] by simp
        ultimately have "\<exists>m q cb'. canon_loop n tp (2 + length (edit_char (ttys s tp) rb c)) ?s = Ok (2 + length rb') (canon_end tp m q hit cb' ?s) \<and>
            ttyqs (canon_end tp m q hit cb' ?s) ((C((tp, Rawq) := cs))((tp, Rawq) := rest)) \<and> buf_holds cb' rb'"
          using Suc.prems(4,6) Cons cooked cb by (intro Suc.IH [OF qs2]) simp_all
        then show ?thesis using run short by (simp add: same del: canon_loop.simps fun_upd_apply)
      qed
    qed
  qed
qed simp


lemma canon_edits_line:
  assumes qs: "ttyqs s C" and buf: "length (canonb s) = CANBSIZ" "canonb s ! 1 \<noteq> 92"
    and cooked: "t_flags (ttys s tp) AND (RAW OR CBREAK) = 0" and wake: "t_delct (ttys s tp) \<noteq> 0" "TBLOCK \<notin> t_state (ttys s tp)"
    and chars: "\<forall>c\<in>set (C (tp, Rawq)). 0 \<le> c \<and> (c < 128 \<or> c = 255)"
    and tl: "take_line (ttys s tp) [] (C (tp, Rawq)) = (rb, rest, hit)"
  shows "\<exists>s' k. canon d tp s = Ok (int (length rb)) s' \<and> k \<le> length rb \<and> (k < length rb \<longrightarrow> cfreelist (clm s') = 0) \<and>
    ttyqs s' (C((tp, Rawq) := rest, (tp, Canq) := C (tp, Canq) @ take k (rev rb))) \<and>
    t_delct (ttys s' tp) = (if hit then cchar (t_delct (ttys s tp) - 1) else t_delct (ttys s tp))"
proof -
  have "length (C (tp, Rawq)) < Suc (nat (c_cc (t_rawq (ttys s tp))))" using ttyqs_cc(1) [OF qs, of tp] by simp
  from canon_loop_edits [OF qs buf_nil [OF buf] _ this cooked chars tl] obtain m q cb where
    loop: "canon_loop (Suc (nat (c_cc (t_rawq (ttys s tp))))) tp 2 s = Ok (2 + length rb) (canon_end tp m q hit cb s)"
    and qs1: "ttyqs (canon_end tp m q hit cb s) (C((tp, Rawq) := rest))" and cb: "buf_holds cb rb"
    by (auto simp: CANBSIZ_def simp del: canon_loop.simps)
  define s1 where "s1 = canon_end tp m q hit cb s"
  have s1: "canonb s1 = cb" "t_state (ttys s1 tp) = t_state (ttys s tp)"
    "t_delct (ttys s1 tp) = (if hit then cchar (t_delct (ttys s tp) - 1) else t_delct (ttys s tp))"
    by (simp_all add: s1_def canon_end_def)
  have line: "drop 2 (take (Suc (Suc (length rb))) cb) = rev rb" using cb by (simp add: buf_holds_def drop_take)
  have "\<forall>c\<in>set (rev rb). 0 \<le> c \<and> c < 256"
    using take_line_bytes [OF bytes_simps(1) chars, of "ttys s tp"] tl by (simp add: bytes_def)
  from tb_to_q_prefix [OF qs1 [folded s1_def] this, of Canq tp] obtain k q' m' where
    put: "tb_to_q (rev rb) Canq tp s1 = Ok (length (rev rb) - k) (tq_store Canq tp (q', m') s1)" "k \<le> length rb"
    "ttyqs (tq_store Canq tp (q', m') s1) ((C((tp, Rawq) := rest))((tp, Canq) := C (tp, Canq) @ take k (rev rb)))"
    "k < length rb \<Longrightarrow> cfreelist m' = 0" by auto
  have st: "t_state (ttys (tq_store Canq tp (q', m') s1) tp) = t_state (ttys s tp)"
    "t_delct (ttys (tq_store Canq tp (q', m') s1) tp) = t_delct (ttys s1 tp)" "clm (tq_store Canq tp (q', m') s1) = m'"
    using s1(2) by (simp_all add: tq_store_def)
  have "canon d tp s = Ok (int (length rb)) (tq_store Canq tp (q', m') s1)"
    unfolding canon_def using cooked wake
    by (simp add: krun kbind_Ok [of "canon_loop _ _ _", OF loop] s1_def [symmetric] s1(1) line
        kbind_Ok [of "tb_to_q _ _ _", OF put(1)] st kret_def del: canon_loop.simps)
  with put st s1(3) show ?thesis by (intro exI [of _ "tq_store Canq tp (q', m') s1"] exI [of _ k]) simp
qed

end
