(* ===== verification/Tty_Out.thy ===== *)
theory Tty_Out
  imports Tty_Spec "HOL-Library.Sublist"
begin

text \<open>
  Terminal output. \<open>render\<close> gives the characters that \<^verbatim>\<open>ttyoutput\<close> should queue for a character and the
  column after it: tabs become spaces, upper-case-only terminals get escapes, newlines get a carriage
  return, and delays follow. The lemmas show that the recursive routine queues exactly these unless
  the character blocks run out.
\<close>

section \<open>Rendering\<close>

definition render1 :: "int \<Rightarrow> int \<Rightarrow> int \<Rightarrow> int list \<times> int" where
  "render1 fl col c = (case out_delay fl col c of (w, col') \<Rightarrow> (c # (if w \<noteq> 0 then [(w OR 128) mod 256] else []), col'))"

definition render_seq :: "int list \<times> int \<Rightarrow> (int \<Rightarrow> int list \<times> int) \<Rightarrow> int list \<times> int" where
  "render_seq r f = (fst r @ fst (f (snd r)), snd (f (snd r)))"

definition upper :: "int \<Rightarrow> int \<Rightarrow> int" where
  "upper fl c = (if fl AND LCASE \<noteq> 0 \<and> 97 \<le> c \<and> c \<le> 122 then c - 32 else c)"

definition render :: "int \<Rightarrow> int \<Rightarrow> int \<Rightarrow> int list \<times> int" where
  "render fl col c =
     (if fl AND RAW \<noteq> 0 then ([c mod 256], col)
      else
        (let c = c AND 127;
             esc = (if fl AND LCASE \<noteq> 0 then map_of lcase_esc c else None);
             c' = upper fl (case esc of Some e \<Rightarrow> e | None \<Rightarrow> c)
         in if c = CEOT then ([], col)
            else if c = 9 \<and> fl AND TBDELAY = XTABS then
              (replicate (nat (8 - col mod 8)) 32, cchar (col + 8 - col mod 8))
            else
              render_seq
                (render_seq (if esc \<noteq> None then render1 fl col 92 else ([], col))
                  (\<lambda>col. if c' = 10 \<and> fl AND CRMOD \<noteq> 0 then render1 fl col 13 else ([], col)))
                (\<lambda>col. render1 fl col c')))"

lemma render_seq_nil: "render_seq ([], col) f = f col"
  by (simp add: render_seq_def)

section \<open>What an output step does\<close>

text \<open>
  From \<open>s\<close> to \<open>s'\<close> the characters \<open>xs\<close> were put on the output queue of \<open>tp\<close>, all of them unless the free list
  is empty at the end; the column became \<open>col\<close>; nothing else changed but the counter.
\<close>

definition out_frame :: "nat \<Rightarrow> int \<Rightarrow> ('h, 'a) tst_scheme \<Rightarrow> ('h, 'a) tst_scheme \<Rightarrow> bool" where
  "out_frame tp col s s' \<longleftrightarrow>
     (\<exists>m q n. s' = s\<lparr>clm := m, ttys := (ttys s)(tp := (ttys s tp)\<lparr>t_outq := q, t_col := col\<rparr>), tk_nout := n\<rparr>)"

definition emits :: "nat \<Rightarrow> int list \<times> int \<Rightarrow> ('h, 'a) tst_scheme \<Rightarrow> (nat \<times> tqueue \<Rightarrow> int list) \<Rightarrow> ('h, 'a) tst_scheme \<Rightarrow> bool" where
  "emits tp r s C s' \<longleftrightarrow> out_frame tp (snd r) s s' \<and>
     (\<exists>ys. subseq ys (fst r) \<and> ttyqs s' (C((tp, Outq) := C (tp, Outq) @ ys)) \<and>
        (cfreelist (clm s') \<noteq> 0 \<longrightarrow> ys = fst r \<and> cfreelist (clm s) \<noteq> 0))"

lemma out_frame_refl: "out_frame tp (t_col (ttys s tp)) s s"
  unfolding out_frame_def by (intro exI [of _ "clm s"] exI [of _ "t_outq (ttys s tp)"] exI [of _ "tk_nout s"]) simp

lemma out_frame_trans: "out_frame tp col s s' \<Longrightarrow> out_frame tp col' s' s'' \<Longrightarrow> out_frame tp col' s s''"
  unfolding out_frame_def by force

lemma out_frame_fields:
  assumes "out_frame tp col s s'"
  shows "t_col (ttys s' tp) = col" "t_flags (ttys s' tp) = t_flags (ttys s tp)" "t_state (ttys s' tp) = t_state (ttys s tp)"
    "t_kill (ttys s' tp) = t_kill (ttys s tp)" "t_tc (ttys s' tp) = t_tc (ttys s tp)" "t_chan (ttys s' tp) = t_chan (ttys s tp)"
    "t_delct (ttys s' tp) = t_delct (ttys s tp)" "u s' = u s" "umem s' = umem s" "canonb s' = canonb s"
  using assms by (auto simp: out_frame_def)

lemma emits_refl: "ttyqs s C \<Longrightarrow> emits tp ([], t_col (ttys s tp)) s C s"
  unfolding emits_def by (intro conjI exI [of _ "[]"] out_frame_refl) (simp_all add: out_frame_refl)

lemma emits_fields:
  assumes "emits tp r s C s'"
  shows "t_col (ttys s' tp) = snd r" "t_flags (ttys s' tp) = t_flags (ttys s tp)"
  using assms out_frame_fields unfolding emits_def by blast+

text \<open>Two steps in sequence.\<close>

lemma emits_seq:
  assumes "emits tp r s C s'"
    "\<And>C'. ttyqs s' C' \<Longrightarrow> \<exists>s''. f s' = Ok () s'' \<and> emits tp (g (snd r)) s' C' s''"
  shows "\<exists>s''. f s' = Ok () s'' \<and> emits tp (render_seq r g) s C s''"
proof -
  from assms(1) obtain ys where 1: "out_frame tp (snd r) s s'" "subseq ys (fst r)" "ttyqs s' (C((tp, Outq) := C (tp, Outq) @ ys))"
    "cfreelist (clm s') \<noteq> 0 \<longrightarrow> ys = fst r \<and> cfreelist (clm s) \<noteq> 0" unfolding emits_def by blast
  from assms(2) [OF 1(3)] obtain s'' zs where 2: "f s' = Ok () s''" "out_frame tp (snd (g (snd r))) s' s''"
    "subseq zs (fst (g (snd r)))"
    "ttyqs s'' ((C((tp, Outq) := C (tp, Outq) @ ys))((tp, Outq) := (C((tp, Outq) := C (tp, Outq) @ ys)) (tp, Outq) @ zs))"
    "cfreelist (clm s'') \<noteq> 0 \<longrightarrow> zs = fst (g (snd r)) \<and> cfreelist (clm s') \<noteq> 0"
    unfolding emits_def by blast
  have "ttyqs s'' (C((tp, Outq) := C (tp, Outq) @ ys @ zs))" using 2(4) by (simp only: fun_upd_upd fun_upd_same append_assoc)
  moreover have "subseq (ys @ zs) (fst r @ fst (g (snd r)))" using 1(2) 2(3) by (rule list_emb_append_mono)
  ultimately have "emits tp (render_seq r g) s C s''"
    unfolding emits_def render_seq_def using out_frame_trans [OF 1(1) 2(2)] 1(4) 2(5) by auto
  with 2(1) show ?thesis by blast
qed

lemma tputc_emits:
  assumes "ttyqs s C"
  shows "\<exists>r s'. tputc c Outq tp s = Ok r s' \<and> emits tp ([c mod 256], t_col (ttys s tp)) s C s'"
proof -
  have frame: "out_frame tp (t_col (ttys s tp)) s (tq_store Outq tp (q, m) s)" for q m
    unfolding out_frame_def
    by (intro exI [of _ m] exI [of _ q] exI [of _ "tk_nout s"]) (simp add: tq_store_def)
  have cl: "clm (tq_store Outq tp (q, m) s) = m" for q m by (simp add: tq_store_def)
  from assms show ?thesis
  proof (cases rule: tputc_cases [where c = c and k = Outq and tp = tp])
    case (stored q m)
    then show ?thesis unfolding emits_def using frame cl
      by (intro exI [of _ 0] exI [of _ "tq_store Outq tp (q, m) s"] conjI exI [of _ "[c mod 256]"]) auto
  next
    case (refused q m)
    then show ?thesis unfolding emits_def using frame cl
      by (intro exI [of _ "-1"] exI [of _ "tq_store Outq tp (q, m) s"] conjI exI [of _ "[]"]) auto
  qed
qed

lemma emits_count: "emits tp r (s\<lparr>tk_nout := n\<rparr>) C s' \<Longrightarrow> emits tp r s C s'"
  by (auto simp: emits_def out_frame_def)

lemma ttyqs_count [simp]: "ttyqs (s\<lparr>tk_nout := n\<rparr>) C = ttyqs s C"
  by (simp add: ttyqs_def)

section \<open>\<^verbatim>\<open>ttyoutput\<close>\<close>

lemma emits_setcol:
  assumes "emits tp r (s\<lparr>ttys := (ttys s)(tp := (ttys s tp)\<lparr>t_col := col\<rparr>)\<rparr>) C s'"
  shows "emits tp r s C s'"
proof -
  have "out_frame tp col s (s\<lparr>ttys := (ttys s)(tp := (ttys s tp)\<lparr>t_col := col\<rparr>)\<rparr>)" (is "out_frame tp col s ?s")
    unfolding out_frame_def by (intro exI [of _ "clm s"] exI [of _ "t_outq (ttys s tp)"] exI [of _ "tk_nout s"]) simp
  with assms out_frame_trans show ?thesis unfolding emits_def by fastforce
qed

lemma ttyqs_setcol [simp]: "ttyqs (s\<lparr>ttys := (ttys s)(tp := (ttys s tp)\<lparr>t_col := col\<rparr>)\<rparr>) C = ttyqs s C"
  by (rule ttyqs_same_queues) auto

lemma out_char_emits:
  assumes "ttyqs s C" "0 \<le> c" "c < 256"
  shows "\<exists>s'. out_char c tp s = Ok () s' \<and> emits tp (render1 (t_flags (ttys s tp)) (t_col (ttys s tp)) c) s C s'"
proof -
  let ?fl = "t_flags (ttys s tp)" and ?col = "t_col (ttys s tp)"
  obtain w col where od: "out_delay ?fl ?col c = (w, col)" by (cases "out_delay ?fl ?col c")
  let ?f = "kthen (tmod tp (\<lambda>t. t\<lparr>t_col := col\<rparr>)) (if w \<noteq> 0 then kbind (tputc (w OR 128) Outq tp) (\<lambda>_. kret ()) else kret ())
    :: (unit, ('a, 'b) tst_scheme) kmon"
  from tputc_emits [OF assms(1), of c tp] assms(2,3) obtain r s1 where put: "tputc c Outq tp s = Ok r s1"
    and e1: "emits tp ([c], ?col) s C s1" by auto
  have run: "out_char c tp s = ?f s1"
    unfolding out_char_def kbind_Ok [of "tputc c Outq tp", OF put]
    using emits_fields [OF e1] od by (simp add: krun)
  have "\<exists>s2. ?f s1 = Ok () s2 \<and> emits tp (if w \<noteq> 0 then [(w OR 128) mod 256] else [], col) s1 C' s2" if q: "ttyqs s1 C'" for C'
  proof -
    define s1' where "s1' = s1\<lparr>ttys := (ttys s1)(tp := (ttys s1 tp)\<lparr>t_col := col\<rparr>)\<rparr>"
    have q': "ttyqs s1' C'" "t_col (ttys s1' tp) = col" using q by (simp_all add: s1'_def)
    from tputc_emits [OF q'(1), of "w OR 128" tp] q'(2) obtain r s2 where
      "tputc (w OR 128) Outq tp s1' = Ok r s2" "emits tp ([(w OR 128) mod 256], col) s1' C' s2" by auto
    moreover have lift: "emits tp r' s1' C' s' \<Longrightarrow> emits tp r' s1 C' s'" for r' s' unfolding s1'_def by (rule emits_setcol)
    ultimately show ?thesis using lift [OF emits_refl [OF q'(1), of tp]] lift q'(2)
      by (auto simp: krun s1'_def [symmetric] kret_def kbind_Ok [of "tputc _ _ _"])
  qed
  from emits_seq [where f = "?f" and g = "\<lambda>_. (if w \<noteq> 0 then [(w OR 128) mod 256] else [], col)", OF e1 this]
  show ?thesis unfolding run by (simp add: render1_def od render_seq_def)
qed

lemma and_low: "x AND 7 = x mod 8" "x AND 127 = x mod 128" for x :: int
proof -
  have "x AND mask 3 = take_bit 3 x" "x AND mask 7 = take_bit 7 x" by (simp_all add: take_bit_eq_mask)
  then show "x AND 7 = x mod 8" "x AND 127 = x mod 128" by (simp_all add: mask_eq_exp_minus_1 take_bit_eq_mod)
qed

lemma cchar_add: "cchar (cchar x + y) = cchar (x + y)"
  by (simp add: cchar_def algebra_simps) (metis mod_add_left_eq add.commute add.left_commute)

lemma cchar_mod8: "cchar x mod 8 = x mod 8"
proof -
  have "8 dvd x - cchar x"
  proof -
    have "x - cchar x = 256 * ((x + 128) div 256)" by (simp add: cchar_def minus_mult_div_eq_mod [symmetric])
    then show ?thesis by simp
  qed
  then show ?thesis by (simp add: mod_eq_dvd_iff dvd_diff_commute)
qed

lemma col_mod8:
  fixes x :: int
  shows "(x + 1) mod 8 \<noteq> 0 \<Longrightarrow> (x + 1) mod 8 = x mod 8 + 1" "(x + 1) mod 8 = 0 \<Longrightarrow> x mod 8 = 7"
    "nat (8 - x mod 8) \<le> Suc 0 \<Longrightarrow> x mod 8 = 7"
proof -
  have r: "0 \<le> x mod 8" "x mod 8 < 8" by simp_all
  have e: "(x + 1) mod 8 = (x mod 8 + 1) mod 8" by (simp add: mod_add_left_eq)
  have wrap: "(x mod 8 + 1) mod 8 = (if x mod 8 = 7 then 0 else x mod 8 + 1)" using r by simp
  show "(x + 1) mod 8 \<noteq> 0 \<Longrightarrow> (x + 1) mod 8 = x mod 8 + 1" unfolding e wrap by (simp split: if_splits)
  show "(x + 1) mod 8 = 0 \<Longrightarrow> x mod 8 = 7" unfolding e wrap using r by (simp split: if_splits)
  show "nat (8 - x mod 8) \<le> Suc 0 \<Longrightarrow> x mod 8 = 7" using r by linarith
qed

lemma tab_loop_emits:
  fixes out :: "(unit, ('h, 'a) tst_scheme) kmon"
  assumes out: "\<And>s C. ttyqs s C \<Longrightarrow> t_flags (ttys s tp) = fl \<Longrightarrow>
      \<exists>s'. out s = Ok () s' \<and> emits tp ([32], cchar (t_col (ttys s tp) + 1)) s C s'"
  shows "ttyqs s C \<Longrightarrow> t_flags (ttys s tp) = fl \<Longrightarrow> nat (8 - t_col (ttys s tp) mod 8) \<le> Suc n \<Longrightarrow>
    \<exists>s'. tab_loop n out tp s = Ok () s' \<and>
      emits tp (replicate (nat (8 - t_col (ttys s tp) mod 8)) 32, cchar (t_col (ttys s tp) + 8 - t_col (ttys s tp) mod 8)) s C s'"
proof (induction n arbitrary: s C)
  case 0
  define col where "col = t_col (ttys s tp)"
  have "col mod 8 = 7" using 0(3) unfolding col_def [symmetric] by (rule col_mod8(3))
  with out [OF 0(1,2)] show ?case by (simp add: col_def [symmetric] add.commute)
next
  case (Suc n)
  define col where "col = t_col (ttys s tp)"
  from out [OF Suc.prems(1,2)] obtain s1 where s1: "out s = Ok () s1" and e1: "emits tp ([32], cchar (col + 1)) s C s1"
    unfolding col_def by blast
  note f1 = emits_fields [OF e1, simplified]
  have run: "tab_loop (Suc n) out tp s = (if (col + 1) mod 8 \<noteq> 0 then tab_loop n out tp s1 else Ok () s1)"
    by (simp add: kthen_Ok [of out, OF s1] krun f1 and_low cchar_mod8 kret_def)
  show ?case
  proof (cases "(col + 1) mod 8 = 0")
    case True
    then have "col mod 8 = 7" by (rule col_mod8)
    with True run e1 show ?thesis by (simp add: col_def [symmetric] add.commute)
  next
    case False
    then have m: "(col + 1) mod 8 = col mod 8 + 1" by (rule col_mod8)
    have lt: "col mod 8 < 8" by simp
    let ?g = "\<lambda>c :: int. (replicate (nat (8 - (col + 1) mod 8)) 32, cchar (cchar (col + 1) + 8 - (col + 1) mod 8)) :: int list \<times> int"
    have "\<exists>s2. tab_loop n out tp s1 = Ok () s2 \<and> emits tp (?g (cchar (col + 1))) s1 C' s2" if "ttyqs s1 C'" for C'
    proof -
      have "nat (8 - t_col (ttys s1 tp) mod 8) \<le> Suc n"
        using Suc.prems(3) m unfolding f1 cchar_mod8 col_def [symmetric] by linarith
      from Suc.IH [OF that _ this] Suc.prems(2) show ?thesis by (simp add: f1 cchar_mod8)
    qed
    from emits_seq [where f = "tab_loop n out tp" and g = ?g, OF e1] this
    have "\<exists>s2. tab_loop n out tp s1 = Ok () s2 \<and> emits tp (render_seq ([32], cchar (col + 1)) ?g) s C s2" by simp
    moreover have "render_seq ([32], cchar (col + 1)) ?g = (replicate (nat (8 - col mod 8)) 32, cchar (col + 8 - col mod 8))"
    proof -
      have "nat (8 - col mod 8) = Suc (nat (8 - (col + 1) mod 8))" using m lt by linarith
      moreover have "cchar (cchar (col + 1) + 8 - (col + 1) mod 8) = cchar (col + 8 - col mod 8)"
        using cchar_add [of "col + 1" "8 - (col + 1) mod 8"] m by (simp add: algebra_simps)
      ultimately show ?thesis by (simp add: render_seq_def)
    qed
    ultimately show ?thesis using run False by (simp add: col_def [symmetric] add.commute)
  qed
qed

text \<open>The characters of the recursive calls end the recursion.\<close>

lemma ttyoutput_leaf:
  assumes "ttyqs s C" "t_flags (ttys s tp) AND RAW = 0" "c \<in> {32, 92, 13}"
  shows "\<exists>s'. ttyoutput_f (Suc n) c tp s = Ok () s' \<and> emits tp (render1 (t_flags (ttys s tp)) (t_col (ttys s tp)) c) s C s'"
proof -
  let ?s = "s\<lparr>tk_nout := cint (tk_nout s + 1)\<rparr>"
  have "ttyoutput_f (Suc n) c tp s = out_char c tp ?s"
    using assms(2,3) by (auto simp: krun CEOT_def lcase_esc_def)
  moreover from out_char_emits [of ?s C c tp] assms obtain s' where "out_char c tp ?s = Ok () s'"
    "emits tp (render1 (t_flags (ttys s tp)) (t_col (ttys s tp)) c) ?s C s'" by auto
  ultimately show ?thesis using emits_count by metis
qed

lemma render_space: "render1 fl col 32 = ([32], cchar (col + 1))"
  by (simp add: render1_def out_delay_def partab_def)

lemma kbind_kret: "kbind (kret x) f = f x"
  by (simp add: kbind_def kret_def)

lemma lcase_range: "0 \<le> c \<Longrightarrow> c < 128 \<Longrightarrow> 0 \<le> upper fl c \<and> upper fl c < 256"
  "map_of lcase_esc c = Some e \<Longrightarrow> 0 \<le> e \<and> e < 128"
  by (auto simp: upper_def lcase_esc_def split: if_splits)

text \<open>A step that is skipped emits nothing.\<close>

lemma emits_when:
  assumes "emits tp r s C s'" "\<And>C'. b \<Longrightarrow> ttyqs s' C' \<Longrightarrow> \<exists>s''. m s' = Ok () s'' \<and> emits tp (g (snd r)) s' C' s''"
  shows "\<exists>s''. kwhen b m s' = Ok () s'' \<and> emits tp (render_seq r (\<lambda>col. if b then g col else ([], col))) s C s''"
proof (rule emits_seq [OF assms(1), where g = "\<lambda>col. if b then g col else ([], col)"])
  fix C' assume "ttyqs s' C'"
  with assms(2) [of C'] emits_refl [of s' C' tp] emits_fields(1) [OF assms(1)]
  show "\<exists>s''. kwhen b m s' = Ok () s'' \<and> emits tp (if b then g (snd r) else ([], snd r)) s' C' s''"
    by (simp add: kwhen_def kret_def)
qed

lemma ttyoutput_cooked:
  assumes qs: "ttyqs s C" and fl: "t_flags (ttys s tp) = fl" "fl AND RAW = 0" and c: "c AND 127 \<noteq> CEOT"
    "\<not> (c AND 127 = 9 \<and> fl AND TBDELAY = XTABS)"
  shows "\<exists>s'. ttyoutput_f (Suc (Suc n)) c tp s = Ok () s' \<and> emits tp (render fl (t_col (ttys s tp)) c) s C s'"
proof -
  define s0 where "s0 = s\<lparr>tk_nout := cint (tk_nout s + 1)\<rparr>"
  define esc where "esc = (if fl AND LCASE \<noteq> 0 then map_of lcase_esc (c AND 127) else None)"
  define c' where "c' = upper fl (case esc of Some e \<Rightarrow> e | None \<Rightarrow> c AND 127)"
  have s0: "ttyqs s0 C" "t_flags (ttys s0 tp) = fl" "t_col (ttys s0 tp) = t_col (ttys s tp)" using qs fl by (simp_all add: s0_def)
  have esc_step: "kbind (if fl AND LCASE \<noteq> 0 then
        kbind (case map_of lcase_esc (c AND 127) of Some e \<Rightarrow> kthen F (kret e) | None \<Rightarrow> kret (c AND 127))
          (\<lambda>c. kret (if 97 \<le> c \<and> c \<le> 122 then c - 32 else c))
      else kret (c AND 127)) G s0 = kthen (kwhen (esc \<noteq> None) F) (G c') s0" for F :: "(unit, ('a, 'b) tst_scheme) kmon" and G :: "int \<Rightarrow> (unit, ('a, 'b) tst_scheme) kmon"
    by (cases "fl AND LCASE = 0"; cases "map_of lcase_esc (c AND 127)") (simp_all add: krun kbind_kret esc_def c'_def upper_def)
  have run: "ttyoutput_f (Suc (Suc n)) c tp s =
      kthen (kwhen (esc \<noteq> None) (ttyoutput_f (Suc n) 92 tp))
       (kthen (kwhen (c' = 10 \<and> fl AND CRMOD \<noteq> 0) (ttyoutput_f (Suc n) 13 tp)) (out_char c' tp)) s0"
    unfolding ttyoutput_f.simps(2) [of "Suc n"]
    by (simp only: krun(3) krun_tty(1) s0_def [symmetric] s0(2) fl(2) if_not_P [OF c(1)] if_not_P [OF c(2)] Let_def esc_step simp_thms if_False)
  have r: "render fl (t_col (ttys s tp)) c =
      render_seq (render_seq (render_seq ([], t_col (ttys s tp)) (\<lambda>col. if esc \<noteq> None then render1 fl col 92 else ([], col)))
        (\<lambda>col. if c' = 10 \<and> fl AND CRMOD \<noteq> 0 then render1 fl col 13 else ([], col))) (\<lambda>col. render1 fl col c')"
    unfolding render_def Let_def esc_def [symmetric] c'_def [symmetric] render_seq_nil
    by (simp only: fl(2) if_not_P [OF c(1)] if_not_P [OF c(2)] simp_thms if_False)
  have c': "0 \<le> c'" "c' < 256"
  proof -
    have "0 \<le> c AND 127" "c AND 127 < 128" by (simp_all add: and_low)
    then have "0 \<le> (case esc of Some e \<Rightarrow> e | None \<Rightarrow> c AND 127) \<and> (case esc of Some e \<Rightarrow> e | None \<Rightarrow> c AND 127) < 128"
      using lcase_range(2) [of "c AND 127"] by (auto simp: esc_def split: option.split)
    then show "0 \<le> c'" "c' < 256" using lcase_range(1) by (simp_all add: c'_def)
  qed
  have leaf: "\<exists>s''. ttyoutput_f (Suc n) x tp s' = Ok () s'' \<and> emits tp (render1 fl (snd r) x) s' C' s''"
    if "emits tp r s0 C s'" "x \<in> {92, 13}" "ttyqs s' C'" for x r s' C'
    using ttyoutput_leaf [OF that(3), of tp x n] that(2) emits_fields [OF that(1)] s0 fl(2) by (auto simp del: ttyoutput_f.simps)
  have skip: "\<exists>s''. kwhen b (ttyoutput_f (Suc n) x tp) s' = Ok () s'' \<and>
      emits tp (render_seq r (\<lambda>col. if b then render1 fl col x else ([], col))) s0 C s''"
    if "emits tp r s0 C s'" "x \<in> {92, 13}" for b x r s'
    by (rule emits_when [OF that(1), where g = "\<lambda>col. render1 fl col x"]) (rule leaf [OF that])
  have e0: "emits tp ([], t_col (ttys s tp)) s0 C s0" using emits_refl [OF s0(1), of tp] by (simp add: s0(3))
  from skip [OF e0, of 92 "esc \<noteq> None"] obtain s1 r1 where
    1: "kwhen (esc \<noteq> None) (ttyoutput_f (Suc n) 92 tp) s0 = Ok () s1" "emits tp r1 s0 C s1"
    and r1: "r1 = render_seq ([], t_col (ttys s tp)) (\<lambda>col. if esc \<noteq> None then render1 fl col 92 else ([], col))" by blast
  from skip [OF 1(2), of 13 "c' = 10 \<and> fl AND CRMOD \<noteq> 0"] obtain s2 r2 where
    2: "kwhen (c' = 10 \<and> fl AND CRMOD \<noteq> 0) (ttyoutput_f (Suc n) 13 tp) s1 = Ok () s2" "emits tp r2 s0 C s2"
    and r2: "r2 = render_seq r1 (\<lambda>col. if c' = 10 \<and> fl AND CRMOD \<noteq> 0 then render1 fl col 13 else ([], col))" by blast
  from emits_seq [OF 2(2), where f = "out_char c' tp" and g = "\<lambda>col. render1 fl col c'"] out_char_emits [OF _ c'] emits_fields [OF 2(2)] s0(2)
  obtain s3 where 3: "out_char c' tp s2 = Ok () s3" "emits tp (render_seq r2 (\<lambda>col. render1 fl col c')) s0 C s3" by metis
  have "ttyoutput_f (Suc (Suc n)) c tp s = Ok () s3"
    unfolding run kthen_Ok [of "kwhen _ _", OF 1(1)] kthen_Ok [of "kwhen _ _", OF 2(1)] by (rule 3(1))
  with 3(2) show ?thesis unfolding r r1 [symmetric] r2 [symmetric] s0_def using emits_count by blast
qed

lemma ttyoutput_renders_char:
  assumes qs: "ttyqs s C"
  shows "\<exists>s'. ttyoutput c tp s = Ok () s' \<and> emits tp (render (t_flags (ttys s tp)) (t_col (ttys s tp)) c) s C s'"
proof -
  define s0 where "s0 = s\<lparr>tk_nout := cint (tk_nout s + 1)\<rparr>"
  let ?fl = "t_flags (ttys s tp)" and ?col = "t_col (ttys s tp)"
  have two: "(2 :: nat) = Suc (Suc 0)" by simp
  have s0: "ttyqs s0 C" "t_flags (ttys s0 tp) = ?fl" "t_col (ttys s0 tp) = ?col" using qs by (simp_all add: s0_def)
  consider (raw) "?fl AND RAW \<noteq> 0" | (eot) "?fl AND RAW = 0" "c AND 127 = CEOT"
    | (tab) "?fl AND RAW = 0" "c AND 127 \<noteq> CEOT" "c AND 127 = 9 \<and> ?fl AND TBDELAY = XTABS"
    | (other) "?fl AND RAW = 0" "c AND 127 \<noteq> CEOT" "\<not> (c AND 127 = 9 \<and> ?fl AND TBDELAY = XTABS)" by blast
  then show ?thesis
  proof cases
    case raw
    from tputc_emits [OF s0(1), of c tp] obtain r s1 where p: "tputc c Outq tp s0 = Ok r s1" "emits tp ([c mod 256], ?col) s0 C s1"
      by (auto simp: s0)
    have "ttyoutput c tp s = Ok () s1"
      unfolding ttyoutput_def two ttyoutput_f.simps(2) [of "Suc 0"]
      by (simp only: krun(3) krun_tty(1) s0_def [symmetric] s0(2) if_P [OF raw] kbind_Ok [of "tputc c Outq tp", OF p(1)] kret_def)
    with p(2) raw show ?thesis unfolding s0_def using emits_count by (auto simp: render_def)
  next
    case eot
    have "ttyoutput c tp s = Ok () s0"
      unfolding ttyoutput_def two ttyoutput_f.simps(2) [of "Suc 0"]
      by (simp only: krun(3) krun_tty(1) s0_def [symmetric] s0(2) eot(1) simp_thms if_False Let_def if_P [OF eot(2)] kret_def)
    moreover have "emits tp ([], ?col) s C s0" using emits_refl [OF s0(1), of tp] emits_count unfolding s0(3) unfolding s0_def by blast
    ultimately show ?thesis using eot by (auto simp: render_def Let_def)
  next
    case tab
    have out: "\<exists>s''. ttyoutput_f (Suc 0) 32 tp s' = Ok () s'' \<and> emits tp ([32], cchar (t_col (ttys s' tp) + 1)) s' C' s''"
      if "ttyqs s' C'" "t_flags (ttys s' tp) = ?fl" for s' C'
      using ttyoutput_leaf [OF that(1), of tp 32 0] that(2) tab(1) unfolding render_space by (simp del: ttyoutput_f.simps)
    have "0 \<le> ?col mod 8" "?col mod 8 < 8" by simp_all
    then have "nat (8 - t_col (ttys s0 tp) mod 8) \<le> Suc 8" unfolding s0(3) by linarith
    from tab_loop_emits [OF out s0(1,2) this] obtain s1 where
      p: "tab_loop 8 (ttyoutput_f (Suc 0) 32 tp) tp s0 = Ok () s1" and
      e: "emits tp (replicate (nat (8 - ?col mod 8)) 32, cchar (?col + 8 - ?col mod 8)) s0 C s1" unfolding s0(3) by blast
    have "ttyoutput c tp s = Ok () s1"
      unfolding ttyoutput_def two ttyoutput_f.simps(2) [of "Suc 0"]
      by (simp only: krun(3) krun_tty(1) s0_def [symmetric] s0(2) tab(1) simp_thms if_False Let_def if_not_P [OF tab(2)] if_P [OF tab(3)] p)
    with e tab show ?thesis unfolding s0_def using emits_count by (auto simp: render_def Let_def)
  next
    case other
    from ttyoutput_cooked [OF qs refl other, of 0] show ?thesis unfolding ttyoutput_def two .
  qed
qed

end
