(* ===== verification/Tty_Inv.thy ===== *)
theory Tty_Inv
  imports Tty_Out
begin

text \<open>
  The invariant of a terminal's input side and the interface of its driver. \<open>tty_ok\<close>: the queues are sound,
  the raw queue is bounded, its characters are seven bits wide or delimiters, no two delimiters are adjacent,
  \<^verbatim>\<open>t_delct\<close> (a \<^verbatim>\<open>char\<close>, which 128 lines overflow) is their number modulo 256, and the column is a \<^verbatim>\<open>char\<close>. The locale
  \<open>tty_driver\<close> states what the line discipline relies on when it calls the driver; inside
  it, \<^verbatim>\<open>ttyinput\<close> is shown to keep the invariant.
\<close>

section \<open>The invariant\<close>

fun spaced :: "int list \<Rightarrow> bool" where
  "spaced (a # b # cs) \<longleftrightarrow> \<not> (a = 255 \<and> b = 255) \<and> spaced (b # cs)"
| "spaced cs \<longleftrightarrow> True"

definition raw_ok :: "int \<Rightarrow> int list \<Rightarrow> bool" where
  "raw_ok delct cs \<longleftrightarrow> (\<forall>c\<in>set cs. 0 \<le> c \<and> (c < 128 \<or> c = 255)) \<and> spaced cs \<and> int (length cs) \<le> TTYHOG + 2 \<and>
     delct = cchar (int (count_list cs 255))"

definition tty_ok :: "nat \<Rightarrow> ('h, 'a) tst_scheme \<Rightarrow> bool" where
  "tty_ok tp s \<longleftrightarrow> (\<exists>C. ttyqs s C \<and> raw_ok (t_delct (ttys s tp)) (C (tp, Rawq))) \<and> cchar (t_col (ttys s tp)) = t_col (ttys s tp)"

lemma spaced_snoc: "spaced (cs @ [a]) \<longleftrightarrow> spaced cs \<and> (cs = [] \<or> \<not> (last cs = 255 \<and> a = 255))"
  by (induction cs rule: spaced.induct) auto

lemma spaced_tl: "spaced (c # cs) \<Longrightarrow> spaced cs"
  by (cases cs) auto

lemma spaced_count: "spaced cs \<Longrightarrow> 2 * count_list cs 255 \<le> length cs + (if cs \<noteq> [] \<and> hd cs = 255 then 1 else 0)"
  by (induction cs rule: spaced.induct) (auto split: if_splits)

text \<open>The count does not wrap round to zero: \<^verbatim>\<open>t_delct\<close> is zero exactly when no line is complete.\<close>

lemma delct_zero:
  assumes "raw_ok delct cs"
  shows "delct = 0 \<longleftrightarrow> 255 \<notin> set cs"
proof -
  have "2 * count_list cs 255 \<le> 259"
    using assms spaced_count [of cs] by (simp add: raw_ok_def TTYHOG_def split: if_splits)
  then consider "int (count_list cs 255) < 128" | "count_list cs 255 = 128" | "count_list cs 255 = 129" by linarith
  then have "cchar (int (count_list cs 255)) = 0 \<longleftrightarrow> count_list cs 255 = 0"
    by cases (simp_all add: cchar_def)
  then show ?thesis using assms by (simp add: raw_ok_def count_list_0_iff)
qed

lemma raw_ok_nil: "raw_ok 0 []"
  by (simp add: raw_ok_def TTYHOG_def)

lemma raw_ok_char:
  "raw_ok k cs \<Longrightarrow> int (length cs) \<le> TTYHOG + 1 \<Longrightarrow> 0 \<le> c \<Longrightarrow> c < 128 \<Longrightarrow> raw_ok k (cs @ [c])"
  by (auto simp: raw_ok_def spaced_snoc)

lemma raw_ok_delim:
  "raw_ok k cs \<Longrightarrow> int (length cs) \<le> TTYHOG + 1 \<Longrightarrow> cs = [] \<or> last cs \<noteq> 255 \<Longrightarrow> raw_ok (cchar (k + 1)) (cs @ [255])"
proof -
  assume "raw_ok k cs" "int (length cs) \<le> TTYHOG + 1" "cs = [] \<or> last cs \<noteq> 255"
  moreover have "cchar (int (count_list (cs @ [255]) 255)) = cchar (cchar (int (count_list cs 255)) + 1)"
    unfolding cchar_add by (simp add: add.commute)
  ultimately show ?thesis by (auto simp: raw_ok_def spaced_snoc simp del: count_list.simps)
qed

lemma take_line_raw:
  "raw_ok k cs \<Longrightarrow> take_line t rb cs = (rb', rest, hit) \<Longrightarrow> raw_ok (if hit then cchar (k - 1) else k) rest"
proof (induction cs arbitrary: rb k)
  case (Cons c cs)
  have next_ok: "raw_ok (if c = 255 then cchar (k - 1) else k) cs"
    using Cons.prems(1) spaced_tl [of c cs] cchar_add [of "int (count_list cs 255) + 1" "- 1"] by (auto simp: raw_ok_def add.commute)
  then show ?case using Cons by (auto split: if_splits)
qed simp

section \<open>Flushing a queue\<close>

lemma drain_empties:
  "ttyqs s C \<Longrightarrow> length (C (tp, k)) < n \<Longrightarrow>
     \<exists>q m. drain n k tp s = Ok () (tq_store k tp (q, m) s) \<and> ttyqs (tq_store k tp (q, m) s) (C((tp, k) := []))"
proof (induction n arbitrary: s C)
  case (Suc n)
  show ?case
  proof (cases "C (tp, k)")
    case Nil
    have "tq_set k (tq k (ttys s tp)) (ttys s tp) = ttys s tp" by (cases k) auto
    then have same: "tq_store k tp (tq k (ttys s tp), clm s) s = s" by (simp add: tq_store_def)
    have "drain (Suc n) k tp s = Ok () s" by (simp add: kbind_Ok [of "tgetc k tp", OF tgetc_nil [OF Suc.prems(1) Nil]] kret_def)
    with same Nil Suc.prems(1) show ?thesis by (metis fun_upd_triv)
  next
    case (Cons c cs)
    from tgetc_cons [OF Suc.prems(1) Cons] obtain q m where get: "tgetc k tp s = Ok c (tq_store k tp (q, m) s)"
      and qs: "ttyqs (tq_store k tp (q, m) s) (C((tp, k) := cs))" .
    have again: "tq_store k tp r (tq_store k tp r' s) = tq_store k tp r s" for r r'
      by (cases k) (simp_all add: tq_store_def)
    have "drain (Suc n) k tp s = drain n k tp (tq_store k tp (q, m) s)"
      using ttyqsD(2) [OF Suc.prems(1), of "(tp, k)"] Cons by (simp add: kbind_Ok [of "tgetc k tp", OF get])
    with Suc.IH [OF qs] Suc.prems(2) Cons show ?thesis by (simp add: again fun_upd_same del: drain.simps fun_upd_apply)
  qed
qed simp

lemma flush_queue_empties:
  assumes "ttyqs s C"
  shows "\<exists>q m. flush_queue k tp s = Ok () (tq_store k tp (q, m) s) \<and> ttyqs (tq_store k tp (q, m) s) (C((tp, k) := []))"
  using drain_empties [OF assms, of tp k "Suc (length (C (tp, k)))"] ttyqs_len [OF assms, of k tp]
  by (simp add: flush_queue_def tcc_def krun del: drain.simps)

section \<open>The driver interface\<close>

text \<open>What a driver's routine may do to the terminal: take characters from the front of the output queue and change the
  transmission flags.\<close>

definition same_line :: "nat \<Rightarrow> ('h, 'a) tst_scheme \<Rightarrow> ('h, 'a) tst_scheme \<Rightarrow> bool" where
  "same_line tp s s' \<longleftrightarrow> canonb s' = canonb s \<and> u s' = u s \<and> umem s' = umem s \<and> (\<forall>i. i \<noteq> tp \<longrightarrow> ttys s' i = ttys s i) \<and>
     (let t = ttys s tp; t' = ttys s' tp in
      t_flags t' = t_flags t \<and> t_tc t' = t_tc t \<and> t_erase t' = t_erase t \<and> t_kill t' = t_kill t \<and> t_chan t' = t_chan t \<and>
      t_pgrp t' = t_pgrp t \<and> t_addr t' = t_addr t \<and> t_delct t' = t_delct t \<and> t_col t' = t_col t \<and>
      t_state t' - {TIMEOUT, BUSY, ASLEEP} = t_state t - {TIMEOUT, BUSY, ASLEEP})"

definition drv_step :: "nat \<Rightarrow> ('h, 'a) tst_scheme \<Rightarrow> (nat \<times> tqueue \<Rightarrow> int list) \<Rightarrow> ('h, 'a) tst_scheme \<Rightarrow> bool" where
  "drv_step tp s C s' \<longleftrightarrow> same_line tp s s' \<and> (\<exists>out. suffix out (C (tp, Outq)) \<and> ttyqs s' (C((tp, Outq) := out)))"

text \<open>A condition on the state that holds when the routine returns; it does not sleep, and the machine may panic.\<close>

abbreviation ksafe :: "('s \<Rightarrow> bool) \<Rightarrow> ('b, 's) kres \<Rightarrow> bool" where
  "ksafe I r \<equiv> kpost r (\<lambda>_. I) (\<lambda>_ _ _. False) (\<lambda>_ _. True)"

abbreviation kgives :: "('b \<Rightarrow> 's \<Rightarrow> bool) \<Rightarrow> ('b, 's) kres \<Rightarrow> bool" where
  "kgives Q r \<equiv> kpost r Q (\<lambda>_ _ _. False) (\<lambda>_ _. True)"

lemma ksafe_thenI: "ksafe I (m s) \<Longrightarrow> (\<And>t. I t \<Longrightarrow> kgives Q (n t)) \<Longrightarrow> kgives Q (kthen m n s)"
  by (erule kpost_thenI) auto

lemma ksafe_bindI: "kgives Q' (m s) \<Longrightarrow> (\<And>x t. Q' x t \<Longrightarrow> kgives Q (f x t)) \<Longrightarrow> kgives Q (kbind m f s)"
  by (erule kpost_bindI) auto

lemma kpost_ifI: "(b \<Longrightarrow> kpost (m s) Q S P) \<Longrightarrow> (\<not> b \<Longrightarrow> kpost (n s) Q S P) \<Longrightarrow> kpost ((if b then m else n) s) Q S P"
  by simp

lemma ksafe_when: "I s \<Longrightarrow> (b \<Longrightarrow> ksafe I (m s)) \<Longrightarrow> ksafe I (kwhen b m s)"
  by simp

lemma kpost_tget [simp]: "kpost (tget tp f s) Q S P = Q (f (ttys s tp)) s"
  by (simp add: tget_def)

lemma kpost_tmod [simp]: "kpost (tmod tp h s) Q S P = Q () (s\<lparr>ttys := (ttys s)(tp := h (ttys s tp))\<rparr>)"
  by (simp add: tmod_def)

lemma kpost_flag [simp]:
  "kpost (tset tp f s) Q S P = Q () (s\<lparr>ttys := (ttys s)(tp := (ttys s tp)\<lparr>t_state := insert f (t_state (ttys s tp))\<rparr>)\<rparr>)"
  "kpost (tclr tp f s) Q S P = Q () (s\<lparr>ttys := (ttys s)(tp := (ttys s tp)\<lparr>t_state := t_state (ttys s tp) - {f}\<rparr>)\<rparr>)"
  by (simp_all add: tset_def tclr_def)

text \<open>The invariant with the terminal's settings.\<close>

definition tty_at :: "nat \<Rightarrow> int \<Rightarrow> tc \<Rightarrow> ('h, 'a) tst_scheme \<Rightarrow> bool" where
  "tty_at tp fl tc s \<longleftrightarrow> tty_ok tp s \<and> t_flags (ttys s tp) = fl \<and> t_tc (ttys s tp) = tc"

lemma tty_atI:
  assumes "ttyqs s' C" "raw_ok (t_delct (ttys s' tp)) (C (tp, Rawq))" "cchar (t_col (ttys s' tp)) = t_col (ttys s' tp)"
    "t_flags (ttys s' tp) = fl" "t_tc (ttys s' tp) = tc"
  shows "tty_at tp fl tc s'"
  using assms by (auto simp: tty_at_def tty_ok_def)

lemma tty_atE:
  assumes "tty_at tp fl tc s"
  obtains C where "ttyqs s C" "raw_ok (t_delct (ttys s tp)) (C (tp, Rawq))" "cchar (t_col (ttys s tp)) = t_col (ttys s tp)"
    "t_flags (ttys s tp) = fl" "t_tc (ttys s tp) = tc"
  using assms by (auto simp: tty_at_def tty_ok_def)

lemma tty_at_log [simp]: "tty_at tp fl tc (s\<lparr>klog := l\<rparr>) = tty_at tp fl tc s" "tty_at tp fl tc (s\<lparr>tk_nin := n\<rparr>) = tty_at tp fl tc s"
  by (simp_all add: tty_at_def tty_ok_def ttyqs_def)

lemma tty_at_upd [simp]:
  assumes "\<forall>k. tq k t' = tq k (ttys s tp)" "t_delct t' = t_delct (ttys s tp)" "t_col t' = t_col (ttys s tp)"
    "t_flags t' = t_flags (ttys s tp)" "t_tc t' = t_tc (ttys s tp)"
  shows "tty_at tp fl tc (s\<lparr>ttys := (ttys s)(tp := t')\<rparr>) = tty_at tp fl tc s"
proof -
  have q: "ttyqs (s\<lparr>ttys := (ttys s)(tp := t')\<rparr>) C = ttyqs s C" for C
    by (rule ttyqs_same_queues) (use assms(1) in auto)
  show ?thesis unfolding tty_at_def tty_ok_def q using assms by simp
qed

lemma tty_at_store:
  assumes "tty_at tp fl tc s" "ttyqs (tq_store k tp r s) (C(( tp, k) := xs))" "k \<noteq> Rawq" "ttyqs s C" "raw_ok (t_delct (ttys s tp)) (C (tp, Rawq))"
  shows "tty_at tp fl tc (tq_store k tp r s)"
  by (rule tty_atI [OF assms(2)]) (use assms in \<open>auto simp: tq_store_def elim: tty_atE\<close>)

lemma tputc_out_at:
  assumes "tty_at tp fl tc s"
  shows "ksafe (tty_at tp fl tc) (tputc c Outq tp s)"
proof -
  from assms obtain C where C: "ttyqs s C" "raw_ok (t_delct (ttys s tp)) (C (tp, Rawq))" by (rule tty_atE)
  from C(1) show ?thesis
  proof (cases rule: tputc_cases [where c = c and k = Outq and tp = tp])
    case (stored q m)
    with tty_at_store [OF assms stored(2) _ C] show ?thesis by simp
  next
    case (refused q m)
    with tty_at_store [OF assms, of Outq "(q, m)" C "C (tp, Outq)"] C show ?thesis by simp
  qed
qed

lemma flush_queue_at:
  assumes "tty_at tp fl tc s" "k \<noteq> Rawq"
  shows "ksafe (tty_at tp fl tc) (flush_queue k tp s)"
proof -
  from assms obtain C where C: "ttyqs s C" "raw_ok (t_delct (ttys s tp)) (C (tp, Rawq))" by (auto elim: tty_atE)
  from flush_queue_empties [OF C(1), of k tp] tty_at_store [OF assms(1) _ assms(2) C] show ?thesis by fastforce
qed

lemma flush_raw_at:
  assumes "tty_at tp fl tc s"
  shows "ksafe (tty_at tp fl tc) (kthen (flush_queue Rawq tp) (tmod tp (\<lambda>t. t\<lparr>t_delct := 0\<rparr>)) s)"
proof -
  from assms obtain C where C: "ttyqs s C" "cchar (t_col (ttys s tp)) = t_col (ttys s tp)"
    "t_flags (ttys s tp) = fl" "t_tc (ttys s tp) = tc" by (rule tty_atE)
  from flush_queue_empties [OF C(1), of Rawq tp] obtain q m where
    f: "flush_queue Rawq tp s = Ok () (tq_store Rawq tp (q, m) s)" "ttyqs (tq_store Rawq tp (q, m) s) (C((tp, Rawq) := []))" by blast
  define s1 where "s1 = tq_store Rawq tp (q, m) s"
  have s1: "ttyqs s1 (C((tp, Rawq) := []))" "t_col (ttys s1 tp) = t_col (ttys s tp)" "t_flags (ttys s1 tp) = fl" "t_tc (ttys s1 tp) = tc"
    using f(2) C by (simp_all add: s1_def) (simp_all add: tq_store_raw)
  have "ttyqs (s1\<lparr>ttys := (ttys s1)(tp := (ttys s1 tp)\<lparr>t_delct := 0\<rparr>)\<rparr>) (C((tp, Rawq) := [])) = ttyqs s1 (C((tp, Rawq) := []))"
    by (rule ttyqs_same_queues) auto
  with s1 C(2) raw_ok_nil have "tty_at tp fl tc (s1\<lparr>ttys := (ttys s1)(tp := (ttys s1 tp)\<lparr>t_delct := 0\<rparr>)\<rparr>)"
    by (intro tty_atI [where C = "C((tp, Rawq) := [])"]) simp_all
  with f(1) show ?thesis by (simp add: s1_def)
qed

text \<open>The column stays a \<^verbatim>\<open>char\<close>.\<close>

definition col_ok :: "'b \<times> int \<Rightarrow> bool" where
  "col_ok r \<longleftrightarrow> cchar (snd r) = snd r"

lemma cchar_idem [simp]: "cchar (cchar x) = cchar x"
  using cchar_add [of x 0] by simp

lemma col_okI: "cchar x = x \<Longrightarrow> col_ok (w, x)" "col_ok (w, cchar x)" "col_ok (w, 0)"
  "col_ok r \<Longrightarrow> col_ok r' \<Longrightarrow> col_ok (if b then r else r')"
  by (simp_all add: col_ok_def)

lemma out_delay_col: "cchar col = col \<Longrightarrow> col_ok (out_delay fl col c)"
  unfolding out_delay_def Let_def by (intro col_okI; (assumption | simp add: col_ok_def)?)

lemma render1_col: "cchar col = col \<Longrightarrow> col_ok (render1 fl col c)"
  using out_delay_col [of col fl c] by (cases "out_delay fl col c") (simp add: render1_def col_ok_def)

lemma render_seq_col: "col_ok r \<Longrightarrow> (\<And>x. cchar x = x \<Longrightarrow> col_ok (f x)) \<Longrightarrow> col_ok (render_seq r f)"
  by (simp add: col_ok_def render_seq_def)

lemma render_col: "cchar col = col \<Longrightarrow> col_ok (render fl col c)"
  unfolding render_def Let_def by (intro col_okI render_seq_col render1_col; assumption?)

lemma ttyoutput_at:
  assumes "tty_at tp fl tc s"
  shows "ksafe (tty_at tp fl tc) (ttyoutput c tp s)"
proof -
  from assms obtain C where C: "ttyqs s C" "raw_ok (t_delct (ttys s tp)) (C (tp, Rawq))" "cchar (t_col (ttys s tp)) = t_col (ttys s tp)"
    "t_flags (ttys s tp) = fl" "t_tc (ttys s tp) = tc" by (rule tty_atE)
  from ttyoutput_renders_char [OF C(1), of c tp] obtain s' ys where
    r: "ttyoutput c tp s = Ok () s'" "out_frame tp (snd (render fl (t_col (ttys s tp)) c)) s s'"
    "ttyqs s' (C((tp, Outq) := C (tp, Outq) @ ys))" unfolding emits_def C(4) by blast
  have "tty_at tp fl tc s'"
    by (rule tty_atI [OF r(3)]) (use C out_frame_fields [OF r(2)] render_col [OF C(3)] in \<open>simp_all add: col_ok_def\<close>)
  with r(1) show ?thesis by simp
qed

section \<open>Queueing an input character\<close>

text \<open>A delimiter may follow: the last character is not one, or the queue takes no more characters.\<close>

definition delim_ready :: "nat \<Rightarrow> ('h, 'a) tst_scheme \<Rightarrow> bool" where
  "delim_ready tp s \<longleftrightarrow>
     (\<exists>C. ttyqs s C \<and> raw_ok (t_delct (ttys s tp)) (C (tp, Rawq)) \<and> int (length (C (tp, Rawq))) \<le> TTYHOG + 1 \<and>
        (C (tp, Rawq) = [] \<or> last (C (tp, Rawq)) \<noteq> 255)) \<or>
     (\<forall>x. fst (putc x (t_rawq (ttys s tp)) (clm s)) = -1)"

lemma putc_refused_any: "putc c q m = (-1, q', m') \<Longrightarrow> q' = q \<and> fst (putc x q m') = -1"
  by (auto simp: putc_def putc_at_def Let_def cfree_get_def split: if_splits)

lemma tputc_raw_at:
  assumes "tty_at tp fl tc s" "c_cc (t_rawq (ttys s tp)) \<le> TTYHOG" "0 \<le> c" "c < 128"
  shows "kgives (\<lambda>_ s'. tty_at tp fl tc s' \<and> delim_ready tp s') (tputc c Rawq tp s)"
proof -
  from assms(1) obtain C where C: "ttyqs s C" "raw_ok (t_delct (ttys s tp)) (C (tp, Rawq))" "cchar (t_col (ttys s tp)) = t_col (ttys s tp)"
    "t_flags (ttys s tp) = fl" "t_tc (ttys s tp) = tc" by (rule tty_atE)
  have len: "int (length (C (tp, Rawq))) \<le> TTYHOG" using assms(2) ttyqs_cc(1) [OF C(1), of tp] by simp
  from C(1) show ?thesis
  proof (cases rule: tputc_cases [where c = c and k = Rawq and tp = tp])
    case (stored q m)
    let ?s = "tq_store Rawq tp (q, m) s" and ?C = "C((tp, Rawq) := C (tp, Rawq) @ [c])"
    have q: "ttyqs ?s ?C" using stored(2) assms(3,4) by simp
    have f: "t_delct (ttys ?s tp) = t_delct (ttys s tp)" "t_col (ttys ?s tp) = t_col (ttys s tp)" "t_flags (ttys ?s tp) = fl" "t_tc (ttys ?s tp) = tc"
      using C(4,5) by (simp_all add: tq_store_raw)
    have r: "raw_ok (t_delct (ttys ?s tp)) (?C (tp, Rawq))" unfolding f using raw_ok_char [OF C(2)] len assms(3,4) by simp
    have "delim_ready tp ?s" unfolding delim_ready_def using q r len assms(4) by (intro disjI1 exI [of _ ?C]) simp
    moreover have "tty_at tp fl tc ?s" by (rule tty_atI [OF q r]) (simp_all add: f C(3))
    ultimately show ?thesis using stored(1) by simp
  next
    case (refused q m)
    let ?s = "tq_store Rawq tp (q, m) s"
    have f: "t_delct (ttys ?s tp) = t_delct (ttys s tp)" "t_col (ttys ?s tp) = t_col (ttys s tp)" "t_flags (ttys ?s tp) = fl" "t_tc (ttys ?s tp) = tc"
      "t_rawq (ttys ?s tp) = q" "clm ?s = m"
      using C(4,5) by (simp_all add: tq_store_raw)
    have "fst (putc c (t_rawq (ttys s tp)) (clm s)) = -1" using refused(1) by (simp add: tputc_def Let_def)
    moreover have "tq_store Rawq tp (snd (putc c (t_rawq (ttys s tp)) (clm s))) s = ?s" using refused(1) by (simp add: tputc_def Let_def)
    then have "clm (tq_store Rawq tp (snd (putc c (t_rawq (ttys s tp)) (clm s))) s) = m"
      "t_rawq (ttys (tq_store Rawq tp (snd (putc c (t_rawq (ttys s tp)) (clm s))) s) tp) = q" using f by simp_all
    then have "snd (putc c (t_rawq (ttys s tp)) (clm s)) = (q, m)" by (simp add: tq_store_def prod_eq_iff)
    ultimately have "putc c (t_rawq (ttys s tp)) (clm s) = (-1, q, m)" by (simp add: prod_eq_iff)
    then have "delim_ready tp ?s" unfolding delim_ready_def f using putc_refused_any by blast
    moreover have "tty_at tp fl tc ?s" by (rule tty_atI [OF refused(2)]) (simp_all add: f C)
    ultimately show ?thesis using refused(1) by simp
  qed
qed

lemma delim_at:
  assumes "tty_at tp fl tc s" "delim_ready tp s"
  shows "ksafe (tty_at tp fl tc) (kbind (tputc 255 Rawq tp) (\<lambda>r. kwhen (r = 0) (tmod tp (\<lambda>t. t\<lparr>t_delct := cchar (t_delct t + 1)\<rparr>))) s)"
proof -
  have keep: "ksafe (tty_at tp fl tc) (kbind (tputc 255 Rawq tp) (\<lambda>r. kwhen (r = 0) f) s)"
    if "tputc 255 Rawq tp s = Ok (-1) (tq_store Rawq tp (q, m) s)" "ttyqs (tq_store Rawq tp (q, m) s) C"
      "raw_ok (t_delct (ttys s tp)) (C (tp, Rawq))" for q m C f
  proof -
    have "tty_at tp fl tc (tq_store Rawq tp (q, m) s)"
      by (rule tty_atI [OF that(2)]) (use assms(1) that(3) in \<open>auto simp: tq_store_raw elim: tty_atE\<close>)
    with that(1) show ?thesis by simp
  qed
  from assms(2) consider (room) C where "ttyqs s C" "raw_ok (t_delct (ttys s tp)) (C (tp, Rawq))" "int (length (C (tp, Rawq))) \<le> TTYHOG + 1"
      "C (tp, Rawq) = [] \<or> last (C (tp, Rawq)) \<noteq> 255"
    | (full) "fst (putc 255 (t_rawq (ttys s tp)) (clm s)) = -1" unfolding delim_ready_def by blast
  then show ?thesis
  proof cases
    case room
    from room(1) show ?thesis
    proof (cases rule: tputc_cases [where c = 255 and k = Rawq and tp = tp])
      case (stored q m)
      define s1 where "s1 = tq_store Rawq tp (q, m) s"
      let ?t = "(ttys s1 tp)\<lparr>t_delct := cchar (t_delct (ttys s1 tp) + 1)\<rparr>" and ?C = "C((tp, Rawq) := C (tp, Rawq) @ [255])"
      have f: "t_delct (ttys s1 tp) = t_delct (ttys s tp)" "t_col (ttys s1 tp) = t_col (ttys s tp)" "t_flags (ttys s1 tp) = fl" "t_tc (ttys s1 tp) = tc"
        using assms(1) by (auto simp: s1_def tq_store_raw elim: tty_atE)
      have q: "ttyqs (s1\<lparr>ttys := (ttys s1)(tp := ?t)\<rparr>) ?C = ttyqs s1 ?C" by (rule ttyqs_same_queues) auto
      have "tty_at tp fl tc (s1\<lparr>ttys := (ttys s1)(tp := ?t)\<rparr>)"
        by (rule tty_atI [where C = ?C]) (use stored(2) q f raw_ok_delim [OF room(2-4)] assms(1) in \<open>auto simp: s1_def [symmetric] elim: tty_atE\<close>)
      with stored(1) show ?thesis by (simp add: s1_def)
    next
      case (refused q m)
      from keep [OF refused(1,2) room(2)] show ?thesis .
    qed
  next
    case full
    from assms(1) obtain C where C: "ttyqs s C" "raw_ok (t_delct (ttys s tp)) (C (tp, Rawq))" by (rule tty_atE)
    from C(1) show ?thesis
    proof (cases rule: tputc_cases [where c = 255 and k = Rawq and tp = tp])
      case (stored q m)
      with full show ?thesis by (simp add: tputc_def Let_def)
    next
      case (refused q m)
      from keep [OF refused(1,2) C(2)] show ?thesis .
    qed
  qed
qed

locale tty_driver =
  fixes d :: "('h, 'a) tst_scheme tdrv"
  assumes oproc_step: "ttyqs s C \<Longrightarrow> kpost (t_oproc d tp s) (\<lambda>_. drv_step tp s C) (\<lambda>_ _ _. False) (\<lambda>_ _. True)"
    and stop_step: "ttyqs s C \<Longrightarrow> kpost (d_stop d tp s) (\<lambda>_. drv_step tp s C) (\<lambda>_ _ _. False) (\<lambda>_ _. True)"
begin

lemma step_at:
  assumes "tty_at tp fl tc s" "\<And>C. ttyqs s C \<Longrightarrow> kpost r (\<lambda>_. drv_step tp s C) (\<lambda>_ _ _. False) (\<lambda>_ _. True)"
  shows "ksafe (tty_at tp fl tc) r"
proof -
  from assms(1) obtain C where C: "ttyqs s C" "raw_ok (t_delct (ttys s tp)) (C (tp, Rawq))" "cchar (t_col (ttys s tp)) = t_col (ttys s tp)"
    "t_flags (ttys s tp) = fl" "t_tc (ttys s tp) = tc" by (rule tty_atE)
  have "tty_at tp fl tc s'" if "drv_step tp s C s'" for s'
  proof -
    from that obtain out where out: "ttyqs s' (C((tp, Outq) := out))" and same: "same_line tp s s'" by (auto simp: drv_step_def)
    show ?thesis by (rule tty_atI [OF out]) (use C same in \<open>simp_all add: same_line_def Let_def\<close>)
  qed
  then show ?thesis using assms(2) [OF C(1)] by (auto elim!: kpost_weaken)
qed

lemma oproc_at: "tty_at tp fl tc s \<Longrightarrow> ksafe (tty_at tp fl tc) (t_oproc d tp s)"
  by (erule step_at) (rule oproc_step)

lemma stop_at: "tty_at tp fl tc s \<Longrightarrow> ksafe (tty_at tp fl tc) (d_stop d tp s)"
  by (erule step_at) (rule stop_step)

lemma ttstart_at: "tty_at tp fl tc s \<Longrightarrow> ksafe (tty_at tp fl tc) (ttstart d tp s)"
  by (simp add: ttstart_def oproc_at)

lemma flushtty_at:
  assumes "tty_at tp fl tc s"
  shows "ksafe (tty_at tp fl tc) (flushtty d tp s)"
proof -
  note seq = ksafe_thenI [where I = "tty_at tp fl tc :: ('h, 'a) tst_scheme \<Rightarrow> bool"]
  show ?thesis
    unfolding flushtty_def
    by (rule seq, rule flush_queue_at [OF assms], simp, rule seq, simp, rule seq, simp, rule seq, simp,
        rule seq, erule stop_at, rule seq, erule flush_queue_at, simp, erule flush_raw_at)
qed

lemma ttyblock_at:
  assumes "tty_at tp fl tc s"
  shows "ksafe (tty_at tp fl tc) (ttyblock d tp s)"
proof -
  let ?I = "tty_at tp fl tc"
  have flush: "ksafe ?I (kwhen b (kthen (flushtty d tp) (tclr tp TBLOCK)) s)" for b
    by (rule ksafe_when [where I = ?I, OF assms], rule ksafe_thenI [where I = ?I], rule flushtty_at [OF assms]) simp
  have put: "ksafe ?I (kbind (tputc c Outq tp) (\<lambda>r. kwhen (r = 0) (kthen (tset tp TBLOCK)
      (kthen (tmod tp (\<lambda>t. t\<lparr>t_char := cchar (t_char t + 1)\<rparr>)) (ttstart d tp)))) t)" if "?I t" for c t
    by (rule ksafe_bindI [where Q = "\<lambda>_. ?I"], rule tputc_out_at [OF that], rule ksafe_when [where I = ?I])
      (auto intro!: ttstart_at)
  show ?thesis
    unfolding ttyblock_def kpost_bind kpost_tget Let_def
    by (rule ksafe_thenI [where I = ?I], rule flush, rule ksafe_when [where I = ?I], assumption, rule put)
qed

lemma tty_echo_at:
  assumes "tty_at tp fl tc s"
  shows "ksafe (tty_at tp fl tc) (tty_echo d fl' c tp s)"
proof -
  let ?I = "tty_at tp fl tc"
  show ?thesis
    unfolding tty_echo_def
    by (rule ksafe_when [where I = ?I, OF assms], rule ksafe_thenI [where I = ?I], rule ttyoutput_at [OF assms],
        unfold kpost_bind kpost_tget, rule ksafe_thenI [where I = ?I], rule ksafe_when [where I = ?I], assumption,
        erule ttyoutput_at, erule ttstart_at)
qed

text \<open>The special characters: a character that is not used up is passed on as seven bits.\<close>

lemma tty_cooked_at:
  assumes "tty_at tp fl tc s" "0 \<le> c" "c < 128"
  shows "kgives (\<lambda>r s'. tty_at tp fl tc s' \<and> (\<forall>x. r = Some x \<longrightarrow> 0 \<le> x \<and> x < 128)) (tty_cooked d fl' c tp s)" (is "kgives ?Q _")
proof -
  let ?I = "tty_at tp fl tc" and ?t = "ttys s tp"
  note seq = ksafe_thenI [where I = ?I]
  have start: "ksafe ?I (kthen (tclr tp TTSTOP) (ttstart d tp) s)"
    by (rule seq) (use assms(1) in \<open>auto intro!: ttstart_at\<close>)
  have signal: "kgives ?Q (kbind (tget tp (\<lambda>x. x)) (\<lambda>t. kthen (case t_chan t of Some cp \<Rightarrow> scontrol cp M_SIG g | None \<Rightarrow> ksignal (t_pgrp t) g) (kret None)) t)"
    if "?I t" for g t
    unfolding kpost_bind kpost_tget
    by (rule seq) (use that in \<open>auto simp: scontrol_def ksignal_def split: option.split\<close>)
  have go: "ksafe ?I (kwhen (TTSTOP \<in> t_state ?t) (kthen (tclr tp TTSTOP) (ttstart d tp)) s)"
    by (rule ksafe_when [where I = ?I, OF assms(1)]) (rule start)
  show ?thesis
    unfolding tty_cooked_def kpost_bind kpost_tget Let_def id_apply
    apply (rule kpost_ifI)
     apply (rule seq, use assms(1) in simp, rule seq, erule ttstart_at, simp)
    apply (rule kpost_ifI, use assms(1) in simp)
    apply (rule kpost_ifI)
     apply (rule seq, use assms(1) in simp, rule seq, erule stop_at, simp)
    apply (rule kpost_ifI, use assms(1) in simp)
    apply (rule seq, rule go)
    apply (rule kpost_ifI)
     apply (rule seq, erule flushtty_at, erule signal)
    apply (use assms(2,3) in simp)
    done
qed

lemma tty_queue_at:
  assumes "tty_at tp fl tc s" "0 \<le> c" "c < 128"
  shows "ksafe (tty_at tp fl tc) (tty_queue d fl' c tp s)"
proof -
  let ?I = "tty_at tp fl tc"
  define c' where "c' = (if fl' AND LCASE \<noteq> 0 \<and> 65 \<le> c \<and> c \<le> 90 then c + 32 else c)"
  have c': "0 \<le> c'" "c' < 128" using assms(2,3) by (simp_all add: c'_def)
  have wake: "ksafe ?I (kbind (tget tp t_chan) (\<lambda>cp. case cp of Some cp \<Rightarrow> sdata cp | None \<Rightarrow> kwakeup (Ch_rawq tp)) t)" if "?I t" for t
    using that by (simp add: sdata_def split: option.split)
  have delim: "ksafe ?I (kwhen b (kbind (tputc 255 Rawq tp) (\<lambda>r. kwhen (r = 0) (tmod tp (\<lambda>t. t\<lparr>t_delct := cchar (t_delct t + 1)\<rparr>)))) t)"
    if "?I t \<and> delim_ready tp t" for b t
    by (rule ksafe_when [where I = ?I, OF conjunct1 [OF that]], rule delim_at [OF conjunct1 [OF that] conjunct2 [OF that]])
  show ?thesis
    unfolding tty_queue_def tcc_def c'_def [symmetric] Let_def kpost_bind kpost_tget tq.simps
    apply (rule kpost_ifI, rule flushtty_at [OF assms(1)])
    apply (rule ksafe_bindI [where Q' = "\<lambda>_ t. ?I t \<and> delim_ready tp t"])
     apply (rule tputc_raw_at [OF assms(1) _ c'], simp)
    apply (unfold kpost_bind kpost_tget)
    apply (rule ksafe_thenI [where I = ?I])
     apply (rule ksafe_when [where I = ?I], simp)
     apply (rule ksafe_thenI [where I = ?I], erule delim, rule wake, assumption)
    apply (erule tty_echo_at)
    done
qed

lemma ttyinput_at:
  assumes "tty_at tp fl tc s" "fl AND RAW = 0"
  shows "ksafe (tty_at tp fl tc) (ttyinput d c tp s)"
proof -
  let ?I = "tty_at tp fl tc"
  let ?s = "s\<lparr>tk_nin := cint (tk_nin s + 1)\<rparr>"
  have fl: "t_flags (ttys ?s tp) = fl" using assms(1) by (auto elim: tty_atE)
  have c: "0 \<le> (c AND 255) AND 127" "(c AND 255) AND 127 < 128" by (simp_all add: and_low)
  have block: "ksafe ?I (kwhen b (ttyblock d tp) ?s)" for b
    by (rule ksafe_when [where I = ?I]) (use assms(1) in \<open>auto intro: ttyblock_at\<close>)
  have run: "ttyinput d c tp s = kthen (kwhen (fl AND TANDEM \<noteq> 0) (ttyblock d tp))
      (kbind (tty_cooked d fl ((c AND 255) AND 127) tp) (\<lambda>r. case r of None \<Rightarrow> kret () | Some c \<Rightarrow> tty_queue d fl c tp)) ?s"
    unfolding ttyinput_def Let_def by (simp only: krun(3) krun_tty(1) fl if_P [OF assms(2)])
  show ?thesis
    unfolding run
    by (rule ksafe_thenI [where I = ?I], rule block, rule ksafe_bindI, rule tty_cooked_at [OF _ c], assumption)
      (auto intro: tty_queue_at split: option.split)
qed

end

end
