(* ===== verification/Sr_Props.thy ===== *)
theory Sr_Props
  imports Sr Tty_Inv
begin

text \<open>
  The serial driver under the line discipline: \<^verbatim>\<open>srstart\<close> meets the interface \<open>tty_driver\<close>, so \<^verbatim>\<open>ttyinput\<close> keeps the
  terminal's invariant on a serial line; output never stalls with characters queued; a writer that sleeps is woken
  when the queue has drained to the low-water mark.
\<close>

section \<open>The driver meets its interface\<close>

text \<open>Steps that leave the queues and the settings alone.\<close>

definition quiet :: "nat \<Rightarrow> ('h, 'a) tst_scheme \<Rightarrow> ('h, 'a) tst_scheme \<Rightarrow> bool" where
  "quiet tp s s' \<longleftrightarrow> same_line tp s s' \<and> (\<forall>i k. tq k (ttys s' i) = tq k (ttys s i)) \<and> clm s' = clm s"

lemma same_line_refl: "same_line tp s s"
  by (simp add: same_line_def Let_def)

lemma same_line_trans: "same_line tp s s' \<Longrightarrow> same_line tp s' s'' \<Longrightarrow> same_line tp s s''"
  by (simp add: same_line_def Let_def)

lemma quiet_refl: "quiet tp s s"
  by (simp add: quiet_def same_line_refl)

lemma quiet_trans: "quiet tp s s' \<Longrightarrow> quiet tp s' s'' \<Longrightarrow> quiet tp s s''"
  unfolding quiet_def using same_line_trans by metis

lemma drv_step_quiet: "drv_step tp s C s' \<Longrightarrow> quiet tp s' s'' \<Longrightarrow> drv_step tp s C s''"
  unfolding drv_step_def quiet_def using same_line_trans ttyqs_same_queues by metis

lemma drv_step_refl: "ttyqs s C \<Longrightarrow> drv_step tp s C s"
  unfolding drv_step_def by (intro conjI exI [of _ "C (tp, Outq)"]) (simp_all add: same_line_refl)

lemma quiet_upd:
  "quiet tp s (s\<lparr>callout := cs\<rparr>)" "quiet tp s (s\<lparr>hw := h\<rparr>)" "quiet tp s (s\<lparr>klog := l\<rparr>)"
  "quiet tp s (s\<lparr>ttys := (ttys s)(tp := (ttys s tp)\<lparr>t_char := c\<rparr>)\<rparr>)"
  "quiet tp s (s\<lparr>ttys := (ttys s)(tp := (ttys s tp)\<lparr>t_state := t_state (ttys s tp) - {ASLEEP}\<rparr>)\<rparr>)"
  "f \<in> {TIMEOUT, BUSY} \<Longrightarrow> quiet tp s (s\<lparr>ttys := (ttys s)(tp := (ttys s tp)\<lparr>t_state := insert f (t_state (ttys s tp))\<rparr>)\<rparr>)"
  by (auto simp: quiet_def same_line_def Let_def)

lemma timeout_callout:
  fixes s :: "'a clk_scheme"
  shows "kgives (\<lambda>_ s'. \<exists>cs. s' = s\<lparr>callout := cs\<rparr>) (timeout fn arg tim s)"
proof -
  have set: "kgives (\<lambda>_ s'. \<exists>cs. s' = s\<lparr>callout := cs\<rparr>) (set_callout cs s)" for cs
    unfolding set_callout_def kpost_mod by blast
  have off: "kgives Q (off_table s)" for Q :: "unit \<Rightarrow> 'a clk_scheme \<Rightarrow> bool" by (simp add: off_table_def)
  show ?thesis
  proof (cases "timeout_scan (callout s) tim 0")
    case None
    then show ?thesis unfolding timeout_def kpost_bind kpost_get by (simp only: option.case off)
  next
    case (Some r)
    obtain p1 t where r: "r = (p1, t)" by (cases r)
    show ?thesis
    proof (cases "p1 \<ge> NCALL - 1")
      case True
      then show ?thesis unfolding timeout_def kpost_bind kpost_get Some r by (simp add: kpanic_def)
    next
      case False
      then show ?thesis unfolding timeout_def kpost_bind kpost_get Some r option.case prod.case if_not_P [OF False] Let_def
        by (simp only: set off split: option.split if_split) simp
    qed
  qed
qed

lemma thre_wait_hw: "\<exists>b h. thre_wait p port n s = Ok b (s\<lparr>hw := h\<rparr>)"
proof (induction n arbitrary: s)
  case 0
  show ?case by (intro exI [of _ False] exI [of _ "hw s"]) (simp add: kret_def)
next
  case (Suc n)
  define r where "r = inb p (port + LSR) (hw s)"
  have run: "thre_wait p port (Suc n) s = (if fst r AND THRE \<noteq> 0 then Ok True (s\<lparr>hw := snd r\<rparr>) else thre_wait p port n (s\<lparr>hw := snd r\<rparr>))"
    by (simp add: kbind_def kinb_def Let_def kret_def r_def)
  from Suc [of "s\<lparr>hw := snd r\<rparr>"] obtain b h where "thre_wait p port n (s\<lparr>hw := snd r\<rparr>) = Ok b (s\<lparr>hw := h\<rparr>)" by auto
  then show ?case unfolding run by (cases "fst r AND THRE = 0") (simp_all only: simp_thms if_True if_False, blast+)
qed

text \<open>The two halves of \<^verbatim>\<open>srstart\<close> after it has taken the character \<open>c\<close>.\<close>

definition sr_send :: "'h ports \<Rightarrow> int \<Rightarrow> int \<Rightarrow> nat \<Rightarrow> (unit, ('h, 'a) tst_scheme) kmon" where
  "sr_send p fl c tp =
     (if c \<ge> 128 \<and> fl AND RAW = 0 then
        kthen (tset tp TIMEOUT) (timeout TTRSTRT (int tp) ((c AND 127) + 6))
      else
        kthen (tmod tp (\<lambda>t. t\<lparr>t_char := cchar c\<rparr>))
        (kthen (tset tp BUSY)
        (kbind (tget tp t_addr) (\<lambda>port.
         kbind (thre_wait p port 8192) (\<lambda>ready.
         kthen (kwhen (\<not> ready) (kprintf (''timeout in srstart'' @ [CHR 0x0A])))
         (koutb p (port + THR) c))))))"

definition sr_wake :: "nat \<Rightarrow> (unit, ('h, 'a) tst_scheme) kmon" where
  "sr_wake tp = kbind (tget tp id) (\<lambda>t.
     kwhen (c_cc (t_outq t) \<le> TTLOWAT \<and> ASLEEP \<in> t_state t)
       (kthen (tclr tp ASLEEP) (kwakeup (Ch_outq tp))))"

lemma srstart_cases:
  assumes "ttyqs s C"
  shows "srstart p tp s =
     (if t_state (ttys s tp) \<inter> {TIMEOUT, BUSY, TTSTOP} \<noteq> {} \<or> C (tp, Outq) = [] then Ok () s
      else kbind (tgetc Outq tp) (\<lambda>c. kthen (sr_send p (t_flags (ttys s tp)) c tp) (sr_wake tp)) s)"
proof (cases "t_state (ttys s tp) \<inter> {TIMEOUT, BUSY, TTSTOP} = {}")
  case True
  show ?thesis
  proof (cases "C (tp, Outq)")
    case Nil
    with True show ?thesis by (simp add: srstart_def krun kbind_Ok [of "tgetc Outq tp", OF tgetc_nil [OF assms Nil]] kret_def)
  next
    case (Cons c cs)
    from tgetc_cons [OF assms Cons] obtain q m where get: "tgetc Outq tp s = Ok c (tq_store Outq tp (q, m) s)" .
    have "0 \<le> c" using ttyqsD(2) [OF assms, of "(tp, Outq)"] Cons by simp
    moreover have "t_flags (ttys (tq_store Outq tp (q, m) s) tp) = t_flags (ttys s tp)" by (simp add: tq_store_def)
    ultimately show ?thesis
      using True Cons
      by (simp add: srstart_def krun kbind_Ok [of "tgetc Outq tp", OF get] sr_send_def [symmetric] sr_wake_def [symmetric])
  qed
qed (auto simp: srstart_def krun kret_def)

text \<open>Output is in progress, or will be resumed by a timeout or by the start character.\<close>

definition active :: "nat \<Rightarrow> ('h, 'a) tst_scheme \<Rightarrow> bool" where
  "active tp s \<longleftrightarrow> t_state (ttys s tp) \<inter> {TIMEOUT, BUSY, TTSTOP} \<noteq> {}"

definition flowing :: "nat \<Rightarrow> ('h, 'a) tst_scheme \<Rightarrow> bool" where
  "flowing tp s \<longleftrightarrow> active tp s \<or> c_cc (t_outq (ttys s tp)) = 0"

lemma sr_send_quiet:
  "kpost (sr_send p fl c tp s)
     (\<lambda>_ s'. quiet tp s s' \<and> active tp s' \<and> t_state (ttys s' tp) - {TIMEOUT, BUSY} = t_state (ttys s tp) - {TIMEOUT, BUSY} \<and>
        (fl AND RAW \<noteq> 0 \<longrightarrow> t_state (ttys s' tp) \<subseteq> insert BUSY (t_state (ttys s tp))))
     (\<lambda>_ _ _. False) (\<lambda>_ _. fl AND RAW = 0)" (is "kpost _ ?Q _ ?P")
proof (cases "c \<ge> 128 \<and> fl AND RAW = 0")
  case True
  define s1 where "s1 = s\<lparr>ttys := (ttys s)(tp := (ttys s tp)\<lparr>t_state := insert TIMEOUT (t_state (ttys s tp))\<rparr>)\<rparr>"
  have q: "quiet tp s s1" unfolding s1_def by (rule quiet_upd) simp
  have "?Q () (s1\<lparr>callout := cs\<rparr>)" for cs
    using quiet_trans [OF q quiet_upd(1)] True by (simp add: s1_def active_def)
  note fin = this
  have "kpost (timeout TTRSTRT (int tp) ((c AND 127) + 6) s1) ?Q (\<lambda>_ _ _. False) ?P"
    by (rule kpost_weaken [OF timeout_callout], elim exE, simp only: fin) (use True in simp_all)
  then show ?thesis unfolding sr_send_def if_P [OF True] kpost_then kpost_flag s1_def .
next
  case False
  define s1 where "s1 = s\<lparr>ttys := (ttys s)(tp := (ttys s tp)\<lparr>t_char := cchar c\<rparr>)\<rparr>"
  define s2 where "s2 = s1\<lparr>ttys := (ttys s1)(tp := (ttys s1 tp)\<lparr>t_state := insert BUSY (t_state (ttys s1 tp))\<rparr>)\<rparr>"
  have q: "quiet tp s s2"
    unfolding s2_def by (rule quiet_trans [where s' = s1], unfold s1_def, rule quiet_upd, rule quiet_upd) simp
  obtain b h where w: "thre_wait p (t_addr (ttys s2 tp)) 8192 s2 = Ok b (s2\<lparr>hw := h\<rparr>)" using thre_wait_hw [of p "t_addr (ttys s2 tp)" 8192 s2] by blast
  have q': "quiet tp s (s2\<lparr>hw := h\<rparr>)" by (rule quiet_trans [OF q quiet_upd(2)])
  have fin: "?Q () (s2\<lparr>hw := h, klog := l, hw := h'\<rparr>)" for l h'
    using quiet_trans [OF quiet_trans [OF q' quiet_upd(3)] quiet_upd(2)] by (auto simp: s2_def s1_def active_def)
  have fin': "?Q () (s2\<lparr>hw := h, hw := h'\<rparr>)" for h'
    using quiet_trans [OF q' quiet_upd(2)] by (auto simp: s2_def s1_def active_def)
  have "sr_send p fl c tp s = kthen (kwhen (\<not> b) (kprintf (''timeout in srstart'' @ [CHR 0x0A]))) (koutb p (t_addr (ttys s2 tp) + THR) c) (s2\<lparr>hw := h\<rparr>)"
    unfolding sr_send_def if_not_P [OF False] tset_def
    by (simp only: krun krun_tty s1_def [symmetric] s2_def [symmetric] kbind_Ok [of "thre_wait _ _ _", OF w])
  then show ?thesis using fin fin' by (simp add: koutb_def kprintf_def)
qed

lemma sr_wake_quiet:
  "\<exists>s'. sr_wake tp s = Ok () s' \<and> quiet tp s s' \<and> active tp s' = active tp s \<and> t_state (ttys s' tp) \<subseteq> t_state (ttys s tp) \<and>
     (ASLEEP \<in> t_state (ttys s tp) \<longrightarrow>
        (if c_cc (t_outq (ttys s tp)) \<le> TTLOWAT then ASLEEP \<notin> t_state (ttys s' tp) \<and> Ev_wakeup (Ch_outq tp) \<in> set (klog s')
         else ASLEEP \<in> t_state (ttys s' tp)))"
proof (cases "c_cc (t_outq (ttys s tp)) \<le> TTLOWAT \<and> ASLEEP \<in> t_state (ttys s tp)")
  case True
  define s1 where "s1 = s\<lparr>ttys := (ttys s)(tp := (ttys s tp)\<lparr>t_state := t_state (ttys s tp) - {ASLEEP}\<rparr>)\<rparr>"
  have run: "sr_wake tp s = Ok () (s1\<lparr>klog := klog s1 @ [Ev_wakeup (Ch_outq tp)]\<rparr>)"
    unfolding sr_wake_def tclr_def using True by (simp add: krun s1_def kwhen_def)
  have "quiet tp s (s1\<lparr>klog := klog s1 @ [Ev_wakeup (Ch_outq tp)]\<rparr>)"
    using quiet_trans [OF quiet_upd(5) quiet_upd(3)] unfolding s1_def .
  then show ?thesis unfolding run using True by (intro exI [of _ "s1\<lparr>klog := klog s1 @ [Ev_wakeup (Ch_outq tp)]\<rparr>"]) (auto simp: s1_def active_def)
next
  case False
  then have "sr_wake tp s = Ok () s" unfolding sr_wake_def by (auto simp: krun kwhen_def kret_def)
  with False quiet_refl [of tp s] show ?thesis by auto
qed

text \<open>What \<^verbatim>\<open>srstart\<close> leaves behind.\<close>

definition sr_after :: "nat \<Rightarrow> ('h, 'a) tst_scheme \<Rightarrow> (nat \<times> tqueue \<Rightarrow> int list) \<Rightarrow> ('h, 'a) tst_scheme \<Rightarrow> bool" where
  "sr_after tp s C s' \<longleftrightarrow> same_line tp s s' \<and> flowing tp s' \<and>
     (if active tp s \<or> C (tp, Outq) = [] then s' = s
      else active tp s' \<and> ttyqs s' (C((tp, Outq) := tl (C (tp, Outq)))) \<and>
        (t_flags (ttys s tp) AND RAW \<noteq> 0 \<longrightarrow> t_state (ttys s' tp) \<subseteq> insert BUSY (t_state (ttys s tp))) \<and>
        (ASLEEP \<in> t_state (ttys s tp) \<longrightarrow>
           (if int (length (C (tp, Outq))) \<le> TTLOWAT + 1 then ASLEEP \<notin> t_state (ttys s' tp) \<and> Ev_wakeup (Ch_outq tp) \<in> set (klog s')
            else ASLEEP \<in> t_state (ttys s' tp))))"

lemma srstart_after:
  assumes "ttyqs s C"
  shows "kpost (srstart p tp s) (\<lambda>_. sr_after tp s C) (\<lambda>_ _ _. False) (\<lambda>_ _. t_flags (ttys s tp) AND RAW = 0)"
proof (cases "active tp s \<or> C (tp, Outq) = []")
  case True
  then have "flowing tp s" using ttyqs_cc(3) [OF assms, of tp] by (auto simp: flowing_def)
  with True show ?thesis
    unfolding srstart_cases [OF assms] by (auto simp: active_def sr_after_def same_line_refl)
next
  case False
  then obtain c cs where out: "C (tp, Outq) = c # cs" by (cases "C (tp, Outq)") auto
  from tgetc_cons [OF assms out] obtain q m where get: "tgetc Outq tp s = Ok c (tq_store Outq tp (q, m) s)"
    and q: "ttyqs (tq_store Outq tp (q, m) s) (C((tp, Outq) := cs))" .
  define s1 where "s1 = tq_store Outq tp (q, m) s"
  have line: "same_line tp s s1" by (simp add: s1_def tq_store_def same_line_def Let_def)
  have st: "t_state (ttys s1 tp) = t_state (ttys s tp)" by (simp add: s1_def tq_store_def)
  have cc: "c_cc (t_outq (ttys s1 tp)) = int (length cs)" using ttyqs_cc(3) [OF q [folded s1_def], of tp] by simp
  have run: "srstart p tp s = kthen (sr_send p (t_flags (ttys s tp)) c tp) (sr_wake tp) s1"
    unfolding srstart_cases [OF assms] using False by (simp add: active_def kbind_Ok [of "tgetc Outq tp", OF get] s1_def)
  let ?P = "\<lambda>_ _. t_flags (ttys s tp) AND RAW = 0"
  have "kpost (sr_wake tp s2) (\<lambda>_. sr_after tp s C) (\<lambda>_ _ _. False) ?P"
    if "quiet tp s1 s2 \<and> active tp s2 \<and> t_state (ttys s2 tp) - {TIMEOUT, BUSY} = t_state (ttys s1 tp) - {TIMEOUT, BUSY} \<and>
      (t_flags (ttys s tp) AND RAW \<noteq> 0 \<longrightarrow> t_state (ttys s2 tp) \<subseteq> insert BUSY (t_state (ttys s1 tp)))" for s2
  proof -
    obtain s3 where s3: "sr_wake tp s2 = Ok () s3" "quiet tp s2 s3" "active tp s3 = active tp s2"
      "t_state (ttys s3 tp) \<subseteq> t_state (ttys s2 tp)"
      "ASLEEP \<in> t_state (ttys s2 tp) \<longrightarrow>
        (if c_cc (t_outq (ttys s2 tp)) \<le> TTLOWAT then ASLEEP \<notin> t_state (ttys s3 tp) \<and> Ev_wakeup (Ch_outq tp) \<in> set (klog s3)
         else ASLEEP \<in> t_state (ttys s3 tp))" by (rule exE [OF sr_wake_quiet [of tp s2]], elim conjE) assumption
    have q3: "quiet tp s1 s3" using quiet_trans that s3(2) by blast
    have cc2: "c_cc (t_outq (ttys s2 tp)) = int (length cs)" using that cc by (metis quiet_def tq.simps(3))
    have sl: "ASLEEP \<in> t_state (ttys s2 tp) \<longleftrightarrow> ASLEEP \<in> t_state (ttys s tp)" using that st by blast
    have "ttyqs s3 (C((tp, Outq) := cs))" using q [folded s1_def] q3 ttyqs_same_queues unfolding quiet_def by metis
    moreover have "same_line tp s s3" using same_line_trans [OF line] q3 by (simp add: quiet_def)
    moreover have "t_flags (ttys s tp) AND RAW \<noteq> 0 \<longrightarrow> t_state (ttys s3 tp) \<subseteq> insert BUSY (t_state (ttys s tp))"
      using that s3(4) st by blast
    ultimately have "sr_after tp s C s3"
      unfolding sr_after_def flowing_def using that s3(3,5) cc2 sl False out by simp
    with s3(1) show ?thesis by simp
  qed
  then show ?thesis unfolding run by (intro kpost_thenI [OF sr_send_quiet]) auto
qed

lemma sr_after_step: "ttyqs s C \<Longrightarrow> sr_after tp s C s' \<Longrightarrow> drv_step tp s C s'"
proof (cases "active tp s \<or> C (tp, Outq) = []")
  case True
  assume "ttyqs s C" "sr_after tp s C s'"
  with True drv_step_refl show ?thesis by (simp add: sr_after_def)
next
  case False
  assume "ttyqs s C" "sr_after tp s C s'"
  with False have "same_line tp s s'" "ttyqs s' (C((tp, Outq) := tl (C (tp, Outq))))" by (simp_all add: sr_after_def del: fun_upd_apply)
  with suffix_tl [of "C (tp, Outq)"] show ?thesis unfolding drv_step_def by blast
qed

lemma srstart_step: "ttyqs s C \<Longrightarrow> kgives (\<lambda>_. drv_step tp s C) (srstart p tp s)"
  by (rule kpost_weaken [OF srstart_after]) (use sr_after_step in auto)

interpretation sr: tty_driver "sr_drv p :: ('h, 'a) tst_scheme tdrv" for p :: "'h ports"
proof
  fix s :: "('h, 'a) tst_scheme" and C tp
  assume q: "ttyqs s C"
  then show "kgives (\<lambda>_. drv_step tp s C) (t_oproc (sr_drv p) tp s)" by (simp add: sr_drv_def srstart_step)
  from drv_step_refl [OF q] show "kgives (\<lambda>_. drv_step tp s C) (d_stop (sr_drv p) tp s)" by (simp add: sr_drv_def)
qed

section \<open>Output does not stall\<close>

lemma ttstart_after:
  assumes "ttyqs s C"
  shows "kpost (ttstart (sr_drv p) tp s) (\<lambda>_. sr_after tp s C) (\<lambda>_ _ _. False) (\<lambda>_ _. t_flags (ttys s tp) AND RAW = 0)"
proof (cases "active tp s")
  case True
  then have "sr_after tp s C s" by (simp add: sr_after_def same_line_refl flowing_def)
  with True show ?thesis by (auto simp: ttstart_def active_def)
next
  case False
  with srstart_after [OF assms, where tp = tp and p = p] show ?thesis by (auto simp: ttstart_def active_def sr_drv_def)
qed

lemma ttstart_flows: "ttyqs s C \<Longrightarrow> kgives (\<lambda>_ s'. flowing tp s' \<and> u s' = u s) (ttstart (sr_drv p) tp s)"
  by (rule kpost_weaken [OF ttstart_after]) (auto simp: sr_after_def same_line_def)

text \<open>The conditions under which a write to a serial line sleeps.\<close>

definition writer_waits :: "nat \<Rightarrow> chan \<Rightarrow> int \<Rightarrow> ('h, 'a) tst_scheme \<Rightarrow> bool" where
  "writer_waits tp c pri s \<longleftrightarrow> c = Ch_outq tp \<and> pri = TTOPRI \<and> active tp s \<and> ASLEEP \<in> t_state (ttys s tp) \<and>
     TTHIWAT \<le> c_cc (t_outq (ttys s tp))"

lemma ttyqs_flag [simp]: "ttyqs (s\<lparr>ttys := (ttys s)(tp := (ttys s tp)\<lparr>t_state := x\<rparr>)\<rparr>) C = ttyqs s C"
  by (rule ttyqs_same_queues) auto

lemma ttwrite_wait_flows:
  assumes q: "ttyqs s C" and ch: "t_chan (ttys s tp) = None"
  shows "kpost (ttwrite_wait (sr_drv p) tp s) (\<lambda>back s'. \<not> back \<and> s' = s) (writer_waits tp) (\<lambda>_ _. True)"
proof (cases "c_cc (t_outq (ttys s tp)) > TTHIWAT")
  case True
  let ?n = "length (C (tp, Outq))"
  have n: "int ?n > TTHIWAT" using True ttyqs_cc(3) [OF q, of tp] by simp
  then have ne: "C (tp, Outq) \<noteq> []" by (auto simp: TTHIWAT_def)
  have after: "active tp s' \<and> TTHIWAT \<le> c_cc (t_outq (ttys s' tp)) \<and> t_chan (ttys s' tp) = None" if "sr_after tp s C s'" for s'
  proof -
    have "\<exists>out. ttyqs s' (C((tp, Outq) := out)) \<and> ?n \<le> Suc (length out)"
    proof (cases "active tp s")
      case True
      with that q show ?thesis by (intro exI [of _ "C (tp, Outq)"]) (simp add: sr_after_def)
    next
      case False
      with that ne show ?thesis by (intro exI [of _ "tl (C (tp, Outq))"]) (simp add: sr_after_def)
    qed
    then have "TTHIWAT \<le> c_cc (t_outq (ttys s' tp))" using n ttyqs_cc(3) [of s'] by (force simp del: fun_upd_apply simp: fun_upd_same)
    moreover have "active tp s'" using that ne by (cases "active tp s") (simp_all add: sr_after_def)
    moreover have "t_chan (ttys s' tp) = None" using that ch by (simp add: sr_after_def same_line_def Let_def)
    ultimately show ?thesis by blast
  qed
  have "kpost (ttstart (sr_drv p) tp s) (\<lambda>_ t. active tp t \<and> TTHIWAT \<le> c_cc (t_outq (ttys t tp)) \<and> t_chan (ttys t tp) = None)
      (\<lambda>_ _ _. False) (\<lambda>_ _. True)"
    by (rule kpost_weaken [OF ttstart_after [OF q]]) (use after in auto)
  moreover have "(if c_cc (t_outq (ttys t tp)) = 0 then b else writer_waits tp (Ch_outq tp) TTOPRI
      (t\<lparr>ttys := (ttys t)(tp := (ttys t tp)\<lparr>t_state := insert ASLEEP (t_state (ttys t tp))\<rparr>)\<rparr>))"
    if "active tp t" "TTHIWAT \<le> c_cc (t_outq (ttys t tp))" for t b
    using that by (auto simp: writer_waits_def active_def TTHIWAT_def)
  ultimately show ?thesis
    unfolding ttwrite_wait_def tcc_def kpost_bind kpost_tget tq.simps if_P [OF True] kpost_then
    by (auto elim!: kpost_weaken simp: writer_waits_def active_def TTHIWAT_def)
next
  case False
  then show ?thesis unfolding ttwrite_wait_def tcc_def by simp
qed

lemma cpass_next:
  "u_count (u s) \<noteq> 0 \<Longrightarrow> (\<exists>c v. cpass s = Ok c (s\<lparr>u := v\<rparr>) \<and>
     (if c < 0 then u_error v = EFAULT else u_count v = cuint (u_count (u s) - 1)))"
proof (cases "u_segflg (u s) \<noteq> 0")
  case True
  assume n: "u_count (u s) \<noteq> 0"
  have "0 \<le> kpeek (u_base (u s)) s mod 256" by simp
  with True n show ?thesis
    by (intro exI [of _ "kpeek (u_base (u s)) s mod 256"] exI [of _ "ustep 1 (u s)"]) (simp add: cpass_def krun kret_def ustep_def not_less [symmetric])
next
  case False
  assume n: "u_count (u s) \<noteq> 0"
  show ?thesis
  proof (cases "umem s (u_base (u s))")
    case None
    with False n show ?thesis
      by (intro exI [of _ "-1"] exI [of _ "(u s)\<lparr>u_error := EFAULT\<rparr>"]) (simp add: cpass_def krun kret_def)
  next
    case (Some x)
    have "0 \<le> x mod 256" by simp
    with False n Some show ?thesis
      by (intro exI [of _ "x mod 256"] exI [of _ "ustep 1 (u s)"]) (simp add: cpass_def krun kret_def ustep_def not_less [symmetric])
  qed
qed

lemma ttwrite_loop_flows:
  fixes s :: "('h, 'a) tst_scheme"
  assumes "ttyqs s C" "t_chan (ttys s tp) = None" "0 \<le> u_count (u s)" "u_count (u s) < int n" "u_count (u s) < 2 ^ 32"
  shows "kpost (ttwrite_loop n (sr_drv p) tp s) (\<lambda>_ s'. flowing tp s' \<and> (u_count (u s') = 0 \<or> u_error (u s') = EFAULT)) (writer_waits tp) (\<lambda>_ _. True)"
    (is "kpost _ ?Q _ _")
  using assms
proof (induction n arbitrary: s C)
  case (Suc n)
  have fin: "kpost (kthen (ttstart (sr_drv p) tp) (kret None) t) ?Q (writer_waits tp) (\<lambda>_ _. True)"
    if "ttyqs t C'" "u_count (u t) = 0 \<or> u_error (u t) = EFAULT" for C' and t :: "('h, 'a) tst_scheme"
    by (rule kpost_thenI, rule ttstart_flows [OF that(1)]) (use that(2) in auto)
  show ?case
  proof (cases "u_count (u s) = 0")
    case True
    then show ?thesis using fin [OF Suc.prems(1)] by simp
  next
    case False
    from cpass_next [OF this] obtain c v where cp: "cpass s = Ok c (s\<lparr>u := v\<rparr>)"
      and v: "if c < 0 then u_error v = EFAULT else u_count v = cuint (u_count (u s) - 1)" by blast
    have q: "ttyqs (s\<lparr>u := v\<rparr>) C" using Suc.prems(1) by (simp add: ttyqs_def)
    have rest: "kpost (kbind cpass (\<lambda>c. if c < 0 then kthen (ttstart (sr_drv p) tp) (kret None)
        else kthen (ttyoutput c tp) (ttwrite_loop n (sr_drv p) tp)) s) ?Q (writer_waits tp) (\<lambda>_ _. True)"
    proof (cases "c < 0")
      case True
      then show ?thesis unfolding kbind_Ok [of cpass, OF cp] using fin [OF q] v by simp
    next
      case pos: False
      from ttyoutput_renders_char [OF q, of c tp] obtain s2 ys r where o: "ttyoutput c tp (s\<lparr>u := v\<rparr>) = Ok () s2"
        "out_frame tp r (s\<lparr>u := v\<rparr>) s2" "ttyqs s2 (C((tp, Outq) := C (tp, Outq) @ ys))" unfolding emits_def by blast
      have "u_count v = u_count (u s) - 1" using v pos Suc.prems(3,5) False by simp
      then have "kpost (ttwrite_loop n (sr_drv p) tp s2) ?Q (writer_waits tp) (\<lambda>_ _. True)"
        using out_frame_fields [OF o(2)] Suc.prems False by (intro Suc.IH [OF o(3)]) simp_all
      then show ?thesis unfolding kbind_Ok [of cpass, OF cp] if_not_P [OF pos] kthen_Ok [of "ttyoutput c tp", OF o(1)] .
    qed
    show ?thesis
      unfolding ttwrite_loop.simps kpost_bind [of "uget u_count"] kpost_uget if_not_P [OF False]
      by (rule kpost_bindI, rule ttwrite_wait_flows [OF Suc.prems(1,2)]) (use rest in simp_all)
  qed
qed simp

section \<open>A sleeping writer is woken\<close>

text \<open>A line in raw mode whose output is not held up by a delay or by the stop character.\<close>

definition raw_line :: "nat \<Rightarrow> ('h, 'a) tst_scheme \<Rightarrow> bool" where
  "raw_line tp s \<longleftrightarrow> t_flags (ttys s tp) AND RAW \<noteq> 0 \<and> TIMEOUT \<notin> t_state (ttys s tp) \<and> TTSTOP \<notin> t_state (ttys s tp)"

definition xmit_ready :: "'h ports \<Rightarrow> nat \<Rightarrow> ('h, 'a) tst_scheme \<Rightarrow> bool" where
  "xmit_ready p tp s \<longleftrightarrow> (\<forall>h. fst (inb p (t_addr (ttys s tp) + IIR) h) AND 7 = 2)"

lemma kpost_OkE: "kpost r Q (\<lambda>_ _ _. False) (\<lambda>_ _. False) \<Longrightarrow> \<exists>x s. r = Ok x s \<and> Q x s"
  by (cases r) auto

lemma srintr_takes:
  assumes "ttyqs s C" "raw_line tp s" "xmit_ready p tp s" "C (tp, Outq) = c # cs" "tp = nat (dev mod 2)"
  shows "\<exists>s'. srintr n p dev s = Ok () s' \<and> ttyqs s' (C((tp, Outq) := cs)) \<and> raw_line tp s' \<and> xmit_ready p tp s' \<and>
     (ASLEEP \<in> t_state (ttys s tp) \<longrightarrow>
        (if int (length cs) \<le> TTLOWAT then ASLEEP \<notin> t_state (ttys s' tp) \<and> Ev_wakeup (Ch_outq tp) \<in> set (klog s')
         else ASLEEP \<in> t_state (ttys s' tp)))"
proof -
  define r where "r = inb p (t_addr (ttys s tp) + IIR) (hw s)"
  define s0 where "s0 = s\<lparr>hw := snd r\<rparr>"
  define s1 where "s1 = s0\<lparr>ttys := (ttys s0)(tp := (ttys s0 tp)\<lparr>t_state := t_state (ttys s0 tp) - {BUSY}\<rparr>)\<rparr>"
  have "fst r AND 7 = 2" using assms(3) by (simp add: xmit_ready_def r_def)
  then have run: "srintr n p dev s = ttstart (sr_drv p) tp s1"
    unfolding srintr_def Let_def assms(5) [symmetric] tclr_def
    by (simp add: krun krun_tty kbind_def kinb_def r_def [symmetric] s0_def [symmetric]) (simp add: s1_def s0_def)
  have s1: "ttyqs s1 C" "t_flags (ttys s1 tp) = t_flags (ttys s tp)" "t_addr (ttys s1 tp) = t_addr (ttys s tp)" "\<not> active tp s1"
    "t_state (ttys s1 tp) = t_state (ttys s tp) - {BUSY}"
  proof -
    have "ttyqs s0 C" using assms(1) by (simp add: s0_def ttyqs_def)
    then show "ttyqs s1 C" unfolding s1_def by (simp only: ttyqs_flag)
  qed (use assms(2) in \<open>auto simp: s1_def s0_def active_def raw_line_def\<close>)
  have "kpost (ttstart (sr_drv p) tp s1) (\<lambda>_. sr_after tp s1 C) (\<lambda>_ _ _. False) (\<lambda>_ _. False)"
    by (rule kpost_weaken [OF ttstart_after [OF s1(1)]]) (use assms(2) s1(2) in \<open>simp_all add: raw_line_def\<close>)
  from kpost_OkE [OF this] obtain s' where s': "ttstart (sr_drv p) tp s1 = Ok () s'" "sr_after tp s1 C s'" by auto
  have line: "t_flags (ttys s' tp) = t_flags (ttys s1 tp)" "t_addr (ttys s' tp) = t_addr (ttys s1 tp)"
    using s'(2) by (simp_all add: sr_after_def same_line_def Let_def)
  have st: "t_state (ttys s' tp) \<subseteq> insert BUSY (t_state (ttys s1 tp))" "ttyqs s' (C((tp, Outq) := cs))"
    "ASLEEP \<in> t_state (ttys s tp) \<longrightarrow>
        (if int (length cs) \<le> TTLOWAT then ASLEEP \<notin> t_state (ttys s' tp) \<and> Ev_wakeup (Ch_outq tp) \<in> set (klog s')
         else ASLEEP \<in> t_state (ttys s' tp))"
    using s'(2) s1 assms(2,4) unfolding sr_after_def raw_line_def by simp_all
  have "raw_line tp s'" using assms(2) line s1 st(1) unfolding raw_line_def by auto
  moreover have "xmit_ready p tp s'" using assms(3) line s1(3) by (simp add: xmit_ready_def)
  ultimately show ?thesis unfolding run using s'(1) st(2,3) by blast
qed

lemma srintrs_wake:
  assumes "ttyqs s C" "raw_line tp s" "xmit_ready p tp s" "tp = nat (dev mod 2)" "ASLEEP \<in> t_state (ttys s tp)"
    "int (length (C (tp, Outq))) = int (length xs) + TTLOWAT" "xs \<noteq> []"
  shows "\<exists>s'. kfor xs (\<lambda>_. srintr n p dev) s = Ok () s' \<and> ttyqs s' (C((tp, Outq) := drop (length xs) (C (tp, Outq)))) \<and>
     ASLEEP \<notin> t_state (ttys s' tp) \<and> Ev_wakeup (Ch_outq tp) \<in> set (klog s')"
  using assms
proof (induction xs arbitrary: s C)
  case (Cons x xs)
  obtain c cs where out: "C (tp, Outq) = c # cs" using Cons.prems(6) by (cases "C (tp, Outq)") (auto simp: TTLOWAT_def)
  have len: "int (length cs) = int (length xs) + TTLOWAT" using Cons.prems(6) out by simp
  obtain s1 where s1: "srintr n p dev s = Ok () s1" "ttyqs s1 (C((tp, Outq) := cs))" "raw_line tp s1" "xmit_ready p tp s1"
    "ASLEEP \<in> t_state (ttys s tp) \<longrightarrow>
        (if int (length cs) \<le> TTLOWAT then ASLEEP \<notin> t_state (ttys s1 tp) \<and> Ev_wakeup (Ch_outq tp) \<in> set (klog s1)
         else ASLEEP \<in> t_state (ttys s1 tp))"
    by (rule exE [OF srintr_takes [OF Cons.prems(1-3) out Cons.prems(4)]], elim conjE) assumption
  have run: "kfor (x # xs) (\<lambda>_. srintr n p dev) s = kfor xs (\<lambda>_. srintr n p dev) s1" by (simp add: kthen_Ok [of "srintr n p dev", OF s1(1)])
  show ?case
  proof (cases "xs = []")
    case True
    then show ?thesis unfolding run using s1 len out Cons.prems(5) by (simp add: kret_def del: fun_upd_apply)
  next
    case False
    then have "ASLEEP \<in> t_state (ttys s1 tp)" using s1(5) len Cons.prems(5) by (cases xs) auto
    from Cons.IH [OF s1(2-4) Cons.prems(4) this _ False] len show ?thesis unfolding run out by (simp add: fun_upd_same del: fun_upd_apply)
  qed
qed simp

end
