(* ===== verification/Tty_Props.thy ===== *)
theory Tty_Props
  imports Sr_Props
begin

text \<open>
  The properties of the terminals: line editing, output, the invariant of the input side, flow control, and
  the special characters that \<^verbatim>\<open>ioctl\<close> cannot set.
\<close>

section \<open>Laws of the line editor\<close>

definition ordinary :: "tty \<Rightarrow> int \<Rightarrow> bool" where
  "ordinary t c \<longleftrightarrow> c \<noteq> t_erase t \<and> c \<noteq> t_kill t \<and> c \<noteq> eofc (t_tc t) \<and> c \<noteq> 92"

lemma edit_snoc: "edit t (line @ [c]) = rev (edit_char t (rev (edit t line)) c)"
  by (simp add: edit_def)

text \<open>The character before is not a backslash.\<close>

definition unescaped :: "int list \<Rightarrow> bool" where
  "unescaped cs \<longleftrightarrow> cs = [] \<or> last cs \<noteq> 92"

lemma edit_char_unescaped:
  "unescaped (rev rb) \<Longrightarrow> edit_char t rb c = (if c = t_erase t then tl rb else if c = t_kill t then [] else if c = eofc (t_tc t) then rb else c # rb)"
  by (auto simp: unescaped_def last_rev edit_char_def)

lemma edit_ordinary: "\<forall>c\<in>set line. ordinary t c \<Longrightarrow> edit t line = line"
proof (induction line rule: rev_induct)
  case (snoc c line)
  then have e: "edit t line = line" "ordinary t c" by simp_all
  have "unescaped (rev (rev line))" using snoc.prems by (cases line rule: rev_cases) (simp_all add: unescaped_def ordinary_def)
  then show ?case using e by (simp add: edit_snoc edit_char_unescaped ordinary_def)
qed (simp add: edit_def)

lemma edit_kill: "unescaped (edit t a) \<Longrightarrow> t_kill t \<noteq> t_erase t \<Longrightarrow> edit t (a @ t_kill t # b) = edit t b"
  by (simp add: edit_def edit_char_unescaped)

lemma edit_erase: "unescaped (edit t a) \<Longrightarrow> ordinary t c \<Longrightarrow> edit t (a @ [c, t_erase t]) = edit t a"
  by (simp add: edit_def edit_char_unescaped [of "foldl (edit_char t) [] a"] ordinary_def)
    (simp add: edit_char_unescaped unescaped_def)

lemma edit_escape:
  assumes "unescaped (edit t a)" "92 \<notin> {t_erase t, t_kill t, eofc (t_tc t)}" "c \<in> {t_erase t, t_kill t}" "c \<noteq> 0"
  shows "edit t (a @ [92, c]) = edit t a @ [c]"
proof -
  have e: "edit t (a @ [92]) = edit t a @ [92]" using assms(1,2) by (simp add: edit_snoc edit_char_unescaped)
  have "edit t ((a @ [92]) @ [c]) = rev (edit_char t (92 # rev (edit t a)) c)" unfolding edit_snoc [of t "a @ [92]"] e by simp
  also have "\<dots> = edit t a @ [c]" using assms(3,4) by (auto simp: edit_char_def)
  finally show ?thesis by simp
qed

section \<open>A serial line for the witnesses\<close>

definition tty0 :: tty where
  "tty0 = \<lparr>t_rawq = clist_nil, t_canq = clist_nil, t_outq = clist_nil, t_chan = None, t_addr = 1016, t_dev = 0, t_flags = 24,
     t_state = {CARR_ON, ISOPEN}, t_pgrp = 7, t_delct = 0, t_line = 0, t_col = 0, t_erase = 35, t_kill = 64, t_char = 0,
     t_ispeed = 13, t_ospeed = 13,
     t_tc = \<lparr>intrc = 127, quitc = 28, startc = 17, stopc = 19, eofc = 4, brkc = -1\<rparr>\<rparr>"

definition line_st :: "tty \<Rightarrow> int list \<Rightarrow> (int \<times> int) list tst" where
  "line_st t cs = \<lparr>u = user0\<lparr>u_count := 1, u_base := 5\<rparr>, proc = (\<lambda>_. proc0), klog = [], time = 0, lbolt = 0, runq = None, slpque = (\<lambda>_. None),
     curpri = 0, runrun = 0, runin = 0, runout = 0, mpid = 0, umem = (\<lambda>a. Some 65), core = (\<lambda>_. 0), callout = no_calls, dk_busy = 0, dk_time = (\<lambda>_. 0),
     clm = \<lparr>c_next = (\<lambda>_. 0), c_info = (\<lambda>x. if 36 \<le> x \<and> x < 36 + int (length cs) then cs ! nat (x - 36) else 0), cfreelist = 64, cbad = 0\<rparr>,
     ttys = (\<lambda>_. tty0)(0 := t), canonb = replicate CANBSIZ 0, tk_nin = 0, tk_nout = 0, hw = []\<rparr>"

definition demo_ports :: "(int \<times> int) list ports" where
  "demo_ports = \<lparr>inb = (\<lambda>port h. (if port = 1018 then 2 else 32, h)), outb = (\<lambda>port v h. h @ [(port, v)])\<rparr>"

definition one_block :: "int list \<Rightarrow> clist" where
  "one_block cs = (if cs = [] then clist_nil else \<lparr>c_cc = int (length cs), c_cf = 36, c_cl = 36 + int (length cs)\<rparr>)"

lemma qrep_nil: "qrep m clist_nil [] []"
  by (simp add: qrep_def clist_nil_def)

lemma line_st_queues:
  assumes "tq k t = one_block cs" "\<And>j. j \<noteq> k \<Longrightarrow> tq j t = clist_nil" "length cs \<le> 28" "bytes cs"
  shows "ttyqs (line_st t cs) ((\<lambda>_. [])((0, k) := cs))"
proof -
  let ?s = "line_st t cs" and ?C = "(\<lambda>_. [])((0 :: nat, k) := cs)" and ?B = "(\<lambda>_. [])((0 :: nat, k) := if cs = [] then [] else [32])"
  have q: "tq (snd j) (ttys ?s (fst j)) = (if j = (0, k) then one_block cs else clist_nil)" for j
  proof (cases "fst j = 0 \<and> snd j \<noteq> k")
    case True
    then show ?thesis using assms(2) [of "snd j"] by (auto simp: line_st_def)
  next
    case False
    then show ?thesis using assms(1) by (cases j; cases "snd j") (auto simp: line_st_def tty0_def)
  qed
  have "map (c_info (clm ?s)) [36 .. 36 + int (length cs) - 1] = cs"
    by (rule nth_equalityI) (auto simp: line_st_def)
  then have r: "qrep (clm ?s) (one_block cs) (if cs = [] then [] else [32]) cs"
    using assms(3) qrep_nil by (auto simp: qrep_def one_block_def line_st_def)
  have "pool (clm ?s) (\<lambda>j. tq (snd j) (ttys ?s (fst j))) ?C"
    unfolding pool_def q using r qrep_nil
    by (intro exI [of _ "[64]"] exI [of _ ?B]) (auto simp: line_st_def)
  with assms(4) show ?thesis by (simp add: ttyqs_def)
qed

section \<open>Properties\<close>

text \<open>
  C11: When the raw queue of a terminal in cooked mode holds a complete line of fewer than 254 characters,
  \<^verbatim>\<open>canon\<close> does not sleep: it removes the line and its delimiter, appends to the canonical queue what the line
  editor makes of it (erase, kill, end-of-file and escapes), returns its length, and leaves the delimiter count right for the
  lines that remain. The appended line is complete unless the character blocks have run out.
\<close>

theorem canon_edits:
  assumes "ttyqs s C" "raw_ok (t_delct (ttys s tp)) (C (tp, Rawq))" "length (canonb s) = CANBSIZ" "canonb s ! 1 \<noteq> 92"
    "t_flags (ttys s tp) AND (RAW OR CBREAK) = 0" "TBLOCK \<notin> t_state (ttys s tp)"
    "C (tp, Rawq) = line @ 255 # rest" "255 \<notin> set line" "length line < CANBSIZ - 2"
  shows "\<exists>s' k. canon d tp s = Ok (int (length (edit (ttys s tp) line))) s' \<and>
     ttyqs s' (C((tp, Rawq) := rest, (tp, Canq) := C (tp, Canq) @ take k (edit (ttys s tp) line))) \<and>
     (cfreelist (clm s') \<noteq> 0 \<longrightarrow> length (edit (ttys s tp) line) \<le> k) \<and> raw_ok (t_delct (ttys s' tp)) rest"
proof -
  let ?rb = "foldl (edit_char (ttys s tp)) [] line"
  have tl: "take_line (ttys s tp) [] (C (tp, Rawq)) = (?rb, rest, True)"
    unfolding assms(7) by (rule take_line_fits) (use assms(8,9) in simp_all)
  have chars: "\<forall>c\<in>set (C (tp, Rawq)). 0 \<le> c \<and> (c < 128 \<or> c = 255)" using assms(2) by (simp add: raw_ok_def)
  have wake: "t_delct (ttys s tp) \<noteq> 0" using delct_zero [OF assms(2)] assms(7) by simp
  from canon_edits_line [OF assms(1,3-5) wake assms(6) chars tl, of d] obtain s' k where
    r: "canon d tp s = Ok (int (length ?rb)) s'" "k < length ?rb \<longrightarrow> cfreelist (clm s') = 0"
    "ttyqs s' (C((tp, Rawq) := rest, (tp, Canq) := C (tp, Canq) @ take k (rev ?rb)))"
    "t_delct (ttys s' tp) = cchar (t_delct (ttys s tp) - 1)" by auto
  with take_line_raw [OF assms(2) tl] show ?thesis
    unfolding edit_def by (intro exI [of _ s'] exI [of _ k]) auto
qed

theorem canon_edits_witness:
  "\<exists>s' k. canon (sr_drv demo_ports) 0
       (line_st (tty0\<lparr>t_rawq := one_block [104, 105, 120, 35, 10, 255], t_delct := 1\<rparr>) [104, 105, 120, 35, 10, 255]) = Ok 3 s' \<and>
     ttyqs s' ((\<lambda>_. [])((0, Canq) := take k [104, 105, 10]))"
proof -
  let ?cs = "[104, 105, 120, 35, 10, 255] :: int list" and ?l = "[104, 105, 120, 35, 10] :: int list"
  let ?t = "tty0\<lparr>t_rawq := one_block ?cs, t_delct := 1\<rparr>"
  define s where "s = line_st ?t ?cs"
  let ?C = "(\<lambda>_ :: nat \<times> tqueue. [])((0, Rawq) := ?cs)"
  have q: "ttyqs s ?C"
    unfolding s_def
  proof (rule line_st_queues)
    show "tq j ?t = clist_nil" if "j \<noteq> Rawq" for j using that by (cases j) (simp_all add: tty0_def)
  qed simp_all
  have t: "ttys s 0 = ?t" "canonb s = replicate CANBSIZ 0" by (simp_all add: s_def line_st_def)
  have e: "edit (ttys s 0) ?l = [104, 105, 10]" unfolding t by (simp add: edit_def edit_char_def tty0_def)
  have "\<exists>s' k. canon (sr_drv demo_ports) 0 s = Ok (int (length (edit (ttys s 0) ?l))) s' \<and>
     ttyqs s' (?C((0, Rawq) := [], (0, Canq) := ?C (0, Canq) @ take k (edit (ttys s 0) ?l))) \<and>
     (cfreelist (clm s') \<noteq> 0 \<longrightarrow> length (edit (ttys s 0) ?l) \<le> k) \<and> raw_ok (t_delct (ttys s' 0)) []"
    by (rule canon_edits [OF q]) (simp_all add: t CANBSIZ_def RAW_def CBREAK_def tty0_def raw_ok_def TTYHOG_def)
  moreover have "?C((0, Rawq) := [], (0, Canq) := ?C (0, Canq) @ xs) = (\<lambda>_. [])((0, Canq) := xs)" for xs :: "int list"
    by (auto simp: fun_eq_iff)
  ultimately show ?thesis unfolding e s_def [symmetric] by (auto simp del: fun_upd_apply)
qed



text \<open>
  C17: On a serial line that is not in raw mode, every character received keeps the terminal well formed: sound queues of bytes, a raw
  queue of at most \<^verbatim>\<open>TTYHOG\<close> + 2 characters of seven bits or delimiters, and a column and a delimiter count that are \<^verbatim>\<open>char\<close>s.
  Although the count can overflow its \<^verbatim>\<open>char\<close>, it is zero exactly when no complete line is queued, which is what \<^verbatim>\<open>canon\<close> tests
  before it sleeps.
\<close>

theorem ttyinput_keeps_ok:
  assumes "tty_ok tp s" "t_flags (ttys s tp) AND RAW = 0"
  shows "kpost (ttyinput (sr_drv p) c tp s)
     (\<lambda>_ s'. tty_ok tp s' \<and> (\<exists>C. ttyqs s' C \<and> (t_delct (ttys s' tp) = 0 \<longleftrightarrow> 255 \<notin> set (C (tp, Rawq)))))
     (\<lambda>_ _ _. False) (\<lambda>_ _. True)"
proof (rule kpost_weaken)
  show "ksafe (tty_at tp (t_flags (ttys s tp)) (t_tc (ttys s tp))) (ttyinput (sr_drv p) c tp s)"
    by (rule sr.ttyinput_at) (use assms in \<open>simp_all add: tty_at_def\<close>)
  show "tty_ok tp s' \<and> (\<exists>C. ttyqs s' C \<and> (t_delct (ttys s' tp) = 0 \<longleftrightarrow> 255 \<notin> set (C (tp, Rawq))))"
    if "tty_at tp (t_flags (ttys s tp)) (t_tc (ttys s tp)) s'" for s'
    using that delct_zero unfolding tty_at_def tty_ok_def by blast
qed simp_all

lemma tty0_ok: "tty_ok 0 (line_st tty0 [])"
proof -
  have "ttyqs (line_st tty0 []) ((\<lambda>_. [])((0, Outq) := []))"
  proof (rule line_st_queues)
    show "tq j tty0 = clist_nil" if "j \<noteq> Outq" for j by (cases j) (simp_all add: tty0_def)
  qed (simp_all add: one_block_def tty0_def)
  moreover have "ttys (line_st tty0 []) 0 = tty0" by (simp add: line_st_def)
  ultimately show ?thesis unfolding tty_ok_def using raw_ok_nil by (auto simp: tty0_def)
qed

theorem ttyinput_keeps_ok_witness:
  "kpost (ttyinput (sr_drv demo_ports) 10 0 (line_st tty0 [])) (\<lambda>_ s'. tty_ok 0 s') (\<lambda>_ _ _. False) (\<lambda>_ _. True)"
  by (rule kpost_weaken [OF ttyinput_keeps_ok [OF tty0_ok]]) (simp_all add: line_st_def tty0_def RAW_def)





text \<open>
  C37: Setting the special characters of a terminal changes only four of the six: \<^verbatim>\<open>copyin\<close> moves whole words, so of the six bytes
  of \<^verbatim>\<open>struct tc\<close> the end-of-file and break characters keep their old values, and no error is reported.
\<close>

theorem tiocsetc_drops_eof:
  assumes "\<not> past_user addr 6" "umapped addr 4 s = [a, b, c, e]"
    "cchar (eofc (t_tc (ttys s tp))) = eofc (t_tc (ttys s tp))" "cchar (brkc (t_tc (ttys s tp))) = brkc (t_tc (ttys s tp))"
  shows "ttioccomm d TIOCSETC tp addr dev s = Ok True (s\<lparr>ttys := (ttys s)(tp := (ttys s tp)\<lparr>t_tc :=
     (t_tc (ttys s tp))\<lparr>intrc := cchar a, quitc := cchar b, startc := cchar c, stopc := cchar e\<rparr>\<rparr>)\<rparr>)"
proof -
  have m: "cchar (x mod 256) = cchar x" for x
    unfolding cchar_def by (simp add: mod_add_left_eq)
  have cp: "copyin_k addr 6 s = Ok (False, [a, b, c, e]) s"
    using assms(1,2) by (simp add: copyin_k_def kget_def words_def Let_def)
  have w: "tc_of (a # b # c # e # drop (Suc (Suc (Suc (Suc 0)))) (tc_bytes x)) = x\<lparr>intrc := cchar a, quitc := cchar b, startc := cchar c, stopc := cchar e\<rparr>"
    if "cchar (eofc x) = eofc x" "cchar (brkc x) = brkc x" for x
    using that by (cases x) (simp add: tc_of_def tc_bytes_def m)
  show ?thesis
    unfolding ttioccomm_def using w [OF assms(3,4)]
    by (simp add: ioc_defs kbind_Ok [of "copyin_k addr 6", OF cp] krun kret_def)
qed

theorem tiocsetc_drops_eof_witness:
  "ttioccomm (sr_drv demo_ports) TIOCSETC 0 100 0 (line_st tty0 []) =
     Ok True ((line_st tty0 [])\<lparr>ttys := (ttys (line_st tty0 []))(0 := tty0\<lparr>t_tc := (t_tc tty0)\<lparr>intrc := 65, quitc := 65, startc := 65, stopc := 65\<rparr>\<rparr>)\<rparr>)"
proof -
  let ?s = "line_st tty0 []"
  have "umapped 100 4 ?s = [65, 65, 65, 65]" by (simp add: umapped_def line_st_def eval_nat_numeral)
  moreover have "ttys ?s 0 = tty0" "\<not> past_user 100 6" by (simp_all add: line_st_def past_user_def)
  ultimately show ?thesis
    using tiocsetc_drops_eof [of 100 ?s 65 65 65 65 0 "sr_drv demo_ports" 0] by (simp add: tty0_def)
qed

end
