(* ===== verification/Ioctl.thy ===== *)
theory Ioctl
  imports Fio Tty
begin

text \<open>
  The system calls \<^verbatim>\<open>ioctl\<close>, \<^verbatim>\<open>stty\<close> and \<^verbatim>\<open>gtty\<close> of \<^verbatim>\<open>dev/tty.c\<close>. The row of the character switch that serves the
  device is an argument, as a function of the device, the command, its argument and the file's flags.
\<close>

definition EXCLOSE :: int where "EXCLOSE = 1"

type_synonym 's d_ioctl = "int \<Rightarrow> int \<Rightarrow> int \<Rightarrow> fflag set \<Rightarrow> (unit, 's) kmon"

definition ioctl :: "'a fss_scheme d_ioctl \<Rightarrow> (unit, 'a fss_scheme) kmon" where
  "ioctl d_ioctl =
     kbind (uget u_arg) (\<lambda>a.
     let fdes = a ! 0; cmd = a ! 1; cmarg = a ! 2 in
     kbind (getf fdes) (\<lambda>r.
     case r of
       None \<Rightarrow> kret ()
     | Some fp \<Rightarrow>
         if cmd = FIOCLEX then umod (\<lambda>v. v\<lparr>u_pofile := (u_pofile v)(nat fdes := u_pofile v (nat fdes) OR EXCLOSE)\<rparr>)
         else if cmd = FIONCLEX then umod (\<lambda>v. v\<lparr>u_pofile := (u_pofile v)(nat fdes := u_pofile v (nat fdes) AND NOT EXCLOSE)\<rparr>)
         else
           kbind (fget fp id) (\<lambda>f.
           kbind (iget_f (f_inode f) id) (\<lambda>ip.
           let fmt = i_mode ip AND IFMT in
           if fmt \<noteq> IFCHR \<and> fmt \<noteq> IFMPC then seterr ENOTTY
           else d_ioctl (short (i_addr ip ! 0)) cmd cmarg (f_flag f)))))"

definition stty :: "'a fss_scheme d_ioctl \<Rightarrow> (unit, 'a fss_scheme) kmon" where
  "stty d_ioctl = kthen (umod (\<lambda>v. v\<lparr>u_arg := (u_arg v)[2 := u_arg v ! 1, 1 := TIOCSETP]\<rparr>)) (ioctl d_ioctl)"

definition gtty :: "'a fss_scheme d_ioctl \<Rightarrow> (unit, 'a fss_scheme) kmon" where
  "gtty d_ioctl = kthen (umod (\<lambda>v. v\<lparr>u_arg := (u_arg v)[2 := u_arg v ! 1, 1 := TIOCGETP]\<rparr>)) (ioctl d_ioctl)"

end
