(* ===== verification/Image.thy ===== *)
theory Image
  imports Fio
begin

text \<open>
  Process images: the user page table (\<^verbatim>\<open>sys/utab.c\<close>) and the routines of \<^verbatim>\<open>sys/slp.c\<close> that create, resize and swap images
  (\<^verbatim>\<open>expand\<close>, \<^verbatim>\<open>swapin\<close>, \<^verbatim>\<open>sched\<close>, \<^verbatim>\<open>newproc\<close>). An image is a run of pages of physical memory, which is \<open>core\<close> by physical
  address: the user block of \<^verbatim>\<open>USIZE\<close> pages, the data, and the stack. The user structure lies in the first page; it
  is kept beside it, as \<open>u\<close> for the running process and in \<open>uarea\<close> for a process that has been created by copying. The saved
  registers \<^verbatim>\<open>u.u_ar0\<close> are \<open>ar0\<close>.

  \<^verbatim>\<open>save\<close> returns 0 when it is called and control comes back to it by a \<^verbatim>\<open>resume\<close>: where a routine resumes its own process the
  model goes on after the \<^verbatim>\<open>save\<close>; where it calls \<^verbatim>\<open>swtch\<close> and does not return, the run ends as a
  sleep on \<open>Ch_swtch\<close>, which no \<^verbatim>\<open>wakeup\<close> names.
\<close>

unbundle bit_operations_syntax

section \<open>State\<close>

record mst = xst +
  upt :: "int \<Rightarrow> int"
  uplo :: int
  uphi :: int
  maxmem :: int
  uarea :: "nat \<Rightarrow> user"
  ar0 :: "int \<Rightarrow> int"
  acctp :: "nat option"
  ip_lock :: int
  ip_req :: int
  ip_addr :: int
  ip_data :: int

definition USIZE :: int where "USIZE = 2"
definition PGSZ :: int where "PGSZ = 4096"
definition USTK :: int where "USTK = 4194304"
definition MAXMEM :: int where "MAXMEM = 2048"
definition RO :: int where "RO = 5"
definition RW :: int where "RW = 7"

definition btoc :: "int \<Rightarrow> int" where
  "btoc x = cuint (x + 4095) div 4096"

definition malloc_core :: "int \<Rightarrow> (int, 'a xst_scheme) kmon" where
  "malloc_core sz = kbind (kget (\<lambda>s. malloc (coremap s) sz)) (\<lambda>r.
     case r of None \<Rightarrow> wild | Some (a, m) \<Rightarrow> kthen (kmod (\<lambda>s. s\<lparr>coremap := m\<rparr>)) (kret a))"

definition kswtch :: "('b, 's) kmon" where
  "kswtch = ksleep Ch_swtch 0"

section \<open>The page table\<close>

definition upt_put :: "int \<Rightarrow> int \<Rightarrow> (unit, 'a mst_scheme) kmon" where
  "upt_put i v = (if 0 \<le> i \<and> i < 1024 then kmod (\<lambda>s. s\<lparr>upt := (upt s)(i := v)\<rparr>) else wild)"

text \<open>\<^verbatim>\<open>for (n = k; n--; a += PGSZ) upt[i++] = a | x\<close>; a negative count would run off the table.\<close>

definition upt_fill :: "int \<Rightarrow> int \<Rightarrow> int \<Rightarrow> int \<Rightarrow> (unit, 'a mst_scheme) kmon" where
  "upt_fill i k a x = (if k < 0 then wild else kfor [0 .. k - 1] (\<lambda>j. upt_put (i + j) ((a + j * PGSZ) OR x)))"

definition sureg :: "(unit, 'a mst_scheme) kmon" where
  "sureg =
     kbind (uget u_utab) (\<lambda>ut.
     let nt = ut 0; nd = ut 1; ns = ut 2; xx = ut 3 in
     kbind (kget uplo) (\<lambda>i.
     kthen (kmod (\<lambda>s. s\<lparr>uplo := nt + nd\<rparr>))
     (kthen (kfor (rev [nt + nd .. i - 1]) (\<lambda>i. upt_put i 0))
     (kbind (kget uphi) (\<lambda>i.
     kthen (kmod (\<lambda>s. s\<lparr>uphi := 1023 - ns\<rparr>))
     (kthen (kfor [i + 1 .. 1023 - ns] (\<lambda>i. upt_put i 0))
     (kbind (uget u_procp) (\<lambda>p.
     kbind (pget p id) (\<lambda>q.
     kbind (case p_textp q of None \<Rightarrow> kret (p_addr q) | Some xp \<Rightarrow> xget xp x_caddr) (\<lambda>t.
     let taddr = cint (t * PGSZ); daddr = cint (p_addr q * PGSZ); a = daddr + USIZE * PGSZ in
     kthen (upt_fill 0 nt taddr xx)
     (kthen (upt_fill nt nd a 7)
     (upt_fill (1024 - ns) ns (a + nd * PGSZ) 7))))))))))))"

definition estabur :: "int \<Rightarrow> int \<Rightarrow> int \<Rightarrow> int \<Rightarrow> int \<Rightarrow> (int, 'a mst_scheme) kmon" where
  "estabur nt nd ns sep xrw =
     kbind (kget maxmem) (\<lambda>mm.
     if nt + nd + ns > 1023 \<or> nt + nd + ns + USIZE > mm then kthen (seterr ENOMEM) (kret (-1))
     else
       kthen (umod (\<lambda>v. v\<lparr>u_utab := (u_utab v)(0 := nt, 1 := nd, 2 := ns, 3 := xrw)\<rparr>))
       (kthen sureg (kret 0)))"

section \<open>Pages\<close>

definition clearseg :: "int \<Rightarrow> (unit, 'a mst_scheme) kmon" where
  "clearseg d = kmod (\<lambda>s. s\<lparr>core := (\<lambda>x. if ctob d \<le> x \<and> x < ctob d + PGSZ then 0 else core s x)\<rparr>)"

definition copyseg :: "int \<Rightarrow> int \<Rightarrow> (unit, 'a mst_scheme) kmon" where
  "copyseg a d =
     (if a = d then kret ()
      else kmod (\<lambda>s. s\<lparr>core := (\<lambda>x. if ctob d \<le> x \<and> x < ctob d + PGSZ then core s (x - ctob d + ctob a) else core s x)\<rparr>))"

text \<open>\<^verbatim>\<open>for (i = 0; i < n; i++) copyseg(a1+i, a2+i)\<close>.\<close>

definition copy_image :: "int \<Rightarrow> int \<Rightarrow> int \<Rightarrow> (unit, 'a mst_scheme) kmon" where
  "copy_image n a1 a2 = kfor [0 .. n - 1] (\<lambda>i. copyseg (a1 + i) (a2 + i))"

section \<open>\<^verbatim>\<open>sys/slp.c\<close>\<close>

definition expand :: "int \<Rightarrow> (unit, 'a mst_scheme) kmon" where
  "expand newsize =
     kbind (uget u_procp) (\<lambda>p.
     kbind (pget p id) (\<lambda>q.
     let n = p_size q; a1 = p_addr q in
     kthen (pmod p (\<lambda>q. q\<lparr>p_size := short newsize\<rparr>))
     (if n \<ge> newsize then mfree_core (n - newsize) (a1 + newsize)
      else
        kbind (malloc_core newsize) (\<lambda>a2.
        if a2 = 0 then
          kthen (xswap p True n)
          (kthen (pmod p (\<lambda>q. q\<lparr>p_flag := p_flag q \<union> {SSWAP}\<rparr>))
          (kthen qswtch kswtch))
        else
          kthen (pmod p (\<lambda>q. q\<lparr>p_addr := short a2\<rparr>))
          (kthen (copy_image n a1 a2)
          (kthen (mfree_core n a1)
          sureg))))))"

definition swapin :: "nat \<Rightarrow> (bool, 'a mst_scheme) kmon" where
  "swapin p =
     kbind (pget p id) (\<lambda>q.
     kbind (malloc_core (p_size q)) (\<lambda>a.
     if a = 0 then kret False
     else
       (let load =
          kthen (swap (p_addr q) a (p_size q) {B_READ})
          (kthen (mfree_swap (ctod (p_size q)) (p_addr q))
          (kthen (pmod p (\<lambda>q. q\<lparr>p_addr := short a, p_flag := p_flag q \<union> {SLOAD}, p_time := 0\<rparr>))
          (kret True)))
        in case p_textp q of
          None \<Rightarrow> load
        | Some xp \<Rightarrow>
            kthen (xlock xp)
            (kbind (xget xp id) (\<lambda>x.
             kbind (if x_ccount x = 0 then
                 kbind (malloc_core (x_size x)) (\<lambda>c.
                 if c = 0 then
                   kthen (xunlock xp) (kthen (mfree_core (p_size q) a) (kret False))
                 else
                   kthen (xmod xp (\<lambda>x. x\<lparr>x_caddr := short c\<rparr>))
                   (kthen (kwhen (XLOAD \<notin> x_flag x) (swap (x_daddr x) c (x_size x) {B_READ}))
                   (kret True)))
               else kret True) (\<lambda>ok.
             if \<not> ok then kret False
             else
               kthen (xmod xp (\<lambda>x. x\<lparr>x_ccount := cchar (x_ccount x + 1)\<rparr>))
               (kthen (xunlock xp) load)))))))"

text \<open>The two searches of \<^verbatim>\<open>sched\<close>: the process out longest, and the one to swap out, with \<^verbatim>\<open>maxsize\<close> and \<^verbatim>\<open>inage\<close>.\<close>

definition outage_of :: "proc \<Rightarrow> int" where
  "outage_of q = p_time q - (p_nice q - NZERO) * 8"

fun sched_pick :: "(nat \<Rightarrow> proc) \<Rightarrow> nat list \<Rightarrow> nat \<Rightarrow> int \<Rightarrow> nat \<times> int" where
  "sched_pick pr [] p outage = (p, outage)"
| "sched_pick pr (rp # rs) p outage =
     (if p_stat (pr rp) = SRUN \<and> SLOAD \<notin> p_flag (pr rp) \<and> outage_of (pr rp) > outage
      then sched_pick pr rs rp (outage_of (pr rp)) else sched_pick pr rs p outage)"

definition swappable :: "(nat \<Rightarrow> text_s) \<Rightarrow> proc \<Rightarrow> bool" where
  "swappable tx q \<longleftrightarrow> p_stat q \<noteq> SZOMB \<and> p_flag q \<inter> {SSYS, SLOCK, SULOCK, SLOAD} = {SLOAD} \<and>
     (case p_textp q of None \<Rightarrow> True | Some xp \<Rightarrow> XLOCK \<notin> x_flag (tx xp))"

fun sched_victim :: "(nat \<Rightarrow> text_s) \<Rightarrow> (nat \<Rightarrow> proc) \<Rightarrow> nat list \<Rightarrow> nat option \<Rightarrow> int \<Rightarrow> int \<Rightarrow> nat option \<times> int \<times> int" where
  "sched_victim tx pr [] p maxsize inage = (p, maxsize, inage)"
| "sched_victim tx pr (rp # rs) p maxsize inage =
     (let q = pr rp; go = sched_victim tx pr rs in
      if \<not> swappable tx q then go p maxsize inage
      else if p_stat q = SSLEEP \<and> p_pri q \<ge> PZERO \<or> p_stat q = SSTOP then
        (if maxsize < p_size q then go (Some rp) (p_size q) inage else go p maxsize inage)
      else if maxsize < 0 \<and> (p_stat q = SRUN \<or> p_stat q = SSLEEP) then
        (if p_time q + p_nice q - NZERO > inage then go (Some rp) maxsize (p_time q + p_nice q - NZERO)
         else go p maxsize inage)
      else go p maxsize inage)"

text \<open>The number bounds the turns between two sleeps.\<close>

fun sched :: "nat \<Rightarrow> (unit, 'a mst_scheme) kmon" where
  "sched 0 = kspin"
| "sched (Suc k) =
     kbind (kget (\<lambda>s. sched_pick (proc s) [0 ..< NPROC] 0 (-20000))) (\<lambda>(p, outage).
     if outage = -20000 then kthen (kmod (\<lambda>s. s\<lparr>runout := cchar (runout s + 1)\<rparr>)) (ksleep Ch_runout PSWP)
     else
       kbind (swapin p) (\<lambda>done.
       if done then sched k
       else
         kbind (kget (\<lambda>s. sched_victim (text_t s) (proc s) [0 ..< NPROC] None (-1) (-1))) (\<lambda>(v, maxsize, inage).
         if maxsize \<ge> 0 \<or> outage \<ge> 3 \<and> inage \<ge> 2 then
           (case v of
              None \<Rightarrow> wild
            | Some v \<Rightarrow> kthen (pmod v (\<lambda>q. q\<lparr>p_flag := p_flag q - {SLOAD}\<rparr>)) (kthen (xswap v True 0) (sched k)))
         else kthen (kmod (\<lambda>s. s\<lparr>runin := cchar (runin s + 1)\<rparr>)) (ksleep Ch_runin PSWP))))"

text \<open>The entry of the new process, made from its parent's; the counts it shares; its image.\<close>

definition child_of :: "proc \<Rightarrow> int \<Rightarrow> proc \<Rightarrow> proc" where
  "child_of q pid x = x\<lparr>p_stat := SRUN, p_clktim := 0, p_flag := {SLOAD}, p_uid := p_uid q, p_pgrp := p_pgrp q,
     p_nice := p_nice q, p_textp := p_textp q, p_pid := short pid, p_ppid := p_pid q, p_time := 0, p_cpu := 0\<rparr>"

definition dup_file :: "nat \<Rightarrow> (unit, 'a fss_scheme) kmon" where
  "dup_file n = kbind (uget (\<lambda>v. u_ofile v n)) (\<lambda>f.
     case f of None \<Rightarrow> kret () | Some fp \<Rightarrow> filemod fp (\<lambda>f. f\<lparr>f_count := cchar (f_count f + 1)\<rparr>))"

definition dup_refs :: "nat option \<Rightarrow> (unit, 'a xst_scheme) kmon" where
  "dup_refs xo =
     kthen (kfor [0 ..< NOFILE] dup_file)
     (kthen (case xo of None \<Rightarrow> kret ()
        | Some xp \<Rightarrow> xmod xp (\<lambda>x. x\<lparr>x_count := cchar (x_count x + 1), x_ccount := cchar (x_ccount x + 1)\<rparr>))
     (kbind (uget u_cdir) (\<lambda>cd.
      kthen (imod cd (\<lambda>i. i\<lparr>i_count := cchar (i_count i + 1)\<rparr>))
      (kbind (uget u_rdir) (\<lambda>rd.
       case rd of None \<Rightarrow> kret () | Some ip \<Rightarrow> imod ip (\<lambda>i. i\<lparr>i_count := cchar (i_count i + 1)\<rparr>))))))"

definition newproc :: "(unit, 'a mst_scheme) kmon" where
  "newproc =
     kbind newpid (\<lambda>pid.
     kbind (kget (\<lambda>s. find (\<lambda>i. p_stat (proc s i) = SNULL) [0 ..< NPROC])) (\<lambda>r.
     case r of
       None \<Rightarrow> kpanic ''no procs''
     | Some rpp \<Rightarrow>
         kbind (uget u_procp) (\<lambda>rip.
         kbind (pget rip id) (\<lambda>q.
         kthen (pmod rpp (child_of q pid))
         (kthen (dup_refs (p_textp q))
         (kthen (umod (\<lambda>v. v\<lparr>u_procp := rpp\<rparr>))
         (let n = p_size q; a1 = p_addr q in
          kthen (pmod rpp (\<lambda>x. x\<lparr>p_size := n\<rparr>))
          (kbind (malloc_core n) (\<lambda>a2.
           kthen (kmod (\<lambda>s. s\<lparr>uarea := (uarea s)(rpp := u s)\<rparr>))
           (kthen (if a2 = 0 then
                kthen (pmod rip (\<lambda>x. x\<lparr>p_stat := SIDL\<rparr>))
                (kthen (pmod rpp (\<lambda>x. x\<lparr>p_addr := a1\<rparr>))
                (kthen (xswap rpp False 0)
                (pmod rip (\<lambda>x. x\<lparr>p_stat := SRUN\<rparr>))))
              else
                kthen (pmod rpp (\<lambda>x. x\<lparr>p_addr := short a2\<rparr>)) (copy_image (cuint n) a1 a2))
           (kthen (umod (\<lambda>v. v\<lparr>u_procp := rip\<rparr>))
           (kthen (setrq rpp)
           (pmod rpp (\<lambda>x. x\<lparr>p_flag := p_flag x \<union> {SSWAP}\<rparr>))))))))))))))"

end
