(* ===== verification/Acct.thy ===== *)
theory Acct
  imports Image Namei
begin

text \<open>
  Accounting (\<^verbatim>\<open>sys/acct.c\<close>, \<^verbatim>\<open>h/acct.h\<close>): the system calls, the record written when a process ends, and its compressed times. The
  record \<^verbatim>\<open>acctbuf\<close> lies in the kernel's memory at \<open>ACCTBUF\<close>; its last byte is padding and keeps its content.
\<close>

unbundle bit_operations_syntax

definition ACCTBUF :: int where "ACCTBUF = 2 ^ 31 + 1024"

text \<open>The loop of \<^verbatim>\<open>compress\<close>, with the exponent and the bit to round by.\<close>

function compress_loop :: "int \<Rightarrow> int \<Rightarrow> int \<Rightarrow> int \<times> int \<times> int" where
  "compress_loop t exp round =
     (if t \<ge> 8192 then compress_loop (drop_bit 3 t) (exp + 1) (t AND 4) else (t, exp, round))"
  by pat_completeness auto
termination by (relation "measure (\<lambda>(t, _, _). nat t)") (auto simp: drop_bit_eq_div)

declare compress_loop.simps [simp del]

definition compress :: "int \<Rightarrow> int" where
  "compress t =
     (let (t, exp, round) = compress_loop t 0 0;
          (t, exp) = (if round \<noteq> 0 then (if t + 1 \<ge> 8192 then (drop_bit 3 (t + 1), exp + 1) else (t + 1, exp)) else (t, exp))
      in push_bit 13 exp + t)"

definition acct_bytes :: "user \<Rightarrow> int \<Rightarrow> int list" where
  "acct_bytes v now =
     take 10 (u_comm v) @ enc 2 (compress (u_utime v)) @ enc 2 (compress (u_stime v)) @ enc 2 (compress (cint (now - u_start v))) @
     enc 4 (u_start v) @ enc 2 (u_ruid v) @ enc 2 (u_rgid v) @ enc 2 0 @ enc 2 0 @ enc 2 (u_ttyd v) @ enc 1 (u_acflag v)"

definition core_put :: "int \<Rightarrow> int list \<Rightarrow> 'a kst_scheme \<Rightarrow> 'a kst_scheme" where
  "core_put a bs s = s\<lparr>core := (\<lambda>x. if a \<le> x \<and> x < a + int (length bs) then bs ! nat (x - a) else core s x)\<rparr>"

definition acct :: "'a mst_scheme devsw \<Rightarrow> (unit, 'a mst_scheme) kmon" where
  "acct cdev =
     kbind (kget acctp) (\<lambda>r.
     case r of
       None \<Rightarrow> kret ()
     | Some ip \<Rightarrow>
         kthen (plock ip)
         (kthen (kmod (\<lambda>s. core_put ACCTBUF (acct_bytes (u s) (time s)) s))
         (kbind (iget_f ip i_size) (\<lambda>siz.
          kthen (umod (\<lambda>v. v\<lparr>u_offset := siz, u_base := ACCTBUF, u_count := 32, u_segflg := 1, u_error := 0\<rparr>))
          (kthen (writei cdev ip)
          (kbind (uget u_error) (\<lambda>e.
           kthen (kwhen (e \<noteq> 0) (imod ip (\<lambda>i. i\<lparr>i_size := siz\<rparr>)))
           (prele ip))))))))"

definition sysacct :: "(unit, 'a mst_scheme) kmon" where
  "sysacct =
     kbind suser (\<lambda>ok.
     kwhen ok
       (kbind (uget (\<lambda>v. u_arg v ! 0)) (\<lambda>fname.
        kbind (kget acctp) (\<lambda>a.
        if fname = 0 then
          (case a of
             None \<Rightarrow> kret ()
           | Some ip \<Rightarrow> kthen (plock ip) (kthen (iput ip) (kmod (\<lambda>s. s\<lparr>acctp := None\<rparr>))))
        else if a \<noteq> None then seterr EBUSY
        else
          kbind (namei uchar 0) (\<lambda>r.
          case r of
            None \<Rightarrow> kret ()
          | Some ip \<Rightarrow>
              kbind (iget_f ip i_mode) (\<lambda>m.
              if m AND IFMT \<noteq> IFREG then kthen (seterr EACCES) (iput ip)
              else kthen (kmod (\<lambda>s. s\<lparr>acctp := Some ip\<rparr>)) (prele ip)))))))"

definition syslock :: "(unit, 'a kst_scheme) kmon" where
  "syslock =
     kbind suser (\<lambda>ok.
     kwhen ok
       (kbind (uget u_procp) (\<lambda>p.
        kthen (pmod p (\<lambda>q. q\<lparr>p_flag := p_flag q - {SULOCK}\<rparr>))
        (kbind (uget (\<lambda>v. u_arg v ! 0)) (\<lambda>flag.
         kwhen (flag \<noteq> 0) (pmod p (\<lambda>q. q\<lparr>p_flag := p_flag q \<union> {SULOCK}\<rparr>)))))))"

end
