(* ===== verification/Acct_Spec.thy ===== *)
theory Acct_Spec
  imports Acct
begin

text \<open>
  The times of the accounting record: \<^verbatim>\<open>compress\<close> (\<^verbatim>\<open>sys/acct.c\<close>) packs a time into three bits of exponent and thirteen of
  fraction. The value such a code stands for is \<open>expanded\<close>.
\<close>

unbundle bit_operations_syntax

definition expanded :: "int \<Rightarrow> int" where
  "expanded c = c mod 8192 * 8 ^ nat (c div 8192)"

lemma and_4: "x AND 4 \<noteq> 0 \<longleftrightarrow> 4 \<le> x mod 8" for x :: int
proof -
  have "x AND 2 ^ 2 = 0 \<longleftrightarrow> \<not> bit x 2" by (rule and_exp_eq_0_iff_not_bit)
  moreover have "bit x 2 \<longleftrightarrow> 4 \<le> x mod 8" unfolding bit_iff_odd by simp presburger
  ultimately show ?thesis by simp
qed

text \<open>The loop divides by eight until the fraction fits; the last digit shifted out says how to round.\<close>

lemma compress_loop_ok:
  "0 \<le> t \<Longrightarrow> \<exists>k. compress_loop t e r = (t div 8 ^ k, e + int k, if k = 0 then r else t div 8 ^ (k - 1) AND 4) \<and>
     t div 8 ^ k < 8192 \<and> (0 < k \<longrightarrow> 8192 \<le> t div 8 ^ (k - 1))"
proof (induction t e r rule: compress_loop.induct)
  case (1 t e r)
  show ?case
  proof (cases "8192 \<le> t")
    case False
    then show ?thesis by (intro exI [of _ 0]) (simp add: compress_loop.simps [of t])
  next
    case True
    have d: "drop_bit 3 t = t div 8" by (simp add: drop_bit_eq_div)
    obtain k where k: "compress_loop (t div 8) (e + 1) (t AND 4) = (t div 8 div 8 ^ k, e + 1 + int k, if k = 0 then t AND 4 else t div 8 div 8 ^ (k - 1) AND 4)"
      "t div 8 div 8 ^ k < 8192" "0 < k \<longrightarrow> 8192 \<le> t div 8 div 8 ^ (k - 1)"
      using 1(1) [unfolded d, OF True] 1(2) by (auto simp: pos_imp_zdiv_nonneg_iff)
    have e: "t div 8 div 8 ^ j = t div 8 ^ Suc j" for j by (simp add: zdiv_zmult2_eq)
    have "0 < k \<Longrightarrow> t div 8 div 8 ^ (k - 1) = t div 8 ^ k" using e [of "k - 1"] by simp
    then show ?thesis using k True unfolding compress_loop.simps [of t] d e
      by (intro exI [of _ "Suc k"]) auto
  qed
qed

lemma round_half:
  fixes t :: int
  assumes "0 < k"
  shows "t div 8 ^ (k - 1) AND 4 \<noteq> 0 \<longleftrightarrow> 8 ^ k \<le> 2 * (t mod 8 ^ k)"
proof -
  define b x where "b = (8 :: int) ^ (k - 1)" and "x = t div b"
  have k: "(8 :: int) ^ k = b * 8" using assms by (cases k) (simp_all add: b_def)
  have "t mod (b * 8) = b * (x mod 8) + t mod b" using zmod_zmult2_eq [of 8 t b] by (simp add: x_def)
  moreover have "0 \<le> t mod b" "t mod b < b" "0 < b" by (simp_all add: b_def)
  moreover have "b * 4 \<le> b * (x mod 8) \<longleftrightarrow> 4 \<le> x mod 8" "x mod 8 < 4 \<longrightarrow> b * (x mod 8) \<le> b * 3" using \<open>0 < b\<close> by (auto intro: mult_left_mono)
  ultimately have "4 \<le> x mod 8 \<longleftrightarrow> b * 8 \<le> 2 * (t mod (b * 8))" by linarith
  then show ?thesis unfolding and_4 k by (simp add: x_def b_def)
qed

text \<open>The outcome as a rounded quotient, renormalised when rounding overflows the fraction.\<close>

lemma compress_eq:
  assumes "0 \<le> t"
  shows "\<exists>k f. t div 8 ^ k < 8192 \<and> (0 < k \<longrightarrow> 1024 \<le> t div 8 ^ k) \<and>
     f = t div 8 ^ k + (if 0 < k \<and> 8 ^ k \<le> 2 * (t mod 8 ^ k) then 1 else 0) \<and>
     compress t = (if f = 8192 then int (Suc k) * 8192 + 1024 else int k * 8192 + f)"
proof -
  obtain k where k: "compress_loop t 0 0 = (t div 8 ^ k, int k, if k = 0 then 0 else t div 8 ^ (k - 1) AND 4)"
    "t div 8 ^ k < 8192" "0 < k \<longrightarrow> 8192 \<le> t div 8 ^ (k - 1)"
    using compress_loop_ok [OF assms, of 0 0] by auto
  have "1024 \<le> t div 8 ^ k" if "0 < k"
  proof -
    have "t div 8 ^ k = t div 8 ^ (k - 1) div 8" using that zdiv_zmult2_eq [of 8 t "8 ^ (k - 1)"] by (cases k) (simp_all add: mult.commute)
    then show ?thesis using k(3) that by simp
  qed
  moreover have "t div 8 ^ k \<noteq> 8191 \<or> drop_bit 3 (t div 8 ^ k + 1) = 1024" by (auto simp: drop_bit_eq_div)
  ultimately show ?thesis using k(2) round_half [of k t]
    by (intro exI [of _ k]) (auto simp: compress_def k(1) push_bit_eq_mult)
qed

lemma round_error:
  fixes t :: int
  assumes "b > 0" "q = t div b" "f = q + (if b \<le> 2 * (t mod b) then 1 else 0)"
  shows "2 * \<bar>f * b - t\<bar> \<le> b"
proof -
  have t: "t = q * b + t mod b" "0 \<le> t mod b" "t mod b < b" using assms by simp_all
  show ?thesis
  proof (cases "b \<le> 2 * (t mod b)")
    case True
    then have "f * b - t = b - t mod b" using assms(3) t(1) by (simp add: algebra_simps)
    then show ?thesis using True t by simp
  next
    case False
    then have "f * b - t = - (t mod b)" using assms(3) t(1) by (simp add: algebra_simps)
    then show ?thesis using False t by simp
  qed
qed

text \<open>C34: for every time that fits a \<^verbatim>\<open>time_t\<close> the code of \<^verbatim>\<open>compress\<close> fits the sixteen bits of a \<^verbatim>\<open>comp_t\<close>; a time
  below 8192 is stored as itself; any other comes back with an error of at most half a unit of its exponent, which is at most one part in 2048.\<close>

theorem compress_accurate:
  assumes "0 \<le> t" "t < 2 ^ 31"
  shows "0 \<le> compress t \<and> compress t < 2 ^ 16 \<and> (t < 8192 \<longrightarrow> compress t = t) \<and>
     2 * \<bar>expanded (compress t) - t\<bar> \<le> 8 ^ nat (compress t div 8192) \<and> 2048 * \<bar>expanded (compress t) - t\<bar> \<le> t"
proof -
  obtain k f where k: "t div 8 ^ k < 8192" "0 < k \<longrightarrow> 1024 \<le> t div 8 ^ k" "f = t div 8 ^ k + (if 0 < k \<and> 8 ^ k \<le> 2 * (t mod 8 ^ k) then 1 else 0)"
    "compress t = (if f = 8192 then int (Suc k) * 8192 + 1024 else int k * 8192 + f)" using compress_eq [OF assms(1)] by blast
  define b where "b = (8 :: int) ^ k"
  have b: "0 < b" "t = t div b * b + t mod b" "0 \<le> t mod b" by (simp add: b_def, simp only: div_mult_mod_eq, simp add: b_def)
  have f: "0 \<le> f" "f \<le> 8192" "f = 8192 \<longrightarrow> 0 < k" using k(1-3) assms(1) by (auto simp: pos_imp_zdiv_nonneg_iff split: if_splits)
  have big: "1024 * b \<le> t" if "0 < k"
  proof -
    have "1024 * b \<le> t div b * b" using k(2) that b(1) by (auto simp: b_def intro: mult_right_mono)
    then show ?thesis using b by linarith
  qed
  have k6: "k < 7"
  proof (rule ccontr)
    assume "\<not> k < 7"
    then have "(8 :: int) ^ 7 \<le> b" unfolding b_def by (intro power_increasing) auto
    then show False using big \<open>\<not> k < 7\<close> assms(2) by auto
  qed
  have small: "k = 0" if "t < 8192"
  proof (rule ccontr)
    assume "k \<noteq> 0"
    then have "(8 :: int) ^ 1 \<le> b" unfolding b_def by (intro power_increasing) auto
    then show False using big \<open>k \<noteq> 0\<close> that by auto
  qed
  have v: "expanded (compress t) = f * b"
    using k(4) f by (cases "f = 8192") (simp_all add: expanded_def b_def nat_add_distrib)
  have err: "2 * \<bar>f * b - t\<bar> \<le> b" if "0 < k" using round_error [OF b(1) refl, of f t] k(3) that by (simp add: b_def)
  have zero: "f * b = t" if "k = 0" using k(3) that by (simp add: b_def)
  have ex: "b \<le> 8 ^ nat (compress t div 8192)" using k(4) f by (cases "f = 8192") (simp_all add: b_def nat_add_distrib)
  have "0 \<le> compress t" "compress t < 2 ^ 16" using k(4) f k6 by (auto split: if_splits)
  moreover have "compress t = t" if "t < 8192" using small [OF that] k(3,4) that f(3) by auto
  moreover have "2 * \<bar>f * b - t\<bar> \<le> 8 ^ nat (compress t div 8192)" "2048 * \<bar>f * b - t\<bar> \<le> t"
    using err zero ex big assms(1) by (cases "k = 0"; fastforce)+
  ultimately show ?thesis unfolding v by blast
qed

theorem compress_accurate_witness:
  "0 \<le> compress 8260 \<and> compress 8260 < 2 ^ 16 \<and> 2 * \<bar>expanded (compress 8260) - 8260\<bar> \<le> 8 ^ nat (compress 8260 div 8192) \<and> compress 8260 = 8192 + 1033"
proof -
  have "compress 8260 = 8192 + 1033" by code_simp
  then show ?thesis using compress_accurate [of 8260] by simp
qed

end
