(* ===== verification/Sys1.thy ===== *)
theory Sys1
  imports Acct
begin

text \<open>
  The life of a process: \<^verbatim>\<open>exit\<close>, \<^verbatim>\<open>wait\<close>, \<^verbatim>\<open>fork\<close>, \<^verbatim>\<open>sbreak\<close> and \<^verbatim>\<open>setregs\<close> of \<^verbatim>\<open>sys/sys1.c\<close>, and \<^verbatim>\<open>stop\<close>, \<^verbatim>\<open>grow\<close> and \<^verbatim>\<open>ptrace\<close> of
  \<^verbatim>\<open>sys/sig.c\<close>. Unlike in the file system, calls of \<^verbatim>\<open>wakeup\<close> take effect here (the parameter \<open>h\<close> is the hash of the sleep
  channels). A routine ends at its \<^verbatim>\<open>swtch\<close>.
\<close>

unbundle bit_operations_syntax

definition MAXUPRC :: int where "MAXUPRC = 25"
definition SSIZE :: int where "SSIZE = 1"
definition SINCR :: int where "SINCR = 1"
definition AFORK :: int where "AFORK = 1"
definition EIP :: int where "EIP = 5"
definition IPCPRI :: int where "IPCPRI = PZERO"

definition regloc :: "int list" where
  "regloc = [0, -2, -1, -3, -4, -5, -9, 8, 5, 7]"

section \<open>Exit\<close>

definition exit_files :: "'a mst_scheme switches \<Rightarrow> (unit, 'a mst_scheme) kmon" where
  "exit_files sw = kfor [0 ..< NOFILE] (\<lambda>i.
     kbind (uget (\<lambda>v. u_ofile v i)) (\<lambda>f.
     kthen (umod (\<lambda>v. v\<lparr>u_ofile := (u_ofile v)(i := None)\<rparr>)) (closef sw f)))"

definition drop_dir :: "nat \<Rightarrow> (unit, 'a fss_scheme) kmon" where
  "drop_dir ip = kthen (plock ip) (iput ip)"

text \<open>A child of the process \<open>pid\<close> is given to the process 1.\<close>

definition disown :: "(chan \<Rightarrow> nat) \<Rightarrow> int \<Rightarrow> nat \<Rightarrow> (unit, 'a kst_scheme) kmon" where
  "disown h pid q =
     kbind (pget q p_ppid) (\<lambda>pp.
     kwhen (pp = pid)
       (kthen (wakeup h (Ch_proc 1))
       (kthen (pmod q (\<lambda>x. x\<lparr>p_ppid := 1\<rparr>))
       (kbind (pget q p_stat) (\<lambda>st. kwhen (st = SSTOP) (setrun h q))))))"

definition exit_tail :: "(chan \<Rightarrow> nat) \<Rightarrow> nat \<Rightarrow> int \<Rightarrow> (unit, 'a kst_scheme) kmon" where
  "exit_tail h p rv =
     kbind (kget u) (\<lambda>v.
     kthen (pmod p (\<lambda>x. x\<lparr>p_stat := SZOMB, xp_xstat := short rv, xp_utime := cint (u_cutime v + u_utime v),
        xp_stime := cint (u_cstime v + u_stime v)\<rparr>))
     (kbind (pget p p_pid) (\<lambda>pid.
      kthen (kfor [0 ..< NPROC] (disown h pid))
      (kbind (kget (\<lambda>s. find (\<lambda>q. p_ppid (proc s p) = p_pid (proc s q)) [0 ..< NPROC])) (\<lambda>r.
       kthen (case r of None \<Rightarrow> kret () | Some q \<Rightarrow> wakeup h (Ch_proc q))
       kswtch)))))"

text \<open>The part of \<^verbatim>\<open>exit\<close> that gives back what the process \<open>p\<close> holds.\<close>

definition exit_release :: "'a mst_scheme switches \<Rightarrow> nat \<Rightarrow> (unit, 'a mst_scheme) kmon" where
  "exit_release sw p =
     kthen (pmod p (\<lambda>q. q\<lparr>p_flag := p_flag q - {STRC, SULOCK}, p_clktim := 0\<rparr>))
     (kthen (umod (\<lambda>v. v\<lparr>u_signal := (\<lambda>i. if i < NSIG then 1 else u_signal v i)\<rparr>))
     (kthen (exit_files sw)
     (kbind (uget u_cdir) (\<lambda>cd.
     kthen (drop_dir cd)
     (kbind (uget u_rdir) (\<lambda>rd.
     kthen (case rd of None \<Rightarrow> kret () | Some d \<Rightarrow> drop_dir d)
     (kthen xfree
     (kthen (acct (cdevsw sw))
     (kbind (pget p id) (\<lambda>q.
     mfree_core (p_size q) (p_addr q)))))))))))"

definition exit :: "(chan \<Rightarrow> nat) \<Rightarrow> 'a mst_scheme switches \<Rightarrow> int \<Rightarrow> (unit, 'a mst_scheme) kmon" where
  "exit h sw rv = kbind (uget u_procp) (\<lambda>p. kthen (exit_release sw p) (exit_tail h p rv))"

definition rexit :: "(chan \<Rightarrow> nat) \<Rightarrow> 'a mst_scheme switches \<Rightarrow> (unit, 'a mst_scheme) kmon" where
  "rexit h sw = kbind (uget (\<lambda>v. u_arg v ! 0)) (\<lambda>rval. exit h sw (push_bit 8 (rval AND 255)))"

section \<open>Wait\<close>

definition reap :: "nat \<Rightarrow> (unit, 'a kst_scheme) kmon" where
  "reap p =
     kbind (pget p id) (\<lambda>q.
     kthen (umod (\<lambda>v. v\<lparr>r_val1 := p_pid q, r_val2 := xp_xstat q, u_cutime := cint (u_cutime v + xp_utime q),
        u_cstime := cint (u_cstime v + xp_stime q)\<rparr>))
     (pmod p (\<lambda>q. q\<lparr>p_pid := 0, p_ppid := 0, p_pgrp := 0, p_sig := {}, p_flag := {}, p_wchan := None, p_stat := SNULL\<rparr>)))"

text \<open>The scan of \<^verbatim>\<open>wait\<close>; \<open>f\<close> counts the children seen, also over the turns before a sleep.\<close>

fun wait_scan :: "nat list \<Rightarrow> int \<Rightarrow> (unit, 'a kst_scheme) kmon" where
  "wait_scan [] f =
     (if f \<noteq> 0 then kbind (uget u_procp) (\<lambda>me. ksleep (Ch_proc me) PWAIT) else seterr ECHILD)"
| "wait_scan (p # ps) f =
     kbind (uget u_procp) (\<lambda>me.
     kbind (pget me p_pid) (\<lambda>pid.
     kbind (pget p id) (\<lambda>q.
     if p_ppid q \<noteq> pid then wait_scan ps f
     else if p_stat q = SZOMB then reap p
     else if p_stat q = SSTOP \<and> SWTED \<notin> p_flag q then
       kthen (pmod p (\<lambda>q. q\<lparr>p_flag := p_flag q \<union> {SWTED}\<rparr>))
       (umod (\<lambda>v. v\<lparr>r_val1 := p_pid q, r_val2 := push_bit 8 (int (fsig q)) OR 127\<rparr>))
     else wait_scan ps (f + 1))))"

definition wait_from :: "int \<Rightarrow> (unit, 'a kst_scheme) kmon" where
  "wait_from f = wait_scan [0 ..< NPROC] f"

definition wait :: "(unit, 'a kst_scheme) kmon" where
  "wait = wait_from 0"

section \<open>Fork\<close>

definition fork_out :: "(unit, 'a mst_scheme) kmon" where
  "fork_out = kmod (\<lambda>s. s\<lparr>ar0 := (ar0 s)(EIP := cint (ar0 s EIP + 2))\<rparr>)"

text \<open>The loop of \<^verbatim>\<open>fork\<close> finds the first free entry and counts the caller's processes.\<close>

fun fork_scan :: "int \<Rightarrow> (nat \<Rightarrow> proc) \<Rightarrow> nat list \<Rightarrow> nat option \<Rightarrow> int \<Rightarrow> nat option \<times> int" where
  "fork_scan uid pr [] p2 a = (p2, a)"
| "fork_scan uid pr (p1 # ps) p2 a =
     (if p_stat (pr p1) = SNULL \<and> p2 = None then fork_scan uid pr ps (Some p1) a
      else if p_uid (pr p1) = uid \<and> p_stat (pr p1) \<noteq> SNULL then fork_scan uid pr ps p2 (a + 1)
      else fork_scan uid pr ps p2 a)"

definition fork :: "(unit, 'a mst_scheme) kmon" where
  "fork =
     kbind (malloc_swap (ctod MAXMEM)) (\<lambda>a.
     if a = 0 then kthen (seterr ENOMEM) fork_out
     else
       kthen (mfree_swap (ctod MAXMEM) a)
       (kbind (uget u_uid) (\<lambda>uid.
        kbind (kget (\<lambda>s. fork_scan uid (proc s) [0 ..< NPROC] None 0)) (\<lambda>(p2, a).
        case p2 of
          None \<Rightarrow> kthen (seterr EAGAIN) fork_out
        | Some p2 \<Rightarrow>
            if uid \<noteq> 0 \<and> (p2 = NPROC - 1 \<or> a > MAXUPRC) then kthen (seterr EAGAIN) fork_out
            else
              kthen newproc
              (kbind (pget p2 p_pid) (\<lambda>pid.
               kthen (umod (\<lambda>v. v\<lparr>r_val1 := pid\<rparr>)) fork_out))))))"

text \<open>What the new process does when it is first resumed inside \<^verbatim>\<open>newproc\<close>; \<open>p1\<close> is its parent.\<close>

definition fork_child :: "nat \<Rightarrow> (unit, 'a mst_scheme) kmon" where
  "fork_child p1 =
     kthen sureg
     (kbind (pget p1 p_pid) (\<lambda>pid.
      kbind (kget time) (\<lambda>now.
      umod (\<lambda>v. v\<lparr>r_val1 := pid, u_start := now, u_cstime := 0, u_stime := 0, u_cutime := 0, u_utime := 0, u_acflag := AFORK\<rparr>))))"

section \<open>The size of the data and the stack\<close>

text \<open>\<^verbatim>\<open>while (n--) { a--; copyseg(a-d, a); }\<close>, \<^verbatim>\<open>while (d--) clearseg(--a)\<close> and \<^verbatim>\<open>while (n--) { copyseg(a-d, a); a++; }\<close>.\<close>

fun copy_down :: "nat \<Rightarrow> int \<Rightarrow> int \<Rightarrow> (int, 'a mst_scheme) kmon" where
  "copy_down 0 a d = kret a"
| "copy_down (Suc n) a d = kthen (copyseg (a - 1 - d) (a - 1)) (copy_down n (a - 1) d)"

fun clear_down :: "nat \<Rightarrow> int \<Rightarrow> (unit, 'a mst_scheme) kmon" where
  "clear_down 0 a = kret ()"
| "clear_down (Suc n) a = kthen (clearseg (a - 1)) (clear_down n (a - 1))"

fun copy_up :: "nat \<Rightarrow> int \<Rightarrow> int \<Rightarrow> (unit, 'a mst_scheme) kmon" where
  "copy_up 0 a d = kret ()"
| "copy_up (Suc n) a d = kthen (copyseg (a - d) a) (copy_up n (a + 1) d)"

text \<open>The new size of the data, in pages, that the argument of \<^verbatim>\<open>sbreak\<close> asks for.\<close>

definition brk_size :: "user \<Rightarrow> int" where
  "brk_size v =
     (let n = cint (btoc (u_arg v ! 0));
          n = (if u_sep v = 0 then cint (n - u_tsize v) else n)
      in if n < 0 then 0 else n)"

definition sbreak :: "(unit, 'a mst_scheme) kmon" where
  "sbreak =
     kbind (kget u) (\<lambda>v.
     let n = brk_size v;
         d = cint (n - u_dsize v);
         n = cint (n + USIZE + u_ssize v);
         ss = u_ssize v
     in
     kbind (estabur (u_tsize v) (cint (u_dsize v + d)) ss (u_sep v) RO) (\<lambda>r.
     if r \<noteq> 0 then kret ()
     else
       kthen (umod (\<lambda>v. v\<lparr>u_dsize := cuint (u_dsize v + d)\<rparr>))
       (if d > 0 then
          kthen (expand n)
          (kbind (pget (u_procp v) p_addr) (\<lambda>pa.
           kbind (copy_down (nat (cuint ss)) (pa + n) d) (\<lambda>a.
           clear_down (nat d) a)))
        else
          kbind (pget (u_procp v) p_addr) (\<lambda>pa.
          kthen (copy_up (nat (cuint ss)) (pa + n - ss) d)
          (expand n)))))"

definition grow :: "int \<Rightarrow> (bool, 'a mst_scheme) kmon" where
  "grow sp =
     kbind (kget u) (\<lambda>v.
     if sp > cuint (USTK - ctob (u_ssize v)) then kret False
     else
       (let si = cint (cuint (USTK - sp) div 4096 - u_ssize v + SINCR) in
        if si \<le> 0 then kret False
        else
          kbind (estabur (u_tsize v) (u_dsize v) (cint (u_ssize v + si)) (u_sep v) RO) (\<lambda>r.
          if r \<noteq> 0 then kret False
          else
            kbind (pget (u_procp v) p_size) (\<lambda>sz.
            kthen (expand (sz + si))
            (kbind (pget (u_procp v) id) (\<lambda>p.
             kbind (copy_down (nat (cuint (u_ssize v))) (p_addr p + p_size p) si) (\<lambda>a.
             kthen (clear_down (nat si) a)
             (kthen (umod (\<lambda>v. v\<lparr>u_ssize := cuint (u_ssize v + si)\<rparr>))
             (kret True)))))))))"

section \<open>Exec: registers and files\<close>

definition exec_close :: "'a mst_scheme switches \<Rightarrow> nat \<Rightarrow> (unit, 'a mst_scheme) kmon" where
  "exec_close sw i =
     kbind (uget (\<lambda>v. u_pofile v i)) (\<lambda>fl.
     kwhen (fl AND 1 \<noteq> 0)
       (kbind (uget (\<lambda>v. u_ofile v i)) (\<lambda>f.
        kthen (closef sw f)
        (umod (\<lambda>v. v\<lparr>u_ofile := (u_ofile v)(i := None), u_pofile := (u_pofile v)(i := u_pofile v i AND NOT 1)\<rparr>)))))"

definition setregs :: "'a mst_scheme switches \<Rightarrow> int \<Rightarrow> (unit, 'a mst_scheme) kmon" where
  "setregs sw entloc =
     kthen (umod (\<lambda>v. v\<lparr>u_signal := (\<lambda>i. if i < NSIG \<and> u_signal v i AND 1 = 0 then 0 else u_signal v i)\<rparr>))
     (kthen (kmod (\<lambda>s. s\<lparr>ar0 := (\<lambda>r. if r \<in> set (take 7 regloc) then 0 else ar0 s r)\<rparr>))
     (kthen (kmod (\<lambda>s. s\<lparr>ar0 := (ar0 s)(EIP := cint entloc)\<rparr>))
     (kthen (kfor [0 ..< NOFILE] (exec_close sw))
     (umod (\<lambda>v. v\<lparr>u_acflag := u_acflag v AND NOT AFORK, u_comm := u_dbuf v\<rparr>)))))"

section \<open>Tracing\<close>

text \<open>\<^verbatim>\<open>stop\<close> up to its \<^verbatim>\<open>swtch\<close>: when the tracing parent lets the process go on, it returns or takes the parent's command in \<^verbatim>\<open>procxmt\<close>.\<close>

definition stop :: "(chan \<Rightarrow> nat) \<Rightarrow> 'a mst_scheme switches \<Rightarrow> (unit, 'a mst_scheme) kmon" where
  "stop h sw =
     kbind (uget u_procp) (\<lambda>cp.
     kbind (pget cp id) (\<lambda>c.
     kbind (kget (\<lambda>s. find (\<lambda>pp. p_pid (proc s pp) = p_ppid c) [0 ..< NPROC])) (\<lambda>r.
     case (if p_ppid c \<noteq> 1 then r else None) of
       Some pp \<Rightarrow>
         kthen (wakeup h (Ch_proc pp))
         (kthen (pmod cp (\<lambda>x. x\<lparr>p_stat := SSTOP\<rparr>))
         kswtch)
     | None \<Rightarrow> exit h sw (int (fsig c)))))"

text \<open>\<^verbatim>\<open>ptrace\<close> from its wait for the child, from its wait for the lock, and from the beginning.\<close>

definition ptrace_wait :: "(chan \<Rightarrow> nat) \<Rightarrow> (unit, 'a mst_scheme) kmon" where
  "ptrace_wait h =
     kbind (kget ip_req) (\<lambda>req.
     if req > 0 then ksleep Ch_ipc IPCPRI
     else
       kthen (kmod (\<lambda>s. s\<lparr>u := (u s)\<lparr>r_val1 := ip_data s\<rparr>\<rparr>))
       (kthen (kwhen (req < 0) (seterr EIO))
       (kthen (kmod (\<lambda>s. s\<lparr>ip_lock := 0\<rparr>))
       (wakeup h Ch_ipc))))"

definition ptrace_request :: "(chan \<Rightarrow> nat) \<Rightarrow> nat \<Rightarrow> (unit, 'a mst_scheme) kmon" where
  "ptrace_request h p =
     kbind (kget ip_lock) (\<lambda>l.
     if l \<noteq> 0 then ksleep Ch_ipc IPCPRI
     else
       kbind (uget u_arg) (\<lambda>a.
       kbind (pget p p_pid) (\<lambda>q.
       kthen (kmod (\<lambda>s. s\<lparr>ip_lock := q, ip_data := a ! 3, ip_addr := a ! 2, ip_req := a ! 0\<rparr>))
       (kthen (pmod p (\<lambda>x. x\<lparr>p_flag := p_flag x - {SWTED}\<rparr>))
       (kthen (setrun h p)
       (ptrace_wait h))))))"

definition ptrace :: "(chan \<Rightarrow> nat) \<Rightarrow> (unit, 'a mst_scheme) kmon" where
  "ptrace h =
     kbind (kget u) (\<lambda>v.
     if u_arg v ! 0 \<le> 0 then pmod (u_procp v) (\<lambda>p. p\<lparr>p_flag := p_flag p \<union> {STRC}\<rparr>)
     else
       kbind (kget (\<lambda>s. find (\<lambda>i. p_stat (proc s i) = SSTOP \<and> p_pid (proc s i) = u_arg v ! 1 \<and>
           p_ppid (proc s i) = p_pid (proc s (u_procp v))) [0 ..< NPROC])) (\<lambda>r.
       case r of None \<Rightarrow> seterr ESRCH | Some p \<Rightarrow> ptrace_request h p))"

end
