(* ===== verification/Image_Spec.thy ===== *)
theory Image_Spec
  imports Sys1 Proc_Spec
begin

text \<open>
  Memory by pages: what the copying loops do to the pages of physical memory, the page table that \<^verbatim>\<open>sureg\<close> sets up, and how
  \<^verbatim>\<open>expand\<close> moves an image.
\<close>

unbundle bit_operations_syntax

section \<open>Pages\<close>

text \<open>The content of page \<open>k\<close> of a memory. Every address lies in one page, so the pages determine the memory.\<close>

definition page :: "(int \<Rightarrow> int) \<Rightarrow> int \<Rightarrow> int \<Rightarrow> int" where
  "page m k i = (if 0 \<le> i \<and> i < PGSZ then m (k * PGSZ + i) else 0)"

abbreviation pages :: "'a kst_scheme \<Rightarrow> int \<Rightarrow> int \<Rightarrow> int" where
  "pages s \<equiv> page (core s)"

definition page_no :: "int \<Rightarrow> bool" where
  "page_no k \<longleftrightarrow> 0 \<le> k \<and> k < 2 ^ 19"

lemma ctob_page: "page_no k \<Longrightarrow> ctob k = k * PGSZ"
  by (simp add: ctob_def page_no_def PGSZ_def cint_def)

lemma in_page: "k * PGSZ \<le> x * PGSZ + i \<and> x * PGSZ + i < k * PGSZ + PGSZ \<longleftrightarrow> x = k" if "0 \<le> i" "i < PGSZ" for i k x :: int
proof
  assume a: "k * PGSZ \<le> x * PGSZ + i \<and> x * PGSZ + i < k * PGSZ + PGSZ"
  have "x * PGSZ < (k + 1) * PGSZ" "k * PGSZ < (x + 1) * PGSZ" using a that by (simp_all add: algebra_simps)
  then have "x < k + 1" "k < x + 1" by (simp_all add: PGSZ_def)
  then show "x = k" by simp
qed (use that in simp)

lemma page_write:
  "page (\<lambda>x. if d * PGSZ \<le> x \<and> x < d * PGSZ + PGSZ then f (x - d * PGSZ) else m x) =
    (page m)(d := \<lambda>i. if 0 \<le> i \<and> i < PGSZ then f i else 0)"
  by (auto simp: page_def fun_eq_iff in_page)

text \<open>A routine that only changes memory: from the pages \<open>P\<close> to the pages \<open>P'\<close>.\<close>

definition repages :: "('b, 'a mst_scheme) kmon \<Rightarrow> 'b \<Rightarrow> 'a mst_scheme \<Rightarrow> (int \<Rightarrow> int \<Rightarrow> int) \<Rightarrow> bool" where
  "repages m r s P' \<longleftrightarrow> (\<exists>c. m s = Ok r (s\<lparr>core := c\<rparr>) \<and> page c = P')"

lemma repages_ret: "repages (kret r) r s (pages s)"
  unfolding repages_def kret_def by (rule exI [of _ "core s"]) simp

lemma repages_then:
  assumes "repages m r s P" "\<And>c. page c = P \<Longrightarrow> repages n r' (s\<lparr>core := c\<rparr>) P'"
  shows "repages (kthen m n) r' s P'"
proof -
  from assms(1) obtain c where c: "m s = Ok r (s\<lparr>core := c\<rparr>)" "page c = P" unfolding repages_def by blast
  from assms(2) [OF c(2)] obtain c' where "n (s\<lparr>core := c\<rparr>) = Ok r' (s\<lparr>core := c'\<rparr>)" "page c' = P'" unfolding repages_def by auto
  then show ?thesis unfolding repages_def kthen_Ok [of m, OF c(1)] by blast
qed

lemma clearseg_pages: "page_no d \<Longrightarrow> repages (clearseg d) () s ((pages s)(d := \<lambda>_. 0))"
  using page_write [of d "\<lambda>_. 0" "core s"] unfolding repages_def clearseg_def kmod_def by (auto simp: ctob_page)

lemma copyseg_pages:
  assumes "page_no a" "page_no d"
  shows "repages (copyseg a d) () s ((pages s)(d := pages s a))"
proof (cases "a = d")
  case True
  then show ?thesis using repages_ret [of "()" s] by (simp add: copyseg_def)
next
  case False
  have "page (\<lambda>x. if d * PGSZ \<le> x \<and> x < d * PGSZ + PGSZ then core s (x - d * PGSZ + a * PGSZ) else core s x) = (pages s)(d := pages s a)"
    unfolding page_write [of d "\<lambda>i. core s (i + a * PGSZ)"] by (simp add: page_def fun_eq_iff add.commute)
  with False show ?thesis unfolding repages_def copyseg_def kmod_def ctob_page [OF assms(1)] ctob_page [OF assms(2)] by auto
qed

section \<open>Copying loops\<close>

lemma no_range [simp]: "(\<lambda>x. if a \<le> x \<and> x < a then f x else g x) = g" for a :: int
  by (auto simp: fun_eq_iff)

lemma copy_down_pages:
  assumes "0 < d" "\<And>x. a - int n \<le> x \<Longrightarrow> x < a \<Longrightarrow> page_no x \<and> page_no (x - d)" "pages s = P"
  shows "repages (copy_down n a d) (a - int n) s (\<lambda>x. if a - int n \<le> x \<and> x < a then P (x - d) else P x)"
  using assms(2,3)
proof (induction n arbitrary: a s P)
  case 0
  then show ?case using repages_ret [of a s] by simp
next
  case (Suc n)
  let ?P = "P(a - 1 := P (a - 1 - d))"
  have e: "(\<lambda>x. if a - 1 - int n \<le> x \<and> x < a - 1 then ?P (x - d) else ?P x) = (\<lambda>x. if a - int (Suc n) \<le> x \<and> x < a then P (x - d) else P x)"
    using assms(1) by (auto simp: fun_eq_iff)
  have "repages (kthen (copyseg (a - 1 - d) (a - 1)) (copy_down n (a - 1) d)) (a - 1 - int n) s
    (\<lambda>x. if a - 1 - int n \<le> x \<and> x < a - 1 then ?P (x - d) else ?P x)"
  proof (rule repages_then)
    show "repages (copyseg (a - 1 - d) (a - 1)) () s ?P"
      using copyseg_pages [of "a - 1 - d" "a - 1" s] Suc.prems(1) [of "a - 1"] Suc.prems(2) by simp
    show "repages (copy_down n (a - 1) d) (a - 1 - int n) (s\<lparr>core := c\<rparr>)
      (\<lambda>x. if a - 1 - int n \<le> x \<and> x < a - 1 then ?P (x - d) else ?P x)" if "page c = ?P" for c
      by (rule Suc.IH) (use Suc.prems(1) that in auto)
  qed
  then show ?case unfolding e by (simp add: diff_diff_eq)
qed

lemma clear_down_pages:
  assumes "\<And>x. a - int n \<le> x \<Longrightarrow> x < a \<Longrightarrow> page_no x" "pages s = P"
  shows "repages (clear_down n a) () s (\<lambda>x. if a - int n \<le> x \<and> x < a then (\<lambda>_. 0) else P x)"
  using assms
proof (induction n arbitrary: a s P)
  case 0
  then show ?case using repages_ret [of "()" s] by simp
next
  case (Suc n)
  let ?P = "P(a - 1 := \<lambda>_. 0)"
  have e: "(\<lambda>x. if a - 1 - int n \<le> x \<and> x < a - 1 then (\<lambda>_. 0) else ?P x) = (\<lambda>x. if a - int (Suc n) \<le> x \<and> x < a then (\<lambda>_. 0) else P x)"
    by (auto simp: fun_eq_iff)
  have "repages (kthen (clearseg (a - 1)) (clear_down n (a - 1))) () s (\<lambda>x. if a - 1 - int n \<le> x \<and> x < a - 1 then (\<lambda>_. 0) else ?P x)"
  proof (rule repages_then)
    show "repages (clearseg (a - 1)) () s ?P" using clearseg_pages [of "a - 1" s] Suc.prems by simp
    show "repages (clear_down n (a - 1)) () (s\<lparr>core := c\<rparr>) (\<lambda>x. if a - 1 - int n \<le> x \<and> x < a - 1 then (\<lambda>_. 0) else ?P x)"
      if "page c = ?P" for c
      by (rule Suc.IH) (use Suc.prems(1) that in auto)
  qed
  then show ?case unfolding e by simp
qed

lemma copy_up_pages:
  assumes "d \<le> 0" "\<And>x. a \<le> x \<Longrightarrow> x < a + int n \<Longrightarrow> page_no x \<and> page_no (x - d)" "pages s = P"
  shows "repages (copy_up n a d) () s (\<lambda>x. if a \<le> x \<and> x < a + int n then P (x - d) else P x)"
  using assms(2,3)
proof (induction n arbitrary: a s P)
  case 0
  then show ?case using repages_ret [of "()" s] by simp
next
  case (Suc n)
  let ?P = "P(a := P (a - d))"
  have e: "(\<lambda>x. if a + 1 \<le> x \<and> x < a + 1 + int n then ?P (x - d) else ?P x) = (\<lambda>x. if a \<le> x \<and> x < a + int (Suc n) then P (x - d) else P x)"
    using assms(1) by (auto simp: fun_eq_iff)
  have "repages (kthen (copyseg (a - d) a) (copy_up n (a + 1) d)) () s (\<lambda>x. if a + 1 \<le> x \<and> x < a + 1 + int n then ?P (x - d) else ?P x)"
  proof (rule repages_then)
    show "repages (copyseg (a - d) a) () s ?P" using copyseg_pages [of "a - d" a s] Suc.prems(1) [of a] Suc.prems(2) by simp
    show "repages (copy_up n (a + 1) d) () (s\<lparr>core := c\<rparr>) (\<lambda>x. if a + 1 \<le> x \<and> x < a + 1 + int n then ?P (x - d) else ?P x)"
      if "page c = ?P" for c
      by (rule Suc.IH) (use Suc.prems(1) that in auto)
  qed
  then show ?case unfolding e by simp
qed

lemma kfor_snoc: "kfor (xs @ [x]) f s = kthen (kfor xs f) (f x) s"
  by (induction xs arbitrary: s) (auto simp: kdefs split: kres.split)

lemma upto_snoc: "0 \<le> n \<Longrightarrow> [0 .. int (Suc n) - 1] = [0 .. int n - 1] @ [int n]"
  by (simp add: upto_rec2)

lemma copy_image_pages:
  assumes "{a1 ..< a1 + int n} \<inter> {a2 ..< a2 + int n} = {}" "\<And>i. 0 \<le> i \<Longrightarrow> i < int n \<Longrightarrow> page_no (a1 + i) \<and> page_no (a2 + i)"
  shows "repages (copy_image (int n) a1 a2) () s (\<lambda>x. if a2 \<le> x \<and> x < a2 + int n then pages s (x - a2 + a1) else pages s x)"
  using assms
proof (induction n)
  case 0
  then show ?case using repages_ret [of "()" s] by (simp add: copy_image_def)
next
  case (Suc n)
  let ?P = "\<lambda>x. if a2 \<le> x \<and> x < a2 + int n then pages s (x - a2 + a1) else pages s x"
  have "{a1 ..< a1 + int n} \<inter> {a2 ..< a2 + int n} = {}" using Suc.prems(1) by auto
  then have IH: "repages (copy_image (int n) a1 a2) () s ?P" using Suc.IH Suc.prems(2) by simp
  have nin: "\<not> (a2 \<le> a1 + int n \<and> a1 + int n < a2 + int n)" using Suc.prems(1) by auto
  have e: "?P(a2 + int n := ?P (a1 + int n)) = (\<lambda>x. if a2 \<le> x \<and> x < a2 + int (Suc n) then pages s (x - a2 + a1) else pages s x)"
    using nin by (auto simp: fun_eq_iff add.commute)
  have "repages (kthen (copy_image (int n) a1 a2) (copyseg (a1 + int n) (a2 + int n))) () s (?P(a2 + int n := ?P (a1 + int n)))"
  proof (rule repages_then, rule IH)
    show "repages (copyseg (a1 + int n) (a2 + int n)) () (s\<lparr>core := c\<rparr>) (?P(a2 + int n := ?P (a1 + int n)))" if "page c = ?P" for c
      using copyseg_pages [of "a1 + int n" "a2 + int n" "s\<lparr>core := c\<rparr>"] Suc.prems(2) [of "int n"] that by simp
  qed
  moreover have "copy_image (int (Suc n)) a1 a2 s = kthen (copy_image (int n) a1 a2) (copyseg (a1 + int n) (a2 + int n)) s"
    unfolding copy_image_def upto_snoc [OF le0] kfor_snoc by simp
  ultimately show ?case unfolding e repages_def by simp
qed

section \<open>The page table\<close>

definition frame_no :: "int \<Rightarrow> int" where "frame_no e = e div PGSZ"
definition writable :: "int \<Rightarrow> bool" where "writable e \<longleftrightarrow> bit e 1"

lemma pte_or:
  assumes "0 \<le> x" "x < PGSZ"
  shows "k * PGSZ OR x = k * PGSZ + x"
proof -
  have x: "take_bit 12 x = x" using assms by (simp add: PGSZ_def take_bit_int_eq_self_iff)
  have "push_bit 12 k AND take_bit 12 x = 0" by (rule bit_eqI) (simp add: bit_simps)
  then have "push_bit 12 k OR take_bit 12 x = push_bit 12 k + take_bit 12 x" by (rule disjunctive_add_eq_or [symmetric])
  then show ?thesis unfolding x by (simp add: PGSZ_def push_bit_eq_mult)
qed

lemma frame_or: "0 \<le> x \<Longrightarrow> x < PGSZ \<Longrightarrow> frame_no (k * PGSZ OR x) = k"
  unfolding frame_no_def pte_or by (simp add: PGSZ_def)

lemma writable_or: "writable (k * PGSZ OR x) \<longleftrightarrow> writable x"
  by (simp add: writable_def PGSZ_def bit_simps bit_1_iff) (simp add: bit_iff_odd)

text \<open>The entries of the table when \<open>nt\<close> pages of text lie at page \<open>t\<close> and the image at page \<open>a\<close>.\<close>

definition pte :: "(nat \<Rightarrow> int) \<Rightarrow> int \<Rightarrow> int \<Rightarrow> int \<Rightarrow> int" where
  "pte ut t a i =
     (if i < ut 0 then (t + i) * PGSZ OR ut 3
      else if i < ut 0 + ut 1 then (a + USIZE + (i - ut 0)) * PGSZ OR 7
      else if 1024 - ut 2 \<le> i then (a + USIZE + ut 1 + (i - (1024 - ut 2))) * PGSZ OR 7
      else 0)"

definition upt_ok :: "'a mst_scheme \<Rightarrow> bool" where
  "upt_ok s \<longleftrightarrow> 0 \<le> uplo s \<and> uplo s \<le> 1024 \<and> -1 \<le> uphi s \<and> uphi s \<le> 1023 \<and> (\<forall>i. uplo s \<le> i \<and> i \<le> uphi s \<longrightarrow> upt s i = 0)"

text \<open>A loop of stores into the table: what it leaves, given where each entry comes from.\<close>

lemma kfor_put:
  assumes "\<forall>x\<in>set xs. 0 \<le> g x \<and> g x < 1024"
  shows "kfor xs (\<lambda>x. upt_put (g x) (v x)) s = Ok () (s\<lparr>upt := fold (\<lambda>x m. m(g x := v x)) xs (upt s)\<rparr>)"
  using assms
proof (induction xs arbitrary: s)
  case Nil
  then show ?case by (simp add: kret_def)
next
  case (Cons x xs)
  have "upt_put (g x) (v x) s = Ok () (s\<lparr>upt := (upt s)(g x := v x)\<rparr>)" using Cons.prems by (simp add: upt_put_def kmod_def)
  with Cons show ?case by (simp add: kthen_Ok [of "upt_put (g x) (v x)"] del: fun_upd_apply)
qed

lemma fold_upd_other: "i \<notin> g ` set xs \<Longrightarrow> fold (\<lambda>x m. m(g x := v x)) xs m i = m i"
  by (induction xs arbitrary: m) auto

lemma fold_upd_at: "inj_on g (set xs) \<Longrightarrow> x \<in> set xs \<Longrightarrow> fold (\<lambda>x m. m(g x := v x)) xs m (g x) = v x"
proof (induction xs arbitrary: m)
  case (Cons y xs)
  then show ?case
  proof (cases "x \<in> set xs")
    case False
    then have "x = y" "g x \<notin> g ` set xs" using Cons.prems by (auto simp: inj_on_def)
    then show ?thesis using fold_upd_other [of "g x" g xs v "m(g x := v x)"] by (simp del: fun_upd_apply add: fun_upd_same)
  qed (simp del: fun_upd_apply)
qed simp

lemma fold_clear: "fold (\<lambda>x m. m(x := 0 :: int)) xs m i = (if i \<in> set xs then 0 else m i)"
  by (induction xs arbitrary: m) auto

lemma upt_fill_ok:
  assumes "0 \<le> k" "0 \<le> i" "i + k \<le> 1024"
  shows "upt_fill i k a x s = Ok () (s\<lparr>upt := (\<lambda>j. if i \<le> j \<and> j < i + k then (a + (j - i) * PGSZ) OR x else upt s j)\<rparr>)"
proof -
  let ?f = "\<lambda>j m. m(i + j := (a + j * PGSZ) OR x)"
  have "fold ?f [0 .. k - 1] (upt s) j = (if i \<le> j \<and> j < i + k then (a + (j - i) * PGSZ) OR x else upt s j)" for j
  proof (cases "i \<le> j \<and> j < i + k")
    case True
    then show ?thesis using fold_upd_at [of "\<lambda>j. i + j" "[0 .. k - 1]" "j - i" "\<lambda>j. (a + j * PGSZ) OR x" "upt s"] by simp
  next
    case False
    then have "j \<notin> (\<lambda>j. i + j) ` set [0 .. k - 1]" by auto
    with False show ?thesis using fold_upd_other [of j "\<lambda>j. i + j" _ "\<lambda>j. (a + j * PGSZ) OR x"] by auto
  qed
  then have "fold ?f [0 .. k - 1] (upt s) = (\<lambda>j. if i \<le> j \<and> j < i + k then (a + (j - i) * PGSZ) OR x else upt s j)" by blast
  then show ?thesis using assms kfor_put [of "[0 .. k - 1]" "\<lambda>j. i + j" "\<lambda>j. (a + j * PGSZ) OR x" s] by (simp add: upt_fill_def)
qed

text \<open>The page of the text of a process: its shared text, or the image itself.\<close>

definition text_page :: "'a mst_scheme \<Rightarrow> proc \<Rightarrow> int" where
  "text_page s q = (case p_textp q of None \<Rightarrow> p_addr q | Some xp \<Rightarrow> x_caddr (text_t s xp))"

definition sizes_ok :: "(nat \<Rightarrow> int) \<Rightarrow> bool" where
  "sizes_ok ut \<longleftrightarrow> 0 \<le> ut 0 \<and> 0 \<le> ut 1 \<and> 0 \<le> ut 2 \<and> ut 0 + ut 1 + ut 2 \<le> 1023"

definition remap :: "'a mst_scheme \<Rightarrow> 'a mst_scheme" where
  "remap s = (let ut = u_utab (u s); q = proc s (u_procp (u s)) in
     s\<lparr>uplo := ut 0 + ut 1, uphi := 1023 - ut 2,
       upt := (\<lambda>i. if 0 \<le> i \<and> i < 1024 then pte ut (text_page s q) (p_addr q) i else upt s i)\<rparr>)"

lemma clear_lo:
  assumes "0 \<le> a" "b \<le> 1024"
  shows "kfor (rev [a .. b - 1]) (\<lambda>i. upt_put i 0) s = Ok () (s\<lparr>upt := (\<lambda>i. if a \<le> i \<and> i < b then 0 else upt s i)\<rparr>)"
proof -
  have "fold (\<lambda>x m. m(x := 0)) (rev [a .. b - 1]) (upt s) = (\<lambda>i. if a \<le> i \<and> i < b then 0 else upt s i)"
    by (auto simp: fun_eq_iff fold_clear)
  then show ?thesis using kfor_put [of "rev [a .. b - 1]" "\<lambda>x. x" "\<lambda>_. 0" s] assms by simp
qed

lemma clear_hi:
  assumes "-1 \<le> a" "b \<le> 1023"
  shows "kfor [a + 1 .. b] (\<lambda>i. upt_put i 0) s = Ok () (s\<lparr>upt := (\<lambda>i. if a < i \<and> i \<le> b then 0 else upt s i)\<rparr>)"
proof -
  have "fold (\<lambda>x m. m(x := 0)) [a + 1 .. b] (upt s) = (\<lambda>i. if a < i \<and> i \<le> b then 0 else upt s i)"
    by (auto simp: fun_eq_iff fold_clear)
  then show ?thesis using kfor_put [of "[a + 1 .. b]" "\<lambda>x. x" "\<lambda>_. 0" s] assms by simp
qed

lemma cint_page: "page_no k \<Longrightarrow> cint (k * PGSZ) = k * PGSZ"
  using ctob_page [of k] by (simp add: ctob_def PGSZ_def)

lemma sureg_ok:
  assumes "upt_ok s" "sizes_ok (u_utab (u s))" "q = proc s (u_procp (u s))" "page_no (p_addr q)" "page_no (text_page s q)"
  shows "sureg s = Ok () (remap s)"
proof -
  define nt nd ns xx where ut: "nt = u_utab (u s) 0" "nd = u_utab (u s) 1" "ns = u_utab (u s) 2" "xx = u_utab (u s) 3"
  let ?t = "text_page s q" and ?a = "p_addr q"
  have sz: "0 \<le> nt" "0 \<le> nd" "0 \<le> ns" "nt + nd + ns \<le> 1023" using assms(2) by (auto simp: sizes_ok_def ut)
  have hi: "0 \<le> uplo s" "uplo s \<le> 1024" "-1 \<le> uphi s" "uphi s \<le> 1023" using assms(1) by (auto simp: upt_ok_def)
  have tx: "(case p_textp q of None \<Rightarrow> kret (p_addr q) | Some xp \<Rightarrow> xget xp x_caddr) t = Ok ?t t" if "text_t t = text_t s" for t :: "'a mst_scheme"
    using that by (simp add: text_page_def kret_def xget_def kget_def split: option.split)
  define A where "A = (\<lambda>i. if nt + nd \<le> i \<and> i < uplo s then 0 else upt s i)"
  define B where "B = (\<lambda>i. if uphi s < i \<and> i \<le> 1023 - ns then 0 else A i)"
  define C where "C = (\<lambda>j. if 0 \<le> j \<and> j < nt then (?t * PGSZ + j * PGSZ) OR xx else B j)"
  define D where "D = (\<lambda>j. if nt \<le> j \<and> j < nt + nd then (?a * PGSZ + USIZE * PGSZ + (j - nt) * PGSZ) OR 7 else C j)"
  define E where "E = (\<lambda>j. if 1024 - ns \<le> j \<and> j < 1024 then (?a * PGSZ + USIZE * PGSZ + nd * PGSZ + (j - (1024 - ns)) * PGSZ) OR 7 else D j)"
  have e: "E = (\<lambda>i. if 0 \<le> i \<and> i < 1024 then pte (u_utab (u s)) ?t ?a i else upt s i)"
  proof
    fix j
    have z: "upt s j = 0" if "uplo s \<le> j" "j \<le> uphi s" using assms(1) that by (simp add: upt_ok_def)
    show "E j = (if 0 \<le> j \<and> j < 1024 then pte (u_utab (u s)) ?t ?a j else upt s j)"
      using sz hi z unfolding E_def D_def C_def B_def A_def pte_def ut [symmetric] by (auto simp: distrib_right)
  qed
  let ?s1 = "s\<lparr>uplo := nt + nd\<rparr>" and ?s3 = "\<lambda>f. s\<lparr>uplo := nt + nd, uphi := 1023 - ns, upt := f\<rparr>"
  have r1: "kfor (rev [nt + nd .. uplo s - 1]) (\<lambda>i. upt_put i 0) ?s1 = Ok () (s\<lparr>uplo := nt + nd, upt := A\<rparr>)"
    using clear_lo [of "nt + nd" "uplo s" ?s1] sz hi by (simp add: A_def cong: if_cong)
  have r2: "kfor [uphi s + 1 .. 1023 - ns] (\<lambda>i. upt_put i 0) (s\<lparr>uplo := nt + nd, upt := A, uphi := 1023 - ns\<rparr>) = Ok () (?s3 B)"
    using clear_hi [of "uphi s" "1023 - ns" "s\<lparr>uplo := nt + nd, upt := A, uphi := 1023 - ns\<rparr>"] sz hi by (simp add: B_def cong: if_cong)
  have r3: "upt_fill 0 nt (cint (?t * PGSZ)) xx (?s3 B) = Ok () (?s3 C)"
    using upt_fill_ok [of nt 0 "?t * PGSZ" xx "?s3 B"] sz by (simp add: C_def cint_page assms(5) cong: if_cong)
  have r4: "upt_fill nt nd (cint (?a * PGSZ) + USIZE * PGSZ) 7 (?s3 C) = Ok () (?s3 D)"
    using upt_fill_ok [of nd nt "?a * PGSZ + USIZE * PGSZ" 7 "?s3 C"] sz by (simp add: D_def cint_page assms(4) cong: if_cong)
  have r5: "upt_fill (1024 - ns) ns (cint (?a * PGSZ) + USIZE * PGSZ + nd * PGSZ) 7 (?s3 D) = Ok () (?s3 E)"
    using upt_fill_ok [of ns "1024 - ns" "?a * PGSZ + USIZE * PGSZ + nd * PGSZ" 7 "?s3 D"] sz by (simp add: E_def cint_page assms(4) cong: if_cong)
  have "sureg s = Ok () (?s3 E)"
    unfolding sureg_def Let_def ut [symmetric]
    by (simp add: krun ut [symmetric] kthen_Ok [of "kfor _ _", OF r1] kthen_Ok [of "kfor _ _", OF r2]
        kbind_Ok [of "case_option _ _ _", OF tx] kthen_Ok [of "upt_fill _ _ _ _", OF r3] kthen_Ok [of "upt_fill _ _ _ _", OF r4] r5 assms(3) [symmetric] del: One_nat_def cong: option.case_cong)
  moreover have "?s3 E = remap s" unfolding remap_def Let_def e ut assms(3) by simp
  ultimately show ?thesis by simp
qed

end
