(* ===== verification/Expand.thy ===== *)
theory Expand
  imports Image_Spec
begin

text \<open>How \<^verbatim>\<open>expand\<close>, \<^verbatim>\<open>sbreak\<close> and \<^verbatim>\<open>grow\<close> resize and move the image of the running process.\<close>

unbundle bit_operations_syntax

abbreviation me :: "'a kst_scheme \<Rightarrow> proc" where
  "me s \<equiv> proc s (u_procp (u s))"

section \<open>Core space\<close>

lemma mfree_zero:
  assumes "map_ok lo hi mp"
  shows "mfree_map mp 0 a = Some mp"
proof -
  let ?pre = "takeWhile (mfree_scan a) mp" and ?suf = "dropWhile (mfree_scan a) mp"
  have mp: "?pre @ ?suf = mp" by simp
  obtain b where b: "b \<in> set (spare mp)" using assms unfolding map_ok_def by (meson list.set_sel(1))
  then have "m_size b = 0" "b \<in> set mp" using assms active_spare [of mp] by (auto simp: map_ok_def) (metis Un_iff set_append)
  then have "?suf \<noteq> []" by (auto simp: dropWhile_eq_Nil_conv mfree_scan_def)
  then obtain bp rest where suf: "?suf = bp # rest" by (cases ?suf) auto
  then have stop: "\<not> mfree_scan a bp" using hd_dropWhile [of "mfree_scan a" mp] by simp
  have last: "(last ?pre)\<lparr>m_size := short (m_size (last ?pre) + 0)\<rparr> = last ?pre" if "?pre \<noteq> []"
  proof -
    have "last ?pre \<in> set ?pre" using that by simp
    then have l: "last ?pre \<in> set mp" "m_size (last ?pre) \<noteq> 0" by (auto dest: set_takeWhileD simp: mfree_scan_def)
    then have "last ?pre \<in> set (active mp)" using assms active_spare [of mp] by (auto simp: map_ok_def) (metis Un_iff set_append)
    then have "0 < m_size (last ?pre)" "lo \<le> m_addr (last ?pre)" "m_addr (last ?pre) + m_size (last ?pre) \<le> hi"
      using assms ordered_nonzero ordered_bounds by (auto simp: map_ok_def)
    then show ?thesis using assms by (cases "last ?pre") (simp add: map_ok_def short_def)
  qed
  have join: "butlast ?pre @ last ?pre # xs = ?pre @ xs" if "?pre \<noteq> []" for xs
    using append_butlast_last_id [OF that] by (metis append.assoc append_Cons append_Nil)
  show ?thesis
    using stop mp last join [of "bp # rest"] unfolding mfree_map_def mfree_at_def suf
    by (auto simp: mfree_scan_def [of a bp] Let_def suf)
qed

lemma mfree_core_ok:
  assumes "map_ok lo hi (coremap s)" "lo \<le> a" "a + n \<le> hi" "0 \<le> n" "{a ..< a + n} \<inter> units (coremap s) = {}" "2 \<le> length (spare (coremap s))"
  shows "\<exists>m. mfree_core n a s = Ok () (s\<lparr>coremap := m\<rparr>) \<and> map_ok lo hi m \<and> units m = units (coremap s) \<union> {a ..< a + n}"
proof (cases "n = 0")
  case True
  then show ?thesis using mfree_zero [OF assms(1)] assms(1) by (intro exI [of _ "coremap s"]) (simp add: mfree_core_def kget_def kbind_def kmod_def)
next
  case False
  then have "0 < n" using assms(4) by simp
  from rm.put_some [OF assms(1-3) this assms(5,6)] obtain m where
    "mfree_map (coremap s) n a = Some m" "map_ok lo hi m" "units m = units (coremap s) \<union> {a ..< a + n}" by blast
  then show ?thesis by (intro exI [of _ m]) (simp add: mfree_core_def kget_def kbind_def kmod_def)
qed

lemma malloc_core_ok:
  assumes "map_ok lo hi (coremap s)" "0 < n" "{r ..< r + n} \<subseteq> units (coremap s)"
  shows "\<exists>a m. malloc_core n s = Ok a (s\<lparr>coremap := m\<rparr>) \<and> a \<noteq> 0 \<and> map_ok lo hi m \<and> lo \<le> a \<and> a + n \<le> hi \<and>
     {a ..< a + n} \<subseteq> units (coremap s) \<and> units m = units (coremap s) - {a ..< a + n} \<and> length (spare (coremap s)) \<le> length (spare m)"
proof -
  from rm.get_total [OF assms(1,2)] obtain a m where g: "malloc (coremap s) n = Some (a, m)" by blast
  have a: "a \<noteq> 0" using rm.get_none [OF assms(1,2), of m] g assms(3) by auto
  note r = rm.get_some [OF assms(1,2) g a]
  have "a \<in> {a ..< a + n}" "a + n - 1 \<in> {a ..< a + n}" using assms(2) by auto
  then have "a \<in> {lo ..< hi}" "a + n - 1 \<in> {lo ..< hi}" using r rm.avail_range [OF assms(1)] by blast+
  then show ?thesis using r a g by (intro exI [of _ a] exI [of _ m]) (simp add: malloc_core_def kget_def kbind_def kmod_def kthen_def kret_def)
qed

section \<open>The image of the running process\<close>

definition resident :: "int \<Rightarrow> int \<Rightarrow> 'a mst_scheme \<Rightarrow> bool" where
  "resident lo hi s \<longleftrightarrow> map_ok lo hi (coremap s) \<and> 2 \<le> length (spare (coremap s)) \<and>
     lo \<le> p_addr (me s) \<and> p_addr (me s) + p_size (me s) \<le> hi \<and> 0 \<le> p_size (me s) \<and>
     {p_addr (me s) ..< p_addr (me s) + p_size (me s)} \<inter> units (coremap s) = {} \<and>
     (case p_textp (me s) of None \<Rightarrow> True | Some xp \<Rightarrow> page_no (x_caddr (text_t s xp)))"

lemma map_page: "map_ok lo hi m \<Longrightarrow> lo \<le> x \<Longrightarrow> x < hi \<Longrightarrow> page_no x"
  by (auto simp: map_ok_def page_no_def)

lemma expand_shrink:
  assumes "resident lo hi s" "0 \<le> n" "n \<le> p_size (me s)"
  shows "\<exists>m. expand n s = Ok () (s\<lparr>proc := (proc s)(u_procp (u s) := (me s)\<lparr>p_size := n\<rparr>), coremap := m\<rparr>) \<and> map_ok lo hi m \<and>
     units m = units (coremap s) \<union> {p_addr (me s) + n ..< p_addr (me s) + p_size (me s)}"
proof -
  let ?q = "me s" and ?p = "u_procp (u s)"
  let ?s = "s\<lparr>proc := (proc s)(?p := ?q\<lparr>p_size := n\<rparr>)\<rparr>"
  have hi: "hi \<le> 32768" "0 < lo" using assms(1) by (auto simp: resident_def map_ok_def)
  then have n: "short n = n" using assms by (simp add: resident_def short_def)
  have "\<exists>m. mfree_core (p_size ?q - n) (p_addr ?q + n) ?s = Ok () (?s\<lparr>coremap := m\<rparr>) \<and> map_ok lo hi m \<and>
    units m = units (coremap ?s) \<union> {p_addr ?q + n ..< p_addr ?q + n + (p_size ?q - n)}"
    by (rule mfree_core_ok) (use assms in \<open>auto simp: resident_def disjoint_iff\<close>)
  then obtain m where m: "mfree_core (p_size ?q - n) (p_addr ?q + n) ?s = Ok () (?s\<lparr>coremap := m\<rparr>)" "map_ok lo hi m"
    "units m = units (coremap s) \<union> {p_addr ?q + n ..< p_addr ?q + p_size ?q}" by auto
  have "expand n s = Ok () (?s\<lparr>coremap := m\<rparr>)"
    unfolding expand_def Let_def using assms(3) m(1) by (simp add: krun n del: fun_upd_apply)
  with m show ?thesis by auto
qed

lemma expand_grows:
  assumes "resident lo hi s" "p_size (me s) < n" "{r ..< r + n} \<subseteq> units (coremap s)" "upt_ok s" "sizes_ok (u_utab (u s))"
  shows "\<exists>a m c. expand n s = Ok () (remap (s\<lparr>proc := (proc s)(u_procp (u s) := (me s)\<lparr>p_size := n, p_addr := a\<rparr>), core := c, coremap := m\<rparr>)) \<and>
     map_ok lo hi m \<and> lo \<le> a \<and> a + n \<le> hi \<and> {a ..< a + n} \<subseteq> units (coremap s) \<and>
     units m = units (coremap s) - {a ..< a + n} \<union> {p_addr (me s) ..< p_addr (me s) + p_size (me s)} \<and>
     page c = (\<lambda>x. if a \<le> x \<and> x < a + p_size (me s) then pages s (x - a + p_addr (me s)) else pages s x)"
proof -
  let ?q = "me s" and ?p = "u_procp (u s)" and ?z = "p_size (me s)" and ?a1 = "p_addr (me s)"
  let ?s1 = "s\<lparr>proc := (proc s)(?p := ?q\<lparr>p_size := n\<rparr>)\<rparr>"
  have ok: "map_ok lo hi (coremap s)" "0 \<le> ?z" "lo \<le> ?a1" "?a1 + ?z \<le> hi" "2 \<le> length (spare (coremap s))"
    "{?a1 ..< ?a1 + ?z} \<inter> units (coremap s) = {}" using assms(1) by (auto simp: resident_def)
  have hi: "hi \<le> 32768" "0 < lo" using ok(1) by (auto simp: map_ok_def)
  obtain a m1 where a: "malloc_core n ?s1 = Ok a (?s1\<lparr>coremap := m1\<rparr>)" "a \<noteq> 0" "map_ok lo hi m1" "lo \<le> a" "a + n \<le> hi"
     "{a ..< a + n} \<subseteq> units (coremap s)" "units m1 = units (coremap s) - {a ..< a + n}" "length (spare (coremap s)) \<le> length (spare m1)"
    using malloc_core_ok [of lo hi ?s1 n r] ok assms(2,3) by auto
  have n: "short n = n" "short a = a" using a(4,5) hi ok(2) assms(2) by (simp_all add: short_def)
  let ?s2 = "s\<lparr>coremap := m1, proc := (proc s)(?p := ?q\<lparr>p_size := n, p_addr := a\<rparr>)\<rparr>"
  have dj: "{?a1 ..< ?a1 + int (nat ?z)} \<inter> {a ..< a + int (nat ?z)} = {}" using a(6) ok(2,6) assms(2) by fastforce
  have "repages (copy_image (int (nat ?z)) ?a1 a) () ?s2 (\<lambda>x. if a \<le> x \<and> x < a + int (nat ?z) then pages ?s2 (x - a + ?a1) else pages ?s2 x)"
    by (rule copy_image_pages [OF dj]) (use map_page [OF ok(1)] a(4,5) ok assms(2) in auto)
  then obtain c where c: "copy_image ?z ?a1 a ?s2 = Ok () (?s2\<lparr>core := c\<rparr>)"
    "page c = (\<lambda>x. if a \<le> x \<and> x < a + ?z then pages s (x - a + ?a1) else pages s x)"
    using ok(2) unfolding repages_def by (auto cong: if_cong)
  let ?s3 = "?s2\<lparr>core := c\<rparr>"
  have "\<exists>m. mfree_core ?z ?a1 ?s3 = Ok () (?s3\<lparr>coremap := m\<rparr>) \<and> map_ok lo hi m \<and> units m = units (coremap ?s3) \<union> {?a1 ..< ?a1 + ?z}"
    by (rule mfree_core_ok) (use a ok in auto)
  then obtain m where m: "mfree_core ?z ?a1 ?s3 = Ok () (s\<lparr>proc := (proc s)(?p := ?q\<lparr>p_size := n, p_addr := a\<rparr>), core := c, coremap := m\<rparr>)"
    "map_ok lo hi m" "units m = units m1 \<union> {?a1 ..< ?a1 + ?z}" by auto
  let ?s4 = "s\<lparr>proc := (proc s)(?p := ?q\<lparr>p_size := n, p_addr := a\<rparr>), core := c, coremap := m\<rparr>"
  have "sureg ?s4 = Ok () (remap ?s4)"
    by (rule sureg_ok [OF _ _ refl])
      (use assms(1,4,5) a(4,5) ok(2) assms(2) map_page [OF ok(1)] in \<open>auto simp: upt_ok_def resident_def text_page_def split: option.splits\<close>)
  moreover have "expand n s = sureg ?s4"
    unfolding expand_def Let_def using assms(2) a(2)
    by (simp add: krun n kbind_Ok [of "malloc_core n", OF a(1)] kthen_Ok [of "copy_image _ _ _", OF c(1)] kthen_Ok [of "mfree_core _ _", OF m(1)]
        fun_upd_same fun_upd_upd del: fun_upd_apply)
  ultimately show ?thesis using a m c(2) by (intro exI [of _ a] exI [of _ m] exI [of _ c]) simp
qed

section \<open>Inserting pages\<close>

lemma repages_bind:
  assumes "repages m r s P" "\<And>c. page c = P \<Longrightarrow> repages (f r) r' (s\<lparr>core := c\<rparr>) P'"
  shows "repages (kbind m f) r' s P'"
proof -
  from assms(1) obtain c where c: "m s = Ok r (s\<lparr>core := c\<rparr>)" "page c = P" unfolding repages_def by blast
  from assms(2) [OF c(2)] obtain c' where "f r (s\<lparr>core := c\<rparr>) = Ok r' (s\<lparr>core := c'\<rparr>)" "page c' = P'" unfolding repages_def by auto
  then show ?thesis unfolding repages_def kbind_Ok [of m, OF c(1)] by blast
qed

text \<open>Both \<^verbatim>\<open>sbreak\<close> and \<^verbatim>\<open>grow\<close> move the last \<open>n\<close> pages below \<open>e\<close> up by \<open>d\<close> pages and clear the \<open>d\<close> pages under them.\<close>

lemma insert_pages:
  assumes "0 < d" "0 \<le> n" "\<And>x. e - n - d \<le> x \<Longrightarrow> x < e \<Longrightarrow> page_no x" "pages s = P"
  shows "repages (kbind (copy_down (nat n) e d) (clear_down (nat d))) () s
     (\<lambda>x. if e - n - d \<le> x \<and> x < e - n then (\<lambda>_. 0) else if e - n \<le> x \<and> x < e then P (x - d) else P x)"
proof (rule repages_bind)
  let ?P = "\<lambda>x. if e - n \<le> x \<and> x < e then P (x - d) else P x"
  show "repages (copy_down (nat n) e d) (e - n) s ?P"
    using copy_down_pages [of d e "nat n" s P] assms by simp
  show "repages (clear_down (nat d) (e - n)) () (s\<lparr>core := c\<rparr>) (\<lambda>x. if e - n - d \<le> x \<and> x < e - n then (\<lambda>_. 0) else ?P x)" if "page c = ?P" for c
    using clear_down_pages [of "e - n" "nat d" "s\<lparr>core := c\<rparr>" ?P] assms that by simp
qed

section \<open>The page table of an image\<close>

lemma text_page_simps [simp]:
  "text_page (s\<lparr>u := a\<rparr>) q = text_page s q" "text_page (s\<lparr>proc := b\<rparr>) q = text_page s q" "text_page (s\<lparr>core := c\<rparr>) q = text_page s q"
  "text_page (s\<lparr>coremap := d\<rparr>) q = text_page s q" "text_page (s\<lparr>upt := e\<rparr>) q = text_page s q" "text_page (s\<lparr>uplo := f\<rparr>) q = text_page s q"
  "text_page (s\<lparr>uphi := g\<rparr>) q = text_page s q"
  by (simp_all add: text_page_def split: option.split)

definition upt_set :: "'a mst_scheme \<Rightarrow> bool" where
  "upt_set s \<longleftrightarrow> upt_ok s \<and> (\<forall>i. 0 \<le> i \<and> i < 1024 \<longrightarrow> upt s i = pte (u_utab (u s)) (text_page s (me s)) (p_addr (me s)) i)"

lemma remap_simps [simp]:
  "u (remap s) = u s" "proc (remap s) = proc s" "core (remap s) = core s" "coremap (remap s) = coremap s" "text_t (remap s) = text_t s" "maxmem (remap s) = maxmem s"
  "text_page (remap s) q = text_page s q"
  by (simp_all add: remap_def Let_def)

lemma upt_set_remap: "sizes_ok (u_utab (u s)) \<Longrightarrow> upt_set (remap s)"
  unfolding upt_set_def upt_ok_def by (auto simp: remap_def Let_def pte_def sizes_ok_def)

lemma upt_set_cong:
  assumes "upt s = upt t" "uplo s = uplo t" "uphi s = uphi t" "u_utab (u s) = u_utab (u t)" "text_page s (me s) = text_page t (me t)" "p_addr (me s) = p_addr (me t)"
  shows "upt_set s \<longleftrightarrow> upt_set t"
  using assms by (simp add: upt_set_def upt_ok_def)

lemma estabur_ok:
  assumes "upt_ok s" "0 \<le> nt" "0 \<le> nd" "0 \<le> ns" "nt + nd + ns \<le> 1023" "nt + nd + ns + USIZE \<le> maxmem s"
    "page_no (p_addr (me s))" "page_no (text_page s (me s))"
  shows "estabur nt nd ns sep x s = Ok 0 (remap (s\<lparr>u := (u s)\<lparr>u_utab := (u_utab (u s))(0 := nt, 1 := nd, 2 := ns, 3 := x)\<rparr>\<rparr>))"
proof -
  let ?s = "s\<lparr>u := (u s)\<lparr>u_utab := (u_utab (u s))(0 := nt, 1 := nd, 2 := ns, 3 := x)\<rparr>\<rparr>"
  have "sureg ?s = Ok () (remap ?s)"
    by (rule sureg_ok [OF _ _ refl]) (use assms in \<open>auto simp: upt_ok_def sizes_ok_def\<close>)
  then show ?thesis unfolding estabur_def using assms(5,6) by (simp add: krun kthen_Ok [of sureg] kret_def del: fun_upd_apply)
qed

lemma estabur_refuses:
  "nt + nd + ns > 1023 \<or> nt + nd + ns + USIZE > maxmem s \<Longrightarrow> estabur nt nd ns sep x s = Ok (-1) (s\<lparr>u := (u s)\<lparr>u_error := ENOMEM\<rparr>\<rparr>)"
  by (simp add: estabur_def krun kret_def)

section \<open>The break\<close>

definition img :: "'a kst_scheme \<Rightarrow> int \<Rightarrow> int \<Rightarrow> int" where
  "img s k = pages s (p_addr (me s) + k)"

definition image_set :: "'a kst_scheme \<Rightarrow> int set" where
  "image_set s = {p_addr (me s) ..< p_addr (me s) + p_size (me s)}"

text \<open>From \<open>s\<close> to \<open>t\<close> the image keeps its first \<open>k\<close> pages, then has \<open>z\<close> zero pages, then what were its last \<open>n\<close> pages.\<close>

definition reshaped :: "'a kst_scheme \<Rightarrow> int \<Rightarrow> int \<Rightarrow> int \<Rightarrow> 'a kst_scheme \<Rightarrow> bool" where
  "reshaped s k z n t \<longleftrightarrow> p_size (me t) = k + z + n \<and> (\<forall>i. 0 \<le> i \<and> i < k \<longrightarrow> img t i = img s i) \<and>
     (\<forall>i. k \<le> i \<and> i < k + z \<longrightarrow> img t i = (\<lambda>_. 0)) \<and> (\<forall>i. 0 \<le> i \<and> i < n \<longrightarrow> img t (k + z + i) = img s (p_size (me s) - n + i))"

definition shaped :: "'a kst_scheme \<Rightarrow> bool" where
  "shaped s \<longleftrightarrow> 0 \<le> u_tsize (u s) \<and> 0 \<le> u_dsize (u s) \<and> 0 \<le> u_ssize (u s) \<and> p_size (me s) = USIZE + u_dsize (u s) + u_ssize (u s)"

text \<open>What a resizing leaves alone, and the core it takes and gives back.\<close>

definition only_image :: "int \<Rightarrow> int \<Rightarrow> 'a mst_scheme \<Rightarrow> 'a mst_scheme \<Rightarrow> bool" where
  "only_image lo hi s t \<longleftrightarrow> map_ok lo hi (coremap t) \<and> units (coremap t) = units (coremap s) \<union> image_set s - image_set t \<and>
     image_set t \<subseteq> units (coremap s) \<union> image_set s \<and> (\<forall>x. x \<notin> image_set s \<union> image_set t \<longrightarrow> pages t x = pages s x) \<and>
     (\<forall>p. p \<noteq> u_procp (u s) \<longrightarrow> proc t p = proc s p) \<and> u_procp (u t) = u_procp (u s)"

end
