(* ===== verification/Resize.thy ===== *)
theory Resize
  imports Expand
begin

text \<open>The two ways an image is resized, up to the property of \<^verbatim>\<open>sbreak\<close>, and of \<^verbatim>\<open>grow\<close>.\<close>

lemma image_grows:
  assumes "resident lo hi s" "upt_ok s" "sizes_ok (u_utab (u s))" "0 < d" "0 \<le> n" "n \<le> p_size (me s)"
    "{r ..< r + (p_size (me s) + d)} \<subseteq> units (coremap s)"
  shows "\<exists>t c. expand (p_size (me s) + d) s = Ok () t \<and> u t = u s \<and> p_size (me t) = p_size (me s) + d \<and>
     kbind (copy_down (nat n) (p_addr (me t) + (p_size (me s) + d)) d) (clear_down (nat d)) t = Ok () (t\<lparr>core := c\<rparr>) \<and>
     reshaped s (p_size (me s) - n) d n (t\<lparr>core := c\<rparr>) \<and> only_image lo hi s (t\<lparr>core := c\<rparr>) \<and> upt_set (t\<lparr>core := c\<rparr>)"
proof -
  let ?q = "me s" and ?p = "u_procp (u s)" and ?z = "p_size (me s)" and ?a1 = "p_addr (me s)"
  have ok: "map_ok lo hi (coremap s)" "0 \<le> ?z" "{?a1 ..< ?a1 + ?z} \<inter> units (coremap s) = {}" using assms(1) by (auto simp: resident_def)
  obtain a m b where e: "expand (?z + d) s = Ok () (remap (s\<lparr>proc := (proc s)(?p := ?q\<lparr>p_size := ?z + d, p_addr := a\<rparr>), core := b, coremap := m\<rparr>))"
    "map_ok lo hi m" "lo \<le> a" "a + (?z + d) \<le> hi" "{a ..< a + (?z + d)} \<subseteq> units (coremap s)"
    "units m = units (coremap s) - {a ..< a + (?z + d)} \<union> {?a1 ..< ?a1 + ?z}"
    "page b = (\<lambda>x. if a \<le> x \<and> x < a + ?z then pages s (x - a + ?a1) else pages s x)"
    using expand_grows [OF assms(1) _ assms(7,2,3)] assms(4) by auto
  define t where "t = remap (s\<lparr>proc := (proc s)(?p := ?q\<lparr>p_size := ?z + d, p_addr := a\<rparr>), core := b, coremap := m\<rparr>)"
  have t [simp]: "u t = u s" "proc t ?p = ?q\<lparr>p_size := ?z + d, p_addr := a\<rparr>" "core t = b" "coremap t = m" "\<And>x. x \<noteq> ?p \<Longrightarrow> proc t x = proc s x"
    by (simp_all add: t_def)
  have "repages (kbind (copy_down (nat n) (a + (?z + d)) d) (clear_down (nat d))) () t
     (\<lambda>x. if a + (?z + d) - n - d \<le> x \<and> x < a + (?z + d) - n then (\<lambda>_. 0) else if a + (?z + d) - n \<le> x \<and> x < a + (?z + d) then page b (x - d) else page b x)"
    by (rule insert_pages) (use assms(4-6) e(3,4) map_page [OF ok(1)] in auto)
  then obtain c where c: "kbind (copy_down (nat n) (a + (?z + d)) d) (clear_down (nat d)) t = Ok () (t\<lparr>core := c\<rparr>)"
    "\<And>x. page c x = (if a + ?z - n \<le> x \<and> x < a + (?z + d) - n then (\<lambda>_. 0) else if a + (?z + d) - n \<le> x \<and> x < a + (?z + d) then page b (x - d) else page b x)"
    unfolding repages_def by (auto simp: algebra_simps)
  have "reshaped s (?z - n) d n (t\<lparr>core := c\<rparr>)"
    unfolding reshaped_def img_def using assms(4-6) by (auto simp: c(2) e(7) algebra_simps)
  moreover have "only_image lo hi s (t\<lparr>core := c\<rparr>)"
    unfolding only_image_def image_set_def using assms(4-6) e(2,5,6) ok(3) by (auto simp: c(2) e(7) disjoint_iff)
  moreover have "upt_set (t\<lparr>core := c\<rparr>)"
    using upt_set_remap [of "s\<lparr>proc := (proc s)(?p := ?q\<lparr>p_size := ?z + d, p_addr := a\<rparr>), core := b, coremap := m\<rparr>"] assms(3) upt_set_cong [of "t\<lparr>core := c\<rparr>" t]
    by (simp add: t_def [symmetric])
  ultimately show ?thesis using e(1) c(1) by (intro exI [of _ t] exI [of _ c]) (simp add: t_def [symmetric])
qed

lemma image_shrinks:
  assumes "resident lo hi s" "upt_set s" "d \<le> 0" "0 \<le> n" "n \<le> p_size (me s) + d"
  shows "\<exists>t. kthen (copy_up (nat n) (p_addr (me s) + (p_size (me s) + d) - n) d) (expand (p_size (me s) + d)) s = Ok () t \<and> u t = u s \<and>
     reshaped s (p_size (me s) + d - n) 0 n t \<and> only_image lo hi s t \<and> upt_set t"
proof -
  let ?q = "me s" and ?p = "u_procp (u s)" and ?z = "p_size (me s)" and ?a = "p_addr (me s)"
  have ok: "map_ok lo hi (coremap s)" "0 \<le> ?z" "{?a ..< ?a + ?z} \<inter> units (coremap s) = {}" "lo \<le> ?a" "?a + ?z \<le> hi" using assms(1) by (auto simp: resident_def)
  let ?b = "?a + (?z + d) - n"
  have "repages (copy_up (nat n) ?b d) () s (\<lambda>x. if ?b \<le> x \<and> x < ?b + int (nat n) then pages s (x - d) else pages s x)"
    by (rule copy_up_pages) (use assms(3-5) ok map_page [OF ok(1)] in auto)
  then obtain c where c: "copy_up (nat n) ?b d s = Ok () (s\<lparr>core := c\<rparr>)" "\<And>x. page c x = (if ?b \<le> x \<and> x < ?b + n then pages s (x - d) else pages s x)"
    using assms(4) unfolding repages_def by auto
  let ?s = "s\<lparr>core := c\<rparr>"
  have "resident lo hi ?s" using assms(1) by (auto simp: resident_def split: option.splits)
  from expand_shrink [OF this, of "?z + d"] assms(3-5) obtain m where
    m: "expand (?z + d) ?s = Ok () (?s\<lparr>proc := (proc s)(?p := ?q\<lparr>p_size := ?z + d\<rparr>), coremap := m\<rparr>)" "map_ok lo hi m"
      "units m = units (coremap s) \<union> {?a + (?z + d) ..< ?a + ?z}" by auto
  define t where "t = ?s\<lparr>proc := (proc s)(?p := ?q\<lparr>p_size := ?z + d\<rparr>), coremap := m\<rparr>"
  have t [simp]: "u t = u s" "proc t ?p = ?q\<lparr>p_size := ?z + d\<rparr>" "core t = c" "coremap t = m" "\<And>x. x \<noteq> ?p \<Longrightarrow> proc t x = proc s x"
    by (simp_all add: t_def)
  have "reshaped s (?z + d - n) 0 n t"
    unfolding reshaped_def img_def using assms(3-5) by (auto simp: c(2) algebra_simps)
  moreover have "only_image lo hi s t"
    unfolding only_image_def image_set_def using assms(3-5) m(2,3) ok(3) by (auto simp: c(2) disjoint_iff)
  moreover have "upt_set t" using upt_set_cong [of t s] assms(2) by (simp add: t_def text_page_def split: option.split)
  ultimately show ?thesis using m(1) by (intro exI [of _ t]) (simp add: t_def [symmetric] kthen_Ok [of "copy_up _ _ _", OF c(1)])
qed

text \<open>The state in which \<^verbatim>\<open>sbreak\<close> and \<^verbatim>\<open>grow\<close> resize the image: the page table is set up for the new sizes.\<close>

definition sized :: "'a mst_scheme \<Rightarrow> int \<Rightarrow> int \<Rightarrow> int \<Rightarrow> (user \<Rightarrow> user) \<Rightarrow> 'a mst_scheme" where
  "sized s nt nd ns f = (let t = remap (s\<lparr>u := (u s)\<lparr>u_utab := (u_utab (u s))(0 := nt, 1 := nd, 2 := ns, 3 := RO)\<rparr>\<rparr>) in t\<lparr>u := f (u t)\<rparr>)"

lemma sized_ok:
  assumes "resident lo hi s" "upt_ok s" "0 < p_size (me s)" "0 \<le> nt" "0 \<le> nd" "0 \<le> ns" "nt + nd + ns \<le> 1023" "nt + nd + ns + USIZE \<le> maxmem s"
    "\<And>v. u_procp (f v) = u_procp v \<and> u_utab (f v) = u_utab v"
  shows "kbind (estabur nt nd ns sep RO) g s = g 0 (remap (s\<lparr>u := (u s)\<lparr>u_utab := (u_utab (u s))(0 := nt, 1 := nd, 2 := ns, 3 := RO)\<rparr>\<rparr>))"
    "resident lo hi (sized s nt nd ns f)" "upt_ok (sized s nt nd ns f)" "sizes_ok (u_utab (u (sized s nt nd ns f)))" "upt_set (sized s nt nd ns f)"
    "proc (sized s nt nd ns f) = proc s" "core (sized s nt nd ns f) = core s" "coremap (sized s nt nd ns f) = coremap s"
    "u (sized s nt nd ns f) = f ((u s)\<lparr>u_utab := (u_utab (u s))(0 := nt, 1 := nd, 2 := ns, 3 := RO)\<rparr>)" "me (sized s nt nd ns f) = me s"
proof -
  let ?s = "s\<lparr>u := (u s)\<lparr>u_utab := (u_utab (u s))(0 := nt, 1 := nd, 2 := ns, 3 := RO)\<rparr>\<rparr>"
  have pa: "page_no (p_addr (me s))" "page_no (text_page s (me s))"
    using assms(1,3) map_page [of lo hi "coremap s" "p_addr (me s)"] by (auto simp: resident_def text_page_def split: option.splits)
  show "kbind (estabur nt nd ns sep RO) g s = g 0 (remap ?s)"
    using kbind_Ok [of "estabur nt nd ns sep RO", OF estabur_ok [OF assms(2,4-8) pa]] .
  show f: "proc (sized s nt nd ns f) = proc s" "core (sized s nt nd ns f) = core s" "coremap (sized s nt nd ns f) = coremap s"
    "u (sized s nt nd ns f) = f ((u s)\<lparr>u_utab := (u_utab (u s))(0 := nt, 1 := nd, 2 := ns, 3 := RO)\<rparr>)" "me (sized s nt nd ns f) = me s"
    using assms(9) by (simp_all add: sized_def Let_def del: fun_upd_apply)
  have tx: "text_t (sized s nt nd ns f) = text_t s" by (simp add: sized_def Let_def del: fun_upd_apply)
  show "resident lo hi (sized s nt nd ns f)" using assms(1) unfolding resident_def f(2,3) f(5) tx .
  show sz: "sizes_ok (u_utab (u (sized s nt nd ns f)))" unfolding f(4) using assms(4-7,9) by (simp add: sizes_ok_def)
  have "upt_set (remap ?s)" using upt_set_remap [of ?s] assms(4-7) by (simp add: sizes_ok_def)
  then show m: "upt_set (sized s nt nd ns f)"
    using assms(9) by (subst upt_set_cong [of _ "remap ?s"]) (simp_all add: sized_def Let_def del: fun_upd_apply)
  then show "upt_ok (sized s nt nd ns f)" by (simp add: upt_set_def)
qed

lemma reshaped_cong: "pages s = pages s' \<Longrightarrow> me s = me s' \<Longrightarrow> reshaped s k z n t \<Longrightarrow> reshaped s' k z n t"
  by (simp add: reshaped_def img_def)

lemma only_image_cong:
  assumes "pages s = pages s'" "proc s = proc s'" "coremap s = coremap s'" "u_procp (u s) = u_procp (u s')" "only_image lo hi s t"
  shows "only_image lo hi s' t"
proof -
  have "image_set s = image_set s'" using assms by (simp add: image_set_def)
  then show ?thesis using assms unfolding only_image_def by simp
qed

lemma small_sizes:
  assumes "resident lo hi s" "shaped s"
  shows "u_dsize (u s) < 32768" "u_ssize (u s) < 32768"
  using assms by (auto simp: resident_def shaped_def map_ok_def USIZE_def)

lemma sbreak_ok:
  fixes s :: "'a mst_scheme"
  assumes "resident lo hi s" "upt_ok s" "shaped s" "n = brk_size (u s)"
    "u_tsize (u s) + n + u_ssize (u s) \<le> 1023" "u_tsize (u s) + n + u_ssize (u s) + USIZE \<le> maxmem s"
    "n \<le> u_dsize (u s) \<or> {r ..< r + (USIZE + n + u_ssize (u s))} \<subseteq> units (coremap s)"
  shows "\<exists>t. sbreak s = Ok () t \<and> u_dsize (u t) = n \<and> shaped t \<and>
     reshaped s (USIZE + min (u_dsize (u s)) n) (max 0 (n - u_dsize (u s))) (u_ssize (u s)) t \<and> only_image lo hi s t \<and> upt_set t"
proof -
  let ?v = "u s" and ?ds = "u_dsize (u s)" and ?ss = "u_ssize (u s)" and ?d = "n - u_dsize (u s)"
  have sh: "0 \<le> u_tsize ?v" "0 \<le> ?ds" "0 \<le> ?ss" "p_size (me s) = USIZE + ?ds + ?ss" using assms(3) by (auto simp: shaped_def)
  have n0: "0 \<le> n" unfolding assms(4) brk_size_def Let_def by simp
  note small = small_sizes [OF assms(1,3)]
  let ?f = "\<lambda>v. v\<lparr>u_dsize := n\<rparr> :: user"
  define t where "t = sized s (u_tsize ?v) n ?ss ?f"
  have p0: "0 < p_size (me s)" using sh by (simp add: USIZE_def)
  have fits: "n \<le> 1023" "?ss \<le> 1023" using assms(5) sh n0 by linarith+
  have fk: "u_procp (?f v) = u_procp v \<and> u_utab (?f v) = u_utab v" for v by simp
  note so = sized_ok [OF assms(1,2) p0 sh(1) n0 sh(3) assms(5,6) fk, folded t_def]
  have c: "cint (n - ?ds) = ?d" "cint (n + USIZE + ?ss) = p_size (me t) + ?d" "cint n = n" "cuint n = n" "cuint ?ss = ?ss"
    using small sh fits n0 by (simp_all add: cint_def cuint_def so(10) USIZE_def)
  have run: "sbreak s = (if ?d > 0
      then kthen (expand (p_size (me t) + ?d)) (kbind (pget (u_procp ?v) p_addr) (\<lambda>pa. kbind (copy_down (nat ?ss) (pa + (p_size (me t) + ?d)) ?d) (clear_down (nat ?d)))) t
      else kbind (pget (u_procp ?v) p_addr) (\<lambda>pa. kthen (copy_up (nat ?ss) (pa + (p_size (me t) + ?d) - ?ss) ?d) (expand (p_size (me t) + ?d))) t)"
    unfolding sbreak_def
    by (simp add: krun Let_def assms(4) [symmetric] c [unfolded so(10)] so(1) t_def [unfolded sized_def Let_def] del: fun_upd_apply One_nat_def cong: if_cong)
  have up: "u_procp (u t) = u_procp ?v" "u_dsize (u t) = n" "u_tsize (u t) = u_tsize ?v" "u_ssize (u t) = ?ss" using so(9) by simp_all
  have conc: "\<exists>w. sbreak s = Ok () w \<and> u_dsize (u w) = n \<and> shaped w \<and>
     reshaped s (USIZE + min ?ds n) (max 0 (n - ?ds)) ?ss w \<and> only_image lo hi s w \<and> upt_set w"
    if w: "sbreak s = Ok () w" "u w = u t" "reshaped t k z ?ss w" "only_image lo hi t w" "upt_set w" "k = USIZE + min ?ds n" "z = max 0 (n - ?ds)" for w k z
  proof -
    have "reshaped s k z ?ss w" by (rule reshaped_cong [OF _ _ w(3)]) (use so up in simp_all)
    moreover have "only_image lo hi s w" by (rule only_image_cong [OF _ _ _ _ w(4)]) (use so up in simp_all)
    moreover from this have "shaped w" using sh n0 up \<open>reshaped s k z ?ss w\<close> w(2,6,7) by (auto simp: shaped_def reshaped_def)
    ultimately show ?thesis using w up by auto
  qed
  show ?thesis
  proof (cases "?d > 0")
    case True
    obtain w c where w: "expand (p_size (me t) + ?d) t = Ok () w" "u w = u t" "p_size (me w) = p_size (me t) + ?d"
      "kbind (copy_down (nat ?ss) (p_addr (me w) + (p_size (me t) + ?d)) ?d) (clear_down (nat ?d)) w = Ok () (w\<lparr>core := c\<rparr>)"
      "reshaped t (p_size (me t) - ?ss) ?d ?ss (w\<lparr>core := c\<rparr>)" "only_image lo hi t (w\<lparr>core := c\<rparr>)" "upt_set (w\<lparr>core := c\<rparr>)"
      using image_grows [OF so(2,3,4) True sh(3), of r] sh assms(7) True unfolding so(8) so(10) by (auto simp: algebra_simps USIZE_def)
    have "sbreak s = Ok () (w\<lparr>core := c\<rparr>)"
      using run True w(4) by (simp add: kthen_Ok [of "expand _", OF w(1) [unfolded up(1)]] krun w(2) up)
    then show ?thesis by (rule conc) (use w True sh in \<open>auto simp: so(10)\<close>)
  next
    case False
    then obtain w where w: "kthen (copy_up (nat ?ss) (p_addr (me t) + (p_size (me t) + ?d) - ?ss) ?d) (expand (p_size (me t) + ?d)) t = Ok () w"
      "u w = u t" "reshaped t (p_size (me t) + ?d - ?ss) 0 ?ss w" "only_image lo hi t w" "upt_set w"
      using image_shrinks [OF so(2,5) _ sh(3), of ?d] sh n0 unfolding so(10) by (auto simp: USIZE_def)
    have "sbreak s = Ok () w" using run False w(1) by (simp add: krun up)
    then show ?thesis by (rule conc) (use w False sh in \<open>auto simp: so(10)\<close>)
  qed
qed

text \<open>The stack grows to the page of \<open>sp\<close>: its pages stay at the end of the image and the new ones below them are zero.\<close>

lemma grow_ok:
  fixes s :: "'a mst_scheme"
  assumes "resident lo hi s" "upt_ok s" "shaped s" "0 \<le> sp" "sp \<le> USTK - u_ssize (u s) * PGSZ" "n = (USTK - sp) div PGSZ + 1"
    "u_tsize (u s) + u_dsize (u s) + n \<le> 1023" "u_tsize (u s) + u_dsize (u s) + n + USIZE \<le> maxmem s"
    "{r ..< r + (USIZE + u_dsize (u s) + n)} \<subseteq> units (coremap s)"
  shows "\<exists>t. grow sp s = Ok True t \<and> u_ssize (u t) = n \<and> shaped t \<and>
     reshaped s (USIZE + u_dsize (u s)) (n - u_ssize (u s)) (u_ssize (u s)) t \<and> only_image lo hi s t \<and> upt_set t"
proof -
  let ?v = "u s" and ?ds = "u_dsize (u s)" and ?ss = "u_ssize (u s)" and ?d = "n - u_ssize (u s)"
  have sh: "0 \<le> u_tsize ?v" "0 \<le> ?ds" "0 \<le> ?ss" "p_size (me s) = USIZE + ?ds + ?ss" using assms(3) by (auto simp: shaped_def)
  have d: "0 < ?d" "0 \<le> n" using assms(5,6) sh(3) by (simp_all add: USTK_def PGSZ_def)
  have p0: "0 < p_size (me s)" using sh by (simp add: USIZE_def)
  define t where "t = sized s (u_tsize ?v) ?ds n (\<lambda>v. v)"
  note so = sized_ok [OF assms(1,2) p0 sh(1,2) d(2) assms(7,8), of "\<lambda>v. v", simplified, folded t_def]
  have fits: "n \<le> 1023" "?ss < n" using assms(7) sh d by linarith+
  have si: "cint (cuint (USTK - sp) div 4096 - ?ss + SINCR) = ?d" "cuint (USTK - ctob ?ss) = USTK - ?ss * PGSZ" "cint n = n" "cuint n = n" "cuint ?ss = ?ss"
    using assms(4-6) fits sh(3) by (simp_all add: cint_def cuint_def USTK_def PGSZ_def SINCR_def ctob_def)
  have up: "u_procp (u t) = u_procp ?v" "u_dsize (u t) = ?ds" "u_tsize (u t) = u_tsize ?v" "u_ssize (u t) = ?ss" using so(9) by simp_all
  obtain w c where w: "expand (p_size (me t) + ?d) t = Ok () w" "u w = u t" "p_size (me w) = p_size (me t) + ?d"
    "kbind (copy_down (nat ?ss) (p_addr (me w) + (p_size (me t) + ?d)) ?d) (clear_down (nat ?d)) w = Ok () (w\<lparr>core := c\<rparr>)"
    "reshaped t (p_size (me t) - ?ss) ?d ?ss (w\<lparr>core := c\<rparr>)" "only_image lo hi t (w\<lparr>core := c\<rparr>)" "upt_set (w\<lparr>core := c\<rparr>)"
    using image_grows [OF so(2,3,4) d(1) sh(3), of r] sh assms(9) unfolding so(8) so(10) by (auto simp: algebra_simps USIZE_def)
  define x where "x = w\<lparr>core := c, u := (u w)\<lparr>u_ssize := n\<rparr>\<rparr>"
  have cc: "kbind (copy_down (nat ?ss) (p_addr (me w) + p_size (me w)) ?d) (\<lambda>a. kthen (clear_down (nat ?d) a) f) w = f (w\<lparr>core := c\<rparr>)"
    for f :: "(bool, 'a mst_scheme) kmon"
    using w(4) unfolding w(3) by (auto simp: kdefs split: kres.splits)
  have te: "remap (s\<lparr>u := (u s)\<lparr>u_utab := (u_utab (u s))(0 := u_tsize ?v, Suc 0 := ?ds, 2 := n, 3 := RO)\<rparr>\<rparr>) = t"
    by (simp add: t_def sized_def Let_def del: fun_upd_apply)
  have "grow sp s = Ok True x"
    unfolding grow_def
    using assms(5) d(1)
    by (simp add: krun Let_def si so(1) te so(6) kthen_Ok [of "expand _", OF w(1) [unfolded so(10)]] cc [unfolded w(2) up(1)] w(2) up x_def kret_def
        del: fun_upd_apply One_nat_def cong: if_cong)
  moreover have "reshaped s (USIZE + ?ds) ?d ?ss x"
    using reshaped_cong [OF _ _ w(5), of s] sh(4) by (simp add: so reshaped_def img_def x_def)
  moreover have "only_image lo hi s x"
    using only_image_cong [OF _ _ _ _ w(6), of s] by (simp add: so up w(2) only_image_def image_set_def x_def)
  moreover have "upt_set x" using w(7) by (subst upt_set_cong [of _ "w\<lparr>core := c\<rparr>"]) (simp_all add: x_def)
  moreover have "shaped x" "u_ssize (u x) = n" using sh d(2) w(2,3) up by (simp_all add: shaped_def x_def so)
  ultimately show ?thesis by blast
qed

end
