(* ===== verification/Fork_Spec.thy ===== *)
theory Fork_Spec
  imports Resize
begin

text \<open>Creation of a process: what \<^verbatim>\<open>newproc\<close> gives the child, and what it shares with the parent.\<close>

section \<open>Shared files\<close>

definition refs_to :: "user \<Rightarrow> nat list \<Rightarrow> nat \<Rightarrow> int" where
  "refs_to v ns fp = int (length (filter (\<lambda>n. u_ofile v n = Some fp) ns))"

lemma dup_files:
  "\<exists>ft. kfor ns dup_file s = Ok () (s\<lparr>file_t := ft\<rparr>) \<and>
     (\<forall>fp. ft fp = (if refs_to (u s) ns fp = 0 then file_t s fp else (file_t s fp)\<lparr>f_count := cchar (f_count (file_t s fp) + refs_to (u s) ns fp)\<rparr>))"
proof (induction ns arbitrary: s)
  case Nil
  then show ?case by (intro exI [of _ "file_t s"]) (simp add: kret_def refs_to_def)
next
  case (Cons n ns)
  show ?case
  proof (cases "u_ofile (u s) n")
    case None
    then have "dup_file n s = Ok () s" by (simp add: dup_file_def krun kret_def)
    moreover have "refs_to (u s) (n # ns) = refs_to (u s) ns" using None by (auto simp: refs_to_def)
    ultimately show ?thesis using Cons.IH [of s] by (simp only: kfor.simps kthen_Ok [of "dup_file n"])
  next
    case (Some f)
    let ?t = "s\<lparr>file_t := (file_t s)(f := (file_t s f)\<lparr>f_count := cchar (f_count (file_t s f) + 1)\<rparr>)\<rparr>"
    have d: "dup_file n s = Ok () ?t" using Some by (simp add: dup_file_def krun filemod_def kmod_def)
    obtain ft where ft: "kfor ns dup_file ?t = Ok () (?t\<lparr>file_t := ft\<rparr>)"
      "\<And>fp. ft fp = (if refs_to (u s) ns fp = 0 then file_t ?t fp else (file_t ?t fp)\<lparr>f_count := cchar (f_count (file_t ?t fp) + refs_to (u s) ns fp)\<rparr>)"
      using Cons.IH [of ?t] by auto
    have r: "refs_to (u s) (n # ns) fp = refs_to (u s) ns fp + (if fp = f then 1 else 0)" "0 \<le> refs_to (u s) ns fp" for fp using Some by (auto simp: refs_to_def)
    have "ft fp = (if refs_to (u s) (n # ns) fp = 0 then file_t s fp else (file_t s fp)\<lparr>f_count := cchar (f_count (file_t s fp) + refs_to (u s) (n # ns) fp)\<rparr>)" for fp
      using ft(2) [of fp] r [of fp] by (auto simp: cchar_def mod_simps algebra_simps)
    moreover have "kfor (n # ns) dup_file s = Ok () (s\<lparr>file_t := ft\<rparr>)" using ft(1) by (simp add: kthen_Ok [of "dup_file n", OF d])
    ultimately show ?thesis by blast
  qed
qed

definition one_more :: "nat \<Rightarrow> (nat \<Rightarrow> inode) \<Rightarrow> nat \<Rightarrow> inode" where
  "one_more ip it = it(ip := (it ip)\<lparr>i_count := cchar (i_count (it ip) + 1)\<rparr>)"

definition shared :: "nat option \<Rightarrow> 'a xst_scheme \<Rightarrow> 'a xst_scheme" where
  "shared xo s = s\<lparr>
     file_t := (\<lambda>fp. let n = refs_to (u s) [0 ..< NOFILE] fp in
        if n = 0 then file_t s fp else (file_t s fp)\<lparr>f_count := cchar (f_count (file_t s fp) + n)\<rparr>),
     text_t := (case xo of None \<Rightarrow> text_t s | Some xp \<Rightarrow>
        (text_t s)(xp := (text_t s xp)\<lparr>x_count := cchar (x_count (text_t s xp) + 1), x_ccount := cchar (x_ccount (text_t s xp) + 1)\<rparr>)),
     inode := (case u_rdir (u s) of None \<Rightarrow> one_more (u_cdir (u s)) (inode s)
        | Some ip \<Rightarrow> one_more ip (one_more (u_cdir (u s)) (inode s)))\<rparr>"

lemma dup_refs_ok: "dup_refs xo s = Ok () (shared xo s)"
proof -
  obtain ft where ft: "kfor [0 ..< NOFILE] dup_file s = Ok () (s\<lparr>file_t := ft\<rparr>)"
     "\<And>fp. ft fp = (if refs_to (u s) [0 ..< NOFILE] fp = 0 then file_t s fp else (file_t s fp)\<lparr>f_count := cchar (f_count (file_t s fp) + refs_to (u s) [0 ..< NOFILE] fp)\<rparr>)"
    using dup_files by blast
  have fe: "ft = (\<lambda>fp. let n = refs_to (u s) [0 ..< NOFILE] fp in if n = 0 then file_t s fp else (file_t s fp)\<lparr>f_count := cchar (f_count (file_t s fp) + n)\<rparr>)"
    using ft(2) by (auto simp: Let_def fun_eq_iff)
  show ?thesis
    unfolding dup_refs_def shared_def fe [symmetric]
    by (cases xo; cases "u_rdir (u s)")
      (simp_all add: kthen_Ok [of "kfor _ _", OF ft(1)] krun kret_run one_more_def del: fun_upd_apply)
qed

lemma shared_simps [simp]:
  "u (shared xo s) = u s" "proc (shared xo s) = proc s" "core (shared xo s) = core s" "coremap (shared xo s) = coremap s"
  "uarea (shared xo s') = uarea s'" "runq (shared xo s) = runq s" "slpque (shared xo s) = slpque s" "mpid (shared xo s) = mpid s"
  "ar0 (shared xo s') = ar0 s'" "swapmap (shared xo s'') = swapmap s''"
  by (simp_all add: shared_def)

section \<open>The new process\<close>

lemma qlists_same:
  assumes "qlists_ok s Q" "runq t = runq s" "slpque t = slpque s" "proc t = proc s"
  shows "qlists_ok t Q"
proof -
  have "links t = links s" using assms(4) by (simp add: fun_eq_iff links_def)
  moreover have "head t k = head s k" for k using assms(2,3) by (simp add: head_def split: option.split)
  ultimately show ?thesis using assms(1) by (simp add: qlists_ok_def)
qed

lemma qlists_off:
  assumes "qlists_ok s Q" "\<forall>k. c \<notin> set (Q k)" "runq t = runq s" "slpque t = slpque s" "\<And>p. p \<noteq> c \<Longrightarrow> proc t p = proc s p"
  shows "qlists_ok t Q"
proof -
  have "lseg (links t) e (Q k) None = lseg (links s) e (Q k) None" for e k
    using assms(2,5) by (intro lseg_cong) (auto simp: links_def, metis)
  moreover have "head t k = head s k" for k using assms(3,4) by (simp add: head_def split: option.split)
  ultimately show ?thesis using assms(1) by (simp add: qlists_ok_def)
qed

text \<open>The entry \<open>x\<close> and the memory of \<open>t\<close> describe a child of the running process of \<open>s\<close>, its image a copy of the parent's.\<close>

definition born :: "'a mst_scheme \<Rightarrow> nat \<Rightarrow> 'a mst_scheme \<Rightarrow> bool" where
  "born s c t \<longleftrightarrow> (let x = proc t c; q = me s in
     p_stat x = SRUN \<and> p_flag x = {SLOAD, SSWAP} \<and> p_ppid x = p_pid q \<and> p_uid x = p_uid q \<and> p_pgrp x = p_pgrp q \<and>
     p_nice x = p_nice q \<and> p_textp x = p_textp q \<and> p_clktim x = 0 \<and> p_size x = p_size q \<and>
     0 < p_pid x \<and> p_pid x < 30000 \<and> (\<forall>p<NPROC. p_pid (proc s p) \<noteq> p_pid x \<and> p_pgrp (proc s p) \<noteq> p_pid x) \<and>
     (\<forall>k. 0 \<le> k \<and> k < p_size q \<longrightarrow> pages t (p_addr x + k) = img s k) \<and>
     uarea t c = (u s)\<lparr>u_procp := c\<rparr>)"

text \<open>What the creation of the process \<open>c\<close> leaves: everything shared is counted, only the free pages of the new image are written, and
  the child is at the head of the run queue.\<close>

definition forked :: "int \<Rightarrow> int \<Rightarrow> 'a mst_scheme \<Rightarrow> nat \<Rightarrow> (nat option \<Rightarrow> nat list) \<Rightarrow> 'a mst_scheme \<Rightarrow> bool" where
  "forked lo hi s c Q t \<longleftrightarrow> born s c t \<and> (\<forall>p. p \<noteq> c \<longrightarrow> proc t p = proc s p) \<and>
     file_t t = file_t (shared (p_textp (me s)) s) \<and> text_t t = text_t (shared (p_textp (me s)) s) \<and> inode t = inode (shared (p_textp (me s)) s) \<and>
     qlists_ok t (Q(None := c # Q None)) \<and> map_ok lo hi (coremap t) \<and>
     (let I = {p_addr (proc t c) ..< p_addr (proc t c) + p_size (me s)} in I \<subseteq> units (coremap s) \<and> units (coremap t) = units (coremap s) - I \<and>
        (\<forall>x. x \<notin> I \<longrightarrow> pages t x = pages s x))"

lemma newproc_ok:
  fixes s :: "'a mst_scheme"
  assumes "resident lo hi s" "0 < p_size (me s)" "0 \<le> mpid s" "mpid s < 30000" "p_stat (me s) \<noteq> SNULL"
    "find (\<lambda>i. p_stat (proc s i) = SNULL) [0 ..< NPROC] = Some c" "qlists_ok s Q" "\<forall>k. c \<notin> set (Q k)"
    "{r ..< r + p_size (me s)} \<subseteq> units (coremap s)"
  shows "\<exists>t. newproc s = Ok () t \<and> forked lo hi s c Q t \<and> u t = u s \<and> ar0 t = ar0 s \<and> swapmap t = swapmap s"
proof -
  let ?p = "u_procp (u s)" and ?q = "me s" and ?n = "p_size (me s)" and ?a1 = "p_addr (me s)"
  have c: "c < NPROC" "p_stat (proc s c) = SNULL" using assms(6) by (auto simp: find_Some_iff)
  then have cp: "c \<noteq> ?p" using assms(5) by auto
  have ok: "map_ok lo hi (coremap s)" "lo \<le> ?a1" "?a1 + ?n \<le> hi" "{?a1 ..< ?a1 + ?n} \<inter> units (coremap s) = {}" using assms(1) by (auto simp: resident_def)
  have hi: "hi \<le> 32768" "0 < lo" using ok(1) by (auto simp: map_ok_def)
  obtain pid where pid: "0 < pid" "pid < 30000" "pid \<notin> used_ids s" "newpid s = Ok pid (s\<lparr>mpid := pid\<rparr>)" using newpid_ok [OF assms(3,4)] by blast
  define s3 where "s3 = shared (p_textp ?q) (s\<lparr>mpid := pid, proc := (proc s)(c := child_of ?q pid (proc s c))\<rparr>)"
  define s5 where "s5 = s3\<lparr>u := (u s)\<lparr>u_procp := c\<rparr>, proc := (proc s)(c := (child_of ?q pid (proc s c))\<lparr>p_size := ?n\<rparr>)\<rparr>"
  have "coremap s5 = coremap s" by (simp add: s5_def s3_def)
  then obtain a m where a: "malloc_core ?n s5 = Ok a (s5\<lparr>coremap := m\<rparr>)" "a \<noteq> 0" "map_ok lo hi m" "lo \<le> a" "a + ?n \<le> hi"
    "{a ..< a + ?n} \<subseteq> units (coremap s)" "units m = units (coremap s) - {a ..< a + ?n}"
    using malloc_core_ok [of lo hi s5 ?n r] ok(1) assms(2,9) by auto
  have sa: "short a = a" "short pid = pid" "cuint ?n = ?n" using a(4,5) hi assms(2) pid(1,2) ok(2,3) by (simp_all add: short_def cuint_def)
  define x where "x = (child_of ?q pid (proc s c))\<lparr>p_size := ?n, p_addr := a\<rparr>"
  define s6 where "s6 = s5\<lparr>coremap := m, uarea := (uarea s)(c := (u s)\<lparr>u_procp := c\<rparr>), proc := (proc s)(c := x)\<rparr>"
  have dj: "{?a1 ..< ?a1 + int (nat ?n)} \<inter> {a ..< a + int (nat ?n)} = {}"
  proof -
    have n: "int (nat ?n) = ?n" using assms(2) by simp
    show ?thesis unfolding n using a(6) ok(4) by blast
  qed
  have "repages (copy_image (int (nat ?n)) ?a1 a) () s6 (\<lambda>y. if a \<le> y \<and> y < a + int (nat ?n) then pages s6 (y - a + ?a1) else pages s6 y)"
    by (rule copy_image_pages [OF dj]) (use map_page [OF ok(1)] a(4,5) ok assms(2) in auto)
  then obtain b where b: "copy_image ?n ?a1 a s6 = Ok () (s6\<lparr>core := b\<rparr>)" "\<And>y. page b y = (if a \<le> y \<and> y < a + ?n then pages s (y - a + ?a1) else pages s y)"
    using assms(2) unfolding repages_def by (auto simp: s6_def s5_def s3_def)
  define s8 where "s8 = s6\<lparr>core := b, u := u s\<rparr>"
  have f8: "runq s8 = runq s" "slpque s8 = slpque s" "proc s8 = (proc s)(c := x)" "u s8 = u s" by (simp_all add: s8_def s6_def s5_def s3_def)
  have "qlists_ok s8 Q" by (rule qlists_off [OF assms(7,8) f8(1,2)]) (simp add: f8)
  from setrq_push [OF this assms(8) c(1)] obtain s9 where
    s9: "setrq c s8 = Ok () s9" "qlists_ok s9 (Q(None := c # Q None))" "s9 = s8\<lparr>runq := Some c, proc := (proc s)(c := x\<lparr>p_link := runq s\<rparr>)\<rparr>"
    by (auto simp: f8)
  define t where "t = s9\<lparr>proc := (proc s9)(c := (proc s9 c)\<lparr>p_flag := p_flag (proc s9 c) \<union> {SSWAP}\<rparr>)\<rparr>"
  have d: "dup_refs (p_textp ?q) (s\<lparr>mpid := pid, proc := (proc s)(c := child_of ?q pid (proc s c))\<rparr>) = Ok () s3"
    by (simp add: dup_refs_ok s3_def)
  have e5: "s3\<lparr>u := (u s)\<lparr>u_procp := c\<rparr>, proc := (proc s)(c := (child_of ?q pid (proc s c))\<lparr>p_size := ?n\<rparr>)\<rparr> = s5" by (simp add: s5_def s3_def)
  have e6: "s5\<lparr>coremap := m, uarea := (uarea s5)(c := u s5), proc := (proc s5)(c := (proc s5 c)\<lparr>p_addr := a\<rparr>)\<rparr> = s6"
    by (simp add: s6_def s5_def s3_def x_def)
  have e8: "s6\<lparr>core := b, u := (u s6)\<lparr>u_procp := ?p\<rparr>\<rparr> = s8" by (simp add: s8_def s6_def s5_def s3_def)
  have f3: "proc s3 = (proc s)(c := child_of ?q pid (proc s c))" "u s3 = u s" by (simp_all add: s3_def)
  have run: "newproc s = Ok () t"
    unfolding newproc_def Let_def using assms(6) cp a(2)
    by (simp add: kbind_Ok [of newpid, OF pid(4)] krun kthen_Ok [of "dup_refs _", OF d] f3 e5 kbind_Ok [of "malloc_core _", OF a(1)] sa e6
        kthen_Ok [of "copy_image _ _ _", OF b(1)] e8 kthen_Ok [of "setrq _", OF s9(1)] t_def fun_upd_same del: fun_upd_apply cong: if_cong)
  have pt: "proc t = (proc s)(c := x\<lparr>p_link := runq s, p_flag := {SLOAD, SSWAP}\<rparr>)" "core t = b" "coremap t = m"
    by (auto simp: t_def s9(3) x_def child_of_def s8_def s6_def insert_commute)
  have other: "u t = u s" "uarea t = (uarea s)(c := (u s)\<lparr>u_procp := c\<rparr>)" "ar0 t = ar0 s" "swapmap t = swapmap s"
    by (simp_all add: t_def s9(3) s8_def s6_def s5_def s3_def)
  have sh: "file_t t = file_t (shared (p_textp ?q) s)" "text_t t = text_t (shared (p_textp ?q) s)" "inode t = inode (shared (p_textp ?q) s)"
    by (simp_all add: t_def s9(3) s8_def s6_def s5_def s3_def shared_def Let_def cong: if_cong option.case_cong)
  have q: "qlists_ok t (Q(None := c # Q None))"
    unfolding t_def by (rule qlists_nolink [OF s9(2)]) simp
  have "\<forall>p<NPROC. p_pid (proc s p) \<noteq> pid \<and> p_pgrp (proc s p) \<noteq> pid" using pid(3) by (auto simp: used_ids_def image_iff)
  then have "born s c t"
    unfolding born_def Let_def img_def other by (auto simp: pt x_def child_of_def sa pid(1,2) b(2) add.commute)
  with run other sh q a(3,6,7) show ?thesis
    by (intro exI [of _ t]) (auto simp: forked_def pt x_def b(2) Let_def)
qed

section \<open>\<^verbatim>\<open>fork\<close>\<close>

definition owned :: "'a kst_scheme \<Rightarrow> int" where
  "owned s = int (length (filter (\<lambda>p. p_uid (proc s p) = u_uid (u s) \<and> p_stat (proc s p) \<noteq> SNULL) [0 ..< NPROC]))"

definition slot :: "'a kst_scheme \<Rightarrow> nat option" where
  "slot s = find (\<lambda>p. p_stat (proc s p) = SNULL) [0 ..< NPROC]"

text \<open>The ordinary user may neither take the last entry nor have more than \<^verbatim>\<open>MAXUPRC\<close> processes already.\<close>

definition may_fork :: "'a kst_scheme \<Rightarrow> bool" where
  "may_fork s \<longleftrightarrow> slot s \<noteq> None \<and> (u_uid (u s) = 0 \<or> slot s \<noteq> Some (NPROC - 1) \<and> owned s \<le> MAXUPRC)"

lemma fork_scan_eq:
  "fork_scan uid pr ps r a = (case r of None \<Rightarrow> find (\<lambda>p. p_stat (pr p) = SNULL) ps | Some p \<Rightarrow> Some p,
     a + int (length (filter (\<lambda>p. p_uid (pr p) = uid \<and> p_stat (pr p) \<noteq> SNULL) ps)))"
  by (induction ps arbitrary: r a) (auto split: option.split)

lemma fork_scan_all: "fork_scan (u_uid (u s)) (proc s) [0 ..< NPROC] None 0 = (slot s, owned s)"
  by (simp add: fork_scan_eq slot_def owned_def)

definition swap_room :: "'a xst_scheme \<Rightarrow> bool" where
  "swap_room s \<longleftrightarrow> (\<exists>w. {w ..< w + ctod MAXMEM} \<subseteq> units (swapmap s))"

lemma maxmem_pos: "0 < ctod MAXMEM"
  by (simp add: ctod_def MAXMEM_def cint_def)

text \<open>The check of \<^verbatim>\<open>fork\<close> for swap space takes a run and gives it back.\<close>

lemma swap_check:
  assumes "map_ok lo hi (swapmap s)" "2 \<le> length (spare (swapmap s))" "swap_room s"
  shows "\<exists>a m1 m. malloc_swap (ctod MAXMEM) s = Ok a (s\<lparr>swapmap := m1\<rparr>) \<and> a \<noteq> 0 \<and>
     mfree_swap (ctod MAXMEM) a (s\<lparr>swapmap := m1\<rparr>) = Ok () (s\<lparr>swapmap := m\<rparr>) \<and> map_ok lo hi m \<and> units m = units (swapmap s)"
proof -
  from rm.get_total [OF assms(1) maxmem_pos] obtain a m1 where g: "malloc (swapmap s) (ctod MAXMEM) = Some (a, m1)" by blast
  have a: "a \<noteq> 0" using rm.get_none [OF assms(1) maxmem_pos, of m1] g assms(3) by (auto simp: swap_room_def)
  from rm.get_put [OF assms(1) maxmem_pos g a assms(2)] obtain m where
    "mfree_map m1 (ctod MAXMEM) a = Some m" "map_ok lo hi m" "units m = units (swapmap s)" by blast
  moreover have "malloc_swap (ctod MAXMEM) s = Ok a (s\<lparr>swapmap := m1\<rparr>)" using g by (simp add: malloc_swap_def krun kret_run kmod_run)
  moreover have "mfree_swap (ctod MAXMEM) a (s\<lparr>swapmap := m1\<rparr>) = Ok () (s\<lparr>swapmap := m\<rparr>)"
    using calculation(1) by (simp add: mfree_swap_def krun kret_run kmod_run)
  ultimately show ?thesis using a by blast
qed

lemma swap_full:
  assumes "map_ok lo hi (swapmap s)" "\<not> swap_room s"
  shows "malloc_swap (ctod MAXMEM) s = Ok 0 s"
proof -
  from rm.get_total [OF assms(1) maxmem_pos] obtain a m1 where g: "malloc (swapmap s) (ctod MAXMEM) = Some (a, m1)" by blast
  have "a = 0" using rm.get_some [OF assms(1) maxmem_pos g] assms(2) unfolding swap_room_def by blast
  then have "m1 = swapmap s" using rm.get_none [OF assms(1) maxmem_pos] g by blast
  with g \<open>a = 0\<close> show ?thesis by (simp add: malloc_swap_def krun kret_run)
qed

definition returned :: "int \<Rightarrow> int" where
  "returned pc = cint (pc + 2)"

lemma fork_refused:
  fixes s :: "'a mst_scheme"
  assumes "map_ok slo shi (swapmap s)" "2 \<le> length (spare (swapmap s))" "\<not> (swap_room s \<and> may_fork s)"
  shows "\<exists>m. fork s = Ok () (s\<lparr>swapmap := m, u := (u s)\<lparr>u_error := (if swap_room s then EAGAIN else ENOMEM)\<rparr>, ar0 := (ar0 s)(EIP := returned (ar0 s EIP))\<rparr>) \<and>
     map_ok slo shi m \<and> units m = units (swapmap s)"
proof (cases "swap_room s")
  case False
  then show ?thesis using assms(1)
    by (intro exI [of _ "swapmap s"]) (simp add: fork_def fork_out_def krun kmod_run returned_def kbind_Ok [of "malloc_swap _", OF swap_full [OF assms(1) False]])
next
  case True
  from swap_check [OF assms(1,2) True] obtain a m1 m where
    c: "malloc_swap (ctod MAXMEM) s = Ok a (s\<lparr>swapmap := m1\<rparr>)" "a \<noteq> 0" "mfree_swap (ctod MAXMEM) a (s\<lparr>swapmap := m1\<rparr>) = Ok () (s\<lparr>swapmap := m\<rparr>)"
    "map_ok slo shi m" "units m = units (swapmap s)" by blast
  have "\<not> may_fork s" using assms(3) True by simp
  then have "fork s = Ok () (s\<lparr>swapmap := m, u := (u s)\<lparr>u_error := EAGAIN\<rparr>, ar0 := (ar0 s)(EIP := returned (ar0 s EIP))\<rparr>)"
    using c(2) by (auto simp: fork_def fork_out_def krun kmod_run returned_def kbind_Ok [of "malloc_swap _", OF c(1)] kthen_Ok [of "mfree_swap _ _", OF c(3)]
        fork_scan_all may_fork_def split: option.split)
  then show ?thesis using True c(4,5) by auto
qed

lemma fork_ok:
  fixes s :: "'a mst_scheme"
  assumes "map_ok slo shi (swapmap s)" "2 \<le> length (spare (swapmap s))" "swap_room s" "may_fork s" "slot s = Some c"
    "resident lo hi s" "0 < p_size (me s)" "0 \<le> mpid s" "mpid s < 30000" "p_stat (me s) \<noteq> SNULL" "qlists_ok s Q" "\<forall>k. c \<notin> set (Q k)"
    "{r ..< r + p_size (me s)} \<subseteq> units (coremap s)"
  shows "\<exists>t. fork s = Ok () t \<and> forked lo hi s c Q t \<and> u t = (u s)\<lparr>r_val1 := p_pid (proc t c)\<rparr> \<and> ar0 t = (ar0 s)(EIP := returned (ar0 s EIP)) \<and>
     map_ok slo shi (swapmap t) \<and> units (swapmap t) = units (swapmap s)"
proof -
  from swap_check [OF assms(1-3)] obtain a m1 m where
    k: "malloc_swap (ctod MAXMEM) s = Ok a (s\<lparr>swapmap := m1\<rparr>)" "a \<noteq> 0" "mfree_swap (ctod MAXMEM) a (s\<lparr>swapmap := m1\<rparr>) = Ok () (s\<lparr>swapmap := m\<rparr>)"
    "map_ok slo shi m" "units m = units (swapmap s)" by blast
  let ?s = "s\<lparr>swapmap := m\<rparr>"
  have "resident lo hi ?s" "qlists_ok ?s Q" using assms(6) qlists_same [OF assms(11), of ?s] by (simp_all add: resident_def cong: option.case_cong)
  from newproc_ok [OF this(1) _ _ _ _ _ this(2), of c r] assms obtain t where
    t: "newproc ?s = Ok () t" "forked lo hi ?s c Q t" "u t = u s" "ar0 t = ar0 s" "swapmap t = m" by (auto simp: slot_def)
  have eq: "forked lo hi ?s c Q v = forked lo hi s c Q v" for v :: "'a mst_scheme"
    by (simp add: forked_def born_def img_def shared_def Let_def cong: if_cong option.case_cong)
  define v where "v = t\<lparr>u := (u t)\<lparr>r_val1 := p_pid (proc t c)\<rparr>, ar0 := (ar0 s)(EIP := returned (ar0 s EIP))\<rparr>"
  have "fork s = Ok () v"
    using k(2) assms(4,5) by (auto simp: fork_def fork_out_def krun kmod_run returned_def kbind_Ok [of "malloc_swap _", OF k(1)] kthen_Ok [of "mfree_swap _ _", OF k(3)]
        fork_scan_all may_fork_def kthen_Ok [of newproc, OF t(1)] v_def t(3,4) del: fun_upd_apply)
  moreover have "qlists_ok v (Q(None := c # Q None))" by (rule qlists_same [of t]) (use t(2) in \<open>simp_all add: forked_def v_def\<close>)
  then have "forked lo hi s c Q v" using t(2) unfolding eq v_def by (simp add: forked_def born_def Let_def)
  ultimately show ?thesis using k(4,5) t(3-5) by (intro exI [of _ v]) (simp add: v_def del: fun_upd_apply)
qed

end
