(* ===== verification/Image_Props.thy ===== *)
theory Image_Props
  imports Fork_Spec
begin

text \<open>
  The properties of process images: the page table of \<^verbatim>\<open>sureg\<close>, the resizing of \<^verbatim>\<open>sbreak\<close> and \<^verbatim>\<open>grow\<close>, and \<^verbatim>\<open>fork\<close>, with a
  demonstration state that has one process in core.
\<close>

section \<open>A process in core\<close>

text \<open>Process 5 in slot 2, at page 100: the user block, one page of data and one of stack. The pages from 200 on are free.\<close>

definition ms0 :: mst where
  "ms0 = \<lparr>u = user0\<lparr>u_procp := 2, u_dsize := 1, u_ssize := 1, u_arg := [8192, 0, 0, 0, 0]\<rparr>,
     proc = (\<lambda>_. proc0)(1 := proc0\<lparr>p_stat := SSLEEP, p_pid := 1, p_wchan := Some (Ch_proc 1)\<rparr>,
       2 := proc0\<lparr>p_stat := SRUN, p_flag := {SLOAD}, p_pid := 5, p_ppid := 1, p_addr := 100, p_size := 4\<rparr>),
     klog = [], time = 0, lbolt = 0, runq = None, slpque = (\<lambda>_. None)(0 := Some 1), curpri = 0,
     runrun = 0, runin = 0, runout = 0, mpid = 5, umem = (\<lambda>_. None), core = (\<lambda>_. 0),
     bufs = (\<lambda>_. buf0), buffers = (\<lambda>_. replicate 512 0), d_tab = [Dtab 0], nblkdev = 0, mdmem = (\<lambda>_ _. 0), mdsz = (\<lambda>_. 0), nread = 0, nreada = 0, ncache = 0,
     nwrite = 0, bufcount = (\<lambda>_. 0), swapdev = 0, swplo = 0, pdir = (\<lambda>_. None), inode = (\<lambda>_. inode0)(0 := inode0\<lparr>i_number := 2, i_count := 4\<rparr>),
     file_t = (\<lambda>_. \<lparr>f_flag = {}, f_count = 0, f_inode = 0, f_offset = 0\<rparr>),
     mount = (\<lambda>_. \<lparr>m_dev = 0, m_bufp = NULLB, m_inodp = None\<rparr>), rootdir = 0, rootdev = 0, pipedev = 0, rablock = 0, updlock = 0,
     text_t = (\<lambda>_. \<lparr>x_daddr = 0, x_caddr = 0, x_size = 0, x_iptr = None, x_count = 0, x_ccount = 0, x_flag = {}\<rparr>),
     swapmap = [\<lparr>m_size = 20000, m_addr = 1\<rparr>, \<lparr>m_size = 0, m_addr = 0\<rparr>, \<lparr>m_size = 0, m_addr = 0\<rparr>],
     coremap = [\<lparr>m_size = 50, m_addr = 200\<rparr>, \<lparr>m_size = 0, m_addr = 0\<rparr>, \<lparr>m_size = 0, m_addr = 0\<rparr>], mpxip = None,
     upt = (\<lambda>_. 0), uplo = 0, uphi = 1023, maxmem = 300, uarea = (\<lambda>_. user0), ar0 = (\<lambda>_. 0), acctp = None, ip_lock = 0, ip_req = 0, ip_addr = 0, ip_data = 0\<rparr>"

lemma ms0_me: "me ms0 = proc0\<lparr>p_stat := SRUN, p_flag := {SLOAD}, p_pid := 5, p_ppid := 1, p_addr := 100, p_size := 4\<rparr>"
  by (simp add: ms0_def)

lemma ms0_core: "units (coremap ms0) = {200 ..< 250}" "map_ok 50 1000 (coremap ms0)" "length (spare (coremap ms0)) = 2"
  by (auto simp: ms0_def units_def span_def active_def spare_def map_ok_def)

lemma ms0_swap: "units (swapmap ms0) = {1 ..< 20001}" "map_ok 1 30000 (swapmap ms0)" "length (spare (swapmap ms0)) = 2"
  by (auto simp: ms0_def units_def span_def active_def spare_def map_ok_def)

lemma ms0_ok: "resident 50 1000 ms0" "upt_ok ms0" "shaped ms0"
  using ms0_core unfolding resident_def ms0_me
  by (auto simp: proc0_def upt_ok_def shaped_def USIZE_def) (auto simp: ms0_def user0_def proc0_def)

section \<open>The page table\<close>

text \<open>C18: \<^verbatim>\<open>sureg\<close> loads the page table with exactly the address space of the running process: text pages from page 0 on, writable only when the
  text is; the data behind them and the stack at the top, both in the pages of the own image behind the user block; every other of the 1024 entries
  is zero, so nothing of the address space loaded before is left. It writes nothing but the table and its two bounds.\<close>

theorem sureg_maps:
  fixes s :: "'a mst_scheme"
  assumes "upt_ok s" "sizes_ok (u_utab (u s))" "page_no (p_addr (me s))" "page_no (text_page s (me s))" "u_utab (u s) 3 \<in> {RO, RW}"
  shows "\<exists>T. (let nt = u_utab (u s) 0; nd = u_utab (u s) 1; ns = u_utab (u s) 2; a = p_addr (me s) + USIZE;
       t = s\<lparr>uplo := nt + nd, uphi := 1023 - ns, upt := T\<rparr> in
     sureg s = Ok () t \<and> upt_ok t \<and>
     (\<forall>i. 0 \<le> i \<and> i < 1024 \<longrightarrow>
       (if i < nt then frame_no (T i) = text_page s (me s) + i \<and> (writable (T i) \<longleftrightarrow> u_utab (u s) 3 = RW)
        else if i < nt + nd then frame_no (T i) = a + (i - nt) \<and> writable (T i)
        else if 1024 - ns \<le> i then frame_no (T i) = a + nd + (i - (1024 - ns)) \<and> writable (T i)
        else T i = 0)))"
proof -
  have b: "writable 7" "\<not> writable 5" "RO = 5" "RW = 7" "0 \<le> (7 :: int)" "7 < PGSZ" "5 < PGSZ" by (simp_all add: writable_def bit_iff_odd RO_def RW_def PGSZ_def)
  have x: "0 \<le> u_utab (u s) 3" "u_utab (u s) 3 < PGSZ" "writable (u_utab (u s) 3) \<longleftrightarrow> u_utab (u s) 3 = RW" using assms(5) b by auto
  have m: "upt_ok (remap s)" using upt_set_remap [OF assms(2)] by (simp add: upt_set_def)
  show ?thesis
    using sureg_ok [OF assms(1,2) refl assms(3,4)] m
    by (intro exI [of _ "upt (remap s)"])
      (simp add: Let_def remap_def pte_def frame_or [OF x(1,2)] frame_or [OF b(5,6)] writable_or x(3) b(1) cong: if_cong)
qed

theorem sureg_maps_witness:
  "\<exists>T. sureg (ms0\<lparr>u := (u ms0)\<lparr>u_utab := (\<lambda>_. 0)(1 := 1, 2 := 1, 3 := RO)\<rparr>\<rparr>) =
     Ok () (ms0\<lparr>u := (u ms0)\<lparr>u_utab := (\<lambda>_. 0)(1 := 1, 2 := 1, 3 := RO)\<rparr>, uplo := 1, uphi := 1022, upt := T\<rparr>) \<and>
     frame_no (T 0) = 102 \<and> frame_no (T 1023) = 103 \<and> T 1 = 0"
proof -
  let ?s = "ms0\<lparr>u := (u ms0)\<lparr>u_utab := (\<lambda>_. 0)(1 := 1, 2 := 1, 3 := RO)\<rparr>\<rparr>"
  have m: "p_addr (me ?s) = 100" "text_page ?s (me ?s) = 100" by (simp_all add: ms0_def text_page_def proc0_def)
  have c: "upt_ok ?s" "sizes_ok (u_utab (u ?s))" using ms0_ok(2) by (simp_all add: upt_ok_def sizes_ok_def)
  obtain T where T: "sureg ?s = Ok () (?s\<lparr>uplo := 1, uphi := 1022, upt := T\<rparr>)"
    "\<And>i. 0 \<le> i \<Longrightarrow> i < 1024 \<Longrightarrow> (if i < 1 then frame_no (T i) = 102 + i \<and> writable (T i) else if 1023 \<le> i then frame_no (T i) = 103 + (i - 1023) \<and> writable (T i) else T i = 0)"
    using sureg_maps [OF c] unfolding m by (auto simp: page_no_def Let_def USIZE_def)
  show ?thesis using T(1) T(2) [of 0] T(2) [of 1] T(2) [of 1023] by (intro exI [of _ T]) simp
qed

section \<open>Resizing\<close>



text \<open>For a stack pointer below the stack \<^verbatim>\<open>grow\<close>, given a free run of core, returns true with the stack extended down until it includes the
  stack pointer: the old stack keeps its content at the end of the image, the new pages are zero, user block and data are kept, nothing
  outside the image changes, and the new page table maps the address.\<close>

theorem grow_covers:
  fixes s :: "'a mst_scheme"
  assumes "resident lo hi s" "upt_ok s" "shaped s" "0 \<le> sp" "sp \<le> USTK - u_ssize (u s) * PGSZ" "n = (USTK - sp) div PGSZ + 1"
    "u_tsize (u s) + u_dsize (u s) + n \<le> 1023" "u_tsize (u s) + u_dsize (u s) + n + USIZE \<le> maxmem s"
    "{r ..< r + (USIZE + u_dsize (u s) + n)} \<subseteq> units (coremap s)"
  shows "\<exists>t. grow sp s = Ok True t \<and> u_ssize (u t) = n \<and> USTK - n * PGSZ \<le> sp \<and> shaped t \<and>
     reshaped s (USIZE + u_dsize (u s)) (n - u_ssize (u s)) (u_ssize (u s)) t \<and> only_image lo hi s t \<and> upt_set t"
proof -
  have "(USTK - sp) mod PGSZ < PGSZ" by (simp add: PGSZ_def)
  then have "USTK - n * PGSZ \<le> sp" using div_mult_mod_eq [of "USTK - sp" PGSZ] unfolding assms(6) distrib_right by linarith
  then show ?thesis using grow_ok [OF assms] by blast
qed

theorem grow_covers_witness:
  "\<exists>t. grow (USTK - 10000) ms0 = Ok True t \<and> u_ssize (u t) = 3 \<and> upt_set t \<and> p_size (me t) = 6"
proof -
  have s: "u_tsize (u ms0) = 0" "u_ssize (u ms0) = 1" "u_dsize (u ms0) = 1" "maxmem ms0 = 300" by (simp_all add: ms0_def user0_def)
  have "\<exists>t. grow (USTK - 10000) ms0 = Ok True t \<and> u_ssize (u t) = 3 \<and> USTK - 3 * PGSZ \<le> USTK - 10000 \<and> shaped t \<and>
     reshaped ms0 (USIZE + u_dsize (u ms0)) (3 - u_ssize (u ms0)) (u_ssize (u ms0)) t \<and> only_image 50 1000 ms0 t \<and> upt_set t"
    by (rule grow_covers [OF ms0_ok, of _ _ 200]) (simp_all add: s ms0_core USTK_def PGSZ_def USIZE_def)
  then show ?thesis by (auto simp: s reshaped_def USIZE_def)
qed

section \<open>Creation\<close>

text \<open>C5: with swap space for the largest image, a free entry the caller may take and core for a second image, \<^verbatim>\<open>fork\<close> returns in the parent with
  the process id of the child, its program counter past the branch of the child. The child has a new process id that names no process or group,
  inherits user, group and priority, is first on the run queue and in core, its image is a copy of the parent's in pages that were free, and its user structure is the
  parent's; the counts of the open files, the text and the directories account for it; no other process and no other page changes.\<close>

theorem fork_copies:
  fixes s :: "'a mst_scheme"
  assumes "map_ok slo shi (swapmap s)" "2 \<le> length (spare (swapmap s))" "swap_room s" "may_fork s" "slot s = Some c"
    "resident lo hi s" "0 < p_size (me s)" "0 \<le> mpid s" "mpid s < 30000" "p_stat (me s) \<noteq> SNULL" "qlists_ok s Q" "\<forall>k. c \<notin> set (Q k)"
    "{r ..< r + p_size (me s)} \<subseteq> units (coremap s)"
  shows "\<exists>t. fork s = Ok () t \<and> forked lo hi s c Q t \<and> u t = (u s)\<lparr>r_val1 := p_pid (proc t c)\<rparr> \<and> ar0 t = (ar0 s)(EIP := returned (ar0 s EIP)) \<and>
     map_ok slo shi (swapmap t) \<and> units (swapmap t) = units (swapmap s)"
  using fork_ok [OF assms] .

lemma ms0_slot: "slot ms0 = Some 0" "u_uid (u ms0) = 0"
proof -
  obtain k where "NPROC = Suc k" by (simp add: NPROC_def)
  then show "slot ms0 = Some 0" "u_uid (u ms0) = 0" by (simp_all add: slot_def ms0_def proc0_def user0_def upt_conv_Cons del: upt_Suc)
qed

theorem fork_copies_witness:
  "\<exists>t. fork ms0 = Ok () t \<and> p_stat (proc t 0) = SRUN \<and> p_ppid (proc t 0) = 5 \<and> r_val1 (u t) = p_pid (proc t 0)"
proof -
  let ?Q = "(\<lambda>_. [])(Some 0 := [1])"
  have c: "2 \<le> length (spare (swapmap ms0))" using ms0_swap(3) by simp
  have r: "swap_room ms0" unfolding swap_room_def ms0_swap by (rule exI [of _ 1]) (simp add: ctod_def MAXMEM_def cint_def)
  have f: "may_fork ms0" by (simp add: may_fork_def ms0_slot)
  have q: "qlists_ok ms0 ?Q" by (auto simp: qlists_ok_def head_def links_def ms0_def proc0_def NPROC_def split: option.splits if_splits)
  have "\<exists>t. fork ms0 = Ok () t \<and> forked 50 1000 ms0 0 ?Q t \<and> u t = (u ms0)\<lparr>r_val1 := p_pid (proc t 0)\<rparr> \<and> ar0 t = (ar0 ms0)(EIP := returned (ar0 ms0 EIP)) \<and>
     map_ok 1 30000 (swapmap t) \<and> units (swapmap t) = units (swapmap ms0)"
    by (rule fork_copies [OF ms0_swap(2) c r f ms0_slot(1) ms0_ok(1) _ _ _ _ q, of 200]) (auto simp: ms0_me ms0_core proc0_def, auto simp: ms0_def)
  then show ?thesis by (auto simp: forked_def born_def Let_def ms0_me)
qed

text \<open>\<^verbatim>\<open>fork\<close> fails with ENOMEM when the swap map has no room for the largest image, and with EAGAIN when there is no free entry of the process table or an
  ordinary user would take the last one or has more than 25 processes; in each case nothing else changes but the program counter, and the space of the swap map is
  what it was.\<close>

theorem fork_refuses:
  fixes s :: "'a mst_scheme"
  assumes "map_ok slo shi (swapmap s)" "2 \<le> length (spare (swapmap s))" "\<not> (swap_room s \<and> may_fork s)"
  shows "\<exists>m. fork s = Ok () (s\<lparr>swapmap := m, u := (u s)\<lparr>u_error := (if swap_room s then EAGAIN else ENOMEM)\<rparr>, ar0 := (ar0 s)(EIP := returned (ar0 s EIP))\<rparr>) \<and>
     map_ok slo shi m \<and> units m = units (swapmap s)"
  using fork_refused [OF assms] .

theorem fork_refuses_witness:
  "\<exists>m. fork (ms0\<lparr>proc := (\<lambda>_. proc0\<lparr>p_stat := SRUN\<rparr>)\<rparr>) = Ok () (ms0\<lparr>proc := (\<lambda>_. proc0\<lparr>p_stat := SRUN\<rparr>), swapmap := m, u := (u ms0)\<lparr>u_error := EAGAIN\<rparr>,
     ar0 := (ar0 ms0)(EIP := returned 0)\<rparr>)"
proof -
  let ?s = "ms0\<lparr>proc := (\<lambda>_. proc0\<lparr>p_stat := SRUN\<rparr>)\<rparr>"
  have c: "map_ok 1 30000 (swapmap ?s)" "2 \<le> length (spare (swapmap ?s))" using ms0_swap by simp_all
  have r: "swap_room ?s" unfolding swap_room_def using ms0_swap(1) by (intro exI [of _ 1]) (simp add: ctod_def MAXMEM_def cint_def)
  have "slot ?s = None" by (simp add: slot_def find_None_iff)
  then have "\<not> (swap_room ?s \<and> may_fork ?s)" by (simp add: may_fork_def)
  from fork_refuses [OF c this] r show ?thesis by (auto simp: ms0_def)
qed

end
