(* ===== verification/Life_Spec.thy ===== *)
theory Life_Spec
  imports Fork_Spec
begin

text \<open>The end of a process: what \<^verbatim>\<open>exit\<close> leaves behind, and what \<^verbatim>\<open>wait\<close> reports.\<close>

unbundle bit_operations_syntax

section \<open>\<^verbatim>\<open>wait\<close>\<close>

text \<open>A child that \<^verbatim>\<open>wait\<close> reports: it has ended, or it has stopped and this has not been reported.\<close>

definition reportable :: "int \<Rightarrow> proc \<Rightarrow> bool" where
  "reportable pid q \<longleftrightarrow> p_ppid q = pid \<and> (p_stat q = SZOMB \<or> p_stat q = SSTOP \<and> SWTED \<notin> p_flag q)"

definition wait_report :: "nat \<Rightarrow> (unit, 'a kst_scheme) kmon" where
  "wait_report p =
     kbind (pget p id) (\<lambda>q.
     if p_stat q = SZOMB then reap p
     else
       kthen (pmod p (\<lambda>q. q\<lparr>p_flag := p_flag q \<union> {SWTED}\<rparr>))
       (umod (\<lambda>v. v\<lparr>r_val1 := p_pid q, r_val2 := push_bit 8 (int (fsig q)) OR 127\<rparr>)))"

lemma wait_scan_eq:
  assumes "0 \<le> f"
  shows "wait_scan ps f s =
    (let pid = p_pid (me s) in
     case find (\<lambda>p. reportable pid (proc s p)) ps of
       Some p \<Rightarrow> wait_report p s
     | None \<Rightarrow> if f \<noteq> 0 \<or> (\<exists>p\<in>set ps. p_ppid (proc s p) = pid) then Slept (Ch_proc (u_procp (u s))) PWAIT s
         else Ok () (s\<lparr>u := (u s)\<lparr>u_error := ECHILD\<rparr>\<rparr>))"
  using assms
proof (induction ps arbitrary: f)
  case Nil
  then show ?case by (simp add: krun ksleep_def)
next
  case (Cons p ps)
  show ?case
  proof (cases "p_ppid (proc s p) = p_pid (me s)")
    case True
    have "wait_scan ps (f + 1) s = (case find (\<lambda>p. reportable (p_pid (me s)) (proc s p)) ps of
        Some p \<Rightarrow> wait_report p s | None \<Rightarrow> Slept (Ch_proc (u_procp (u s))) PWAIT s)"
      using Cons.IH [of "f + 1"] Cons.prems by (simp add: Let_def split: option.split)
    with True show ?thesis
      by (auto simp: krun Let_def reportable_def wait_report_def split: option.split)
  next
    case False
    then show ?thesis using Cons.IH [OF Cons.prems] by (simp add: krun Let_def reportable_def cong: option.case_cong)
  qed
qed

section \<open>\<^verbatim>\<open>exit\<close>\<close>

text \<open>How a process may change while another one ends: nothing but its parent and its links, except that it may be woken.\<close>

definition roused :: "proc \<Rightarrow> proc \<Rightarrow> bool" where
  "roused x y \<longleftrightarrow> y = x\<lparr>p_link := p_link y, p_ppid := p_ppid y, p_stat := p_stat y, p_wchan := p_wchan y\<rparr> \<and>
     (p_stat y = p_stat x \<and> p_wchan y = p_wchan x \<or> p_stat y = SRUN \<and> p_wchan y = None \<and> (p_wchan x \<noteq> None \<or> p_stat x = SSTOP))"

lemma roused_refl: "roused x x"
  by (simp add: roused_def)

lemma roused_trans:
  assumes "roused x y" "roused y z"
  shows "roused x z"
proof -
  have "z = x\<lparr>p_link := p_link z, p_ppid := p_ppid z, p_stat := p_stat z, p_wchan := p_wchan z\<rparr>"
    using assms by (cases x; cases y; cases z) (simp add: roused_def)
  moreover have "p_stat z = p_stat x \<and> p_wchan z = p_wchan x \<or> p_stat z = SRUN \<and> p_wchan z = None \<and> (p_wchan x \<noteq> None \<or> p_stat x = SSTOP)"
    using assms unfolding roused_def by metis
  ultimately show ?thesis unfolding roused_def by blast
qed

lemma roused_sel: "roused x y \<Longrightarrow> p_pid y = p_pid x \<and> xp_xstat y = xp_xstat x \<and> xp_utime y = xp_utime x \<and> xp_stime y = xp_stime x \<and> p_flag y = p_flag x"
  by (cases x; cases y) (simp add: roused_def)

lemma roused_ppid: "roused x (y\<lparr>p_ppid := n\<rparr>) = roused x y"
  by (cases x; cases y) (auto simp: roused_def)

lemma moved_roused:
  assumes "moved P s Q t Q'" "\<And>p. p \<in> P \<Longrightarrow> p_wchan (proc s p) \<noteq> None \<or> p_stat (proc s p) = SSTOP"
  shows "roused (proc s q) (proc t q)" "p_ppid (proc t q) = p_ppid (proc s q)"
proof -
  have "nolink (proc t q) = (if q \<in> P then awake (nolink (proc s q)) else nolink (proc s q))" using assms(1) by (simp add: moved_def)
  with assms(2) [of q] show "roused (proc s q) (proc t q)" "p_ppid (proc t q) = p_ppid (proc s q)"
    by (cases "proc s q"; cases "proc t q"; auto simp: roused_def nolink_def awake_def split: if_splits)+
qed

text \<open>Stopped processes are on no queue.\<close>

definition parked :: "'a kst_scheme \<Rightarrow> (nat option \<Rightarrow> nat list) \<Rightarrow> bool" where
  "parked s Q \<longleftrightarrow> (\<forall>q. p_stat (proc s q) = SSTOP \<longrightarrow> (\<forall>k. q \<notin> set (Q k)))"

lemma parked_moved:
  assumes "moved P s Q t Q'" "parked s Q"
  shows "parked t Q'"
  unfolding parked_def
proof (intro allI impI)
  fix q k
  assume q: "p_stat (proc t q) = SSTOP"
  then have "q \<notin> P" "p_stat (proc s q) = SSTOP" using moved_wchan(2) [OF assms(1), of q] by (auto split: if_splits)
  then show "q \<notin> set (Q' k)" using assms by (cases k) (auto simp: moved_def parked_def)
qed

text \<open>Whoever runs now and did not before is on the run queue.\<close>

definition queued :: "'a kst_scheme \<Rightarrow> 'a kst_scheme \<Rightarrow> (nat option \<Rightarrow> nat list) \<Rightarrow> bool" where
  "queued s t Q \<longleftrightarrow> (\<forall>q. p_stat (proc t q) = SRUN \<longrightarrow> p_stat (proc s q) \<noteq> SRUN \<longrightarrow> q \<in> set (Q None))"

lemma queued_moved: "moved P t Q v Q' \<Longrightarrow> queued s t Q \<Longrightarrow> queued s v Q'"
  using moved_wchan(2) [of P t Q v Q'] by (auto simp: queued_def moved_def split: if_splits)

lemma queues_ppid:
  assumes "queues_ok h s Q"
  shows "queues_ok h (s\<lparr>proc := (proc s)(q := (proc s q)\<lparr>p_ppid := n\<rparr>)\<rparr>) Q"
  using assms qlists_nolink [of s Q "(proc s q)\<lparr>p_ppid := n\<rparr>" q] by (auto simp: queues_ok_def sleepers_ok_def)

text \<open>The orphans below \<open>j\<close> have been given away.\<close>

definition disowned :: "int \<Rightarrow> nat \<Rightarrow> 'a kst_scheme \<Rightarrow> 'a kst_scheme \<Rightarrow> bool" where
  "disowned pid j s t \<longleftrightarrow> (\<forall>q. roused (proc s q) (proc t q)) \<and> sched_frame s t \<and>
     (\<forall>q. p_ppid (proc t q) = (if q < j \<and> p_ppid (proc s q) = pid then 1 else p_ppid (proc s q))) \<and>
     (\<forall>q<j. p_ppid (proc s q) = pid \<longrightarrow> p_stat (proc t q) \<noteq> SSTOP)"

lemma disown_step:
  fixes s t :: "'a kst_scheme"
  assumes "disowned pid j s t" "queues_ok h t Q" "parked t Q" "j < NPROC" "h (Ch_proc 1) \<noteq> h Ch_runout" "queued s t Q"
  shows "\<exists>v Q'. disown h pid j t = Ok () v \<and> queues_ok h v Q' \<and> parked v Q' \<and> queued s v Q' \<and> disowned pid (Suc j) s v"
proof (cases "p_ppid (proc t j) = pid")
  case False
  then have "p_ppid (proc s j) \<noteq> pid" using assms(1) by (simp add: disowned_def split: if_splits)
  then have "disowned pid (Suc j) s t" using assms(1) by (auto simp: disowned_def less_Suc_eq)
  with False assms(2,3,6) show ?thesis by (intro exI [of _ t] exI [of _ Q]) (simp add: disown_def krun kret_run kwhen_def)
next
  case True
  obtain t1 Q1 P where t1: "wakeup h (Ch_proc 1) t = Ok () t1" "queues_ok h t1 Q1" "moved P t Q t1 Q1"
    "P \<subseteq> {p. p_wchan (proc t p) = Some (Ch_proc 1) \<or> p_wchan (proc t p) = Some Ch_runout}"
    using wakeup_moved [OF assms(2) disjI2 [OF assms(5)]] by blast
  have "p_wchan (proc t p) \<noteq> None \<or> p_stat (proc t p) = SSTOP" if "p \<in> P" for p using t1(4) that by auto
  note r1 = moved_roused [OF t1(3) this] and p1 = parked_moved [OF t1(3) assms(3)]
  define t2 where "t2 = t1\<lparr>proc := (proc t1)(j := (proc t1 j)\<lparr>p_ppid := 1\<rparr>)\<rparr>"
  have q2: "queues_ok h t2 Q1" unfolding t2_def by (rule queues_ppid [OF t1(2)])
  have p2: "parked t2 Q1" using p1 by (auto simp: parked_def t2_def)
  have k2: "queued s t2 Q1" using queued_moved [OF t1(3) assms(6)] by (simp add: queued_def t2_def)
  have r2: "roused (proc t q) (proc t2 q)" "p_ppid (proc t2 q) = (if q = j then 1 else p_ppid (proc t q))" for q
    using r1 by (auto simp: t2_def roused_ppid)
  have f2: "sched_frame t t2" using t1(3) by (simp add: moved_def t2_def sched_frame_def)
  have "\<exists>v Q'. kwhen (p_stat (proc t2 j) = SSTOP) (setrun h j) t2 = Ok () v \<and> queues_ok h v Q' \<and> parked v Q' \<and> queued s v Q' \<and> (\<forall>q. roused (proc t2 q) (proc v q)) \<and>
     (\<forall>q. p_ppid (proc v q) = p_ppid (proc t2 q)) \<and> sched_frame t2 v \<and> p_stat (proc v j) \<noteq> SSTOP"
  proof (cases "p_stat (proc t2 j) = SSTOP")
    case False
    then show ?thesis using q2 p2 k2 by (intro exI [of _ t2] exI [of _ Q1]) (simp add: kwhen_def kret_run roused_refl sched_frame_def)
  next
    case True
    have nq: "\<forall>k. j \<notin> set (Q1 k)" using p2 True by (simp add: parked_def)
    then have "p_wchan (proc t2 j) = None" using wchan_queue [OF q2, of j] by (cases "p_wchan (proc t2 j)") auto
    then have "ready h j t2 Q1" using q2 nq assms(4) True by (simp add: ready_def)
    from runs_swapper [OF this _ assms(5), of "WFUEL + 1"] obtain v Q' P' where v: "setrun_f (WFUEL + 1) h j t2 = Ok () v" "queues_ok h v Q'"
      "moved (insert j P') t2 Q1 v Q'" "P' \<subseteq> {p. p_wchan (proc t2 p) = Some Ch_runout}" unfolding runs_def by (auto simp: WFUEL_def NPROC_def)
    have "roused (proc t2 q) (proc v q)" "p_ppid (proc v q) = p_ppid (proc t2 q)" for q
      by (rule moved_roused [OF v(3)]; use v(4) True in auto)+
    then show ?thesis using v(1-3) parked_moved [OF v(3) p2] queued_moved [OF v(3) k2] moved_wchan(2) [OF v(3), of j] True
      by (intro exI [of _ v] exI [of _ Q']) (simp add: kwhen_def setrun_def moved_def)
  qed
  then obtain v Q' where v: "kwhen (p_stat (proc t2 j) = SSTOP) (setrun h j) t2 = Ok () v" "queues_ok h v Q'" "parked v Q'"
    "\<And>q. roused (proc t2 q) (proc v q)" "\<And>q. p_ppid (proc v q) = p_ppid (proc t2 q)" "sched_frame t2 v" "p_stat (proc v j) \<noteq> SSTOP" "queued s v Q'" by blast
  have r: "roused (proc t q) (proc v q)" for q using roused_trans [OF r2(1) v(4)] .
  have "disowned pid (Suc j) s v"
    unfolding disowned_def
  proof (intro conjI allI impI)
    show "roused (proc s q) (proc v q)" for q using assms(1) roused_trans [OF _ r, of "proc s q" q] by (simp add: disowned_def)
    show "sched_frame s v" using assms(1) f2 v(6) sched_frame_trans unfolding disowned_def by blast
    show "p_ppid (proc v q) = (if q < Suc j \<and> p_ppid (proc s q) = pid then 1 else p_ppid (proc s q))" for q
      using assms(1) True v(5) [of q] r2(2) [of q] unfolding disowned_def by (auto simp: less_Suc_eq)
    show "p_stat (proc v q) \<noteq> SSTOP" if "q < Suc j" "p_ppid (proc s q) = pid" for q
      using that v(7) r [of q] assms(1) unfolding disowned_def roused_def by (auto simp: less_Suc_eq)
  qed
  moreover have "disown h pid j t = Ok () v"
    using True v(1) by (simp add: disown_def krun kwhen_def [of True] kthen_Ok [of "wakeup _ _", OF t1(1)] t2_def del: One_nat_def)
  ultimately show ?thesis using v(2,3,8) by blast
qed

lemma disown_all:
  assumes "disowned pid j s t" "queues_ok h t Q" "parked t Q" "h (Ch_proc 1) \<noteq> h Ch_runout" "j \<le> NPROC" "queued s t Q"
  shows "\<exists>v Q'. kfor [j ..< NPROC] (disown h pid) t = Ok () v \<and> queues_ok h v Q' \<and> parked v Q' \<and> queued s v Q' \<and> disowned pid NPROC s v"
  using assms(5,1-3,6)
proof (induction j arbitrary: t Q rule: inc_induct)
  case base
  then show ?case by (intro exI [of _ t] exI [of _ Q]) (simp add: kret_run)
next
  case (step n)
  from disown_step [OF step.prems(1-3) step.hyps(2) assms(4) step.prems(4)] obtain v Q' where
    v: "disown h pid n t = Ok () v" "queues_ok h v Q'" "parked v Q'" "disowned pid (Suc n) s v" "queued s v Q'" by blast
  have "[n ..< NPROC] = n # [Suc n ..< NPROC]" using step.hyps by (simp add: upt_conv_Cons)
  then show ?case using step.IH [OF v(4,2,3,5)] by (simp add: kthen_Ok [of "disown _ _ _", OF v(1)])
qed

text \<open>The state in which the process \<open>p\<close> of \<open>s\<close> has ended with the status \<open>rv\<close>.\<close>

definition ended :: "nat \<Rightarrow> int \<Rightarrow> 'a kst_scheme \<Rightarrow> 'a kst_scheme \<Rightarrow> bool" where
  "ended p rv s t \<longleftrightarrow> p_stat (proc t p) = SZOMB \<and> p_pid (proc t p) = p_pid (proc s p) \<and> p_ppid (proc t p) = p_ppid (proc s p) \<and>
     xp_xstat (proc t p) = short rv \<and> xp_utime (proc t p) = cint (u_cutime (u s) + u_utime (u s)) \<and>
     xp_stime (proc t p) = cint (u_cstime (u s) + u_stime (u s)) \<and>
     (\<forall>q. q \<noteq> p \<longrightarrow> roused (proc s q) (proc t q)) \<and>
     (\<forall>q<NPROC. q \<noteq> p \<longrightarrow> p_ppid (proc s q) = p_pid (proc s p) \<longrightarrow> p_ppid (proc t q) = 1 \<and> p_stat (proc t q) \<noteq> SSTOP) \<and>
     (\<forall>q<NPROC. q \<noteq> p \<longrightarrow> p_ppid (proc s q) \<noteq> p_pid (proc s p) \<longrightarrow> p_ppid (proc t q) = p_ppid (proc s q))"

lemma exit_tail_ok:
  fixes s :: "'a kst_scheme"
  assumes "queues_ok h s Q" "parked s Q" "p < NPROC" "\<forall>k. p \<notin> set (Q k)" "p_stat (proc s p) = SRUN" "p_ppid (proc s p) \<noteq> p_pid (proc s p)"
    "find (\<lambda>q. p_ppid (proc s p) = p_pid (proc s q)) [0 ..< NPROC] = Some par" "h (Ch_proc 1) \<noteq> h Ch_runout" "h (Ch_proc par) \<noteq> h Ch_runout"
  shows "\<exists>t Q'. exit_tail h p rv s = Slept Ch_swtch 0 t \<and> ended p rv s t \<and> queues_ok h t Q' \<and>
     (\<forall>q. p_stat (proc t q) = SRUN \<longrightarrow> p_stat (proc s q) \<noteq> SRUN \<longrightarrow> q \<in> set (Q' None)) \<and>
     (p_wchan (proc s par) = Some (Ch_proc par) \<longrightarrow> p_stat (proc t par) = SRUN)"
proof -
  let ?z = "(proc s p)\<lparr>p_stat := SZOMB, xp_xstat := short rv, xp_utime := cint (u_cutime (u s) + u_utime (u s)), xp_stime := cint (u_cstime (u s) + u_stime (u s))\<rparr>"
  let ?pid = "p_pid (proc s p)"
  define z where "z = s\<lparr>proc := (proc s)(p := ?z)\<rparr>"
  have pw: "p_wchan (proc s p) = None" using wchan_queue [OF assms(1), of p] assms(4) by (cases "p_wchan (proc s p)") auto
  have "qlists_ok z Q" unfolding z_def by (rule qlists_nolink) (use assms(1) in \<open>auto simp: queues_ok_def\<close>)
  then have z: "queues_ok h z Q" "parked z Q" using assms(1,2,4) pw by (auto simp: queues_ok_def sleepers_ok_def parked_def z_def)
  have "disowned ?pid 0 z z" "queued z z Q" by (simp_all add: disowned_def roused_refl sched_frame_def queued_def)
  from disown_all [OF this(1) z assms(8) _ this(2)] obtain v Q1 where
    v: "kfor [0 ..< NPROC] (disown h ?pid) z = Ok () v" "queues_ok h v Q1" "queued z v Q1" "disowned ?pid NPROC z v" by auto
  note d = v(4) [unfolded disowned_def]
  have "p_pid (proc v q) = p_pid (proc s q)" for q using d roused_sel [of "proc z q" "proc v q"] by (auto simp: z_def split: if_splits)
  moreover have "p_ppid (proc v p) = p_ppid (proc s p)" using d assms(6) by (simp add: z_def)
  ultimately have f: "find (\<lambda>q. p_ppid (proc v p) = p_pid (proc v q)) [0 ..< NPROC] = Some par" using assms(7) by simp
  obtain t Q' P where t: "wakeup h (Ch_proc par) v = Ok () t" "queues_ok h t Q'" "moved P v Q1 t Q'" "{q. p_wchan (proc v q) = Some (Ch_proc par)} \<subseteq> P"
    "P \<subseteq> {q. p_wchan (proc v q) = Some (Ch_proc par) \<or> p_wchan (proc v q) = Some Ch_runout}"
    using wakeup_moved [OF v(2) disjI2 [OF assms(9)]] by blast
  have "p_wchan (proc v q) \<noteq> None \<or> p_stat (proc v q) = SSTOP" if "q \<in> P" for q using t(5) that by auto
  note m = moved_roused [OF t(3) this]
  have r: "roused (proc z q) (proc t q)" for q using roused_trans [OF _ m(1)] d by blast
  have pp: "p_ppid (proc t q) = p_ppid (proc v q)" for q using m(2) .
  have zz: "roused ?z (proc t p)" using r [of p] by (simp add: z_def)
  then have "p_stat (proc t p) = SZOMB" using pw unfolding roused_def by auto
  moreover have "p_ppid (proc t q) = 1 \<and> p_stat (proc t q) \<noteq> SSTOP" if "q < NPROC" "q \<noteq> p" "p_ppid (proc s q) = ?pid" for q
  proof -
    have "proc z q = proc s q" using that by (simp add: z_def)
    then have "p_ppid (proc v q) = 1" "p_stat (proc v q) \<noteq> SSTOP" using d that by simp_all
    then show ?thesis using m(1) [of q] unfolding pp by (auto simp: roused_def)
  qed
  moreover have "\<forall>q<NPROC. q \<noteq> p \<longrightarrow> p_ppid (proc s q) \<noteq> ?pid \<longrightarrow> p_ppid (proc t q) = p_ppid (proc s q)"
    using d unfolding pp by (simp add: z_def)
  moreover have "p_ppid (proc t p) = p_ppid (proc s p)" using d assms(6) unfolding pp by (simp add: z_def)
  moreover have "roused (proc s q) (proc t q)" if "q \<noteq> p" for q using r [of q] that by (simp add: z_def)
  ultimately have "ended p rv s t" using roused_sel [OF zz] by (simp add: ended_def)
  moreover have "exit_tail h p rv s = Slept Ch_swtch 0 t"
    unfolding exit_tail_def
    using f by (simp add: krun kthen_Ok [of "kfor _ _", OF v(1) [unfolded z_def]] kthen_Ok [of "wakeup _ _", OF t(1)] kswtch_def ksleep_def)
  moreover have "q \<in> set (Q' None)" if "p_stat (proc t q) = SRUN" "p_stat (proc s q) \<noteq> SRUN" for q
    using queued_moved [OF t(3) v(3)] that assms(5) unfolding queued_def by (auto simp: z_def split: if_splits)
  moreover have "p_stat (proc t par) = SRUN" if "p_wchan (proc s par) = Some (Ch_proc par)"
  proof -
    have "par \<noteq> p" using that pw by auto
    then have "roused (proc s par) (proc v par)" using d by (auto simp: z_def split: if_splits)
    then have "p_wchan (proc v par) = Some (Ch_proc par) \<or> p_stat (proc v par) = SRUN" using that by (auto simp: roused_def)
    then show ?thesis using t(4) moved_wchan(2) [OF t(3), of par] by auto
  qed
  ultimately show ?thesis using t(2) by (intro exI [of _ t] exI [of _ Q']) auto
qed

end
