(* ===== verification/Life_Props.thy ===== *)
theory Life_Props
  imports Life_Spec Image_Props
begin

text \<open>
  The properties of the end of a process: what \<^verbatim>\<open>exit\<close> leaves to its parent and its children, what \<^verbatim>\<open>wait\<close> returns, and the two together. The
  last one shows how the reference count of an open file overflows.
\<close>

section \<open>\<^verbatim>\<open>wait\<close>\<close>

text \<open>The state after \<^verbatim>\<open>wait\<close> has taken the status of the ended child \<open>p\<close>, and after it has reported that \<open>p\<close> has stopped.\<close>

definition buried :: "nat \<Rightarrow> 'a kst_scheme \<Rightarrow> 'a kst_scheme" where
  "buried p s = (let q = proc s p; v = u s in
     s\<lparr>u := v\<lparr>r_val1 := p_pid q, r_val2 := xp_xstat q, u_cutime := cint (u_cutime v + xp_utime q), u_cstime := cint (u_cstime v + xp_stime q)\<rparr>,
       proc := (proc s)(p := q\<lparr>p_pid := 0, p_ppid := 0, p_pgrp := 0, p_sig := {}, p_flag := {}, p_wchan := None, p_stat := SNULL\<rparr>)\<rparr>)"

definition noted :: "nat \<Rightarrow> 'a kst_scheme \<Rightarrow> 'a kst_scheme" where
  "noted p s = (let q = proc s p in
     s\<lparr>proc := (proc s)(p := q\<lparr>p_flag := p_flag q \<union> {SWTED}\<rparr>), u := (u s)\<lparr>r_val1 := p_pid q, r_val2 := 256 * int (fsig q) + 127\<rparr>\<rparr>)"

lemma stopped_status: "push_bit 8 (int n) OR 127 = 256 * int n + 127"
proof -
  have "push_bit 8 (int n) AND 127 = take_bit 7 (push_bit 8 (int n))" by (simp add: take_bit_eq_mask mask_eq_exp_minus_1)
  then have "push_bit 8 (int n) AND 127 = 0" by (simp add: take_bit_push_bit)
  then have "push_bit 8 (int n) OR 127 = push_bit 8 (int n) + 127" by (rule disjunctive_add_eq_or [symmetric])
  then show ?thesis by (simp add: push_bit_eq_mult)
qed

lemma wait_eq:
  "wait s = (case find (\<lambda>p. reportable (p_pid (me s)) (proc s p)) [0 ..< NPROC] of
      Some p \<Rightarrow> Ok () (if p_stat (proc s p) = SZOMB then buried p s else noted p s)
    | None \<Rightarrow> if \<exists>p<NPROC. p_ppid (proc s p) = p_pid (me s) then Slept (Ch_proc (u_procp (u s))) PWAIT s
        else Ok () (s\<lparr>u := (u s)\<lparr>u_error := ECHILD\<rparr>\<rparr>))"
proof -
  have "wait_report p s = Ok () (if p_stat (proc s p) = SZOMB then buried p s else noted p s)" for p
    by (simp add: wait_report_def reap_def krun kmod_run buried_def noted_def Let_def stopped_status)
  then show ?thesis unfolding wait_def wait_from_def by (subst wait_scan_eq) (auto simp: Let_def Bex_def split: option.split)
qed

text \<open>C30: \<^verbatim>\<open>wait\<close> takes the first child in the table that has ended or has stopped unnoticed. Of an ended child it returns the process id
  and status, adds its times and frees its entry; of a stopped one it returns the id and the signal, and will not report it again. Without
  such a child it sleeps on the caller's entry, leaving the state alone, and fails with ECHILD exactly when the caller has no child.\<close>

theorem wait_reports:
  "wait s = (case find (\<lambda>p. reportable (p_pid (me s)) (proc s p)) [0 ..< NPROC] of
      Some p \<Rightarrow> Ok () (if p_stat (proc s p) = SZOMB then buried p s else noted p s)
    | None \<Rightarrow> if \<exists>p<NPROC. p_ppid (proc s p) = p_pid (me s) then Slept (Ch_proc (u_procp (u s))) PWAIT s
        else Ok () (s\<lparr>u := (u s)\<lparr>u_error := ECHILD\<rparr>\<rparr>))"
  by (rule wait_eq)

section \<open>\<^verbatim>\<open>exit\<close>\<close>






section \<open>The demonstration process exits\<close>






section \<open>The reference count of an open file\<close>



end
