(* ===== verification/Mem.thy ===== *)
theory Mem
  imports Rdwri_Props
begin

text \<open>
  The memory special files (\<^verbatim>\<open>dev/mem.c\<close>): minor device 0 is physical memory, 1 the memory of the kernel, 2 the empty file. Physical memory is
  mapped from \<^verbatim>\<open>PHY\<close> on; an access to a kernel address goes through the page directory (\<open>physaddr\<close>) to \<open>core\<close>. The end of the kernel's
  data and the address of the user structure, which the loader sets, are arguments.
\<close>

section \<open>The driver\<close>

definition PHY :: int where "PHY = 1073741824"
definition KBASE :: int where "KBASE = 2143289344"
definition KSTK :: int where "KSTK = 2147090432"

definition mmvaloff :: "int \<Rightarrow> int \<Rightarrow> bool \<Rightarrow> (bool, 'a kst_scheme) kmon" where
  "mmvaloff kend uaddr k =
     kbind (uget u_offset) (\<lambda>off.
     if \<not> k \<and> off < 16777216 \<or> k \<and> (KBASE \<le> off \<and> off < kend \<or> uaddr \<le> off \<and> off < KSTK) then kret True
     else kthen (seterr ENXIO) (kret False))"

text \<open>The physical address behind \<^verbatim>\<open>(k ? 0 : PHY) + u.u_offset\<close>.\<close>

definition mm_addr :: "bool \<Rightarrow> 'a bst_scheme \<Rightarrow> int" where
  "mm_addr k s = physaddr (cuint ((if k then 0 else PHY) + u_offset (u s))) s"

text \<open>Both loops end after \<^verbatim>\<open>u_count\<close> bytes. \<^verbatim>\<open>c\<close> is not set when the offset is bad, but then it is not passed on.\<close>

fun mmread_loop :: "nat \<Rightarrow> int \<Rightarrow> int \<Rightarrow> bool \<Rightarrow> (unit, 'a bst_scheme) kmon" where
  "mmread_loop 0 kend uaddr k = kspin"
| "mmread_loop (Suc n) kend uaddr k =
     kbind (mmvaloff kend uaddr k) (\<lambda>ok.
     kbind (kget (\<lambda>s. core s (mm_addr k s))) (\<lambda>c.
     kbind (uget u_error) (\<lambda>e.
     if e \<noteq> 0 then kret ()
     else kbind (passc c) (\<lambda>r. if r \<ge> 0 then mmread_loop n kend uaddr k else kret ()))))"

definition mmread :: "int \<Rightarrow> int \<Rightarrow> int \<Rightarrow> (unit, 'a bst_scheme) kmon" where
  "mmread kend uaddr dev =
     (if minor dev = 2 then kret ()
      else kbind (uget u_count) (\<lambda>n. mmread_loop (nat n + 1) kend uaddr (minor dev = 1)))"

fun mmwrite_loop :: "nat \<Rightarrow> int \<Rightarrow> int \<Rightarrow> bool \<Rightarrow> (unit, 'a bst_scheme) kmon" where
  "mmwrite_loop 0 kend uaddr k = kspin"
| "mmwrite_loop (Suc n) kend uaddr k =
     kbind (uget u_error) (\<lambda>e.
     if e \<noteq> 0 then kret ()
     else kbind cpass (\<lambda>c.
       if c < 0 then kret ()
       else kbind (mmvaloff kend uaddr k) (\<lambda>ok.
         kthen (kwhen ok (kmod (\<lambda>s. s\<lparr>core := (core s)(mm_addr k s := c)\<rparr>)))
         (mmwrite_loop n kend uaddr k))))"

definition mmwrite :: "int \<Rightarrow> int \<Rightarrow> int \<Rightarrow> (unit, 'a bst_scheme) kmon" where
  "mmwrite kend uaddr dev =
     (if minor dev = 2 then umod (\<lambda>v. v\<lparr>u_count := 0\<rparr>)
      else kbind (uget u_count) (\<lambda>n. mmwrite_loop (nat n + 1) kend uaddr (minor dev = 1)))"

section \<open>Physical memory\<close>

text \<open>A transfer of \<open>n\<close> bytes inside the 16 megabytes that are mapped from \<^verbatim>\<open>PHY\<close> on.\<close>

definition mm_ready :: "nat \<Rightarrow> 'a bst_scheme \<Rightarrow> bool" where
  "mm_ready n s \<longleftrightarrow> fits_req n s \<and> u_count (u s) = int n \<and> u_error (u s) = 0 \<and> 0 \<le> u_offset (u s) \<and> u_offset (u s) + int n < 16777216 \<and>
     (\<forall>a. 0 \<le> a \<longrightarrow> a < 16777216 \<longrightarrow> physaddr (PHY + a) s = a)"

definition phys_bytes :: "(int \<Rightarrow> int) \<Rightarrow> int \<Rightarrow> nat \<Rightarrow> int list" where
  "phys_bytes m a n = map (\<lambda>k. m (a + int k) mod 256) [0 ..< n]"

definition stored :: "int \<Rightarrow> int list \<Rightarrow> (int \<Rightarrow> int) \<Rightarrow> int \<Rightarrow> int" where
  "stored a bs m = (\<lambda>x. if a \<le> x \<and> x < a + int (length bs) then bs ! nat (x - a) else m x)"

lemma stored_Nil: "stored a [] m = m"
  by (auto simp: stored_def fun_eq_iff)

lemma stored_Cons: "stored a (b # bs) m = stored (a + 1) bs (m(a := b))"
proof
  fix x
  consider "x = a" | "x < a" | "a + 1 \<le> x" by linarith
  then show "stored a (b # bs) m x = stored (a + 1) bs (m(a := b)) x"
  proof cases
    case 3
    then have "nat (x - a) = Suc (nat (x - (a + 1)))" by linarith
    then show ?thesis using 3 by (auto simp: stored_def)
  qed (auto simp: stored_def)
qed

lemma phys_bytes_Suc: "phys_bytes m a (Suc n) = m a mod 256 # phys_bytes m (a + 1) n"
  by (simp add: phys_bytes_def upt_conv_Cons map_Suc_upt [symmetric] comp_def algebra_simps del: upt_Suc)

lemma mm_addr_phys: "mm_ready n s \<Longrightarrow> mm_addr False s = u_offset (u s)"
  by (simp add: mm_ready_def mm_addr_def PHY_def)

lemma ustep_more [simp]: "u_error (ustep n v) = u_error v" "u_offset (ustep n v) = cint (u_offset v + n)"
  by (simp_all add: ustep_def)

lemma mm_ready_step:
  assumes "mm_ready (Suc n) s" "u t = ustep 1 (u s)" "umem t = umem s \<or> umem t = (umem s)(u_base (u s) \<mapsto> c)" "pdir t = pdir s"
  shows "mm_ready n t" "u_offset (u t) = u_offset (u s) + 1" "u_count (u t) = int n"
proof -
  have p: "physaddr a t = physaddr a s" for a using assms(4) by (simp add: physaddr_def)
  show o: "u_offset (u t) = u_offset (u s) + 1" using assms(1) by (simp add: mm_ready_def assms(2))
  have f: "fits_req (Suc n) s" using assms(1) by (simp add: mm_ready_def)
  show c: "u_count (u t) = int n" using fits_req_step(2) [OF f assms(2,3)] assms(1) by (simp add: mm_ready_def)
  show "mm_ready n t"
    using fits_req_step(1) [OF f assms(2,3)] assms(1) o c p unfolding mm_ready_def by (simp add: assms(2))
qed

lemma mmvaloff_phys:
  assumes "u_offset (u s) < 16777216"
  shows "mmvaloff kend uaddr False s = Ok True s"
  using assms by (simp add: mmvaloff_def krun kret_def)

lemma mmread_run:
  assumes "mm_ready n s" "0 < n"
  shows "mmread_loop (Suc n) kend uaddr False s = Ok () (s\<lparr>umem := poke (u_base (u s)) (phys_bytes (core s) (u_offset (u s)) n) (umem s), u := ustep (int n) (u s)\<rparr>)"
  using assms
proof (induction n arbitrary: s)
  case (Suc n)
  have r: "u_error (u s) = 0" "u_segflg (u s) = 0" "fits_req (Suc n) s" "u_offset (u s) < 16777216"
    using Suc.prems by (auto simp: mm_ready_def fits_req_def)
  obtain b where b: "umem s (u_base (u s)) = Some b" using fits_req_first [OF r(3)] by blast
  let ?c = "core s (u_offset (u s)) mod 256"
  define t where "t = s\<lparr>umem := (umem s)(u_base (u s) \<mapsto> ?c), u := ustep 1 (u s)\<rparr>"
  have st: "mm_ready n t" "u_offset (u t) = u_offset (u s) + 1" "u_count (u t) = int n" using mm_ready_step [OF Suc.prems(1), of t ?c] by (simp_all add: t_def)
  have t: "passc (core s (u_offset (u s))) s = Ok (if n = 0 then -1 else 0) t"
    using r b st(3) by (simp add: passc_def krun kret_def t_def)
  have v: "mmvaloff kend uaddr False s = Ok True s" by (rule mmvaloff_phys [OF r(4)])
  have go: "mmread_loop (Suc (Suc n)) kend uaddr False s = (if n = 0 then Ok () t else mmread_loop (Suc n) kend uaddr False t)"
    using r(1) by (simp add: krun kbind_Ok [of "passc _", OF t] kbind_Ok [of "mmvaloff _ _ _", OF v] mm_addr_phys [OF Suc.prems(1)] kret_def
        del: mmread_loop.simps(2) add: mmread_loop.simps(2) [of "Suc n"])
  have e: "t\<lparr>umem := poke (u_base (u t)) (phys_bytes (core t) (u_offset (u t)) n) (umem t), u := ustep (int n) (u t)\<rparr> =
    s\<lparr>umem := poke (u_base (u s)) (phys_bytes (core s) (u_offset (u s)) (Suc n)) (umem s), u := ustep (int (Suc n)) (u s)\<rparr>"
    unfolding phys_bytes_Suc poke_Cons st(2) by (simp add: t_def ustep_ustep)
  show ?case
  proof (cases "n = 0")
    case True
    have "ustep 0 (u t) = u t" using ustep_0 st(1) by (auto simp: mm_ready_def)
    then show ?thesis using go e True by (simp add: phys_bytes_def poke_Nil)
  next
    case False
    then show ?thesis using go e Suc.IH [OF st(1)] by simp
  qed
qed simp

lemma mmwrite_run:
  assumes "mm_ready n s"
  shows "mmwrite_loop (Suc n) kend uaddr False s = Ok () (s\<lparr>u := ustep (int n) (u s), core := stored (u_offset (u s) + 1) (ubytes (u_base (u s)) n s) (core s)\<rparr>)"
  using assms
proof (induction n arbitrary: s)
  case 0
  then have "u_count (u s) = 0" "u_error (u s) = 0" "ustep 0 (u s) = u s" using ustep_0 by (auto simp: mm_ready_def)
  moreover from this have "cpass s = Ok (-1) s" by (simp add: cpass_def krun kret_def)
  ultimately show ?case by (simp add: krun kbind_Ok [of cpass] kret_def ubytes_def stored_Nil)
next
  case (Suc n)
  have r: "u_error (u s) = 0" "u_segflg (u s) = 0" "u_count (u s) \<noteq> 0" "fits_req (Suc n) s" "u_offset (u s) + 1 < 16777216"
    using Suc.prems by (auto simp: mm_ready_def fits_req_def)
  obtain c where c: "umem s (u_base (u s)) = Some c" "0 \<le> c" "c < 256" using fits_req_first [OF r(4)] by blast
  define t where "t = s\<lparr>u := ustep 1 (u s)\<rparr>"
  have t: "cpass s = Ok c t" using r c by (simp add: cpass_def krun kret_def t_def)
  have st: "mm_ready n t" "u_offset (u t) = u_offset (u s) + 1" using mm_ready_step [OF Suc.prems, of t] by (simp_all add: t_def)
  have v: "mmvaloff kend uaddr False t = Ok True t" by (rule mmvaloff_phys) (use r st in simp)
  define w where "w = t\<lparr>core := (core t)(u_offset (u t) := c)\<rparr>"
  have wr: "mm_ready n w" using st(1) unfolding w_def mm_ready_def fits_req_def mapped_def by (simp add: physaddr_def)
  have "mmwrite_loop (Suc (Suc n)) kend uaddr False s = mmwrite_loop (Suc n) kend uaddr False w"
    using r(1) c(2) by (simp add: krun kbind_Ok [of cpass, OF t] kbind_Ok [of "mmvaloff _ _ _", OF v] mm_addr_phys [OF st(1)] w_def del: mmwrite_loop.simps(2) add: mmwrite_loop.simps(2) [of "Suc n"])
  also have "\<dots> = Ok () (w\<lparr>u := ustep (int n) (u w), core := stored (u_offset (u w) + 1) (ubytes (u_base (u w)) n w) (core w)\<rparr>)"
    by (rule Suc.IH [OF wr])
  also have "\<dots> = Ok () (s\<lparr>u := ustep (int (Suc n)) (u s), core := stored (u_offset (u s) + 1) (ubytes (u_base (u s)) (Suc n) s) (core s)\<rparr>)"
    unfolding ubytes_Suc stored_Cons using c(1) st(2) by (simp add: w_def t_def ustep_ustep ubytes_def)
  finally show ?case .
qed

text \<open>C35: reading \<open>n\<close> bytes of physical memory delivers to the process exactly the bytes from the offset of the file on. Writing is off by one:
  \<^verbatim>\<open>cpass\<close> has already moved the offset when \<^verbatim>\<open>mmwrite\<close> stores the byte, so the bytes of the process go to the addresses from the offset plus one on; the byte at the
  offset itself is not written. Both move the pointers by \<open>n\<close> and change nothing else.\<close>

theorem mm_moves:
  fixes s :: "'a bst_scheme"
  assumes "mm_ready n s" "0 < n" "minor dev = 0"
  shows "mmread kend uaddr dev s = Ok () (s\<lparr>umem := poke (u_base (u s)) (phys_bytes (core s) (u_offset (u s)) n) (umem s), u := ustep (int n) (u s)\<rparr>) \<and>
     mmwrite kend uaddr dev s = Ok () (s\<lparr>u := ustep (int n) (u s), core := stored (u_offset (u s) + 1) (ubytes (u_base (u s)) n s) (core s)\<rparr>)"
proof -
  have "u_count (u s) = int n" using assms(1) by (simp add: mm_ready_def)
  then show ?thesis using mmread_run [OF assms(1,2)] mmwrite_run [OF assms(1)] assms(3) by (simp add: mmread_def mmwrite_def krun del: mmread_loop.simps mmwrite_loop.simps)
qed

text \<open>A page directory that maps physical memory from \<^verbatim>\<open>PHY\<close> on.\<close>

definition linear_dir :: "int \<Rightarrow> (int \<Rightarrow> int) option" where
  "linear_dir d = Some (\<lambda>k. ((d - 256) * 1024 + k) * 4096)"

lemma linear_dir_ok:
  assumes "pdir s = linear_dir" "0 \<le> a" "a < 16777216"
  shows "physaddr (PHY + a) s = a"
proof -
  have e: "PHY + a = a + 256 * 4194304" "PHY + a = a + 262144 * 4096" "262144 + a div 4096 = a div 4096 + 256 * 1024" by (simp_all add: PHY_def)
  have 1: "(PHY + a) div 4194304 = 256 + a div 4194304" unfolding e(1) by simp
  have 2: "(PHY + a) div 4096 mod 1024 = a div 4096 mod 1024" unfolding e(2) by (simp only: div_mult_self1 e(3) mod_mult_self1)
  have 3: "(PHY + a) mod 4096 = a mod 4096" unfolding e(2) by (simp only: mod_mult_self1)
  have d: "a div 4194304 = a div 4096 div 1024" using zdiv_zmult2_eq [of 1024 a 4096] by simp
  have x: "(a div 4194304 * 1024 + a div 4096 mod 1024) * 4096 + a mod 4096 = a" unfolding d by (simp only: div_mult_mod_eq)
  define q k r where "q = a div 4194304" and "k = a div 4096 mod 1024" and "r = a mod 4096"
  have y: "(q * 1024 + k) * 4096 + r = a" using x unfolding q_def k_def r_def .
  have "physaddr (PHY + a) s = cuint (((256 + q - 256) * 1024 + k) * 4096 div 4096 * 4096 + r)"
    unfolding physaddr_def assms(1) linear_dir_def 1 2 3 q_def k_def r_def by simp
  also have "\<dots> = cuint a" using y by simp
  finally show ?thesis using assms(2,3) by simp
qed

theorem mm_moves_witness:
  "\<exists>t. mmwrite 0 0 0 (asking\<lparr>pdir := linear_dir\<rparr>) = Ok () t \<and> core t 0 = core asking 0 \<and> core t 1 = 7 \<and> core t 8 = 7"
proof -
  let ?s = "asking\<lparr>pdir := linear_dir\<rparr>"
  have f: "fits_req 8 ?s" by (auto simp: fits_req_def asking_def boot_st_def user0_def mapped_def)
  have p: "physaddr (PHY + a) ?s = a" if "0 \<le> a" "a < 16777216" for a by (rule linear_dir_ok [OF _ that]) simp
  have v: "u_count (u ?s) = 8" "u_error (u ?s) = 0" "u_offset (u ?s) = 0" "u_base (u ?s) = 100" by (simp_all add: asking_def user0_def)
  have "mm_ready 8 ?s" using f p v by (simp add: mm_ready_def)
  from mm_moves [OF this, of 0 0 0] have w: "mmwrite 0 0 0 ?s = Ok () (?s\<lparr>u := ustep 8 (u ?s), core := stored 1 (ubytes 100 8 ?s) (core ?s)\<rparr>)"
    unfolding v by (simp add: minor_def)
  have "ubytes 100 8 ?s = replicate 8 7" by (intro nth_equalityI) (simp_all add: ubytes_def asking_def)
  then show ?thesis using w by (simp add: stored_def nth_append)
qed

end
