(* ===== verification/Dsort.thy ===== *)
theory Dsort
  imports Bio_Spec
begin

text \<open>
  The seek sort for disks (\<^verbatim>\<open>dev/dsort.c\<close>): \<^verbatim>\<open>disksort\<close> puts a request into the queue of a device, which is linked through \<^verbatim>\<open>av_forw\<close> from
  \<^verbatim>\<open>b_actf\<close> (\<open>av_forw\<close> of the device table) to \<^verbatim>\<open>b_actl\<close> (its \<open>av_back\<close>). The cylinder \<^verbatim>\<open>b_cylin\<close> is \<^verbatim>\<open>b_resid\<close>.
\<close>

abbreviation reads :: "(bptr \<Rightarrow> buf) \<Rightarrow> bptr \<Rightarrow> bool" where
  "reads bs p \<equiv> B_READ \<in> b_flags (bs p)"

text \<open>The loop over the queue; it need not end on a queue that is not well formed.\<close>

partial_function (option) dsort_scan :: "(bptr \<Rightarrow> buf) \<Rightarrow> bptr \<Rightarrow> bptr \<Rightarrow> bptr \<Rightarrow> bptr option" where
  "dsort_scan bs bp ap tp =
     (if ap = NULLB then Some tp
      else if reads bs bp \<and> \<not> reads bs ap then Some (if tp = NULLB then ap else tp)
      else if \<not> reads bs bp \<and> reads bs ap then dsort_scan bs bp (av_forw (bs ap)) tp
      else if b_resid (bs ap) \<le> b_resid (bs bp) \<and> (tp = NULLB \<or> b_resid (bs ap) \<ge> b_resid (bs tp)) then dsort_scan bs bp (av_forw (bs ap)) ap
      else dsort_scan bs bp (av_forw (bs ap)) tp)"

definition disksort :: "bptr \<Rightarrow> bptr \<Rightarrow> (unit, 'a bst_scheme) kmon" where
  "disksort dp bp s =
     (let ap = av_forw (bufs s dp) in
      if ap = NULLB then Ok () (bmod bp (\<lambda>b. b\<lparr>av_forw := NULLB\<rparr>) (bmod dp (\<lambda>d. d\<lparr>av_forw := bp, av_back := bp\<rparr>) s))
      else
        (case dsort_scan (bufs s) bp ap NULLB of
           None \<Rightarrow> Spun
         | Some tp \<Rightarrow>
             (let tp = (if tp = NULLB then av_back (bufs s dp) else tp);
                  s = bmod bp (\<lambda>b. b\<lparr>av_forw := av_forw (bufs s tp)\<rparr>) s;
                  s = bmod tp (\<lambda>b. b\<lparr>av_forw := bp\<rparr>) s
              in Ok () (if tp = av_back (bufs s dp) then bmod dp (\<lambda>d. d\<lparr>av_back := bp\<rparr>) s else s))))"

section \<open>The queue\<close>

fun nseg :: "(bptr \<Rightarrow> bptr) \<Rightarrow> bptr \<Rightarrow> bptr list \<Rightarrow> bptr \<Rightarrow> bool" where
  "nseg nx p [] e \<longleftrightarrow> p = e"
| "nseg nx p (x # xs) e \<longleftrightarrow> p = x \<and> x \<noteq> NULLB \<and> nseg nx (nx x) xs e"

abbreviation nexts :: "'a bst_scheme \<Rightarrow> bptr \<Rightarrow> bptr" where
  "nexts s p \<equiv> av_forw (bufs s p)"

definition work_queue :: "bptr \<Rightarrow> bptr list \<Rightarrow> 'a bst_scheme \<Rightarrow> bool" where
  "work_queue dp xs s \<longleftrightarrow> distinct (dp # xs) \<and> nseg (nexts s) (av_forw (bufs s dp)) xs NULLB \<and> (xs \<noteq> [] \<longrightarrow> av_back (bufs s dp) = last xs)"

lemma nseg_append [simp]: "nseg nx p (xs @ y # ys) e \<longleftrightarrow> nseg nx p xs y \<and> y \<noteq> NULLB \<and> nseg nx (nx y) ys e"
  by (induction xs arbitrary: p) auto

lemma nseg_cong: "(\<And>x. x \<in> set xs \<Longrightarrow> nx' x = nx x) \<Longrightarrow> nseg nx' p xs e = nseg nx p xs e"
  by (induction xs arbitrary: p) auto

section \<open>The request to go behind\<close>

text \<open>The requests the new one is sorted among: for a read, the reads before the first write; for a write, all writes. Of those not beyond its
  cylinder it follows the last of the highest cylinder; without any it goes behind the first write, if it is a read and there is one, or else to the end.\<close>

definition peers :: "(bptr \<Rightarrow> buf) \<Rightarrow> bptr \<Rightarrow> bptr list \<Rightarrow> bptr list" where
  "peers bs bp xs = filter (\<lambda>p. b_resid (bs p) \<le> b_resid (bs bp))
     (if reads bs bp then takeWhile (reads bs) xs else filter (\<lambda>p. \<not> reads bs p) xs)"

definition nearest :: "(bptr \<Rightarrow> buf) \<Rightarrow> bptr list \<Rightarrow> bptr" where
  "nearest bs ps = last (filter (\<lambda>p. \<forall>q\<in>set ps. b_resid (bs q) \<le> b_resid (bs p)) ps)"

definition follow :: "(bptr \<Rightarrow> buf) \<Rightarrow> bptr \<Rightarrow> bptr list \<Rightarrow> bptr" where
  "follow bs bp xs =
     (if peers bs bp xs \<noteq> [] then nearest bs (peers bs bp xs)
      else if reads bs bp \<and> (\<exists>p\<in>set xs. \<not> reads bs p) then hd (filter (\<lambda>p. \<not> reads bs p) xs)
      else last xs)"

definition insert_after :: "'p \<Rightarrow> 'p \<Rightarrow> 'p list \<Rightarrow> 'p list" where
  "insert_after p b xs = takeWhile (\<lambda>x. x \<noteq> p) xs @ p # b # tl (dropWhile (\<lambda>x. x \<noteq> p) xs)"

text \<open>The loop as a fold over the peers.\<close>

definition better :: "(bptr \<Rightarrow> buf) \<Rightarrow> bptr \<Rightarrow> bptr \<Rightarrow> bptr" where
  "better bs a tp = (if tp = NULLB \<or> b_resid (bs a) \<ge> b_resid (bs tp) then a else tp)"

lemma has_max: "ps \<noteq> [] \<Longrightarrow> \<exists>p\<in>set ps. \<forall>q\<in>set ps. f q \<le> f p" for f :: "'p \<Rightarrow> int"
proof (induction ps)
  case (Cons a ps)
  show ?case
  proof (cases "ps = []")
    case False
    then obtain p where "p \<in> set ps" "\<forall>q\<in>set ps. f q \<le> f p" using Cons by blast
    then show ?thesis by (cases "f a \<le> f p") (auto intro: order_trans [of _ "f p" "f a"])
  qed simp
qed simp

lemma nearest_max:
  assumes "ps \<noteq> []"
  shows "nearest bs ps \<in> set ps \<and> (\<forall>q\<in>set ps. b_resid (bs q) \<le> b_resid (bs (nearest bs ps)))"
proof -
  let ?f = "\<lambda>p. \<forall>q\<in>set ps. b_resid (bs q) \<le> b_resid (bs p)"
  have "filter ?f ps \<noteq> []" using has_max [OF assms, of "\<lambda>p. b_resid (bs p)"] by (auto simp: filter_empty_conv)
  from last_in_set [OF this] show ?thesis unfolding nearest_def by auto
qed

lemma fold_better:
  assumes "NULLB \<notin> set ps" "tp \<noteq> NULLB"
  shows "fold (better bs) ps tp = nearest bs (tp # ps)"
  using assms
proof (induction ps arbitrary: tp rule: rev_induct)
  case Nil
  then show ?case by (simp add: nearest_def)
next
  case (snoc a ps)
  have IH: "fold (better bs) ps tp = nearest bs (tp # ps)" using snoc by simp
  let ?m = "nearest bs (tp # ps)"
  have st: "fold (better bs) (ps @ [a]) tp = better bs a ?m" by (simp add: IH)
  let ?f = "\<lambda>p. \<forall>q\<in>set (tp # ps). b_resid (bs q) \<le> b_resid (bs p)"
  have m: "?m \<in> set (tp # ps)" "?f ?m" using nearest_max [of "tp # ps" bs] by blast+
  have nn: "?m \<noteq> NULLB" using m(1) snoc.prems by auto
  show ?case
  proof (cases "b_resid (bs a) \<ge> b_resid (bs ?m)")
    case True
    then have "\<forall>q\<in>set (tp # ps @ [a]). b_resid (bs q) \<le> b_resid (bs a)" using m(2) by force
    then have "nearest bs (tp # ps @ [a]) = a" by (simp add: nearest_def)
    then show ?thesis using True unfolding st by (simp add: better_def)
  next
    case False
    define P where "P = (\<lambda>x. \<forall>q\<in>set (tp # ps @ [a]). b_resid (bs q) \<le> b_resid (bs x))"
    have "P x \<longleftrightarrow> ?f x" if "x \<in> set (tp # ps)" for x using False m(1) that unfolding P_def by force
    then have "filter P (tp # ps) = filter ?f (tp # ps)" by (intro filter_cong) auto
    moreover have "\<not> P a" using False m(1) unfolding P_def by force
    then have "filter P ((tp # ps) @ [a]) = filter P (tp # ps)" unfolding filter_append by simp
    ultimately have "nearest bs (tp # ps @ [a]) = ?m" unfolding nearest_def P_def by simp
    then show ?thesis using False nn unfolding st by (simp add: better_def)
  qed
qed

lemma fold_nearest:
  assumes "NULLB \<notin> set ps" "ps \<noteq> []"
  shows "fold (better bs) ps NULLB = nearest bs ps"
  using assms fold_better [of "tl ps" "hd ps" bs] by (cases ps) (auto simp: better_def [of bs _ NULLB])

lemma peers_Cons:
  "peers bs bp (x # xs) =
    (if reads bs bp = reads bs x then (if b_resid (bs x) \<le> b_resid (bs bp) then x # peers bs bp xs else peers bs bp xs)
     else if reads bs bp then [] else peers bs bp xs)"
  by (cases "reads bs bp"; cases "reads bs x") (simp_all add: peers_def)

lemma dsort_scan_fold:
  assumes "nseg nx ap xs NULLB" "nx = (\<lambda>p. av_forw (bs p))"
  shows "dsort_scan bs bp ap tp =
    (let t = fold (better bs) (peers bs bp xs) tp in
     Some (if t = NULLB \<and> reads bs bp \<and> (\<exists>p\<in>set xs. \<not> reads bs p) then hd (filter (\<lambda>p. \<not> reads bs p) xs) else t))"
  using assms(1)
proof (induction xs arbitrary: ap tp)
  case Nil
  then show ?case by (simp add: dsort_scan.simps [of bs bp NULLB] peers_def)
next
  case (Cons x xs)
  have a: "ap = x" "x \<noteq> NULLB" "nseg nx (av_forw (bs x)) xs NULLB" using Cons.prems assms(2) by auto
  note IH = Cons.IH [OF a(3)]
  consider (w) "reads bs bp" "\<not> reads bs x" | (skip) "\<not> reads bs bp" "reads bs x" | (peer) "reads bs bp = reads bs x" by blast
  then show ?case
  proof cases
    case w
    then show ?thesis using a(2) unfolding a(1) dsort_scan.simps [of bs bp x] by (simp add: peers_def)
  next
    case skip
    then show ?thesis using a(2) unfolding a(1) dsort_scan.simps [of bs bp x] IH by (simp add: peers_Cons)
  next
    case peer
    then have "dsort_scan bs bp ap tp =
        dsort_scan bs bp (av_forw (bs x)) (if b_resid (bs x) \<le> b_resid (bs bp) then better bs x tp else tp)"
      using a(2) unfolding a(1) dsort_scan.simps [of bs bp x] by (auto simp: better_def)
    then show ?thesis using peer unfolding IH by (cases "b_resid (bs x) \<le> b_resid (bs bp)") (simp_all add: peers_Cons Let_def cong: if_cong, blast+)
  qed
qed

lemma follow_in:
  assumes "xs \<noteq> []"
  shows "follow bs bp xs \<in> set xs"
proof -
  have s: "set (peers bs bp xs) \<subseteq> set xs" by (auto simp: peers_def dest: set_takeWhileD)
  have "hd (filter (\<lambda>p. \<not> reads bs p) xs) \<in> set xs" if "\<exists>p\<in>set xs. \<not> reads bs p"
    using hd_in_set [of "filter (\<lambda>p. \<not> reads bs p) xs"] that by (auto simp: filter_empty_conv)
  then show ?thesis using nearest_max [of "peers bs bp xs" bs] s assms by (auto simp: follow_def)
qed

lemma dsort_scan_follow:
  assumes "nseg (\<lambda>p. av_forw (bs p)) ap xs NULLB" "xs \<noteq> []" "NULLB \<notin> set xs" "z = last xs"
  shows "\<exists>tp. dsort_scan bs bp ap NULLB = Some tp \<and> (if tp = NULLB then z else tp) = follow bs bp xs"
proof -
  have s: "set (peers bs bp xs) \<subseteq> set xs" by (auto simp: peers_def dest: set_takeWhileD)
  have n: "fold (better bs) (peers bs bp xs) NULLB = (if peers bs bp xs = [] then NULLB else nearest bs (peers bs bp xs))"
    using fold_nearest [of "peers bs bp xs" bs] s assms(3) by auto
  have "peers bs bp xs \<noteq> [] \<Longrightarrow> nearest bs (peers bs bp xs) \<noteq> NULLB" using nearest_max [of "peers bs bp xs" bs] s assms(3) by auto
  moreover have "hd (filter (\<lambda>p. \<not> reads bs p) xs) \<noteq> NULLB" if "\<exists>p\<in>set xs. \<not> reads bs p"
    using hd_in_set [of "filter (\<lambda>p. \<not> reads bs p) xs"] that assms(3) by (auto simp: filter_empty_conv)
  ultimately show ?thesis unfolding dsort_scan_fold [OF assms(1) refl] n by (auto simp: follow_def assms(4) Let_def)
qed

lemma insert_after_split: "distinct (A @ p # B) \<Longrightarrow> insert_after p b (A @ p # B) = A @ p # b # B"
  by (simp add: insert_after_def takeWhile_stop dropWhile_stop) (induction A, auto)

section \<open>The insertion\<close>

lemma queue_NULLB: "nseg nx p xs e \<Longrightarrow> NULLB \<notin> set xs"
  by (induction xs arbitrary: p) auto

text \<open>What may change of a buffer header: the link, and for the device the two ends.\<close>

definition unlinked :: "buf \<Rightarrow> buf" where
  "unlinked b = b\<lparr>av_forw := NULLB, av_back := NULLB\<rparr>"

text \<open>C27: \<^verbatim>\<open>disksort\<close> always returns and puts the request into a well-formed queue of the device, behind the request the seek order gives: among the
  reads at the front of the queue, or among the writes, behind the last one of the highest cylinder that is not beyond its own; without such a request a read goes behind
  the first write and everything else to the end. No request is lost, duplicated or otherwise moved, and the first one, which the drive is working on, stays first.\<close>

theorem disksort_inserts:
  fixes s :: "'a bst_scheme"
  assumes "work_queue dp xs s" "bp \<notin> set (dp # xs)" "bp \<noteq> NULLB"
  shows "\<exists>t. disksort dp bp s = Ok () t \<and> work_queue dp (if xs = [] then [bp] else insert_after (follow (bufs s) bp xs) bp xs) t \<and>
     (\<forall>p. unlinked (bufs t p) = unlinked (bufs s p)) \<and> t = s\<lparr>bufs := bufs t\<rparr>"
proof (cases "xs = []")
  case True
  let ?t = "bmod bp (\<lambda>b. b\<lparr>av_forw := NULLB\<rparr>) (bmod dp (\<lambda>d. d\<lparr>av_forw := bp, av_back := bp\<rparr>) s)"
  have "av_forw (bufs s dp) = NULLB" using assms(1) True by (simp add: work_queue_def)
  then have "disksort dp bp s = Ok () ?t" by (simp add: disksort_def)
  moreover have "work_queue dp [bp] ?t" using assms(2,3) by (auto simp: work_queue_def bmod_def)
  moreover have "unlinked (bufs ?t p) = unlinked (bufs s p)" for p by (simp add: bmod_def unlinked_def)
  ultimately show ?thesis using True by (intro exI [of _ ?t]) (simp add: bmod_def)
next
  case False
  let ?f = "follow (bufs s) bp xs"
  have q: "distinct (dp # xs)" "nseg (nexts s) (nexts s dp) xs NULLB" "av_back (bufs s dp) = last xs" using assms(1) False by (auto simp: work_queue_def)
  have nn: "NULLB \<notin> set xs" using queue_NULLB [OF q(2)] .
  have ap: "nexts s dp \<noteq> NULLB" using q(2) False by (cases xs) auto
  obtain tp where tp: "dsort_scan (bufs s) bp (nexts s dp) NULLB = Some tp" "(if tp = NULLB then last xs else tp) = ?f"
    using dsort_scan_follow [OF q(2) False nn refl] by blast
  obtain f where ff: "?f = f" by blast
  obtain A B where x: "xs = A @ f # B" using split_list [OF follow_in [OF False, of "bufs s" bp]] unfolding ff by blast
  define t where "t = (let s = bmod f (\<lambda>b. b\<lparr>av_forw := bp\<rparr>) (bmod bp (\<lambda>b. b\<lparr>av_forw := nexts s f\<rparr>) s)
    in if f = last xs then bmod dp (\<lambda>d. d\<lparr>av_back := bp\<rparr>) s else s)"
  have e: "(if tp = NULLB then av_back (bufs s dp) else tp) = f" using tp(2) unfolding ff q(3) .
  have d: "f \<noteq> bp" "f \<noteq> dp" "bp \<noteq> dp" "bp \<notin> set A" "bp \<notin> set B" "dp \<notin> set A" "dp \<notin> set B" "f \<notin> set A" "f \<notin> set B" using assms(2) q(1) x by auto
  have run: "disksort dp bp s = Ok () t"
    unfolding disksort_def Let_def if_not_P [OF ap] tp(1) option.case e using d by (simp add: t_def Let_def bmod_def q(3))
  have ft: "nexts t = (nexts s)(bp := nexts s f, f := bp)" "av_back (bufs t dp) = (if f = last xs then bp else last xs)"
    using d q(3) by (auto simp: t_def bmod_def Let_def fun_eq_iff)
  have "nexts t dp = nexts s dp" "nexts t f = bp" "nexts t bp = nexts s f" using fun_cong [OF ft(1), of dp] fun_cong [OF ft(1), of f] fun_cong [OF ft(1), of bp] d by simp_all
  moreover have "nseg (nexts t) p A z = nseg (nexts s) p A z" "nseg (nexts t) p B z = nseg (nexts s) p B z" for p z
    by (rule nseg_cong; use fun_cong [OF ft(1)] d in force)+
  moreover have "nseg (nexts s) (nexts s dp) A f \<and> f \<noteq> NULLB \<and> nseg (nexts s) (nexts s f) B NULLB" using q(2) x by simp
  ultimately have "nseg (nexts t) (nexts t dp) (A @ f # bp # B) NULLB" using assms(3) by simp
  moreover have "f = last xs \<longleftrightarrow> B = []" using x d(9) by auto
  ultimately have wq: "work_queue dp (A @ f # bp # B) t" using q(1) assms(2) x ft(2) by (auto simp: work_queue_def)
  have ia: "(if xs = [] then [bp] else insert_after ?f bp xs) = A @ f # bp # B" unfolding ff using insert_after_split [of A f B bp] q(1) False by (simp add: x)
  have ul: "\<forall>p. unlinked (bufs t p) = unlinked (bufs s p)" by (simp add: t_def bmod_def unlinked_def Let_def)
  have "t = s\<lparr>bufs := bufs t\<rparr>" by (simp add: t_def bmod_def Let_def)
  with run wq ul show ?thesis unfolding ia by blast
qed

text \<open>Reads of the cylinders 5 and 9 are queued; a read of cylinder 7 goes between them.\<close>

definition seek_st :: bst where
  "seek_st = boot_st\<lparr>bufs := (\<lambda>_. buf0)(Dtab 0 := buf0\<lparr>av_forw := Buf 0, av_back := Buf 1\<rparr>,
     Buf 0 := buf0\<lparr>b_flags := {B_READ}, b_resid := 5, av_forw := Buf 1\<rparr>, Buf 1 := buf0\<lparr>b_flags := {B_READ}, b_resid := 9, av_forw := NULLB\<rparr>,
     Buf 2 := buf0\<lparr>b_flags := {B_READ}, b_resid := 7\<rparr>)\<rparr>"

theorem disksort_inserts_witness:
  "\<exists>t. disksort (Dtab 0) (Buf 2) seek_st = Ok () t \<and> work_queue (Dtab 0) [Buf 0, Buf 2, Buf 1] t"
proof -
  have q: "work_queue (Dtab 0) [Buf 0, Buf 1] seek_st" by (simp add: work_queue_def seek_st_def)
  have f: "insert_after (follow (bufs seek_st) (Buf 2) [Buf 0, Buf 1]) (Buf 2) [Buf 0, Buf 1] = [Buf 0, Buf 2, Buf 1]"
    by (simp add: follow_def peers_def nearest_def seek_st_def insert_after_def)
  show ?thesis using disksort_inserts [OF q, of "Buf 2"] f by auto
qed

end
