(* ===== verification/Spec2Isabelle.thy ===== *)
theory Spec2Isabelle
  imports Rmap Clist Prf Bio_Spec Alloc_Props Inode_Spec Readi_Spec Text Fio_Props Sys4 Proc_Spec Clock Tty_Props Ioctl
    Acct_Spec Image_Props Life_Props Mem Dsort
begin

text \<open>
  \<^bold>\<open>The kernel of Seventh Edition Unix for the PC\<close> (\<^verbatim>\<open>Unix_Research_v7_x86/usr/sys\<close>; all file names below are relative to it).

  \<^bold>\<open>Parts of the program.\<close> A process enters the kernel through a system call (\<^verbatim>\<open>sys2.c\<close>, \<^verbatim>\<open>sys3.c\<close>, \<^verbatim>\<open>sys4.c\<close>). File calls find an inode by
  path name (\<^verbatim>\<open>nami.c\<close>) or by descriptor (\<^verbatim>\<open>fio.c\<close>), hold it locked in the inode table (\<^verbatim>\<open>iget.c\<close>), map blocks of the file to blocks of the device
  (\<^verbatim>\<open>subr.c\<close>), allocate and free them through the super block (\<^verbatim>\<open>alloc.c\<close>), and move bytes between buffers and the process (\<^verbatim>\<open>rdwri.c\<close>, \<^verbatim>\<open>pipe.c\<close>).
  All blocks go through the buffer cache (\<^verbatim>\<open>dev/bio.c\<close>), which calls the driver (\<^verbatim>\<open>dev/md.c\<close>). Waiting is \<^verbatim>\<open>sleep\<close> on the address of an object,
  ended by \<^verbatim>\<open>wakeup\<close> (\<^verbatim>\<open>slp.c\<close>), signals (\<^verbatim>\<open>sig.c\<close>) and the clock (\<^verbatim>\<open>clock.c\<close>). Core and swap space are resource maps (\<^verbatim>\<open>malloc.c\<close>), shared
  texts a table over them (\<^verbatim>\<open>text.c\<close>), and terminals (\<^verbatim>\<open>dev/tty.c\<close>) queue characters in character lists (\<^verbatim>\<open>prim.c\<close>) between the process, which reads edited
  lines and writes into an output queue, and the interrupts of the serial line (\<^verbatim>\<open>dev/sr.c\<close>). A process is born by \<^verbatim>\<open>fork\<close>, changes its size by
  \<^verbatim>\<open>sbreak\<close> and by growing its stack, ends in \<^verbatim>\<open>exit\<close> and is collected by \<^verbatim>\<open>wait\<close> (\<^verbatim>\<open>sys1.c\<close>, \<^verbatim>\<open>sig.c\<close>); its image is moved and swapped by \<^verbatim>\<open>slp.c\<close> and mapped by \<^verbatim>\<open>utab.c\<close>,
  and what it has used is written to the accounting file (\<^verbatim>\<open>acct.c\<close>).

  \<^bold>\<open>The model.\<close> \<open>Prelude\<close> has the C integers (\<open>short\<close>, \<open>ushort\<close>, \<open>cint\<close>, \<open>cuint\<close>, \<open>cchar\<close> wrap as the types do) and the outcome of a kernel
  routine: \<open>Ok\<close> with a value, \<open>Slept\<close> at the point where the code calls \<^verbatim>\<open>sleep\<close>, \<open>Panicked\<close>, or \<open>Spun\<close> for a loop whose fuel ran out. Routines that
  keep state are functions from the kernel state to an outcome, composed with \<open>kbind\<close> and \<open>kthen\<close> in the order of the C statements. A sleep ends the
  segment: what follows in the C text runs when the process is resumed, in a state other processes have changed, and the loops that re-test their
  condition after a sleep are entered anew from their label. The state is a record that grows with the components: \<open>kst\<close> (\<open>Kstate\<close>: user
  structure, process table, run and sleep queues, time, memory of the process), \<open>bst\<close> (\<open>Bio\<close>: buffer headers, data, device lists, memory disks),
  \<open>fss\<close> (\<open>Fs\<close>: inodes, files, mounts), \<open>xst\<close> (\<open>Text\<close>: text table, resource maps), \<open>mst\<close> (\<open>Image\<close>: user page table, user structures of created processes, saved registers,
  accounting file, tracing), and beside them \<open>clk\<close> (\<open>Clock\<close>: callout table) with \<open>tst\<close> (\<open>Tty\<close>: character blocks, terminal structures, the line
  buffer, the state of the hardware). Flag words are
  sets of the named flags, tables are functions from indices, pointers into tables are indices, a null pointer is \<open>None\<close> or \<open>NULLB\<close>. Disk blocks are lists of
  bytes with the field layouts of \<^verbatim>\<open>h/filsys.h\<close>, \<^verbatim>\<open>h/fblk.h\<close> and \<^verbatim>\<open>h/ino.h\<close> (\<open>Bytes\<close>, \<open>Fs\<close>). An access outside an array, which C leaves undefined, is
  the outcome \<open>Panicked ''wild access''\<close>. Code outside the modelled files is an argument: the device switches, the hash of sleep channels, the
  routines called out of the callout table, profiling, and the padding bytes of \<^verbatim>\<open>struct stat\<close>. Interrupt priorities are not
  modelled: a segment runs without interruption by the disk, whose transfers complete inside the driver as those of the memory disk do.

  \<^bold>\<open>Theories, sources and results.\<close>
  \<^item> \<open>Rmap\<close>: \<^verbatim>\<open>sys/malloc.c\<close>. \<open>malloc\<close> and \<open>mfree_map\<close> refine first-fit allocation on a set of free units (locale \<open>unit_allocator\<close>); freeing restores; the map overflows.
  \<^item> \<open>Clist\<close>: \<^verbatim>\<open>sys/prim.c\<close>. \<open>getc\<close>, \<open>putc\<close>, \<open>getw\<close>, \<open>putw\<close>, \<open>q_to_b\<close>, \<open>b_to_q\<close>, \<open>ndqb\<close>, \<open>ndflush\<close>, \<open>cinit\<close> on linked blocks refine a queue (locale \<open>char_queue\<close>
    interpreted on them); the block routines agree with the single-character ones.
  \<^item> \<open>Dll\<close>, \<open>Bio\<close>, \<open>Bio_Inv\<close>, \<open>Bio_Ops\<close>, \<open>Bio_Spec\<close>: \<^verbatim>\<open>dev/bio.c\<close>, \<^verbatim>\<open>dev/md.c\<close>, \<open>binit\<close> of \<^verbatim>\<open>sys/main.c\<close>. The invariant \<open>bio_inv\<close> of the doubly linked lists
    and flags, kept by every routine; the logical content of a block (\<open>lcont\<close>: cached data, else the disk) as the contract of the cache for its
    clients, stated as the locale \<open>block_cache\<close> and interpreted on \<open>bread\<close>, \<open>bdwrite\<close> and \<open>brelse\<close>; reading, writing, read-ahead and flushing.
  \<^item> \<open>Dsort\<close>: \<^verbatim>\<open>dev/dsort.c\<close>. Where \<open>disksort\<close> puts a request into the queue of a disk. \<open>Mem\<close>: \<^verbatim>\<open>dev/mem.c\<close>. What reading physical memory delivers, and that writing it is off by one.
  \<^item> \<open>Prf\<close>: \<^verbatim>\<open>sys/prf.c\<close>. What \<open>printf\<close> prints reads back as the number.
  \<^item> \<open>Alloc\<close>, \<open>Alloc_Spec\<close>, \<open>Alloc_Props\<close>: \<^verbatim>\<open>sys/alloc.c\<close>, \<open>iinit\<close>. \<open>alloc\<close> and \<open>free\<close> refine a stack of free blocks kept in the super block and its chained
    groups (locale \<open>free_store\<close>); mounting the root establishes it.
  \<^item> \<open>Inode\<close>, \<open>Inode_Spec\<close>: \<^verbatim>\<open>sys/iget.c\<close>. The disk format round trip, what \<open>iupdat\<close> writes, and that \<open>iget\<close> keeps one entry per file.
  \<^item> \<open>Rdwri\<close>, \<open>Rdwri_Props\<close>, \<open>Bmap_Spec\<close>, \<open>Readi_Spec\<close>: \<^verbatim>\<open>sys/rdwri.c\<close>, \<^verbatim>\<open>sys/subr.c\<close>. The two copying algorithms agree, \<open>bmap\<close> finds the block a file defines, and
    \<open>readi\<close> delivers the bytes of the file: the composition of block map, cache and copying.
  \<^item> \<open>Text\<close>: \<^verbatim>\<open>sys/text.c\<close>; \<open>Fio\<close>: \<^verbatim>\<open>sys/fio.c\<close>; \<open>Namei\<close>: \<^verbatim>\<open>sys/nami.c\<close>; \<open>Pipe\<close>: \<^verbatim>\<open>sys/pipe.c\<close>; \<open>Sys2\<close>, \<open>Sys3\<close>, \<open>Sys4\<close>: the system calls of
    \<^verbatim>\<open>sys/sys2.c\<close>, \<^verbatim>\<open>sys/sys3.c\<close>, \<^verbatim>\<open>sys/sys4.c\<close>. \<open>Fio_Props\<close>: permission checks, descriptors, error returns, limits of \<open>nice\<close>, and the lock \<open>utime\<close> leaves behind.
  \<^item> \<open>Proc\<close>, \<open>Proc_Spec\<close>: \<^verbatim>\<open>sys/slp.c\<close>, \<^verbatim>\<open>sys/sig.c\<close>. \<open>wakeup\<close> on the hashed sleep queues, the choice of \<open>swtch\<close>, fresh process ids, priorities, and the case in
    which \<open>wakeup\<close> loses a sleeper.
  \<^item> \<open>Image\<close>: the rest of \<^verbatim>\<open>sys/slp.c\<close> (\<open>newproc\<close>, \<open>expand\<close>, \<open>swapin\<close>, \<open>sched\<close>) and \<^verbatim>\<open>sys/utab.c\<close>. Physical memory is \<open>core\<close>; an image is a run of its pages, with the user structure
    beside it (\<open>u\<close> of the running process, \<open>uarea\<close> of a created one). Where a routine calls \<^verbatim>\<open>swtch\<close> for good, the run ends as a sleep on \<open>Ch_swtch\<close>.
    \<open>Acct\<close>: \<^verbatim>\<open>sys/acct.c\<close>; \<open>Acct_Spec\<close>: the accuracy of its compressed times. \<open>Sys1\<close>: \<^verbatim>\<open>sys/sys1.c\<close> from \<open>setregs\<close> on, and \<open>stop\<close>, \<open>grow\<close> and \<open>ptrace\<close> of \<^verbatim>\<open>sys/sig.c\<close>; here calls of
    \<open>wakeup\<close> take effect, where the file system and the terminals log them. \<open>Image_Spec\<close>: memory by pages, the copying loops, the page table;
    \<open>Expand\<close>, \<open>Resize\<close>: what \<open>expand\<close>, \<open>sbreak\<close> and \<open>grow\<close> do to image, free core and page table, on the contract \<open>unit_allocator\<close> of the core map; \<open>Fork_Spec\<close>: \<open>newproc\<close> and
    \<open>fork\<close>; \<open>Life_Spec\<close>: \<open>exit\<close> and \<open>wait\<close> over the sleep queues. \<open>Image_Props\<close>, \<open>Life_Props\<close>: their properties, the passing of a status from \<open>exit\<close> to \<open>wait\<close>, and the overflow of the
    reference count of an open file.
  \<^item> \<open>Clock\<close>: \<^verbatim>\<open>sys/clock.c\<close>. The callout table with its relative times refines a sorted agenda.
  \<^item> \<open>Cpool\<close>: the contract of \<open>Clist\<close> for several queues that share the free list, each represented by a list of characters.
  \<^item> \<open>Tty\<close>, \<open>Ioctl\<close>: \<^verbatim>\<open>dev/tty.c\<close>, \<^verbatim>\<open>dev/partab.c\<close>, \<^verbatim>\<open>sys/fakemx.c\<close>; \<open>Sr\<close>: \<^verbatim>\<open>dev/sr.c\<close> over port instructions given as an argument, and \<^verbatim>\<open>dev/sys.c\<close>. \<open>Tty_Spec\<close>: the
    line editor as a function on lists of characters, and that \<open>canon\<close> computes it; \<open>Tty_Out\<close>: the rendering of an output character; \<open>Tty_Inv\<close>: the
    well-formed terminal, with the input side proved once for every driver that keeps to the locale \<open>tty_driver\<close>; \<open>Sr_Props\<close>: the serial driver as an
    interpretation of it, its transmission and the flow control of writers; \<open>Tty_Props\<close>: the properties of the terminal.

  \<^bold>\<open>Fuel.\<close> Loops of the code that need not end are run with fuel and the theorems show that it is enough where they say that a routine returns: the
  scans of the buffer lists and the retries of \<open>getblk\<close> get \<open>NBUF + 1\<close>, more than the buffers there are and than the delayed writes that can force a retry;
  \<open>readi_loop\<close> and \<open>writei_loop\<close> get one more than \<^verbatim>\<open>u_count\<close>, which every turn lowers; \<open>wakeup\<close> gets \<open>WFUEL\<close>, more than two walks over all processes; the search for a
  process id gets one turn per number and wrap-around; \<open>namei\<close> gets the size of the address space for the characters of a path; \<open>ttyoutput\<close> gets depth two, since what it
  calls itself with recurses no further; the loops that empty a queue of a terminal get one turn per queued character, \<open>ttwrite\<close> one per character to write; the
  receive loop of \<open>srintr\<close>, which the hardware ends, and the turns of \<open>sched\<close> between two sleeps take their bound as an argument.

  \<^bold>\<open>Not modelled.\<close> \<^verbatim>\<open>exec\<close> with \<open>getxfile\<close> and \<open>xalloc\<close>, \<open>psig\<close>, \<open>core\<close> and \<open>procxmt\<close>: they read and write the memory of the process through the page table they have just
  set up, while \<open>umem\<close>, the memory of the process as the file system and the system calls see it, is not derived from the page table; \<^verbatim>\<open>trap.c\<close> and
  \<^verbatim>\<open>machdep.c\<close> (hardware frames), \<open>main\<close> itself; drivers of PC
  hardware; the packet driver and the multiplexed files, which the shipped configurations leave out.
  \<open>panic\<close> ends a run as an outcome; the \<^verbatim>\<open>update\<close> it performs first is not run.
\<close>

end
